(* ===== verification/Prelude.thy ===== *)
theory Prelude
  imports Main "HOL-Library.AList" "HOL-Library.Monad_Syntax"
begin

section \<open>What the Go program takes from its language and standard library\<close>

text \<open>
  Shared vocabulary of the development: Go strings as byte strings, Go error values with
  \<open>errors.Is\<close>, Go maps as association lists (the order stands for one iteration order of the
  map), 64-bit signed integers with their wrap-around, instants as nanoseconds, and the generic
  lemmas about them that the component theories use.
\<close>

named_theorems go_simps \<open>unfolding rules for the state bookkeeping of the components\<close>
named_theorems inv_intros \<open>preservation lemmas of the component invariants\<close>

subsection \<open>Error values\<close>

text \<open>
  An \<open>error\<close> of Go is a value; \<open>nil\<close> is \<^const>\<open>None\<close> of \<open>gerr option\<close>. The sentinel errors of
  the program are constructors. \<open>Msg\<close> is \<open>errors.New\<close>, \<open>Errorf\<close> is \<open>fmt.Errorf\<close> without
  \<open>%w\<close>, \<open>Wrapf\<close> with it (the wrapped error is the last argument), \<open>Joined\<close> is the value of
  \<open>errors.Join\<close>. \<open>Rejected\<close> and \<open>Terminal\<close> are the delivery wrappers that unwrap;
  \<open>Uncertain\<close> and \<open>PartialStream\<close> carry an error but have no \<open>Unwrap\<close> method.
  \<open>Pausing\<close> is an error that answers \<open>PauseConversation\<close>; \<open>Panicked\<close> stands for a run-time panic of
  the call, which unwinds through the deferred releases and writes nothing.
\<close>

datatype gerr =
    Msg string
  | Errorf string "string list"
  | Wrapf string "string list" gerr
  | Joined "gerr list"
  | Canceled
  | DeadlineExceeded
  | EOF
  | UnexpectedEOF
  | NetError string
  | HTTPError int string int
  | ErrBudgetExhausted
  | ErrBudgetAccounting
  | ErrBudgetState
  | ErrNestedBudget
  | ErrApprovalState
  | ErrApprovalIdentity
  | ErrApprovalChanged
  | ErrApprovalExpired
  | ErrFence
  | ErrQuota
  | ErrContextBudget
  | ErrUnknownTool
  | Rejected gerr
  | Terminal gerr
  | Uncertain gerr
  | PartialStream gerr
  | Pausing bool string
  | Panicked string

text \<open>The error tree in the order \<open>errors.Is\<close> and \<open>errors.As\<close> walk it.\<close>

fun err_tree :: "gerr \<Rightarrow> gerr list" where
  "err_tree (Wrapf f xs e) = Wrapf f xs e # err_tree e"
| "err_tree (Joined es) = Joined es # concat (map err_tree es)"
| "err_tree (Rejected e) = Rejected e # err_tree e"
| "err_tree (Terminal e) = Terminal e # err_tree e"
| "err_tree e = [e]"

definition errors_is :: "gerr \<Rightarrow> gerr \<Rightarrow> bool" where
  "errors_is e target \<longleftrightarrow> target \<in> set (err_tree e)"

definition errors_as :: "(gerr \<Rightarrow> bool) \<Rightarrow> gerr \<Rightarrow> gerr option" where
  "errors_as p e = find p (err_tree e)"

text \<open>\<open>errors.Join\<close> drops nil errors and is nil when all are.\<close>

definition errors_join :: "gerr option list \<Rightarrow> gerr option" where
  "errors_join es = (let xs = concat (map (\<lambda>e. case e of None \<Rightarrow> [] | Some x \<Rightarrow> [x]) es)
                     in if xs = [] then None else Some (Joined xs))"

lemma errors_join_None [simp]: "errors_join [None, None] = None"
  by (simp add: errors_join_def)

lemma errors_join_eq_None [simp]: "errors_join [a, b] = None \<longleftrightarrow> a = None \<and> b = None"
  by (cases a; cases b) (auto simp: errors_join_def Let_def)

lemma errors_is_refl [simp]: "errors_is e e"
  by (cases e) (auto simp: errors_is_def)

lemma errors_is_Wrapf [simp]:
  "errors_is (Wrapf f xs e) t \<longleftrightarrow> t = Wrapf f xs e \<or> errors_is e t"
  by (auto simp: errors_is_def)

lemma errors_is_join:
  "errors_join es = Some e \<Longrightarrow> Some x \<in> set es \<Longrightarrow> errors_is x t \<Longrightarrow> errors_is e t"
  by (force simp: errors_join_def errors_is_def Let_def split: if_splits)

subsection \<open>Maps\<close>

text \<open>
  A Go \<open>map[string]T\<close> is an association list with distinct keys; the list order is the order
  in which a \<open>range\<close> loop visits the entries, which Go leaves open. \<open>mput\<close> assigns,
  \<open>mget\<close> reads with the comma-ok form, \<open>mdel\<close> deletes.
\<close>

type_synonym 'v gomap = "(string \<times> 'v) list"

definition mget :: "'v gomap \<Rightarrow> string \<Rightarrow> 'v option" where
  "mget m k = map_of m k"

definition mput :: "string \<Rightarrow> 'v \<Rightarrow> 'v gomap \<Rightarrow> 'v gomap" where
  "mput k v m = AList.update k v m"

definition mdel :: "string \<Rightarrow> 'v gomap \<Rightarrow> 'v gomap" where
  "mdel k m = AList.delete k m"

definition mkeys :: "'v gomap \<Rightarrow> string list" where
  "mkeys m = map fst m"

definition mvals :: "'v gomap \<Rightarrow> 'v list" where
  "mvals m = map snd m"

definition wf_map :: "'v gomap \<Rightarrow> bool" where
  "wf_map m \<longleftrightarrow> distinct (map fst m)"

lemma mget_Nil [simp]: "mget [] k = None"
  by (simp add: mget_def)

lemma mget_mput [simp]: "mget (mput k v m) k' = (if k' = k then Some v else mget m k')"
  by (simp add: mget_def mput_def update_conv')

lemma mget_mdel [simp]: "mget (mdel k m) k' = (if k' = k then None else mget m k')"
  by (simp add: mget_def mdel_def delete_conv')

lemma wf_map_Nil [simp]: "wf_map []"
  by (simp add: wf_map_def)

lemma wf_map_mput [simp, inv_intros]: "wf_map m \<Longrightarrow> wf_map (mput k v m)"
  by (simp add: wf_map_def mput_def distinct_update)

lemma wf_map_mdel [simp, inv_intros]: "wf_map m \<Longrightarrow> wf_map (mdel k m)"
  by (simp add: wf_map_def mdel_def distinct_delete)

lemma wf_map_Cons: "wf_map ((k, v) # m) \<longleftrightarrow> mget m k = None \<and> wf_map m"
  by (auto simp: wf_map_def mget_def map_of_eq_None_iff)

lemma mget_in_set: "mget m k = Some v \<Longrightarrow> (k, v) \<in> set m"
  by (simp add: mget_def map_of_SomeD)

lemma in_set_mget: "wf_map m \<Longrightarrow> (k, v) \<in> set m \<Longrightarrow> mget m k = Some v"
  by (simp add: mget_def wf_map_def)

lemma in_set_mget_iff: "wf_map m \<Longrightarrow> (k, v) \<in> set m \<longleftrightarrow> mget m k = Some v"
  by (blast intro: in_set_mget mget_in_set)

lemma mvals_iff: "wf_map m \<Longrightarrow> v \<in> set (mvals m) \<longleftrightarrow> (\<exists>k. mget m k = Some v)"
  by (force simp: mvals_def in_set_mget_iff [symmetric])

lemma set_mkeys_mput [simp]: "set (mkeys (mput k v m)) = insert k (set (mkeys m))"
  by (induction m) (auto simp: mkeys_def mput_def)

lemma mget_None_iff: "mget m k = None \<longleftrightarrow> k \<notin> set (mkeys m)"
  by (simp add: mget_def mkeys_def map_of_eq_None_iff)

text \<open>A predicate on every entry of a map, and its preservation by assignment.\<close>

definition mall :: "(string \<Rightarrow> 'v \<Rightarrow> bool) \<Rightarrow> 'v gomap \<Rightarrow> bool" where
  "mall P m \<longleftrightarrow> (\<forall>k v. mget m k = Some v \<longrightarrow> P k v)"

lemma mallD: "mall P m \<Longrightarrow> mget m k = Some v \<Longrightarrow> P k v"
  by (simp add: mall_def)

lemma mall_Nil [simp]: "mall P []"
  by (simp add: mall_def)

lemma mget_Cons [simp]: "mget ((k, v) # m) k' = (if k' = k then Some v else mget m k')"
  by (simp add: mget_def)

lemma mall_Cons: "mget m k = None \<Longrightarrow> mall P ((k, v) # m) \<longleftrightarrow> P k v \<and> mall P m"
  by (auto simp: mall_def)

lemma mall_mput [inv_intros]: "mall P m \<Longrightarrow> P k v \<Longrightarrow> mall P (mput k v m)"
  by (simp add: mall_def)

lemma mall_set: "wf_map m \<Longrightarrow> (\<forall>(k, v) \<in> set m. P k v) \<longleftrightarrow> mall P m"
  by (auto simp: mall_def in_set_mget_iff)

lemma mall_mono: "mall P m \<Longrightarrow> (\<And>k v. P k v \<Longrightarrow> Q k v) \<Longrightarrow> mall Q m"
  by (auto simp: mall_def)

text \<open>Summing an \<^typ>\<open>int\<close>-valued weight over the entries of a map.\<close>

definition msum :: "('v \<Rightarrow> int) \<Rightarrow> 'v gomap \<Rightarrow> int" where
  "msum f m = sum_list (map (f \<circ> snd) m)"

lemma msum_Nil [simp]: "msum f [] = 0"
  by (simp add: msum_def)

lemma msum_Cons [simp]: "msum f ((k, v) # m) = f v + msum f m"
  by (simp add: msum_def)

lemma msum_mput:
  "wf_map m \<Longrightarrow>
   msum f (mput k v m) = msum f m + f v - (case mget m k of None \<Rightarrow> 0 | Some w \<Rightarrow> f w)"
proof (induction m)
  case Nil
  then show ?case by (simp add: msum_def mput_def mget_def)
next
  case (Cons p m)
  obtain k' w where p: "p = (k', w)" by (cases p)
  with Cons.prems have m: "wf_map m" "mget m k' = None" by (simp_all add: wf_map_Cons)
  show ?case
  proof (cases "k' = k")
    case True
    then show ?thesis by (simp add: p mput_def mget_def)
  next
    case False
    then have "mput k v (p # m) = (k', w) # mput k v m" by (simp add: p mput_def)
    moreover have "mget (p # m) k = mget m k" using False by (simp add: p mget_def)
    ultimately show ?thesis using Cons.IH [OF m(1)] by (simp add: p)
  qed
qed

lemma msum_add: "msum (\<lambda>v. f v + g v) m = msum f m + msum g m"
  by (induction m) auto

lemma msum_cong: "(\<And>k v. (k, v) \<in> set m \<Longrightarrow> f v = g v) \<Longrightarrow> msum f m = msum g m"
  by (auto simp: msum_def intro!: arg_cong [where f = sum_list])

lemma msum_nonneg: "(\<And>k v. mget m k = Some v \<Longrightarrow> 0 \<le> f v) \<Longrightarrow> wf_map m \<Longrightarrow> 0 \<le> msum f m"
proof (induction m)
  case Nil
  then show ?case by simp
next
  case (Cons p m)
  obtain k v where p: "p = (k, v)" by (cases p)
  have "0 \<le> f v" using Cons.prems(1) [of k v] by (simp add: p mget_def)
  moreover have "0 \<le> msum f m"
  proof (rule Cons.IH)
    show "wf_map m" using Cons.prems(2) by (simp add: p wf_map_Cons)
    show "0 \<le> f u" if "mget m k' = Some u" for k' u
      using that Cons.prems by (intro Cons.prems(1) [of k']) (auto simp: p mget_def wf_map_Cons)
  qed
  ultimately show ?case by (simp add: p)
qed

subsection \<open>64-bit signed integers\<close>

definition MaxInt64 :: int where "MaxInt64 = 2 ^ 63 - 1"

definition MinInt64 :: int where "MinInt64 = - (2 ^ 63)"

definition is_int64 :: "int \<Rightarrow> bool" where
  "is_int64 x \<longleftrightarrow> MinInt64 \<le> x \<and> x \<le> MaxInt64"

text \<open>Two's complement wrap-around of \<open>int64\<close> arithmetic.\<close>

definition wrap64 :: "int \<Rightarrow> int" where
  "wrap64 x = (x + 2 ^ 63) mod 2 ^ 64 - 2 ^ 63"

definition add64 :: "int \<Rightarrow> int \<Rightarrow> int" where
  "add64 a b = wrap64 (a + b)"

definition mul64 :: "int \<Rightarrow> int \<Rightarrow> int" where
  "mul64 a b = wrap64 (a * b)"

lemma wrap64_id [simp]: "is_int64 x \<Longrightarrow> wrap64 x = x"
  by (simp add: is_int64_def wrap64_def MaxInt64_def MinInt64_def)

lemma is_int64_wrap64 [simp]: "is_int64 (wrap64 x)"
proof -
  have "0 \<le> (x + 2 ^ 63) mod 2 ^ 64 \<and> (x + 2 ^ 63) mod 2 ^ 64 < (2 ^ 64 :: int)" by simp
  then show ?thesis by (simp add: is_int64_def wrap64_def MaxInt64_def MinInt64_def)
qed

lemma add64_id: "0 \<le> a \<Longrightarrow> 0 \<le> b \<Longrightarrow> a + b \<le> MaxInt64 \<Longrightarrow> add64 a b = a + b"
  by (simp add: add64_def is_int64_def MinInt64_def)

lemma MaxInt64_nonneg [simp]: "0 \<le> MaxInt64"
  by (simp add: MaxInt64_def)

lemma MaxInt64_not_neg [simp]: "\<not> MaxInt64 < 0"
  by (simp add: MaxInt64_def)

subsection \<open>Instants and durations\<close>

text \<open>
  \<open>time.Time\<close> is an \<^typ>\<open>int\<close> of nanoseconds since Go's zero instant, so the zero value is
  \<open>0\<close>; \<open>time.Duration\<close> is an \<^typ>\<open>int\<close> of nanoseconds. \<open>a.Before(b)\<close> is \<open>a < b\<close>.
\<close>

type_synonym instant = int
type_synonym duration = int

definition Second :: duration where "Second = 1000000000"
definition Minute :: duration where "Minute = 60 * Second"
definition Hour :: duration where "Hour = 60 * Minute"

subsection \<open>Strings\<close>

text \<open>\<open>strings.TrimSpace\<close>, \<open>strings.HasPrefix\<close>, \<open>strings.Contains\<close>, \<open>strings.ToLower\<close> on ASCII text.\<close>

definition is_space :: "char \<Rightarrow> bool" where
  "is_space c \<longleftrightarrow> c \<in> {CHR '' '', CHR 0x09, CHR 0x0A, CHR 0x0B, CHR 0x0C, CHR 0x0D}"

definition TrimSpace :: "string \<Rightarrow> string" where
  "TrimSpace s = rev (dropWhile is_space (rev (dropWhile is_space s)))"

definition HasPrefix :: "string \<Rightarrow> string \<Rightarrow> bool" where
  "HasPrefix s p \<longleftrightarrow> take (length p) s = p"

fun Contains :: "string \<Rightarrow> string \<Rightarrow> bool" where
  "Contains [] p \<longleftrightarrow> p = []"
| "Contains (c # s) p \<longleftrightarrow> HasPrefix (c # s) p \<or> Contains s p"

definition ToLower :: "string \<Rightarrow> string" where
  "ToLower s = map (\<lambda>c. if 65 \<le> (of_char c :: nat) \<and> (of_char c :: nat) \<le> 90 then char_of (of_char c + 32 :: nat) else c) s"

text \<open>\<open>strings.FieldsFunc\<close>: the maximal runs of characters that satisfy \<open>p\<close>.\<close>

fun fields_by :: "(char \<Rightarrow> bool) \<Rightarrow> string \<Rightarrow> string \<Rightarrow> string list" where
  "fields_by p [] w = (if w = '''' then [] else [w])"
| "fields_by p (c # cs) w = (if p c then fields_by p cs (w @ [c]) else (if w = '''' then [] else [w]) @ fields_by p cs '''')"

lemma TrimSpace_Nil [simp]: "TrimSpace [] = []"
  by (simp add: TrimSpace_def)

text \<open>Decimal printing of natural numbers (\<open>%d\<close>).\<close>

fun Itoa :: "nat \<Rightarrow> string" where
  "Itoa n = (if n < 10 then [char_of (48 + n)] else Itoa (n div 10) @ [char_of (48 + n mod 10)])"

declare Itoa.simps [simp del]

text \<open>Left padding with zeros to a width (\<open>%03d\<close>).\<close>

definition pad0 :: "nat \<Rightarrow> string \<Rightarrow> string" where
  "pad0 w s = replicate (w - length s) (CHR ''0'') @ s"

subsection \<open>Sorting\<close>

text \<open>
  \<open>sort.Slice(out, less on an integer field)\<close>: the library's stable \<open>sort_key\<close>. Where the
  code uses the unstable \<open>sort.Slice\<close>, a statement about the result may only use what every
  sorted arrangement satisfies.
\<close>

lemma set_filter_sort [simp]: "set (sort_key f (filter P xs)) = {x \<in> set xs. P x}"
  by auto

subsection \<open>The text of an error\<close>

text \<open>\<open>Error()\<close>: the verbs of a format are replaced in order, \<open>%q\<close> with quotes; a wrapped error
  is the last argument (a format whose \<open>%w\<close> comes first is written with the wrapped text in
  its place). Sequences that \<open>%q\<close> would escape are left as they are.\<close>

fun Sprintf :: "string \<Rightarrow> string list \<Rightarrow> string" where
  "Sprintf [] args = []"
| "Sprintf [c] args = [c]"
| "Sprintf (c # v # rest) args =
     (if c = CHR ''%'' then
        (case args of
           [] \<Rightarrow> c # v # Sprintf rest []
         | a # as \<Rightarrow> (if v = CHR ''q'' then CHR 0x22 # a @ [CHR 0x22] else a) @ Sprintf rest as)
      else c # Sprintf (v # rest) args)"

fun join_with :: "string \<Rightarrow> string list \<Rightarrow> string" where
  "join_with sep [] = []"
| "join_with sep [x] = x"
| "join_with sep (x # y # ys) = x @ sep @ join_with sep (y # ys)"

definition newline :: string where "newline = [CHR 0x0A]"

fun Error :: "gerr \<Rightarrow> string" where
  "Error (Msg s) = s"
| "Error (Errorf f args) = Sprintf f args"
| "Error (Wrapf f args e) = Sprintf f (args @ [Error e])"
| "Error (Joined es) = join_with newline (map Error es)"
| "Error Canceled = ''context canceled''"
| "Error DeadlineExceeded = ''context deadline exceeded''"
| "Error EOF = ''EOF''"
| "Error UnexpectedEOF = ''unexpected EOF''"
| "Error (NetError s) = s"
| "Error (HTTPError st detail retry) = ''provider HTTP '' @ Itoa (nat st) @ '': '' @ detail"
| "Error ErrBudgetExhausted = ''model cost budget exhausted''"
| "Error ErrBudgetAccounting = ''model cost accounting requires reconciliation''"
| "Error ErrBudgetState = ''model cost budget persistence failed''"
| "Error ErrNestedBudget = ''nested model cost budget wrapper''"
| "Error ErrApprovalState = ''approval state does not allow operation''"
| "Error ErrApprovalIdentity = ''approval identity mismatch''"
| "Error ErrApprovalChanged = ''approved action changed''"
| "Error ErrApprovalExpired = ''approval expired''"
| "Error ErrFence = ''journal owner epoch changed''"
| "Error ErrQuota = ''worker rolling-hour quota exceeded''"
| "Error ErrContextBudget = ''protected context exceeds input budget''"
| "Error ErrUnknownTool = ''unknown tool''"
| "Error (Rejected e) = Error e"
| "Error (Terminal e) = Error e"
| "Error (Uncertain e) = Error e"
| "Error (PartialStream e) = Error e"
| "Error (Pausing p s) = s"
| "Error (Panicked s) = s"

subsection \<open>Reachability\<close>

text \<open>
  A component whose operations are atomic critical sections is a step relation; what one step
  keeps, every run keeps.
\<close>

locale stepper =
  fixes step :: "'s \<Rightarrow> 's \<Rightarrow> bool"
    and inv :: "'s \<Rightarrow> bool"
  assumes step_inv: "step s t \<Longrightarrow> inv s \<Longrightarrow> inv t"
begin

lemma run_inv: "step\<^sup>*\<^sup>* s t \<Longrightarrow> inv s \<Longrightarrow> inv t"
  by (induction rule: rtranclp.induct) (auto intro: step_inv)

lemma run_mono:
  assumes "step\<^sup>*\<^sup>* s t" and "inv s"
    and one: "\<And>a b. step a b \<Longrightarrow> inv a \<Longrightarrow> r a b"
    and refl: "\<And>a. r a a"
    and trans: "\<And>a b c. r a b \<Longrightarrow> r b c \<Longrightarrow> r a c"
  shows "r s t"
  using assms(1)
proof (induction rule: rtranclp_induct)
  case base
  then show ?case by (rule refl)
next
  case (step b c)
  then have "inv b" using run_inv assms(2) by blast
  with step show ?case by (blast intro: one trans)
qed

end

end
