(* ===== verification/Durable.thy ===== *)
theory Durable
  imports Prelude
begin

section \<open>The locked read/modify/replace transaction\<close>

text \<open>
  \<open>internal/durable/file.go\<close>: a \<open>File[T]\<close> is a JSON document under a process gate and an
  operating-system lock. One call of \<open>transaction\<close> is atomic with respect to every other call
  on the same path, so the model threads the content of the file through the operations in the
  order in which the lock is granted.

  The content is what decoding the file gives: absent (then \<open>T\<close> has its zero value), not
  decodable, or a value. What the environment decides is an argument: \<open>io\<close> holds the error of
  the part before the read (working directory, the gate or the context, \<open>MkdirAll\<close>, the lock),
  the error of \<open>ReadFile\<close>, and the outcome of encoding and replacing the file. \<open>Replace\<close>
  can fail after its rename, when only the directory sync fails: then the caller gets an error
  and the new content is in place.
\<close>

datatype 's content = Absent | Corrupt gerr | Holds 's

datatype replaced = Replaced | NotReplaced gerr | Unsynced gerr

record io =
  io_lock :: "gerr option"
  io_read :: "gerr option"
  io_replace :: replaced

definition io_ok :: io where
  "io_ok = \<lparr>io_lock = None, io_read = None, io_replace = Replaced\<rparr>"

fun decode :: "'s \<Rightarrow> 's content \<Rightarrow> gerr + 's" where
  "decode zero Absent = Inr zero"
| "decode zero (Corrupt e) = Inl e"
| "decode zero (Holds v) = Inr v"

text \<open>
  A callback is given the decoded value and returns the variables it captured together with
  either its error or the value to write; a callback that mutates its argument and then fails
  has its mutation dropped, since the file is not written.
\<close>

type_synonym ('s, 'o) callback = "'s \<Rightarrow> 'o \<times> (gerr + 's)"

definition transaction ::
  "io \<Rightarrow> 's \<Rightarrow> bool \<Rightarrow> 'o \<Rightarrow> ('s, 'o) callback \<Rightarrow> 's content \<Rightarrow> ('o \<times> gerr option) \<times> 's content"
where
  "transaction e zero write o0 fn d =
     (case io_lock e of Some x \<Rightarrow> ((o0, Some x), d)
      | None \<Rightarrow>
     (case io_read e of Some x \<Rightarrow> ((o0, Some x), d)
      | None \<Rightarrow>
     (case decode zero d of Inl x \<Rightarrow> ((o0, Some x), d)
      | Inr v \<Rightarrow>
     (case fn v of
        (o1, Inl x) \<Rightarrow> ((o1, Some x), d)
      | (o1, Inr v') \<Rightarrow>
          if \<not> write then ((o1, None), d)
          else (case io_replace e of
                  Replaced \<Rightarrow> ((o1, None), Holds v')
                | NotReplaced x \<Rightarrow> ((o1, Some x), d)
                | Unsynced x \<Rightarrow> ((o1, Some x), Holds v'))))))"

definition file_update ::
  "'s \<Rightarrow> io \<Rightarrow> 'o \<Rightarrow> ('s, 'o) callback \<Rightarrow> 's content \<Rightarrow> ('o \<times> gerr option) \<times> 's content" where
  "file_update zero e o0 fn d = transaction e zero True o0 fn d"

definition file_read :: "'s \<Rightarrow> io \<Rightarrow> 's content \<Rightarrow> 's \<times> gerr option" where
  "file_read zero e d = fst (transaction e zero False zero (\<lambda>v. (v, Inr v)) d)"

subsection \<open>What a client of the store may rely on\<close>

text \<open>
  The contract of the store, over the view \<open>holds d v\<close> (the file decodes to \<open>v\<close>): an update
  either leaves the file as it was or replaces the value the callback saw by the value it
  returned; success means the latter; a callback error leaves the file alone.
\<close>

locale durable_store =
  fixes upd :: "io \<Rightarrow> 'o \<Rightarrow> ('s, 'o) callback \<Rightarrow> 's content \<Rightarrow> ('o \<times> gerr option) \<times> 's content"
    and holds :: "'s content \<Rightarrow> 's \<Rightarrow> bool"
  assumes upd_atomic:
      "upd e o0 fn d = ((o1, x), d') \<Longrightarrow>
         d' = d \<or> (\<exists>v v'. holds d v \<and> fn v = (o1, Inr v') \<and> holds d' v')"
    and upd_done:
      "upd e o0 fn d = ((o1, None), d') \<Longrightarrow>
         \<exists>v v'. holds d v \<and> fn v = (o1, Inr v') \<and> holds d' v'"
    and upd_refused:
      "holds d v \<Longrightarrow> fn v = (o1, Inl y) \<Longrightarrow>
         snd (upd e o0 fn d) = d \<and> snd (fst (upd e o0 fn d)) \<noteq> None"
    and holds_fun: "holds d v \<Longrightarrow> holds d w \<Longrightarrow> v = w"
begin

text \<open>An invariant that the callback keeps is kept by the update, whatever the I/O does.\<close>

lemma upd_invariant:
  assumes "upd e o0 fn d = (r, d')"
    and start: "\<And>v. holds d v \<Longrightarrow> P v"
    and keep: "\<And>v o1 v'. P v \<Longrightarrow> fn v = (o1, Inr v') \<Longrightarrow> P v'"
    and "holds d' w"
  shows "P w"
proof -
  obtain o1 x where r: "r = (o1, x)" by (cases r)
  from upd_atomic [OF assms(1) [unfolded r]] show ?thesis
  proof
    assume "d' = d"
    with assms(4) start show ?thesis by simp
  next
    assume "\<exists>v v'. holds d v \<and> fn v = (o1, Inr v') \<and> holds d' v'"
    then obtain v v' where "holds d v" "fn v = (o1, Inr v')" "holds d' v'" by blast
    with assms(4) holds_fun start keep show ?thesis by metis
  qed
qed

text \<open>The same for a transition relation between the value before and the value after.\<close>

lemma upd_transition:
  assumes "upd e o0 fn d = (r, d')" and "holds d v" and "holds d' w"
    and refl: "R v v"
    and one: "\<And>o1 v'. fn v = (o1, Inr v') \<Longrightarrow> R v v'"
  shows "R v w"
proof -
  obtain o1 x where r: "r = (o1, x)" by (cases r)
  from upd_atomic [OF assms(1) [unfolded r]] assms(2,3) holds_fun refl one show ?thesis
    by metis
qed

end

lemma file_update_split:
  "file_update zero e o0 fn d = ((o1, x), d') \<Longrightarrow>
     (d' = d \<and> x \<noteq> None) \<or>
     (\<exists>v v'. decode zero d = Inr v \<and> fn v = (o1, Inr v') \<and> d' = Holds v')"
  by (auto simp: file_update_def transaction_def split: option.splits sum.splits prod.splits
        replaced.splits)

lemma file_update_cases:
  assumes "file_update zero e o0 fn d = ((o1, x), d')"
  obtains (unchanged) "d' = d" "x \<noteq> None"
  | (written) v v' where "decode zero d = Inr v" "fn v = (o1, Inr v')" "d' = Holds v'"
  using file_update_split [OF assms] by blast

lemma file_update_done:
  assumes "file_update zero e o0 fn d = ((o1, None), d')"
  obtains v v' where "decode zero d = Inr v" "fn v = (o1, Inr v')" "d' = Holds v'"
  using file_update_split [OF assms] by blast

lemma file_update_refused:
  "decode zero d = Inr v \<Longrightarrow> fn v = (o1, Inl y) \<Longrightarrow>
     snd (file_update zero e o0 fn d) = d \<and> snd (fst (file_update zero e o0 fn d)) \<noteq> None"
  by (simp add: file_update_def transaction_def split: option.split)

lemma file_update_io_ok [simp]:
  "decode zero d = Inr v \<Longrightarrow>
   file_update zero io_ok o0 fn d =
     (case fn v of (o1, Inl x) \<Rightarrow> ((o1, Some x), d) | (o1, Inr v') \<Rightarrow> ((o1, None), Holds v'))"
  by (simp add: file_update_def transaction_def io_ok_def split: prod.split sum.split)

lemma file_read_done: "file_read zero e d = (v, None) \<Longrightarrow> decode zero d = Inr v"
  by (auto simp: file_read_def transaction_def split: option.splits sum.splits)

lemma file_read_io_ok [simp]: "decode zero d = Inr v \<Longrightarrow> file_read zero io_ok d = (v, None)"
  by (simp add: file_read_def transaction_def io_ok_def)

interpretation durable_file: durable_store "file_update zero" "\<lambda>d v. decode zero d = Inr v"
  for zero
proof (unfold_locales, goal_cases)
  case (1 e o0 fn d o1 x d')
  then show ?case by (cases rule: file_update_cases) auto
next
  case (2 e o0 fn d o1 d')
  then show ?case by (rule file_update_done) auto
next
  case (3 d v fn o1 y e o0)
  then show ?case by (rule file_update_refused)
next
  case (4 d v w)
  then show ?case by simp
qed

end
