(* ===== verification/Tracing.thy ===== *)
theory Tracing
  imports Prelude
begin

section \<open>Trace identities carried by contexts\<close>

text \<open>
  \<open>internal/tracing/tracing.go\<close>. A \<open>context.Context\<close> is the record of the values the program
  attaches to it: the trace identity, the budget attempt (\<open>provider.budgetAttemptKey\<close>) and the
  requested model (\<open>provider.requestKey\<close>). Whether a context is cancelled changes over time,
  so \<open>ctx.Err()\<close> is a separate argument of the operations that look at it. Fresh random
  identifiers and the clock are arguments too.
\<close>

record identity =
  TraceID :: string
  SpanID :: string

definition no_identity :: identity where
  "no_identity = \<lparr>TraceID = '''', SpanID = ''''\<rparr>"

record go_context =
  cx_identity :: "identity option"
  cx_attempt :: "string option"
  cx_requested :: "string option"

definition background :: go_context where
  "background = \<lparr>cx_identity = None, cx_attempt = None, cx_requested = None\<rparr>"

definition Current :: "go_context \<Rightarrow> identity" where
  "Current ctx = (case cx_identity ctx of None \<Rightarrow> no_identity | Some i \<Rightarrow> i)"

definition Attach :: "go_context \<Rightarrow> identity \<Rightarrow> go_context" where
  "Attach ctx i = ctx\<lparr>cx_identity := Some i\<rparr>"

record trace_record =
  tr_identity :: identity
  tr_parent :: string
  tr_name :: string
  tr_started :: instant
  tr_finished :: instant
  tr_outcome :: string

text \<open>The span a \<open>Start\<close> opens: what its end function closes over.\<close>

record span =
  sp_identity :: identity
  sp_parent :: identity
  sp_name :: string
  sp_started :: instant
  sp_ended :: bool

definition Start :: "go_context \<Rightarrow> string \<Rightarrow> bool \<Rightarrow> string \<Rightarrow> string \<Rightarrow> instant \<Rightarrow> go_context \<times> span" where
  "Start ctx name as_root new_trace new_span now =
     (let parent = Current ctx;
          fresh = as_root \<or> TraceID parent = '''';
          i = \<lparr>TraceID = (if fresh then new_trace else TraceID parent), SpanID = new_span\<rparr>;
          par = (if fresh then no_identity else parent)
      in (Attach ctx i,
          \<lparr>sp_identity = i, sp_parent = par, sp_name = name, sp_started = now, sp_ended = False\<rparr>))"

definition span_outcome :: "gerr option \<Rightarrow> string" where
  "span_outcome err =
     (case err of None \<Rightarrow> ''completed''
      | Some e \<Rightarrow> if errors_is e Canceled then ''cancelled''
                  else if errors_is e DeadlineExceeded then ''timed_out''
                  else ''failed'')"

text \<open>
  The end function: a second call does nothing (\<open>sync.Once\<close>); a sink that refuses the record
  is counted as lost. The result is the span, the record handed to the sink, and the counter.
\<close>

definition end_span ::
  "bool \<Rightarrow> (trace_record \<Rightarrow> bool) \<Rightarrow> span \<Rightarrow> gerr option \<Rightarrow> instant \<Rightarrow> nat
     \<Rightarrow> span \<times> trace_record option \<times> nat" where
  "end_span has_sink sink_fails sp err now lost =
     (if sp_ended sp then (sp, None, lost)
      else if \<not> has_sink then (sp\<lparr>sp_ended := True\<rparr>, None, lost)
      else (let r = \<lparr>tr_identity = sp_identity sp, tr_parent = SpanID (sp_parent sp),
                     tr_name = sp_name sp, tr_started = sp_started sp, tr_finished = now,
                     tr_outcome = span_outcome err\<rparr>
            in (sp\<lparr>sp_ended := True\<rparr>, Some r, if sink_fails r then lost + 1 else lost)))"

lemma Current_Attach [simp]: "Current (Attach ctx i) = i"
  by (simp add: Current_def Attach_def)

text \<open>A child span stays in its parent's trace and names it as parent; a root starts a trace.\<close>

lemma Start_child:
  "TraceID (Current ctx) \<noteq> '''' \<Longrightarrow>
   Start ctx name False nt ns now = (ctx', sp) \<Longrightarrow>
     TraceID (Current ctx') = TraceID (Current ctx) \<and> sp_parent sp = Current ctx"
  by (auto simp: Start_def Let_def)

lemma Start_root:
  "Start ctx name True nt ns now = (ctx', sp) \<Longrightarrow>
     TraceID (Current ctx') = nt \<and> sp_parent sp = no_identity"
  by (auto simp: Start_def Let_def)

lemma end_span_once:
  "end_span h f sp err now lost = (sp', r, lost') \<Longrightarrow>
   end_span h f sp' err' now' lost' = (sp', None, lost')"
  by (auto simp: end_span_def Let_def split: if_splits)

end
