(* ===== verification/Pricing.thy ===== *)
theory Pricing
  imports Complex_Main Prelude
begin

section \<open>Token usage and fixed prices\<close>

text \<open>
  \<open>internal/provider/usage.go\<close> and the price part of \<open>internal/provider/budget.go\<close>. Prices are
  \<open>int64\<close> nano-dollars per million tokens. The products and sums of \<open>cost\<close> are computed by
  the code in \<open>math/big\<close>, so they are unbounded integers here; only the quotient must fit in
  64 bits.
\<close>

record usage =
  InputTokens :: int
  OutputTokens :: int
  CacheReadTokens :: int
  CacheWriteTokens :: int
  Complete :: bool

definition no_usage :: usage where
  "no_usage = \<lparr>InputTokens = 0, OutputTokens = 0, CacheReadTokens = 0, CacheWriteTokens = 0,
     Complete = False\<rparr>"

text \<open>The wire form keeps the presence of every field; \<open>wDetails\<close> is the optional object with
  its optional \<open>cached_tokens\<close>.\<close>

record wire_usage =
  wInput :: "int option"
  wOutput :: "int option"
  wCacheRead :: "int option"
  wCacheWrite :: "int option"
  wDetails :: "int option option"

definition opt0 :: "int option \<Rightarrow> int" where
  "opt0 x = (case x of None \<Rightarrow> 0 | Some n \<Rightarrow> n)"

definition Normalized :: "wire_usage \<Rightarrow> bool \<Rightarrow> usage" where
  "Normalized w inputIncludesCache =
     (let cr = (case wDetails w of Some (Some c) \<Rightarrow> c | _ \<Rightarrow> opt0 (wCacheRead w));
          cw = opt0 (wCacheWrite w);
          outp = opt0 (wOutput w);
          inp = (if inputIncludesCache then opt0 (wInput w) - (cr + cw) else opt0 (wInput w))
      in \<lparr>InputTokens = inp, OutputTokens = outp, CacheReadTokens = cr, CacheWriteTokens = cw,
          Complete = (wInput w \<noteq> None \<and> wOutput w \<noteq> None \<and> inp \<ge> 0 \<and> outp \<ge> 0 \<and> cr \<ge> 0 \<and> cw \<ge> 0)\<rparr>)"

record fixed_price =
  pInput :: int
  pOutput :: int
  pCacheRead :: int
  pCacheWrite :: int

definition NanoUSDPerDollar :: int where "NanoUSDPerDollar = 1000000000"

text \<open>
  A configured \<open>float64\<close>: not a number, infinite, or finite. \<open>strconv.FormatFloat\<close> with
  precision \<open>-1\<close> prints the shortest decimal that reads back as the float; a finite value is
  given by that decimal, as the rational \<open>big.Rat.SetString\<close> makes of it.
\<close>

datatype usd = NaN | Infinite | Decimal rat

definition ceil_quo :: "int \<Rightarrow> int \<Rightarrow> int" where
  "ceil_quo n d = (let q = n div d; rem = n mod d in if rem > 0 then q + 1 else q)"

fun MoneyFromUSD :: "usd \<Rightarrow> gerr + int" where
  "MoneyFromUSD NaN = Inl (Msg ''invalid USD amount'')"
| "MoneyFromUSD Infinite = Inl (Msg ''invalid USD amount'')"
| "MoneyFromUSD (Decimal v) =
     (if v < 0 then Inl (Msg ''invalid USD amount'')
      else (case quotient_of (v * of_int NanoUSDPerDollar) of (num, den) \<Rightarrow>
        (let q = ceil_quo num den
         in if \<not> is_int64 q then Inl (Msg ''USD amount overflow'') else Inr q)))"

record usd_price =
  uInput :: usd
  uOutput :: usd
  uCacheRead :: usd
  uCacheWrite :: usd

definition fix_price :: "usd_price \<Rightarrow> gerr + fixed_price" where
  "fix_price p =
     (case MoneyFromUSD (uInput p) of Inl e \<Rightarrow> Inl e | Inr i \<Rightarrow>
     (case MoneyFromUSD (uOutput p) of Inl e \<Rightarrow> Inl e | Inr ou \<Rightarrow>
     (case MoneyFromUSD (uCacheRead p) of Inl e \<Rightarrow> Inl e | Inr cr \<Rightarrow>
     (case MoneyFromUSD (uCacheWrite p) of Inl e \<Rightarrow> Inl e | Inr cw \<Rightarrow>
        Inr \<lparr>pInput = i, pOutput = ou, pCacheRead = cr, pCacheWrite = cw\<rparr>))))"

fun FixedPrices_loop :: "usd_price gomap \<Rightarrow> fixed_price gomap \<Rightarrow> gerr + fixed_price gomap" where
  "FixedPrices_loop [] result = Inr result"
| "FixedPrices_loop ((m, p) # rest) result =
     (case fix_price p of
        Inl e \<Rightarrow> Inl (Wrapf ''price for %s: %w'' [m] e)
      | Inr f \<Rightarrow> FixedPrices_loop rest (mput m f result))"

definition FixedPrices :: "usd_price gomap \<Rightarrow> gerr + fixed_price gomap" where
  "FixedPrices prices = FixedPrices_loop prices []"

definition price_valid :: "fixed_price \<Rightarrow> bool" where
  "price_valid p \<longleftrightarrow> pInput p \<ge> 0 \<and> pOutput p \<ge> 0 \<and> pCacheRead p \<ge> 0 \<and> pCacheWrite p \<ge> 0"

definition token_total :: "fixed_price \<Rightarrow> usage \<Rightarrow> int" where
  "token_total p u =
     sum_list (map (\<lambda>(rate, tokens). rate * tokens)
       [(pInput p, InputTokens u), (pOutput p, OutputTokens u),
        (pCacheRead p, CacheReadTokens u), (pCacheWrite p, CacheWriteTokens u)])"

definition cost :: "fixed_price \<Rightarrow> usage \<Rightarrow> gerr + int" where
  "cost p u =
     (if \<not> price_valid p \<or> \<not> Complete u \<or> InputTokens u < 0 \<or> OutputTokens u < 0
         \<or> CacheReadTokens u < 0 \<or> CacheWriteTokens u < 0
      then Inl ErrBudgetAccounting
      else (let q = ceil_quo (token_total p u) 1000000
            in if \<not> is_int64 q then Inl (Msg ''token cost overflow'') else Inr q))"

text \<open>The price the reservation uses: every input class at the dearest input rate.\<close>

definition worst_price :: "fixed_price \<Rightarrow> fixed_price" where
  "worst_price p = p\<lparr>pInput := max (max (pInput p) (pCacheRead p)) (pCacheWrite p)\<rparr>"

definition full_usage :: "int \<Rightarrow> int \<Rightarrow> usage" where
  "full_usage window maxOutput =
     \<lparr>InputTokens = window - maxOutput, OutputTokens = maxOutput, CacheReadTokens = 0,
      CacheWriteTokens = 0, Complete = True\<rparr>"

subsection \<open>Rounding\<close>

lemma ceil_quo_bounds:
  assumes "0 < d"
  shows "n \<le> ceil_quo n d * d" and "ceil_quo n d * d < n + d"
proof -
  define x r where "x = d * (n div d)" and "r = n mod d"
  have n: "n = x + r" and r: "0 \<le> r" "r < d" using assms by (simp_all add: x_def r_def)
  have q: "ceil_quo n d * d = x + (if 0 < r then d else 0)"
    by (simp add: ceil_quo_def Let_def algebra_simps x_def r_def)
  show "n \<le> ceil_quo n d * d" unfolding q using n r by auto
  show "ceil_quo n d * d < n + d" unfolding q using n r assms by auto
qed

lemma ceil_quo_least: "0 < d \<Longrightarrow> n \<le> k * d \<Longrightarrow> ceil_quo n d \<le> k"
proof -
  assume d: "0 < d" and k: "n \<le> k * d"
  from ceil_quo_bounds(2) [OF d, of n] k have "ceil_quo n d * d < (k + 1) * d"
    by (simp add: algebra_simps)
  with d show "ceil_quo n d \<le> k" by (simp add: mult_less_cancel_right)
qed

lemma ceil_quo_mono: "0 < d \<Longrightarrow> m \<le> n \<Longrightarrow> ceil_quo m d \<le> ceil_quo n d"
  using ceil_quo_bounds(1) [of d n] by (auto intro: ceil_quo_least)

lemma ceil_quo_nonneg: "0 < d \<Longrightarrow> 0 \<le> n \<Longrightarrow> 0 \<le> ceil_quo n d"
  using ceil_quo_mono [of d 0 n] by (simp add: ceil_quo_def)

lemma ceil_quo_ceiling: "0 < d \<Longrightarrow> ceil_quo n d = \<lceil>of_int n / (of_int d :: rat)\<rceil>"
proof (rule sym, rule ceiling_unique)
  assume d: "0 < d"
  then have pos: "0 < (of_int d :: rat)" by simp
  have "n \<le> ceil_quo n d * d" and "(ceil_quo n d - 1) * d < n"
    using ceil_quo_bounds [OF d, of n] by (simp_all add: algebra_simps)
  then have "(of_int n :: rat) \<le> of_int (ceil_quo n d * d)"
    and "of_int ((ceil_quo n d - 1) * d) < (of_int n :: rat)"
    by (simp_all only: of_int_le_iff of_int_less_iff)
  then have "(of_int n :: rat) \<le> of_int (ceil_quo n d) * of_int d"
    and "(of_int (ceil_quo n d) - 1) * of_int d < (of_int n :: rat)"
    by simp_all
  then show "of_int n / of_int d \<le> (of_int (ceil_quo n d) :: rat)"
    and "of_int (ceil_quo n d) - 1 < (of_int n / of_int d :: rat)"
    using pos by (simp_all add: divide_le_eq less_divide_eq)
qed

text \<open>A successful conversion is the exact ceiling of the amount in nano-dollars.\<close>

lemma MoneyFromUSD_ceiling:
  assumes "MoneyFromUSD (Decimal v) = Inr n"
  shows "n = \<lceil>v * 1000000000\<rceil> \<and> 0 \<le> n \<and> n \<le> MaxInt64"
proof -
  obtain num den where q: "quotient_of (v * of_int NanoUSDPerDollar) = (num, den)"
    by (cases "quotient_of (v * of_int NanoUSDPerDollar)")
  have den: "0 < den" using quotient_of_denom_pos [OF q] .
  have v: "v * 1000000000 = of_int num / of_int den"
    using quotient_of_div [OF q] by (simp add: NanoUSDPerDollar_def)
  from assms q have n: "n = ceil_quo num den" "is_int64 n" "0 \<le> v"
    by (auto simp: Let_def split: if_splits)
  then have "n = \<lceil>v * 1000000000\<rceil>" using den v by (simp add: ceil_quo_ceiling)
  moreover have "-1 < v * 1000000000" using n(3) by (simp add: order.strict_trans2 [of "-1" 0])
  then have "0 \<le> \<lceil>v * 1000000000\<rceil>" by (simp add: zero_le_ceiling)
  ultimately show ?thesis using n(2) by (simp add: is_int64_def)
qed

subsection \<open>Costs\<close>

lemma token_total_eq:
  "token_total p u = pInput p * InputTokens u + pOutput p * OutputTokens u
     + pCacheRead p * CacheReadTokens u + pCacheWrite p * CacheWriteTokens u"
  by (simp add: token_total_def)

lemma cost_Inr_iff:
  "cost p u = Inr n \<longleftrightarrow>
     price_valid p \<and> Complete u \<and> 0 \<le> InputTokens u \<and> 0 \<le> OutputTokens u
     \<and> 0 \<le> CacheReadTokens u \<and> 0 \<le> CacheWriteTokens u
     \<and> n = ceil_quo (token_total p u) 1000000 \<and> is_int64 n"
  by (auto simp: cost_def Let_def)

lemma token_total_nonneg:
  "price_valid p \<Longrightarrow> 0 \<le> InputTokens u \<Longrightarrow> 0 \<le> OutputTokens u \<Longrightarrow> 0 \<le> CacheReadTokens u \<Longrightarrow>
   0 \<le> CacheWriteTokens u \<Longrightarrow> 0 \<le> token_total p u"
  by (simp add: token_total_eq price_valid_def)

lemma cost_nonneg: "cost p u = Inr n \<Longrightarrow> 0 \<le> n \<and> n \<le> MaxInt64"
  by (auto simp: cost_Inr_iff token_total_nonneg is_int64_def intro!: ceil_quo_nonneg)

lemma worst_total_bound:
  assumes "price_valid p"
    and "0 \<le> InputTokens u" "0 \<le> OutputTokens u" "0 \<le> CacheReadTokens u" "0 \<le> CacheWriteTokens u"
    and "InputTokens u + CacheReadTokens u + CacheWriteTokens u \<le> i" and "OutputTokens u \<le> outp"
  shows "token_total p u \<le> token_total (worst_price p) (full_usage (i + outp) outp)"
proof -
  let ?m = "max (max (pInput p) (pCacheRead p)) (pCacheWrite p)"
  have m: "0 \<le> ?m" using assms(1) by (auto simp: price_valid_def max_def)
  have "pInput p * InputTokens u + pCacheRead p * CacheReadTokens u
          + pCacheWrite p * CacheWriteTokens u
        \<le> ?m * InputTokens u + ?m * CacheReadTokens u + ?m * CacheWriteTokens u"
    using assms(2-5) by (intro add_mono mult_right_mono) auto
  also have "\<dots> = ?m * (InputTokens u + CacheReadTokens u + CacheWriteTokens u)"
    by (simp add: distrib_left)
  also have "\<dots> \<le> ?m * i" using assms(6) m by (rule mult_left_mono)
  finally have "pInput p * InputTokens u + pCacheRead p * CacheReadTokens u
      + pCacheWrite p * CacheWriteTokens u \<le> ?m * i" .
  moreover have "pOutput p * OutputTokens u \<le> pOutput p * outp"
    using assms(1,7) by (intro mult_left_mono) (auto simp: price_valid_def)
  ultimately show ?thesis
    by (simp add: token_total_eq worst_price_def full_usage_def)
qed

end
