(* ===== verification/Budget.thy ===== *)
theory Budget
  imports Durable Tracing Pricing
begin

section \<open>The persistent cost budget\<close>

text \<open>
  \<open>internal/provider/budget.go\<close>, the account: attempts in a durable file, each reserved before
  its request is sent and settled, released or kept as unknown afterwards. Every operation is
  one transaction on the file; the bodies of the transactions are the functions named
  \<open>..._fn\<close>. The per-attempt lease, the clock and the random attempt identifier are arguments.
\<close>

datatype attempt_state = Reserved | Sending | UnknownCost | Settled | Released | OtherState string

record budget_attempt =
  baID :: string
  baState :: attempt_state
  baProvider :: string
  baModel :: string
  baActualModel :: string
  baReserved :: int
  baCost :: int
  baPrice :: fixed_price
  baUsage :: usage
  baIdentity :: identity
  baReason :: string
  baNeedsReconciliation :: bool
  baCreatedAt :: instant
  baUpdatedAt :: instant

definition no_attempt :: budget_attempt where
  "no_attempt = \<lparr>baID = '''', baState = OtherState '''', baProvider = '''', baModel = '''',
     baActualModel = '''', baReserved = 0, baCost = 0,
     baPrice = \<lparr>pInput = 0, pOutput = 0, pCacheRead = 0, pCacheWrite = 0\<rparr>,
     baUsage = no_usage, baIdentity = no_identity, baReason = '''',
     baNeedsReconciliation = False, baCreatedAt = 0, baUpdatedAt = 0\<rparr>"

text \<open>\<open>bsAttempts\<close> is \<^const>\<open>None\<close> for the nil map.\<close>

record budget_state =
  bsSchema :: string
  bsLimit :: int
  bsAttempts :: "budget_attempt gomap option"

definition budget_zero :: budget_state where
  "budget_zero = \<lparr>bsSchema = '''', bsLimit = 0, bsAttempts = None\<rparr>"

definition budget_schema :: string where
  "budget_schema = ''gopherharness.budget.v1''"

record budget_view =
  snLimit :: int
  snSpent :: int
  snHeld :: int
  snRemaining :: int
  snFrozen :: bool
  snAttempts :: "budget_attempt gomap"

definition hex_digit :: "char \<Rightarrow> bool" where
  "hex_digit c \<longleftrightarrow> c \<in> set ''0123456789abcdefABCDEF''"

definition budgetID :: "string \<Rightarrow> bool" where
  "budgetID k \<longleftrightarrow> length k = 32 \<and> list_all hex_digit k"

subsection \<open>The snapshot\<close>

definition snap_add :: "int \<Rightarrow> int \<Rightarrow> gerr + int" where
  "snap_add target v =
     (if v < 0 \<or> target > MaxInt64 - v then Inl (Msg ''invalid budget total'')
      else Inr (target + v))"

fun snap_loop :: "budget_attempt gomap \<Rightarrow> int \<Rightarrow> int \<Rightarrow> bool \<Rightarrow> gerr + (int \<times> int \<times> bool)" where
  "snap_loop [] spent held frozen = Inr (spent, held, frozen)"
| "snap_loop ((k, r) # rest) spent held frozen =
     (if baID r \<noteq> k \<or> \<not> budgetID k \<or> baReserved r < 0 \<or> baCost r < 0
      then Inl (Msg ''invalid budget attempt'')
      else
        (let frozen' = (frozen \<or> baNeedsReconciliation r) in
         if baState r \<in> {Reserved, Sending, UnknownCost} then
           (case snap_add held (baReserved r) of Inl e \<Rightarrow> Inl e
            | Inr held' \<Rightarrow> snap_loop rest spent held' frozen')
         else if baState r = Settled then
           (case snap_add spent (baCost r) of Inl e \<Rightarrow> Inl e
            | Inr spent' \<Rightarrow> snap_loop rest spent' held frozen')
         else if baState r = Released then snap_loop rest spent held frozen'
         else Inl (Msg ''invalid budget attempt state'')))"

definition budgetSnapshot :: "budget_state \<Rightarrow> gerr + budget_view" where
  "budgetSnapshot s =
     (case bsAttempts s of
        None \<Rightarrow> Inl (Msg ''invalid budget state'')
      | Some m \<Rightarrow>
          if bsSchema s \<noteq> budget_schema \<or> bsLimit s < 0 then Inl (Msg ''invalid budget state'')
          else (case snap_loop m 0 0 False of
                  Inl e \<Rightarrow> Inl e
                | Inr (spent, held, frozen) \<Rightarrow>
                    if spent > MaxInt64 - held then Inl (Msg ''budget total overflow'')
                    else (let consumed = add64 spent held in
                          Inr \<lparr>snLimit = bsLimit s, snSpent = spent, snHeld = held,
                               snRemaining = (if consumed < bsLimit s then bsLimit s - consumed else 0),
                               snFrozen = frozen, snAttempts = m\<rparr>)))"

subsection \<open>Opening and recovering\<close>

definition open_fn :: "bool \<Rightarrow> int \<Rightarrow> (budget_state, unit) callback" where
  "open_fn existed limit s =
     (if bsSchema s = '''' \<and> (existed \<or> bsAttempts s \<noteq> None \<or> bsLimit s \<noteq> 0)
      then ((), Inl (Msg ''missing persistent budget schema''))
      else (let s1 = (if bsSchema s = ''''
                      then \<lparr>bsSchema = budget_schema, bsLimit = limit, bsAttempts = Some []\<rparr>
                      else s)
            in if bsSchema s1 \<noteq> budget_schema \<or> bsLimit s1 \<noteq> limit
               then ((), Inl (Msg ''persistent budget schema/limit mismatch''))
               else (case budgetSnapshot s1 of Inl e \<Rightarrow> ((), Inl e) | Inr _ \<Rightarrow> ((), Inr s1))))"

definition account_snapshot :: "io \<Rightarrow> budget_state content \<Rightarrow> gerr + budget_view" where
  "account_snapshot e d =
     (case file_read budget_zero e d of (s, Some x) \<Rightarrow> Inl x | (s, None) \<Rightarrow> budgetSnapshot s)"

text \<open>Taking the lease of an attempt: refused for a malformed identifier, otherwise up to the
  operating system.\<close>

definition lease :: "string \<Rightarrow> gerr option \<Rightarrow> gerr option" where
  "lease k os = (if \<not> budgetID k then Some (Msg ''invalid attempt ID'') else os)"

definition recover_fn :: "string \<Rightarrow> instant \<Rightarrow> (budget_state, unit) callback" where
  "recover_fn k now s =
     (case bsAttempts s of
        None \<Rightarrow> ((), Inl (Panicked ''assignment to entry in nil map''))
      | Some m \<Rightarrow>
         (let r = (case mget m k of None \<Rightarrow> no_attempt | Some r \<Rightarrow> r);
              r1 = (if baState r = Reserved
                    then r\<lparr>baState := Released, baReason := ''recovered before sending claim''\<rparr>
                    else r);
              r2 = (if baState r1 = Sending
                    then r1\<lparr>baState := UnknownCost,
                            baReason := ''process ended after sending claim; billing uncertain''\<rparr>
                    else r1);
              r3 = r2\<lparr>baUpdatedAt := now\<rparr>
          in ((), Inr (s\<lparr>bsAttempts := Some (mput k r3 m)\<rparr>))))"

text \<open>What the environment decides for one attempt of the recovery loop: the result of the
  lease probe, \<open>ctx.Err()\<close> after a failed probe, the I/O of the update and the clock.\<close>

record recover_env =
  re_lease :: "gerr option"
  re_ctx :: "gerr option"
  re_io :: io
  re_now :: instant

fun recover_loop ::
  "(string \<Rightarrow> recover_env) \<Rightarrow> budget_attempt gomap \<Rightarrow> budget_state content
     \<Rightarrow> gerr option \<times> budget_state content" where
  "recover_loop env [] d = (None, d)"
| "recover_loop env ((k, r) # rest) d =
     (if baState r \<noteq> Reserved \<and> baState r \<noteq> Sending then recover_loop env rest d
      else (case lease k (re_lease (env k)) of
              Some e \<Rightarrow>
                (case re_ctx (env k) of
                   Some c \<Rightarrow> (Some c, d)
                 | None \<Rightarrow> if errors_is e DeadlineExceeded then recover_loop env rest d
                           else (Some e, d))
            | None \<Rightarrow>
                (case file_update budget_zero (re_io (env k)) () (recover_fn k (re_now (env k))) d of
                   ((_, Some e), d') \<Rightarrow> (Some e, d')
                 | ((_, None), d') \<Rightarrow> recover_loop env rest d')))"

definition Recover ::
  "io \<Rightarrow> (string \<Rightarrow> recover_env) \<Rightarrow> budget_state content \<Rightarrow> gerr option \<times> budget_state content"
where
  "Recover e env d =
     (case account_snapshot e d of
        Inl x \<Rightarrow> (Some x, d)
      | Inr view \<Rightarrow> recover_loop env (snAttempts view) d)"

text \<open>\<open>OpenBudget\<close>: the resolution of the path is the file system's (its error is \<open>fs\<close>, and
  \<open>existed\<close> is what \<open>Stat\<close> reported).\<close>

definition OpenBudget ::
  "string \<Rightarrow> int \<Rightarrow> gerr option \<Rightarrow> bool \<Rightarrow> io \<Rightarrow> io \<Rightarrow> (string \<Rightarrow> recover_env)
     \<Rightarrow> budget_state content \<Rightarrow> gerr option \<times> budget_state content" where
  "OpenBudget path limit fs existed e1 e2 env d =
     (if path = '''' \<or> limit < 0 then (Some (Msg ''invalid budget path or limit''), d)
      else (case fs of Some x \<Rightarrow> (Some x, d)
      | None \<Rightarrow>
        (case file_update budget_zero e1 () (open_fn existed limit) d of
           ((_, Some x), d') \<Rightarrow> (Some x, d')
         | ((_, None), d') \<Rightarrow> Recover e2 env d')))"

subsection \<open>Reservations\<close>

definition reserve_fn ::
  "string \<Rightarrow> string \<Rightarrow> string \<Rightarrow> fixed_price \<Rightarrow> int \<Rightarrow> identity \<Rightarrow> instant \<Rightarrow> (budget_state, unit) callback"
where
  "reserve_fn k prov model p amount ident now s =
     (case budgetSnapshot s of
        Inl e \<Rightarrow> ((), Inl e)
      | Inr view \<Rightarrow>
          if snFrozen view then ((), Inl ErrBudgetAccounting)
          else if amount < 0 \<or> add64 (snSpent view) (snHeld view) > bsLimit s
                  \<or> amount > snRemaining view
          then ((), Inl ErrBudgetExhausted)
          else ((), Inr (s\<lparr>bsAttempts := Some (mput k
                 \<lparr>baID = k, baState = Reserved, baProvider = prov, baModel = model,
                  baActualModel = '''', baReserved = amount, baCost = 0, baPrice = p,
                  baUsage = no_usage, baIdentity = ident, baReason = '''',
                  baNeedsReconciliation = False, baCreatedAt = now, baUpdatedAt = now\<rparr>
                 (snAttempts view))\<rparr>)))"

text \<open>\<open>reservation.update\<close>: one attempt through \<open>f\<close>, the snapshot checked before and after.\<close>

definition attempt_fn ::
  "string \<Rightarrow> (budget_attempt \<Rightarrow> gerr + budget_attempt) \<Rightarrow> instant \<Rightarrow> (budget_state, unit) callback"
where
  "attempt_fn k f now s =
     (case budgetSnapshot s of
        Inl e \<Rightarrow> ((), Inl e)
      | Inr view \<Rightarrow>
        (case mget (snAttempts view) k of
           None \<Rightarrow> ((), Inl (Msg ''missing budget reservation''))
         | Some a \<Rightarrow>
           (case f a of
              Inl e \<Rightarrow> ((), Inl e)
            | Inr a' \<Rightarrow>
              (let s' = s\<lparr>bsAttempts := Some (mput k (a'\<lparr>baUpdatedAt := now\<rparr>) (snAttempts view))\<rparr>
               in (case budgetSnapshot s' of Inl e \<Rightarrow> ((), Inl e) | Inr _ \<Rightarrow> ((), Inr s'))))))"

definition sending :: "budget_attempt \<Rightarrow> gerr + budget_attempt" where
  "sending a = (if baState a \<noteq> Reserved then Inl (Msg ''attempt already claimed'')
                else Inr (a\<lparr>baState := Sending\<rparr>))"

definition unsent :: "budget_attempt \<Rightarrow> gerr + budget_attempt" where
  "unsent a = (if baState a \<noteq> Reserved \<and> baState a \<noteq> Sending
               then Inl (Msg ''cannot release sent attempt'')
               else Inr (a\<lparr>baState := Released, baReason := ''sender did not invoke provider''\<rparr>))"

text \<open>The callback of the settlement in \<open>Budgeted.run\<close>: \<open>priced\<close> carries the price and the cost
  when the usage is complete, the model is priced and its cost computed; \<open>frozen\<close> is set when
  the model is unknown or the computation failed.\<close>

definition settle ::
  "string \<Rightarrow> usage \<Rightarrow> (fixed_price \<times> int) option \<Rightarrow> bool \<Rightarrow> budget_attempt \<Rightarrow> gerr + budget_attempt"
where
  "settle actual u priced frozen a =
     (if baState a \<noteq> Sending then Inl (Msg ''attempt is not sending'')
      else (let a1 = a\<lparr>baActualModel := actual, baUsage := u\<rparr> in
        (case priced of
           Some (price, c) \<Rightarrow>
             Inr (a1\<lparr>baState := Settled, baCost := c, baPrice := price,
                     baReason := ''settled from complete provider usage''\<rparr>)
         | None \<Rightarrow>
             Inr (a1\<lparr>baState := UnknownCost, baNeedsReconciliation := frozen,
                     baReason := (if frozen
                        then ''unpriced model or invalid usage; account frozen for reconciliation''
                        else ''missing complete provider usage; reservation retained'')\<rparr>))))"

subsection \<open>Manual reconciliation\<close>

definition reconcile_fn :: "string \<Rightarrow> int \<Rightarrow> string \<Rightarrow> instant \<Rightarrow> (budget_state, unit) callback" where
  "reconcile_fn k c note now s =
     (case budgetSnapshot s of
        Inl e \<Rightarrow> ((), Inl e)
      | Inr view \<Rightarrow>
        (case mget (snAttempts view) k of
           None \<Rightarrow> ((), Inl (Msg ''unknown budget attempt''))
         | Some r \<Rightarrow>
           if baState r = Settled then
             (if baCost r = c then ((), Inr s) else ((), Inl (Msg ''conflicting reconciliation'')))
           else if baState r \<noteq> UnknownCost \<and> baState r \<noteq> Sending
           then ((), Inl (Msg ''attempt is not awaiting reconciliation''))
           else (let r' = r\<lparr>baState := Settled, baCost := c, baReason := note,
                            baNeedsReconciliation := False, baUpdatedAt := now\<rparr>;
                     s' = s\<lparr>bsAttempts := Some (mput k r' (snAttempts view))\<rparr>
                 in (case budgetSnapshot s' of Inl e \<Rightarrow> ((), Inl e) | Inr _ \<Rightarrow> ((), Inr s')))))"

definition budget_reconcile ::
  "string \<Rightarrow> int \<Rightarrow> string \<Rightarrow> gerr option \<Rightarrow> io \<Rightarrow> instant \<Rightarrow> budget_state content
     \<Rightarrow> gerr option \<times> budget_state content" where
  "budget_reconcile k c note os e now d =
     (if c < 0 \<or> TrimSpace note = '''' \<or> length note > 2000
      then (Some (Msg ''reconciliation requires a nonnegative confirmed cost and note''), d)
      else (case lease k os of
              Some x \<Rightarrow> (Some x, d)
            | None \<Rightarrow> (case file_update budget_zero e () (reconcile_fn k c note now) d of
                         ((_, x), d') \<Rightarrow> (x, d'))))"


subsection \<open>The snapshot against its specification\<close>

text \<open>What an attempt holds and what it has spent, and the conditions on one entry.\<close>

definition held_of :: "budget_attempt \<Rightarrow> int" where
  "held_of r = (if baState r \<in> {Reserved, Sending, UnknownCost} then baReserved r else 0)"

definition spent_of :: "budget_attempt \<Rightarrow> int" where
  "spent_of r = (if baState r = Settled then baCost r else 0)"

definition valid_entry :: "string \<Rightarrow> budget_attempt \<Rightarrow> bool" where
  "valid_entry k r \<longleftrightarrow> baID r = k \<and> budgetID k \<and> 0 \<le> baReserved r \<and> 0 \<le> baCost r
     \<and> baState r \<in> {Reserved, Sending, UnknownCost, Settled, Released}"

lemma valid_entry_nonneg [simp]:
  "valid_entry k r \<Longrightarrow> 0 \<le> held_of r" "valid_entry k r \<Longrightarrow> 0 \<le> spent_of r"
  by (auto simp: valid_entry_def held_of_def spent_of_def)

lemma msum_entries_nonneg:
  "\<forall>(k, r) \<in> set m. valid_entry k r \<Longrightarrow> 0 \<le> msum held_of m \<and> 0 \<le> msum spent_of m"
  by (induction m) auto

lemma snap_loop_sound:
  "snap_loop m sp hl fr = Inr (sp', hl', fr') \<Longrightarrow> sp \<le> MaxInt64 \<Longrightarrow> hl \<le> MaxInt64 \<Longrightarrow>
     (\<forall>(k, r) \<in> set m. valid_entry k r) \<and> sp' = sp + msum spent_of m \<and> hl' = hl + msum held_of m
     \<and> fr' = (fr \<or> (\<exists>(k, r) \<in> set m. baNeedsReconciliation r)) \<and> sp' \<le> MaxInt64 \<and> hl' \<le> MaxInt64"
proof (induction m arbitrary: sp hl fr)
  case Nil
  then show ?case by simp
next
  case (Cons p rest)
  obtain k r where p: "p = (k, r)" by (cases p)
  show ?case
    using Cons.prems unfolding p
    by (cases "baState r")
      (auto simp: Let_def snap_add_def valid_entry_def held_of_def [of r] spent_of_def [of r]
        split: if_splits dest!: Cons.IH)
qed

lemma snap_loop_complete:
  "\<forall>(k, r) \<in> set m. valid_entry k r \<Longrightarrow> sp + msum spent_of m \<le> MaxInt64 \<Longrightarrow>
   hl + msum held_of m \<le> MaxInt64 \<Longrightarrow>
   snap_loop m sp hl fr = Inr (sp + msum spent_of m, hl + msum held_of m,
     fr \<or> (\<exists>(k, r) \<in> set m. baNeedsReconciliation r))"
proof (induction m arbitrary: sp hl fr)
  case Nil
  then show ?case by simp
next
  case (Cons p rest)
  obtain k r where p: "p = (k, r)" by (cases p)
  have pos: "0 \<le> msum held_of rest" "0 \<le> msum spent_of rest"
    using msum_entries_nonneg [of rest] Cons.prems(1) by auto
  have v: "valid_entry k r" and rest: "\<forall>(k, r) \<in> set rest. valid_entry k r"
    using Cons.prems(1) by (auto simp: p)
  note IH = Cons.IH [OF rest]
  show ?case
    using Cons.prems(2,3) v pos unfolding p
    by (cases "baState r")
      (auto simp: Let_def snap_add_def valid_entry_def held_of_def [of r] spent_of_def [of r]
        IH add.assoc)
qed

text \<open>
  The specification of the snapshot does not mention an order: it accepts exactly the states
  with the right schema, a non-negative limit, valid entries and totals within 64 bits, and
  reports the two sums.
\<close>

definition budget_wf :: "budget_state \<Rightarrow> bool" where
  "budget_wf s \<longleftrightarrow> bsSchema s = budget_schema \<and> 0 \<le> bsLimit s \<and>
     (\<exists>m. bsAttempts s = Some m \<and> (\<forall>(k, r) \<in> set m. valid_entry k r)
          \<and> msum spent_of m + msum held_of m \<le> MaxInt64)"

definition attempts_of :: "budget_state \<Rightarrow> budget_attempt gomap" where
  "attempts_of s = (case bsAttempts s of None \<Rightarrow> [] | Some m \<Rightarrow> m)"

definition view_spec :: "budget_state \<Rightarrow> budget_view" where
  "view_spec s =
     (let m = attempts_of s; consumed = msum spent_of m + msum held_of m
      in \<lparr>snLimit = bsLimit s, snSpent = msum spent_of m, snHeld = msum held_of m,
          snRemaining = max 0 (bsLimit s - consumed),
          snFrozen = (\<exists>(k, r) \<in> set m. baNeedsReconciliation r), snAttempts = m\<rparr>)"

lemma budget_wf_nonneg:
  "budget_wf s \<Longrightarrow> 0 \<le> msum spent_of (attempts_of s) \<and> 0 \<le> msum held_of (attempts_of s)"
  by (auto simp: budget_wf_def attempts_of_def dest: msum_entries_nonneg)

lemma budgetSnapshot_iff: "budgetSnapshot s = Inr v \<longleftrightarrow> budget_wf s \<and> v = view_spec s"
proof
  assume A: "budgetSnapshot s = Inr v"
  then obtain m sp hl fr where m: "bsAttempts s = Some m"
    and l: "snap_loop m 0 0 False = Inr (sp, hl, fr)" and "\<not> sp > MaxInt64 - hl"
    and "bsSchema s = budget_schema" "0 \<le> bsLimit s"
    by (auto simp: budgetSnapshot_def split: option.splits sum.splits if_splits)
  moreover note snap_loop_sound [OF l]
  ultimately show "budget_wf s \<and> v = view_spec s"
    using A msum_entries_nonneg [of m]
    by (auto simp: budgetSnapshot_def budget_wf_def view_spec_def attempts_of_def Let_def add64_id)
next
  assume A: "budget_wf s \<and> v = view_spec s"
  then obtain m where m: "bsAttempts s = Some m" and e: "\<forall>(k, r) \<in> set m. valid_entry k r"
    and le: "msum spent_of m + msum held_of m \<le> MaxInt64"
    by (auto simp: budget_wf_def)
  have "0 \<le> msum held_of m" "0 \<le> msum spent_of m" using msum_entries_nonneg [OF e] by auto
  with A m le snap_loop_complete [OF e, of 0 0 False] show "budgetSnapshot s = Inr v"
    by (auto simp: budgetSnapshot_def budget_wf_def view_spec_def attempts_of_def Let_def add64_id)
qed


subsection \<open>What each transaction does to the account\<close>

definition budget_put :: "string \<Rightarrow> budget_attempt \<Rightarrow> budget_state \<Rightarrow> budget_state" where
  "budget_put k a s = s\<lparr>bsAttempts := Some (mput k a (attempts_of s))\<rparr>"

lemma budget_put_simps [simp]:
  "attempts_of (budget_put k a s) = mput k a (attempts_of s)"
  "bsLimit (budget_put k a s) = bsLimit s"
  "bsSchema (budget_put k a s) = bsSchema s"
  by (simp_all add: budget_put_def attempts_of_def)

lemma view_spec_simps [simp]:
  "snAttempts (view_spec s) = attempts_of s"
  "snSpent (view_spec s) = msum spent_of (attempts_of s)"
  "snHeld (view_spec s) = msum held_of (attempts_of s)"
  "snLimit (view_spec s) = bsLimit s"
  "snFrozen (view_spec s) = (\<exists>(k, r) \<in> set (attempts_of s). baNeedsReconciliation r)"
  "snRemaining (view_spec s) =
     max 0 (bsLimit s - (msum spent_of (attempts_of s) + msum held_of (attempts_of s)))"
  by (simp_all add: view_spec_def Let_def)

lemma budgetSnapshot_Inr: "budgetSnapshot s = Inr v \<Longrightarrow> budget_wf s \<and> v = view_spec s"
  by (simp add: budgetSnapshot_iff)

lemma budgetSnapshot_wf: "budget_wf s \<Longrightarrow> budgetSnapshot s = Inr (view_spec s)"
  by (simp add: budgetSnapshot_iff)

lemma budget_wf_add64:
  "budget_wf s \<Longrightarrow> add64 (msum spent_of (attempts_of s)) (msum held_of (attempts_of s))
     = msum spent_of (attempts_of s) + msum held_of (attempts_of s)"
  using budget_wf_nonneg [of s] by (auto simp: budget_wf_def attempts_of_def intro!: add64_id)

lemma reserve_fn_effect:
  assumes "reserve_fn k prov model p amount ident now s = (u, Inr s')"
  shows "budget_wf s" and "\<not> snFrozen (view_spec s)" and "0 \<le> amount"
    and "msum spent_of (attempts_of s) + msum held_of (attempts_of s) + amount \<le> bsLimit s"
    and "\<exists>a. s' = budget_put k a s \<and> baID a = k \<and> baState a = Reserved \<and> baReserved a = amount
           \<and> baCost a = 0 \<and> \<not> baNeedsReconciliation a"
  using assms
  by (auto simp: reserve_fn_def budget_put_def budget_wf_add64 dest!: budgetSnapshot_Inr
        split: sum.splits if_splits)

lemma reserve_fn_frozen:
  "budget_wf s \<Longrightarrow> snFrozen (view_spec s) \<Longrightarrow>
   reserve_fn k prov model p amount ident now s = ((), Inl ErrBudgetAccounting)"
  by (simp add: reserve_fn_def budgetSnapshot_wf)

lemma attempt_fn_effect:
  assumes "attempt_fn k f now s = (u, Inr s')"
  obtains a a' where "mget (attempts_of s) k = Some a" "f a = Inr a'"
    "s' = budget_put k (a'\<lparr>baUpdatedAt := now\<rparr>) s" "budget_wf s" "budget_wf s'"
  using assms
  by (auto simp: attempt_fn_def budget_put_def Let_def dest!: budgetSnapshot_Inr
        split: sum.splits option.splits if_splits)

lemma reconcile_fn_effect:
  assumes "reconcile_fn k c note now s = (u, Inr s')"
  shows "(s' = s \<and> (\<exists>r. mget (attempts_of s) k = Some r \<and> baState r = Settled \<and> baCost r = c)) \<or>
     (\<exists>r. mget (attempts_of s) k = Some r \<and> baState r \<in> {UnknownCost, Sending}
        \<and> s' = budget_put k (r\<lparr>baState := Settled, baCost := c, baReason := note,
             baNeedsReconciliation := False, baUpdatedAt := now\<rparr>) s \<and> budget_wf s')"
  using assms
  by (auto simp: reconcile_fn_def budget_put_def Let_def dest!: budgetSnapshot_Inr
        split: sum.splits option.splits if_splits)

lemma recover_fn_effect:
  assumes "recover_fn k now s = (u, Inr s')" and "mget (attempts_of s) k = Some r"
  shows "\<exists>r'. s' = budget_put k r' s \<and> baReserved r' = baReserved r \<and> baCost r' = baCost r
       \<and> baID r' = baID r \<and> baNeedsReconciliation r' = baNeedsReconciliation r
       \<and> baState r' = (if baState r = Reserved then Released
                       else if baState r = Sending then UnknownCost else baState r)"
  using assms
  by (auto simp: recover_fn_def budget_put_def attempts_of_def Let_def split: option.splits)

subsection \<open>The life of an attempt\<close>

text \<open>The moves the code allows, and the step relation of the account.\<close>

inductive lifecycle :: "attempt_state \<Rightarrow> attempt_state \<Rightarrow> bool" where
  claim: "lifecycle Reserved Sending"
| drop_reserved: "lifecycle Reserved Released"
| drop_sending: "lifecycle Sending Released"
| lose: "lifecycle Sending UnknownCost"
| bill: "lifecycle Sending Settled"
| confirm: "lifecycle UnknownCost Settled"

inductive_cases lifecycle_from_Settled: "lifecycle Settled x"
inductive_cases lifecycle_from_Released: "lifecycle Released x"

inductive_simps lifecycle_simps [simp]:
  "lifecycle Reserved x" "lifecycle Sending x" "lifecycle UnknownCost x"
  "lifecycle Settled x" "lifecycle Released x"

inductive budget_step :: "budget_state \<Rightarrow> budget_state \<Rightarrow> bool" where
  reserve: "reserve_fn k prov model p amount ident now s = ((), Inr s') \<Longrightarrow> budgetID k \<Longrightarrow>
    mget (attempts_of s) k = None \<Longrightarrow> budget_step s s'"
| claim: "attempt_fn k sending now s = ((), Inr s') \<Longrightarrow> budget_step s s'"
| give_back: "attempt_fn k unsent now s = ((), Inr s') \<Longrightarrow> budget_step s s'"
| settle: "attempt_fn k (settle actual u priced frozen) now s = ((), Inr s') \<Longrightarrow> budget_step s s'"
| recover: "recover_fn k now s = ((), Inr s') \<Longrightarrow> mget (attempts_of s) k \<noteq> None \<Longrightarrow> budget_step s s'"
| reconcile: "reconcile_fn k c note now s = ((), Inr s') \<Longrightarrow> budget_step s s'"

text \<open>Every step but a reservation leaves the account alone or moves one attempt along its
  life, keeping the amount it reserved.\<close>

definition moves :: "string \<Rightarrow> budget_attempt \<Rightarrow> budget_attempt \<Rightarrow> bool" where
  "moves k a b \<longleftrightarrow> lifecycle\<^sup>=\<^sup>= (baState a) (baState b) \<and> baReserved b = baReserved a
     \<and> (baState a = baState b \<longrightarrow> baCost b = baCost a)"

lemma sending_moves: "sending a = Inr b \<Longrightarrow> moves k a (b\<lparr>baUpdatedAt := t\<rparr>)"
  and unsent_moves: "unsent a = Inr b \<Longrightarrow> moves k a (b\<lparr>baUpdatedAt := t\<rparr>)"
  and settle_moves: "settle m u p f a = Inr b \<Longrightarrow> moves k a (b\<lparr>baUpdatedAt := t\<rparr>)"
  by (auto simp: sending_def unsent_def settle_def moves_def Let_def
        split: if_splits option.splits)

lemma budget_step_cases:
  assumes "budget_step s s'"
  shows "s' = s
    \<or> (\<exists>k a b. mget (attempts_of s) k = Some a \<and> s' = budget_put k b s \<and> moves k a b)
    \<or> (\<exists>k prov model p amount ident now. mget (attempts_of s) k = None \<and> budgetID k
         \<and> reserve_fn k prov model p amount ident now s = ((), Inr s'))"
  using assms
proof cases
  case (reserve k prov model p amount ident now)
  then show ?thesis by blast
next
  case (claim k now)
  then show ?thesis by (auto elim!: attempt_fn_effect intro: sending_moves)
next
  case (give_back k now)
  then show ?thesis by (auto elim!: attempt_fn_effect intro: unsent_moves)
next
  case (settle k actual u priced frozen now)
  then show ?thesis by (auto elim!: attempt_fn_effect intro: settle_moves)
next
  case (recover k now)
  then obtain r where "mget (attempts_of s) k = Some r" by auto
  with recover_fn_effect [OF recover(1) this] show ?thesis
    by (force simp: moves_def)
next
  case (reconcile k c remark now)
  then show ?thesis
    by (auto dest!: reconcile_fn_effect simp: moves_def)
      (force simp: moves_def)+
qed


subsection \<open>The account never promises more than its limit\<close>

text \<open>
  What an attempt is charged: its reservation while it is held, and once settled the part of
  its cost its reservation covers. The rest of a settled cost is its overshoot, which only a
  provider that bills more than the reserved window can cause.
\<close>

definition charge :: "budget_attempt \<Rightarrow> int" where
  "charge r = held_of r + (if baState r = Settled then min (baCost r) (baReserved r) else 0)"

definition overshoot :: "budget_attempt \<Rightarrow> int" where
  "overshoot r = (if baState r = Settled then max 0 (baCost r - baReserved r) else 0)"

lemma charge_overshoot: "spent_of r + held_of r = charge r + overshoot r"
  by (simp add: spent_of_def held_of_def charge_def overshoot_def min_def max_def)

lemma msum_charge_overshoot:
  "msum spent_of m + msum held_of m = msum charge m + msum overshoot m"
  by (simp add: msum_add [symmetric] charge_overshoot)

lemma moves_charge:
  "moves k a b \<Longrightarrow> valid_entry k a \<Longrightarrow> charge b \<le> charge a"
  by (auto simp: moves_def charge_def held_of_def valid_entry_def elim!: lifecycle.cases)

definition budget_inv :: "budget_state \<Rightarrow> bool" where
  "budget_inv s \<longleftrightarrow> wf_map (attempts_of s) \<and> budget_wf s \<and> bsLimit s \<le> MaxInt64
     \<and> msum charge (attempts_of s) \<le> bsLimit s"

lemma budget_wf_entry: "budget_wf s \<Longrightarrow> mget (attempts_of s) k = Some a \<Longrightarrow> valid_entry k a"
  by (force simp: budget_wf_def attempts_of_def dest: mget_in_set)

lemma budget_wf_iff:
  "wf_map (attempts_of s) \<Longrightarrow> bsAttempts s \<noteq> None \<Longrightarrow>
   budget_wf s \<longleftrightarrow> bsSchema s = budget_schema \<and> 0 \<le> bsLimit s \<and> mall valid_entry (attempts_of s)
     \<and> msum spent_of (attempts_of s) + msum held_of (attempts_of s) \<le> MaxInt64"
  by (auto simp: budget_wf_def attempts_of_def mall_set)

lemma budget_put_attempts [simp]: "bsAttempts (budget_put k a s) \<noteq> None"
  by (simp add: budget_put_def)

lemma budget_wf_some: "budget_wf s \<Longrightarrow> bsAttempts s \<noteq> None"
  by (auto simp: budget_wf_def)

lemma budget_wf_put:
  assumes "budget_wf s" "wf_map (attempts_of s)" "valid_entry k b"
    and "msum spent_of (mput k b (attempts_of s)) + msum held_of (mput k b (attempts_of s)) \<le> MaxInt64"
  shows "budget_wf (budget_put k b s)"
  using assms budget_wf_iff [of s] budget_wf_some [of s]
  by (subst budget_wf_iff) (auto intro!: mall_mput)

lemma recover_fn_wf:
  assumes "recover_fn k now s = (u, Inr s')" "mget (attempts_of s) k = Some r"
    and "budget_wf s" "wf_map (attempts_of s)"
  shows "budget_wf s'"
proof -
  obtain r' where r': "s' = budget_put k r' s" "baReserved r' = baReserved r"
      "baCost r' = baCost r" "baID r' = baID r"
      "baState r' = (if baState r = Reserved then Released
                     else if baState r = Sending then UnknownCost else baState r)"
    using recover_fn_effect [OF assms(1,2)] by blast
  have v: "valid_entry k r" using budget_wf_entry assms(2,3) by blast
  then have v': "valid_entry k r'" using r' by (auto simp: valid_entry_def)
  have "spent_of r' = spent_of r" "held_of r' \<le> held_of r"
    using r' v by (auto simp: spent_of_def held_of_def valid_entry_def)
  then show ?thesis
    using assms(2-4) v' budget_wf_iff [of s] budget_wf_some [of s]
    unfolding r'(1) by (intro budget_wf_put) (simp_all add: msum_mput)
qed

lemma reserve_fn_wf:
  assumes "reserve_fn k prov model p amount ident now s = (u, Inr s')" "budgetID k"
    and "mget (attempts_of s) k = None" "wf_map (attempts_of s)" "bsLimit s \<le> MaxInt64"
  shows "budget_wf s'"
proof -
  note eff = reserve_fn_effect [OF assms(1)]
  then obtain a where a: "s' = budget_put k a s" "baID a = k" "baState a = Reserved"
    "baReserved a = amount" "baCost a = 0" by blast
  have "valid_entry k a" using a eff(3) assms(2) by (simp add: valid_entry_def)
  moreover have "spent_of a = 0" "held_of a = amount"
    using a by (simp_all add: spent_of_def held_of_def)
  ultimately show ?thesis
    using eff(1,4) assms(3-5) unfolding a(1)
    by (intro budget_wf_put) (simp_all add: msum_mput)
qed

lemma budget_step_wf:
  assumes "budget_step s s'" "budget_wf s" "wf_map (attempts_of s)" "bsLimit s \<le> MaxInt64"
  shows "budget_wf s'"
  using assms(1)
proof cases
  case (reserve k prov model p amount ident now)
  then show ?thesis using reserve_fn_wf assms(3,4) by blast
next
  case (recover k now)
  then obtain r where r: "mget (attempts_of s) k = Some r" by auto
  show ?thesis by (rule recover_fn_wf [OF recover(1) r assms(2,3)])
next
  case (reconcile k c remark now)
  with assms show ?thesis by (auto dest!: reconcile_fn_effect)
qed (use assms in \<open>auto elim: attempt_fn_effect\<close>)

lemma budget_step_inv:
  assumes "budget_step s s'" "budget_inv s"
  shows "budget_inv s'"
proof -
  have inv: "wf_map (attempts_of s)" "budget_wf s" "bsLimit s \<le> MaxInt64"
    "msum charge (attempts_of s) \<le> bsLimit s"
    using assms(2) by (auto simp: budget_inv_def)
  note wf = budget_step_wf [OF assms(1) inv(2,1,3)]
  from budget_step_cases [OF assms(1)] show ?thesis
  proof (elim disjE exE conjE)
    assume "s' = s"
    with assms(2) show ?thesis by simp
  next
    fix k a b
    assume A: "mget (attempts_of s) k = Some a" "s' = budget_put k b s" "moves k a b"
    then have "charge b \<le> charge a" using inv(2) by (auto intro: moves_charge budget_wf_entry)
    with A wf inv show ?thesis by (auto simp: budget_inv_def msum_mput)
  next
    fix k prov model p amount ident now
    assume A: "mget (attempts_of s) k = None"
      "reserve_fn k prov model p amount ident now s = ((), Inr s')"
    note eff = reserve_fn_effect [OF A(2)]
    obtain a where a: "s' = budget_put k a s" "charge a = amount"
      using eff(5) by (auto simp: charge_def held_of_def)
    have "0 \<le> msum overshoot (attempts_of s)"
      using inv(1) by (intro msum_nonneg) (auto simp: overshoot_def)
    with eff(4) have "msum charge (attempts_of s) + amount \<le> bsLimit s"
      by (simp add: msum_charge_overshoot)
    with a wf inv A(1) show ?thesis by (auto simp: budget_inv_def msum_mput)
  qed
qed

interpretation budget_run: stepper budget_step budget_inv
  by unfold_locales (rule budget_step_inv)

lemma open_fn_inv:
  "open_fn existed limit budget_zero = (u, Inr s) \<Longrightarrow> 0 \<le> limit \<Longrightarrow> limit \<le> MaxInt64 \<Longrightarrow>
   budget_inv s \<and> bsLimit s = limit"
  by (auto simp: open_fn_def budget_zero_def budget_inv_def attempts_of_def Let_def
        dest!: budgetSnapshot_Inr split: if_splits sum.splits)

lemma budget_step_limit: "budget_step s s' \<Longrightarrow> bsLimit s' = bsLimit s"
  by (drule budget_step_cases) (auto dest!: reserve_fn_effect(5))

lemma budget_run_limit: "budget_step\<^sup>*\<^sup>* s s' \<Longrightarrow> bsLimit s' = bsLimit s"
  by (induction rule: rtranclp.induct) (auto dest: budget_step_limit)


subsection \<open>Histories\<close>

definition finished :: "attempt_state \<Rightarrow> bool" where
  "finished x \<longleftrightarrow> x = Settled \<or> x = Released"

text \<open>No attempt disappears, none changes the amount it reserved, and a finished one keeps its
  state and its cost.\<close>

definition keeps :: "budget_attempt \<Rightarrow> budget_attempt \<Rightarrow> bool" where
  "keeps a b \<longleftrightarrow> baReserved b = baReserved a \<and> lifecycle\<^sup>*\<^sup>* (baState a) (baState b)
     \<and> (finished (baState a) \<longrightarrow> baState b = baState a \<and> baCost b = baCost a)"

definition remembers :: "budget_state \<Rightarrow> budget_state \<Rightarrow> bool" where
  "remembers s s' \<longleftrightarrow>
     mall (\<lambda>k a. \<exists>b. mget (attempts_of s') k = Some b \<and> keeps a b) (attempts_of s)"

lemma keeps_refl [simp]: "keeps a a"
  by (simp add: keeps_def)

lemma keeps_trans: "keeps a b \<Longrightarrow> keeps b c \<Longrightarrow> keeps a c"
  unfolding keeps_def by (auto intro: rtranclp_trans)

lemma remembers_refl: "remembers s s"
  by (auto simp: remembers_def mall_def)

lemma remembers_trans:
  assumes "remembers s t" "remembers t u"
  shows "remembers s u"
  unfolding remembers_def mall_def
proof (intro allI impI)
  fix k a
  assume "mget (attempts_of s) k = Some a"
  then obtain b where "mget (attempts_of t) k = Some b" "keeps a b"
    using assms(1) by (auto simp: remembers_def dest: mallD)
  moreover from this obtain c where "mget (attempts_of u) k = Some c" "keeps b c"
    using assms(2) by (auto simp: remembers_def dest: mallD)
  ultimately show "\<exists>c. mget (attempts_of u) k = Some c \<and> keeps a c"
    by (blast intro: keeps_trans)
qed

lemma moves_keeps: "moves k a b \<Longrightarrow> keeps a b"
  by (auto simp: moves_def keeps_def finished_def)

lemma budget_step_remembers: "budget_step s s' \<Longrightarrow> remembers s s'"
proof (drule budget_step_cases, elim disjE exE conjE)
  assume "s' = s"
  then show ?thesis by (simp add: remembers_refl)
next
  fix k a b
  assume A: "mget (attempts_of s) k = Some a" "s' = budget_put k b s" "moves k a b"
  then show ?thesis
    using moves_keeps by (auto simp: remembers_def mall_def)
next
  fix k prov model p amount ident now
  assume A: "mget (attempts_of s) k = None"
    "reserve_fn k prov model p amount ident now s = ((), Inr s')"
  obtain a where "s' = budget_put k a s" using reserve_fn_effect(5) [OF A(2)] by blast
  with A(1) show ?thesis by (auto simp: remembers_def mall_def)
qed

lemma budget_run_remembers: "budget_step\<^sup>*\<^sup>* s s' \<Longrightarrow> remembers s s'"
  by (induction rule: rtranclp.induct)
    (blast intro: remembers_refl remembers_trans budget_step_remembers)+

subsection \<open>Recovery\<close>

text \<open>What recovery makes of an orphaned attempt, and of any other.\<close>

definition recovered :: "instant \<Rightarrow> budget_attempt \<Rightarrow> budget_attempt" where
  "recovered now r =
     (case baState r of
        Reserved \<Rightarrow> r\<lparr>baState := Released, baReason := ''recovered before sending claim'',
                     baUpdatedAt := now\<rparr>
      | Sending \<Rightarrow> r\<lparr>baState := UnknownCost,
                     baReason := ''process ended after sending claim; billing uncertain'',
                     baUpdatedAt := now\<rparr>
      | _ \<Rightarrow> r)"

definition orphan :: "(string \<Rightarrow> recover_env) \<Rightarrow> string \<Rightarrow> budget_attempt \<Rightarrow> bool" where
  "orphan env k r \<longleftrightarrow> (baState r = Reserved \<or> baState r = Sending) \<and> re_lease (env k) = None"

lemma recover_fn_orphan:
  "bsAttempts s = Some m \<Longrightarrow> mget m k = Some r \<Longrightarrow> baState r = Reserved \<or> baState r = Sending \<Longrightarrow>
   recover_fn k now s = ((), Inr (s\<lparr>bsAttempts := Some (mput k (recovered now r) m)\<rparr>))"
  by (auto simp: recover_fn_def recovered_def Let_def)

text \<open>Every lease either is free or is held by a live sender, and the file can be written.\<close>

definition quiet_env :: "(string \<Rightarrow> recover_env) \<Rightarrow> bool" where
  "quiet_env env \<longleftrightarrow> (\<forall>k. re_io (env k) = io_ok \<and> re_ctx (env k) = None
     \<and> (re_lease (env k) = None \<or> re_lease (env k) = Some DeadlineExceeded))"

lemma recover_loop_quiet:
  assumes "quiet_env env" "wf_map todo" "mall (\<lambda>k r. budgetID k) todo"
    and "bsAttempts s = Some m" "mall (\<lambda>k r. mget m k = Some r) todo"
  shows "\<exists>m'. recover_loop env todo (Holds s) = (None, Holds (s\<lparr>bsAttempts := Some m'\<rparr>))
     \<and> (\<forall>k. mget m' k = (case mget todo k of
              Some r \<Rightarrow> Some (if orphan env k r then recovered (re_now (env k)) r else r)
            | None \<Rightarrow> mget m k))"
  using assms(2-)
proof (induction todo arbitrary: s m)
  case Nil
  then show ?case by (intro exI [of _ m]) simp
next
  case (Cons p todo)
  obtain k r where p: "p = (k, r)" by (cases p)
  have wf: "wf_map todo" and fresh: "mget todo k = None"
    using Cons.prems(1) by (simp_all add: p wf_map_Cons)
  have id: "budgetID k" and ids: "mall (\<lambda>k r. budgetID k) todo"
    and here: "mget m k = Some r" and rest: "mall (\<lambda>k r. mget m k = Some r) todo"
    using Cons.prems(2,4) fresh by (simp_all add: p mall_Cons)
  have env: "re_io (env k) = io_ok" "re_ctx (env k) = None"
    "re_lease (env k) = None \<or> re_lease (env k) = Some DeadlineExceeded"
    using assms(1) by (auto simp: quiet_env_def)
  define m1 where "m1 = (if orphan env k r then mput k (recovered (re_now (env k)) r) m else m)"
  have m1: "mget m1 k' = (if k' = k \<and> orphan env k r then Some (recovered (re_now (env k)) r)
                          else mget m k')" for k'
    by (simp add: m1_def)
  have rest': "mall (\<lambda>k r. mget m1 k = Some r) todo"
    using rest fresh by (auto simp: mall_def m1)
  have same: "s\<lparr>bsAttempts := Some m\<rparr> = s" using Cons.prems(3) by (cases s) auto
  have step: "recover_loop env (p # todo) (Holds s)
      = recover_loop env todo (Holds (s\<lparr>bsAttempts := Some m1\<rparr>))"
    using env id Cons.prems(3) here
    by (auto simp: p m1_def orphan_def lease_def recover_fn_orphan errors_is_def same)
  obtain m' where m': "recover_loop env todo (Holds (s\<lparr>bsAttempts := Some m1\<rparr>))
      = (None, Holds (s\<lparr>bsAttempts := Some m'\<rparr>))"
    "\<forall>k. mget m' k = (case mget todo k of
              Some r \<Rightarrow> Some (if orphan env k r then recovered (re_now (env k)) r else r)
            | None \<Rightarrow> mget m1 k)"
    using Cons.IH [OF wf ids _ rest', of "s\<lparr>bsAttempts := Some m1\<rparr>"] by auto
  have "mget m' k' = (case mget (p # todo) k' of
              Some r \<Rightarrow> Some (if orphan env k' r then recovered (re_now (env k')) r else r)
            | None \<Rightarrow> mget m k')" for k'
    using m'(2) fresh here by (cases "k' = k") (auto simp: m1 p split: option.split)
  with step m'(1) show ?case by auto
qed

subsection \<open>Properties\<close>

text \<open>C1. The limit holds for every history: from a freshly opened account, after any sequence
  of reservations, claims, releases, settlements, recoveries and reconciliations, the snapshot
  succeeds and what is spent or held exceeds the limit at most by the amounts by which
  providers billed more than their reservations.\<close>

theorem budget_limit_holds:
  assumes "open_fn False limit budget_zero = ((), Inr s0)"
    and "0 \<le> limit" and "limit \<le> MaxInt64" and "budget_step\<^sup>*\<^sup>* s0 s"
  shows "\<exists>v. budgetSnapshot s = Inr v \<and> snLimit v = limit
           \<and> snSpent v + snHeld v \<le> limit + msum overshoot (snAttempts v)"
proof -
  have "budget_inv s0" "bsLimit s0 = limit" using open_fn_inv assms(1-3) by auto
  then have "budget_inv s" "bsLimit s = limit"
    using budget_run.run_inv [OF assms(4)] budget_run_limit [OF assms(4)] by auto
  then show ?thesis
    by (intro exI [of _ "view_spec s"])
      (auto simp: budgetSnapshot_iff budget_inv_def msum_charge_overshoot)
qed

text \<open>A concrete account of limit 10 with one reservation of 7.\<close>

definition demo_key :: string where
  "demo_key = ''00000000000000000000000000000001''"

definition demo_price :: fixed_price where
  "demo_price = \<lparr>pInput = 1000000, pOutput = 2000000, pCacheRead = 100000, pCacheWrite = 500000\<rparr>"

definition demo_open :: budget_state where
  "demo_open = \<lparr>bsSchema = budget_schema, bsLimit = 10, bsAttempts = Some []\<rparr>"

definition demo_reserved :: budget_attempt where
  "demo_reserved = \<lparr>baID = demo_key, baState = Reserved, baProvider = ''p'', baModel = ''m'',
     baActualModel = '''', baReserved = 7, baCost = 0, baPrice = demo_price, baUsage = no_usage,
     baIdentity = no_identity, baReason = '''', baNeedsReconciliation = False, baCreatedAt = 5,
     baUpdatedAt = 5\<rparr>"

lemma demo_key_ok [simp]: "budgetID demo_key"
  by (simp add: budgetID_def demo_key_def hex_digit_def)

lemma demo_open_fn: "open_fn False 10 budget_zero = ((), Inr demo_open)"
  by (simp add: open_fn_def budget_zero_def demo_open_def Let_def budgetSnapshot_def budget_schema_def)

lemma demo_reserve:
  "reserve_fn demo_key ''p'' ''m'' demo_price 7 no_identity 5 demo_open
     = ((), Inr (budget_put demo_key demo_reserved demo_open))"
  by (simp add: reserve_fn_def demo_open_def budgetSnapshot_def demo_reserved_def budget_put_def
      attempts_of_def add64_def wrap64_def)

lemma budget_limit_holds_witness:
  "\<exists>v. budgetSnapshot (budget_put demo_key demo_reserved demo_open) = Inr v \<and> snLimit v = 10
     \<and> snSpent v + snHeld v \<le> 10 + msum overshoot (snAttempts v)"
proof (rule budget_limit_holds [OF demo_open_fn])
  show "budget_step\<^sup>*\<^sup>* demo_open (budget_put demo_key demo_reserved demo_open)"
    by (rule r_into_rtranclp, rule budget_step.reserve [OF demo_reserve demo_key_ok])
      (simp add: demo_open_def attempts_of_def)
qed (simp_all add: MaxInt64_def)

text \<open>Admission is exact: on a well-formed account a reservation is granted if and only if no
  attempt awaits reconciliation, the amount is not negative, and the amount fits beside what
  is spent and held; when frozen the error is the accounting error, otherwise exhaustion; and
  the unguarded 64-bit sum of spent and held in the admission test never wraps.\<close>

theorem reserve_admission:
  assumes "budget_wf s"
  shows "reserve_fn k prov model p amount ident now s =
           (if snFrozen (view_spec s) then ((), Inl ErrBudgetAccounting)
            else if amount < 0
                    \<or> snSpent (view_spec s) + snHeld (view_spec s) + amount > bsLimit s
            then ((), Inl ErrBudgetExhausted)
            else ((), Inr (budget_put k
                   \<lparr>baID = k, baState = Reserved, baProvider = prov, baModel = model,
                    baActualModel = '''', baReserved = amount, baCost = 0, baPrice = p,
                    baUsage = no_usage, baIdentity = ident, baReason = '''',
                    baNeedsReconciliation = False, baCreatedAt = now, baUpdatedAt = now\<rparr> s)))
         \<and> add64 (snSpent (view_spec s)) (snHeld (view_spec s))
             = snSpent (view_spec s) + snHeld (view_spec s)"
  using assms
  by (auto simp: reserve_fn_def budgetSnapshot_wf budget_wf_add64 budget_put_def)

lemma reserve_admission_witness:
  "reserve_fn demo_key ''p'' ''m'' demo_price 11 no_identity 5 demo_open
       = ((), Inl ErrBudgetExhausted)"
proof -
  have wf: "budget_wf demo_open"
    by (simp add: budget_wf_def demo_open_def)
  show ?thesis
    using reserve_admission [OF wf, of demo_key "''p''" "''m''" demo_price 11 no_identity 5]
    by (simp add: demo_open_def attempts_of_def)
qed

text \<open>C2. The account is a history: no step makes an attempt disappear or changes the amount it
  reserved, its state only moves forward, and a settled or released attempt keeps its state
  and its cost for ever.\<close>

theorem attempts_are_history:
  assumes "budget_step\<^sup>*\<^sup>* s s'" and "mget (attempts_of s) k = Some a"
  shows "\<exists>b. mget (attempts_of s') k = Some b \<and> baReserved b = baReserved a
     \<and> lifecycle\<^sup>*\<^sup>* (baState a) (baState b)
     \<and> (finished (baState a) \<longrightarrow> baState b = baState a \<and> baCost b = baCost a)"
  using budget_run_remembers [OF assms(1)] assms(2)
  by (auto simp: remembers_def keeps_def dest: mallD)

lemma attempts_are_history_witness:
  "\<exists>b. mget (attempts_of (budget_put demo_key demo_reserved demo_open)) demo_key = Some b
     \<and> baReserved b = 7"
  using attempts_are_history [OF rtranclp.rtrancl_refl, of "budget_put demo_key demo_reserved demo_open"
      demo_key demo_reserved]
  by (simp add: demo_reserved_def)

text \<open>Recovery settles every orphan and touches nothing else: on a well-formed account, when
  every lease is free or held by a live sender and the file can be written, recovery succeeds;
  a reserved attempt with a free lease is released, a sending one becomes unknown and keeps its
  reservation, and every other attempt is unchanged.\<close>

theorem recover_orphans:
  assumes "quiet_env env" and "budget_wf s" and "wf_map (attempts_of s)"
  shows "\<exists>s'. Recover io_ok env (Holds s) = (None, Holds s') \<and> bsLimit s' = bsLimit s
     \<and> (\<forall>k. mget (attempts_of s') k = map_option
            (\<lambda>r. if orphan env k r then recovered (re_now (env k)) r else r)
            (mget (attempts_of s) k))"
proof -
  obtain m where m: "bsAttempts s = Some m" using budget_wf_some [OF assms(2)] by auto
  then have att: "attempts_of s = m" by (simp add: attempts_of_def)
  have snap: "account_snapshot io_ok (Holds s) = Inr (view_spec s)"
    using assms(2) by (simp add: account_snapshot_def budgetSnapshot_wf)
  have "mall (\<lambda>k r. budgetID k) m" "mall (\<lambda>k r. mget m k = Some r) m"
    using budget_wf_entry [OF assms(2)] by (auto simp: mall_def att valid_entry_def)
  from recover_loop_quiet [OF assms(1) assms(3) [unfolded att] this(1) m this(2)]
  obtain m' where m': "recover_loop env m (Holds s) = (None, Holds (s\<lparr>bsAttempts := Some m'\<rparr>))"
    "\<forall>k. mget m' k = (case mget m k of
              Some r \<Rightarrow> Some (if orphan env k r then recovered (re_now (env k)) r else r)
            | None \<Rightarrow> mget m k)" by blast
  show ?thesis
    by (intro exI [of _ "s\<lparr>bsAttempts := Some m'\<rparr>"])
      (auto simp: Recover_def snap m' att attempts_of_def [of "s\<lparr>bsAttempts := Some m'\<rparr>"]
        split: option.split)
qed

definition demo_env :: "string \<Rightarrow> recover_env" where
  "demo_env k = \<lparr>re_lease = None, re_ctx = None, re_io = io_ok, re_now = 9\<rparr>"

lemma recover_orphans_witness:
  "\<exists>s'. Recover io_ok demo_env (Holds (budget_put demo_key demo_reserved demo_open)) = (None, Holds s')
     \<and> mget (attempts_of s') demo_key = Some (recovered 9 demo_reserved)"
proof -
  let ?s = "budget_put demo_key demo_reserved demo_open"
  have q: "quiet_env demo_env" by (simp add: quiet_env_def demo_env_def)
  have wf: "budget_wf ?s" "wf_map (attempts_of ?s)"
    by (simp_all add: budget_wf_def demo_open_def budget_put_def attempts_of_def mput_def
        valid_entry_def demo_reserved_def spent_of_def held_of_def MaxInt64_def wf_map_def)
  show ?thesis
    using recover_orphans [OF q wf]
    by (auto simp: orphan_def demo_env_def demo_reserved_def)
qed

end
