(* ===== verification/Model.thy ===== *)
theory Model
  imports Tracing Pricing
begin

section \<open>Messages, tool calls and completions\<close>

text \<open>
  \<open>internal/model/types.go\<close> and the value types of \<open>internal/provider\<close>. A decoded JSON value of
  Go's type \<open>any\<close> is a \<open>json\<close>: an object is an association list in its iteration order, a
  number is its literal. A nil map of arguments is \<^const>\<open>None\<close>.
\<close>

datatype json =
    JNull
  | JBool bool
  | JNum string
  | JStr string
  | JArr "json list"
  | JObj "(string \<times> json) list"

record tool_call =
  tcID :: string
  tcName :: string
  tcArgs :: "json gomap option"

record native_item =
  niProtocol :: string
  niData :: string

record message =
  mID :: string
  mToolCalls :: "tool_call list"
  mToolCallID :: string
  mRole :: string
  mContent :: string
  mNative :: "native_item list"

record tool_result =
  trName :: string
  trStatus :: string
  trOutput :: string
  trError :: string
  trErrorCode :: string
  trPaths :: "string list"
  trMetadata :: "json gomap"

definition no_result :: tool_result where
  "no_result = \<lparr>trName = '''', trStatus = '''', trOutput = '''', trError = '''', trErrorCode = '''',
     trPaths = [], trMetadata = []\<rparr>"

record completion =
  cText :: string
  cUsage :: usage
  cActualModel :: string
  cToolCalls :: "tool_call list"
  cNative :: "native_item list"
  cStopReason :: string

definition no_completion :: completion where
  "no_completion = \<lparr>cText = '''', cUsage = no_usage, cActualModel = '''', cToolCalls = [],
     cNative = [], cStopReason = ''''\<rparr>"

text \<open>A plain text message and a call, used to write examples.\<close>

definition text_message :: "string \<Rightarrow> string \<Rightarrow> message" where
  "text_message role content = \<lparr>mID = '''', mToolCalls = [], mToolCallID = '''', mRole = role,
     mContent = content, mNative = []\<rparr>"

end
