(* ===== verification/Clients.thy ===== *)
theory Clients
  imports Model
begin

section \<open>Model clients and their wrappers\<close>

text \<open>
  The client tree of \<open>internal/provider\<close>: the two network clients with their configured
  profile, an injected client, and the wrappers \<open>Metered\<close>, \<open>Budgeted\<close> and \<open>Resilient\<close>. The
  base URL of a profile is given by what \<open>url.Parse\<close> makes of it: \<^const>\<open>None\<close> for a parse
  error, otherwise the scheme and the host. An injected client carries the answers of its
  optional interfaces.
\<close>

record profile =
  cfName :: string
  cfAPIKey :: string
  cfBaseURL :: "(string \<times> string) option"
  cfModel :: string
  cfContextWindow :: int
  cfMaxOutput :: int
  cfTokenizer :: string

definition no_profile :: profile where
  "no_profile = \<lparr>cfName = '''', cfAPIKey = '''', cfBaseURL = Some ('''', ''''), cfModel = '''',
     cfContextWindow = 0, cfMaxOutput = 0, cfTokenizer = ''''\<rparr>"

definition ContextPolicy :: "profile \<Rightarrow> int \<times> int \<times> string" where
  "ContextPolicy p =
     (if cfContextWindow p = 0 then 65536 else cfContextWindow p,
      if cfMaxOutput p = 0 then 8192 else cfMaxOutput p,
      if cfTokenizer p = '''' then ''cl100k_base'' else cfTokenizer p)"

record injected =
  ijName :: string
  ijModel :: string
  ijPolicy :: "(int \<times> int \<times> string) option"
  ijNativeTools :: bool
  ijVision :: bool

datatype client =
    OpenAI profile
  | Anthropic profile
  | Injected injected
  | Metered client
  | Budgeted client
  | Resilient "client list"

text \<open>
  \<open>Name\<close> and \<open>Model\<close> of a \<open>Resilient\<close> index its first client, which panics when there is
  none: \<^const>\<open>None\<close>.
\<close>

fun client_Name :: "client \<Rightarrow> string option" where
  "client_Name (OpenAI p) = Some (cfName p)"
| "client_Name (Anthropic p) = Some (cfName p)"
| "client_Name (Injected i) = Some (ijName i)"
| "client_Name (Metered c) = client_Name c"
| "client_Name (Budgeted c) = client_Name c"
| "client_Name (Resilient []) = None"
| "client_Name (Resilient (c # cs)) = client_Name c"

fun client_Model :: "client \<Rightarrow> string option" where
  "client_Model (OpenAI p) = Some (cfModel p)"
| "client_Model (Anthropic p) = Some (cfModel p)"
| "client_Model (Injected i) = Some (ijModel i)"
| "client_Model (Metered c) = client_Model c"
| "client_Model (Budgeted c) = client_Model c"
| "client_Model (Resilient []) = None"
| "client_Model (Resilient (c # cs)) = client_Model c"

text \<open>The optional interface \<open>ContextProfiler\<close>; \<open>Resilient\<close> does not implement it.\<close>

fun profiler :: "client \<Rightarrow> (int \<times> int \<times> string) option" where
  "profiler (OpenAI p) = Some (ContextPolicy p)"
| "profiler (Anthropic p) = Some (ContextPolicy p)"
| "profiler (Injected i) = ijPolicy i"
| "profiler (Metered c) = Some (case profiler c of Some x \<Rightarrow> x | None \<Rightarrow> ContextPolicy no_profile)"
| "profiler (Budgeted c) = Some (case profiler c of Some x \<Rightarrow> x | None \<Rightarrow> ContextPolicy no_profile)"
| "profiler (Resilient cs) = None"

fun HasNativeTools :: "client \<Rightarrow> bool" where
  "HasNativeTools (OpenAI p) = True"
| "HasNativeTools (Anthropic p) = True"
| "HasNativeTools (Injected i) = ijNativeTools i"
| "HasNativeTools (Metered c) = HasNativeTools c"
| "HasNativeTools (Budgeted c) = HasNativeTools c"
| "HasNativeTools (Resilient cs) = (cs \<noteq> [] \<and> list_all HasNativeTools cs)"

fun physicalBudgetClient :: "client \<Rightarrow> client" where
  "physicalBudgetClient (Metered c) = physicalBudgetClient c"
| "physicalBudgetClient c = c"

text \<open>The optional interface \<open>VisionClient\<close>: every client of the package has the method.\<close>

fun has_vision :: "client \<Rightarrow> bool" where
  "has_vision (Injected i) = ijVision i"
| "has_vision c = True"

definition budgetPreflight :: "client \<Rightarrow> gerr option" where
  "budgetPreflight c =
     (case (case physicalBudgetClient c of OpenAI p \<Rightarrow> Some p | Anthropic p \<Rightarrow> Some p | _ \<Rightarrow> None) of
        None \<Rightarrow> None
      | Some p \<Rightarrow>
          if TrimSpace (cfAPIKey p) = '''' then Some (Msg ''provider API key is not configured'')
          else (case cfBaseURL p of
                  None \<Rightarrow> Some (Msg ''invalid provider base URL'')
                | Some (scheme, host) \<Rightarrow>
                    if host = '''' \<or> (scheme \<noteq> ''http'' \<and> scheme \<noteq> ''https'')
                    then Some (Msg ''invalid provider base URL'') else None))"

subsection \<open>Wrapping a client with a budget\<close>

fun wrap_guard :: "client \<Rightarrow> gerr option" where
  "wrap_guard (Budgeted c) = Some ErrNestedBudget"
| "wrap_guard (Resilient cs) = Some (Msg ''budget must wrap each retry client, not Resilient'')"
| "wrap_guard (Metered c) = wrap_guard c"
| "wrap_guard c = None"

fun copy_prices :: "fixed_price gomap \<Rightarrow> fixed_price gomap \<Rightarrow> gerr + fixed_price gomap" where
  "copy_prices [] acc = Inr acc"
| "copy_prices ((k, p) # rest) acc =
     (if \<not> price_valid p then Inl (Errorf ''invalid price for %s'' [k])
      else copy_prices rest (mput k p acc))"

record budgeted =
  bgDelegate :: client
  bgPrices :: "fixed_price gomap"

text \<open>\<open>WrapBudget\<close>; the nil delegate and the nil account are \<^const>\<open>None\<close> and \<open>has_account\<close>.\<close>

definition WrapBudget :: "client option \<Rightarrow> bool \<Rightarrow> fixed_price gomap \<Rightarrow> gerr + budgeted" where
  "WrapBudget delegate has_account prices =
     (case delegate of
        None \<Rightarrow> Inl (Msg ''budget requires provider and account'')
      | Some c \<Rightarrow>
        if \<not> has_account then Inl (Msg ''budget requires provider and account'')
        else (case wrap_guard c of
          Some e \<Rightarrow> Inl e
        | None \<Rightarrow>
          (case copy_prices prices [] of
             Inl e \<Rightarrow> Inl e
           | Inr copied \<Rightarrow>
             (case client_Model c of
                None \<Rightarrow> Inl (Panicked ''index out of range'')
              | Some m \<Rightarrow>
                if mget copied m = None then Inl (Errorf ''missing explicit price for %s'' [m])
                else Inr \<lparr>bgDelegate = c, bgPrices = copied\<rparr>))))"

definition Budgeted_ContextPolicy :: "budgeted \<Rightarrow> int \<times> int \<times> string" where
  "Budgeted_ContextPolicy b =
     (case profiler (bgDelegate b) of Some x \<Rightarrow> x | None \<Rightarrow> ContextPolicy no_profile)"

subsection \<open>What a wrapped client looks like\<close>

lemma wrap_guard_chain:
  "wrap_guard c = None \<Longrightarrow>
     (\<exists>p. physicalBudgetClient c = OpenAI p \<or> physicalBudgetClient c = Anthropic p)
     \<or> (\<exists>i. physicalBudgetClient c = Injected i)"
  by (induction c rule: wrap_guard.induct) auto

lemma wrap_guard_Model: "wrap_guard c = None \<Longrightarrow> client_Model c \<noteq> None"
  by (induction c rule: wrap_guard.induct) auto

lemma wrap_guard_Name: "wrap_guard c = None \<Longrightarrow> client_Name c \<noteq> None"
  by (induction c rule: wrap_guard.induct) auto

lemma copy_prices_valid:
  "copy_prices ps acc = Inr m \<Longrightarrow> mall (\<lambda>k p. price_valid p) acc \<Longrightarrow> mall (\<lambda>k p. price_valid p) m"
  by (induction ps acc rule: copy_prices.induct) (auto split: if_splits intro: mall_mput)

lemma copy_prices_get:
  "copy_prices ps acc = Inr m \<Longrightarrow> wf_map ps \<Longrightarrow>
   mget m k = (case mget ps k of Some p \<Rightarrow> Some p | None \<Rightarrow> mget acc k)"
  by (induction ps acc rule: copy_prices.induct)
    (auto simp: wf_map_Cons split: if_splits option.split)

lemma WrapBudget_Inr:
  assumes "WrapBudget d acc ps = Inr b"
  shows "d = Some (bgDelegate b) \<and> acc \<and> wrap_guard (bgDelegate b) = None
     \<and> mall (\<lambda>k p. price_valid p) (bgPrices b)
     \<and> (\<exists>m p. client_Model (bgDelegate b) = Some m \<and> mget (bgPrices b) m = Some p)"
  using assms copy_prices_valid [of ps "[]"]
  by (auto simp: WrapBudget_def split: option.splits sum.splits if_splits)

end
