(* ===== verification/Conversation.thy ===== *)
theory Conversation
  imports Model "HOL-Library.Multiset"
begin

section \<open>Tool exchanges in a conversation\<close>

text \<open>
  Two validators of a message list: \<open>ValidateConversation\<close> of \<open>internal/provider/chat.go\<close>, run
  before a request is sent, and \<open>ValidateClosure\<close> of \<open>internal/contextbuilder/closure.go\<close>, run
  on stored history, which also accepts text-only transcripts. Both walk the list with the set
  of calls still waiting for a result and the set of call identifiers seen; the Go sets
  \<open>map[string]bool\<close> are lists of their members.
\<close>

subsection \<open>ValidateConversation\<close>

fun conv_calls :: "string \<Rightarrow> tool_call list \<Rightarrow> string list \<Rightarrow> string list \<Rightarrow> gerr + (string list \<times> string list)" where
  "conv_calls role [] pending seen = Inr (pending, seen)"
| "conv_calls role (c # cs) pending seen =
     (if role \<noteq> ''assistant'' \<or> tcID c = '''' \<or> tcName c = '''' \<or> tcID c \<in> set seen
      then Inl (Msg ''invalid or repeated tool call ID'')
      else conv_calls role cs (tcID c # pending) (tcID c # seen))"

fun conv_loop :: "message list \<Rightarrow> string list \<Rightarrow> string list \<Rightarrow> gerr option" where
  "conv_loop [] pending seen =
     (if pending \<noteq> [] then Some (Msg ''tool batch is missing results'') else None)"
| "conv_loop (m # ms) pending seen =
     (if mRole m = ''tool'' then
        (if mToolCallID m \<notin> set pending
         then Some (Errorf ''orphan or duplicate tool result %q'' [mToolCallID m])
         else conv_loop ms (removeAll (mToolCallID m) pending) seen)
      else if pending \<noteq> [] then Some (Msg ''tool batch is missing results'')
      else if mRole m \<noteq> ''system'' \<and> mRole m \<noteq> ''user'' \<and> mRole m \<noteq> ''assistant''
      then Some (Errorf ''invalid message role %q'' [mRole m])
      else (case conv_calls (mRole m) (mToolCalls m) pending seen of
              Inl e \<Rightarrow> Some e
            | Inr (pending', seen') \<Rightarrow> conv_loop ms pending' seen'))"

definition ValidateConversation :: "message list \<Rightarrow> gerr option" where
  "ValidateConversation messages = conv_loop messages [] []"

definition validateCalls :: "completion \<Rightarrow> completion \<times> gerr option" where
  "validateCalls out =
     (let bad = (\<lambda>seen c. tcID c = '''' \<or> tcName c = '''' \<or> tcID c \<in> set seen \<or> tcArgs c = None);
          step = (\<lambda>c acc. case acc of None \<Rightarrow> None
                          | Some seen \<Rightarrow> if bad seen c then None else Some (tcID c # seen))
      in (out, if fold step (cToolCalls out) (Some []) = None
               then Some (Msg ''invalid native tool call'') else None))"

subsection \<open>ValidateClosure\<close>

fun closure_calls :: "tool_call list \<Rightarrow> string list \<Rightarrow> string list \<Rightarrow> gerr + (string list \<times> string list)" where
  "closure_calls [] pending seen = Inr (pending, seen)"
| "closure_calls (c # cs) pending seen =
     (if tcID c = '''' \<or> tcID c \<in> set seen
      then Inl (Msg ''invalid or duplicate tool call ID'')
      else closure_calls cs (tcID c # pending) (tcID c # seen))"

definition closure_msg :: "message \<Rightarrow> string list \<Rightarrow> string list \<Rightarrow> gerr + (string list \<times> string list)" where
  "closure_msg m pending seen =
     (if mRole m \<noteq> ''tool'' \<and> pending \<noteq> []
      then Inl (Msg ''incomplete tool exchange before next message'')
      else if mToolCalls m \<noteq> [] \<and> mRole m \<noteq> ''assistant''
      then Inl (Msg ''tool calls require assistant role'')
      else if mRole m = ''tool'' \<and> mToolCallID m = '''' \<and> pending \<noteq> []
      then Inl (Msg ''missing tool result ID in native exchange'')
      else (case closure_calls (mToolCalls m) pending seen of
              Inl e \<Rightarrow> Inl e
            | Inr (pending', seen') \<Rightarrow>
                if mToolCallID m \<noteq> '''' then
                  (if mRole m \<noteq> ''tool'' \<or> mToolCallID m \<notin> set pending'
                   then Inl (Errorf ''orphan or duplicate tool result %q'' [mToolCallID m])
                   else Inr (removeAll (mToolCallID m) pending', seen'))
                else Inr (pending', seen')))"

fun closure_loop :: "message list \<Rightarrow> string list \<Rightarrow> string list \<Rightarrow> gerr + (string list \<times> string list)" where
  "closure_loop [] pending seen = Inr (pending, seen)"
| "closure_loop (m # ms) pending seen =
     (case closure_msg m pending seen of
        Inl e \<Rightarrow> Inl e
      | Inr (pending', seen') \<Rightarrow> closure_loop ms pending' seen')"

definition ValidateClosure :: "message list \<Rightarrow> gerr option" where
  "ValidateClosure messages =
     (case closure_loop messages [] [] of
        Inl e \<Rightarrow> Some e
      | Inr (pending, seen) \<Rightarrow>
          if pending \<noteq> []
          then Some (Errorf ''incomplete tool exchange: %d results missing'' [Itoa (length pending)])
          else None)"

subsection \<open>The grammar of a conversation\<close>

text \<open>
  What the provider accepts, said without a machine: a sequence of turns, each a message that
  is not a tool result followed by the results of exactly its calls in any order; only the
  assistant calls, and no identifier is used twice.
\<close>

definition turn_ok :: "string set \<Rightarrow> message \<Rightarrow> bool" where
  "turn_ok used m \<longleftrightarrow> mRole m \<in> {''system'', ''user'', ''assistant''}
     \<and> (mToolCalls m \<noteq> [] \<longrightarrow> mRole m = ''assistant'')
     \<and> distinct (map tcID (mToolCalls m)) \<and> set (map tcID (mToolCalls m)) \<inter> used = {}
     \<and> (\<forall>c \<in> set (mToolCalls m). tcID c \<noteq> '''' \<and> tcName c \<noteq> '''')"

definition results_for :: "message \<Rightarrow> message list \<Rightarrow> bool" where
  "results_for m rs \<longleftrightarrow> list_all (\<lambda>r. mRole r = ''tool'') rs
     \<and> mset (map mToolCallID rs) = mset (map tcID (mToolCalls m))"

inductive conversation :: "string set \<Rightarrow> message list \<Rightarrow> bool" where
  no_turns: "conversation used []"
| turn: "turn_ok used m \<Longrightarrow> results_for m rs \<Longrightarrow>
    conversation (used \<union> set (map tcID (mToolCalls m))) rest \<Longrightarrow> conversation used (m # rs @ rest)"

definition calls_ok :: "string \<Rightarrow> tool_call list \<Rightarrow> string set \<Rightarrow> bool" where
  "calls_ok role cs used \<longleftrightarrow> (cs \<noteq> [] \<longrightarrow> role = ''assistant'') \<and> distinct (map tcID cs)
     \<and> set (map tcID cs) \<inter> used = {} \<and> (\<forall>c \<in> set cs. tcID c \<noteq> '''' \<and> tcName c \<noteq> '''')"

lemma conv_calls_eq:
  "conv_calls role cs pending seen =
     (if calls_ok role cs (set seen) then Inr (rev (map tcID cs) @ pending, rev (map tcID cs) @ seen)
      else Inl (Msg ''invalid or repeated tool call ID''))"
proof (induction cs arbitrary: pending seen)
  case Nil
  then show ?case by (simp add: calls_ok_def)
next
  case (Cons c cs)
  have "calls_ok role (c # cs) (set seen) \<longleftrightarrow> role = ''assistant'' \<and> tcID c \<noteq> ''''
      \<and> tcName c \<noteq> '''' \<and> tcID c \<notin> set seen \<and> calls_ok role cs (insert (tcID c) (set seen))"
    by (auto simp: calls_ok_def)
  with Cons.IH [of "tcID c # pending" "tcID c # seen"] show ?case
    by (cases "role = ''assistant''") simp_all
qed

text \<open>The results phase: from a set of waiting calls the loop accepts exactly an arrangement of
  their results and then goes on with nothing waiting.\<close>

lemma conv_loop_results:
  "list_all (\<lambda>r. mRole r = ''tool'') rs \<Longrightarrow> distinct pending \<Longrightarrow>
   mset (map mToolCallID rs) = mset pending \<Longrightarrow>
   conv_loop (rs @ rest) pending seen = conv_loop rest [] seen"
proof (induction rs arbitrary: pending)
  case Nil
  then show ?case by simp
next
  case (Cons r rs)
  from Cons.prems(3) have r: "mToolCallID r \<in> set pending"
    by (metis list.set_intros(1) list.simps(9) mset_eq_setD)
  have "mset (map mToolCallID rs) = mset (removeAll (mToolCallID r) pending)"
    using Cons.prems(2,3) by (simp add: distinct_remove1_removeAll [symmetric])
      (metis add_mset_remove_trivial)
  then have "conv_loop (rs @ rest) (removeAll (mToolCallID r) pending) seen = conv_loop rest [] seen"
    using Cons.prems(1,2) by (intro Cons.IH) (simp_all add: distinct_removeAll)
  with Cons.prems(1) r show ?case by simp
qed

lemma conv_loop_waiting:
  assumes "conv_loop ms pending seen = None" "distinct pending"
  shows "\<exists>rs rest. ms = rs @ rest \<and> list_all (\<lambda>r. mRole r = ''tool'') rs
     \<and> mset (map mToolCallID rs) = mset pending \<and> conv_loop rest [] seen = None
     \<and> length rest \<le> length ms"
  using assms
proof (induction ms arbitrary: pending)
  case Nil
  then show ?case by (intro exI [of _ "[]"]) (auto split: if_splits)
next
  case (Cons m ms)
  show ?case
  proof (cases "pending = []")
    case True
    with Cons.prems show ?thesis by (intro exI [of _ "[]"] exI [of _ "m # ms"]) auto
  next
    case False
    with Cons.prems have m: "mRole m = ''tool''" "mToolCallID m \<in> set pending"
      "conv_loop ms (removeAll (mToolCallID m) pending) seen = None"
      by (auto split: if_splits)
    from Cons.IH [OF m(3)] Cons.prems(2) obtain rs rest where
      rs: "ms = rs @ rest" "list_all (\<lambda>r. mRole r = ''tool'') rs"
        "mset (map mToolCallID rs) = mset (removeAll (mToolCallID m) pending)"
        "conv_loop rest [] seen = None" "length rest \<le> length ms"
      by (auto simp: distinct_removeAll)
    have "mset (map mToolCallID (m # rs)) = mset pending"
      using rs(3) m(2) Cons.prems(2) by (simp add: distinct_remove1_removeAll [symmetric])
    with rs m(1) show ?thesis by (intro exI [of _ "m # rs"] exI [of _ rest]) auto
  qed
qed

lemma turn_ok_calls:
  "turn_ok used m \<longleftrightarrow> mRole m \<in> {''system'', ''user'', ''assistant''}
     \<and> calls_ok (mRole m) (mToolCalls m) used"
  by (auto simp: turn_ok_def calls_ok_def)

lemma conv_loop_turn:
  "mRole m \<noteq> ''tool'' \<Longrightarrow>
   conv_loop (m # ms) [] seen = None \<longleftrightarrow>
     turn_ok (set seen) m \<and>
     conv_loop ms (rev (map tcID (mToolCalls m))) (rev (map tcID (mToolCalls m)) @ seen) = None"
  by (simp add: turn_ok_calls conv_calls_eq)

lemma conversation_accepted:
  "conversation used ms \<Longrightarrow> set seen = used \<Longrightarrow> conv_loop ms [] seen = None"
proof (induction arbitrary: seen rule: conversation.induct)
  case (no_turns used)
  then show ?case by simp
next
  case (turn used m rs rest)
  then have "mRole m \<noteq> ''tool''" by (auto simp: turn_ok_def)
  moreover have "conv_loop rest [] (rev (map tcID (mToolCalls m)) @ seen) = None"
    by (rule turn.IH) (auto simp: turn.prems)
  then have "conv_loop (rs @ rest) (rev (map tcID (mToolCalls m)))
      (rev (map tcID (mToolCalls m)) @ seen) = None"
    using turn.hyps(1,2) by (subst conv_loop_results) (auto simp: results_for_def turn_ok_def)
  ultimately show ?case using turn.hyps(1) turn.prems conv_loop_turn [of m "rs @ rest" seen]
    by blast
qed

lemma accepted_conversation:
  "conv_loop ms [] seen = None \<Longrightarrow> conversation (set seen) ms"
proof (induction "length ms" arbitrary: ms seen rule: less_induct)
  case less
  show ?case
  proof (cases ms)
    case Nil
    then show ?thesis by (simp add: no_turns)
  next
    case (Cons m ms')
    with less.prems have role: "mRole m \<noteq> ''tool''" by auto
    from less.prems have ok: "turn_ok (set seen) m"
      and "conv_loop ms' (rev (map tcID (mToolCalls m))) (rev (map tcID (mToolCalls m)) @ seen) = None"
      unfolding Cons conv_loop_turn [OF role] by simp_all
    from conv_loop_waiting [OF this(2)] ok obtain rs rest where
      rs: "ms' = rs @ rest" "list_all (\<lambda>r. mRole r = ''tool'') rs"
        "mset (map mToolCallID rs) = mset (map tcID (mToolCalls m))"
        "conv_loop rest [] (rev (map tcID (mToolCalls m)) @ seen) = None"
        "length rest \<le> length ms'"
      by (auto simp: turn_ok_def)
    have "conversation (set (rev (map tcID (mToolCalls m)) @ seen)) rest"
      using less.hyps [OF _ rs(4)] rs(5) Cons by simp
    then have "conversation (set seen \<union> set (map tcID (mToolCalls m))) rest"
      by (simp add: Un_commute)
    with ok rs(2,3) show ?thesis
      unfolding Cons rs(1) by (intro conversation.turn) (auto simp: results_for_def)
  qed
qed

subsection \<open>Native transcripts: the two validators agree\<close>

text \<open>
  A native transcript has a result identifier on tool messages only, calls on other messages
  only, the three roles, and named calls. On those, history that \<open>ValidateClosure\<close> accepts is
  a request \<open>ValidateConversation\<close> accepts, and conversely.
\<close>

definition native_message :: "message \<Rightarrow> bool" where
  "native_message m \<longleftrightarrow>
     (if mRole m = ''tool'' then mToolCallID m \<noteq> '''' \<and> mToolCalls m = []
      else mRole m \<in> {''system'', ''user'', ''assistant''} \<and> mToolCallID m = ''''
           \<and> (\<forall>c \<in> set (mToolCalls m). tcName c \<noteq> ''''))"

definition closed_calls_ok :: "tool_call list \<Rightarrow> string set \<Rightarrow> bool" where
  "closed_calls_ok cs used \<longleftrightarrow> distinct (map tcID cs) \<and> set (map tcID cs) \<inter> used = {}
     \<and> (\<forall>c \<in> set cs. tcID c \<noteq> '''')"

lemma closure_calls_eq:
  "closure_calls cs pending seen =
     (if closed_calls_ok cs (set seen) then Inr (rev (map tcID cs) @ pending, rev (map tcID cs) @ seen)
      else Inl (Msg ''invalid or duplicate tool call ID''))"
proof (induction cs arbitrary: pending seen)
  case Nil
  then show ?case by (simp add: closed_calls_ok_def)
next
  case (Cons c cs)
  have "closed_calls_ok (c # cs) (set seen) \<longleftrightarrow> tcID c \<noteq> '''' \<and> tcID c \<notin> set seen
      \<and> closed_calls_ok cs (insert (tcID c) (set seen))"
    by (auto simp: closed_calls_ok_def)
  with Cons.IH [of "tcID c # pending" "tcID c # seen"] show ?case by simp
qed

definition closure_state :: "message list \<Rightarrow> string list \<Rightarrow> string list \<Rightarrow> bool" where
  "closure_state ms pending seen \<longleftrightarrow>
     (\<exists>seen'. closure_loop ms pending seen = Inr ([], seen'))"

lemma ValidateClosure_None: "ValidateClosure ms = None \<longleftrightarrow> closure_state ms [] []"
  by (auto simp: ValidateClosure_def closure_state_def split: sum.splits if_splits)

lemma native_agree:
  "list_all native_message ms \<Longrightarrow> closure_state ms pending seen \<longleftrightarrow> conv_loop ms pending seen = None"
proof (induction ms arbitrary: pending seen)
  case Nil
  then show ?case by (auto simp: closure_state_def)
next
  case (Cons m ms)
  then have m: "native_message m"
    and IH: "\<And>pending seen. closure_state ms pending seen \<longleftrightarrow> conv_loop ms pending seen = None"
    by simp_all
  show ?case
  proof (cases "mRole m = ''tool''")
    case True
    with m have tool: "mToolCallID m \<noteq> ''''" "mToolCalls m = []"
      by (auto simp: native_message_def)
    have "closure_msg m pending seen =
        (if mToolCallID m \<notin> set pending
         then Inl (Errorf ''orphan or duplicate tool result %q'' [mToolCallID m])
         else Inr (removeAll (mToolCallID m) pending, seen))"
      using True tool by (simp add: closure_msg_def)
    then show ?thesis using True IH by (simp add: closure_state_def)
  next
    case False
    with m have msg: "mRole m \<in> {''system'', ''user'', ''assistant''}" "mToolCallID m = ''''"
      "\<forall>c \<in> set (mToolCalls m). tcName c \<noteq> ''''"
      by (auto simp: native_message_def)
    have same: "calls_ok (mRole m) (mToolCalls m) (set seen) \<longleftrightarrow>
        (mToolCalls m \<noteq> [] \<longrightarrow> mRole m = ''assistant'') \<and> closed_calls_ok (mToolCalls m) (set seen)"
      using msg(3) by (auto simp: calls_ok_def closed_calls_ok_def)
    show ?thesis
    proof (cases "pending = [] \<and> (mToolCalls m \<noteq> [] \<longrightarrow> mRole m = ''assistant'')
        \<and> closed_calls_ok (mToolCalls m) (set seen)")
      case True
      then have "closure_msg m pending seen =
          Inr (rev (map tcID (mToolCalls m)), rev (map tcID (mToolCalls m)) @ seen)"
        using False msg(2) by (auto simp: closure_msg_def closure_calls_eq)
      then have "closure_state (m # ms) pending seen \<longleftrightarrow>
          closure_state ms (rev (map tcID (mToolCalls m))) (rev (map tcID (mToolCalls m)) @ seen)"
        by (simp add: closure_state_def)
      moreover have "turn_ok (set seen) m"
        using True same msg(1) by (auto simp: turn_ok_calls)
      ultimately show ?thesis
        using True conv_loop_turn [OF False, of ms seen] by (simp only: IH) simp
    next
      case bad: False
      then have "\<exists>e. closure_msg m pending seen = Inl e"
        using False by (auto simp: closure_msg_def closure_calls_eq)
      moreover have "conv_loop (m # ms) pending seen \<noteq> None"
        using bad False same conv_loop_turn [OF False, of ms seen]
        by (cases "pending = []") (auto simp: turn_ok_calls)
      ultimately show ?thesis by (auto simp: closure_state_def)
    qed
  qed
qed

subsection \<open>Forgetting identifiers already used\<close>

text \<open>A stretch of messages that validates after some history validates on its own.\<close>

lemma closure_msg_forget:
  assumes "closure_msg m pending seen = Inr (p, s)" "set seen' \<subseteq> set seen"
  shows "\<exists>s'. closure_msg m pending seen' = Inr (p, s') \<and> set s' \<subseteq> set s"
proof -
  have ok: "closed_calls_ok (mToolCalls m) (set seen)"
    using assms(1) by (auto simp: closure_msg_def closure_calls_eq split: if_splits)
  then have "closed_calls_ok (mToolCalls m) (set seen')"
    using assms(2) by (auto simp: closed_calls_ok_def)
  with ok assms show ?thesis
    by (auto simp: closure_msg_def closure_calls_eq split: if_splits)
qed

lemma closure_loop_forget:
  "closure_loop ms pending seen = Inr (p, s) \<Longrightarrow> set seen' \<subseteq> set seen \<Longrightarrow>
   \<exists>s'. closure_loop ms pending seen' = Inr (p, s') \<and> set s' \<subseteq> set s"
proof (induction ms arbitrary: pending seen seen')
  case Nil
  then show ?case by simp
next
  case (Cons m ms)
  then obtain p1 s1 where m: "closure_msg m pending seen = Inr (p1, s1)"
    and rest: "closure_loop ms p1 s1 = Inr (p, s)" by (auto split: sum.splits prod.splits)
  from closure_msg_forget [OF m Cons.prems(2)] obtain s1' where
    m': "closure_msg m pending seen' = Inr (p1, s1')" "set s1' \<subseteq> set s1" by blast
  from Cons.IH [OF rest m'(2)] m'(1) show ?case by simp
qed

lemma closure_loop_append:
  "closure_loop (xs @ ys) pending seen =
     (case closure_loop xs pending seen of
        Inl e \<Rightarrow> Inl e | Inr (p, s) \<Rightarrow> closure_loop ys p s)"
  by (induction xs arbitrary: pending seen) (auto split: sum.splits prod.splits)

lemma closure_msg_seen:
  "closure_msg m pending seen = Inr (p, s) \<Longrightarrow> s = rev (map tcID (mToolCalls m)) @ seen"
  by (auto simp: closure_msg_def closure_calls_eq split: if_splits)

lemma closure_loop_seen:
  "closure_loop ms pending seen = Inr (p, s) \<Longrightarrow>
     set s = set seen \<union> (\<Union>m \<in> set ms. set (map tcID (mToolCalls m)))"
proof (induction ms arbitrary: pending seen)
  case Nil
  then show ?case by simp
next
  case (Cons m ms)
  then obtain p1 s1 where m: "closure_msg m pending seen = Inr (p1, s1)"
    and rest: "closure_loop ms p1 s1 = Inr (p, s)" by (auto split: sum.splits prod.splits)
  from Cons.IH [OF rest] closure_msg_seen [OF m] show ?case by auto
qed

text \<open>A message that is not a tool result is only accepted when nothing is waiting.\<close>

lemma closure_msg_turn: "closure_msg m pending seen = Inr r \<Longrightarrow> mRole m \<noteq> ''tool'' \<Longrightarrow> pending = []"
  by (auto simp: closure_msg_def split: if_splits)

lemma closure_loop_turn:
  "closure_loop ms pending seen = Inr r \<Longrightarrow> ms \<noteq> [] \<Longrightarrow> mRole (hd ms) \<noteq> ''tool'' \<Longrightarrow> pending = []"
  by (cases ms) (auto split: sum.splits dest: closure_msg_turn)

subsection \<open>Properties\<close>

text \<open>C3. The provider's check accepts exactly the conversations of the grammar: turns of the
  three roles, each followed by one result for each of its calls in any order, with calls only
  by the assistant, non-empty names, and no call identifier used twice.\<close>

theorem ValidateConversation_grammar:
  "ValidateConversation ms = None \<longleftrightarrow> conversation {} ms"
  using accepted_conversation [of ms "[]"] conversation_accepted [of "{}" ms "[]"]
  by (auto simp: ValidateConversation_def)

text \<open>C4. On native transcripts the two validators agree: what the context builder accepts as
  closed history is what the provider accepts as a request.\<close>

theorem validators_agree:
  assumes "list_all native_message ms"
  shows "ValidateClosure ms = None \<longleftrightarrow> ValidateConversation ms = None"
  using native_agree [OF assms] by (simp add: ValidateClosure_None ValidateConversation_def)

definition demo_call :: message where
  "demo_call = (text_message ''assistant'' '''')
     \<lparr>mToolCalls := [\<lparr>tcID = ''c1'', tcName = ''read_file'', tcArgs = Some []\<rparr>]\<rparr>"

definition demo_answer :: message where
  "demo_answer = (text_message ''tool'' ''ok'')\<lparr>mToolCallID := ''c1''\<rparr>"

lemma validators_agree_witness:
  "ValidateClosure [text_message ''user'' ''hi'', demo_call, demo_answer] = None
   \<and> ValidateConversation [text_message ''user'' ''hi'', demo_call, demo_answer] = None
   \<and> ValidateConversation [text_message ''user'' ''hi'', demo_call] \<noteq> None"
proof -
  have n: "list_all native_message [text_message ''user'' ''hi'', demo_call, demo_answer]"
    by (simp add: native_message_def text_message_def demo_call_def demo_answer_def)
  have c: "ValidateConversation [text_message ''user'' ''hi'', demo_call, demo_answer] = None"
    by (simp add: ValidateConversation_def text_message_def demo_call_def demo_answer_def)
  show ?thesis
    using validators_agree [OF n] c
    by (simp add: ValidateConversation_def text_message_def demo_call_def)
qed

end
