(* ===== verification/Schema.thy ===== *)
theory Schema
  imports Model "HOL-Library.List_Lexorder" "HOL-Library.Char_ord"
begin

section \<open>Tool schemas\<close>

text \<open>
  \<open>internal/tools/schema.go\<close>: the expansion of the shorthand schemas of the built-in tools to the
  JSON schema that is both advertised and used for validation, and the rejection of references
  that leave the document. \<open>json.Unmarshal\<close> and \<open>json.Marshal\<close> are the arguments \<open>decode\<close> and
  \<open>encode\<close>; the compiler of \<open>google/jsonschema-go\<close> is an argument of the registry.
\<close>

record tool_spec =
  spName :: string
  spRisky :: bool
  spDescription :: string
  spSchema :: string

definition is_reference :: "string \<Rightarrow> bool" where
  "is_reference k \<longleftrightarrow> k = ''$ref'' \<or> k = ''$dynamicRef'' \<or> k = ''$recursiveRef''"

definition external_reference :: "string \<Rightarrow> json \<Rightarrow> bool" where
  "external_reference k child \<longleftrightarrow> is_reference k \<and>
     \<not> (case child of JStr ref \<Rightarrow> HasPrefix ref ''#'' | _ \<Rightarrow> False)"

fun localReferencesOnly :: "json \<Rightarrow> gerr option" and
    local_fields :: "(string \<times> json) list \<Rightarrow> gerr option" and
    local_items :: "json list \<Rightarrow> gerr option" where
  "localReferencesOnly (JObj flds) = local_fields flds"
| "localReferencesOnly (JArr items) = local_items items"
| "localReferencesOnly JNull = None"
| "localReferencesOnly (JBool b) = None"
| "localReferencesOnly (JNum n) = None"
| "localReferencesOnly (JStr s) = None"
| "local_fields [] = None"
| "local_fields ((k, child) # rest) =
     (if external_reference k child then Some (Msg ''external schema references are disabled'')
      else (case localReferencesOnly child of Some e \<Rightarrow> Some e | None \<Rightarrow> local_fields rest))"
| "local_items [] = None"
| "local_items (child # rest) =
     (case localReferencesOnly child of Some e \<Rightarrow> Some e | None \<Rightarrow> local_items rest)"

definition HasSuffix :: "string \<Rightarrow> string \<Rightarrow> bool" where
  "HasSuffix s p \<longleftrightarrow> HasPrefix (rev s) (rev p)"

definition TrimSuffix :: "string \<Rightarrow> string \<Rightarrow> string" where
  "TrimSuffix s p = (if HasSuffix s p then take (length s - length p) s else s)"

definition field_type :: "string \<Rightarrow> string" where
  "field_type typeName = (let t = TrimSuffix typeName ''?'' in if t = ''int'' then ''integer'' else t)"

fun shorthand_fields ::
  "(string \<times> json) list \<Rightarrow> json gomap \<Rightarrow> string list \<Rightarrow> gerr + (json gomap \<times> string list)" where
  "shorthand_fields [] properties required = Inr (properties, required)"
| "shorthand_fields ((key, JStr typeName) # rest) properties required =
     shorthand_fields rest (mput key (JObj [(''type'', JStr (field_type typeName))]) properties)
       (if HasSuffix typeName ''?'' then required else required @ [key])"
| "shorthand_fields ((key, v) # rest) properties required =
     Inl (Errorf ''invalid schema field %q'' [key])"

definition expand_schema :: "json gomap \<Rightarrow> gerr + json gomap" where
  "expand_schema object =
     (if mget object ''type'' \<noteq> None then Inr object
      else (case shorthand_fields object [] [] of
              Inl e \<Rightarrow> Inl e
            | Inr (properties, required) \<Rightarrow>
                (let object' = [(''type'', JStr ''object''), (''properties'', JObj properties),
                                (''additionalProperties'', JBool False)]
                 in Inr (if required \<noteq> []
                         then mput ''required'' (JArr (map JStr (sort required))) object'
                         else object'))))"

text \<open>\<open>json.Unmarshal\<close> into a \<open>map[string]any\<close>: null leaves the map nil, another kind of value is
  an error.\<close>

definition decode_object :: "(string \<Rightarrow> gerr + json) \<Rightarrow> string \<Rightarrow> gerr + json gomap" where
  "decode_object decode raw =
     (case decode raw of
        Inl e \<Rightarrow> Inl e
      | Inr JNull \<Rightarrow> Inr []
      | Inr (JObj flds) \<Rightarrow> Inr flds
      | Inr _ \<Rightarrow> Inl (Msg ''json: cannot unmarshal into map[string]interface {}''))"

definition schema_object :: "json gomap \<Rightarrow> gerr + json gomap" where
  "schema_object object =
     (let object' = (if object = [] then [(''type'', JStr ''object'')] else object)
      in (case localReferencesOnly (JObj object') of
            Some e \<Rightarrow> Inl e
          | None \<Rightarrow> expand_schema object'))"

definition JSONSchema :: "(string \<Rightarrow> gerr + json) \<Rightarrow> (json \<Rightarrow> string) \<Rightarrow> string \<Rightarrow> gerr + string" where
  "JSONSchema decode encode raw =
     (case decode_object decode raw of
        Inl e \<Rightarrow> Inl e
      | Inr object \<Rightarrow>
        (case schema_object object of Inl e \<Rightarrow> Inl e | Inr out \<Rightarrow> Inr (encode (JObj out))))"

subsection \<open>Every reference, at any depth\<close>

text \<open>The fields of every object inside a value.\<close>

inductive inner_field :: "json \<Rightarrow> string \<Rightarrow> json \<Rightarrow> bool" where
  here: "(k, v) \<in> set flds \<Longrightarrow> inner_field (JObj flds) k v"
| below_field: "(k', v') \<in> set flds \<Longrightarrow> inner_field v' k v \<Longrightarrow> inner_field (JObj flds) k v"
| below_item: "v' \<in> set items \<Longrightarrow> inner_field v' k v \<Longrightarrow> inner_field (JArr items) k v"

inductive_simps inner_field_simps:
  "inner_field JNull k v" "inner_field (JBool b) k v" "inner_field (JNum n) k v"
  "inner_field (JStr s) k v" "inner_field (JObj flds) k v" "inner_field (JArr items) k v"

lemma local_only_iff:
  "localReferencesOnly j = None \<longleftrightarrow> (\<forall>k v. inner_field j k v \<longrightarrow> \<not> external_reference k v)"
  "local_fields fs = None \<longleftrightarrow> (\<forall>k v. inner_field (JObj fs) k v \<longrightarrow> \<not> external_reference k v)"
  "local_items js = None \<longleftrightarrow> (\<forall>k v. inner_field (JArr js) k v \<longrightarrow> \<not> external_reference k v)"
proof (induction j and fs and js rule: localReferencesOnly_local_fields_local_items.induct)
  case (8 k child rest)
  then show ?case
    by (cases "external_reference k child")
      (auto simp: inner_field_simps split: option.split, (metis option.distinct(1))+)
next
  case (10 child rest)
  then show ?case
    by (auto simp: inner_field_simps split: option.split, (metis option.distinct(1))+)
qed (auto simp: inner_field_simps)

subsection \<open>The shorthand\<close>

definition shorthand :: "json gomap \<Rightarrow> bool" where
  "shorthand object \<longleftrightarrow> (\<forall>(k, v) \<in> set object. \<exists>t. v = JStr t)"

definition optional_field :: "json \<Rightarrow> bool" where
  "optional_field v \<longleftrightarrow> (case v of JStr t \<Rightarrow> HasSuffix t ''?'' | _ \<Rightarrow> False)"

definition declared_type :: "json \<Rightarrow> string" where
  "declared_type v = (case v of JStr t \<Rightarrow> field_type t | _ \<Rightarrow> '''')"

lemma sort_eq_Nil: "sort xs = [] \<longleftrightarrow> xs = []"
  by (metis length_0_conv length_sort)

lemma shorthand_fields_spec:
  "shorthand object \<Longrightarrow> wf_map object \<Longrightarrow> wf_map ps \<Longrightarrow>
   \<exists>ps'. shorthand_fields object ps req
        = Inr (ps', req @ map fst (filter (\<lambda>(k, v). \<not> optional_field v) object))
      \<and> wf_map ps' \<and> (\<forall>k. mget ps' k = (case mget object k of
            Some v \<Rightarrow> Some (JObj [(''type'', JStr (declared_type v))]) | None \<Rightarrow> mget ps k))"
proof (induction object arbitrary: ps req)
  case Nil
  then show ?case by simp
next
  case (Cons p object)
  obtain k t where p: "p = (k, JStr t)" using Cons.prems(1) by (cases p) (auto simp: shorthand_def)
  have prems: "shorthand object" "wf_map object" "mget object k = None"
    using Cons.prems(1,2) by (auto simp: shorthand_def p wf_map_Cons)
  define ps1 where "ps1 = mput k (JObj [(''type'', JStr (field_type t))]) ps"
  have "wf_map ps1" using Cons.prems(3) by (simp add: ps1_def)
  from Cons.IH [OF prems(1,2) this, of "if HasSuffix t ''?'' then req else req @ [k]"]
  obtain ps' where
    "shorthand_fields object ps1 (if HasSuffix t ''?'' then req else req @ [k])
       = Inr (ps', (if HasSuffix t ''?'' then req else req @ [k])
             @ map fst (filter (\<lambda>(k, v). \<not> optional_field v) object))"
    "wf_map ps'" "\<forall>k. mget ps' k = (case mget object k of
       Some v \<Rightarrow> Some (JObj [(''type'', JStr (declared_type v))]) | None \<Rightarrow> mget ps1 k)"
    by blast
  then show ?case using prems(3)
    by (intro exI [of _ ps'])
      (auto simp: p ps1_def optional_field_def declared_type_def split: option.split)
qed

subsection \<open>Properties\<close>

text \<open>The reference check is complete at every depth: it accepts a schema exactly when no
  object anywhere inside it has a reference field that does not point into the document.\<close>

theorem localReferencesOnly_every_depth:
  "localReferencesOnly schema = None \<longleftrightarrow>
     \<not> (\<exists>k v. inner_field schema k v \<and> is_reference k
          \<and> \<not> (\<exists>ref. v = JStr ref \<and> HasPrefix ref ''#''))"
proof -
  have "(case v of JStr ref \<Rightarrow> HasPrefix ref ''#'' | _ \<Rightarrow> False)
      \<longleftrightarrow> (\<exists>ref. v = JStr ref \<and> HasPrefix ref ''#'')" for v
    by (cases v) simp_all
  then show ?thesis unfolding local_only_iff(1) external_reference_def by blast
qed

text \<open>A shorthand schema without references is expanded to a closed object schema: the
  properties are exactly its fields with the type named (\<open>int\<close> is \<open>integer\<close>), the required
  fields are exactly those not marked optional, in sorted order, and no other argument is
  allowed.\<close>

theorem JSONSchema_shorthand:
  assumes "decode_object decode raw = Inr object" and "shorthand object" and "wf_map object"
    and "object \<noteq> []" and "mget object ''type'' = None" and "localReferencesOnly (JObj object) = None"
  shows "\<exists>out props. JSONSchema decode encode raw = Inr (encode (JObj out))
     \<and> mget out ''type'' = Some (JStr ''object'')
     \<and> mget out ''additionalProperties'' = Some (JBool False)
     \<and> mget out ''properties'' = Some (JObj props)
     \<and> (\<forall>k. mget props k = map_option (\<lambda>v. JObj [(''type'', JStr (declared_type v))]) (mget object k))
     \<and> mget out ''required'' =
         (let required = sort (map fst (filter (\<lambda>(k, v). \<not> optional_field v) object))
          in if required = [] then None else Some (JArr (map JStr required)))"
proof -
  let ?req = "map fst (filter (\<lambda>(k, v). \<not> optional_field v) object)"
  obtain props where props: "shorthand_fields object [] [] = Inr (props, ?req)"
    "\<forall>k. mget props k = (case mget object k of
       Some v \<Rightarrow> Some (JObj [(''type'', JStr (declared_type v))]) | None \<Rightarrow> mget [] k)"
    using shorthand_fields_spec [OF assms(2,3), of "[]" "[]"] by (auto simp del: mget_Nil)
  let ?base = "[(''type'', JStr ''object''), (''properties'', JObj props),
                (''additionalProperties'', JBool False)]"
  let ?out = "if ?req \<noteq> [] then mput ''required'' (JArr (map JStr (sort ?req))) ?base else ?base"
  have "JSONSchema decode encode raw = Inr (encode (JObj ?out))"
    using assms props(1) by (simp add: JSONSchema_def schema_object_def expand_schema_def Let_def)
  moreover have "mget ?out ''required'' =
      (let required = sort ?req in if required = [] then None else Some (JArr (map JStr required)))"
    by (simp add: Let_def sort_eq_Nil del: list.map_disc_iff)
  moreover have "mget ?out ''type'' = Some (JStr ''object'')"
    "mget ?out ''additionalProperties'' = Some (JBool False)"
    "mget ?out ''properties'' = Some (JObj props)"
    by simp_all
  moreover have "mget props k = map_option (\<lambda>v. JObj [(''type'', JStr (declared_type v))]) (mget object k)" for k
    using props(2) by (simp add: option.case_eq_if map_option_case)
  ultimately show ?thesis by blast
qed

definition demo_schema :: "string \<Rightarrow> gerr + json" where
  "demo_schema raw = Inr (JObj [(''path'', JStr ''string''), (''end'', JStr ''int?'')])"

lemma JSONSchema_shorthand_witness:
  "\<exists>out. JSONSchema demo_schema (\<lambda>j. ''encoded'') '''' = Inr ''encoded''
     \<and> mget out ''required'' = Some (JArr [JStr ''path''])
     \<and> mget out ''type'' = Some (JStr ''object'')"
  using JSONSchema_shorthand [of demo_schema "''''" "[(''path'', JStr ''string''), (''end'', JStr ''int?'')]"
      "\<lambda>j. ''encoded''"]
  by (auto simp: demo_schema_def decode_object_def shorthand_def wf_map_def external_reference_def
      is_reference_def optional_field_def HasSuffix_def HasPrefix_def)

end
