(* ===== verification/Registry.thy ===== *)
theory Registry
  imports Schema
begin

section \<open>The tool registry\<close>

text \<open>
  \<open>internal/tools/tools.go\<close>, \<open>schema.go\<close> and \<open>invocation.go\<close>: registration of tools, atomic
  registration of a directory, replacement of whole namespaces, and invocations bound to one
  generation of a definition. The methods hold the registry's lock, so each is one function on
  the registry; \<open>initializeLocked\<close> only turns nil maps into empty ones, which are the same list
  here. The JSON codec and the schema compiler are arguments (\<open>schema_lib\<close>), so is the
  JSON round trip \<open>normalise\<close> of a call's arguments. A handler is a function of the host.
\<close>

datatype tool_effect = UnknownEffect | ReadEffect | WriteEffect | ExecuteEffect | ExternalEffect

record capability =
  cpEffect :: tool_effect
  cpConcurrencySafe :: bool

definition unknown_capability :: capability where
  "unknown_capability = \<lparr>cpEffect = UnknownEffect, cpConcurrencySafe = False\<rparr>"

type_synonym 'h handler = "'h \<Rightarrow> json gomap \<Rightarrow> string \<times> string list \<times> gerr option \<times> json gomap"
type_synonym validator = "json gomap \<Rightarrow> gerr option"

record 'h tool_definition =
  dfSpec :: tool_spec
  dfHandler :: "'h handler option"

record 'h registry =
  rgSpecs :: "tool_spec gomap"
  rgHandlers :: "'h handler gomap"
  rgCapabilities :: "capability gomap"
  rgValidators :: "validator gomap"
  rgOwners :: "string gomap"
  rgGenerations :: "int gomap"
  rgGeneration :: int

definition empty_registry :: "'h registry" where
  "empty_registry = \<lparr>rgSpecs = [], rgHandlers = [], rgCapabilities = [], rgValidators = [],
     rgOwners = [], rgGenerations = [], rgGeneration = 0\<rparr>"

record schema_lib =
  slDecode :: "string \<Rightarrow> gerr + json"
  slEncode :: "json \<Rightarrow> string"
  slResolve :: "string \<Rightarrow> gerr + validator"

definition compileSchema :: "schema_lib \<Rightarrow> string \<Rightarrow> gerr + validator" where
  "compileSchema lib raw =
     (case JSONSchema (slDecode lib) (slEncode lib) raw of
        Inl e \<Rightarrow> Inl e | Inr data \<Rightarrow> slResolve lib data)"

text \<open>The \<open>uint64\<close> counter of generations.\<close>

definition next_generation :: "int \<Rightarrow> int" where
  "next_generation g = (g + 1) mod 2 ^ 64"

definition install :: "string \<Rightarrow> tool_spec \<Rightarrow> 'h handler \<Rightarrow> validator \<Rightarrow> capability \<Rightarrow> 'h registry \<Rightarrow> 'h registry"
where
  "install name spec h v cap r =
     r\<lparr>rgSpecs := mput name spec (rgSpecs r), rgHandlers := mput name h (rgHandlers r),
       rgCapabilities := mput name cap (rgCapabilities r), rgValidators := mput name v (rgValidators r),
       rgGeneration := next_generation (rgGeneration r),
       rgGenerations := mput name (next_generation (rgGeneration r)) (rgGenerations r)\<rparr>"

definition Register :: "schema_lib \<Rightarrow> 'h tool_definition \<Rightarrow> 'h registry \<Rightarrow> gerr option \<times> 'h registry" where
  "Register lib d r =
     (let name = TrimSpace (spName (dfSpec d)) in
      case dfHandler d of
        None \<Rightarrow> (Some (Msg ''tool definition requires a name and handler''), r)
      | Some h \<Rightarrow>
        if name = '''' then (Some (Msg ''tool definition requires a name and handler''), r)
        else (case compileSchema lib (spSchema (dfSpec d)) of
                Inl e \<Rightarrow> (Some (Wrapf ''tool %s schema: %w'' [name] e), r)
              | Inr v \<Rightarrow>
                if mget (rgSpecs r) name \<noteq> None
                then (Some (Errorf ''tool %q is already registered'' [name]), r)
                else (None, install name ((dfSpec d)\<lparr>spName := name\<rparr>) h v unknown_capability r)))"

fun register_each :: "schema_lib \<Rightarrow> 'h tool_definition list \<Rightarrow> 'h registry \<Rightarrow> gerr option \<times> 'h registry" where
  "register_each lib [] r = (None, r)"
| "register_each lib (d # ds) r =
     (case Register lib d r of (Some e, r') \<Rightarrow> (Some e, r') | (None, r') \<Rightarrow> register_each lib ds r')"

text \<open>Publication of the prepared entries, in the order of the temporary map. A name of the
  temporary registry has a handler and a validator there; the zero values of Go's map reads
  are not reached and stand in the equations as the handler and validator of the zero maps.\<close>

definition handler_at :: "'h registry \<Rightarrow> string \<Rightarrow> 'h handler" where
  "handler_at r name = (case mget (rgHandlers r) name of Some h \<Rightarrow> h
     | None \<Rightarrow> (\<lambda>_ _. ('''', [], Some (Panicked ''nil handler''), [])))"

definition validator_at :: "'h registry \<Rightarrow> string \<Rightarrow> validator" where
  "validator_at r name = (case mget (rgValidators r) name of Some v \<Rightarrow> v | None \<Rightarrow> (\<lambda>_. None))"

definition capability_at :: "'h registry \<Rightarrow> string \<Rightarrow> capability" where
  "capability_at r name = (case mget (rgCapabilities r) name of Some c \<Rightarrow> c | None \<Rightarrow> unknown_capability)"

fun publish :: "'h registry \<Rightarrow> (string \<times> tool_spec) list \<Rightarrow> 'h registry \<Rightarrow> 'h registry" where
  "publish tmp [] r = r"
| "publish tmp ((name, spec) # rest) r =
     publish tmp rest (install name spec (handler_at tmp name) (validator_at tmp name)
       (capability_at tmp name) r)"

definition RegisterAll :: "schema_lib \<Rightarrow> 'h tool_definition list \<Rightarrow> 'h registry \<Rightarrow> gerr option \<times> 'h registry" where
  "RegisterAll lib ds r =
     (case register_each lib ds empty_registry of
        (Some e, _) \<Rightarrow> (Some e, r)
      | (None, tmp) \<Rightarrow>
        (case find (\<lambda>name. mget (rgSpecs r) name \<noteq> None) (mkeys (rgSpecs tmp)) of
           Some name \<Rightarrow> (Some (Errorf ''duplicate tool %q'' [name]), r)
         | None \<Rightarrow> (None, publish tmp (rgSpecs tmp) r)))"

subsection \<open>Namespaces\<close>

fun collect_owner ::
  "schema_lib \<Rightarrow> string \<Rightarrow> 'h tool_definition list \<Rightarrow> 'h registry \<Rightarrow> string gomap
     \<Rightarrow> gerr + ('h registry \<times> string gomap)" where
  "collect_owner lib owner [] tmp owners = Inr (tmp, owners)"
| "collect_owner lib owner (d # ds) tmp owners =
     (if \<not> HasPrefix (spName (dfSpec d)) (owner @ ''_'')
      then Inl (Errorf ''tool %q outside namespace %q'' [spName (dfSpec d), owner])
      else (case Register lib d tmp of
              (Some e, _) \<Rightarrow> Inl e
            | (None, tmp') \<Rightarrow> collect_owner lib owner ds tmp' (mput (spName (dfSpec d)) owner owners)))"

fun collect_updates ::
  "schema_lib \<Rightarrow> 'h tool_definition list gomap \<Rightarrow> 'h registry \<Rightarrow> string gomap
     \<Rightarrow> gerr + ('h registry \<times> string gomap)" where
  "collect_updates lib [] tmp owners = Inr (tmp, owners)"
| "collect_updates lib ((owner, ds) # rest) tmp owners =
     (if owner = '''' then Inl (Msg ''namespace owner required'')
      else (case collect_owner lib owner ds tmp owners of
              Inl e \<Rightarrow> Inl e
            | Inr (tmp', owners') \<Rightarrow> collect_updates lib rest tmp' owners'))"

definition owner_at :: "string gomap \<Rightarrow> string \<Rightarrow> string" where
  "owner_at owners name = (case mget owners name of Some ow \<Rightarrow> ow | None \<Rightarrow> '''')"

definition remove_tool :: "string \<Rightarrow> 'h registry \<Rightarrow> 'h registry" where
  "remove_tool name r =
     r\<lparr>rgSpecs := mdel name (rgSpecs r), rgHandlers := mdel name (rgHandlers r),
       rgValidators := mdel name (rgValidators r), rgCapabilities := mdel name (rgCapabilities r),
       rgGenerations := mdel name (rgGenerations r), rgOwners := mdel name (rgOwners r)\<rparr>"

fun remove_owned :: "'h tool_definition list gomap \<Rightarrow> (string \<times> string) list \<Rightarrow> 'h registry \<Rightarrow> 'h registry" where
  "remove_owned updates [] r = r"
| "remove_owned updates ((name, owner) # rest) r =
     remove_owned updates rest (if mget updates owner \<noteq> None then remove_tool name r else r)"

fun publish_owned :: "'h registry \<Rightarrow> string gomap \<Rightarrow> (string \<times> tool_spec) list \<Rightarrow> 'h registry \<Rightarrow> 'h registry" where
  "publish_owned tmp owners [] r = r"
| "publish_owned tmp owners ((name, spec) # rest) r =
     publish_owned tmp owners rest
       ((install name spec (handler_at tmp name) (validator_at tmp name) unknown_capability r)
          \<lparr>rgOwners := mput name (owner_at owners name) (rgOwners r)\<rparr>)"

definition ReplaceNamespaces ::
  "schema_lib \<Rightarrow> 'h tool_definition list gomap \<Rightarrow> 'h registry \<Rightarrow> gerr option \<times> 'h registry" where
  "ReplaceNamespaces lib updates r =
     (case collect_updates lib updates empty_registry [] of
        Inl e \<Rightarrow> (Some e, r)
      | Inr (tmp, owners) \<Rightarrow>
        (case find (\<lambda>name. mget (rgSpecs r) name \<noteq> None \<and> owner_at (rgOwners r) name \<noteq> owner_at owners name)
                (mkeys (rgSpecs tmp)) of
           Some name \<Rightarrow> (Some (Errorf ''tool %q belongs to another owner'' [name]), r)
         | None \<Rightarrow> (None, publish_owned tmp owners (rgSpecs tmp) (remove_owned updates (rgOwners r) r))))"

definition ReplaceNamespace ::
  "schema_lib \<Rightarrow> string \<Rightarrow> 'h tool_definition list \<Rightarrow> 'h registry \<Rightarrow> gerr option \<times> 'h registry" where
  "ReplaceNamespace lib owner ds r = ReplaceNamespaces lib [(owner, ds)] r"

subsection \<open>Validation and invocation\<close>

definition validateCall ::
  "(json gomap \<Rightarrow> gerr + json gomap) \<Rightarrow> tool_call \<Rightarrow> validator option \<Rightarrow> gerr + tool_call" where
  "validateCall normalise call v =
     (case normalise (case tcArgs call of None \<Rightarrow> [] | Some a \<Rightarrow> a) of
        Inl e \<Rightarrow> Inl e
      | Inr normalized \<Rightarrow>
        (case (case v of None \<Rightarrow> None | Some check \<Rightarrow> check normalized) of
           Some e \<Rightarrow> Inl e
         | None \<Rightarrow> Inr (call\<lparr>tcArgs := Some normalized\<rparr>)))"

definition Validate :: "(json gomap \<Rightarrow> gerr + json gomap) \<Rightarrow> 'h registry \<Rightarrow> tool_call \<Rightarrow> gerr + tool_call" where
  "Validate normalise r call =
     (if mget (rgHandlers r) (tcName call) = None
      then Inl (Wrapf ''unknown tool %q'' [tcName call] ErrUnknownTool)
      else validateCall normalise call (mget (rgValidators r) (tcName call)))"

record 'h invocation =
  ivCall :: tool_call
  ivSpec :: tool_spec
  ivHandler :: "'h handler"
  ivPrivate :: tool_call
  ivGeneration :: int
  ivUsed :: bool

definition no_spec :: tool_spec where
  "no_spec = \<lparr>spName = '''', spRisky = False, spDescription = '''', spSchema = ''''\<rparr>"

definition generation_at :: "int gomap \<Rightarrow> string \<Rightarrow> int" where
  "generation_at gens name = (case mget gens name of Some g \<Rightarrow> g | None \<Rightarrow> 0)"

definition prepare ::
  "(json gomap \<Rightarrow> gerr + json gomap) \<Rightarrow> 'h registry \<Rightarrow> tool_call \<Rightarrow> int option \<Rightarrow> gerr + 'h invocation" where
  "prepare normalise r call expected =
     (case mget (rgHandlers r) (tcName call) of
        None \<Rightarrow> Inl (Wrapf ''unknown tool %q'' [tcName call] ErrUnknownTool)
      | Some h \<Rightarrow>
        (let gen = generation_at (rgGenerations r) (tcName call) in
         if expected \<noteq> None \<and> expected \<noteq> Some gen
         then Inl (Msg ''tool definition changed since model request; rebuild context and authorize again'')
         else (case validateCall normalise call (mget (rgValidators r) (tcName call)) of
                 Inl e \<Rightarrow> Inl e
               | Inr validated \<Rightarrow>
                 (case validateCall normalise validated None of
                    Inl e \<Rightarrow> Inl e
                  | Inr display \<Rightarrow>
                      Inr \<lparr>ivCall = display,
                           ivSpec = (case mget (rgSpecs r) (tcName call) of Some s \<Rightarrow> s | None \<Rightarrow> no_spec),
                           ivHandler = h, ivPrivate = validated, ivGeneration = gen, ivUsed = False\<rparr>))))"

text \<open>\<open>Invocation.Run\<close>: what the context says, the registry at admission, and the host. The shell
  recording host is the pair of the host and the metadata map it fills, which the handler
  returns; other tools leave it empty.\<close>

definition tool_error :: "string \<Rightarrow> string \<Rightarrow> string \<Rightarrow> tool_result" where
  "tool_error name err code = no_result\<lparr>trName := name, trStatus := ''error'', trError := err, trErrorCode := code\<rparr>"

definition invocation_run ::
  "gerr option \<Rightarrow> 'h registry \<Rightarrow> 'h \<Rightarrow> 'h invocation \<Rightarrow> tool_result \<times> 'h invocation" where
  "invocation_run ctx_err r h i =
     (let name = tcName (ivPrivate i) in
      case ctx_err of
        Some e \<Rightarrow> (tool_error name (Error e) ''cancelled'', i)
      | None \<Rightarrow>
        if mget (rgGenerations r) name \<noteq> Some (ivGeneration i)
        then (tool_error name ''tool definition changed or was revoked; refresh and authorize again''
                ''definition_changed'', i)
        else if ivUsed i
        then (tool_error name ''prepared tool invocation already consumed'' ''already_invoked'', i)
        else (case ivHandler i h (case tcArgs (ivPrivate i) of Some a \<Rightarrow> a | None \<Rightarrow> []) of
                (out, paths, err, recorded) \<Rightarrow>
                  (let meta = (if name = ''run_shell'' then recorded else []) in
                   (case err of
                      Some e \<Rightarrow> ((tool_error name (Error e)
                          (if Contains (Error e) ''escapes workspace'' then ''path_escape'' else ''''))
                            \<lparr>trMetadata := meta\<rparr>, i\<lparr>ivUsed := True\<rparr>)
                    | None \<Rightarrow> (no_result\<lparr>trName := name, trStatus := ''ok'', trOutput := out, trPaths := paths,
                          trMetadata := meta\<rparr>, i\<lparr>ivUsed := True\<rparr>)))))"

definition registry_run ::
  "(json gomap \<Rightarrow> gerr + json gomap) \<Rightarrow> gerr option \<Rightarrow> 'h registry \<Rightarrow> 'h \<Rightarrow> tool_call \<Rightarrow> tool_result" where
  "registry_run normalise ctx_err r h call =
     (case prepare normalise r call None of
        Inl e \<Rightarrow> tool_error (tcName call) (Error e)
          (if errors_is e ErrUnknownTool then ''unknown_tool'' else ''invalid_parameters'')
      | Inr i \<Rightarrow> fst (invocation_run ctx_err r h i))"

subsection \<open>Catalogs\<close>

record catalog =
  ctSpecs :: "tool_spec gomap"
  ctGenerations :: "int gomap"

definition Snapshot :: "'h registry \<Rightarrow> catalog" where
  "Snapshot r = \<lparr>ctSpecs = rgSpecs r,
     ctGenerations = map (\<lambda>(name, spec). (name, generation_at (rgGenerations r) name)) (rgSpecs r)\<rparr>"

definition Catalog_Specs :: "catalog \<Rightarrow> tool_spec list" where
  "Catalog_Specs c = sort_key spName (mvals (ctSpecs c))"

definition Catalog_Prepare ::
  "(json gomap \<Rightarrow> gerr + json gomap) \<Rightarrow> 'h registry \<Rightarrow> catalog \<Rightarrow> tool_call \<Rightarrow> gerr + 'h invocation" where
  "Catalog_Prepare normalise r c call =
     (case mget (ctGenerations c) (tcName call) of
        None \<Rightarrow> Inl (Wrapf ''unknown tool %q was not advertised in this request'' [tcName call] ErrUnknownTool)
      | Some g \<Rightarrow> prepare normalise r call (Some g))"

text \<open>\<open>PrepareContext\<close>: the context may carry a catalog, with the registry it was taken from
  (\<open>same\<close> is whether that is this one).\<close>

definition PrepareContext ::
  "(json gomap \<Rightarrow> gerr + json gomap) \<Rightarrow> (catalog \<times> bool) option \<Rightarrow> 'h registry \<Rightarrow> tool_call \<Rightarrow> gerr + 'h invocation" where
  "PrepareContext normalise attached r call =
     (case attached of
        Some (c, same) \<Rightarrow>
          if \<not> same then Inl (Msg ''tool catalog belongs to another agent registry'')
          else Catalog_Prepare normalise r c call
      | None \<Rightarrow> prepare normalise r call None)"

subsection \<open>How the entries of the registry evolve\<close>

text \<open>Everything the registry knows under a name.\<close>

definition entry_at ::
  "'h registry \<Rightarrow> string \<Rightarrow> tool_spec option \<times> 'h handler option \<times> validator option \<times> capability option \<times> int option"
where
  "entry_at r name = (mget (rgSpecs r) name, mget (rgHandlers r) name, mget (rgValidators r) name,
     mget (rgCapabilities r) name, mget (rgGenerations r) name)"

definition registry_wf :: "'h registry \<Rightarrow> bool" where
  "registry_wf r \<longleftrightarrow> 0 \<le> rgGeneration r \<and> rgGeneration r < 2 ^ 64
     \<and> (\<forall>name g. mget (rgGenerations r) name = Some g \<longrightarrow> 1 \<le> g \<and> g \<le> rgGeneration r)"

text \<open>From one registry to a later one: an entry is the same, gone, or of a generation that did
  not exist yet.\<close>

definition tracks :: "'h registry \<Rightarrow> 'h registry \<Rightarrow> bool" where
  "tracks r r' \<longleftrightarrow> rgGeneration r \<le> rgGeneration r' \<and>
     (\<forall>name. entry_at r' name = entry_at r name
        \<or> (case mget (rgGenerations r') name of None \<Rightarrow> True | Some g \<Rightarrow> rgGeneration r < g))"

definition grows :: "int \<Rightarrow> 'h registry \<Rightarrow> 'h registry \<Rightarrow> bool" where
  "grows n r r' \<longleftrightarrow> registry_wf r' \<and> tracks r r' \<and> rgGeneration r' \<le> rgGeneration r + n"

lemma tracks_refl [simp]: "tracks r r"
  by (simp add: tracks_def)

lemma tracks_trans:
  assumes "tracks r r'" "tracks r' r''"
  shows "tracks r r''"
  unfolding tracks_def
proof (intro conjI allI)
  show "rgGeneration r \<le> rgGeneration r''" using assms by (simp add: tracks_def)
  fix name
  have gen: "entry_at a name = entry_at b name \<Longrightarrow> mget (rgGenerations a) name = mget (rgGenerations b) name"
    for a b :: "'a registry" by (simp add: entry_at_def)
  show "entry_at r'' name = entry_at r name
        \<or> (case mget (rgGenerations r'') name of None \<Rightarrow> True | Some g \<Rightarrow> rgGeneration r < g)"
    using assms gen [of r'' r'] unfolding tracks_def
    by (auto split: option.splits) (metis order.strict_trans1)+
qed

lemma grows_refl [simp]: "registry_wf r \<Longrightarrow> 0 \<le> n \<Longrightarrow> grows n r r"
  by (simp add: grows_def)

lemma grows_trans: "grows n r r' \<Longrightarrow> grows m r' r'' \<Longrightarrow> grows (n + m) r r''"
  by (auto simp: grows_def intro: tracks_trans)

lemma grows_mono: "grows n r r' \<Longrightarrow> n \<le> m \<Longrightarrow> grows m r r'"
  by (simp add: grows_def)

lemma next_generation_id: "0 \<le> g \<Longrightarrow> g + 1 < 2 ^ 64 \<Longrightarrow> next_generation g = g + 1"
  by (simp add: next_generation_def)

lemma install_grows:
  "registry_wf r \<Longrightarrow> rgGeneration r + 1 < 2 ^ 64 \<Longrightarrow> grows 1 r (install name spec h v cap r)"
  by (auto simp: grows_def registry_wf_def tracks_def install_def entry_at_def next_generation_id
      split: option.splits) force

lemma install_entry_other: "name' \<noteq> name \<Longrightarrow> entry_at (install name spec h v cap r) name' = entry_at r name'"
  by (simp add: install_def entry_at_def)

lemma remove_tool_grows: "registry_wf r \<Longrightarrow> grows 0 r (remove_tool name r)"
  by (auto simp: grows_def registry_wf_def tracks_def remove_tool_def entry_at_def split: if_splits)

lemma owners_grows: "grows n r r' \<Longrightarrow> grows n r (r'\<lparr>rgOwners := x\<rparr>)"
  by (simp add: grows_def registry_wf_def tracks_def entry_at_def)

lemma grows_wf: "grows n r r' \<Longrightarrow> registry_wf r'"
  by (simp add: grows_def)

lemma publish_grows:
  "registry_wf r \<Longrightarrow> rgGeneration r + int (length xs) < 2 ^ 64 \<Longrightarrow>
   grows (int (length xs)) r (publish tmp xs r)"
proof (induction xs arbitrary: r)
  case Nil
  then show ?case by simp
next
  case (Cons p xs)
  obtain name spec where p: "p = (name, spec)" by (cases p)
  let ?r = "install name spec (handler_at tmp name) (validator_at tmp name) (capability_at tmp name) r"
  have g: "grows 1 r ?r" using Cons.prems by (intro install_grows) auto
  then have "grows (int (length xs)) ?r (publish tmp xs ?r)"
    using Cons.prems(2) by (intro Cons.IH) (auto simp: grows_def)
  from grows_trans [OF g this] show ?case by (simp add: p)
qed

lemma publish_owned_grows:
  "registry_wf r \<Longrightarrow> rgGeneration r + int (length xs) < 2 ^ 64 \<Longrightarrow>
   grows (int (length xs)) r (publish_owned tmp owners xs r)"
proof (induction xs arbitrary: r)
  case Nil
  then show ?case by simp
next
  case (Cons p xs)
  obtain name spec where p: "p = (name, spec)" by (cases p)
  let ?r = "(install name spec (handler_at tmp name) (validator_at tmp name) unknown_capability r)
    \<lparr>rgOwners := mput name (owner_at owners name) (rgOwners r)\<rparr>"
  have g: "grows 1 r ?r" using Cons.prems by (intro owners_grows install_grows) auto
  then have "grows (int (length xs)) ?r (publish_owned tmp owners xs ?r)"
    using Cons.prems(2) by (intro Cons.IH) (auto simp: grows_def)
  from grows_trans [OF g this] show ?case by (simp add: p)
qed

lemma remove_owned_grows: "registry_wf r \<Longrightarrow> grows 0 r (remove_owned updates xs r)"
proof (induction xs arbitrary: r)
  case Nil
  then show ?case by simp
next
  case (Cons p xs)
  obtain name owner where p: "p = (name, owner)" by (cases p)
  have g: "grows 0 r (if mget updates owner \<noteq> None then remove_tool name r else r)"
    using Cons.prems remove_tool_grows by auto
  from grows_trans [OF g Cons.IH [OF grows_wf [OF g]]] show ?case by (simp add: p)
qed

subsection \<open>Preparing a directory\<close>

lemma length_mput: "length (mput k v m) \<le> Suc (length m)"
  by (induction m) (auto simp: mput_def)

lemma Register_length: "Register lib d r = (x, r') \<Longrightarrow> length (rgSpecs r') \<le> Suc (length (rgSpecs r))"
  using length_mput [of _ _ "rgSpecs r"]
  by (auto simp: Register_def Let_def install_def split: option.splits sum.splits if_splits)

lemma register_each_length:
  "register_each lib ds r = (None, r') \<Longrightarrow> length (rgSpecs r') \<le> length (rgSpecs r) + length ds"
proof (induction ds arbitrary: r)
  case Nil
  then show ?case by simp
next
  case (Cons d ds)
  then show ?case using Register_length [of lib d r]
    by (auto split: prod.splits option.splits) (fastforce dest: Cons.IH)
qed

lemma collect_owner_length:
  "collect_owner lib owner ds tmp owners = Inr (tmp', owners') \<Longrightarrow>
   length (rgSpecs tmp') \<le> length (rgSpecs tmp) + length ds"
proof (induction ds arbitrary: tmp owners)
  case Nil
  then show ?case by simp
next
  case (Cons d ds)
  then show ?case using Register_length [of lib d tmp]
    by (auto split: prod.splits option.splits if_splits) (fastforce dest: Cons.IH)
qed

definition total_definitions :: "'h tool_definition list gomap \<Rightarrow> nat" where
  "total_definitions updates = sum_list (map (length \<circ> snd) updates)"

lemma collect_updates_length:
  "collect_updates lib updates tmp owners = Inr (tmp', owners') \<Longrightarrow>
   length (rgSpecs tmp') \<le> length (rgSpecs tmp) + total_definitions updates"
proof (induction lib updates tmp owners rule: collect_updates.induct)
  case (1 lib tmp owners)
  then show ?case by (simp add: total_definitions_def)
next
  case (2 lib owner ds rest tmp owners)
  from 2(2) obtain t o1 where t: "collect_owner lib owner ds tmp owners = Inr (t, o1)"
    "collect_updates lib rest t o1 = Inr (tmp', owners')" "owner \<noteq> ''''"
    by (auto split: if_splits sum.splits)
  from 2(1) [OF t(3,1) refl t(2)] collect_owner_length [OF t(1)] show ?case
    by (simp add: total_definitions_def)
qed

subsection \<open>Runs of the registry\<close>

text \<open>
  One locked operation of the registry, as long as the generation counter does not run out: the
  successful registrations, directories and replacements, and the refused ones, which change
  nothing.
\<close>

inductive registry_step :: "schema_lib \<Rightarrow> 'h registry \<Rightarrow> 'h registry \<Rightarrow> bool" for lib where
  register: "Register lib d r = (x, r') \<Longrightarrow> rgGeneration r + 1 < 2 ^ 64 \<Longrightarrow> registry_step lib r r'"
| register_all: "RegisterAll lib ds r = (x, r') \<Longrightarrow> rgGeneration r + int (length ds) < 2 ^ 64 \<Longrightarrow>
    registry_step lib r r'"
| replace: "ReplaceNamespaces lib updates r = (x, r') \<Longrightarrow>
    rgGeneration r + int (total_definitions updates) < 2 ^ 64 \<Longrightarrow> registry_step lib r r'"

lemma Register_grows:
  "Register lib d r = (x, r') \<Longrightarrow> registry_wf r \<Longrightarrow> rgGeneration r + 1 < 2 ^ 64 \<Longrightarrow> grows 1 r r'"
  by (auto simp: Register_def Let_def intro: install_grows split: option.splits sum.splits if_splits)

lemma RegisterAll_grows:
  assumes "RegisterAll lib ds r = (x, r')" "registry_wf r" "rgGeneration r + int (length ds) < 2 ^ 64"
  shows "grows (int (length ds)) r r'"
proof (cases x)
  case (Some e)
  with assms(1) have "r' = r" by (auto simp: RegisterAll_def split: prod.splits option.splits)
  with assms(2) show ?thesis by simp
next
  case None
  with assms(1) obtain tmp where tmp: "register_each lib ds empty_registry = (None, tmp)"
    "r' = publish tmp (rgSpecs tmp) r"
    by (auto simp: RegisterAll_def split: prod.splits option.splits)
  then have "length (rgSpecs tmp) \<le> length ds"
    using register_each_length [OF tmp(1)] by (simp add: empty_registry_def)
  then show ?thesis using assms(2,3) unfolding tmp(2)
    by (intro grows_mono [OF publish_grows]) auto
qed

lemma ReplaceNamespaces_published:
  assumes "ReplaceNamespaces lib updates r = (None, r')"
  obtains tmp owners where "collect_updates lib updates empty_registry [] = Inr (tmp, owners)"
    "\<And>name. name \<in> set (mkeys (rgSpecs tmp)) \<Longrightarrow> mget (rgSpecs r) name \<noteq> None \<Longrightarrow>
       owner_at (rgOwners r) name = owner_at owners name"
    "r' = publish_owned tmp owners (rgSpecs tmp) (remove_owned updates (rgOwners r) r)"
proof -
  from assms obtain tmp owners where t: "collect_updates lib updates empty_registry [] = Inr (tmp, owners)"
    "find (\<lambda>name. mget (rgSpecs r) name \<noteq> None \<and> owner_at (rgOwners r) name \<noteq> owner_at owners name)
       (mkeys (rgSpecs tmp)) = None"
    "r' = publish_owned tmp owners (rgSpecs tmp) (remove_owned updates (rgOwners r) r)"
    by (auto simp: ReplaceNamespaces_def split: sum.splits option.splits)
  from t(2) have "\<And>name. name \<in> set (mkeys (rgSpecs tmp)) \<Longrightarrow> mget (rgSpecs r) name \<noteq> None \<Longrightarrow>
       owner_at (rgOwners r) name = owner_at owners name"
    unfolding find_None_iff by blast
  with t that show ?thesis by blast
qed

lemma ReplaceNamespaces_grows:
  assumes "ReplaceNamespaces lib updates r = (x, r')" "registry_wf r"
    and "rgGeneration r + int (total_definitions updates) < 2 ^ 64"
  shows "grows (int (total_definitions updates)) r r'"
proof (cases x)
  case (Some e)
  with assms(1) have "r' = r"
    by (auto simp: ReplaceNamespaces_def split: sum.splits prod.splits option.splits)
  with assms(2) show ?thesis by simp
next
  case None
  with assms(1) obtain tmp owners where
    tmp: "collect_updates lib updates empty_registry [] = Inr (tmp, owners)"
    and r': "r' = publish_owned tmp owners (rgSpecs tmp) (remove_owned updates (rgOwners r) r)"
    by (auto elim: ReplaceNamespaces_published)
  have len: "length (rgSpecs tmp) \<le> total_definitions updates"
    using collect_updates_length [OF tmp] by (simp add: empty_registry_def)
  have rem: "grows 0 r (remove_owned updates (rgOwners r) r)"
    using assms(2) by (rule remove_owned_grows)
  have "grows (int (length (rgSpecs tmp))) (remove_owned updates (rgOwners r) r) r'"
    unfolding r'
  proof (rule publish_owned_grows)
    show "registry_wf (remove_owned updates (rgOwners r) r)" using rem by (rule grows_wf)
    have "rgGeneration (remove_owned updates (rgOwners r) r) \<le> rgGeneration r"
      using rem by (simp add: grows_def)
    then show "rgGeneration (remove_owned updates (rgOwners r) r) + int (length (rgSpecs tmp)) < 2 ^ 64"
      using len assms(3) by linarith
  qed
  from grows_trans [OF rem this] have "grows (int (length (rgSpecs tmp))) r r'" by simp
  then show ?thesis by (rule grows_mono) (use len in simp)
qed

lemma registry_step_grows: "registry_step lib r r' \<Longrightarrow> registry_wf r \<Longrightarrow> \<exists>n. grows n r r'"
  by (induction rule: registry_step.induct)
    (blast intro: Register_grows RegisterAll_grows ReplaceNamespaces_grows)+

interpretation registry_runs: stepper "registry_step lib" registry_wf for lib
  by unfold_locales (drule (1) registry_step_grows, auto simp: grows_def)

lemma registry_step_tracks: "registry_step lib r r' \<Longrightarrow> registry_wf r \<Longrightarrow> tracks r r'"
  by (drule (1) registry_step_grows) (auto simp: grows_def)

lemma registry_run_tracks: "(registry_step lib)\<^sup>*\<^sup>* r r' \<Longrightarrow> registry_wf r \<Longrightarrow> tracks r r'"
  by (rule registry_runs.run_mono [OF _ _ registry_step_tracks tracks_refl tracks_trans])

lemma prepare_Inr:
  "prepare normalise r call ex = Inr i \<Longrightarrow>
     mget (rgHandlers r) (tcName call) = Some (ivHandler i)
     \<and> ivGeneration i = generation_at (rgGenerations r) (tcName call)
     \<and> ivSpec i = (case mget (rgSpecs r) (tcName call) of Some s \<Rightarrow> s | None \<Rightarrow> no_spec)
     \<and> tcName (ivPrivate i) = tcName call \<and> ivUsed i = False"
  by (auto simp: prepare_def validateCall_def Let_def split: option.splits sum.splits if_splits)

lemma invocation_run_admitted:
  "invocation_run ctx_err r h i = (res, i') \<Longrightarrow> ivUsed i' \<noteq> ivUsed i \<Longrightarrow>
     ctx_err = None \<and> \<not> ivUsed i \<and> ivUsed i'
     \<and> mget (rgGenerations r) (tcName (ivPrivate i)) = Some (ivGeneration i)"
  by (auto simp: invocation_run_def Let_def split: option.splits if_splits prod.splits)

subsection \<open>Isolation of namespaces\<close>

lemma publish_owned_other:
  "name \<notin> set (map fst xs) \<Longrightarrow>
   entry_at (publish_owned tmp owners xs r) name = entry_at r name
   \<and> mget (rgOwners (publish_owned tmp owners xs r)) name = mget (rgOwners r) name"
proof (induction xs arbitrary: r)
  case Nil
  then show ?case by simp
next
  case (Cons p xs)
  obtain n spec where p: "p = (n, spec)" by (cases p)
  show ?case using Cons.prems unfolding p publish_owned.simps
    by (subst Cons.IH) (auto simp: entry_at_def install_def Cons.IH)
qed

lemma remove_owned_other:
  "(\<And>ow. (name, ow) \<in> set xs \<Longrightarrow> mget updates ow = None) \<Longrightarrow>
   entry_at (remove_owned updates xs r) name = entry_at r name
   \<and> mget (rgOwners (remove_owned updates xs r)) name = mget (rgOwners r) name"
proof (induction xs arbitrary: r)
  case Nil
  then show ?case by simp
next
  case (Cons p xs)
  obtain n ow where p: "p = (n, ow)" by (cases p)
  have rest: "\<And>ow. (name, ow) \<in> set xs \<Longrightarrow> mget updates ow = None" using Cons.prems by auto
  have here: "n = name \<Longrightarrow> mget updates ow = None" using Cons.prems by (auto simp: p)
  show ?case unfolding p remove_owned.simps
    using Cons.IH [OF rest, of "if mget updates ow \<noteq> None then remove_tool n r else r"] here
    by (auto simp: entry_at_def remove_tool_def)
qed

text \<open>The names a directory of definitions puts into the temporary registry, when the names are
  given without surrounding spaces.\<close>

definition trimmed :: "'h tool_definition \<Rightarrow> bool" where
  "trimmed d \<longleftrightarrow> TrimSpace (spName (dfSpec d)) = spName (dfSpec d)"

lemma Register_names:
  "Register lib d r = (None, r') \<Longrightarrow> trimmed d \<Longrightarrow>
     set (mkeys (rgSpecs r')) = insert (spName (dfSpec d)) (set (mkeys (rgSpecs r)))"
  by (auto simp: Register_def Let_def trimmed_def install_def split: option.splits sum.splits if_splits)

text \<open>Every name collected from the updates has one of the updated owners.\<close>

definition owned_by :: "'h tool_definition list gomap \<Rightarrow> 'h registry \<Rightarrow> string gomap \<Rightarrow> bool" where
  "owned_by updates tmp owners \<longleftrightarrow>
     (\<forall>name \<in> set (mkeys (rgSpecs tmp)). \<exists>ow. ow \<noteq> '''' \<and> mget updates ow \<noteq> None \<and> mget owners name = Some ow)"

lemma collect_owner_owned:
  "collect_owner lib owner ds tmp owners = Inr (tmp', owners') \<Longrightarrow> list_all trimmed ds \<Longrightarrow>
   owner \<noteq> '''' \<Longrightarrow> mget updates owner \<noteq> None \<Longrightarrow> owned_by updates tmp owners \<Longrightarrow> owned_by updates tmp' owners'"
proof (induction ds arbitrary: tmp owners)
  case Nil
  then show ?case by simp
next
  case (Cons d ds)
  then obtain t where t: "Register lib d tmp = (None, t)"
    "collect_owner lib owner ds t (mput (spName (dfSpec d)) owner owners) = Inr (tmp', owners')"
    by (auto split: if_splits prod.splits option.splits)
  have "owned_by updates t (mput (spName (dfSpec d)) owner owners)"
    using Cons.prems Register_names [OF t(1)] by (auto simp: owned_by_def)
  with Cons.IH [OF t(2)] Cons.prems show ?case by simp
qed

lemma collect_updates_owned:
  "collect_updates lib rest tmp owners = Inr (tmp', owners') \<Longrightarrow>
   (\<And>ow ds. (ow, ds) \<in> set rest \<Longrightarrow> list_all trimmed ds \<and> mget updates ow \<noteq> None) \<Longrightarrow>
   owned_by updates tmp owners \<Longrightarrow> owned_by updates tmp' owners'"
proof (induction lib rest tmp owners rule: collect_updates.induct)
  case (1 lib tmp owners)
  then show ?case by simp
next
  case (2 lib owner ds rest tmp owners)
  from 2(2) obtain t o1 where t: "collect_owner lib owner ds tmp owners = Inr (t, o1)"
    "collect_updates lib rest t o1 = Inr (tmp', owners')" "owner \<noteq> ''''"
    by (auto split: if_splits sum.splits)
  have "owned_by updates t o1"
    using collect_owner_owned [OF t(1) _ t(3), of updates] 2(3) 2(4) by auto
  moreover have "\<And>ow ds. (ow, ds) \<in> set rest \<Longrightarrow> list_all trimmed ds \<and> mget updates ow \<noteq> None"
    using 2(3) by (metis list.set_intros(2))
  ultimately show ?case using 2(1) [OF t(3,1) refl t(2)] by blast
qed

subsection \<open>Properties\<close>

text \<open>C5. An approved call never runs a changed definition: when an invocation was prepared on one
  registry and is admitted on a later one, reached by any sequence of registrations, directory
  loads and namespace replacements, then the name still stands for the very definition that was
  prepared (specification, handler, validator and capability), and the invocation is spent, so
  that running it again is refused.\<close>

theorem invocation_runs_prepared_definition:
  assumes "registry_wf r" and "prepare normalise r call expected = Inr i"
    and "(registry_step lib)\<^sup>*\<^sup>* r r'" and "invocation_run ctx_err r' h i = (res, i')" and "ivUsed i'"
  shows "entry_at r' (tcName call) = entry_at r (tcName call)
     \<and> mget (rgHandlers r') (tcName call) = Some (ivHandler i)
     \<and> (\<forall>r'' h' ctx res' i''. invocation_run ctx r'' h' i' = (res', i'') \<longrightarrow> trStatus res' = ''error'' \<and> i'' = i')"
proof -
  have p: "mget (rgHandlers r) (tcName call) = Some (ivHandler i)" "tcName (ivPrivate i) = tcName call"
    "ivGeneration i = generation_at (rgGenerations r) (tcName call)" "ivUsed i = False"
    using prepare_Inr [OF assms(2)] by auto
  have g: "mget (rgGenerations r') (tcName call) = Some (ivGeneration i)"
    using invocation_run_admitted [OF assms(4)] assms(5) p by auto
  have bound: "ivGeneration i \<le> rgGeneration r"
    using assms(1) p(3) by (auto simp: registry_wf_def generation_at_def split: option.splits)
  have "tracks r r'" using registry_run_tracks assms(1,3) by blast
  then have same: "entry_at r' (tcName call) = entry_at r (tcName call)"
    using g bound by (auto simp: tracks_def dest!: spec [of _ "tcName call"])
  then have "mget (rgHandlers r') (tcName call) = Some (ivHandler i)"
    using p(1) by (simp add: entry_at_def)
  moreover have "trStatus res' = ''error'' \<and> i'' = i'"
    if "invocation_run ctx r'' h' i' = (res', i'')" for r'' h' ctx res' i''
    using that assms(5)
    by (auto simp: invocation_run_def tool_error_def no_result_def Let_def split: option.splits if_splits)
  ultimately show ?thesis using same by blast
qed

definition demo_lib :: schema_lib where
  "demo_lib = \<lparr>slDecode = (\<lambda>raw. Inr (JObj [])), slEncode = (\<lambda>j. ''{}''), slResolve = (\<lambda>data. Inr (\<lambda>args. None))\<rparr>"

definition demo_tool :: "string \<Rightarrow> string \<Rightarrow> unit tool_definition" where
  "demo_tool name out = \<lparr>dfSpec = \<lparr>spName = name, spRisky = False, spDescription = '''', spSchema = ''{}''\<rparr>,
     dfHandler = Some (\<lambda>h args. (out, [], None, []))\<rparr>"

definition demo_registry :: "unit registry" where
  "demo_registry = snd (Register demo_lib (demo_tool ''read_file'' ''old'') empty_registry)"

definition demo_request :: tool_call where
  "demo_request = \<lparr>tcID = ''c1'', tcName = ''read_file'', tcArgs = Some []\<rparr>"

lemma demo_compile [simp]: "compileSchema demo_lib raw = Inr (\<lambda>args. None)"
  by (simp add: compileSchema_def JSONSchema_def demo_lib_def decode_object_def schema_object_def
      expand_schema_def external_reference_def is_reference_def)

lemma demo_registry_eq:
  "demo_registry = install ''read_file'' (dfSpec (demo_tool ''read_file'' ''old'')) (\<lambda>h args. (''old'', [], None, []))
     (\<lambda>args. None) unknown_capability empty_registry"
  by (simp add: demo_registry_def Register_def demo_tool_def TrimSpace_def is_space_def
      empty_registry_def Let_def)

lemmas demo_registry_eval = demo_registry_eq install_def empty_registry_def demo_tool_def next_generation_def

lemma demo_registry_wf: "registry_wf demo_registry"
  by (simp add: registry_wf_def demo_registry_eval)

lemma invocation_runs_prepared_definition_witness:
  "\<exists>i res i'. prepare Inr demo_registry demo_request None = Inr i
     \<and> invocation_run None demo_registry () i = (res, i') \<and> trOutput res = ''old''
     \<and> mget (rgHandlers demo_registry) ''read_file'' = Some (ivHandler i)"
proof -
  have p: "\<exists>i. prepare Inr demo_registry demo_request None = Inr i"
    by (simp add: demo_registry_eval prepare_def demo_request_def validateCall_def)
  then obtain i where i: "prepare Inr demo_registry demo_request None = Inr i" by blast
  then have r: "\<exists>res i'. invocation_run None demo_registry () i = (res, i') \<and> trOutput res = ''old'' \<and> ivUsed i'"
    by (auto simp: demo_registry_eval prepare_def demo_request_def validateCall_def invocation_run_def
      no_result_def generation_at_def Let_def)
  then obtain res i' where r: "invocation_run None demo_registry () i = (res, i')" "trOutput res = ''old''" "ivUsed i'"
    by blast
  show ?thesis
    using invocation_runs_prepared_definition [OF demo_registry_wf i rtranclp.rtrancl_refl r(1,3)] i r
    by (auto simp: demo_request_def)
qed

text \<open>Replacing namespaces is isolated: when the updates give the names of their tools without
  surrounding spaces, a replacement that succeeds leaves every tool alone whose owner is not
  among the updated ones, built-in tools included.\<close>

theorem ReplaceNamespaces_isolated:
  assumes "ReplaceNamespaces lib updates r = (None, r')"
    and "\<And>ow ds. (ow, ds) \<in> set updates \<Longrightarrow> list_all trimmed ds"
    and "wf_map (rgOwners r)" and "wf_map updates"
    and "mget (rgSpecs r) name \<noteq> None" and "mget updates (owner_at (rgOwners r) name) = None"
  shows "entry_at r' name = entry_at r name"
proof -
  obtain tmp owners where
    col: "collect_updates lib updates empty_registry [] = Inr (tmp, owners)"
    and chk: "\<And>name. name \<in> set (mkeys (rgSpecs tmp)) \<Longrightarrow> mget (rgSpecs r) name \<noteq> None \<Longrightarrow>
       owner_at (rgOwners r) name = owner_at owners name"
    and r': "r' = publish_owned tmp owners (rgSpecs tmp) (remove_owned updates (rgOwners r) r)"
    by (rule ReplaceNamespaces_published [OF assms(1)]) blast
  have "owned_by updates tmp owners"
  proof (rule collect_updates_owned [OF col])
    show "list_all trimmed ds \<and> mget updates ow \<noteq> None" if "(ow, ds) \<in> set updates" for ow ds
      using assms(2) [OF that] in_set_mget [OF assms(4) that] by simp
    show "owned_by updates empty_registry []" by (simp add: owned_by_def empty_registry_def mkeys_def)
  qed
  then have "name \<notin> set (mkeys (rgSpecs tmp))"
    using chk [of name] assms(5,6) by (auto simp: owned_by_def owner_at_def)
  then have "entry_at r' name = entry_at (remove_owned updates (rgOwners r) r) name"
    unfolding r' using publish_owned_other by (metis mkeys_def)
  also have "\<dots> = entry_at r name"
  proof -
    have "mget updates ow = None" if "(name, ow) \<in> set (rgOwners r)" for ow
      using assms(6) in_set_mget [OF assms(3) that] by (simp add: owner_at_def)
    then show ?thesis using remove_owned_other [of name "rgOwners r" updates r] by blast
  qed
  finally show ?thesis .
qed

lemma ReplaceNamespaces_isolated_witness:
  "\<exists>r'. ReplaceNamespaces demo_lib [(''mcp_x'', [demo_tool ''mcp_x_search'' ''new''])] demo_registry = (None, r')
     \<and> entry_at r' ''read_file'' = entry_at demo_registry ''read_file''
     \<and> mget (rgSpecs r') ''mcp_x_search'' \<noteq> None"
proof -
  let ?u = "[(''mcp_x'', [demo_tool ''mcp_x_search'' ''new''])]"
  have run: "\<exists>r'. ReplaceNamespaces demo_lib ?u demo_registry = (None, r') \<and> mget (rgSpecs r') ''mcp_x_search'' \<noteq> None"
    by (simp add: ReplaceNamespaces_def demo_registry_eval Register_def TrimSpace_def
      is_space_def HasPrefix_def mkeys_def mput_def Let_def)
  then obtain r' where r': "ReplaceNamespaces demo_lib ?u demo_registry = (None, r')"
    "mget (rgSpecs r') ''mcp_x_search'' \<noteq> None" by blast
  have "mget (rgSpecs demo_registry) ''read_file'' \<noteq> None" "rgOwners demo_registry = []"
    by (simp_all add: demo_registry_eval)
  then have "entry_at r' ''read_file'' = entry_at demo_registry ''read_file''"
    by (intro ReplaceNamespaces_isolated [OF r'(1)])
      (auto simp: trimmed_def demo_tool_def TrimSpace_def is_space_def wf_map_def owner_at_def)
  with r' show ?thesis by blast
qed

subsection \<open>Without trimmed names\<close>

text \<open>
  The hypothesis on the names is needed: the registry files a definition under its trimmed name
  while the owner is recorded under the name as given, so that a namespace \<open>read\<close> that defines
  \<open>read_file\<close> with a trailing space passes the ownership check and replaces the built-in tool.
\<close>

lemma ReplaceNamespaces_untrimmed:
  "entry_at (snd (ReplaceNamespaces demo_lib [(''read'', [demo_tool ''read_file '' ''new''])] demo_registry)) ''read_file''
     \<noteq> entry_at demo_registry ''read_file''"
  by (simp add: ReplaceNamespaces_def demo_registry_eval Register_def TrimSpace_def
      is_space_def HasPrefix_def mkeys_def mput_def owner_at_def entry_at_def Let_def)

end
