(* ===== verification/Batch.thy ===== *)
theory Batch
  imports Registry
begin

section \<open>Batches of tool calls\<close>

text \<open>
  \<open>internal/tools/batch.go\<close>: the calls of one model response are run in groups, a group being a
  single call or a run of consecutive calls of tools registered as safe reads. The members of a
  group run concurrently, each writing its own slot of the results, and are joined before the
  next group. Since the slots are disjoint the result does not depend on how the members are
  interleaved; what a member returns may depend on it (siblings share a cancellable context), so
  the outcome of the member at index \<open>j\<close> is an argument, a returned result or a recovered panic.
  \<open>ctx_err i\<close> is what \<open>ctx.Err()\<close> says when the group starting at index \<open>i\<close> is about to start.
\<close>

datatype run_outcome = Returned tool_result | Crashed string

definition Capability :: "'h registry \<Rightarrow> string \<Rightarrow> capability" where
  "Capability r name = (case mget (rgCapabilities r) name of Some c \<Rightarrow> c | None \<Rightarrow> unknown_capability)"

definition safe_read :: "'h registry \<Rightarrow> tool_call \<Rightarrow> bool" where
  "safe_read r call = (let c = Capability r (tcName call) in cpEffect c = ReadEffect \<and> cpConcurrencySafe c)"

text \<open>How many calls the group at the head of \<open>calls\<close> takes.\<close>

definition group_size :: "'h registry \<Rightarrow> nat \<Rightarrow> tool_call list \<Rightarrow> nat" where
  "group_size r limit calls =
     (case calls of [] \<Rightarrow> 0
      | c # cs \<Rightarrow> if safe_read r c then 1 + length (takeWhile (safe_read r) (take (limit - 1) cs)) else 1)"

definition slot_result :: "tool_call \<Rightarrow> run_outcome \<Rightarrow> tool_result" where
  "slot_result call out =
     (case out of Returned res \<Rightarrow> res | Crashed p \<Rightarrow> tool_error (tcName call) p ''internal_panic'')"

definition group_aborts :: "tool_result \<Rightarrow> bool" where
  "group_aborts res \<longleftrightarrow> trErrorCode res = ''cancelled'' \<or> trErrorCode res = ''internal_panic''"

function batch_loop ::
  "'h registry \<Rightarrow> nat \<Rightarrow> (nat \<Rightarrow> gerr option) \<Rightarrow> (nat \<Rightarrow> tool_call \<Rightarrow> run_outcome) \<Rightarrow> nat \<Rightarrow> tool_call list
     \<Rightarrow> tool_result list \<times> (nat \<times> nat) list" where
  "batch_loop r limit ctx_err run i [] = ([], [])"
| "batch_loop r limit ctx_err run i (c # cs) =
     (case ctx_err i of
        Some e \<Rightarrow> (map (\<lambda>c. tool_error (tcName c) (Error e) ''cancelled'') (c # cs), [])
      | None \<Rightarrow>
        (let n = group_size r limit (c # cs);
             results = map (\<lambda>(j, call). slot_result call (run j call)) (enumerate i (take n (c # cs)));
             rest = drop n (c # cs)
         in if list_ex group_aborts results
            then (results @ map (\<lambda>c. tool_error (tcName c) ''batch cancelled'' ''cancelled'') rest, [(i, i + n)])
            else (case batch_loop r limit ctx_err run (i + n) rest of
                    (later, groups) \<Rightarrow> (results @ later, (i, i + n) # groups))))"
  by pat_completeness auto
termination
  by (relation "measure (\<lambda>(r, limit, ctx_err, run, i, calls). length calls)") (auto simp: group_size_def)

declare batch_loop.simps(2) [simp del]

definition RunIndexedBatch ::
  "'h registry \<Rightarrow> int \<Rightarrow> (nat \<Rightarrow> gerr option) \<Rightarrow> (nat \<Rightarrow> tool_call \<Rightarrow> run_outcome) \<Rightarrow> tool_call list
     \<Rightarrow> tool_result list \<times> (nat \<times> nat) list" where
  "RunIndexedBatch r limit ctx_err run calls =
     batch_loop r (nat (if limit < 1 then 1 else limit)) ctx_err run 0 calls"

definition RunBatch ::
  "'h registry \<Rightarrow> int \<Rightarrow> (nat \<Rightarrow> gerr option) \<Rightarrow> (tool_call \<Rightarrow> run_outcome) \<Rightarrow> tool_call list
     \<Rightarrow> tool_result list \<times> (nat \<times> nat) list" where
  "RunBatch r limit ctx_err run calls = RunIndexedBatch r limit ctx_err (\<lambda>_. run) calls"

subsection \<open>The discipline of groups\<close>

text \<open>A group is one call, or at most \<open>limit\<close> calls that are all safe reads.\<close>

definition proper_group :: "'h registry \<Rightarrow> nat \<Rightarrow> (nat \<Rightarrow> tool_call) \<Rightarrow> nat \<times> nat \<Rightarrow> bool" where
  "proper_group r limit call_at g \<longleftrightarrow> fst g < snd g \<and>
     (snd g = fst g + 1 \<or> snd g - fst g \<le> limit \<and> (\<forall>j \<in> {fst g..<snd g}. safe_read r (call_at j)))"

text \<open>The groups that were started follow one another without gaps.\<close>

fun contiguous :: "nat \<Rightarrow> (nat \<times> nat) list \<Rightarrow> bool" where
  "contiguous i [] \<longleftrightarrow> True"
| "contiguous i ((a, b) # gs) \<longleftrightarrow> a = i \<and> contiguous b gs"

definition reached :: "nat \<Rightarrow> (nat \<times> nat) list \<Rightarrow> nat" where
  "reached i gs = (if gs = [] then i else snd (last gs))"

lemma reached_Cons [simp]: "reached i ((a, b) # gs) = reached b gs"
  by (simp add: reached_def)

lemma group_size_bounds:
  "calls \<noteq> [] \<Longrightarrow> 1 \<le> group_size r limit calls \<and> group_size r limit calls \<le> length calls"
proof (cases calls)
  case (Cons c cs)
  have "length (takeWhile (safe_read r) (take (limit - 1) cs)) \<le> length (take (limit - 1) cs)"
    by (rule length_takeWhile_le)
  with Cons show ?thesis by (simp add: group_size_def)
qed simp

lemma group_size_safe:
  assumes "1 < group_size r limit calls" "k < group_size r limit calls" "1 \<le> limit"
  shows "safe_read r (calls ! k) \<and> group_size r limit calls \<le> limit"
proof -
  obtain c cs where calls: "calls = c # cs" using assms by (cases calls) (auto simp: group_size_def)
  let ?t = "takeWhile (safe_read r) (take (limit - 1) cs)"
  have c: "safe_read r c" and n: "group_size r limit calls = 1 + length ?t"
    using assms(1) by (auto simp: group_size_def calls split: if_splits)
  have len: "length ?t \<le> length (take (limit - 1) cs)" by (rule length_takeWhile_le)
  have "safe_read r (calls ! k)"
  proof (cases k)
    case 0
    then show ?thesis by (simp add: calls c)
  next
    case (Suc m)
    then have m: "m < length ?t" using assms(2) n by simp
    then have "?t ! m \<in> set ?t" by (rule nth_mem)
    then have "safe_read r (?t ! m)" by (blast dest: set_takeWhileD)
    moreover have "?t ! m = cs ! m" using m len by (simp add: takeWhile_nth)
    ultimately show ?thesis by (simp add: calls Suc)
  qed
  with len n assms(3) show ?thesis by auto
qed

definition batch_ok ::
  "'h registry \<Rightarrow> nat \<Rightarrow> (nat \<Rightarrow> tool_call \<Rightarrow> run_outcome) \<Rightarrow> nat \<Rightarrow> tool_call list
     \<Rightarrow> tool_result list \<times> (nat \<times> nat) list \<Rightarrow> bool" where
  "batch_ok r limit run i calls out \<longleftrightarrow>
     length (fst out) = length calls \<and> contiguous i (snd out) \<and> reached i (snd out) \<le> i + length calls
     \<and> (\<forall>g \<in> set (snd out). proper_group r limit (\<lambda>j. calls ! (j - i)) g \<and> i \<le> fst g)
     \<and> (\<forall>k < length calls. if i + k < reached i (snd out)
          then fst out ! k = slot_result (calls ! k) (run (i + k) (calls ! k))
          else trErrorCode (fst out ! k) = ''cancelled'' \<and> trName (fst out ! k) = tcName (calls ! k))
     \<and> (\<forall>k < length calls. group_aborts (slot_result (calls ! k) (run (i + k) (calls ! k))) \<longrightarrow>
          i + k < reached i (snd out) \<longrightarrow>
            (\<exists>g \<in> set (snd out). g = last (snd out) \<and> fst g \<le> i + k))"

definition batch_head ::
  "'h registry \<Rightarrow> nat \<Rightarrow> (nat \<Rightarrow> tool_call \<Rightarrow> run_outcome) \<Rightarrow> nat \<Rightarrow> tool_call list \<Rightarrow> tool_result list" where
  "batch_head r limit run i calls =
     map (\<lambda>(j, call). slot_result call (run j call)) (enumerate i (take (group_size r limit calls) calls))"

lemma batch_head_length [simp]: "calls \<noteq> [] \<Longrightarrow> length (batch_head r limit run i calls) = group_size r limit calls"
  using group_size_bounds [of calls r limit] by (simp add: batch_head_def)

lemma batch_head_nth:
  "k < group_size r limit calls \<Longrightarrow>
   batch_head r limit run i calls ! k = slot_result (calls ! k) (run (i + k) (calls ! k))"
proof -
  assume k: "k < group_size r limit calls"
  then have ne: "calls \<noteq> []" by (auto simp: group_size_def)
  with k group_size_bounds [OF ne, of r limit] show ?thesis
    by (simp add: batch_head_def nth_enumerate_eq)
qed

lemma batch_loop_step:
  "batch_loop r limit ctx_err run i (c # cs) =
     (case ctx_err i of
        Some e \<Rightarrow> (map (\<lambda>c. tool_error (tcName c) (Error e) ''cancelled'') (c # cs), [])
      | None \<Rightarrow>
        (let n = group_size r limit (c # cs); results = batch_head r limit run i (c # cs); rest = drop n (c # cs)
         in if list_ex group_aborts results
            then (results @ map (\<lambda>c. tool_error (tcName c) ''batch cancelled'' ''cancelled'') rest, [(i, i + n)])
            else (case batch_loop r limit ctx_err run (i + n) rest of
                    (later, groups) \<Rightarrow> (results @ later, (i, i + n) # groups))))"
  unfolding batch_loop.simps(2) batch_head_def Let_def ..

lemma reached_ge: "contiguous i gs \<Longrightarrow> (\<And>g. g \<in> set gs \<Longrightarrow> fst g < snd g) \<Longrightarrow> i \<le> reached i gs"
proof (induction i gs rule: contiguous.induct)
  case (1 i)
  then show ?case by (simp add: reached_def)
next
  case (2 i a b gs)
  have "a < b" using 2(3) [of "(a, b)"] by simp
  moreover have "b \<le> reached b gs" using 2(1) 2(2,3) by simp
  ultimately show ?case using 2(2) by simp
qed

lemma proper_head_group:
  assumes "calls \<noteq> []" "1 \<le> limit"
  shows "proper_group r limit (\<lambda>j. calls ! (j - i)) (i, i + group_size r limit calls)"
proof (cases "group_size r limit calls = 1")
  case True
  then show ?thesis by (simp add: proper_group_def)
next
  case False
  then have n: "1 < group_size r limit calls" using group_size_bounds [OF assms(1), of r limit] by simp
  have "safe_read r (calls ! (j - i))" if "j \<in> {i..<i + group_size r limit calls}" for j
    using group_size_safe [OF n _ assms(2), of "j - i"] that by auto
  moreover have "group_size r limit calls \<le> limit"
    using group_size_safe [OF n _ assms(2), of 0] n by simp
  ultimately show ?thesis using n by (simp add: proper_group_def)
qed

lemma batch_ok_cancelled:
  "batch_ok r limit run i calls (map (\<lambda>c. tool_error (tcName c) msg ''cancelled'') calls, [])"
  by (simp add: batch_ok_def reached_def tool_error_def)

lemma batch_ok_aborted:
  assumes "calls \<noteq> []" "1 \<le> limit" "n = group_size r limit calls"
  shows "batch_ok r limit run i calls
     (batch_head r limit run i calls @ map (\<lambda>c. tool_error (tcName c) msg ''cancelled'') (drop n calls), [(i, i + n)])"
  using assms group_size_bounds [OF assms(1), of r limit] proper_head_group [OF assms(1,2), of r i]
  by (auto simp: batch_ok_def reached_def nth_append batch_head_nth tool_error_def)

lemma batch_ok_next:
  assumes "calls \<noteq> []" "1 \<le> limit" "n = group_size r limit calls"
    and quiet: "\<not> list_ex group_aborts (batch_head r limit run i calls)"
    and rest: "batch_ok r limit run (i + n) (drop n calls) (later, gs)"
  shows "batch_ok r limit run i calls (batch_head r limit run i calls @ later, (i, i + n) # gs)"
proof -
  have n: "1 \<le> n" "n \<le> length calls" using group_size_bounds [OF assms(1), of r limit] assms(3) by auto
  have R: "length later = length calls - n" "contiguous (i + n) gs"
    "reached (i + n) gs \<le> i + length calls"
    "\<And>g. g \<in> set gs \<Longrightarrow> proper_group r limit (\<lambda>j. drop n calls ! (j - (i + n))) g \<and> i + n \<le> fst g"
    "\<And>k. k < length calls - n \<Longrightarrow> (if i + n + k < reached (i + n) gs
          then later ! k = slot_result (calls ! (n + k)) (run (i + n + k) (calls ! (n + k)))
          else trErrorCode (later ! k) = ''cancelled'' \<and> trName (later ! k) = tcName (calls ! (n + k)))"
    "\<And>k. k < length calls - n \<Longrightarrow> group_aborts (slot_result (calls ! (n + k)) (run (i + n + k) (calls ! (n + k)))) \<Longrightarrow>
       i + n + k < reached (i + n) gs \<Longrightarrow> \<exists>g \<in> set gs. g = last gs \<and> fst g \<le> i + n + k"
    using rest n by (auto simp: batch_ok_def)
  have ge: "i + n \<le> reached (i + n) gs"
    by (rule reached_ge [OF R(2)]) (use R(4) in \<open>auto simp: proper_group_def\<close>)
  have groups: "proper_group r limit (\<lambda>j. calls ! (j - i)) g \<and> i \<le> fst g" if "g \<in> set ((i, i + n) # gs)" for g
  proof (cases "g = (i, i + n)")
    case True
    then show ?thesis using proper_head_group [OF assms(1,2)] assms(3) by simp
  next
    case False
    with that have g: "g \<in> set gs" by simp
    have "drop n calls ! (j - (i + n)) = calls ! (j - i)" if "fst g \<le> j" for j
      using that R(4) [OF g] n by simp
    with R(4) [OF g] show ?thesis by (auto simp: proper_group_def)
  qed
  have results: "if i + k < reached (i + n) gs
      then (batch_head r limit run i calls @ later) ! k = slot_result (calls ! k) (run (i + k) (calls ! k))
      else trErrorCode ((batch_head r limit run i calls @ later) ! k) = ''cancelled''
         \<and> trName ((batch_head r limit run i calls @ later) ! k) = tcName (calls ! k)"
    if k: "k < length calls" for k
  proof (cases "k < n")
    case True
    with ge assms(1,3) show ?thesis by (simp add: nth_append batch_head_nth)
  next
    case False
    then have eq: "i + n + (k - n) = i + k" "n + (k - n) = k" and lt: "k - n < length calls - n"
      using k by auto
    have at: "(batch_head r limit run i calls @ later) ! k = later ! (k - n)"
      using False assms(1,3) by (simp add: nth_append)
    show ?thesis unfolding at using R(5) [OF lt] unfolding eq .
  qed
  have aborts: "\<exists>g \<in> set ((i, i + n) # gs). g = last ((i, i + n) # gs) \<and> fst g \<le> i + k"
    if k: "k < length calls" "group_aborts (slot_result (calls ! k) (run (i + k) (calls ! k)))"
      "i + k < reached (i + n) gs" for k
  proof (cases "k < n")
    case True
    then have "batch_head r limit run i calls ! k \<in> set (batch_head r limit run i calls)"
      using assms(1,3) by (intro nth_mem) simp
    with quiet k(2) True assms(3) show ?thesis by (auto simp: list_ex_iff batch_head_nth)
  next
    case False
    then have "i + n + (k - n) = i + k" "n + (k - n) = k" by auto
    with R(6) [of "k - n"] k False obtain g where "g \<in> set gs" "g = last gs" "fst g \<le> i + k" by auto
    then show ?thesis by (intro bexI [of _ g]) auto
  qed
  show ?thesis
    using assms(1,3) R(1,2,3) n groups results aborts by (auto simp: batch_ok_def)
qed

lemma batch_loop_ok: "1 \<le> limit \<Longrightarrow> batch_ok r limit run i calls (batch_loop r limit ctx_err run i calls)"
proof (induction "length calls" arbitrary: i calls rule: less_induct)
  case less
  show ?case
  proof (cases calls)
    case Nil
    then show ?thesis by (simp add: batch_ok_def reached_def)
  next
    case (Cons c cs)
    define n where "n = group_size r limit (c # cs)"
    obtain later gs where rec: "batch_loop r limit ctx_err run (i + n) (drop n (c # cs)) = (later, gs)"
      by (cases "batch_loop r limit ctx_err run (i + n) (drop n (c # cs))")
    have "1 \<le> n" using group_size_bounds [of "c # cs" r limit] by (simp add: n_def)
    then have "batch_ok r limit run (i + n) (drop n (c # cs)) (later, gs)"
      using less.hyps [of "drop n (c # cs)" "i + n"] less.prems Cons by (simp add: rec)
    then show ?thesis
      using batch_ok_cancelled [of r limit run i "c # cs"] batch_ok_aborted [of "c # cs" limit n r run i]
        batch_ok_next [of "c # cs" limit n r run i later gs] less.prems rec
      unfolding Cons batch_loop_step by (simp add: n_def [symmetric] Let_def split: option.split)
  qed
qed

subsection \<open>Properties\<close>

text \<open>The batch discipline, for every behaviour of the tools and every moment of
  cancellation: there is one result per call, in input order; the groups that were started
  cover an initial stretch of the calls without gaps, each is a single call or at most \<open>limit\<close>
  safe reads; a call that was reached has exactly the result its handler gave (or the panic it
  ended in), a call that was not is reported as cancelled; and a cancelled or panicking call
  lies in the last group that was started.\<close>

theorem batch_discipline:
  assumes "RunIndexedBatch r limit ctx_err run calls = (results, groups)"
  shows "length results = length calls \<and> contiguous 0 groups \<and> reached 0 groups \<le> length calls
     \<and> (\<forall>g \<in> set groups. proper_group r (nat (max 1 limit)) (\<lambda>j. calls ! j) g)
     \<and> (\<forall>k < length calls. if k < reached 0 groups
          then results ! k = slot_result (calls ! k) (run k (calls ! k))
          else trErrorCode (results ! k) = ''cancelled'' \<and> trName (results ! k) = tcName (calls ! k))
     \<and> (\<forall>k < reached 0 groups. group_aborts (results ! k) \<longrightarrow> fst (last groups) \<le> k)"
proof -
  let ?l = "nat (max 1 limit)"
  have l: "nat (if limit < 1 then 1 else limit) = ?l" by auto
  have "batch_ok r ?l run 0 calls (results, groups)"
    using batch_loop_ok [of ?l r run 0 calls ctx_err] assms by (simp add: RunIndexedBatch_def l)
  then have B: "length results = length calls" "contiguous 0 groups" "reached 0 groups \<le> length calls"
    "\<forall>g \<in> set groups. proper_group r ?l (\<lambda>j. calls ! j) g"
    "\<forall>k < length calls. if k < reached 0 groups
          then results ! k = slot_result (calls ! k) (run k (calls ! k))
          else trErrorCode (results ! k) = ''cancelled'' \<and> trName (results ! k) = tcName (calls ! k)"
    "\<forall>k < length calls. group_aborts (slot_result (calls ! k) (run k (calls ! k))) \<longrightarrow>
          k < reached 0 groups \<longrightarrow> (\<exists>g \<in> set groups. g = last groups \<and> fst g \<le> k)"
    unfolding batch_ok_def by (simp_all only: fst_conv snd_conv add_0 minus_nat.diff_0 conj_ac) blast+
  have "fst (last groups) \<le> k" if "k < reached 0 groups" "group_aborts (results ! k)" for k
    using B(3) B(5,6) that by (metis order.strict_trans2)
  with B(1-5) show ?thesis by blast
qed

definition demo_reads :: "tool_call list" where
  "demo_reads = [demo_request, demo_request, demo_request\<lparr>tcName := ''write_file''\<rparr>]"

definition demo_reader :: "unit registry" where
  "demo_reader = demo_registry
     \<lparr>rgCapabilities := [(''read_file'', \<lparr>cpEffect = ReadEffect, cpConcurrencySafe = True\<rparr>)]\<rparr>"

lemma batch_discipline_witness:
  "\<exists>results. RunIndexedBatch demo_reader 4 (\<lambda>i. None) (\<lambda>j c. Crashed ''boom'') demo_reads = (results, [(0, 2)])
     \<and> length results = 3 \<and> trErrorCode (results ! 2) = ''cancelled''"
proof -
  have run: "\<exists>results. RunIndexedBatch demo_reader 4 (\<lambda>i. None) (\<lambda>j c. Crashed ''boom'') demo_reads = (results, [(0, 2)])"
    by (simp add: RunIndexedBatch_def demo_reads_def demo_request_def batch_loop.simps(2) group_size_def
        safe_read_def Capability_def demo_reader_def unknown_capability_def slot_result_def tool_error_def
        no_result_def group_aborts_def Let_def)
  then obtain results where r: "RunIndexedBatch demo_reader 4 (\<lambda>i. None) (\<lambda>j c. Crashed ''boom'') demo_reads
      = (results, [(0, 2)])" by blast
  from batch_discipline [OF r] have "length results = 3" "trErrorCode (results ! 2) = ''cancelled''"
    by (auto simp: demo_reads_def reached_def)
  with r show ?thesis by blast
qed

end
