(* ===== verification/Budgeted.thy ===== *)
theory Budgeted
  imports Budget Clients Conversation Schema
begin

section \<open>A model call under the budget\<close>

text \<open>
  \<open>Budgeted.run\<close> of \<open>internal/provider/budget.go\<close> and the five calls that go through it. The call
  is a sequence of transactions on the account file: reserve, claim (\<open>sending\<close>), then the provider,
  then the settlement. Other processes use the same account in between, so the environment says
  what they make of the file before the second, the third and the last transaction; the random
  identifier, the lease, the clocks, the I/O of each transaction and what \<open>ctx.Err()\<close> says are
  in it too. The provider is a function of the context it is called with.
\<close>

record run_env =
  rn_ctx :: "gerr option"
  rn_id :: "gerr + string"
  rn_lease :: "gerr option"
  rn_reserve :: io
  rn_reserve_at :: instant
  rn_meanwhile :: "budget_state content \<Rightarrow> budget_state content"
  rn_claim :: io
  rn_claim_at :: instant
  rn_ctx_claimed :: "gerr option"
  rn_release :: io
  rn_release_at :: instant
  rn_during :: "budget_state content \<Rightarrow> budget_state content"
  rn_settle :: io
  rn_settle_at :: instant

text \<open>\<open>BudgetAccount.reserve\<close>: the identifier, the lease, the transaction. The lease is released
  when the transaction fails, and kept by the reservation otherwise.\<close>

definition account_reserve ::
  "gerr + string \<Rightarrow> gerr option \<Rightarrow> io \<Rightarrow> instant \<Rightarrow> string \<Rightarrow> string \<Rightarrow> fixed_price \<Rightarrow> int \<Rightarrow> identity
     \<Rightarrow> budget_state content \<Rightarrow> (gerr + string) \<times> budget_state content" where
  "account_reserve random os e now prov model p amount ident d =
     (case random of
        Inl x \<Rightarrow> (Inl x, d)
      | Inr key \<Rightarrow>
        (case lease key os of
           Some x \<Rightarrow> (Inl x, d)
         | None \<Rightarrow>
           (case file_update budget_zero e () (reserve_fn key prov model p amount ident now) d of
              ((_, Some x), d') \<Rightarrow> (Inl x, d')
            | ((_, None), d') \<Rightarrow> (Inr key, d'))))"

definition reservation_update ::
  "io \<Rightarrow> instant \<Rightarrow> string \<Rightarrow> (budget_attempt \<Rightarrow> gerr + budget_attempt) \<Rightarrow> budget_state content
     \<Rightarrow> gerr option \<times> budget_state content" where
  "reservation_update e now key f d =
     (case file_update budget_zero e () (attempt_fn key f now) d of ((_, x), d') \<Rightarrow> (x, d'))"

definition zero_price :: fixed_price where
  "zero_price = \<lparr>pInput = 0, pOutput = 0, pCacheRead = 0, pCacheWrite = 0\<rparr>"

text \<open>The checks before the reservation and the amount to reserve.\<close>

definition admit_amount :: "budgeted \<Rightarrow> string \<Rightarrow> int \<Rightarrow> gerr + (fixed_price \<times> int)" where
  "admit_amount b model maxOutput =
     (case Budgeted_ContextPolicy b of (window, maxConfigured, _) \<Rightarrow>
        if maxOutput \<le> 0 \<or> maxOutput > maxConfigured \<or> maxOutput \<ge> window
        then Inl (Msg ''invalid model output reservation'')
        else (let p = (case mget (bgPrices b) model of Some p \<Rightarrow> p | None \<Rightarrow> zero_price)
              in (case cost (worst_price p) (full_usage window maxOutput) of
                    Inl e \<Rightarrow> Inl e | Inr amount \<Rightarrow> Inr (p, amount))))"

text \<open>How the result is billed: the model that answered, the price and cost when they are known,
  and whether the account must be frozen.\<close>

definition bill :: "fixed_price gomap \<Rightarrow> string \<Rightarrow> completion \<Rightarrow> string \<times> (fixed_price \<times> int) option \<times> bool" where
  "bill prices model result =
     (let actual = (if cActualModel result = '''' then model else cActualModel result)
      in case mget prices actual of
           None \<Rightarrow> (actual, None, True)
         | Some price \<Rightarrow>
             if \<not> Complete (cUsage result) then (actual, None, False)
             else (case cost price (cUsage result) of
                     Inl e \<Rightarrow> (actual, None, True)
                   | Inr c \<Rightarrow> (actual, Some (price, c), False)))"

text \<open>The run: its answer, the account afterwards, and when the provider was invoked the context
  it got and the account at that moment.\<close>

type_synonym run_result =
  "(completion \<times> gerr option) \<times> budget_state content \<times> (go_context \<times> budget_state content) option"

definition run_settle ::
  "budgeted \<Rightarrow> string \<Rightarrow> run_env \<Rightarrow> string \<Rightarrow> completion \<Rightarrow> gerr option \<Rightarrow> budget_state content
     \<Rightarrow> (completion \<times> gerr option) \<times> budget_state content" where
  "run_settle b model env key result callErr d =
     (case bill (bgPrices b) model result of (actual, priced, frozen) \<Rightarrow>
        (case reservation_update (rn_settle env) (rn_settle_at env) key
                (settle actual (cUsage result) priced frozen) d of
           (Some e, d') \<Rightarrow>
             ((result, errors_join [callErr, Some (Wrapf ''model cost budget persistence failed: %s'' [Error e] ErrBudgetState)]), d')
         | (None, d') \<Rightarrow>
             ((result, if frozen then errors_join [callErr, Some ErrBudgetAccounting] else callErr), d')))"

definition run_reserved ::
  "budgeted \<Rightarrow> string \<Rightarrow> go_context \<Rightarrow> run_env \<Rightarrow> (go_context \<Rightarrow> completion \<times> gerr option) \<Rightarrow> string
     \<Rightarrow> budget_state content \<Rightarrow> run_result" where
  "run_reserved b model ctx env call key d =
     (case reservation_update (rn_claim env) (rn_claim_at env) key sending (rn_meanwhile env d) of
        (Some e, d1) \<Rightarrow>
          (case reservation_update (rn_release env) (rn_release_at env) key unsent d1 of
             (rel, d2) \<Rightarrow> ((no_completion, errors_join [Some e, rel]), d2, None))
      | (None, d1) \<Rightarrow>
          (case rn_ctx_claimed env of
             Some e \<Rightarrow>
               (case reservation_update (rn_release env) (rn_release_at env) key unsent d1 of
                  (rel, d2) \<Rightarrow> ((no_completion, errors_join [Some e, rel]), d2, None))
           | None \<Rightarrow>
               (let ctx' = ctx\<lparr>cx_attempt := Some key\<rparr>
                in case call ctx' of (result, callErr) \<Rightarrow>
                   (case run_settle b model env key result callErr (rn_during env d1) of
                      (answer, d2) \<Rightarrow> (answer, d2, Some (ctx', d1))))))"

definition budgeted_run ::
  "budgeted \<Rightarrow> go_context \<Rightarrow> int \<Rightarrow> run_env \<Rightarrow> (go_context \<Rightarrow> completion \<times> gerr option)
     \<Rightarrow> budget_state content \<Rightarrow> run_result" where
  "budgeted_run b ctx maxOutput env call d =
     (if cx_attempt ctx \<noteq> None \<and> cx_attempt ctx \<noteq> Some '''' then ((no_completion, Some ErrNestedBudget), d, None)
      else (case rn_ctx env of
        Some e \<Rightarrow> ((no_completion, Some e), d, None)
      | None \<Rightarrow>
      (case budgetPreflight (bgDelegate b) of
        Some e \<Rightarrow> ((no_completion, Some e), d, None)
      | None \<Rightarrow>
      (case (client_Name (bgDelegate b), client_Model (bgDelegate b)) of
        (Some name, Some model) \<Rightarrow>
          (case admit_amount b model maxOutput of
             Inl e \<Rightarrow> ((no_completion, Some e), d, None)
           | Inr (p, amount) \<Rightarrow>
             (case account_reserve (rn_id env) (rn_lease env) (rn_reserve env) (rn_reserve_at env)
                     name model p amount (Current ctx) d of
                (Inl e, d1) \<Rightarrow> ((no_completion, Some e), d1, None)
              | (Inr key, d1) \<Rightarrow> run_reserved b model ctx env call key d1))
      | _ \<Rightarrow> ((no_completion, Some (Panicked ''index out of range'')), d, None)))))"

subsection \<open>The calls of the wrapper\<close>

text \<open>What the wrapped client does: \<open>dv_stream\<close> and \<open>dv_chat_stream\<close> are absent when the client
  does not implement the interface.\<close>

record chat_request =
  rqMessages :: "message list"
  rqTools :: "tool_spec list"
  rqMaxOutput :: int

record driver =
  dv_complete :: "go_context \<Rightarrow> string \<Rightarrow> int \<Rightarrow> completion \<times> gerr option"
  dv_stream :: "(go_context \<Rightarrow> string \<Rightarrow> int \<Rightarrow> (string \<Rightarrow> gerr option) \<Rightarrow> completion \<times> gerr option) option"
  dv_inspect :: "(go_context \<Rightarrow> string \<Rightarrow> string \<Rightarrow> string \<Rightarrow> int \<Rightarrow> completion \<times> gerr option) option"
  dv_chat :: "(go_context \<Rightarrow> chat_request \<Rightarrow> completion \<times> gerr option) option"
  dv_chat_stream :: "(go_context \<Rightarrow> chat_request \<Rightarrow> (string \<Rightarrow> gerr option) \<Rightarrow> completion \<times> gerr option) option"

definition then_delta :: "(string \<Rightarrow> gerr option) \<Rightarrow> completion \<times> gerr option \<Rightarrow> completion \<times> gerr option" where
  "then_delta delta r = (case r of (c, None) \<Rightarrow> (c, delta (cText c)) | (c, Some e) \<Rightarrow> (c, Some e))"

definition refused :: "string \<Rightarrow> budget_state content \<Rightarrow> run_result" where
  "refused msg d = ((no_completion, Some (Msg msg)), d, None)"

definition Budgeted_Complete ::
  "budgeted \<Rightarrow> driver \<Rightarrow> go_context \<Rightarrow> string \<Rightarrow> int \<Rightarrow> run_env \<Rightarrow> budget_state content \<Rightarrow> run_result" where
  "Budgeted_Complete b dv ctx p n env d = budgeted_run b ctx n env (\<lambda>c. dv_complete dv c p n) d"

definition Budgeted_Stream ::
  "budgeted \<Rightarrow> driver \<Rightarrow> go_context \<Rightarrow> string \<Rightarrow> int \<Rightarrow> (string \<Rightarrow> gerr option) option \<Rightarrow> run_env
     \<Rightarrow> budget_state content \<Rightarrow> run_result" where
  "Budgeted_Stream b dv ctx p n delta env d =
     (case delta of
        None \<Rightarrow> refused ''nil stream callback'' d
      | Some dl \<Rightarrow> budgeted_run b ctx n env
          (\<lambda>c. case dv_stream dv of
                 Some s \<Rightarrow> s c p n dl
               | None \<Rightarrow> then_delta dl (dv_complete dv c p n)) d)"

definition Budgeted_InspectImage ::
  "budgeted \<Rightarrow> driver \<Rightarrow> go_context \<Rightarrow> string \<Rightarrow> string \<Rightarrow> string \<Rightarrow> int \<Rightarrow> run_env
     \<Rightarrow> budget_state content \<Rightarrow> run_result" where
  "Budgeted_InspectImage b dv ctx mime data p n env d =
     (if \<not> has_vision (physicalBudgetClient (bgDelegate b))
      then refused ''provider does not support vision'' d
      else (case dv_inspect dv of
              None \<Rightarrow> refused ''provider does not support vision'' d
            | Some inspect \<Rightarrow>
                if data = '''' \<or> mime = '''' then refused ''empty image input'' d
                else budgeted_run b ctx n env (\<lambda>c. inspect c mime data p n) d))"

text \<open>\<open>validateBudgetChat\<close>; the final \<open>json.Marshal\<close> of the request is the argument \<open>marshal\<close>.\<close>

fun schemas_error :: "(string \<Rightarrow> gerr + json) \<Rightarrow> (json \<Rightarrow> string) \<Rightarrow> tool_spec list \<Rightarrow> gerr option" where
  "schemas_error dec enc [] = None"
| "schemas_error dec enc (s # rest) =
     (case JSONSchema dec enc (spSchema s) of
        Inl e \<Rightarrow> Some e | Inr _ \<Rightarrow> schemas_error dec enc rest)"

definition validateBudgetChat ::
  "(string \<Rightarrow> gerr + json) \<Rightarrow> (json \<Rightarrow> string) \<Rightarrow> (chat_request \<Rightarrow> gerr option) \<Rightarrow> chat_request \<Rightarrow> gerr option" where
  "validateBudgetChat dec enc marshal req =
     (case ValidateConversation (rqMessages req) of
        Some e \<Rightarrow> Some e
      | None \<Rightarrow> (case schemas_error dec enc (rqTools req) of Some e \<Rightarrow> Some e | None \<Rightarrow> marshal req))"

definition Budgeted_Chat ::
  "budgeted \<Rightarrow> driver \<Rightarrow> (chat_request \<Rightarrow> gerr option) \<Rightarrow> go_context \<Rightarrow> chat_request \<Rightarrow> run_env
     \<Rightarrow> budget_state content \<Rightarrow> run_result" where
  "Budgeted_Chat b dv validate ctx req env d =
     (case dv_chat dv of
        Some chat \<Rightarrow>
          if \<not> HasNativeTools (bgDelegate b) then refused ''provider does not support native tools'' d
          else (case validate req of
                  Some e \<Rightarrow> ((no_completion, Some e), d, None)
                | None \<Rightarrow> budgeted_run b ctx (rqMaxOutput req) env (\<lambda>c. chat c req) d)
      | None \<Rightarrow> refused ''provider does not support native tools'' d)"

definition Budgeted_ChatStream ::
  "budgeted \<Rightarrow> driver \<Rightarrow> (chat_request \<Rightarrow> gerr option) \<Rightarrow> go_context \<Rightarrow> chat_request
     \<Rightarrow> (string \<Rightarrow> gerr option) option \<Rightarrow> run_env \<Rightarrow> budget_state content \<Rightarrow> run_result" where
  "Budgeted_ChatStream b dv validate ctx req delta env d =
     (case delta of
        None \<Rightarrow> refused ''nil stream callback'' d
      | Some dl \<Rightarrow>
        (case dv_chat dv of
           Some chat \<Rightarrow>
             if \<not> HasNativeTools (bgDelegate b) then refused ''provider does not support native tools'' d
             else (case validate req of
                     Some e \<Rightarrow> ((no_completion, Some e), d, None)
                   | None \<Rightarrow> budgeted_run b ctx (rqMaxOutput req) env
                       (\<lambda>c. case dv_chat_stream dv of
                              Some s \<Rightarrow> s c req dl
                            | None \<Rightarrow> then_delta dl (chat c req)) d)
         | None \<Rightarrow> refused ''provider does not support native tools'' d))"

subsection \<open>The transactions of a run\<close>

lemma reservation_update_done:
  assumes "reservation_update e now key f d = (None, d')"
  obtains s a a' where "decode budget_zero d = Inr s" "mget (attempts_of s) key = Some a" "f a = Inr a'"
    "d' = Holds (budget_put key (a'\<lparr>baUpdatedAt := now\<rparr>) s)"
    "budget_wf (budget_put key (a'\<lparr>baUpdatedAt := now\<rparr>) s)"
proof -
  obtain o1 where "file_update budget_zero e () (attempt_fn key f now) d = ((o1, None), d')"
    using assms by (auto simp: reservation_update_def split: prod.splits)
  then obtain v v' where v: "decode budget_zero d = Inr v" "attempt_fn key f now v = (o1, Inr v')" "d' = Holds v'"
    by (rule file_update_done)
  from v(2) show ?thesis by (rule attempt_fn_effect) (use v(1,3) that in blast)
qed

lemma reservation_update_fail:
  "reservation_update e now key f d = (Some x, d') \<Longrightarrow>
     d' = d \<or> (\<exists>s a a'. decode budget_zero d = Inr s \<and> mget (attempts_of s) key = Some a \<and> f a = Inr a'
        \<and> d' = Holds (budget_put key (a'\<lparr>baUpdatedAt := now\<rparr>) s) \<and> budget_wf (budget_put key (a'\<lparr>baUpdatedAt := now\<rparr>) s))"
  by (auto simp: reservation_update_def split: prod.splits elim!: file_update_cases attempt_fn_effect)

lemma account_reserve_done:
  assumes "account_reserve random os e now prov model p amount ident d = (Inr key, d')"
  obtains s a where "random = Inr key" "decode budget_zero d = Inr s" "d' = Holds (budget_put key a s)"
    "baState a = Reserved" "baReserved a = amount" "budget_wf s" "budgetID key"
    "reserve_fn key prov model p amount ident now s = ((), Inr (budget_put key a s))"
proof -
  from assms obtain o1 where r: "random = Inr key" "lease key os = None"
    "file_update budget_zero e () (reserve_fn key prov model p amount ident now) d = ((o1, None), d')"
    by (auto simp: account_reserve_def split: sum.splits option.splits prod.splits)
  from r(3) show ?thesis
  proof (rule file_update_done)
    fix v v'
    assume v: "decode budget_zero d = Inr v" "reserve_fn key prov model p amount ident now v = (o1, Inr v')"
      "d' = Holds v'"
    note eff = reserve_fn_effect [OF v(2)]
    from r(2) have "budgetID key" by (simp add: lease_def split: if_splits)
    with eff v r(1) show ?thesis by (auto intro: that)
  qed
qed

lemma budgeted_run_called:
  assumes "budgeted_run b ctx n env call d = (ans, d2, Some (ctx', d1))"
  obtains name model p amount key dr result callErr where
    "client_Model (bgDelegate b) = Some model" "admit_amount b model n = Inr (p, amount)"
    "account_reserve (rn_id env) (rn_lease env) (rn_reserve env) (rn_reserve_at env)
       name model p amount (Current ctx) d = (Inr key, dr)"
    "reservation_update (rn_claim env) (rn_claim_at env) key sending (rn_meanwhile env dr) = (None, d1)"
    "ctx' = ctx\<lparr>cx_attempt := Some key\<rparr>" "call ctx' = (result, callErr)"
    "run_settle b model env key result callErr (rn_during env d1) = (ans, d2)"
  using assms
  by (auto simp: budgeted_run_def run_reserved_def Let_def split: if_splits option.splits sum.splits prod.splits)

text \<open>What other processes do to the account between the transactions of a run.\<close>

definition account_traffic :: "(budget_state content \<Rightarrow> budget_state content) \<Rightarrow> bool" where
  "account_traffic f \<longleftrightarrow> (\<forall>v. \<exists>v'. f (Holds v) = Holds v' \<and> budget_step\<^sup>*\<^sup>* v v')"

lemma account_trafficE:
  assumes "account_traffic f"
  obtains v' where "f (Holds v) = Holds v'" "budget_step\<^sup>*\<^sup>* v v'"
  using assms by (auto simp: account_traffic_def)

subsection \<open>Properties\<close>

text \<open>C6. No request without a durable claim: whenever the provider is invoked, with any traffic of
  other processes on the account, the file at that moment holds the attempt named in the
  context of the call, in state sending, with the admitted amount reserved.\<close>

theorem call_is_claimed:
  assumes "budgeted_run b ctx n env call d = (ans, d2, Some (ctx', d1))"
    and "account_traffic (rn_meanwhile env)"
  shows "\<exists>key s a model p amount. cx_attempt ctx' = Some key \<and> client_Model (bgDelegate b) = Some model
     \<and> admit_amount b model n = Inr (p, amount) \<and> d1 = Holds s
     \<and> mget (attempts_of s) key = Some a \<and> baState a = Sending \<and> baReserved a = amount"
proof -
  obtain name model p amount key dr result callErr where r:
    "client_Model (bgDelegate b) = Some model" "admit_amount b model n = Inr (p, amount)"
    "account_reserve (rn_id env) (rn_lease env) (rn_reserve env) (rn_reserve_at env)
       name model p amount (Current ctx) d = (Inr key, dr)"
    "reservation_update (rn_claim env) (rn_claim_at env) key sending (rn_meanwhile env dr) = (None, d1)"
    "ctx' = ctx\<lparr>cx_attempt := Some key\<rparr>"
    by (rule budgeted_run_called [OF assms(1)]) blast
  obtain s0 a0 where s0: "dr = Holds (budget_put key a0 s0)" "baReserved a0 = amount"
    by (rule account_reserve_done [OF r(3)]) blast
  obtain v where v: "rn_meanwhile env dr = Holds v" "budget_step\<^sup>*\<^sup>* (budget_put key a0 s0) v"
    using account_trafficE [OF assms(2)] s0(1) by blast
  obtain a where a: "mget (attempts_of v) key = Some a" "baReserved a = amount"
    using mallD [OF budget_run_remembers [OF v(2), unfolded remembers_def], of key a0] s0(2)
    by (auto simp: keeps_def)
  obtain s a1 a2 where c: "decode budget_zero (rn_meanwhile env dr) = Inr s"
    "mget (attempts_of s) key = Some a1" "sending a1 = Inr a2"
    "d1 = Holds (budget_put key (a2\<lparr>baUpdatedAt := rn_claim_at env\<rparr>) s)"
    by (rule reservation_update_done [OF r(4)]) blast
  from c(1) v(1) have "s = v" by simp
  with a c(2,3) have "baState a2 = Sending" "baReserved a2 = amount" by (auto simp: sending_def split: if_splits)
  with r(1,2,5) c(4) show ?thesis by auto
qed

definition demo_client :: client where
  "demo_client = Injected \<lparr>ijName = ''p'', ijModel = ''m'', ijPolicy = Some (100, 40, ''cl100k_base''),
     ijNativeTools = True, ijVision = False\<rparr>"

definition demo_budgeted :: budgeted where
  "demo_budgeted = \<lparr>bgDelegate = demo_client, bgPrices = [(''m'', \<lparr>pInput = 20000, pOutput = 30000, pCacheRead = 10000, pCacheWrite = 25000\<rparr>)]\<rparr>"

definition demo_run_env :: run_env where
  "demo_run_env = \<lparr>rn_ctx = None, rn_id = Inr demo_key, rn_lease = None, rn_reserve = io_ok, rn_reserve_at = 1,
     rn_meanwhile = id, rn_claim = io_ok, rn_claim_at = 2, rn_ctx_claimed = None, rn_release = io_ok,
     rn_release_at = 3, rn_during = id, rn_settle = io_ok, rn_settle_at = 4\<rparr>"

definition demo_answer :: "go_context \<Rightarrow> completion \<times> gerr option" where
  "demo_answer ctx = (no_completion\<lparr>cText := ''hi'', cUsage := \<lparr>InputTokens = 50, OutputTokens = 40,
     CacheReadTokens = 0, CacheWriteTokens = 0, Complete = True\<rparr>\<rparr>, None)"

lemmas demo_run_eval = budgeted_run_def demo_budgeted_def demo_client_def budgetPreflight_def admit_amount_def
  Budgeted_ContextPolicy_def cost_def price_valid_def worst_price_def full_usage_def token_total_def ceil_quo_def
  is_int64_def MinInt64_def MaxInt64_def account_reserve_def lease_def demo_run_env_def run_reserved_def
  reservation_update_def reserve_fn_def budgetSnapshot_def demo_open_def budget_schema_def snap_add_def
  add64_def wrap64_def attempt_fn_def sending_def settle_def run_settle_def bill_def demo_answer_def
  no_completion_def background_def mput_def Current_def Let_def

lemma demo_run:
  "\<exists>ans d2 ctx' d1. budgeted_run demo_budgeted background 40 demo_run_env demo_answer (Holds demo_open)
     = (ans, d2, Some (ctx', d1)) \<and> snd ans = None"
  by (simp add: demo_run_eval)

lemma call_is_claimed_witness:
  "\<exists>ans d2 ctx' d1 key s a. budgeted_run demo_budgeted background 40 demo_run_env demo_answer (Holds demo_open)
     = (ans, d2, Some (ctx', d1)) \<and> d1 = Holds s \<and> mget (attempts_of s) key = Some a \<and> baState a = Sending"
proof -
  obtain ans d2 ctx' d1 where r: "budgeted_run demo_budgeted background 40 demo_run_env demo_answer (Holds demo_open)
     = (ans, d2, Some (ctx', d1))" using demo_run by blast
  have "account_traffic (rn_meanwhile demo_run_env)"
    by (auto simp: account_traffic_def demo_run_env_def)
  from call_is_claimed [OF r this] r show ?thesis by blast
qed

text \<open>The reservation covers the bill: for a wrapped client, when the model that was asked
  answers with complete usage within the window and the output limit, the settlement uses the
  price of the reservation and its cost is at most the amount reserved.\<close>

theorem reservation_covers_bill:
  assumes "WrapBudget delegate has_account prices = Inr b" and "client_Model (bgDelegate b) = Some model"
    and "admit_amount b model n = Inr (p, amount)" and "Budgeted_ContextPolicy b = (window, maxc, tok)"
    and "cActualModel result = '''' \<or> cActualModel result = model" and "Complete (cUsage result)"
    and "0 \<le> InputTokens (cUsage result)" and "0 \<le> OutputTokens (cUsage result)"
    and "0 \<le> CacheReadTokens (cUsage result)" and "0 \<le> CacheWriteTokens (cUsage result)"
    and "InputTokens (cUsage result) + CacheReadTokens (cUsage result) + CacheWriteTokens (cUsage result)
           \<le> window - n" and "OutputTokens (cUsage result) \<le> n"
  shows "\<exists>c. bill (bgPrices b) model result = (model, Some (p, c), False) \<and> 0 \<le> c \<and> c \<le> amount"
proof -
  let ?u = "cUsage result"
  from WrapBudget_Inr [OF assms(1)] assms(2) obtain p' where
    p': "mall (\<lambda>k p. price_valid p) (bgPrices b)" "mget (bgPrices b) model = Some p'" by auto
  then have p: "p = p'" and amount: "cost (worst_price p) (full_usage window n) = Inr amount"
    using assms(3,4) by (auto simp: admit_amount_def Let_def split: if_splits sum.splits)
  have valid: "price_valid p" using p' p by (auto dest: mallD)
  have am: "amount = ceil_quo (token_total (worst_price p) (full_usage window n)) 1000000" "is_int64 amount"
    using amount unfolding cost_Inr_iff by blast+
  have "token_total p ?u \<le> token_total (worst_price p) (full_usage ((window - n) + n) n)"
    by (rule worst_total_bound [OF valid assms(7-12)])
  then have le: "ceil_quo (token_total p ?u) 1000000 \<le> amount"
    unfolding am(1) by (intro ceil_quo_mono) simp_all
  have "0 \<le> ceil_quo (token_total p ?u) 1000000"
    using token_total_nonneg [OF valid assms(7-10)] by (intro ceil_quo_nonneg) simp_all
  then have "cost p ?u = Inr (ceil_quo (token_total p ?u) 1000000)"
    using valid assms(6-10) le am(2) by (simp add: cost_Inr_iff is_int64_def MinInt64_def)
  then show ?thesis
    using assms(5,6) p' p le \<open>0 \<le> ceil_quo (token_total p ?u) 1000000\<close>
    by (auto simp: bill_def Let_def)
qed

lemma reservation_covers_bill_witness:
  "\<exists>c. bill (bgPrices demo_budgeted) ''m'' (fst (demo_answer background))
     = (''m'', Some (\<lparr>pInput = 20000, pOutput = 30000, pCacheRead = 10000, pCacheWrite = 25000\<rparr>, c), False) \<and> c \<le> 3"
proof -
  have w: "WrapBudget (Some demo_client) True (bgPrices demo_budgeted) = Inr demo_budgeted"
    by (simp add: WrapBudget_def demo_client_def demo_budgeted_def price_valid_def mput_def)
  have a: "admit_amount demo_budgeted ''m'' 40
      = Inr (\<lparr>pInput = 20000, pOutput = 30000, pCacheRead = 10000, pCacheWrite = 25000\<rparr>, 3)"
    by (simp add: demo_run_eval)
  show ?thesis
    using reservation_covers_bill [OF w _ a, of 100 40 "''cl100k_base''" "fst (demo_answer background)"]
    by (auto simp: demo_budgeted_def demo_client_def Budgeted_ContextPolicy_def demo_answer_def no_completion_def)
qed

text \<open>What the provider answered is on record: when the provider was invoked and the answer
  does not report a persistence failure, the file holds the attempt with the usage and the model
  of the answer; it is settled with the computed cost when the usage is complete and priced, and
  otherwise keeps its reservation as unknown; a model without a price or a failed computation
  also freezes the account: the caller gets the accounting error and every later reservation is
  refused.\<close>

theorem billing_on_record:
  assumes "budgeted_run b ctx n env call d = ((result, err), d2, Some (ctx', d1))"
    and "\<forall>e. err = Some e \<longrightarrow> \<not> errors_is e ErrBudgetState"
  shows "\<exists>key model actual priced frozen s a. cx_attempt ctx' = Some key
     \<and> client_Model (bgDelegate b) = Some model \<and> result = fst (call ctx')
     \<and> bill (bgPrices b) model result = (actual, priced, frozen)
     \<and> d2 = Holds s \<and> mget (attempts_of s) key = Some a
     \<and> baUsage a = cUsage result \<and> baActualModel a = actual
     \<and> (case priced of
          Some (price, c) \<Rightarrow> baState a = Settled \<and> baCost a = c \<and> baPrice a = price
        | None \<Rightarrow> baState a = UnknownCost \<and> baNeedsReconciliation a = frozen)
     \<and> (frozen \<longrightarrow> (\<exists>e. err = Some e \<and> errors_is e ErrBudgetAccounting)
          \<and> reserve_fn key' prov m p amount ident now s = ((), Inl ErrBudgetAccounting))"
proof -
  obtain name model pr am0 key dr res callErr where r:
    "client_Model (bgDelegate b) = Some model" "ctx' = ctx\<lparr>cx_attempt := Some key\<rparr>"
    "call ctx' = (res, callErr)" "run_settle b model env key res callErr (rn_during env d1) = ((result, err), d2)"
    by (rule budgeted_run_called [OF assms(1)]) blast
  obtain actual priced frozen where bill: "bill (bgPrices b) model res = (actual, priced, frozen)"
    by (cases "bill (bgPrices b) model res")
  have res: "result = res"
    using r(4) bill by (auto simp: run_settle_def split: option.splits prod.splits if_splits)
  have upd: "reservation_update (rn_settle env) (rn_settle_at env) key
       (settle actual (cUsage res) priced frozen) (rn_during env d1) = (None, d2)
     \<and> err = (if frozen then errors_join [callErr, Some ErrBudgetAccounting] else callErr)"
  proof (cases "reservation_update (rn_settle env) (rn_settle_at env) key
       (settle actual (cUsage res) priced frozen) (rn_during env d1)")
    case (Pair x d')
    show ?thesis
    proof (cases x)
      case None
      with Pair r(4) bill show ?thesis by (auto simp: run_settle_def)
    next
      case (Some e)
      let ?w = "Wrapf ''model cost budget persistence failed: %s'' [Error e] ErrBudgetState"
      have "err = errors_join [callErr, Some ?w]"
        using Pair Some r(4) bill by (auto simp: run_settle_def)
      moreover obtain j where j: "errors_join [callErr, Some ?w] = Some j"
        by (cases "errors_join [callErr, Some ?w]") auto
      moreover have "errors_is j ErrBudgetState"
        by (rule errors_is_join [OF j, of ?w]) auto
      ultimately show ?thesis using assms(2) by simp
    qed
  qed
  then have upd0: "reservation_update (rn_settle env) (rn_settle_at env) key
       (settle actual (cUsage res) priced frozen) (rn_during env d1) = (None, d2)" by blast
  obtain s a a' where s: "settle actual (cUsage res) priced frozen a = Inr a'"
    "d2 = Holds (budget_put key (a'\<lparr>baUpdatedAt := rn_settle_at env\<rparr>) s)"
    "budget_wf (budget_put key (a'\<lparr>baUpdatedAt := rn_settle_at env\<rparr>) s)"
    by (rule reservation_update_done [OF upd0]) blast
  let ?a = "a'\<lparr>baUpdatedAt := rn_settle_at env\<rparr>" and ?s = "budget_put key (a'\<lparr>baUpdatedAt := rn_settle_at env\<rparr>) s"
  have unpriced: "frozen \<Longrightarrow> priced = None"
    using bill by (auto simp: bill_def Let_def split: option.splits if_splits sum.splits)
  have at: "mget (attempts_of ?s) key = Some ?a" by simp
  have "reserve_fn key' prov m p amount ident now ?s = ((), Inl ErrBudgetAccounting)" if frozen
  proof (rule reserve_fn_frozen [OF s(3)])
    have "baNeedsReconciliation ?a" using that unpriced s(1) by (auto simp: settle_def Let_def split: if_splits)
    with mget_in_set [OF at] show "snFrozen (view_spec ?s)"
      unfolding view_spec_simps by blast
  qed
  moreover have "\<exists>e. err = Some e \<and> errors_is e ErrBudgetAccounting" if frozen
    using upd that errors_is_join [of "[callErr, Some ErrBudgetAccounting]" _ ErrBudgetAccounting ErrBudgetAccounting]
    by (cases "errors_join [callErr, Some ErrBudgetAccounting]") auto
  moreover have "baUsage ?a = cUsage result \<and> baActualModel ?a = actual \<and> (case priced of
          Some (price, c) \<Rightarrow> baState ?a = Settled \<and> baCost ?a = c \<and> baPrice ?a = price
        | None \<Rightarrow> baState ?a = UnknownCost \<and> baNeedsReconciliation ?a = frozen)"
    using s(1) unfolding res by (auto simp: settle_def Let_def split: if_splits option.splits)
  ultimately show ?thesis using r bill s(2) at res by (intro exI [of _ key] exI [of _ model] exI [of _ actual]
      exI [of _ priced] exI [of _ frozen] exI [of _ ?s] exI [of _ ?a]) simp
qed

lemma billing_on_record_witness:
  "\<exists>s a. fst (snd (budgeted_run demo_budgeted background 40 demo_run_env demo_answer (Holds demo_open))) = Holds s
     \<and> mget (attempts_of s) demo_key = Some a \<and> baState a = Settled \<and> baCost a = 3"
proof -
  obtain ans d2 ctx' d1 where r: "budgeted_run demo_budgeted background 40 demo_run_env demo_answer (Holds demo_open)
     = (ans, d2, Some (ctx', d1))" "snd ans = None" using demo_run by blast
  then obtain result where r': "budgeted_run demo_budgeted background 40 demo_run_env demo_answer (Holds demo_open)
     = ((result, None), d2, Some (ctx', d1))" by (cases ans) auto
  have k: "cx_attempt ctx' = Some demo_key" using r' by (auto simp: demo_run_eval)
  have res: "result = fst (demo_answer ctx')" using r' by (auto simp: demo_run_eval)
  have "bill (bgPrices demo_budgeted) ''m'' result
     = (''m'', Some (\<lparr>pInput = 20000, pOutput = 30000, pCacheRead = 10000, pCacheWrite = 25000\<rparr>, 3), False)"
    unfolding res by (simp add: demo_run_eval)
  with billing_on_record [OF r'] r' k show ?thesis
    by (fastforce simp: demo_budgeted_def demo_client_def)
qed

subsection \<open>A run that never reaches the provider\<close>

lemma unsent_done:
  assumes "budget_inv w" "mget (attempts_of w) key = Some x" "baState x = Reserved \<or> baState x = Sending"
  shows "\<exists>y. baState y = Released \<and> reservation_update io_ok now key unsent (Holds w) = (None, Holds (budget_put key y w))"
proof -
  define y where "y = x\<lparr>baState := Released, baReason := ''sender did not invoke provider'', baUpdatedAt := now\<rparr>"
  have inv: "wf_map (attempts_of w)" "budget_wf w" using assms(1) by (auto simp: budget_inv_def)
  have v: "valid_entry key x" using budget_wf_entry [OF inv(2) assms(2)] .
  have "budget_wf (budget_put key y w)"
  proof (rule budget_wf_put [OF inv(2,1)])
    show "valid_entry key y" using v by (simp add: valid_entry_def y_def)
    have "spent_of y = 0" "held_of y = 0" by (simp_all add: spent_of_def held_of_def y_def)
    moreover have "0 \<le> spent_of x" "0 \<le> held_of x" using v by simp_all
    moreover have "msum spent_of (attempts_of w) + msum held_of (attempts_of w) \<le> MaxInt64"
      using inv(2) by (auto simp: budget_wf_def attempts_of_def)
    ultimately show "msum spent_of (mput key y (attempts_of w)) + msum held_of (mput key y (attempts_of w)) \<le> MaxInt64"
      using inv(1) assms(2) by (simp add: msum_mput)
  qed
  then have "attempt_fn key unsent now w = ((), Inr (budget_put key y w))"
    using inv(2) assms(2,3) by (auto simp: attempt_fn_def unsent_def budgetSnapshot_wf y_def Let_def
        budget_put_def [symmetric])
  then show ?thesis by (intro exI [of _ y]) (simp add: reservation_update_def y_def)
qed

lemma account_reserve_refused:
  "account_reserve random os e now prov model p amount ident d = (Inl x, d') \<Longrightarrow>
   (\<And>y. io_replace e \<noteq> Unsynced y) \<Longrightarrow> d' = d"
  by (auto simp: account_reserve_def file_update_def transaction_def
      split: sum.splits option.splits prod.splits replaced.splits if_splits)

text \<open>Traffic that keeps the account well-formed and leaves the attempt of this run alone: the
  attempt's lease is held by its sender.\<close>

definition leased_traffic :: "string \<Rightarrow> (budget_state content \<Rightarrow> budget_state content) \<Rightarrow> bool" where
  "leased_traffic key f \<longleftrightarrow> (\<forall>v. \<exists>v'. f (Holds v) = Holds v' \<and> budget_step\<^sup>*\<^sup>* v v'
     \<and> mget (attempts_of v') key = mget (attempts_of v) key)"

definition not_held :: "string \<Rightarrow> budget_state \<Rightarrow> bool" where
  "not_held key s \<longleftrightarrow> (case mget (attempts_of s) key of None \<Rightarrow> True | Some a \<Rightarrow> baState a = Released)"

lemma run_reserved_refused:
  assumes "run_reserved b model ctx env call key (Holds s0) = (ans, d2, None)"
    and "budget_inv s0" "mget (attempts_of s0) key = Some a0" "baState a0 = Reserved"
    and "leased_traffic key (rn_meanwhile env)" "rn_release env = io_ok"
  shows "\<exists>s2. d2 = Holds s2 \<and> not_held key s2"
proof -
  obtain v where v: "rn_meanwhile env (Holds s0) = Holds v" "budget_step\<^sup>*\<^sup>* s0 v"
    "mget (attempts_of v) key = Some a0"
    using assms(5,3) unfolding leased_traffic_def by metis
  have inv: "budget_inv v" using budget_run.run_inv [OF v(2)] assms(2) by blast
  let ?claim = "reservation_update (rn_claim env) (rn_claim_at env) key sending (Holds v)"
  have claimed: "\<exists>w x. snd ?claim = Holds w \<and> budget_inv w \<and> mget (attempts_of w) key = Some x
     \<and> (baState x = Reserved \<or> baState x = Sending)"
  proof (cases ?claim)
    case (Pair e d1)
    have sent: "\<exists>w x. d1 = Holds w \<and> budget_inv w \<and> mget (attempts_of w) key = Some x
       \<and> (baState x = Reserved \<or> baState x = Sending)"
      if "mget (attempts_of v) key = Some a" "sending a = Inr a'"
        "d1 = Holds (budget_put key (a'\<lparr>baUpdatedAt := rn_claim_at env\<rparr>) v)"
        "budget_wf (budget_put key (a'\<lparr>baUpdatedAt := rn_claim_at env\<rparr>) v)" for a a'
    proof -
      have "moves key a (a'\<lparr>baUpdatedAt := rn_claim_at env\<rparr>)" using that(2) by (rule sending_moves)
      then have "charge (a'\<lparr>baUpdatedAt := rn_claim_at env\<rparr>) \<le> charge a"
        using inv budget_wf_entry [OF _ that(1)] by (auto intro: moves_charge simp: budget_inv_def)
      then have "budget_inv (budget_put key (a'\<lparr>baUpdatedAt := rn_claim_at env\<rparr>) v)"
        using inv that(1,4) by (auto simp: budget_inv_def msum_mput)
      with that(2,3) show ?thesis by (auto simp: sending_def split: if_splits)
    qed
    show ?thesis
    proof (cases e)
      case None
      from reservation_update_done [OF Pair [unfolded None]] obtain s a a' where
        "decode budget_zero (Holds v) = Inr s" "mget (attempts_of s) key = Some a" "sending a = Inr a'"
        "d1 = Holds (budget_put key (a'\<lparr>baUpdatedAt := rn_claim_at env\<rparr>) s)"
        "budget_wf (budget_put key (a'\<lparr>baUpdatedAt := rn_claim_at env\<rparr>) s)" by blast
      with sent Pair show ?thesis by simp
    next
      case (Some x)
      from reservation_update_fail [OF Pair [unfolded Some]] sent Pair inv v(3) assms(4) show ?thesis
        by auto
    qed
  qed
  then obtain w x where w: "snd ?claim = Holds w" "budget_inv w" "mget (attempts_of w) key = Some x"
    "baState x = Reserved \<or> baState x = Sending" by blast
  obtain y where y: "baState y = Released"
    "reservation_update io_ok (rn_release_at env) key unsent (Holds w) = (None, Holds (budget_put key y w))"
    using unsent_done [OF w(2-4)] by blast
  have "d2 = Holds (budget_put key y w)"
    using assms(1) w(1) y(2)
    by (auto simp: run_reserved_def v(1) assms(6) Let_def split: prod.splits option.splits)
  with y(1) show ?thesis by (intro exI [of _ "budget_put key y w"]) (simp add: not_held_def)
qed

text \<open>A run that does not reach the provider leaves nothing held: with a fresh identifier,
  traffic that respects the lease, a reservation write that is not in doubt and a working
  cleanup write, every refusal (nested call, cancelled context, unusable profile, bad limit,
  exhausted or frozen account, failed or unsynced claim, cancellation after the claim) ends
  with the attempt absent or released.\<close>

theorem refused_run_holds_nothing:
  assumes "budgeted_run b ctx n env call (Holds s) = (ans, d2, None)" and "budget_inv s"
    and "rn_id env = Inr key" and "mget (attempts_of s) key = None"
    and "leased_traffic key (rn_meanwhile env)" and "rn_release env = io_ok"
    and "\<And>y. io_replace (rn_reserve env) \<noteq> Unsynced y"
  shows "\<exists>s2. d2 = Holds s2 \<and> not_held key s2"
proof (cases "\<exists>model p amount name dr. account_reserve (rn_id env) (rn_lease env) (rn_reserve env)
      (rn_reserve_at env) name model p amount (Current ctx) (Holds s) = (Inr key, dr)
      \<and> run_reserved b model ctx env call key dr = (ans, d2, None)")
  case False
  have fresh: "account_reserve (rn_id env) (rn_lease env) (rn_reserve env)
      (rn_reserve_at env) name model p amount (Current ctx) (Holds s) = (Inr key', dr) \<Longrightarrow> key' = key"
    for name model p amount key' dr
    using assms(3) account_reserve_done by (metis sum.inject(2))
  note refusal = account_reserve_refused [OF _ assms(7), of "rn_id env" "rn_lease env"]
  from assms(1) False have "d2 = Holds s"
    unfolding budgeted_run_def
    by (auto split: if_splits option.splits sum.splits prod.splits dest: refusal) (use fresh in blast)+
  with assms(4) show ?thesis by (simp add: not_held_def)
next
  case True
  then obtain model p amount name dr where r:
    "account_reserve (rn_id env) (rn_lease env) (rn_reserve env) (rn_reserve_at env) name model p amount
       (Current ctx) (Holds s) = (Inr key, dr)"
    "run_reserved b model ctx env call key dr = (ans, d2, None)" by blast
  obtain a where a: "dr = Holds (budget_put key a s)" "baState a = Reserved"
    "budgetID key" "reserve_fn key name model p amount (Current ctx) (rn_reserve_at env) s
       = ((), Inr (budget_put key a s))"
    by (rule account_reserve_done [OF r(1)]) auto
  have "budget_step s (budget_put key a s)" by (rule budget_step.reserve [OF a(4,3) assms(4)])
  then have "budget_inv (budget_put key a s)" using budget_step_inv assms(2) by blast
  from run_reserved_refused [OF r(2) [unfolded a(1)] this _ a(2) assms(5,6)] show ?thesis by simp
qed

lemma refused_run_holds_nothing_witness:
  "\<exists>ans s2. budgeted_run demo_budgeted background 40 (demo_run_env\<lparr>rn_ctx_claimed := Some Canceled\<rparr>) demo_answer
      (Holds demo_open) = (ans, Holds s2, None) \<and> not_held demo_key s2"
proof -
  let ?env = "demo_run_env\<lparr>rn_ctx_claimed := Some Canceled\<rparr>"
  have "\<exists>ans d2. budgeted_run demo_budgeted background 40 ?env demo_answer (Holds demo_open) = (ans, d2, None)"
    by (simp add: demo_run_eval unsent_def)
  then obtain ans d2 where r: "budgeted_run demo_budgeted background 40 ?env demo_answer (Holds demo_open) = (ans, d2, None)"
    by blast
  have "budget_inv demo_open" using open_fn_inv [OF demo_open_fn] by (simp add: MaxInt64_def)
  moreover have "rn_id ?env = Inr demo_key" "mget (attempts_of demo_open) demo_key = None"
    "leased_traffic demo_key (rn_meanwhile ?env)" "rn_release ?env = io_ok"
    "\<And>y. io_replace (rn_reserve ?env) \<noteq> Unsynced y"
    by (auto simp: demo_run_env_def demo_open_def attempts_of_def leased_traffic_def io_ok_def)
  ultimately have "\<exists>s2. d2 = Holds s2 \<and> not_held demo_key s2" by (rule refused_run_holds_nothing [OF r])
  with r show ?thesis by blast
qed

end
