(* ===== verification/Approvals.thy ===== *)
theory Approvals
  imports Durable Model
begin

section \<open>Permission policy and durable approvals\<close>

text \<open>
  \<open>internal/permission\<close>: the policy check of a single call, and the approval store, a durable
  file of records that freeze an action, collect the decision of its principal and hand out at
  most one claim. Each operation is one transaction. The canonical digest of an action (JSON and
  SHA-256), the record identifier and the JSON copy that freezes the action are arguments
  (\<open>approval_lib\<close>); so are the clock and the random claim token.
\<close>

subsection \<open>The policy\<close>

record permission_decision =
  pdAllowed :: bool
  pdReason :: string
  pdEvent :: string

text \<open>The answer of the approver is \<^const>\<open>None\<close> when there is none.\<close>

definition Check :: "string \<Rightarrow> bool \<Rightarrow> bool option \<Rightarrow> permission_decision" where
  "Check policy risky approver =
     (if \<not> risky then \<lparr>pdAllowed = True, pdReason = ''read-only tool'', pdEvent = ''''\<rparr>
      else if policy = ''auto'' then \<lparr>pdAllowed = True, pdReason = ''approval policy auto'', pdEvent = ''''\<rparr>
      else if policy = ''never'' then
        \<lparr>pdAllowed = False, pdReason = ''approval policy never'', pdEvent = ''approval_denied''\<rparr>
      else if policy = ''ask'' then
        (if approver = Some True then \<lparr>pdAllowed = True, pdReason = ''user approved'', pdEvent = ''''\<rparr>
         else \<lparr>pdAllowed = False, pdReason = ''user denied or approval unavailable'', pdEvent = ''approval_denied''\<rparr>)
      else \<lparr>pdAllowed = False, pdReason = ''invalid approval policy'', pdEvent = ''approval_denied''\<rparr>)"

text \<open>The terminal approver: the answer line, lower-cased and trimmed.\<close>

definition TerminalApprove :: "string \<Rightarrow> bool" where
  "TerminalApprove line = (let l = ToLower (TrimSpace line) in l = ''y'' \<or> l = ''yes'')"

subsection \<open>Records\<close>

datatype approval_status = Pending | Approved | Denied | Expired | Claimed | Completed | Failed | Unknown

primrec status_rank :: "approval_status \<Rightarrow> nat" where
  "status_rank Pending = 0"
| "status_rank Approved = 1"
| "status_rank Denied = 2"
| "status_rank Expired = 3"
| "status_rank Claimed = 4"
| "status_rank Completed = 5"
| "status_rank Failed = 6"
| "status_rank Unknown = 7"

lemma status_rank_inj: "status_rank a = status_rank b \<Longrightarrow> a = b"
  by (cases a; cases b) simp_all

text \<open>The statuses in the order in which a record can go through them.\<close>

instantiation approval_status :: linorder
begin

definition less_eq_approval_status :: "approval_status \<Rightarrow> approval_status \<Rightarrow> bool" where
  "a \<le> b \<longleftrightarrow> status_rank a \<le> status_rank b"

definition less_approval_status :: "approval_status \<Rightarrow> approval_status \<Rightarrow> bool" where
  "a < b \<longleftrightarrow> status_rank a < status_rank b"

instance
  by standard (auto simp: less_eq_approval_status_def less_approval_status_def dest: status_rank_inj)

end

record approval_action =
  acPrincipal :: string
  acSession :: string
  acTurn :: string
  acCallID :: string
  acTool :: string
  acArgs :: "json gomap"
  acDefinitionDigest :: string
  acPreconditions :: "string gomap"

definition no_action :: approval_action where
  "no_action = \<lparr>acPrincipal = '''', acSession = '''', acTurn = '''', acCallID = '''', acTool = '''',
     acArgs = [], acDefinitionDigest = '''', acPreconditions = []\<rparr>"

record approval_record =
  arID :: string
  arDigest :: string
  arStatus :: approval_status
  arAction :: approval_action
  arCreatedAt :: instant
  arExpiresAt :: instant
  arUpdatedAt :: instant
  arClaimToken :: string
  arReceipt :: string

definition no_record :: approval_record where
  "no_record = \<lparr>arID = '''', arDigest = '''', arStatus = Pending, arAction = no_action, arCreatedAt = 0,
     arExpiresAt = 0, arUpdatedAt = 0, arClaimToken = '''', arReceipt = ''''\<rparr>"

text \<open>\<open>ApprovalState\<close>: the nil map and the empty map are the same list.\<close>

type_synonym approval_state = "approval_record gomap"

record approval_claim =
  clRecord :: approval_record
  clToken :: string

definition no_claim :: approval_claim where
  "no_claim = \<lparr>clRecord = no_record, clToken = ''''\<rparr>"

record approval_lib =
  alDigest :: "approval_action \<Rightarrow> gerr + string"
  alID :: "approval_action \<Rightarrow> string"
  alFreeze :: "approval_action \<Rightarrow> gerr + approval_action"

subsection \<open>Operations\<close>

definition create_fn ::
  "string \<Rightarrow> string \<Rightarrow> approval_action \<Rightarrow> duration \<Rightarrow> instant \<Rightarrow> (approval_state, approval_record) callback" where
  "create_fn k digest frozen ttl now s =
     (case mget s k of
        Some old \<Rightarrow> if arDigest old \<noteq> digest then (no_record, Inl ErrApprovalChanged) else (old, Inr s)
      | None \<Rightarrow>
         (let r = \<lparr>arID = k, arDigest = digest, arStatus = Pending, arAction = frozen, arCreatedAt = now,
                   arExpiresAt = now + ttl, arUpdatedAt = now, arClaimToken = '''', arReceipt = ''''\<rparr>
          in (r, Inr (mput k r s))))"

definition Create ::
  "approval_lib \<Rightarrow> io \<Rightarrow> instant \<Rightarrow> approval_action \<Rightarrow> duration \<Rightarrow> approval_state content
     \<Rightarrow> (approval_record \<times> gerr option) \<times> approval_state content" where
  "Create lib e now action ttl d =
     (if acPrincipal action = '''' \<or> acSession action = '''' \<or> acTurn action = '''' \<or> acCallID action = ''''
         \<or> acTool action = ''''
      then ((no_record, Some (Msg ''complete approval identity required'')), d)
      else (let ttl' = (if ttl \<le> 0 then 10 * Minute else ttl) in
        (case alDigest lib action of
           Inl x \<Rightarrow> ((no_record, Some x), d)
         | Inr digest \<Rightarrow>
           (case alFreeze lib action of
              Inl x \<Rightarrow> ((no_record, Some x), d)
            | Inr frozen \<Rightarrow> file_update [] e no_record (create_fn (alID lib action) digest frozen ttl' now) d))))"

definition decide_fn ::
  "string \<Rightarrow> string \<Rightarrow> bool \<Rightarrow> instant \<Rightarrow> (approval_state, approval_record \<times> gerr option) callback" where
  "decide_fn k who allow now s =
     (case mget s k of
        None \<Rightarrow> ((no_record, None), Inl ErrApprovalState)
      | Some r \<Rightarrow>
        if acPrincipal (arAction r) \<noteq> who then ((no_record, None), Inl ErrApprovalIdentity)
        else if arStatus r = Pending \<and> \<not> now < arExpiresAt r
        then (let r' = r\<lparr>arStatus := Expired, arUpdatedAt := now\<rparr>
              in ((r', Some ErrApprovalExpired), Inr (mput k r' s)))
        else (let wanted = (if allow then Approved else Denied) in
          if arStatus r = wanted then ((r, None), Inr s)
          else if arStatus r \<noteq> Pending \<and> \<not> (arStatus r = Approved \<and> \<not> allow)
          then ((no_record, None), Inl ErrApprovalState)
          else (let r' = r\<lparr>arStatus := wanted, arUpdatedAt := now\<rparr>
                in ((r', None), Inr (mput k r' s)))))"

definition Decide ::
  "io \<Rightarrow> instant \<Rightarrow> string \<Rightarrow> string \<Rightarrow> bool \<Rightarrow> approval_state content
     \<Rightarrow> (approval_record \<times> gerr option) \<times> approval_state content" where
  "Decide e now k who allow d =
     (case file_update [] e (no_record, None) (decide_fn k who allow now) d of
        (((r, resultErr), err), d') \<Rightarrow> ((r, errors_join [err, resultErr]), d'))"

definition claim_fn ::
  "string \<Rightarrow> string \<Rightarrow> approval_action \<Rightarrow> string \<Rightarrow> gerr + string \<Rightarrow> instant
     \<Rightarrow> (approval_state, approval_claim \<times> gerr option) callback" where
  "claim_fn k who current digest random now s =
     (case mget s k of
        None \<Rightarrow> ((no_claim, None), Inl ErrApprovalState)
      | Some r \<Rightarrow>
        if acPrincipal (arAction r) \<noteq> who \<or> acPrincipal current \<noteq> who
        then ((no_claim, None), Inl ErrApprovalIdentity)
        else if arDigest r \<noteq> digest then ((no_claim, None), Inl ErrApprovalChanged)
        else if arStatus r \<noteq> Approved then ((no_claim, None), Inl ErrApprovalState)
        else if \<not> now < arExpiresAt r
        then ((no_claim, Some ErrApprovalExpired), Inr (mput k (r\<lparr>arStatus := Expired, arUpdatedAt := now\<rparr>) s))
        else (case random of
                Inl x \<Rightarrow> ((no_claim, None), Inl x)
              | Inr token \<Rightarrow>
                 (let r' = r\<lparr>arStatus := Claimed, arClaimToken := token, arUpdatedAt := now\<rparr>
                  in ((\<lparr>clRecord = r', clToken = token\<rparr>, None), Inr (mput k r' s)))))"

definition approval_Claim ::
  "approval_lib \<Rightarrow> io \<Rightarrow> instant \<Rightarrow> gerr + string \<Rightarrow> string \<Rightarrow> string \<Rightarrow> approval_action \<Rightarrow> approval_state content
     \<Rightarrow> (approval_claim \<times> gerr option) \<times> approval_state content" where
  "approval_Claim lib e now random k who current d =
     (case alDigest lib current of
        Inl x \<Rightarrow> ((no_claim, Some x), d)
      | Inr digest \<Rightarrow>
        (case file_update [] e (no_claim, None) (claim_fn k who current digest random now) d of
           (((c, resultErr), err), d') \<Rightarrow> ((c, errors_join [err, resultErr]), d')))"

definition finish_fn ::
  "approval_claim \<Rightarrow> approval_status \<Rightarrow> string \<Rightarrow> instant \<Rightarrow> (approval_state, unit) callback" where
  "finish_fn c outcome receipt now s =
     (case mget s (arID (clRecord c)) of
        None \<Rightarrow> ((), Inl ErrApprovalState)
      | Some r \<Rightarrow>
        if clToken c = '''' \<or> arClaimToken r \<noteq> clToken c then ((), Inl ErrApprovalIdentity)
        else if arStatus r = outcome \<and> arReceipt r = receipt then ((), Inr s)
        else if arStatus r \<noteq> Claimed then ((), Inl ErrApprovalState)
        else ((), Inr (mput (arID r) (r\<lparr>arStatus := outcome, arReceipt := receipt, arUpdatedAt := now\<rparr>) s)))"

definition Finish ::
  "io \<Rightarrow> instant \<Rightarrow> approval_claim \<Rightarrow> approval_status \<Rightarrow> string \<Rightarrow> approval_state content
     \<Rightarrow> gerr option \<times> approval_state content" where
  "Finish e now c outcome receipt d =
     (if outcome \<notin> {Completed, Failed, Unknown} then (Some (Msg ''invalid approval outcome''), d)
      else (case file_update [] e () (finish_fn c outcome receipt now) d of ((_, err), d') \<Rightarrow> (err, d')))"

definition approval_Find ::
  "approval_lib \<Rightarrow> io \<Rightarrow> approval_action \<Rightarrow> approval_state content \<Rightarrow> gerr + approval_record option" where
  "approval_Find lib e identity d =
     (case file_read [] e d of (s, Some x) \<Rightarrow> Inl x | (s, None) \<Rightarrow> Inr (mget s (alID lib identity)))"

definition approval_Get :: "io \<Rightarrow> string \<Rightarrow> string \<Rightarrow> approval_state content \<Rightarrow> gerr + approval_record" where
  "approval_Get e k who d =
     (case file_read [] e d of
        (s, Some x) \<Rightarrow> Inl x
      | (s, None) \<Rightarrow>
        (case mget s k of
           None \<Rightarrow> Inl ErrApprovalState
         | Some r \<Rightarrow> if acPrincipal (arAction r) \<noteq> who then Inl ErrApprovalIdentity else Inr r))"

definition approval_Pending ::
  "io \<Rightarrow> instant \<Rightarrow> string \<Rightarrow> string \<Rightarrow> approval_state content \<Rightarrow> gerr + approval_record list" where
  "approval_Pending e now who session d =
     (case file_read [] e d of
        (s, Some x) \<Rightarrow> Inl x
      | (s, None) \<Rightarrow>
          Inr (sort_key arCreatedAt (filter (\<lambda>r. acPrincipal (arAction r) = who
             \<and> acSession (arAction r) = session \<and> (arStatus r = Pending \<or> arStatus r = Approved)
             \<and> now < arExpiresAt r) (mvals s))))"

subsection \<open>What one operation does to the records\<close>

lemma Create_effect:
  assumes "Create lib e now a ttl d = ((r, err), d')" "decode [] d = Inr v"
  shows "\<exists>v'. decode [] d' = Inr v' \<and> (v' = v \<or> (\<exists>r0. mget v (alID lib a) = None
     \<and> v' = mput (alID lib a) r0 v \<and> arID r0 = alID lib a \<and> alDigest lib a = Inr (arDigest r0)
     \<and> arStatus r0 = Pending))"
proof (cases "\<exists>dg fz ttl'. alDigest lib a = Inr dg
    \<and> file_update [] e no_record (create_fn (alID lib a) dg fz ttl' now) d = ((r, err), d')")
  case False
  with assms show ?thesis
    by (auto simp: Create_def Let_def split: if_splits sum.splits)
next
  case True
  then obtain dg fz ttl' where dg: "alDigest lib a = Inr dg"
    and u: "file_update [] e no_record (create_fn (alID lib a) dg fz ttl' now) d = ((r, err), d')" by blast
  show ?thesis
  proof (cases rule: file_update_cases [OF u])
    case 1
    with assms(2) show ?thesis by simp
  next
    case (2 w w')
    then show ?thesis using assms(2) dg
      by (cases "mget w (alID lib a)") (auto simp: create_fn_def Let_def split: if_splits)
  qed
qed

lemma Decide_effect:
  assumes "Decide e now k who allow d = ((r, err), d')" "decode [] d = Inr v"
  shows "\<exists>v'. decode [] d' = Inr v' \<and> (v' = v \<or> (\<exists>r0 st. mget v k = Some r0 \<and> acPrincipal (arAction r0) = who
     \<and> v' = mput k (r0\<lparr>arStatus := st, arUpdatedAt := now\<rparr>) v \<and> arStatus r0 < st
     \<and> arStatus r0 \<le> Approved \<and> (st = Expired \<or> st = Denied \<or> st = Approved \<and> allow)))"
proof -
  obtain o1 x where u: "file_update [] e (no_record, None) (decide_fn k who allow now) d = ((o1, x), d')"
    using assms(1) by (auto simp: Decide_def split: prod.splits)
  show ?thesis
  proof (cases rule: file_update_cases [OF u])
    case 1
    with assms(2) show ?thesis by simp
  next
    case (2 w w')
    then show ?thesis using assms(2)
      by (auto simp: decide_fn_def Let_def less_eq_approval_status_def less_approval_status_def
          split: option.splits if_splits)
  qed
qed

lemma Claim_effect:
  assumes "approval_Claim lib e now random k who a d = ((c, err), d')" "decode [] d = Inr v"
  shows "\<exists>v'. decode [] d' = Inr v' \<and> ((v' = v \<and> err \<noteq> None) \<or> (\<exists>r0. mget v k = Some r0
     \<and> acPrincipal (arAction r0) = who \<and> alDigest lib a = Inr (arDigest r0) \<and> arStatus r0 = Approved
     \<and> ((v' = mput k (r0\<lparr>arStatus := Expired, arUpdatedAt := now\<rparr>) v \<and> err \<noteq> None)
        \<or> (\<exists>token. v' = mput k (r0\<lparr>arStatus := Claimed, arClaimToken := token, arUpdatedAt := now\<rparr>) v
             \<and> now < arExpiresAt r0))))"
proof (cases "alDigest lib a")
  case (Inl x)
  with assms show ?thesis by (auto simp: approval_Claim_def)
next
  case (Inr digest)
  obtain o1 x where u: "file_update [] e (no_claim, None) (claim_fn k who a digest random now) d = ((o1, x), d')"
    and err: "err = errors_join [x, snd o1]"
    using assms(1) Inr by (auto simp: approval_Claim_def split: prod.splits)
  show ?thesis
  proof (cases rule: file_update_cases [OF u])
    case 1
    with assms(2) err show ?thesis by auto
  next
    case (2 w w')
    then show ?thesis using assms(2) err Inr
      by (auto simp: claim_fn_def Let_def split: option.splits if_splits sum.splits)
  qed
qed

lemma Finish_effect:
  assumes "Finish e now c outcome receipt d = (err, d')" "decode [] d = Inr v"
  shows "\<exists>v'. decode [] d' = Inr v' \<and> (v' = v \<or> (\<exists>r0. mget v (arID (clRecord c)) = Some r0
     \<and> arStatus r0 = Claimed \<and> outcome \<in> {Completed, Failed, Unknown}
     \<and> v' = mput (arID r0) (r0\<lparr>arStatus := outcome, arReceipt := receipt, arUpdatedAt := now\<rparr>) v))"
proof (cases "outcome \<in> {Completed, Failed, Unknown}")
  case False
  with assms show ?thesis by (auto simp: Finish_def)
next
  case True
  obtain o1 where u: "file_update [] e () (finish_fn c outcome receipt now) d = ((o1, err), d')"
    using assms(1) True by (auto simp: Finish_def split: prod.splits)
  show ?thesis
  proof (cases rule: file_update_cases [OF u])
    case 1
    with assms(2) show ?thesis by simp
  next
    case (2 w w')
    then show ?thesis using assms(2) True
      by (auto simp: finish_fn_def split: option.splits if_splits)
  qed
qed

subsection \<open>Histories of calls\<close>

text \<open>One event per call of the store, with whether the caller was told that it succeeded. A call
  can change the file and still be reported as failed, when only the directory sync fails.\<close>

datatype approval_event =
    Created approval_action bool
  | Decided string string bool bool
  | ClaimedBy string string approval_action bool
  | Finished string approval_status bool

inductive approvals_run :: "approval_lib \<Rightarrow> approval_event list \<Rightarrow> approval_state content \<Rightarrow> bool" for lib where
  start: "approvals_run lib [] Absent"
| create: "approvals_run lib tr d \<Longrightarrow> Create lib e now a ttl d = ((r, err), d') \<Longrightarrow>
    approvals_run lib (tr @ [Created a (err = None)]) d'"
| decide: "approvals_run lib tr d \<Longrightarrow> Decide e now k who allow d = ((r, err), d') \<Longrightarrow>
    approvals_run lib (tr @ [Decided k who allow (err = None)]) d'"
| claim: "approvals_run lib tr d \<Longrightarrow> approval_Claim lib e now random k who a d = ((c, err), d') \<Longrightarrow>
    approvals_run lib (tr @ [ClaimedBy k who a (err = None)]) d'"
| finish: "approvals_run lib tr d \<Longrightarrow> Finish e now c outcome receipt d = (err, d') \<Longrightarrow>
    approvals_run lib (tr @ [Finished (arID (clRecord c)) outcome (err = None)]) d'"

definition created_in :: "approval_lib \<Rightarrow> approval_event list \<Rightarrow> string \<Rightarrow> string \<Rightarrow> bool" where
  "created_in lib tr k digest \<longleftrightarrow> (\<exists>a ok. Created a ok \<in> set tr \<and> alID lib a = k \<and> alDigest lib a = Inr digest)"

definition consented_in :: "approval_event list \<Rightarrow> string \<Rightarrow> string \<Rightarrow> bool" where
  "consented_in tr k who \<longleftrightarrow> (\<exists>ok. Decided k who True ok \<in> set tr)"

definition claimed_in :: "approval_event list \<Rightarrow> string \<Rightarrow> bool" where
  "claimed_in tr k \<longleftrightarrow> (\<exists>who a. ClaimedBy k who a True \<in> set tr)"

text \<open>Why a record is what it is: it was created by a call, its principal consented if it got
  past pending without being refused, and a successful claim leaves it claimed or finished.\<close>

definition record_ok :: "approval_lib \<Rightarrow> approval_event list \<Rightarrow> string \<Rightarrow> approval_record \<Rightarrow> bool" where
  "record_ok lib tr k r \<longleftrightarrow> arID r = k \<and> created_in lib tr k (arDigest r)
     \<and> (arStatus r \<in> {Approved, Claimed, Completed, Failed, Unknown} \<longrightarrow>
          consented_in tr k (acPrincipal (arAction r)))"

definition approvals_inv :: "approval_lib \<Rightarrow> approval_event list \<Rightarrow> approval_state \<Rightarrow> bool" where
  "approvals_inv lib tr v \<longleftrightarrow> mall (record_ok lib tr) v
     \<and> (\<forall>k. claimed_in tr k \<longrightarrow> (\<exists>r. mget v k = Some r \<and> Claimed \<le> arStatus r))"

lemma in_snoc:
  "created_in lib (tr @ [ev]) k dg \<longleftrightarrow> created_in lib tr k dg
     \<or> (\<exists>a ok. ev = Created a ok \<and> alID lib a = k \<and> alDigest lib a = Inr dg)"
  "consented_in (tr @ [ev]) k who \<longleftrightarrow> consented_in tr k who \<or> (\<exists>ok. ev = Decided k who True ok)"
  "claimed_in (tr @ [ev]) k \<longleftrightarrow> claimed_in tr k \<or> (\<exists>who a. ev = ClaimedBy k who a True)"
  by (auto simp: created_in_def consented_in_def claimed_in_def)

lemma record_ok_snoc: "record_ok lib tr k r \<Longrightarrow> record_ok lib (tr @ [ev]) k r"
  by (auto simp: record_ok_def in_snoc)

lemma approvals_inv_same:
  "approvals_inv lib tr v \<Longrightarrow> (\<And>k who a. ev \<noteq> ClaimedBy k who a True) \<Longrightarrow> approvals_inv lib (tr @ [ev]) v"
  by (auto simp: approvals_inv_def in_snoc record_ok_snoc intro: mall_mono)

lemma approvals_inv_put:
  assumes "approvals_inv lib tr v" "record_ok lib (tr @ [ev]) k r"
    and "\<And>r0. mget v k = Some r0 \<Longrightarrow> arStatus r0 \<le> arStatus r"
    and "\<And>k' who a. ev = ClaimedBy k' who a True \<Longrightarrow> k' = k \<and> Claimed \<le> arStatus r"
  shows "approvals_inv lib (tr @ [ev]) (mput k r v)"
proof -
  have "mall (record_ok lib (tr @ [ev])) (mput k r v)"
    using assms(1,2) by (auto simp: approvals_inv_def record_ok_snoc intro!: mall_mput intro: mall_mono)
  moreover have "\<exists>r'. mget (mput k r v) k' = Some r' \<and> Claimed \<le> arStatus r'"
    if "claimed_in (tr @ [ev]) k'" for k'
  proof (cases "claimed_in tr k'")
    case True
    then obtain r0 where "mget v k' = Some r0" "Claimed \<le> arStatus r0"
      using assms(1) by (auto simp: approvals_inv_def)
    then show ?thesis using assms(3) [of r0] by (auto intro: order.trans)
  next
    case False
    with that assms(4) show ?thesis by (auto simp: in_snoc)
  qed
  ultimately show ?thesis by (simp add: approvals_inv_def)
qed

lemma record_okD: "approvals_inv lib tr v \<Longrightarrow> mget v k = Some r \<Longrightarrow> record_ok lib tr k r"
  by (auto simp: approvals_inv_def dest: mallD)

lemma status_le [simp]: "a \<le> b \<longleftrightarrow> status_rank a \<le> status_rank b"
  by (simp add: less_eq_approval_status_def)

lemma status_less [simp]: "a < b \<longleftrightarrow> status_rank a < status_rank b"
  by (simp add: less_approval_status_def)

lemma approvals_run_inv:
  "approvals_run lib tr d \<Longrightarrow> \<exists>v. decode [] d = Inr v \<and> approvals_inv lib tr v"
proof (induction rule: approvals_run.induct)
  case start
  then show ?case by (auto simp: approvals_inv_def claimed_in_def)
next
  case (create tr d e now a ttl r err d')
  then obtain v where v: "decode [] d = Inr v" "approvals_inv lib tr v" by blast
  from Create_effect [OF create.hyps(2) v(1)] obtain v' where d': "decode [] d' = Inr v'"
    and "v' = v \<or> (\<exists>r0. mget v (alID lib a) = None \<and> v' = mput (alID lib a) r0 v
      \<and> arID r0 = alID lib a \<and> alDigest lib a = Inr (arDigest r0) \<and> arStatus r0 = Pending)" by blast
  then have "approvals_inv lib (tr @ [Created a (err = None)]) v'"
    using v(2) by (elim disjE exE conjE)
      (auto intro!: approvals_inv_put simp: approvals_inv_same record_ok_def in_snoc)
  with d' show ?case by blast
next
  case (decide tr d e now k who allow r err d')
  then obtain v where v: "decode [] d = Inr v" "approvals_inv lib tr v" by blast
  from Decide_effect [OF decide.hyps(2) v(1)] obtain v' where d': "decode [] d' = Inr v'"
    and "v' = v \<or> (\<exists>r0 st. mget v k = Some r0 \<and> acPrincipal (arAction r0) = who
     \<and> v' = mput k (r0\<lparr>arStatus := st, arUpdatedAt := now\<rparr>) v \<and> arStatus r0 < st
     \<and> arStatus r0 \<le> Approved \<and> (st = Expired \<or> st = Denied \<or> st = Approved \<and> allow))" by blast
  then have "approvals_inv lib (tr @ [Decided k who allow (err = None)]) v'"
    using v(2) record_okD [OF v(2), of k]
    by (elim disjE exE conjE)
      (auto intro!: approvals_inv_put simp: approvals_inv_same record_ok_def in_snoc)
  with d' show ?case by blast
next
  case (claim tr d e now random k who a c err d')
  then obtain v where v: "decode [] d = Inr v" "approvals_inv lib tr v" by blast
  from Claim_effect [OF claim.hyps(2) v(1)] obtain v' where d': "decode [] d' = Inr v'"
    and "(v' = v \<and> err \<noteq> None) \<or> (\<exists>r0. mget v k = Some r0
     \<and> acPrincipal (arAction r0) = who \<and> alDigest lib a = Inr (arDigest r0) \<and> arStatus r0 = Approved
     \<and> ((v' = mput k (r0\<lparr>arStatus := Expired, arUpdatedAt := now\<rparr>) v \<and> err \<noteq> None)
        \<or> (\<exists>token. v' = mput k (r0\<lparr>arStatus := Claimed, arClaimToken := token, arUpdatedAt := now\<rparr>) v
             \<and> now < arExpiresAt r0)))" by blast
  then have "approvals_inv lib (tr @ [ClaimedBy k who a (err = None)]) v'"
    using v(2) record_okD [OF v(2), of k]
    by (elim disjE exE conjE)
      (auto intro!: approvals_inv_put simp: approvals_inv_same record_ok_def in_snoc)
  with d' show ?case by blast
next
  case (finish tr d e now c outcome receipt err d')
  then obtain v where v: "decode [] d = Inr v" "approvals_inv lib tr v" by blast
  from Finish_effect [OF finish.hyps(2) v(1)] obtain v' where d': "decode [] d' = Inr v'"
    and "v' = v \<or> (\<exists>r0. mget v (arID (clRecord c)) = Some r0
     \<and> arStatus r0 = Claimed \<and> outcome \<in> {Completed, Failed, Unknown}
     \<and> v' = mput (arID r0) (r0\<lparr>arStatus := outcome, arReceipt := receipt, arUpdatedAt := now\<rparr>) v)" by blast
  then have "approvals_inv lib (tr @ [Finished (arID (clRecord c)) outcome (err = None)]) v'"
    using v(2) record_okD [OF v(2), of "arID (clRecord c)"]
    by (elim disjE exE conjE)
      (auto intro!: approvals_inv_put simp: approvals_inv_same record_ok_def in_snoc)
  with d' show ?case by blast
qed

subsection \<open>Dispatch\<close>

text \<open>Everything a successful claim in a history rests on.\<close>

definition claims_ok :: "approval_lib \<Rightarrow> approval_event list \<Rightarrow> bool" where
  "claims_ok lib tr \<longleftrightarrow> (\<forall>pre k who a post. tr = pre @ ClaimedBy k who a True # post \<longrightarrow>
     (\<exists>dg. alDigest lib a = Inr dg \<and> created_in lib pre k dg) \<and> consented_in pre k who \<and> \<not> claimed_in pre k)"

lemma claims_ok_snoc:
  assumes "claims_ok lib tr"
    and "\<And>k who a. ev = ClaimedBy k who a True \<Longrightarrow>
       (\<exists>dg. alDigest lib a = Inr dg \<and> created_in lib tr k dg) \<and> consented_in tr k who \<and> \<not> claimed_in tr k"
  shows "claims_ok lib (tr @ [ev])"
  unfolding claims_ok_def
proof (intro allI impI)
  fix pre k who a post
  assume eq: "tr @ [ev] = pre @ ClaimedBy k who a True # post"
  show "(\<exists>dg. alDigest lib a = Inr dg \<and> created_in lib pre k dg) \<and> consented_in pre k who \<and> \<not> claimed_in pre k"
  proof (cases post rule: rev_cases)
    case Nil
    with eq assms(2) show ?thesis by auto
  next
    case (snoc post' e)
    with eq have "tr = pre @ ClaimedBy k who a True # post'" by auto
    with assms(1) show ?thesis by (auto simp: claims_ok_def)
  qed
qed

lemma approvals_run_claims: "approvals_run lib tr d \<Longrightarrow> claims_ok lib tr"
proof (induction rule: approvals_run.induct)
  case start
  then show ?case by (simp add: claims_ok_def)
next
  case (claim tr d e now random k who a c err d')
  from approvals_run_inv [OF claim.hyps(1)] obtain v where
    v: "decode [] d = Inr v" "approvals_inv lib tr v" by blast
  show ?case
  proof (rule claims_ok_snoc [OF claim.IH])
    fix k' who' a'
    assume "ClaimedBy k who a (err = None) = ClaimedBy k' who' a' True"
    then have [simp]: "k' = k" "who' = who" "a' = a" and err: "err = None" by simp_all
    from Claim_effect [OF claim.hyps(2) v(1)] err obtain r0 where
      r0: "mget v k = Some r0" "acPrincipal (arAction r0) = who" "alDigest lib a = Inr (arDigest r0)"
        "arStatus r0 = Approved" by blast
    then have "\<not> claimed_in tr k" using v(2) by (auto simp: approvals_inv_def)
    with record_okD [OF v(2) r0(1)] r0 show
      "(\<exists>dg. alDigest lib a' = Inr dg \<and> created_in lib tr k' dg) \<and> consented_in tr k' who' \<and> \<not> claimed_in tr k'"
      by (auto simp: record_ok_def)
  qed
qed (auto intro: claims_ok_snoc)

subsection \<open>Properties\<close>

text \<open>C8. Dispatch needs consent and happens once: in every history of calls of the store,
  whatever the I/O does to each of them, a claim that succeeded is preceded by the creation of
  that record for an action with the same digest and by a decision to allow it by the same
  principal, and no other claim of the record ever succeeds, before or after.\<close>

theorem dispatch_once_with_consent:
  assumes "approvals_run lib (pre @ ClaimedBy k who a True # post) d"
  shows "(\<exists>dg. alDigest lib a = Inr dg \<and> created_in lib pre k dg) \<and> consented_in pre k who
     \<and> \<not> claimed_in pre k \<and> \<not> claimed_in post k"
proof -
  have ok: "claims_ok lib (pre @ ClaimedBy k who a True # post)"
    using assms by (rule approvals_run_claims)
  have "\<not> claimed_in post k"
  proof
    assume "claimed_in post k"
    then obtain who' a' p q where "post = p @ ClaimedBy k who' a' True # q"
      by (auto simp: claimed_in_def dest: split_list)
    then have "pre @ ClaimedBy k who a True # post
        = (pre @ ClaimedBy k who a True # p) @ ClaimedBy k who' a' True # q" by simp
    with ok have "\<not> claimed_in (pre @ ClaimedBy k who a True # p) k" unfolding claims_ok_def by blast
    then show False by (auto simp: claimed_in_def)
  qed
  with ok show ?thesis by (auto simp: claims_ok_def)
qed

definition demo_approvals :: approval_lib where
  "demo_approvals = \<lparr>alDigest = (\<lambda>a. Inr ''sum''), alID = acCallID, alFreeze = Inr\<rparr>"

definition demo_action :: approval_action where
  "demo_action = \<lparr>acPrincipal = ''u'', acSession = ''s'', acTurn = ''t'', acCallID = ''c'', acTool = ''write_file'',
     acArgs = [], acDefinitionDigest = '''', acPreconditions = []\<rparr>"

definition demo_record :: "approval_status \<Rightarrow> approval_record" where
  "demo_record st = \<lparr>arID = ''c'', arDigest = ''sum'', arStatus = st, arAction = demo_action, arCreatedAt = 1,
     arExpiresAt = 11, arUpdatedAt = (if st = Pending then 1 else 2), arClaimToken = '''', arReceipt = ''''\<rparr>"

lemma demo_history:
  "\<exists>d. approvals_run demo_approvals
     ([Created demo_action True, Decided ''c'' ''u'' True True] @ ClaimedBy ''c'' ''u'' demo_action True # []) d"
proof -
  have "Create demo_approvals io_ok 1 demo_action 10 Absent = ((demo_record Pending, None), Holds [(''c'', demo_record Pending)])"
    by (simp add: Create_def demo_action_def demo_approvals_def create_fn_def demo_record_def mput_def Let_def)
  from approvals_run.create [OF approvals_run.start this]
  have a: "approvals_run demo_approvals [Created demo_action True] (Holds [(''c'', demo_record Pending)])" by simp
  have "Decide io_ok 2 ''c'' ''u'' True (Holds [(''c'', demo_record Pending)])
      = ((demo_record Approved, None), Holds [(''c'', demo_record Approved)])"
    by (simp add: Decide_def decide_fn_def demo_record_def demo_action_def mput_def Let_def)
  from approvals_run.decide [OF a this]
  have b: "approvals_run demo_approvals [Created demo_action True, Decided ''c'' ''u'' True True]
      (Holds [(''c'', demo_record Approved)])" by simp
  have "\<exists>c d. approval_Claim demo_approvals io_ok 3 (Inr ''tok'') ''c'' ''u'' demo_action (Holds [(''c'', demo_record Approved)])
      = ((c, None), d)"
    by (simp add: approval_Claim_def claim_fn_def demo_record_def demo_action_def demo_approvals_def Let_def)
  then obtain c d where "approval_Claim demo_approvals io_ok 3 (Inr ''tok'') ''c'' ''u'' demo_action
      (Holds [(''c'', demo_record Approved)]) = ((c, None), d)" by blast
  from approvals_run.claim [OF b this] show ?thesis by auto
qed

lemma dispatch_once_with_consent_witness:
  "\<exists>d. approvals_run demo_approvals
     ([Created demo_action True, Decided ''c'' ''u'' True True] @ ClaimedBy ''c'' ''u'' demo_action True # []) d
   \<and> consented_in [Created demo_action True, Decided ''c'' ''u'' True True] ''c'' ''u''"
proof -
  obtain d where d: "approvals_run demo_approvals
     ([Created demo_action True, Decided ''c'' ''u'' True True] @ ClaimedBy ''c'' ''u'' demo_action True # []) d"
    using demo_history by blast
  from dispatch_once_with_consent [OF d] d show ?thesis by blast
qed

subsection \<open>Frozen records\<close>

definition record_kept :: "approval_record \<Rightarrow> approval_record \<Rightarrow> bool" where
  "record_kept r r' \<longleftrightarrow> arID r' = arID r \<and> arDigest r' = arDigest r \<and> arAction r' = arAction r
     \<and> arExpiresAt r' = arExpiresAt r \<and> arStatus r \<le> arStatus r'
     \<and> (arStatus r \<in> {Denied, Expired, Completed, Failed, Unknown} \<longrightarrow> arStatus r' = arStatus r)"

inductive approval_call :: "approval_lib \<Rightarrow> approval_state content \<Rightarrow> approval_state content \<Rightarrow> bool" for lib where
  create: "Create lib e now a ttl d = (out, d') \<Longrightarrow> approval_call lib d d'"
| decide: "Decide e now k who allow d = (out, d') \<Longrightarrow> approval_call lib d d'"
| claim: "approval_Claim lib e now random k who a d = (c, d') \<Longrightarrow> approval_call lib d d'"
| finish: "Finish e now c outcome receipt d = (out, d') \<Longrightarrow> approval_call lib d d'"

definition filed :: "approval_state content \<Rightarrow> bool" where
  "filed d \<longleftrightarrow> (\<exists>v. decode [] d = Inr v \<and> mall (\<lambda>k r. arID r = k) v)"

definition records_kept :: "approval_state content \<Rightarrow> approval_state content \<Rightarrow> bool" where
  "records_kept d d' \<longleftrightarrow> (\<forall>v. decode [] d = Inr v \<longrightarrow>
     (\<exists>v'. decode [] d' = Inr v' \<and> mall (\<lambda>k r. \<exists>r'. mget v' k = Some r' \<and> record_kept r r') v))"

lemma record_kept_refl [simp]: "record_kept r r"
  by (simp add: record_kept_def)

lemma record_kept_trans: "record_kept a b \<Longrightarrow> record_kept b c \<Longrightarrow> record_kept a c"
  by (auto simp: record_kept_def)

lemma records_kept_refl: "records_kept d d"
  by (auto simp: records_kept_def mall_def)

lemma records_kept_trans: "records_kept a b \<Longrightarrow> records_kept b c \<Longrightarrow> records_kept a c"
  unfolding records_kept_def mall_def by (meson record_kept_trans)

inductive rec_change :: "approval_state \<Rightarrow> approval_state \<Rightarrow> bool" where
  same: "rec_change v v"
| fresh: "mget v k = None \<Longrightarrow> arID r = k \<Longrightarrow> rec_change v (mput k r v)"
| moved: "mget v k = Some r \<Longrightarrow> record_kept r r' \<Longrightarrow> rec_change v (mput k r' v)"

lemma call_outcome:
  assumes "approval_call lib d d'" "decode [] d = Inr v" "mall (\<lambda>k r. arID r = k) v"
  shows "\<exists>v'. decode [] d' = Inr v' \<and> rec_change v v'"
  using assms(1)
proof cases
  case (create e now a ttl out)
  obtain r err where "out = (r, err)" by (cases out)
  with create have "Create lib e now a ttl d = ((r, err), d')" by simp
  from Create_effect [OF this assms(2)] show ?thesis
    by (elim exE conjE disjE) (auto intro: rec_change.same rec_change.fresh)
next
  case (decide e now k who allow out)
  obtain r err where "out = (r, err)" by (cases out)
  with decide have "Decide e now k who allow d = ((r, err), d')" by simp
  from Decide_effect [OF this assms(2)] obtain v' where d': "decode [] d' = Inr v'"
    and "v' = v \<or> (\<exists>r0 st. mget v k = Some r0 \<and> v' = mput k (r0\<lparr>arStatus := st, arUpdatedAt := now\<rparr>) v
      \<and> arStatus r0 < st \<and> arStatus r0 \<le> Approved)" by blast
  then have "rec_change v v'"
    by (elim exE conjE disjE) (auto intro!: rec_change.same rec_change.moved simp: record_kept_def)
  with d' show ?thesis by blast
next
  case (claim e now random k who a c)
  obtain r err where "c = (r, err)" by (cases c)
  with claim have "approval_Claim lib e now random k who a d = ((r, err), d')" by simp
  from Claim_effect [OF this assms(2)] obtain v' where d': "decode [] d' = Inr v'"
    and "(v' = v \<and> err \<noteq> None) \<or> (\<exists>r0. mget v k = Some r0
     \<and> acPrincipal (arAction r0) = who \<and> alDigest lib a = Inr (arDigest r0) \<and> arStatus r0 = Approved
     \<and> ((v' = mput k (r0\<lparr>arStatus := Expired, arUpdatedAt := now\<rparr>) v \<and> err \<noteq> None)
        \<or> (\<exists>token. v' = mput k (r0\<lparr>arStatus := Claimed, arClaimToken := token, arUpdatedAt := now\<rparr>) v
             \<and> now < arExpiresAt r0)))" by blast
  then have "rec_change v v'"
    by (elim exE conjE disjE) (auto intro!: rec_change.same rec_change.moved simp: record_kept_def)
  with d' show ?thesis by blast
next
  case (finish e now c outcome receipt out)
  from Finish_effect [OF finish assms(2)] obtain v' where d': "decode [] d' = Inr v'"
    and "v' = v \<or> (\<exists>r0. mget v (arID (clRecord c)) = Some r0
     \<and> arStatus r0 = Claimed \<and> outcome \<in> {Completed, Failed, Unknown}
     \<and> v' = mput (arID r0) (r0\<lparr>arStatus := outcome, arReceipt := receipt, arUpdatedAt := now\<rparr>) v)" by blast
  then have "rec_change v v'"
  proof (elim exE conjE disjE)
    fix r0
    assume r0: "mget v (arID (clRecord c)) = Some r0" "arStatus r0 = Claimed"
      "outcome \<in> {Completed, Failed, Unknown}"
      "v' = mput (arID r0) (r0\<lparr>arStatus := outcome, arReceipt := receipt, arUpdatedAt := now\<rparr>) v"
    have "arID r0 = arID (clRecord c)" using mallD [OF assms(3) r0(1)] .
    with r0 show ?thesis by (auto intro!: rec_change.moved simp: record_kept_def)
  qed (simp add: rec_change.same)
  with d' show ?thesis by blast
qed

lemma rec_change_kept:
  "rec_change v v' \<Longrightarrow> mall (\<lambda>k r. arID r = k) v \<Longrightarrow>
   mall (\<lambda>k r. \<exists>s. mget v' k = Some s \<and> record_kept r s) v \<and> mall (\<lambda>k r. arID r = k) v'"
  by (induction rule: rec_change.induct) (auto simp: mall_def record_kept_def)

lemma call_kept:
  assumes "approval_call lib d d'" "filed d"
  shows "records_kept d d' \<and> filed d'"
proof -
  obtain v where v: "decode [] d = Inr v" "mall (\<lambda>k r. arID r = k) v" using assms(2) by (auto simp: filed_def)
  from call_outcome [OF assms(1) v] obtain v' where v': "decode [] d' = Inr v'" "rec_change v v'" by blast
  from rec_change_kept [OF v'(2) v(2)] v(1) v'(1) show ?thesis by (auto simp: records_kept_def filed_def)
qed

interpretation approval_calls: stepper "approval_call lib" filed for lib
  by unfold_locales (use call_kept in blast)

text \<open>Statuses only move forward and the approved action is frozen: over any sequence of
  calls of the store and whatever the I/O does, every record present before is present after, with the
  same identity, digest, action and expiry, and its status the same or later in the order
  pending, approved, denied, expired, claimed, completed, failed, unknown; a record that is
  denied, expired or finished does not change its status again.\<close>

theorem approvals_move_forward:
  assumes "(approval_call lib)\<^sup>*\<^sup>* d d'" and "decode [] d = Inr v"
    and "mall (\<lambda>k r. arID r = k) v" and "mget v k = Some r"
  shows "\<exists>v' r'. decode [] d' = Inr v' \<and> mget v' k = Some r' \<and> record_kept r r'"
proof -
  have "filed d" using assms(2,3) by (auto simp: filed_def)
  have "records_kept d d'"
    by (rule approval_calls.run_mono [OF assms(1) \<open>filed d\<close> _ records_kept_refl records_kept_trans])
      (use call_kept in blast)
  with assms(2,4) show ?thesis by (auto simp: records_kept_def dest: mallD)
qed

lemma approvals_move_forward_witness:
  "\<exists>d' v' r'. Decide io_ok 2 ''c'' ''u'' True (Holds [(''c'', demo_record Pending)])
       = ((demo_record Approved, None), d')
     \<and> decode [] d' = Inr v' \<and> mget v' ''c'' = Some r' \<and> arStatus r' \<noteq> Pending"
proof -
  have run: "Decide io_ok 2 ''c'' ''u'' True (Holds [(''c'', demo_record Pending)])
      = ((demo_record Approved, None), Holds [(''c'', demo_record Approved)])"
    by (simp add: Decide_def decide_fn_def demo_record_def demo_action_def mput_def Let_def)
  have "(approval_call demo_approvals)\<^sup>*\<^sup>* (Holds [(''c'', demo_record Pending)]) (Holds [(''c'', demo_record Approved)])"
    using approval_call.decide [OF run] by blast
  from approvals_move_forward [OF this, of _ "''c''" "demo_record Pending"] run show ?thesis
    by (auto simp: mall_def demo_record_def split: if_splits)
qed

end
