(* ===== verification/Journal.thy ===== *)
theory Journal
  imports Durable
begin

section \<open>The journal of requests and results\<close>

text \<open>
  \<open>internal/journal/journal.go\<close>: a durable file of inbound requests (\<open>inbox\<close>) and outbound
  results (\<open>outbox\<close>). The process that opens it takes the next epoch; every mutation is refused
  when the epoch of the file is not the one of the journal object. States and kinds are the
  strings of the code. Encoded payloads, the clock and the lease are arguments. Each method
  holds the owner lock for reading while it runs, so a mutation and \<open>Close\<close> are ordered.
\<close>

record resolution =
  rsActor :: string
  rsReason :: string
  rsEvidence :: string
  rsAction :: string
  rsReceipt :: string
  rsAt :: instant

record journal_entry =
  jeID :: string
  jeKind :: string
  jeState :: string
  jePayload :: string
  jeResult :: "string option"
  jeEpoch :: int
  jeUpdatedAt :: instant
  jeResolutions :: "resolution list"

record journal_state =
  jsEpoch :: int
  jsEntries :: "journal_entry gomap"

definition journal_zero :: journal_state where
  "journal_zero = \<lparr>jsEpoch = 0, jsEntries = []\<rparr>"

record journal =
  jnEpoch :: int
  jnClosed :: bool

definition entry_key :: "string \<Rightarrow> string \<Rightarrow> string" where
  "entry_key kind k = kind @ '':'' @ k"

subsection \<open>Opening\<close>

definition next_epoch :: "int \<Rightarrow> int" where
  "next_epoch n = (n + 1) mod 2 ^ 64"

definition interrupted_state :: "string \<Rightarrow> string" where
  "interrupted_state st =
     (if st = ''running'' then ''needs_reconcile'' else if st = ''sending'' then ''unknown'' else st)"

definition open_entry :: "int \<Rightarrow> journal_entry \<Rightarrow> journal_entry" where
  "open_entry epoch e = e\<lparr>jeState := interrupted_state (jeState e), jeEpoch := epoch\<rparr>"

definition journal_open_fn :: "(journal_state, int) callback" where
  "journal_open_fn s =
     (let epoch = next_epoch (jsEpoch s)
      in (epoch, Inr \<lparr>jsEpoch = epoch, jsEntries = map (\<lambda>(k, e). (k, open_entry epoch e)) (jsEntries s)\<rparr>))"

definition journal_Open ::
  "gerr option \<Rightarrow> io \<Rightarrow> journal_state content \<Rightarrow> (gerr + journal) \<times> journal_state content" where
  "journal_Open os e d =
     (case os of
        Some x \<Rightarrow> (Inl x, d)
      | None \<Rightarrow>
        (case file_update journal_zero e 0 journal_open_fn d of
           ((epoch, Some x), d') \<Rightarrow> (Inl x, d')
         | ((epoch, None), d') \<Rightarrow> (Inr \<lparr>jnEpoch = epoch, jnClosed = False\<rparr>, d')))"

subsection \<open>Mutations\<close>

definition fenced :: "journal \<Rightarrow> 'o \<Rightarrow> (journal_state, 'o) callback \<Rightarrow> (journal_state, 'o) callback" where
  "fenced j o0 fn s = (if jsEpoch s \<noteq> jnEpoch j then (o0, Inl ErrFence) else fn s)"

definition journal_mutate ::
  "journal \<Rightarrow> io \<Rightarrow> 'o \<Rightarrow> (journal_state, 'o) callback \<Rightarrow> journal_state content
     \<Rightarrow> ('o \<times> gerr option) \<times> journal_state content" where
  "journal_mutate j e o0 fn d =
     (if jnClosed j then ((o0, Some ErrFence), d)
      else file_update journal_zero e o0 (fenced j o0 fn) d)"

definition journal_Close :: "journal \<Rightarrow> journal" where
  "journal_Close j = j\<lparr>jnClosed := True\<rparr>"

definition new_entry :: "string \<Rightarrow> string \<Rightarrow> string \<Rightarrow> int \<Rightarrow> instant \<Rightarrow> journal_entry" where
  "new_entry kind k payload epoch now =
     \<lparr>jeID = k, jeKind = kind, jeState = ''pending'', jePayload = payload, jeResult = None, jeEpoch = epoch,
      jeUpdatedAt = now, jeResolutions = []\<rparr>"

definition put_fn :: "journal \<Rightarrow> string \<Rightarrow> string \<Rightarrow> string \<Rightarrow> instant \<Rightarrow> (journal_state, bool) callback" where
  "put_fn j kind k payload now s =
     (if mget (jsEntries s) (entry_key kind k) \<noteq> None then (False, Inr s)
      else (True, Inr (s\<lparr>jsEntries := mput (entry_key kind k) (new_entry kind k payload (jnEpoch j) now) (jsEntries s)\<rparr>)))"

definition journal_Put ::
  "journal \<Rightarrow> io \<Rightarrow> instant \<Rightarrow> string \<Rightarrow> string \<Rightarrow> gerr + string \<Rightarrow> journal_state content
     \<Rightarrow> (bool \<times> gerr option) \<times> journal_state content" where
  "journal_Put j e now kind k payload d =
     (if k = '''' \<or> kind = '''' then ((False, Some (Msg ''journal identity required'')), d)
      else (case payload of
              Inl x \<Rightarrow> ((False, Some x), d)
            | Inr data \<Rightarrow> journal_mutate j e False (put_fn j kind k data now) d))"

definition move_fn ::
  "string \<Rightarrow> string \<Rightarrow> string \<Rightarrow> string option \<Rightarrow> instant \<Rightarrow> (journal_state, unit) callback" where
  "move_fn ek src dst data now s =
     (case mget (jsEntries s) ek of
        Some e \<Rightarrow>
          if jeState e \<noteq> src then ((), Inl (Errorf ''journal transition rejected: %s %s to %s'' [ek, src, dst]))
          else ((), Inr (s\<lparr>jsEntries := mput ek (e\<lparr>jeState := dst, jeResult := data, jeUpdatedAt := now\<rparr>) (jsEntries s)\<rparr>))
      | None \<Rightarrow> ((), Inl (Errorf ''journal transition rejected: %s %s to %s'' [ek, src, dst])))"

text \<open>The result of a move: \<^const>\<open>None\<close> for the nil interface, otherwise its encoding.\<close>

definition journal_Move ::
  "journal \<Rightarrow> io \<Rightarrow> instant \<Rightarrow> string \<Rightarrow> string \<Rightarrow> string \<Rightarrow> string \<Rightarrow> (gerr + string) option \<Rightarrow> journal_state content
     \<Rightarrow> gerr option \<times> journal_state content" where
  "journal_Move j e now kind k src dst result d =
     (case result of
        Some (Inl x) \<Rightarrow> (Some x, d)
      | _ \<Rightarrow>
        (let data = (case result of Some (Inr b) \<Rightarrow> Some b | _ \<Rightarrow> None)
         in (case journal_mutate j e () (move_fn (entry_key kind k) src dst data now) d of ((_, x), d') \<Rightarrow> (x, d'))))"

definition complete_fn :: "journal \<Rightarrow> string \<Rightarrow> string \<Rightarrow> instant \<Rightarrow> (journal_state, unit) callback" where
  "complete_fn j k data now s =
     (case mget (jsEntries s) (entry_key ''inbox'' k) of
        Some e \<Rightarrow>
          if jeState e \<noteq> ''running'' then ((), Inl (Msg ''inbound request not owned or not running''))
          else ((), Inr (s\<lparr>jsEntries :=
                 mput (entry_key ''outbox'' k) (new_entry ''outbox'' k data (jnEpoch j) now)
                   (mput (entry_key ''inbox'' k)
                      (e\<lparr>jeState := ''completed'', jeResult := Some data, jeUpdatedAt := now\<rparr>) (jsEntries s))\<rparr>))
      | None \<Rightarrow> ((), Inl (Msg ''inbound request not owned or not running'')))"

definition journal_Complete ::
  "journal \<Rightarrow> io \<Rightarrow> instant \<Rightarrow> string \<Rightarrow> gerr + string \<Rightarrow> journal_state content
     \<Rightarrow> gerr option \<times> journal_state content" where
  "journal_Complete j e now k message d =
     (case message of
        Inl x \<Rightarrow> (Some x, d)
      | Inr data \<Rightarrow> (case journal_mutate j e () (complete_fn j k data now) d of ((_, x), d') \<Rightarrow> (x, d')))"

subsection \<open>Operator resolution\<close>

definition unresolved :: "string \<Rightarrow> journal_entry \<Rightarrow> bool" where
  "unresolved kind e \<longleftrightarrow> kind = ''outbox'' \<and> jeState e = ''unknown''
     \<or> kind = ''inbox'' \<and> jeState e = ''needs_reconcile''"

text \<open>The decision on one entry, and the outbox entry it publishes; \<open>enc\<close> encodes a receipt.\<close>

definition decide_entry ::
  "journal \<Rightarrow> (string \<Rightarrow> string) \<Rightarrow> string \<Rightarrow> string \<Rightarrow> resolution \<Rightarrow> string option \<Rightarrow> instant \<Rightarrow> journal_state
     \<Rightarrow> journal_entry \<Rightarrow> gerr + (journal_entry \<times> journal_entry option)" where
  "decide_entry j enc kind k decision recovered now s e =
     (if rsAction decision = ''abandon'' then Inr (e\<lparr>jeState := ''abandoned''\<rparr>, None)
      else if kind = ''outbox'' \<and> rsAction decision = ''delivered'' \<and> TrimSpace (rsReceipt decision) \<noteq> ''''
      then Inr (e\<lparr>jeState := ''delivered'', jeResult := Some (enc (rsReceipt decision))\<rparr>, None)
      else if kind = ''outbox'' \<and> rsAction decision = ''confirmed_not_sent''
      then Inr (e\<lparr>jeState := ''pending''\<rparr>, None)
      else (case recovered of
              Some data \<Rightarrow>
                if kind = ''inbox'' \<and> rsAction decision = ''recover_result'' \<and> data \<noteq> '''' then
                  (if mget (jsEntries s) (entry_key ''outbox'' k) \<noteq> None
                   then Inl (Msg ''outbound result already exists'')
                   else Inr (e\<lparr>jeState := ''completed'', jeResult := Some data\<rparr>,
                             Some (new_entry ''outbox'' k data (jnEpoch j) now)))
                else Inl (Msg ''invalid reconciliation decision or missing receipt/result'')
            | None \<Rightarrow> Inl (Msg ''invalid reconciliation decision or missing receipt/result'')))"

definition resolve_fn ::
  "journal \<Rightarrow> (string \<Rightarrow> string) \<Rightarrow> string \<Rightarrow> string \<Rightarrow> resolution \<Rightarrow> string option \<Rightarrow> instant
     \<Rightarrow> (journal_state, unit) callback" where
  "resolve_fn j enc kind k decision recovered now s =
     (case mget (jsEntries s) (entry_key kind k) of
        None \<Rightarrow> ((), Inl (Msg ''record is not an unresolved outcome''))
      | Some e \<Rightarrow>
        if \<not> unresolved kind e then ((), Inl (Msg ''record is not an unresolved outcome''))
        else (let decision' = decision\<lparr>rsAt := now\<rparr> in
          (case decide_entry j enc kind k decision' recovered now s e of
             Inl x \<Rightarrow> ((), Inl x)
           | Inr (e', published) \<Rightarrow>
             (let entries = (case published of
                     Some ob \<Rightarrow> mput (entry_key ''outbox'' k) ob (jsEntries s) | None \<Rightarrow> jsEntries s);
                  e'' = e'\<lparr>jeResolutions := jeResolutions e' @ [decision'], jeUpdatedAt := now\<rparr>
              in ((), Inr (s\<lparr>jsEntries := mput (entry_key kind k) e'' entries\<rparr>))))))"

definition journal_Resolve ::
  "journal \<Rightarrow> (string \<Rightarrow> string) \<Rightarrow> io \<Rightarrow> instant \<Rightarrow> string \<Rightarrow> string \<Rightarrow> resolution \<Rightarrow> (gerr + string) option
     \<Rightarrow> journal_state content \<Rightarrow> gerr option \<times> journal_state content" where
  "journal_Resolve j enc e now kind k decision message d =
     (if TrimSpace (rsActor decision) = '''' \<or> TrimSpace (rsReason decision) = '''' \<or> TrimSpace (rsEvidence decision) = ''''
      then (Some (Msg ''reconciliation requires operator, reason and evidence''), d)
      else (case message of
              Some (Inl x) \<Rightarrow> (Some x, d)
            | _ \<Rightarrow>
              (let recovered = (case message of Some (Inr b) \<Rightarrow> Some b | _ \<Rightarrow> None)
               in (case journal_mutate j e () (resolve_fn j enc kind k decision recovered now) d of
                     ((_, x), d') \<Rightarrow> (x, d')))))"

subsection \<open>Reading\<close>

definition journal_Get ::
  "io \<Rightarrow> string \<Rightarrow> string \<Rightarrow> journal_state content \<Rightarrow> gerr + journal_entry option" where
  "journal_Get e kind k d =
     (case file_read journal_zero e d of
        (s, Some x) \<Rightarrow> Inl x | (s, None) \<Rightarrow> Inr (mget (jsEntries s) (entry_key kind k)))"

definition journal_List ::
  "io \<Rightarrow> string \<Rightarrow> string \<Rightarrow> journal_state content \<Rightarrow> gerr + journal_entry list" where
  "journal_List e kind st d =
     (case file_read journal_zero e d of
        (s, Some x) \<Rightarrow> Inl x
      | (s, None) \<Rightarrow> Inr (sort_key jeUpdatedAt
          (filter (\<lambda>e. jeKind e = kind \<and> (st = '''' \<or> jeState e = st)) (mvals (jsEntries s)))))"

subsection \<open>The moves of the program\<close>

text \<open>The calls of \<open>Move\<close> in the program: the gateway on requests, the hub on results.\<close>

definition program_move :: "string \<Rightarrow> string \<Rightarrow> string \<Rightarrow> bool" where
  "program_move kind src dst \<longleftrightarrow>
     kind = ''inbox'' \<and> (src = ''pending'' \<and> dst = ''running''
        \<or> src = ''running'' \<and> dst \<in> {''pending'', ''needs_reconcile'', ''merged''})
   \<or> kind = ''outbox'' \<and> (src = ''pending'' \<and> dst = ''sending''
        \<or> src = ''sending'' \<and> dst \<in> {''delivered'', ''unknown'', ''dropped''})"

text \<open>
  One call on the file, by any journal object: results posted directly (\<open>PostDurable\<close>) have
  identifiers apart from those of requests, which is \<open>direct\<close>; the epoch counter does not run out.
\<close>

inductive journal_act :: "(string \<Rightarrow> bool) \<Rightarrow> journal_state content \<Rightarrow> journal_state content \<Rightarrow> bool" for direct where
  opened: "journal_Open os e d = (r, d') \<Longrightarrow> (\<And>s. decode journal_zero d = Inr s \<Longrightarrow> jsEpoch s + 1 < 2 ^ 64) \<Longrightarrow>
    journal_act direct d d'"
| put: "journal_Put j e now kind k payload d = (r, d') \<Longrightarrow>
    kind = ''inbox'' \<and> \<not> direct k \<or> kind = ''outbox'' \<and> direct k \<Longrightarrow> journal_act direct d d'"
| moved: "journal_Move j e now kind k src dst result d = (r, d') \<Longrightarrow> program_move kind src dst \<Longrightarrow>
    journal_act direct d d'"
| completed: "journal_Complete j e now k message d = (r, d') \<Longrightarrow> journal_act direct d d'"
| resolved: "journal_Resolve j enc e now kind k decision message d = (r, d') \<Longrightarrow> journal_act direct d d'"

text \<open>What such a call does to the state of the file, when it does anything.\<close>

definition jput :: "string \<Rightarrow> journal_entry \<Rightarrow> journal_state \<Rightarrow> journal_state" where
  "jput ek e s = s\<lparr>jsEntries := mput ek e (jsEntries s)\<rparr>"

inductive journal_step :: "(string \<Rightarrow> bool) \<Rightarrow> journal_state \<Rightarrow> journal_state \<Rightarrow> bool" for direct where
  open_step: "epoch = jsEpoch s + 1 \<Longrightarrow>
    journal_step direct s \<lparr>jsEpoch = epoch, jsEntries = map (\<lambda>(k, e). (k, open_entry epoch e)) (jsEntries s)\<rparr>"
| put_step: "mget (jsEntries s) (entry_key kind k) = None \<Longrightarrow>
    kind = ''inbox'' \<and> \<not> direct k \<or> kind = ''outbox'' \<and> direct k \<Longrightarrow>
    journal_step direct s (jput (entry_key kind k) (new_entry kind k data epoch now) s)"
| move_step: "mget (jsEntries s) (entry_key kind k) = Some e \<Longrightarrow> program_move kind (jeState e) dst \<Longrightarrow>
    journal_step direct s (jput (entry_key kind k) (e\<lparr>jeState := dst, jeResult := data, jeUpdatedAt := now\<rparr>) s)"
| complete_step: "mget (jsEntries s) (entry_key ''inbox'' k) = Some e \<Longrightarrow> jeState e = ''running'' \<Longrightarrow>
    journal_step direct s (jput (entry_key ''outbox'' k) (new_entry ''outbox'' k data epoch now)
      (jput (entry_key ''inbox'' k) (e\<lparr>jeState := ''completed'', jeResult := Some data, jeUpdatedAt := now\<rparr>) s))"
| resolve_step: "mget (jsEntries s) (entry_key kind k) = Some e \<Longrightarrow> unresolved kind e \<Longrightarrow>
    TrimSpace (rsActor dc) \<noteq> '''' \<and> TrimSpace (rsReason dc) \<noteq> '''' \<and> TrimSpace (rsEvidence dc) \<noteq> '''' \<Longrightarrow>
    decide_entry j enc kind k dc recovered now s e = Inr (e', None) \<Longrightarrow>
    journal_step direct s (jput (entry_key kind k) (e'\<lparr>jeResolutions := jeResolutions e' @ [dc], jeUpdatedAt := now\<rparr>) s)"
| recover_step: "mget (jsEntries s) (entry_key ''inbox'' k) = Some e \<Longrightarrow> jeState e = ''needs_reconcile'' \<Longrightarrow>
    TrimSpace (rsActor dc) \<noteq> '''' \<and> TrimSpace (rsReason dc) \<noteq> '''' \<and> TrimSpace (rsEvidence dc) \<noteq> '''' \<Longrightarrow>
    rsAction dc = ''recover_result'' \<Longrightarrow> mget (jsEntries s) (entry_key ''outbox'' k) = None \<Longrightarrow>
    journal_step direct s (jput (entry_key ''inbox'' k)
        (e\<lparr>jeState := ''completed'', jeResult := Some data, jeResolutions := jeResolutions e @ [dc], jeUpdatedAt := now\<rparr>)
      (jput (entry_key ''outbox'' k) (new_entry ''outbox'' k data epoch now) s))"

lemma journal_mutate_effect:
  assumes "journal_mutate j e o0 fn d = ((o1, x), d')" "decode journal_zero d = Inr s"
  shows "(d' = d \<and> x \<noteq> None) \<or> (\<exists>s'. jsEpoch s = jnEpoch j \<and> \<not> jnClosed j \<and> fn s = (o1, Inr s') \<and> d' = Holds s')"
proof (cases "jnClosed j")
  case True
  with assms show ?thesis by (auto simp: journal_mutate_def)
next
  case False
  with assms(1) have u: "file_update journal_zero e o0 (fenced j o0 fn) d = ((o1, x), d')"
    by (simp add: journal_mutate_def)
  show ?thesis
  proof (cases rule: file_update_cases [OF u])
    case 1
    then show ?thesis by simp
  next
    case (2 v v')
    with assms(2) False show ?thesis by (auto simp: fenced_def split: if_splits)
  qed
qed

lemma next_epoch_id: "0 \<le> n \<Longrightarrow> n + 1 < 2 ^ 64 \<Longrightarrow> next_epoch n = n + 1"
  by (simp add: next_epoch_def)

lemma journal_Open_effect:
  assumes "journal_Open os e d = (r, d')" "decode journal_zero d = Inr s" "0 \<le> jsEpoch s" "jsEpoch s + 1 < 2 ^ 64"
  shows "(d' = d \<and> (\<forall>j. r \<noteq> Inr j)) \<or> (d' = Holds \<lparr>jsEpoch = jsEpoch s + 1,
       jsEntries = map (\<lambda>(k, e). (k, open_entry (jsEpoch s + 1) e)) (jsEntries s)\<rparr>
     \<and> (\<forall>j. r = Inr j \<longrightarrow> j = \<lparr>jnEpoch = jsEpoch s + 1, jnClosed = False\<rparr>))"
proof (cases os)
  case (Some x)
  with assms(1) show ?thesis by (auto simp: journal_Open_def)
next
  case None
  obtain o1 x where u: "file_update journal_zero e 0 journal_open_fn d = ((o1, x), d')"
    and r: "r = (case x of Some y \<Rightarrow> Inl y | None \<Rightarrow> Inr \<lparr>jnEpoch = o1, jnClosed = False\<rparr>)"
    using assms(1) None by (auto simp: journal_Open_def split: prod.splits option.splits)
  show ?thesis
  proof (cases rule: file_update_cases [OF u])
    case 1
    with r show ?thesis by (auto split: option.splits)
  next
    case (2 v v')
    with assms(2-4) r show ?thesis
      by (auto simp: journal_open_fn_def Let_def next_epoch_id split: option.splits)
  qed
qed

lemma move_fn_effect:
  "move_fn ek src dst data now s = (u, Inr s') \<Longrightarrow>
   \<exists>e. mget (jsEntries s) ek = Some e \<and> jeState e = src
     \<and> s' = jput ek (e\<lparr>jeState := dst, jeResult := data, jeUpdatedAt := now\<rparr>) s"
  by (auto simp: move_fn_def jput_def split: option.splits if_splits)

lemma complete_fn_effect:
  "complete_fn j k data now s = (u, Inr s') \<Longrightarrow>
   \<exists>e. mget (jsEntries s) (entry_key ''inbox'' k) = Some e \<and> jeState e = ''running''
     \<and> s' = jput (entry_key ''outbox'' k) (new_entry ''outbox'' k data (jnEpoch j) now)
          (jput (entry_key ''inbox'' k) (e\<lparr>jeState := ''completed'', jeResult := Some data, jeUpdatedAt := now\<rparr>) s)"
  by (auto simp: complete_fn_def jput_def split: option.splits if_splits)

lemma decide_entry_recover:
  "decide_entry j enc kind k dc recovered now s e = Inr (e', Some ob) \<Longrightarrow>
   kind = ''inbox'' \<and> rsAction dc = ''recover_result'' \<and> mget (jsEntries s) (entry_key ''outbox'' k) = None
   \<and> (\<exists>data. e' = e\<lparr>jeState := ''completed'', jeResult := Some data\<rparr> \<and> ob = new_entry ''outbox'' k data (jnEpoch j) now)"
  by (auto simp: decide_entry_def split: if_splits option.splits)

lemma decide_entry_plain:
  "decide_entry j enc kind k dc recovered now s e = Inr (e', None) \<Longrightarrow>
   (rsAction dc = ''abandon'' \<and> e' = e\<lparr>jeState := ''abandoned''\<rparr>)
   \<or> (kind = ''outbox'' \<and> rsAction dc = ''delivered'' \<and> TrimSpace (rsReceipt dc) \<noteq> ''''
       \<and> e' = e\<lparr>jeState := ''delivered'', jeResult := Some (enc (rsReceipt dc))\<rparr>)
   \<or> (kind = ''outbox'' \<and> rsAction dc = ''confirmed_not_sent'' \<and> e' = e\<lparr>jeState := ''pending''\<rparr>)"
  by (auto simp: decide_entry_def split: if_splits option.splits)

lemma resolve_fn_effect:
  assumes "resolve_fn j enc kind k dc recovered now s = (u, Inr s')"
    and "TrimSpace (rsActor dc) \<noteq> '''' \<and> TrimSpace (rsReason dc) \<noteq> '''' \<and> TrimSpace (rsEvidence dc) \<noteq> ''''"
  shows "journal_step direct s s'"
proof -
  let ?dc = "dc\<lparr>rsAt := now\<rparr>"
  from assms(1) obtain e e' pub where e: "mget (jsEntries s) (entry_key kind k) = Some e" "unresolved kind e"
    "decide_entry j enc kind k ?dc recovered now s e = Inr (e', pub)"
    "s' = s\<lparr>jsEntries := mput (entry_key kind k) (e'\<lparr>jeResolutions := jeResolutions e' @ [?dc], jeUpdatedAt := now\<rparr>)
       (case pub of Some ob \<Rightarrow> mput (entry_key ''outbox'' k) ob (jsEntries s) | None \<Rightarrow> jsEntries s)\<rparr>"
    by (auto simp: resolve_fn_def Let_def split: option.splits if_splits sum.splits prod.splits)
  show ?thesis
  proof (cases pub)
    case None
    with e assms(2) show ?thesis
      using journal_step.resolve_step [OF e(1,2), of ?dc j enc recovered now e' direct] by (simp add: jput_def)
  next
    case (Some ob)
    from decide_entry_recover [OF e(3) [unfolded Some]] obtain data where r: "kind = ''inbox''"
      "rsAction dc = ''recover_result''" "mget (jsEntries s) (entry_key ''outbox'' k) = None"
      "e' = e\<lparr>jeState := ''completed'', jeResult := Some data\<rparr>" "ob = new_entry ''outbox'' k data (jnEpoch j) now"
      by auto
    then have "jeState e = ''needs_reconcile''" using e(2) by (simp add: unresolved_def)
    then have "journal_step direct s (jput (entry_key ''inbox'' k)
        (e\<lparr>jeState := ''completed'', jeResult := Some data, jeResolutions := jeResolutions e @ [?dc], jeUpdatedAt := now\<rparr>)
      (jput (entry_key ''outbox'' k) (new_entry ''outbox'' k data (jnEpoch j) now) s))"
      using e(1) r assms(2) by (intro journal_step.recover_step) auto
    with e r Some show ?thesis by (simp add: jput_def)
  qed
qed

lemma journal_act_step:
  assumes "journal_act direct d d'" "decode journal_zero d = Inr s" "0 \<le> jsEpoch s"
  shows "\<exists>s'. decode journal_zero d' = Inr s' \<and> (s' = s \<or> journal_step direct s s')"
  using assms(1)
proof cases
  case (opened os e r)
  with journal_Open_effect [OF opened(1) assms(2,3)] assms(2) show ?thesis
    using journal_step.open_step [of "jsEpoch s + 1" s direct] by auto
next
  case (put j e now kind k payload r)
  show ?thesis
  proof (cases "\<exists>data c x. journal_mutate j e False (put_fn j kind k data now) d = ((c, x), d')")
    case False
    with put(1) assms(2) show ?thesis
      by (auto simp: journal_Put_def split: if_splits sum.splits) (metis surj_pair)
  next
    case True
    then obtain data c x where "journal_mutate j e False (put_fn j kind k data now) d = ((c, x), d')" by blast
    from journal_mutate_effect [OF this assms(2)] assms(2) show ?thesis
      using journal_step.put_step [where direct = direct, OF _ put(2), of s data "jnEpoch j" now]
      by (auto simp: put_fn_def jput_def split: if_splits)
  qed
next
  case (moved j e now kind k src dst result r)
  show ?thesis
  proof (cases "\<exists>data c x. journal_mutate j e () (move_fn (entry_key kind k) src dst data now) d = ((c, x), d')")
    case False
    with moved(1) assms(2) show ?thesis
      by (auto simp: journal_Move_def Let_def split: option.splits sum.splits prod.splits)
  next
    case True
    then obtain data c x where m: "journal_mutate j e () (move_fn (entry_key kind k) src dst data now) d = ((c, x), d')"
      by blast
    from journal_mutate_effect [OF m assms(2)] show ?thesis
    proof (elim disjE exE conjE)
      assume "d' = d" then show ?thesis using assms(2) by auto
    next
      fix s' assume "move_fn (entry_key kind k) src dst data now s = (c, Inr s')" "d' = Holds s'"
      then show ?thesis using moved(2) by (auto dest!: move_fn_effect intro: journal_step.move_step)
    qed
  qed
next
  case (completed j e now k message r)
  show ?thesis
  proof (cases "\<exists>data c x. journal_mutate j e () (complete_fn j k data now) d = ((c, x), d')")
    case False
    with completed(1) assms(2) show ?thesis
      by (auto simp: journal_Complete_def split: sum.splits prod.splits)
  next
    case True
    then obtain data c x where m: "journal_mutate j e () (complete_fn j k data now) d = ((c, x), d')" by blast
    from journal_mutate_effect [OF m assms(2)] show ?thesis
    proof (elim disjE exE conjE)
      assume "d' = d" then show ?thesis using assms(2) by auto
    next
      fix s' assume "complete_fn j k data now s = (c, Inr s')" "d' = Holds s'"
      then show ?thesis by (auto dest!: complete_fn_effect intro: journal_step.complete_step)
    qed
  qed
next
  case (resolved j enc e now kind k dc message r)
  show ?thesis
  proof (cases "\<exists>rec c x. journal_mutate j e () (resolve_fn j enc kind k dc rec now) d = ((c, x), d')
      \<and> TrimSpace (rsActor dc) \<noteq> '''' \<and> TrimSpace (rsReason dc) \<noteq> '''' \<and> TrimSpace (rsEvidence dc) \<noteq> ''''")
    case False
    with resolved(1) assms(2) show ?thesis
      by (auto simp: journal_Resolve_def Let_def split: if_splits option.splits sum.splits prod.splits)
  next
    case True
    then obtain rec c x where m: "journal_mutate j e () (resolve_fn j enc kind k dc rec now) d = ((c, x), d')"
      and ev: "TrimSpace (rsActor dc) \<noteq> '''' \<and> TrimSpace (rsReason dc) \<noteq> '''' \<and> TrimSpace (rsEvidence dc) \<noteq> ''''"
      by blast
    from journal_mutate_effect [OF m assms(2)] show ?thesis
    proof (elim disjE exE conjE)
      assume "d' = d" then show ?thesis using assms(2) by auto
    next
      fix s' assume "resolve_fn j enc kind k dc rec now s = (c, Inr s')" "d' = Holds s'"
      then show ?thesis using resolve_fn_effect [OF _ ev] by auto
    qed
  qed
qed

subsection \<open>The life of an entry\<close>

inductive life :: "string \<Rightarrow> string \<Rightarrow> string \<Rightarrow> bool" where
  start: "life ''inbox'' ''pending'' ''running''"
| give_back: "life ''inbox'' ''running'' ''pending''"
| merge: "life ''inbox'' ''running'' ''merged''"
| finish: "life ''inbox'' ''running'' ''completed''"
| interrupt: "life ''inbox'' ''running'' ''needs_reconcile''"
| recover: "life ''inbox'' ''needs_reconcile'' ''completed''"
| abandon_request: "life ''inbox'' ''needs_reconcile'' ''abandoned''"
| send: "life ''outbox'' ''pending'' ''sending''"
| deliver: "life ''outbox'' ''sending'' ''delivered''"
| drop_result: "life ''outbox'' ''sending'' ''dropped''"
| lose: "life ''outbox'' ''sending'' ''unknown''"
| confirm: "life ''outbox'' ''unknown'' ''delivered''"
| retry: "life ''outbox'' ''unknown'' ''pending''"
| abandon_result: "life ''outbox'' ''unknown'' ''abandoned''"

text \<open>An operator decision on record: named, reasoned, with evidence, and of the given action.\<close>

definition decided_by :: "string \<Rightarrow> resolution \<Rightarrow> bool" where
  "decided_by action dc \<longleftrightarrow> rsAction dc = action \<and> TrimSpace (rsActor dc) \<noteq> '''' \<and> TrimSpace (rsReason dc) \<noteq> ''''
     \<and> TrimSpace (rsEvidence dc) \<noteq> ''''"

definition decision_action :: "string \<Rightarrow> string" where
  "decision_action st = (if st = ''completed'' then ''recover_result'' else if st = ''abandoned'' then ''abandon''
     else if st = ''delivered'' then ''delivered'' else ''confirmed_not_sent'')"

text \<open>One step in the life of an entry: the payload stays, the state moves along the graph, and a
  state that needs an operator is left only by a decision that is put on record.\<close>

definition evolves :: "journal_entry \<Rightarrow> journal_entry \<Rightarrow> bool" where
  "evolves e e' \<longleftrightarrow> jeID e' = jeID e \<and> jeKind e' = jeKind e \<and> jePayload e' = jePayload e
     \<and> (jeState e' = jeState e \<or> life (jeKind e) (jeState e) (jeState e'))
     \<and> (if jeState e \<in> {''unknown'', ''needs_reconcile''} \<and> jeState e' \<noteq> jeState e
        then \<exists>dc. jeResolutions e' = jeResolutions e @ [dc] \<and> decided_by (decision_action (jeState e')) dc
        else jeResolutions e' = jeResolutions e)"

text \<open>The invariant of the file: entries are filed under their key; requests and directly posted
  results are apart; a completed request has its result in the outbox, and a result in the
  outbox that was not posted directly belongs to a completed request.\<close>

definition journal_inv :: "(string \<Rightarrow> bool) \<Rightarrow> journal_state \<Rightarrow> bool" where
  "journal_inv direct s \<longleftrightarrow> 0 \<le> jsEpoch s
     \<and> mall (\<lambda>ek e. ek = entry_key (jeKind e) (jeID e) \<and> jeKind e \<in> {''inbox'', ''outbox''}) (jsEntries s)
     \<and> (\<forall>k e. mget (jsEntries s) (entry_key ''inbox'' k) = Some e \<longrightarrow> \<not> direct k \<and>
          (jeState e = ''completed'' \<longrightarrow> (\<exists>ob. mget (jsEntries s) (entry_key ''outbox'' k) = Some ob
             \<and> jeResult e = Some (jePayload ob))))
     \<and> (\<forall>k ob. mget (jsEntries s) (entry_key ''outbox'' k) = Some ob \<longrightarrow> direct k \<or>
          (\<exists>e. mget (jsEntries s) (entry_key ''inbox'' k) = Some e \<and> jeState e = ''completed''))"

lemma entry_key_simps [simp]:
  "entry_key ''inbox'' k = entry_key ''inbox'' k' \<longleftrightarrow> k = k'"
  "entry_key ''outbox'' k = entry_key ''outbox'' k' \<longleftrightarrow> k = k'"
  "entry_key ''inbox'' k \<noteq> entry_key ''outbox'' k'"
  "entry_key ''outbox'' k' \<noteq> entry_key ''inbox'' k"
  by (auto simp: entry_key_def)

lemma jput_simps [simp]:
  "jsEpoch (jput ek e s) = jsEpoch s" "jsEntries (jput ek e s) = mput ek e (jsEntries s)"
  by (simp_all add: jput_def)

lemma new_entry_simps [simp]:
  "jeID (new_entry kind k data epoch now) = k" "jeKind (new_entry kind k data epoch now) = kind"
  "jeState (new_entry kind k data epoch now) = ''pending''" "jePayload (new_entry kind k data epoch now) = data"
  by (simp_all add: new_entry_def)

lemma mget_map_snd: "mget (map (\<lambda>(k, e). (k, f e)) m) k = map_option f (mget m k)"
  by (induction m) auto

lemma inv_filed:
  "journal_inv direct s \<Longrightarrow> mget (jsEntries s) ek = Some e \<Longrightarrow>
   ek = entry_key (jeKind e) (jeID e) \<and> jeKind e \<in> {''inbox'', ''outbox''}"
  unfolding journal_inv_def by (elim conjE, drule (1) mallD, simp)

lemma inv_filed_key:
  assumes "journal_inv direct s" "mget (jsEntries s) (entry_key kind k) = Some e" "kind \<in> {''inbox'', ''outbox''}"
  shows "jeKind e = kind \<and> jeID e = k"
  using inv_filed [OF assms(1,2)] assms(3) by (elim conjE insertE) auto

lemma inv_completed:
  "journal_inv direct s \<Longrightarrow> mget (jsEntries s) (entry_key ''inbox'' k) = Some e \<Longrightarrow> jeState e = ''completed'' \<Longrightarrow>
   \<exists>ob. mget (jsEntries s) (entry_key ''outbox'' k) = Some ob \<and> jeResult e = Some (jePayload ob)"
  unfolding journal_inv_def by blast

lemma inv_put_entry:
  assumes "journal_inv direct s" "kind = ''inbox'' \<and> \<not> direct k \<or> kind = ''outbox'' \<and> direct k"
    and "mget (jsEntries s) (entry_key kind k) = None"
  shows "journal_inv direct (jput (entry_key kind k) (new_entry kind k data epoch now) s)"
  using assms(2)
proof (elim disjE conjE)
  assume [simp]: "kind = ''inbox''" and "\<not> direct k"
  then show ?thesis using assms(1,3) by (auto simp: journal_inv_def intro!: mall_mput)
next
  assume [simp]: "kind = ''outbox''" and "direct k"
  then show ?thesis using assms(1,3) by (auto simp: journal_inv_def intro!: mall_mput)
qed

lemma inv_update_entry:
  assumes "journal_inv direct s" "mget (jsEntries s) (entry_key kind k) = Some e" "kind \<in> {''inbox'', ''outbox''}"
    and "jeID e' = jeID e" "jeKind e' = jeKind e" "jePayload e' = jePayload e"
    and "kind = ''inbox'' \<Longrightarrow> jeState e \<noteq> ''completed'' \<and> jeState e' \<noteq> ''completed''"
  shows "journal_inv direct (jput (entry_key kind k) e' s)"
  using assms(3)
proof (elim insertE emptyE)
  assume [simp]: "kind = ''inbox''"
  show ?thesis using assms(1,2,4-7) inv_filed_key [OF assms(1-3)]
    by (auto simp: journal_inv_def intro!: mall_mput)
next
  assume [simp]: "kind = ''outbox''"
  have e: "mget (jsEntries s) (entry_key ''outbox'' k) = Some e" using assms(2) by simp
  have ids: "jeKind e' = ''outbox''" "jeID e' = k" using inv_filed_key [OF assms(1-3)] assms(4,5) by simp_all
  show ?thesis
    unfolding journal_inv_def
  proof (intro conjI allI impI)
    show "0 \<le> jsEpoch (jput (entry_key kind k) e' s)" using assms(1) by (simp add: journal_inv_def)
    show "mall (\<lambda>ek e. ek = entry_key (jeKind e) (jeID e) \<and> jeKind e \<in> {''inbox'', ''outbox''})
        (jsEntries (jput (entry_key kind k) e' s))"
      using assms(1) ids by (auto simp: journal_inv_def intro!: mall_mput)
  next
    fix k' e0 assume e0: "mget (jsEntries (jput (entry_key kind k) e' s)) (entry_key ''inbox'' k') = Some e0"
    then show "\<not> direct k'" using assms(1) by (auto simp: journal_inv_def)
    assume "jeState e0 = ''completed''"
    then obtain ob where "mget (jsEntries s) (entry_key ''outbox'' k') = Some ob" "jeResult e0 = Some (jePayload ob)"
      using inv_completed [OF assms(1)] e0 by auto
    then show "\<exists>ob. mget (jsEntries (jput (entry_key kind k) e' s)) (entry_key ''outbox'' k') = Some ob
        \<and> jeResult e0 = Some (jePayload ob)"
      using e assms(6) by auto
  next
    fix k' ob assume "mget (jsEntries (jput (entry_key kind k) e' s)) (entry_key ''outbox'' k') = Some ob"
    then have "\<exists>ob. mget (jsEntries s) (entry_key ''outbox'' k') = Some ob" using e by (auto split: if_splits)
    then show "direct k' \<or> (\<exists>e. mget (jsEntries (jput (entry_key kind k) e' s)) (entry_key ''inbox'' k') = Some e
        \<and> jeState e = ''completed'')"
      using assms(1) by (auto simp: journal_inv_def)
  qed
qed

lemma inv_complete:
  assumes "journal_inv direct s" "mget (jsEntries s) (entry_key ''inbox'' k) = Some e" "jeState e \<noteq> ''completed''"
    and "jeID e' = jeID e" "jeKind e' = jeKind e" "jeState e' = ''completed''" "jeResult e' = Some data"
    and "s' = jput (entry_key ''outbox'' k) (new_entry ''outbox'' k data epoch now) (jput (entry_key ''inbox'' k) e' s)
       \<or> s' = jput (entry_key ''inbox'' k) e' (jput (entry_key ''outbox'' k) (new_entry ''outbox'' k data epoch now) s)"
  shows "journal_inv direct s'"
proof -
  have k: "jeKind e = ''inbox'' \<and> jeID e = k" using inv_filed_key [OF assms(1,2)] by simp
  have "\<not> direct k" using assms(1,2) by (auto simp: journal_inv_def)
  with assms(8) assms(1-7) k show ?thesis
    by (elim disjE) (auto simp: journal_inv_def intro!: mall_mput)
qed

lemma journal_step_inv: "journal_step direct s s' \<Longrightarrow> journal_inv direct s \<Longrightarrow> journal_inv direct s'"
proof (induction rule: journal_step.induct)
  case (open_step epoch s)
  define s' where "s' = \<lparr>jsEpoch = epoch, jsEntries = map (\<lambda>(k, e). (k, open_entry epoch e)) (jsEntries s)\<rparr>"
  have get: "mget (jsEntries s') ek = map_option (open_entry epoch) (mget (jsEntries s) ek)" for ek
    by (simp add: s'_def mget_map_snd)
  have [simp]: "jeKind (open_entry epoch e) = jeKind e" "jeID (open_entry epoch e) = jeID e"
    "jePayload (open_entry epoch e) = jePayload e" "jeResult (open_entry epoch e) = jeResult e"
    "jeState (open_entry epoch e) = ''completed'' \<longleftrightarrow> jeState e = ''completed''" for e
    by (auto simp: open_entry_def interrupted_state_def)
  have "journal_inv direct s'"
    unfolding journal_inv_def
  proof (intro conjI allI impI)
    show "0 \<le> jsEpoch s'" using open_step by (simp add: s'_def journal_inv_def)
    show "mall (\<lambda>ek e. ek = entry_key (jeKind e) (jeID e) \<and> jeKind e \<in> {''inbox'', ''outbox''}) (jsEntries s')"
      unfolding mall_def get using inv_filed [OF open_step(2)]
      by (fastforce simp del: insert_iff)
  next
    fix k e assume "mget (jsEntries s') (entry_key ''inbox'' k) = Some e"
    then obtain e0 where e0: "mget (jsEntries s) (entry_key ''inbox'' k) = Some e0" "e = open_entry epoch e0"
      by (auto simp: get)
    then show "\<not> direct k" using open_step(2) by (auto simp: journal_inv_def)
    assume "jeState e = ''completed''"
    with e0 obtain ob where "mget (jsEntries s) (entry_key ''outbox'' k) = Some ob" "jeResult e0 = Some (jePayload ob)"
      using inv_completed [OF open_step(2)] by auto
    with e0 show "\<exists>ob. mget (jsEntries s') (entry_key ''outbox'' k) = Some ob \<and> jeResult e = Some (jePayload ob)"
      by (simp add: get)
  next
    fix k ob assume "mget (jsEntries s') (entry_key ''outbox'' k) = Some ob"
    then have "direct k \<or> (\<exists>e. mget (jsEntries s) (entry_key ''inbox'' k) = Some e \<and> jeState e = ''completed'')"
      using open_step(2) by (auto simp: get journal_inv_def)
    then show "direct k \<or> (\<exists>e. mget (jsEntries s') (entry_key ''inbox'' k) = Some e \<and> jeState e = ''completed'')"
      by (auto simp: get)
  qed
  then show ?case by (simp add: s'_def)
next
  case (put_step s kind k data epoch now)
  then show ?case by (intro inv_put_entry)
next
  case (move_step s kind k e dst data now)
  then show ?case by (intro inv_update_entry [of direct s kind k e]) (auto simp: program_move_def)
next
  case (complete_step s k e data epoch now)
  show ?case
    by (rule inv_complete [OF complete_step.prems complete_step.hyps(1) _ _ _ _ _ disjI1 [OF refl]])
      (simp_all add: complete_step.hyps(2))
next
  case (resolve_step s kind k e dc j enc recovered now e')
  then have kind: "kind \<in> {''inbox'', ''outbox''}" and "jeState e \<noteq> ''completed''"
    by (auto simp: unresolved_def)
  have e': "jeID e' = jeID e" "jeKind e' = jeKind e" "jePayload e' = jePayload e" "jeState e' \<noteq> ''completed''"
    using decide_entry_plain [OF resolve_step.hyps(4)] by (elim disjE conjE; simp)+
  show ?case
    by (rule inv_update_entry [OF resolve_step.prems resolve_step.hyps(1) kind])
      (simp_all add: e' \<open>jeState e \<noteq> ''completed''\<close>)
next
  case (recover_step s k e dc data epoch now)
  show ?case
    by (rule inv_complete [OF recover_step.prems recover_step.hyps(1) _ _ _ _ _ disjI2 [OF refl]])
      (simp_all add: recover_step.hyps(2))
qed

interpretation journal_steps: stepper "journal_step direct" "journal_inv direct" for direct
  by unfold_locales (rule journal_step_inv)

text \<open>The same on the file.\<close>

definition journal_file :: "(string \<Rightarrow> bool) \<Rightarrow> journal_state content \<Rightarrow> bool" where
  "journal_file direct d \<longleftrightarrow> (\<exists>s. decode journal_zero d = Inr s \<and> journal_inv direct s)"

lemma journal_act_file: "journal_act direct d d' \<Longrightarrow> journal_file direct d \<Longrightarrow> journal_file direct d'"
  using journal_act_step journal_step_inv unfolding journal_file_def
  by (metis journal_inv_def)

interpretation journal_acts: stepper "journal_act direct" "journal_file direct" for direct
  by unfold_locales (rule journal_act_file)

lemma journal_file_absent: "journal_file direct Absent"
  by (simp add: journal_file_def journal_inv_def journal_zero_def)

subsection \<open>Entries evolve\<close>

lemma evolves_refl [simp]: "evolves e e"
  by (simp add: evolves_def)

lemma program_move_life: "program_move kind src dst \<Longrightarrow> life kind src dst"
  by (auto simp: program_move_def intro: life.intros)

lemma program_move_src: "program_move kind src dst \<Longrightarrow> src \<notin> {''unknown'', ''needs_reconcile''}"
  by (auto simp: program_move_def)

lemma evolves_move:
  assumes "jeKind e = kind" "program_move kind (jeState e) dst"
  shows "evolves e (e\<lparr>jeState := dst, jeResult := data, jeUpdatedAt := now\<rparr>)"
  using assms program_move_life [OF assms(2)] program_move_src [OF assms(2)] by (simp add: evolves_def)

lemma evolves_open:
  "jeKind e \<in> {''inbox'', ''outbox''} \<Longrightarrow> jeState e = ''running'' \<longrightarrow> jeKind e = ''inbox'' \<Longrightarrow>
   jeState e = ''sending'' \<longrightarrow> jeKind e = ''outbox'' \<Longrightarrow> evolves e (open_entry epoch e)"
  by (auto simp: evolves_def open_entry_def interrupted_state_def intro: life.intros)

lemma evolves_resolve:
  assumes "unresolved kind e" "jeKind e = kind" "decide_entry j enc kind k dc recovered now s e = Inr (e', None)"
    and "TrimSpace (rsActor dc) \<noteq> '''' \<and> TrimSpace (rsReason dc) \<noteq> '''' \<and> TrimSpace (rsEvidence dc) \<noteq> ''''"
  shows "evolves e (e'\<lparr>jeResolutions := jeResolutions e' @ [dc], jeUpdatedAt := now\<rparr>)"
  using decide_entry_plain [OF assms(3)] assms(1,2,4)
  by (elim disjE conjE)
    (auto simp: unresolved_def evolves_def decided_by_def decision_action_def intro: life.intros)

lemma evolves_recover:
  "jeKind e = ''inbox'' \<Longrightarrow> jeState e = ''needs_reconcile'' \<Longrightarrow> rsAction dc = ''recover_result'' \<Longrightarrow>
   TrimSpace (rsActor dc) \<noteq> '''' \<and> TrimSpace (rsReason dc) \<noteq> '''' \<and> TrimSpace (rsEvidence dc) \<noteq> '''' \<Longrightarrow>
   evolves e (e\<lparr>jeState := ''completed'', jeResult := Some data, jeResolutions := jeResolutions e @ [dc], jeUpdatedAt := now\<rparr>)"
  by (auto simp: evolves_def decided_by_def decision_action_def intro: life.intros)

lemma evolves_complete:
  "jeKind e = ''inbox'' \<Longrightarrow> jeState e = ''running'' \<Longrightarrow>
   evolves e (e\<lparr>jeState := ''completed'', jeResult := Some data, jeUpdatedAt := now\<rparr>)"
  by (auto simp: evolves_def intro: life.intros)

text \<open>The states that occur: a request is never sending, a result never running.\<close>

definition states_ok :: "journal_state \<Rightarrow> bool" where
  "states_ok s \<longleftrightarrow> mall (\<lambda>ek e. (jeState e = ''running'' \<longrightarrow> jeKind e = ''inbox'')
     \<and> (jeState e = ''sending'' \<longrightarrow> jeKind e = ''outbox'')) (jsEntries s)"

definition all_evolve :: "journal_state \<Rightarrow> journal_state \<Rightarrow> bool" where
  "all_evolve s s' \<longleftrightarrow> mall (\<lambda>ek e. \<exists>e'. mget (jsEntries s') ek = Some e' \<and> evolves e e') (jsEntries s)"

lemma all_evolve_put:
  "(case mget (jsEntries s) ek of None \<Rightarrow> True | Some e \<Rightarrow> evolves e e') \<Longrightarrow> all_evolve s (jput ek e' s)"
  by (auto simp: all_evolve_def mall_def split: option.splits)

lemma all_evolve_put2:
  assumes "mget (jsEntries s) a = Some e" "evolves e e'" "mget (jsEntries s) b = None"
  shows "all_evolve s (jput b x (jput a e' s))" "all_evolve s (jput a e' (jput b x s))"
  using assms by (auto simp: all_evolve_def mall_def)

lemma inv_result:
  "journal_inv direct s \<Longrightarrow> mget (jsEntries s) (entry_key ''outbox'' k) = Some ob \<Longrightarrow>
   direct k \<or> (\<exists>e. mget (jsEntries s) (entry_key ''inbox'' k) = Some e \<and> jeState e = ''completed'')"
  unfolding journal_inv_def by blast

lemma inv_request: "journal_inv direct s \<Longrightarrow> mget (jsEntries s) (entry_key ''inbox'' k) = Some e \<Longrightarrow> \<not> direct k"
  unfolding journal_inv_def by blast

lemma inv_no_result:
  "journal_inv direct s \<Longrightarrow> mget (jsEntries s) (entry_key ''inbox'' k) = Some e \<Longrightarrow> jeState e \<noteq> ''completed'' \<Longrightarrow>
   mget (jsEntries s) (entry_key ''outbox'' k) = None"
  using inv_result [of direct s k] inv_request [of direct s k e]
  by (cases "mget (jsEntries s) (entry_key ''outbox'' k)") auto

lemma journal_step_evolve:
  "journal_step direct s s' \<Longrightarrow> journal_inv direct s \<Longrightarrow> states_ok s \<Longrightarrow> all_evolve s s'"
proof (induction rule: journal_step.induct)
  case (open_step epoch s)
  show ?case
    unfolding all_evolve_def mall_def
  proof (intro allI impI)
    fix ek e assume e: "mget (jsEntries s) ek = Some e"
    have st: "(jeState e = ''running'' \<longrightarrow> jeKind e = ''inbox'') \<and> (jeState e = ''sending'' \<longrightarrow> jeKind e = ''outbox'')"
      using open_step(3) e unfolding states_ok_def by (rule mallD)
    have "evolves e (open_entry epoch e)"
      using inv_filed [OF open_step(2) e] st by (intro evolves_open) simp_all
    with e show "\<exists>e'. mget (jsEntries \<lparr>jsEpoch = epoch, jsEntries = map (\<lambda>(k, e). (k, open_entry epoch e)) (jsEntries s)\<rparr>) ek
        = Some e' \<and> evolves e e'"
      by (simp add: mget_map_snd)
  qed
next
  case (put_step s kind k data epoch now)
  then show ?case by (intro all_evolve_put) simp
next
  case (move_step s kind k e dst data now)
  have kind: "kind \<in> {''inbox'', ''outbox''}" using move_step.hyps(2) by (auto simp: program_move_def)
  have "jeKind e = kind" using inv_filed_key [OF move_step.prems(1) move_step.hyps(1) kind] by simp
  then show ?case using move_step.hyps by (intro all_evolve_put) (simp add: evolves_move)
next
  case (complete_step s k e data epoch now)
  have "jeKind e = ''inbox''" using inv_filed_key [OF complete_step.prems(1) complete_step.hyps(1)] by simp
  moreover have "mget (jsEntries s) (entry_key ''outbox'' k) = None"
    using inv_no_result [OF complete_step.prems(1) complete_step.hyps(1)] complete_step.hyps(2) by simp
  ultimately show ?case
    using complete_step.hyps by (intro all_evolve_put2(1) [OF complete_step.hyps(1)] evolves_complete)
next
  case (resolve_step s kind k e dc j enc recovered now e')
  have kind: "kind \<in> {''inbox'', ''outbox''}" using resolve_step.hyps(2) by (auto simp: unresolved_def)
  have "jeKind e = kind" using inv_filed_key [OF resolve_step.prems(1) resolve_step.hyps(1) kind] by simp
  then have "evolves e (e'\<lparr>jeResolutions := jeResolutions e' @ [dc], jeUpdatedAt := now\<rparr>)"
    using resolve_step.hyps by (intro evolves_resolve)
  then show ?case using resolve_step.hyps(1) by (intro all_evolve_put) simp
next
  case (recover_step s k e dc data epoch now)
  have "jeKind e = ''inbox''" using inv_filed_key [OF recover_step.prems(1) recover_step.hyps(1)] by simp
  then show ?case
    using recover_step.hyps by (intro all_evolve_put2(2) [OF recover_step.hyps(1)] evolves_recover)
qed

lemma states_ok_put:
  "states_ok s \<Longrightarrow> jeState e \<noteq> ''running'' \<or> jeKind e = ''inbox'' \<Longrightarrow> jeState e \<noteq> ''sending'' \<or> jeKind e = ''outbox'' \<Longrightarrow>
   states_ok (jput ek e s)"
  unfolding states_ok_def by (simp, intro mall_mput) auto

lemma journal_step_states:
  "journal_step direct s s' \<Longrightarrow> journal_inv direct s \<Longrightarrow> states_ok s \<Longrightarrow> states_ok s'"
proof (induction rule: journal_step.induct)
  case (open_step epoch s)
  then show ?case
    by (auto simp: states_ok_def mall_def mget_map_snd open_entry_def interrupted_state_def)
next
  case (put_step s kind k data epoch now)
  then show ?case by (intro states_ok_put) simp_all
next
  case (move_step s kind k e dst data now)
  have kind: "kind \<in> {''inbox'', ''outbox''}" using move_step.hyps(2) by (auto simp: program_move_def)
  have "jeKind e = kind" using inv_filed_key [OF move_step.prems(1) move_step.hyps(1) kind] by simp
  with move_step show ?case by (intro states_ok_put) (auto simp: program_move_def)
next
  case (complete_step s k e data epoch now)
  then show ?case by (intro states_ok_put) simp_all
next
  case (resolve_step s kind k e dc j enc recovered now e')
  then have "states_ok (jput (entry_key kind k) (e'\<lparr>jeResolutions := jeResolutions e' @ [dc], jeUpdatedAt := now\<rparr>) s)"
    using decide_entry_plain [OF resolve_step.hyps(4)]
    by (intro states_ok_put) (elim disjE conjE; simp)+
  then show ?case .
next
  case (recover_step s k e dc data epoch now)
  then show ?case by (intro states_ok_put) simp_all
qed

subsection \<open>Runs\<close>

definition journal_ok :: "(string \<Rightarrow> bool) \<Rightarrow> journal_state content \<Rightarrow> bool" where
  "journal_ok direct d \<longleftrightarrow> (\<exists>s. decode journal_zero d = Inr s \<and> journal_inv direct s \<and> states_ok s)"

text \<open>How an entry looks after any number of calls.\<close>

definition evolved :: "journal_entry \<Rightarrow> journal_entry \<Rightarrow> bool" where
  "evolved e e' \<longleftrightarrow> jeID e' = jeID e \<and> jeKind e' = jeKind e \<and> jePayload e' = jePayload e
     \<and> (life (jeKind e))\<^sup>*\<^sup>* (jeState e) (jeState e') \<and> (\<exists>later. jeResolutions e' = jeResolutions e @ later)
     \<and> (jeState e \<in> {''unknown'', ''needs_reconcile''} \<and> jeState e' \<noteq> jeState e \<longrightarrow>
          (\<exists>pre dc later. jeResolutions e' = jeResolutions e @ pre @ dc # later
             \<and> TrimSpace (rsActor dc) \<noteq> '''' \<and> TrimSpace (rsReason dc) \<noteq> '''' \<and> TrimSpace (rsEvidence dc) \<noteq> ''''))"

definition entries_evolved :: "journal_state content \<Rightarrow> journal_state content \<Rightarrow> bool" where
  "entries_evolved d d' \<longleftrightarrow> (\<forall>s ek e. decode journal_zero d = Inr s \<longrightarrow> mget (jsEntries s) ek = Some e \<longrightarrow>
     (\<exists>s' e'. decode journal_zero d' = Inr s' \<and> mget (jsEntries s') ek = Some e' \<and> evolved e e'))"

lemma evolved_refl [simp]: "evolved e e"
  by (simp add: evolved_def)

lemma evolves_evolved:
  assumes "evolves e e'" shows "evolved e e'"
proof -
  have "(life (jeKind e))\<^sup>*\<^sup>* (jeState e) (jeState e')" using assms by (auto simp: evolves_def)
  moreover have "\<exists>pre dc later. jeResolutions e' = jeResolutions e @ pre @ dc # later
       \<and> TrimSpace (rsActor dc) \<noteq> '''' \<and> TrimSpace (rsReason dc) \<noteq> '''' \<and> TrimSpace (rsEvidence dc) \<noteq> ''''"
    if "jeState e \<in> {''unknown'', ''needs_reconcile''}" "jeState e' \<noteq> jeState e"
  proof -
    have "\<exists>dc. jeResolutions e' = jeResolutions e @ [dc] \<and> decided_by (decision_action (jeState e')) dc"
      using assms that unfolding evolves_def by (simp only: if_True simp_thms)
    then obtain dc where "jeResolutions e' = jeResolutions e @ [dc]" "decided_by (decision_action (jeState e')) dc"
      by blast
    then show ?thesis by (intro exI [of _ "[]"] exI [of _ dc] exI [of _ "[]"]) (simp add: decided_by_def)
  qed
  moreover have "\<exists>later. jeResolutions e' = jeResolutions e @ later"
    using assms by (auto simp: evolves_def split: if_splits)
  ultimately show ?thesis using assms by (simp add: evolves_def evolved_def)
qed

lemma evolved_trans:
  assumes "evolved a b" "evolved b c"
  shows "evolved a c"
proof -
  have "jeKind b = jeKind a" "(life (jeKind a))\<^sup>*\<^sup>* (jeState a) (jeState b)" "(life (jeKind b))\<^sup>*\<^sup>* (jeState b) (jeState c)"
    using assms by (simp_all add: evolved_def)
  then have "(life (jeKind a))\<^sup>*\<^sup>* (jeState a) (jeState c)" by (simp add: rtranclp_trans)
  moreover have "\<exists>later. jeResolutions c = jeResolutions a @ later" using assms by (auto simp: evolved_def)
  moreover have "\<exists>pre dc later. jeResolutions c = jeResolutions a @ pre @ dc # later
       \<and> TrimSpace (rsActor dc) \<noteq> '''' \<and> TrimSpace (rsReason dc) \<noteq> '''' \<and> TrimSpace (rsEvidence dc) \<noteq> ''''"
    if "jeState a \<in> {''unknown'', ''needs_reconcile''}" "jeState c \<noteq> jeState a"
  proof (cases "jeState b = jeState a")
    case True
    with that assms obtain l pre dc later where "jeResolutions b = jeResolutions a @ l"
      "jeResolutions c = jeResolutions b @ pre @ dc # later" "TrimSpace (rsActor dc) \<noteq> ''''"
      "TrimSpace (rsReason dc) \<noteq> ''''" "TrimSpace (rsEvidence dc) \<noteq> ''''"
      unfolding evolved_def by metis
    then show ?thesis by (intro exI [of _ "l @ pre"] exI [of _ dc] exI [of _ later]) simp
  next
    case False
    with that assms obtain l pre dc later where "jeResolutions c = jeResolutions b @ l"
      "jeResolutions b = jeResolutions a @ pre @ dc # later" "TrimSpace (rsActor dc) \<noteq> ''''"
      "TrimSpace (rsReason dc) \<noteq> ''''" "TrimSpace (rsEvidence dc) \<noteq> ''''"
      unfolding evolved_def by metis
    then show ?thesis by (intro exI [of _ pre] exI [of _ dc] exI [of _ "later @ l"]) simp
  qed
  ultimately show ?thesis using assms by (simp add: evolved_def)
qed

lemma entries_evolved_refl: "entries_evolved d d"
  unfolding entries_evolved_def by (meson evolved_refl)

lemma entries_evolved_trans: "entries_evolved a b \<Longrightarrow> entries_evolved b c \<Longrightarrow> entries_evolved a c"
  unfolding entries_evolved_def by (meson evolved_trans)

lemma journal_act_ok:
  assumes "journal_act direct d d'" "journal_ok direct d"
  shows "journal_ok direct d' \<and> entries_evolved d d'"
proof -
  obtain s where s: "decode journal_zero d = Inr s" "journal_inv direct s" "states_ok s"
    using assms(2) by (auto simp: journal_ok_def)
  have "0 \<le> jsEpoch s" using s(2) by (simp add: journal_inv_def)
  from journal_act_step [OF assms(1) s(1) this] obtain s' where
    s': "decode journal_zero d' = Inr s'" "s' = s \<or> journal_step direct s s'" by blast
  from s'(2) show ?thesis
  proof
    assume "s' = s"
    with s s'(1) show ?thesis by (auto simp: journal_ok_def entries_evolved_def)
  next
    assume st: "journal_step direct s s'"
    have "journal_inv direct s'" "states_ok s'" "all_evolve s s'"
      using journal_step_inv [OF st s(2)] journal_step_states [OF st s(2,3)] journal_step_evolve [OF st s(2,3)]
      by blast+
    moreover from this(3) have "entries_evolved d d'"
      unfolding entries_evolved_def all_evolve_def mall_def using s'(1) s(1) evolves_evolved by fastforce
    ultimately show ?thesis using s'(1) by (auto simp: journal_ok_def)
  qed
qed

interpretation journal_world: stepper "journal_act direct" "journal_ok direct" for direct
  by unfold_locales (use journal_act_ok in blast)

lemma journal_ok_absent: "journal_ok direct Absent"
  by (simp add: journal_ok_def journal_inv_def journal_zero_def states_ok_def)

lemma journal_run_evolved: "(journal_act direct)\<^sup>*\<^sup>* d d' \<Longrightarrow> journal_ok direct d \<Longrightarrow> entries_evolved d d'"
  by (rule journal_world.run_mono [OF _ _ _ entries_evolved_refl entries_evolved_trans]) (use journal_act_ok in blast)+

text \<open>The states of a request that has left the run.\<close>

definition left_run :: "string \<Rightarrow> bool" where
  "left_run st \<longleftrightarrow> st \<in> {''needs_reconcile'', ''completed'', ''abandoned'', ''merged''}"

lemma life_closed: "life kind a b \<Longrightarrow> kind = ''inbox'' \<Longrightarrow> left_run a \<Longrightarrow> left_run b"
  by (induction rule: life.induct) (simp_all add: left_run_def)

lemma life_interrupted: "(life ''inbox'')\<^sup>*\<^sup>* a b \<Longrightarrow> left_run a \<Longrightarrow> left_run b"
  by (induction rule: rtranclp_induct) (auto intro: life_closed)

subsection \<open>Fencing\<close>

inductive journal_call :: "journal \<Rightarrow> journal_state content \<Rightarrow> gerr option \<Rightarrow> journal_state content \<Rightarrow> bool" where
  "journal_Put j e now kind k payload d = ((c, err), d') \<Longrightarrow> journal_call j d err d'"
| "journal_Move j e now kind k src dst result d = (err, d') \<Longrightarrow> journal_call j d err d'"
| "journal_Complete j e now k message d = (err, d') \<Longrightarrow> journal_call j d err d'"
| "journal_Resolve j enc e now kind k decision message d = (err, d') \<Longrightarrow> journal_call j d err d'"

lemma journal_mutate_fenced:
  "journal_mutate j e o0 fn d = ((o1, x), d') \<Longrightarrow> decode journal_zero d = Inr s \<Longrightarrow> jsEpoch s \<noteq> jnEpoch j \<Longrightarrow>
   d' = d \<and> x \<noteq> None"
  by (drule (1) journal_mutate_effect) simp

lemma journal_call_fenced:
  assumes "journal_call j d err d'" "decode journal_zero d = Inr s" "jsEpoch s \<noteq> jnEpoch j"
  shows "d' = d \<and> err \<noteq> None"
  using assms(1)
proof cases
  case (1 e now kind k payload c)
  then show ?thesis
    by (auto simp: journal_Put_def split: if_splits sum.splits dest: journal_mutate_fenced [OF _ assms(2,3)])
next
  case (2 e now kind k src dst result)
  then show ?thesis
    by (auto simp: journal_Move_def Let_def split: option.splits sum.splits prod.splits
        dest: journal_mutate_fenced [OF _ assms(2,3)])
next
  case (3 e now k message)
  then show ?thesis
    by (auto simp: journal_Complete_def split: sum.splits prod.splits dest: journal_mutate_fenced [OF _ assms(2,3)])
next
  case (4 enc e now kind k decision message)
  then show ?thesis
    by (auto simp: journal_Resolve_def Let_def split: if_splits option.splits sum.splits prod.splits
        dest: journal_mutate_fenced [OF _ assms(2,3)])
qed

lemma journal_step_epoch: "journal_step direct s s' \<Longrightarrow> jsEpoch s \<le> jsEpoch s'"
  by (induction rule: journal_step.induct) simp_all

definition epoch_at_least :: "int \<Rightarrow> journal_state content \<Rightarrow> bool" where
  "epoch_at_least n d \<longleftrightarrow> (\<exists>s. decode journal_zero d = Inr s \<and> n \<le> jsEpoch s)"

lemma journal_run_epoch:
  "(journal_act direct)\<^sup>*\<^sup>* d d' \<Longrightarrow> 0 \<le> n \<Longrightarrow> epoch_at_least n d \<Longrightarrow> epoch_at_least n d'"
proof (induction rule: rtranclp_induct)
  case base
  then show ?case by simp
next
  case (step b c)
  then obtain s where s: "decode journal_zero b = Inr s" "n \<le> jsEpoch s" by (auto simp: epoch_at_least_def)
  with step.prems(1) have "0 \<le> jsEpoch s" by simp
  from journal_act_step [OF step.hyps(2) s(1) this] s(2) show ?case
    by (auto simp: epoch_at_least_def dest!: journal_step_epoch)
qed

subsection \<open>Properties\<close>

text \<open>C9. A superseded owner is fenced for ever: once another process has opened the journal, and
  after any further calls by anyone, no call of the earlier journal object succeeds or changes
  the file.\<close>

theorem superseded_owner_is_fenced:
  assumes "journal_file direct d0" and "epoch_at_least 0 d0"
    and "journal_Open os e d0 = (Inr j, d1)" and "\<And>s. decode journal_zero d0 = Inr s \<Longrightarrow> jsEpoch s + 1 < 2 ^ 64"
    and "(journal_act direct)\<^sup>*\<^sup>* d1 d2"
    and "journal_Open os' e' d2 = (Inr j', d3)" and "\<And>s. decode journal_zero d2 = Inr s \<Longrightarrow> jsEpoch s + 1 < 2 ^ 64"
    and "(journal_act direct)\<^sup>*\<^sup>* d3 d4" and "journal_call j d4 err d5"
  shows "d5 = d4 \<and> err \<noteq> None"
proof -
  obtain s0 where s0: "decode journal_zero d0 = Inr s0" "0 \<le> jsEpoch s0"
    using assms(2) by (auto simp: epoch_at_least_def)
  from journal_Open_effect [OF assms(3) s0 assms(4) [OF s0(1)]]
  have j: "jnEpoch j = jsEpoch s0 + 1" and d1: "epoch_at_least (jsEpoch s0 + 1) d1"
    by (auto simp: epoch_at_least_def)
  have "epoch_at_least (jsEpoch s0 + 1) d2"
    using journal_run_epoch [OF assms(5) _ d1] s0(2) by simp
  then obtain s2 where s2: "decode journal_zero d2 = Inr s2" "jsEpoch s0 + 1 \<le> jsEpoch s2"
    by (auto simp: epoch_at_least_def)
  have "0 \<le> jsEpoch s2" using s2(2) s0(2) by simp
  from journal_Open_effect [OF assms(6) s2(1) this assms(7) [OF s2(1)]]
  have d3: "epoch_at_least (jsEpoch s2 + 1) d3" by (auto simp: epoch_at_least_def)
  have "epoch_at_least (jsEpoch s2 + 1) d4"
    using journal_run_epoch [OF assms(8) _ d3] \<open>0 \<le> jsEpoch s2\<close> by simp
  then obtain s4 where s4: "decode journal_zero d4 = Inr s4" "jsEpoch s2 + 1 \<le> jsEpoch s4"
    by (auto simp: epoch_at_least_def)
  then have "jsEpoch s4 \<noteq> jnEpoch j" using j s2(2) by simp
  with journal_call_fenced [OF assms(9) s4(1)] show ?thesis by simp
qed

lemma superseded_owner_is_fenced_witness:
  "\<exists>j d1 j' d3. journal_Open None io_ok Absent = (Inr j, d1) \<and> journal_Open None io_ok d1 = (Inr j', d3)
     \<and> snd (fst (journal_Put j io_ok 5 ''inbox'' ''feishu:1'' (Inr ''p'') d3)) \<noteq> None"
proof -
  have o1: "journal_Open None io_ok Absent = (Inr \<lparr>jnEpoch = 1, jnClosed = False\<rparr>, Holds \<lparr>jsEpoch = 1, jsEntries = []\<rparr>)"
    by (simp add: journal_Open_def journal_open_fn_def journal_zero_def next_epoch_def)
  have o2: "journal_Open None io_ok (Holds \<lparr>jsEpoch = 1, jsEntries = []\<rparr>)
      = (Inr \<lparr>jnEpoch = 2, jnClosed = False\<rparr>, Holds \<lparr>jsEpoch = 2, jsEntries = []\<rparr>)"
    by (simp add: journal_Open_def journal_open_fn_def next_epoch_def)
  obtain c err d5 where p: "journal_Put \<lparr>jnEpoch = 1, jnClosed = False\<rparr> io_ok 5 ''inbox'' ''feishu:1'' (Inr ''p'')
      (Holds \<lparr>jsEpoch = 2, jsEntries = []\<rparr>) = ((c, err), d5)" by (metis surj_pair)
  have "err \<noteq> None"
    using superseded_owner_is_fenced [OF journal_file_absent _ o1 _ rtranclp.rtrancl_refl o2 _ rtranclp.rtrancl_refl
        journal_call.intros(1) [OF p]]
    by (simp add: epoch_at_least_def journal_zero_def)
  with o1 o2 p show ?thesis by auto
qed

text \<open>C10. Interrupted work is never replayed by itself: over any sequence of opens and calls of the
  program, starting from no file, every entry stays, keeps its identity and payload, and moves
  only along its life; a result whose delivery is unknown and a request that needs reconciliation
  leave that state only with a recorded decision of a named operator with reason and evidence,
  and such a request never becomes pending or running again.\<close>

theorem interrupted_work_not_replayed:
  assumes "(journal_act direct)\<^sup>*\<^sup>* Absent d" and "(journal_act direct)\<^sup>*\<^sup>* d d'"
    and "decode journal_zero d = Inr s" and "mget (jsEntries s) ek = Some e"
  shows "\<exists>s' e'. decode journal_zero d' = Inr s' \<and> mget (jsEntries s') ek = Some e' \<and> evolved e e'
     \<and> (jeKind e = ''inbox'' \<and> jeState e = ''needs_reconcile'' \<longrightarrow>
          jeState e' \<notin> {''pending'', ''running''})"
proof -
  have "journal_ok direct d" using journal_world.run_inv [OF assms(1) journal_ok_absent] .
  from journal_run_evolved [OF assms(2) this] assms(3,4) obtain s' e' where
    e': "decode journal_zero d' = Inr s'" "mget (jsEntries s') ek = Some e'" "evolved e e'"
    unfolding entries_evolved_def by blast
  moreover have "jeState e' \<notin> {''pending'', ''running''}"
    if "jeKind e = ''inbox''" "jeState e = ''needs_reconcile''"
    using life_interrupted [of "jeState e" "jeState e'"] e'(3) that by (auto simp: evolved_def left_run_def)
  ultimately show ?thesis by blast
qed

definition demo_journal :: "journal_state content" where
  "demo_journal = Holds \<lparr>jsEpoch = 1, jsEntries = [(''inbox:a'', new_entry ''inbox'' ''a'' ''p'' 1 5)]\<rparr>"

lemma demo_journal_run: "(journal_act (\<lambda>k. False))\<^sup>*\<^sup>* Absent demo_journal"
proof -
  have o1: "journal_Open None io_ok Absent = (Inr \<lparr>jnEpoch = 1, jnClosed = False\<rparr>, Holds \<lparr>jsEpoch = 1, jsEntries = []\<rparr>)"
    by (simp add: journal_Open_def journal_open_fn_def journal_zero_def next_epoch_def)
  have a1: "journal_act (\<lambda>k. False) Absent (Holds \<lparr>jsEpoch = 1, jsEntries = []\<rparr>)"
    by (rule journal_act.opened [OF o1]) (simp add: journal_zero_def)
  have "journal_Put \<lparr>jnEpoch = 1, jnClosed = False\<rparr> io_ok 5 ''inbox'' ''a'' (Inr ''p'') (Holds \<lparr>jsEpoch = 1, jsEntries = []\<rparr>)
      = ((True, None), demo_journal)"
    by (simp add: journal_Put_def journal_mutate_def fenced_def put_fn_def entry_key_def mput_def demo_journal_def)
  from journal_act.put [OF this, of "\<lambda>k. False"] have "journal_act (\<lambda>k. False) (Holds \<lparr>jsEpoch = 1, jsEntries = []\<rparr>) demo_journal"
    by simp
  with a1 show ?thesis by (meson rtranclp.simps)
qed

lemma interrupted_work_not_replayed_witness:
  "\<exists>s' e'. decode journal_zero demo_journal = Inr s' \<and> mget (jsEntries s') ''inbox:a'' = Some e'
     \<and> jePayload e' = ''p''"
  using interrupted_work_not_replayed [OF demo_journal_run rtranclp.rtrancl_refl, of _ "''inbox:a''"]
  by (auto simp: demo_journal_def evolved_def)

text \<open>A completed request always has its result: over any sequence of opens and calls of the
  program, a request is completed exactly when the outbox has an entry of its identifier, and
  the payload of that entry is the stored result of the request.\<close>

theorem completed_requests_have_results:
  assumes "(journal_act direct)\<^sup>*\<^sup>* Absent d" and "decode journal_zero d = Inr s"
    and "mget (jsEntries s) (entry_key ''inbox'' k) = Some e"
  shows "(jeState e = ''completed'' \<longleftrightarrow> mget (jsEntries s) (entry_key ''outbox'' k) \<noteq> None)
     \<and> (\<forall>ob. mget (jsEntries s) (entry_key ''outbox'' k) = Some ob \<longrightarrow> jeResult e = Some (jePayload ob))"
proof -
  have "journal_file direct d" using journal_acts.run_inv [OF assms(1) journal_file_absent] .
  then have inv: "journal_inv direct s" using assms(2) by (auto simp: journal_file_def)
  from inv_completed [OF inv assms(3)] inv_no_result [OF inv assms(3)] show ?thesis by fastforce
qed

lemma completed_requests_have_results_witness:
  "mget [(''inbox:a'', new_entry ''inbox'' ''a'' ''p'' 1 5)] (entry_key ''outbox'' ''a'') = None"
proof -
  have d: "decode journal_zero demo_journal = Inr \<lparr>jsEpoch = 1, jsEntries = [(''inbox:a'', new_entry ''inbox'' ''a'' ''p'' 1 5)]\<rparr>"
    by (simp add: demo_journal_def)
  show ?thesis
    using completed_requests_have_results [OF demo_journal_run d, of "''a''"]
    by (simp add: entry_key_def new_entry_def)
qed

end
