(* ===== verification/Scheduler.thy ===== *)
theory Scheduler
  imports Tracing "HOL-Library.Multiset"
begin

section \<open>The conversation scheduler\<close>

text \<open>
  \<open>internal/scheduler/scheduler.go\<close>: one lane per conversation with a queue, an inbox of injected
  requests and at most one active turn, worked by one goroutine. Every critical section under
  the mutex is one function on the scheduler; what happens between them (the wait for a slot of
  the pool, the runner) is the environment. A job is named by a fresh number, its handle is the
  pair of its result, once set, and of its cancellation; results are set at most once
  (\<open>sync.Once\<close>). Contexts are derived from the caller's; whether the caller cancelled is told by
  the environment through \<^term>\<open>cancel_job\<close>.
\<close>

datatype busy_policy = BusyDefault | BusyAppend | BusyInject | BusyInterrupt | BusyOther string

record source =
  srcChannel :: string
  srcChatID :: string
  srcSenderID :: string

record request =
  rqConversation :: string
  rqText :: string
  rqSource :: source
  rqBackground :: bool
  rqBusy :: busy_policy
  rqApprovalID :: string
  rqTrace :: identity

record result =
  rsText :: string
  rsErr :: "gerr option"
  rsMerged :: bool

type_synonym job = nat

record lane =
  lnQueue :: "job list"
  lnInbox :: "job list"
  lnActive :: "job option"
  lnRunning :: bool
  lnPaused :: bool
  lnSource :: source
  lnConsumed :: "job list"
  lnAcquired :: "bool option"

text \<open>The last two fields are local variables of the working goroutine: \<open>consumed\<close>, and
  \<open>acquired\<close> together with the \<open>pool\<close> the slot came from (background or not).\<close>

definition new_lane :: "source \<Rightarrow> lane" where
  "new_lane src = \<lparr>lnQueue = [], lnInbox = [], lnActive = None, lnRunning = False, lnPaused = False,
     lnSource = src, lnConsumed = [], lnAcquired = None\<rparr>"

record scheduler =
  scLanes :: "lane gomap"
  scClosed :: bool
  scCapacity :: int
  scRequests :: "job \<Rightarrow> request"
  scErrs :: "job \<Rightarrow> gerr option"
  scSlots :: "bool \<Rightarrow> int"
  scInUse :: "bool \<Rightarrow> int"
  scResults :: "job \<Rightarrow> result option"
  scNext :: job

definition no_request :: request where
  "no_request = \<lparr>rqConversation = '''', rqText = '''', rqSource = \<lparr>srcChannel = '''', srcChatID = '''', srcSenderID = ''''\<rparr>,
     rqBackground = False, rqBusy = BusyDefault, rqApprovalID = '''', rqTrace = no_identity\<rparr>"

definition New :: "int \<Rightarrow> int \<Rightarrow> int \<Rightarrow> gerr + scheduler" where
  "New userSlots systemSlots queueCapacity =
     (if userSlots < 1 \<or> systemSlots < 1 \<or> queueCapacity < 1 then Inl (Panicked ''invalid scheduler configuration'')
      else Inr \<lparr>scLanes = [], scClosed = False, scCapacity = queueCapacity, scRequests = (\<lambda>_. no_request),
        scErrs = (\<lambda>_. None), scSlots = (\<lambda>bg. if bg then systemSlots else userSlots), scInUse = (\<lambda>_. 0),
        scResults = (\<lambda>_. None), scNext = 0\<rparr>)"

record lane_status =
  stQueued :: int
  stInjected :: int
  stActive :: bool
  stPaused :: bool
  stDepthWarning :: bool
  stCapacity :: int

definition Status :: "scheduler \<Rightarrow> string \<Rightarrow> lane_status option" where
  "Status s cid = map_option (\<lambda>l. \<lparr>stQueued = int (length (lnQueue l)), stInjected = int (length (lnInbox l)),
     stActive = (lnActive l \<noteq> None), stPaused = lnPaused l,
     stDepthWarning = (int (length (lnQueue l) + length (lnInbox l)) \<ge> 50), stCapacity = scCapacity s\<rparr>)
     (mget (scLanes s) cid)"

subsection \<open>Handles\<close>

definition finish_job :: "job \<Rightarrow> result \<Rightarrow> scheduler \<Rightarrow> scheduler" where
  "finish_job j r s = (if scResults s j = None then s\<lparr>scResults := (scResults s)(j := Some r)\<rparr> else s)"

text \<open>The context of a job keeps the first error it was done with.\<close>

definition end_context :: "job \<Rightarrow> gerr \<Rightarrow> scheduler \<Rightarrow> scheduler" where
  "end_context j e s = (if scErrs s j = None then s\<lparr>scErrs := (scErrs s)(j := Some e)\<rparr> else s)"

definition cancel_job :: "job \<Rightarrow> scheduler \<Rightarrow> scheduler" where
  "cancel_job j s = end_context j Canceled s"

definition set_lane :: "string \<Rightarrow> lane \<Rightarrow> scheduler \<Rightarrow> scheduler" where
  "set_lane cid l s = s\<lparr>scLanes := mput cid l (scLanes s)\<rparr>"

subsection \<open>Submitting\<close>

definition admission_error :: "request \<Rightarrow> gerr option \<Rightarrow> scheduler \<Rightarrow> gerr option" where
  "admission_error req ctx_err s =
     (if rqConversation req = '':'' \<or> rqText req = '''' then Some (Msg ''conversation and text required'')
      else case rqBusy req of BusyOther p \<Rightarrow> Some (Errorf ''unknown busy policy %q'' [p])
      | _ \<Rightarrow> if scClosed s then Some (Msg ''scheduler closed'') else ctx_err)"

definition lane_error :: "int \<Rightarrow> request \<Rightarrow> lane \<Rightarrow> gerr option" where
  "lane_error capacity req l =
     (if lnSource l \<noteq> rqSource req then Some (Msg ''conversation source identity mismatch'')
      else if int (length (lnQueue l) + length (lnInbox l)) \<ge> capacity
      then Some (Msg ''conversation queue full'') else None)"

definition enqueue :: "request \<Rightarrow> job \<Rightarrow> lane \<Rightarrow> lane" where
  "enqueue req j l =
     (if rqApprovalID req \<noteq> '''' then l\<lparr>lnQueue := j # lnQueue l\<rparr>
      else if rqBusy req = BusyInject \<and> lnActive l \<noteq> None then l\<lparr>lnInbox := lnInbox l @ [j]\<rparr>
      else if rqBusy req = BusyInterrupt \<and> lnActive l \<noteq> None then l\<lparr>lnQueue := j # lnQueue l\<rparr>
      else l\<lparr>lnQueue := lnQueue l @ [j]\<rparr>)"

definition injected :: "request \<Rightarrow> lane \<Rightarrow> bool" where
  "injected req l \<longleftrightarrow> rqApprovalID req = '''' \<and> rqBusy req = BusyInject \<and> lnActive l \<noteq> None"

definition wake :: "request \<Rightarrow> lane \<Rightarrow> lane" where
  "wake req l = (if \<not> lnRunning l \<and> (\<not> lnPaused l \<or> rqApprovalID req \<noteq> '''') then l\<lparr>lnRunning := True\<rparr> else l)"

definition default_conversation :: "request \<Rightarrow> request" where
  "default_conversation req = (if rqConversation req = ''''
     then req\<lparr>rqConversation := srcChannel (rqSource req) @ '':'' @ srcChatID (rqSource req)\<rparr> else req)"

text \<open>A lane created for a request that is then refused for lack of capacity stays in the map.\<close>

definition Submit :: "go_context \<Rightarrow> gerr option \<Rightarrow> request \<Rightarrow> scheduler \<Rightarrow> (gerr + job) \<times> scheduler" where
  "Submit ctx ctx_err req0 s =
     (let req = default_conversation req0 in
      case admission_error req ctx_err s of
        Some e \<Rightarrow> (Inl e, s)
      | None \<Rightarrow>
        (let cid = rqConversation req;
             l = (case mget (scLanes s) cid of Some l \<Rightarrow> l | None \<Rightarrow> new_lane (rqSource req));
             s0 = (if mget (scLanes s) cid = None then set_lane cid l s else s)
         in case lane_error (scCapacity s) req l of
              Some e \<Rightarrow> (Inl e, s0)
            | None \<Rightarrow>
              (let req' = (if TraceID (rqTrace req) = '''' then req\<lparr>rqTrace := Current ctx\<rparr> else req);
                   j = scNext s;
                   s1 = s0\<lparr>scNext := j + 1, scRequests := (scRequests s)(j := req')\<rparr>;
                   s2 = (if rqApprovalID req = '''' \<and> rqBusy req = BusyInterrupt \<and> lnActive l \<noteq> None
                         then cancel_job (the (lnActive l)) s1 else s1);
                   l' = (if injected req l then enqueue req j l else wake req (enqueue req j l))
               in (Inr j, set_lane cid l' s2))))"

subsection \<open>The worker of a lane\<close>

text \<open>The first critical section of the loop: stop, or take the head of the queue.\<close>

definition work_take :: "string \<Rightarrow> scheduler \<Rightarrow> scheduler" where
  "work_take cid s =
     (case mget (scLanes s) cid of
        None \<Rightarrow> s
      | Some l \<Rightarrow>
        (case lnQueue l of
           [] \<Rightarrow> if lnPaused l then set_lane cid (l\<lparr>lnRunning := False\<rparr>) s
                 else s\<lparr>scLanes := mdel cid (scLanes s)\<rparr>
         | j # rest \<Rightarrow>
             if lnPaused l \<and> rqApprovalID (scRequests s j) = '''' then set_lane cid (l\<lparr>lnRunning := False\<rparr>) s
             else set_lane cid (l\<lparr>lnQueue := rest, lnActive := Some j, lnConsumed := [], lnAcquired := None\<rparr>) s))"

text \<open>The send on the channel of the pool, possible while it has a free place.\<close>

definition work_acquire :: "string \<Rightarrow> scheduler \<Rightarrow> scheduler" where
  "work_acquire cid s =
     (case mget (scLanes s) cid of
        None \<Rightarrow> s
      | Some l \<Rightarrow>
        (case lnActive l of
           None \<Rightarrow> s
         | Some j \<Rightarrow>
            (let bg = rqBackground (scRequests s j) in
             if lnAcquired l = None \<and> scInUse s bg < scSlots s bg
             then set_lane cid (l\<lparr>lnAcquired := Some bg\<rparr>) (s\<lparr>scInUse := (scInUse s)(bg := scInUse s bg + 1)\<rparr>)
             else s)))"

text \<open>The \<open>drain\<close> callback the runner may call at its safe points: injected requests whose context is
  done are finished with its error, the others are handed to the runner and remembered.\<close>

fun drain_loop :: "job list \<Rightarrow> scheduler \<Rightarrow> request list \<Rightarrow> job list \<Rightarrow> request list \<times> job list \<times> scheduler" where
  "drain_loop [] s reqs consumed = (reqs, consumed, s)"
| "drain_loop (j # js) s reqs consumed =
     (case scErrs s j of
        Some e \<Rightarrow> drain_loop js (cancel_job j (finish_job j \<lparr>rsText = '''', rsErr = Some e, rsMerged = False\<rparr> s)) reqs consumed
      | None \<Rightarrow> drain_loop js s (reqs @ [scRequests s j]) (consumed @ [j]))"

definition drain :: "string \<Rightarrow> scheduler \<Rightarrow> request list \<times> scheduler" where
  "drain cid s =
     (case mget (scLanes s) cid of
        None \<Rightarrow> ([], s)
      | Some l \<Rightarrow>
        (case drain_loop (lnInbox l) s [] (lnConsumed l) of
           (reqs, consumed, s') \<Rightarrow> (reqs, set_lane cid (l\<lparr>lnInbox := [], lnConsumed := consumed\<rparr>) s')))"

text \<open>\<open>invoke\<close>: the runner's answer, a panic of it turned into an error. The turn is not run when the
  context of the job is already done.\<close>

definition invoke :: "(string \<times> gerr option) + string \<Rightarrow> string \<times> gerr option" where
  "invoke answer = (case answer of Inl r \<Rightarrow> r | Inr p \<Rightarrow> ('''', Some (Errorf ''runner panic: %v'' [p])))"

definition turn_result :: "gerr option \<Rightarrow> (string \<times> gerr option) + string \<Rightarrow> result" where
  "turn_result err answer =
     (case err of
        Some e \<Rightarrow> \<lparr>rsText = '''', rsErr = Some e, rsMerged = False\<rparr>
      | None \<Rightarrow> (case invoke answer of (t, e) \<Rightarrow> \<lparr>rsText = t, rsErr = e, rsMerged = False\<rparr>))"

fun finish_merged :: "job list \<Rightarrow> result \<Rightarrow> scheduler \<Rightarrow> scheduler" where
  "finish_merged [] r s = s"
| "finish_merged (j # js) r s =
     (let r1 = r\<lparr>rsMerged := True\<rparr>;
          r2 = (case scErrs s j of None \<Rightarrow> r1 | Some e \<Rightarrow> r1\<lparr>rsErr := Some e\<rparr>)
      in finish_merged js r (cancel_job j (finish_job j r2 s)))"

definition pausing :: "gerr \<Rightarrow> bool" where
  "pausing e \<longleftrightarrow> (case errors_as (\<lambda>x. \<exists>p t. x = Pausing p t) e of Some (Pausing p t) \<Rightarrow> p | _ \<Rightarrow> False)"

text \<open>The end of a turn.\<close>

definition release_slot :: "bool option \<Rightarrow> scheduler \<Rightarrow> scheduler" where
  "release_slot a s = (case a of None \<Rightarrow> s | Some bg \<Rightarrow> s\<lparr>scInUse := (scInUse s)(bg := scInUse s bg - 1)\<rparr>)"

definition work_done :: "string \<Rightarrow> result \<Rightarrow> scheduler \<Rightarrow> scheduler" where
  "work_done cid r s =
     (case mget (scLanes s) cid of
        None \<Rightarrow> s
      | Some l \<Rightarrow>
        (case lnActive l of
           None \<Rightarrow> s
         | Some j \<Rightarrow>
            (let s1 = cancel_job j (finish_job j r (release_slot (lnAcquired l) s));
                 s2 = finish_merged (lnConsumed l) r s1;
                 paused = (case rsErr r of
                     Some e \<Rightarrow> if pausing e then True else lnPaused l
                   | None \<Rightarrow> if rqApprovalID (scRequests s j) \<noteq> '''' then False else lnPaused l)
             in set_lane cid (l\<lparr>lnQueue := lnQueue l @ lnInbox l, lnInbox := [], lnActive := None,
                                lnConsumed := [], lnAcquired := None, lnPaused := paused\<rparr>) s2)))"

subsection \<open>Cancelling and sealing\<close>

fun cancel_waiting :: "job list \<Rightarrow> scheduler \<Rightarrow> scheduler" where
  "cancel_waiting [] s = s"
| "cancel_waiting (j # js) s =
     cancel_waiting js (finish_job j \<lparr>rsText = '''', rsErr = Some Canceled, rsMerged = False\<rparr> (cancel_job j s))"

definition cancel_lane :: "string \<Rightarrow> lane \<Rightarrow> scheduler \<Rightarrow> scheduler" where
  "cancel_lane cid l s =
     (let s1 = (case lnActive l of Some j \<Rightarrow> cancel_job j s | None \<Rightarrow> s)
      in set_lane cid (l\<lparr>lnQueue := [], lnInbox := []\<rparr>) (cancel_waiting (lnQueue l @ lnInbox l) s1))"

definition CancelConversation :: "string \<Rightarrow> scheduler \<Rightarrow> scheduler" where
  "CancelConversation cid s = (case mget (scLanes s) cid of None \<Rightarrow> s | Some l \<Rightarrow> cancel_lane cid l s)"

fun seal_lanes :: "(string \<times> lane) list \<Rightarrow> scheduler \<Rightarrow> scheduler" where
  "seal_lanes [] s = s"
| "seal_lanes ((cid, l) # rest) s = seal_lanes rest (cancel_lane cid l s)"

definition Seal :: "scheduler \<Rightarrow> scheduler" where
  "Seal s = seal_lanes (scLanes s) (s\<lparr>scClosed := True\<rparr>)"

subsection \<open>The loops, in closed form\<close>

definition finish_many :: "(job \<Rightarrow> result) \<Rightarrow> job list \<Rightarrow> scheduler \<Rightarrow> scheduler" where
  "finish_many f js s =
     s\<lparr>scResults := (\<lambda>k. if k \<in> set js \<and> scResults s k = None then Some (f k) else scResults s k)\<rparr>"

definition cancel_many :: "job list \<Rightarrow> scheduler \<Rightarrow> scheduler" where
  "cancel_many js s = s\<lparr>scErrs := (\<lambda>k. if k \<in> set js \<and> scErrs s k = None then Some Canceled else scErrs s k)\<rparr>"

definition cancelled_result :: "gerr option \<Rightarrow> result" where
  "cancelled_result e = \<lparr>rsText = '''', rsErr = e, rsMerged = False\<rparr>"

definition merged_result :: "result \<Rightarrow> gerr option \<Rightarrow> result" where
  "merged_result r e = (case e of None \<Rightarrow> r\<lparr>rsMerged := True\<rparr> | Some x \<Rightarrow> r\<lparr>rsMerged := True, rsErr := Some x\<rparr>)"

named_theorems sched_simps \<open>field-wise effect of the operations on handles\<close>

lemma finish_job_fields [sched_simps, simp]:
  "scLanes (finish_job j r s) = scLanes s" "scClosed (finish_job j r s) = scClosed s"
  "scCapacity (finish_job j r s) = scCapacity s" "scRequests (finish_job j r s) = scRequests s"
  "scErrs (finish_job j r s) = scErrs s" "scSlots (finish_job j r s) = scSlots s"
  "scInUse (finish_job j r s) = scInUse s" "scNext (finish_job j r s) = scNext s"
  by (simp_all add: finish_job_def)

lemma end_context_fields [sched_simps, simp]:
  "scLanes (end_context j e s) = scLanes s" "scClosed (end_context j e s) = scClosed s"
  "scCapacity (end_context j e s) = scCapacity s" "scRequests (end_context j e s) = scRequests s"
  "scResults (end_context j e s) = scResults s" "scSlots (end_context j e s) = scSlots s"
  "scInUse (end_context j e s) = scInUse s" "scNext (end_context j e s) = scNext s"
  by (simp_all add: end_context_def)

lemma cancel_job_fields [sched_simps, simp]:
  "scLanes (cancel_job j s) = scLanes s" "scClosed (cancel_job j s) = scClosed s"
  "scCapacity (cancel_job j s) = scCapacity s" "scRequests (cancel_job j s) = scRequests s"
  "scResults (cancel_job j s) = scResults s" "scSlots (cancel_job j s) = scSlots s"
  "scInUse (cancel_job j s) = scInUse s" "scNext (cancel_job j s) = scNext s"
  by (simp_all add: cancel_job_def)

lemma set_lane_fields [sched_simps, simp]:
  "scLanes (set_lane cid l s) = mput cid l (scLanes s)" "scClosed (set_lane cid l s) = scClosed s"
  "scCapacity (set_lane cid l s) = scCapacity s" "scRequests (set_lane cid l s) = scRequests s"
  "scErrs (set_lane cid l s) = scErrs s" "scSlots (set_lane cid l s) = scSlots s"
  "scInUse (set_lane cid l s) = scInUse s" "scNext (set_lane cid l s) = scNext s"
  "scResults (set_lane cid l s) = scResults s"
  by (simp_all add: set_lane_def)

lemma finish_many_fields [sched_simps, simp]:
  "scLanes (finish_many f js s) = scLanes s" "scClosed (finish_many f js s) = scClosed s"
  "scCapacity (finish_many f js s) = scCapacity s" "scRequests (finish_many f js s) = scRequests s"
  "scErrs (finish_many f js s) = scErrs s" "scSlots (finish_many f js s) = scSlots s"
  "scInUse (finish_many f js s) = scInUse s" "scNext (finish_many f js s) = scNext s"
  "scResults (finish_many f js s) = (\<lambda>k. if k \<in> set js \<and> scResults s k = None then Some (f k) else scResults s k)"
  by (simp_all add: finish_many_def)

lemma cancel_many_fields [sched_simps, simp]:
  "scLanes (cancel_many js s) = scLanes s" "scClosed (cancel_many js s) = scClosed s"
  "scCapacity (cancel_many js s) = scCapacity s" "scRequests (cancel_many js s) = scRequests s"
  "scResults (cancel_many js s) = scResults s" "scSlots (cancel_many js s) = scSlots s"
  "scInUse (cancel_many js s) = scInUse s" "scNext (cancel_many js s) = scNext s"
  "scErrs (cancel_many js s) = (\<lambda>k. if k \<in> set js \<and> scErrs s k = None then Some Canceled else scErrs s k)"
  by (simp_all add: cancel_many_def)

lemma release_slot_fields [sched_simps, simp]:
  "scLanes (release_slot a s) = scLanes s" "scClosed (release_slot a s) = scClosed s"
  "scCapacity (release_slot a s) = scCapacity s" "scRequests (release_slot a s) = scRequests s"
  "scResults (release_slot a s) = scResults s" "scSlots (release_slot a s) = scSlots s"
  "scErrs (release_slot a s) = scErrs s" "scNext (release_slot a s) = scNext s"
  by (simp_all add: release_slot_def split: option.splits)

lemma drain_loop_closed_form:
  "drain_loop js s reqs consumed =
     (reqs @ map (scRequests s) (filter (\<lambda>j. scErrs s j = None) js),
      consumed @ filter (\<lambda>j. scErrs s j = None) js,
      finish_many (\<lambda>j. cancelled_result (scErrs s j)) (filter (\<lambda>j. scErrs s j \<noteq> None) js) s)"
proof (induction js arbitrary: s reqs consumed)
  case Nil
  then show ?case by (simp add: finish_many_def)
next
  case (Cons j js)
  show ?case
  proof (cases "scErrs s j")
    case None
    then show ?thesis by (simp add: Cons.IH)
  next
    case (Some e)
    let ?t = "finish_job j \<lparr>rsText = '''', rsErr = Some e, rsMerged = False\<rparr> s"
    have "cancel_job j ?t = ?t" using Some by (simp add: cancel_job_def end_context_def)
    moreover have "finish_many (\<lambda>j. cancelled_result (scErrs ?t j)) (filter (\<lambda>j. scErrs ?t j \<noteq> None) js) ?t
        = finish_many (\<lambda>j. cancelled_result (scErrs s j)) (filter (\<lambda>j. scErrs s j \<noteq> None) (j # js)) s"
      using Some by (auto simp: finish_many_def finish_job_def cancelled_result_def fun_eq_iff intro!: scheduler.equality)
    ultimately show ?thesis using Some by (simp add: Cons.IH)
  qed
qed

lemma finish_merged_closed_form:
  "finish_merged js r s = cancel_many js (finish_many (\<lambda>j. merged_result r (scErrs s j)) js s)"
proof (induction js arbitrary: s)
  case Nil
  then show ?case by (simp add: finish_many_def cancel_many_def)
next
  case (Cons j js)
  have "(let r1 = r\<lparr>rsMerged := True\<rparr>; r2 = (case scErrs s j of None \<Rightarrow> r1 | Some e \<Rightarrow> r1\<lparr>rsErr := Some e\<rparr>) in r2)
      = merged_result r (scErrs s j)"
    by (simp add: merged_result_def Let_def split: option.splits)
  then have "finish_merged (j # js) r s = finish_merged js r (cancel_job j (finish_job j (merged_result r (scErrs s j)) s))"
    by (simp add: Let_def)
  also have "\<dots> = cancel_many (j # js) (finish_many (\<lambda>k. merged_result r (scErrs s k)) (j # js) s)"
    unfolding Cons.IH
    by (auto simp: finish_many_def cancel_many_def cancel_job_def end_context_def finish_job_def fun_eq_iff
        intro!: scheduler.equality)
  finally show ?case .
qed

lemma cancel_waiting_closed_form:
  "cancel_waiting js s = finish_many (\<lambda>j. cancelled_result (Some Canceled)) js (cancel_many js s)"
proof (induction js arbitrary: s)
  case Nil
  then show ?case by (simp add: finish_many_def cancel_many_def)
next
  case (Cons j js)
  show ?case
    unfolding cancel_waiting.simps Cons.IH
    by (auto simp: finish_many_def cancel_many_def cancel_job_def end_context_def finish_job_def
        cancelled_result_def fun_eq_iff intro!: scheduler.equality)
qed

subsection \<open>The invariant\<close>

text \<open>Where a job of a lane may be.\<close>

definition lane_jobs :: "lane \<Rightarrow> job list" where
  "lane_jobs l = lnQueue l @ lnInbox l @ (case lnActive l of None \<Rightarrow> [] | Some j \<Rightarrow> [j]) @ lnConsumed l"

definition holds_slot :: "bool \<Rightarrow> lane \<Rightarrow> int" where
  "holds_slot bg l = (if lnAcquired l = Some bg then 1 else 0)"

definition lane_ok :: "scheduler \<Rightarrow> string \<Rightarrow> lane \<Rightarrow> bool" where
  "lane_ok s cid l \<longleftrightarrow>
     distinct (lane_jobs l)
   \<and> (\<forall>j \<in> set (lane_jobs l). rqConversation (scRequests s j) = cid \<and> rqSource (scRequests s j) = lnSource l)
   \<and> int (length (lnQueue l) + length (lnInbox l)) \<le> scCapacity s
   \<and> (lnActive l = None \<longrightarrow> lnInbox l = [] \<and> lnConsumed l = [] \<and> lnAcquired l = None)
   \<and> (\<not> lnRunning l \<longrightarrow> lnActive l = None \<and> lnPaused l)
   \<and> (\<forall>j bg. lnActive l = Some j \<and> lnAcquired l = Some bg \<longrightarrow> rqBackground (scRequests s j) = bg)"

definition placed :: "scheduler \<Rightarrow> job \<Rightarrow> bool" where
  "placed s j \<longleftrightarrow> (\<exists>cid l. mget (scLanes s) cid = Some l \<and> j \<in> set (lane_jobs l))"

definition sched_core :: "scheduler \<Rightarrow> bool" where
  "sched_core s \<longleftrightarrow>
     wf_map (scLanes s) \<and> 1 \<le> scCapacity s
   \<and> mall (lane_ok s) (scLanes s)
   \<and> (\<forall>j. placed s j \<longleftrightarrow> j < scNext s \<and> scResults s j = None)
   \<and> (\<forall>j. scResults s j \<noteq> None \<longrightarrow> j < scNext s)
   \<and> (\<forall>bg. scInUse s bg = msum (holds_slot bg) (scLanes s)) \<and> (\<forall>bg. scInUse s bg \<le> scSlots s bg)"

definition nothing_waits :: "string \<Rightarrow> lane \<Rightarrow> bool" where
  "nothing_waits cid l \<longleftrightarrow> lnQueue l = [] \<and> lnInbox l = []"

definition sched_inv :: "scheduler \<Rightarrow> bool" where
  "sched_inv s \<longleftrightarrow> sched_core s \<and> (scClosed s \<longrightarrow> mall nothing_waits (scLanes s))"

lemma sched_coreD:
  assumes "sched_core s"
  shows "wf_map (scLanes s)" "1 \<le> scCapacity s" "mall (lane_ok s) (scLanes s)"
    "placed s j \<longleftrightarrow> j < scNext s \<and> scResults s j = None"
    "scInUse s bg = msum (holds_slot bg) (scLanes s)" "scInUse s bg \<le> scSlots s bg"
    "scResults s j \<noteq> None \<Longrightarrow> j < scNext s"
  using assms unfolding sched_core_def by blast+

lemma New_inv: "New u b c = Inr s \<Longrightarrow> sched_inv s"
  by (auto simp: New_def sched_inv_def sched_core_def placed_def split: if_splits)

text \<open>A job is in one lane only: the lane of its conversation.\<close>

lemma placed_in_own_lane:
  assumes "mall (lane_ok s) (scLanes s)" and "mget (scLanes s) cid = Some l" and "j \<in> set (lane_jobs l)"
  shows "rqConversation (scRequests s j) = cid"
  using mallD [OF assms(1,2)] assms(3) by (auto simp: lane_ok_def)

lemma msum_update_lane:
  assumes "wf_map m" and "mget m cid = Some l"
  shows "msum f (mput cid l' m) = msum f m + f l' - f l"
  using msum_mput [OF assms(1), of f cid l'] assms(2) by simp

text \<open>The one lemma behind the preservation proofs: a step that changes one lane, and gives a
  result to exactly the jobs that leave it, keeps the core of the invariant.\<close>

lemma core_update_lane:
  assumes core: "sched_core s" and l: "mget (scLanes s) cid = Some l"
    and lanes: "scLanes t = mput cid l' (scLanes s)"
    and same: "scNext t = scNext s" "scRequests t = scRequests s" "scCapacity t = scCapacity s" "scSlots t = scSlots s"
    and sub: "set (lane_jobs l') \<subseteq> set (lane_jobs l)"
    and res: "\<And>j. scResults t j = None \<longleftrightarrow> scResults s j = None \<and> (j \<in> set (lane_jobs l) \<longrightarrow> j \<in> set (lane_jobs l'))"
    and ok: "lane_ok t cid l'"
    and slots: "\<And>bg. scInUse t bg = scInUse s bg + holds_slot bg l' - holds_slot bg l" "\<And>bg. scInUse t bg \<le> scSlots s bg"
  shows "sched_core t"
proof -
  note D = sched_coreD [OF core]
  have ok_t: "lane_ok t c k \<longleftrightarrow> lane_ok s c k" for c k by (simp add: lane_ok_def same)
  have "mall (lane_ok t) (scLanes t)"
    unfolding lanes using D(3) ok by (intro mall_mput) (simp_all add: ok_t mall_def)
  moreover have "placed t j \<longleftrightarrow> j < scNext t \<and> scResults t j = None" for j
  proof -
    have other: "c = cid" if "mget (scLanes s) c = Some k" "j \<in> set (lane_jobs k)" "j \<in> set (lane_jobs l)" for c k
      using placed_in_own_lane [OF D(3) that(1,2)] placed_in_own_lane [OF D(3) l that(3)] by simp
    have "placed t j \<longleftrightarrow> placed s j \<and> (j \<in> set (lane_jobs l) \<longrightarrow> j \<in> set (lane_jobs l'))"
    proof
      assume "placed t j"
      then obtain c k where k: "mget (scLanes t) c = Some k" "j \<in> set (lane_jobs k)" by (auto simp: placed_def)
      show "placed s j \<and> (j \<in> set (lane_jobs l) \<longrightarrow> j \<in> set (lane_jobs l'))"
      proof (cases "c = cid")
        case True
        then have "j \<in> set (lane_jobs l')" using k by (simp add: lanes)
        then show ?thesis using sub l by (auto simp: placed_def)
      next
        case False
        then have "mget (scLanes s) c = Some k" using k by (simp add: lanes)
        then show ?thesis using other k(2) False by (auto simp: placed_def)
      qed
    next
      assume a: "placed s j \<and> (j \<in> set (lane_jobs l) \<longrightarrow> j \<in> set (lane_jobs l'))"
      then obtain c k where k: "mget (scLanes s) c = Some k" "j \<in> set (lane_jobs k)" by (auto simp: placed_def)
      then have "c = cid \<Longrightarrow> k = l" using l by simp
      then have "mget (scLanes t) c = Some (if c = cid then l' else k)" "j \<in> set (lane_jobs (if c = cid then l' else k))"
        using k a by (auto simp: lanes)
      then show "placed t j" unfolding placed_def by blast
    qed
    then show ?thesis using D(4) [of j] res [of j] by (auto simp: same)
  qed
  moreover have "scInUse t bg = msum (holds_slot bg) (scLanes t) \<and> scInUse t bg \<le> scSlots t bg" for bg
    using slots [of bg] D(5) [of bg] msum_update_lane [OF D(1) l, of "holds_slot bg" l'] by (simp add: lanes same)
  moreover have "wf_map (scLanes t) \<and> 1 \<le> scCapacity t" using D(1,2) by (simp add: lanes same)
  moreover have "\<forall>j. scResults t j \<noteq> None \<longrightarrow> j < scNext t"
    using D(4) D(7) l by (auto simp: res same placed_def)
  ultimately show ?thesis unfolding sched_core_def by blast
qed

text \<open>A step on the handles alone.\<close>

lemma core_handles:
  assumes "sched_core s" and "scLanes t = scLanes s" "scNext t = scNext s" "scRequests t = scRequests s"
    "scCapacity t = scCapacity s" "scSlots t = scSlots s" "scInUse t = scInUse s" "scResults t = scResults s"
  shows "sched_core t"
proof -
  have "lane_ok t = lane_ok s" using assms by (simp add: lane_ok_def fun_eq_iff)
  moreover have "placed t = placed s" using assms by (simp add: placed_def fun_eq_iff)
  ultimately have "sched_core t = sched_core s" by (simp add: sched_core_def assms(2-))
  then show ?thesis using assms(1) by simp
qed

lemma core_end_context: "sched_core s \<Longrightarrow> sched_core (end_context j e s)"
  by (erule core_handles) simp_all

lemma core_cancel_job: "sched_core s \<Longrightarrow> sched_core (cancel_job j s)"
  by (simp add: cancel_job_def core_end_context)

lemma core_close: "sched_core s \<Longrightarrow> sched_core (s\<lparr>scClosed := c\<rparr>)"
  by (erule core_handles) simp_all

lemma core_lane_ok: "sched_core s \<Longrightarrow> mget (scLanes s) cid = Some l \<Longrightarrow> lane_ok s cid l"
  by (rule mallD [OF sched_coreD(3)])

lemma core_unfinished:
  assumes "sched_core s" and "mget (scLanes s) cid = Some l" and "j \<in> set (lane_jobs l)"
  shows "scResults s j = None" and "j < scNext s"
  using sched_coreD(4) [OF assms(1), of j] assms(2,3) by (auto simp: placed_def)

lemma core_drain:
  assumes "sched_core s"
  shows "sched_core (snd (drain cid s))"
proof (cases "mget (scLanes s) cid")
  case None
  then show ?thesis using assms by (simp add: drain_def)
next
  case (Some l)
  have ok: "lane_ok s cid l" using core_lane_ok [OF assms Some] .
  have un: "\<And>j. j \<in> set (lane_jobs l) \<Longrightarrow> scResults s j = None" using core_unfinished [OF assms Some] by blast
  let ?live = "filter (\<lambda>j. scErrs s j = None) (lnInbox l)"
  let ?dead = "filter (\<lambda>j. scErrs s j \<noteq> None) (lnInbox l)"
  let ?l = "l\<lparr>lnInbox := [], lnConsumed := lnConsumed l @ ?live\<rparr>"
  let ?t = "set_lane cid ?l (finish_many (\<lambda>j. cancelled_result (scErrs s j)) ?dead s)"
  have t: "snd (drain cid s) = ?t" using Some by (simp add: drain_def drain_loop_closed_form)
  have act: "lnActive l = None \<Longrightarrow> ?live = []" using ok by (simp add: lane_ok_def)
  show ?thesis unfolding t
  proof (rule core_update_lane [OF assms Some, of _ ?l])
    show "set (lane_jobs ?l) \<subseteq> set (lane_jobs l)" by (auto simp: lane_jobs_def)
    show "scResults ?t j = None \<longleftrightarrow> scResults s j = None \<and> (j \<in> set (lane_jobs l) \<longrightarrow> j \<in> set (lane_jobs ?l))" for j
      using un [of j] ok by (auto simp: lane_jobs_def lane_ok_def split: option.splits)
    show "lane_ok ?t cid ?l"
      using ok act by (auto simp: lane_ok_def lane_jobs_def split: option.splits)
    show "scInUse ?t bg = scInUse s bg + holds_slot bg ?l - holds_slot bg l" for bg by (simp add: holds_slot_def)
    show "scInUse ?t bg \<le> scSlots s bg" for bg using sched_coreD(6) [OF assms] by simp
  qed simp_all
qed

lemma core_cancel_lane:
  assumes "sched_core s" and "mget (scLanes s) cid = Some l"
  shows "sched_core (cancel_lane cid l s)"
proof -
  have ok: "lane_ok s cid l" using core_lane_ok [OF assms] .
  have un: "\<And>j. j \<in> set (lane_jobs l) \<Longrightarrow> scResults s j = None" using core_unfinished [OF assms] by blast
  let ?l = "l\<lparr>lnQueue := [], lnInbox := []\<rparr>"
  obtain s1 where s1: "(case lnActive l of Some j \<Rightarrow> cancel_job j s | None \<Rightarrow> s) = s1" by blast
  then have f: "scLanes s1 = scLanes s" "scNext s1 = scNext s" "scRequests s1 = scRequests s" "scCapacity s1 = scCapacity s"
      "scSlots s1 = scSlots s" "scInUse s1 = scInUse s" "scResults s1 = scResults s"
    by (auto split: option.splits)
  let ?t = "cancel_lane cid l s"
  have t: "?t = set_lane cid ?l (finish_many (\<lambda>j. cancelled_result (Some Canceled)) (lnQueue l @ lnInbox l)
      (cancel_many (lnQueue l @ lnInbox l) s1))"
    by (simp add: cancel_lane_def s1 cancel_waiting_closed_form)
  show ?thesis
  proof (rule core_update_lane [OF assms, of _ ?l])
    show "set (lane_jobs ?l) \<subseteq> set (lane_jobs l)" by (auto simp: lane_jobs_def)
    have split: "set (lane_jobs l) = set (lnQueue l @ lnInbox l) \<union> set (lane_jobs ?l)" by (auto simp: lane_jobs_def)
    have "distinct (lane_jobs l)" using ok by (simp add: lane_ok_def)
    then have sep: "set (lnQueue l @ lnInbox l) \<inter> set (lane_jobs ?l) = {}" by (auto simp: lane_jobs_def)
    have "scResults ?t j = None \<longleftrightarrow> scResults s j = None \<and> j \<notin> set (lnQueue l @ lnInbox l)" for j
      by (auto simp: t f)
    then show "scResults ?t j = None \<longleftrightarrow> scResults s j = None \<and> (j \<in> set (lane_jobs l) \<longrightarrow> j \<in> set (lane_jobs ?l))" for j
      using split sep un [of j] by blast
    have "distinct (lane_jobs ?l)" using \<open>distinct (lane_jobs l)\<close> by (simp add: lane_jobs_def)
    moreover have "\<forall>j \<in> set (lane_jobs ?l). rqConversation (scRequests s j) = cid \<and> rqSource (scRequests s j) = lnSource l"
      using ok split by (simp add: lane_ok_def)
    ultimately show "lane_ok ?t cid ?l"
      using ok sched_coreD(2) [OF assms(1)] by (simp add: t f lane_ok_def)
    show "scInUse ?t bg = scInUse s bg + holds_slot bg ?l - holds_slot bg l" for bg by (simp add: t f holds_slot_def)
    show "scInUse ?t bg \<le> scSlots s bg" for bg using sched_coreD(6) [OF assms(1)] by (simp add: t f)
  qed (simp_all add: t f)
qed

text \<open>Taking the head of the queue, the slot of the pool, and the end of a turn.\<close>

lemma msum_delete:
  "wf_map m \<Longrightarrow> msum f (mdel k m) = msum f m - (case mget m k of None \<Rightarrow> 0 | Some w \<Rightarrow> f w)"
proof (induction m)
  case Nil
  then show ?case by (simp add: mdel_def)
next
  case (Cons p m)
  obtain k' w where p: "p = (k', w)" by (cases p)
  with Cons.prems have m: "wf_map m" "mget m k' = None" by (simp_all add: wf_map_Cons)
  show ?case
  proof (cases "k' = k")
    case True
    then have "mdel k m = m" using m(2) by (simp add: mdel_def mget_None_iff mkeys_def delete_id image_iff)
    then show ?thesis using True by (simp add: p mdel_def)
  next
    case False
    then have "mdel k (p # m) = (k', w) # mdel k m" by (simp add: p mdel_def)
    then show ?thesis using Cons.IH [OF m(1)] False by (simp add: p)
  qed
qed

lemma core_take:
  assumes "sched_core s" and l: "mget (scLanes s) cid = Some l" and "lnRunning l" and "lnActive l = None"
  shows "sched_core (work_take cid s)"
proof -
  note ok = core_lane_ok [OF assms(1) l]
  have idle: "lnInbox l = []" "lnConsumed l = []" "lnAcquired l = None" using ok assms(4) by (auto simp: lane_ok_def)
  let ?t = "work_take cid s"
  have res: "scResults ?t = scResults s" "scNext ?t = scNext s" "scRequests ?t = scRequests s" "scCapacity ?t = scCapacity s"
      "scSlots ?t = scSlots s" "scInUse ?t = scInUse s"
    by (auto simp: work_take_def l split: list.splits)
  have keep: "sched_core ?t" if "scLanes ?t = mput cid l' (scLanes s)" "set (lane_jobs l') = set (lane_jobs l)"
      "lane_ok ?t cid l'" "lnAcquired l' = None" for l'
  proof (rule core_update_lane [OF assms(1) l that(1) res(2-5)])
    show "set (lane_jobs l') \<subseteq> set (lane_jobs l)" using that(2) by simp
    show "scResults ?t j = None \<longleftrightarrow> scResults s j = None \<and> (j \<in> set (lane_jobs l) \<longrightarrow> j \<in> set (lane_jobs l'))" for j
      using that(2) by (simp add: res)
    show "scInUse ?t bg = scInUse s bg + holds_slot bg l' - holds_slot bg l" for bg
      using idle that(4) by (simp add: res holds_slot_def)
    show "scInUse ?t bg \<le> scSlots s bg" for bg using sched_coreD(6) [OF assms(1)] by (simp add: res)
  qed (rule that(3))
  show ?thesis
  proof (cases "lnQueue l")
    case Nil
    show ?thesis
    proof (cases "lnPaused l")
      case True
      then have "scLanes ?t = mput cid (l\<lparr>lnRunning := False\<rparr>) (scLanes s)" using Nil by (simp add: work_take_def l)
      then show ?thesis
        by (rule keep) (use ok idle assms(4) True in \<open>simp_all add: lane_ok_def lane_jobs_def res\<close>)
    next
      case False
      then have t: "scLanes ?t = mdel cid (scLanes s)" using Nil by (simp add: work_take_def l)
      have "lane_jobs l = []" using Nil idle assms(4) by (simp add: lane_jobs_def)
      have "placed ?t j \<longleftrightarrow> placed s j" for j
      proof
        show "placed ?t j \<Longrightarrow> placed s j" unfolding placed_def t by (metis mget_mdel option.distinct(1))
      next
        assume "placed s j"
        then obtain c k where k: "mget (scLanes s) c = Some k" "j \<in> set (lane_jobs k)" by (auto simp: placed_def)
        then have "c \<noteq> cid" using l \<open>lane_jobs l = []\<close> by auto
        then show "placed ?t j" using k unfolding placed_def t by (metis mget_mdel)
      qed
      then have "placed ?t = placed s" by blast
      moreover have "lane_ok ?t = lane_ok s" by (simp add: lane_ok_def fun_eq_iff res)
      moreover have "mall (lane_ok s) (mdel cid (scLanes s))" using sched_coreD(3) [OF assms(1)] by (simp add: mall_def)
      moreover have "msum (holds_slot bg) (mdel cid (scLanes s)) = msum (holds_slot bg) (scLanes s)" for bg
        using msum_delete [OF sched_coreD(1) [OF assms(1)]] l idle by (simp add: holds_slot_def)
      moreover have "wf_map (mdel cid (scLanes s))" using sched_coreD(1) [OF assms(1)] by simp
      ultimately have "sched_core ?t = sched_core s"
        using sched_coreD(1,3) [OF assms(1)] by (simp add: sched_core_def t res)
      then show ?thesis using assms(1) by simp
    qed
  next
    case (Cons j rest)
    show ?thesis
    proof (cases "lnPaused l \<and> rqApprovalID (scRequests s j) = ''''")
      case True
      then have "scLanes ?t = mput cid (l\<lparr>lnRunning := False\<rparr>) (scLanes s)" using Cons by (simp add: work_take_def l)
      then show ?thesis
        by (rule keep) (use ok idle assms(4) True in \<open>simp_all add: lane_ok_def lane_jobs_def res\<close>)
    next
      case False
      then have "scLanes ?t = mput cid (l\<lparr>lnQueue := rest, lnActive := Some j, lnConsumed := [], lnAcquired := None\<rparr>) (scLanes s)"
        using Cons by (auto simp: work_take_def l)
      then show ?thesis
        by (rule keep) (use ok idle assms(3,4) Cons in \<open>auto simp: lane_ok_def lane_jobs_def res\<close>)
    qed
  qed
qed

lemma core_acquire:
  assumes "sched_core s"
  shows "sched_core (work_acquire cid s)"
proof (cases "\<exists>l j. mget (scLanes s) cid = Some l \<and> lnActive l = Some j \<and> lnAcquired l = None
    \<and> scInUse s (rqBackground (scRequests s j)) < scSlots s (rqBackground (scRequests s j))")
  case False
  then have "work_acquire cid s = s" by (auto simp: work_acquire_def Let_def split: option.splits)
  then show ?thesis using assms by simp
next
  case True
  then obtain l j where l: "mget (scLanes s) cid = Some l" "lnActive l = Some j" "lnAcquired l = None"
      "scInUse s (rqBackground (scRequests s j)) < scSlots s (rqBackground (scRequests s j))" by blast
  let ?bg = "rqBackground (scRequests s j)"
  let ?l = "l\<lparr>lnAcquired := Some ?bg\<rparr>"
  let ?t = "set_lane cid ?l (s\<lparr>scInUse := (scInUse s)(?bg := scInUse s ?bg + 1)\<rparr>)"
  have t: "work_acquire cid s = ?t" using l by (simp add: work_acquire_def Let_def)
  have jobs: "lane_jobs ?l = lane_jobs l" by (simp add: lane_jobs_def)
  show ?thesis unfolding t
  proof (rule core_update_lane [OF assms l(1), of _ ?l])
    show "lane_ok ?t cid ?l" using core_lane_ok [OF assms l(1)] l(2) jobs by (simp add: lane_ok_def)
    show "scInUse ?t bg = scInUse s bg + holds_slot bg ?l - holds_slot bg l" for bg using l(3) by (simp add: holds_slot_def)
    show "scInUse ?t bg \<le> scSlots s bg" for bg using sched_coreD(6) [OF assms] l(4) by simp
  qed (simp_all add: jobs)
qed

lemma core_done:
  assumes "sched_core s" and l: "mget (scLanes s) cid = Some l"
  shows "sched_core (work_done cid r s)"
proof (cases "lnActive l")
  case None
  then show ?thesis using assms by (simp add: work_done_def)
next
  case (Some j)
  note ok = core_lane_ok [OF assms]
  obtain p where t0: "work_done cid r s = set_lane cid (l\<lparr>lnQueue := lnQueue l @ lnInbox l, lnInbox := [], lnActive := None,
      lnConsumed := [], lnAcquired := None, lnPaused := p\<rparr>)
      (finish_merged (lnConsumed l) r (cancel_job j (finish_job j r (release_slot (lnAcquired l) s))))"
    using Some l by (simp add: work_done_def Let_def)
  let ?l = "l\<lparr>lnQueue := lnQueue l @ lnInbox l, lnInbox := [], lnActive := None, lnConsumed := [], lnAcquired := None, lnPaused := p\<rparr>"
  let ?t = "work_done cid r s"
  have un: "\<And>k. k \<in> set (lane_jobs l) \<Longrightarrow> scResults s k = None" using core_unfinished [OF assms] by blast
  have f: "scNext ?t = scNext s" "scRequests ?t = scRequests s" "scCapacity ?t = scCapacity s" "scSlots ?t = scSlots s"
      "scLanes ?t = mput cid ?l (scLanes s)" "scInUse ?t = scInUse (release_slot (lnAcquired l) s)"
    by (simp_all add: t0 finish_merged_closed_form)
  have split: "set (lane_jobs l) = insert j (set (lnConsumed l)) \<union> set (lane_jobs ?l)"
    using Some by (auto simp: lane_jobs_def)
  have d: "distinct (lane_jobs l)" using ok by (simp add: lane_ok_def)
  then have sep: "insert j (set (lnConsumed l)) \<inter> set (lane_jobs ?l) = {}" using Some by (auto simp: lane_jobs_def)
  show ?thesis
  proof (rule core_update_lane [OF assms, of _ ?l])
    have "scResults ?t k = None \<longleftrightarrow> scResults s k = None \<and> k \<notin> insert j (set (lnConsumed l))" for k
      by (auto simp: t0 finish_merged_closed_form finish_job_def)
    then show "scResults ?t k = None \<longleftrightarrow> scResults s k = None \<and> (k \<in> set (lane_jobs l) \<longrightarrow> k \<in> set (lane_jobs ?l))" for k
      using split sep un [of k] by blast
    have "distinct (lane_jobs ?l)" using d by (auto simp: lane_jobs_def)
    moreover have "\<forall>k \<in> set (lane_jobs ?l). rqConversation (scRequests s k) = cid \<and> rqSource (scRequests s k) = lnSource l"
      using ok split by (simp add: lane_ok_def)
    ultimately show "lane_ok ?t cid ?l" using ok Some by (auto simp: lane_ok_def f)
    show "scInUse ?t bg = scInUse s bg + holds_slot bg ?l - holds_slot bg l" for bg
      by (auto simp: f holds_slot_def release_slot_def split: option.splits)
    then show "scInUse ?t bg \<le> scSlots s bg" for bg
      using sched_coreD(6) [OF assms(1), of bg] by (simp add: holds_slot_def)
  qed (use split in \<open>simp_all only: f, blast\<close>)
qed

text \<open>Admission.\<close>

lemma admission_errorD: "admission_error req c s = None \<Longrightarrow> \<not> scClosed s \<and> c = None"
  by (auto simp: admission_error_def split: if_splits busy_policy.splits)

lemma lane_errorD:
  "lane_error cap req l = None \<Longrightarrow> lnSource l = rqSource req \<and> int (length (lnQueue l) + length (lnInbox l)) < cap"
  by (auto simp: lane_error_def split: if_splits)

lemma lane_jobs_enqueue: "set (lane_jobs (enqueue req j l)) = insert j (set (lane_jobs l))"
  by (auto simp: enqueue_def lane_jobs_def)

lemma distinct_enqueue: "distinct (lane_jobs l) \<Longrightarrow> j \<notin> set (lane_jobs l) \<Longrightarrow> distinct (lane_jobs (enqueue req j l))"
  by (auto simp: enqueue_def lane_jobs_def)

lemma enqueue_fields [simp]:
  "lnActive (enqueue req j l) = lnActive l" "lnRunning (enqueue req j l) = lnRunning l" "lnPaused (enqueue req j l) = lnPaused l"
  "lnSource (enqueue req j l) = lnSource l" "lnConsumed (enqueue req j l) = lnConsumed l" "lnAcquired (enqueue req j l) = lnAcquired l"
  "length (lnQueue (enqueue req j l)) + length (lnInbox (enqueue req j l)) = Suc (length (lnQueue l) + length (lnInbox l))"
  "lnActive l = None \<Longrightarrow> lnInbox (enqueue req j l) = lnInbox l"
  by (simp_all add: enqueue_def)

lemma wake_fields [simp]:
  "lane_jobs (wake req l) = lane_jobs l" "lnActive (wake req l) = lnActive l" "lnPaused (wake req l) = lnPaused l"
  "lnSource (wake req l) = lnSource l" "lnConsumed (wake req l) = lnConsumed l" "lnAcquired (wake req l) = lnAcquired l"
  "lnQueue (wake req l) = lnQueue l" "lnInbox (wake req l) = lnInbox l"
  "lnRunning (wake req l) \<longleftrightarrow> lnRunning l \<or> \<not> lnPaused l \<or> rqApprovalID req \<noteq> ''''"
  by (simp_all add: wake_def lane_jobs_def)

lemma lane_ok_fresh:
  assumes "lane_ok s c x" and "j \<notin> set (lane_jobs x)" and "scRequests t = (scRequests s)(j := r)"
    and "scCapacity t = scCapacity s"
  shows "lane_ok t c x"
proof -
  have same: "scRequests t k = scRequests s k" if "k \<in> set (lane_jobs x)" for k using assms(2,3) that by auto
  have "k \<in> set (lane_jobs x)" if "lnActive x = Some k" for k using that by (simp add: lane_jobs_def)
  then show ?thesis using assms(1,4) same unfolding lane_ok_def by simp
qed

lemma Submit_closed: "scClosed (snd (Submit ctx c req0 s)) = scClosed s \<and> scResults (snd (Submit ctx c req0 s)) = scResults s"
proof -
  obtain req where req: "default_conversation req0 = req" by blast
  show ?thesis
  proof (cases "admission_error req c s")
    case (Some e)
    then show ?thesis by (simp add: Submit_def req)
  next
    case None
    then show ?thesis
      by (cases "lane_error (scCapacity s) req (case mget (scLanes s) (rqConversation req) of Some l \<Rightarrow> l | None \<Rightarrow> new_lane (rqSource req))")
        (simp_all add: Submit_def Let_def req)
  qed
qed

lemma core_submit:
  assumes core: "sched_core s" and "Submit ctx c req0 s = (r, t)"
  shows "sched_core t" and "scClosed s \<Longrightarrow> t = s"
proof -
  obtain req where req: "default_conversation req0 = req" by blast
  define cid where "cid = rqConversation req"
  define l where "l = (case mget (scLanes s) cid of Some l \<Rightarrow> l | None \<Rightarrow> new_lane (rqSource req))"
  define s0 where "s0 = (if mget (scLanes s) cid = None then set_lane cid l s else s)"
  define j where "j = scNext s"
  note D = sched_coreD [OF core]
  show "scClosed s \<Longrightarrow> t = s"
    using assms(2) admission_errorD [of req c s] by (cases "admission_error req c s") (auto simp: Submit_def Let_def req)
  show "sched_core t"
  proof (cases "admission_error req c s")
    case (Some e)
    then show ?thesis using assms by (simp add: Submit_def req)
  next
    case ok: None
    have lcase: "mget (scLanes s) cid = Some l \<and> lane_ok s cid l \<or> mget (scLanes s) cid = None \<and> l = new_lane (rqSource req)"
      using core_lane_ok [OF core, of cid] by (auto simp: l_def split: option.splits)
    show ?thesis
    proof (cases "lane_error (scCapacity s) req l")
      case (Some e)
      have "mget (scLanes s) cid \<noteq> None"
        using Some lcase D(2) by (auto simp: lane_error_def new_lane_def split: if_splits)
      then have "s0 = s" by (auto simp: s0_def)
      moreover have "Submit ctx c req0 s = (Inl e, s0)" using ok Some
        by (simp only: Submit_def Let_def req cid_def [symmetric] l_def [symmetric] s0_def [symmetric] option.case)
      ultimately have "t = s" using assms(2) by simp
      then show ?thesis using core by simp
    next
      case None
      note cap = lane_errorD [OF None]
      define req' where "req' = (if TraceID (rqTrace req) = '''' then req\<lparr>rqTrace := Current ctx\<rparr> else req)"
      define s1 where "s1 = s0\<lparr>scNext := j + 1, scRequests := (scRequests s)(j := req')\<rparr>"
      define s2 where "s2 = (if rqApprovalID req = '''' \<and> rqBusy req = BusyInterrupt \<and> lnActive l \<noteq> None
          then cancel_job (the (lnActive l)) s1 else s1)"
      define l' where "l' = (if injected req l then enqueue req j l else wake req (enqueue req j l))"
      have "Submit ctx c req0 s = (Inr j, set_lane cid l' s2)"
        using ok None
        by (simp only: Submit_def Let_def req cid_def [symmetric] l_def [symmetric] s0_def [symmetric] j_def [symmetric]
            req'_def [symmetric] s1_def [symmetric] s2_def [symmetric] l'_def [symmetric] option.case)
      then have t: "t = set_lane cid l' s2" using assms(2) by simp
      have f: "scNext t = j + 1" "scRequests t = (scRequests s)(j := req')" "scCapacity t = scCapacity s"
          "scSlots t = scSlots s" "scInUse t = scInUse s" "scResults t = scResults s"
        by (simp_all add: t s2_def s1_def s0_def)
      have lanes: "mget (scLanes t) k = (if k = cid then Some l' else mget (scLanes s) k)" for k
        by (simp add: t s2_def s1_def s0_def)
      have wf: "wf_map (scLanes t)" using D(1) by (simp add: t s2_def s1_def s0_def)
      have rq: "rqConversation req' = cid" "rqSource req' = rqSource req" by (simp_all add: req'_def cid_def)
      have old: "k < j" if "mget (scLanes s) c = Some x" "k \<in> set (lane_jobs x)" for c x k
        using core_unfinished [OF core that] by (simp add: j_def)
      have oldl: "k < j" if "k \<in> set (lane_jobs l)" for k
        using lcase old [OF _ that] that by (auto simp: new_lane_def lane_jobs_def)
      have jobs: "set (lane_jobs l') = insert j (set (lane_jobs l))"
        by (simp add: l'_def lane_jobs_enqueue)
      have "lane_ok t cid l'"
      proof -
        have dl: "distinct (lane_jobs l)" using lcase by (auto simp: lane_ok_def new_lane_def lane_jobs_def)
        have d: "distinct (lane_jobs l')"
          using distinct_enqueue [OF dl, of j req] oldl by (auto simp: l'_def)
        have src: "\<forall>k \<in> set (lane_jobs l). rqConversation (scRequests s k) = cid \<and> rqSource (scRequests s k) = lnSource l"
          using lcase by (auto simp: lane_ok_def new_lane_def lane_jobs_def)
        have e: "lnSource l' = lnSource l" "lnActive l' = lnActive l" "lnConsumed l' = lnConsumed l" "lnAcquired l' = lnAcquired l"
            "lnPaused l' = lnPaused l" "length (lnQueue l') + length (lnInbox l') = Suc (length (lnQueue l) + length (lnInbox l))"
            "lnActive l = None \<Longrightarrow> lnInbox l' = lnInbox l"
          by (simp_all add: l'_def)
        have idle: "lnActive l = None \<longrightarrow> lnInbox l = [] \<and> lnConsumed l = [] \<and> lnAcquired l = None"
          using lcase by (auto simp: lane_ok_def new_lane_def)
        have run: "\<not> lnRunning l' \<longrightarrow> lnActive l' = None \<and> lnPaused l'"
          using lcase by (auto simp: l'_def lane_ok_def new_lane_def injected_def)
        have act: "\<forall>k bg. lnActive l = Some k \<and> lnAcquired l = Some bg \<longrightarrow> rqBackground (scRequests s k) = bg"
          using lcase by (auto simp: lane_ok_def new_lane_def)
        have actl: "lnActive l = Some k \<Longrightarrow> k \<in> set (lane_jobs l)" for k by (simp add: lane_jobs_def)
        have j_new: "\<And>k. k \<in> set (lane_jobs l) \<Longrightarrow> k \<noteq> j" using oldl by blast
        show ?thesis
          unfolding lane_ok_def f e
        proof (intro conjI)
          show "distinct (lane_jobs l')" by (rule d)
          show "\<forall>k \<in> set (lane_jobs l'). rqConversation (((scRequests s)(j := req')) k) = cid
              \<and> rqSource (((scRequests s)(j := req')) k) = lnSource l"
            unfolding jobs using src rq cap by auto
          show "int (Suc (length (lnQueue l) + length (lnInbox l))) \<le> scCapacity s" using cap by simp
          show "lnActive l = None \<longrightarrow> lnInbox l' = [] \<and> lnConsumed l = [] \<and> lnAcquired l = None"
            using idle e(7) by simp
          show "\<not> lnRunning l' \<longrightarrow> lnActive l = None \<and> lnPaused l" using run e by simp
          show "\<forall>k bg. lnActive l = Some k \<and> lnAcquired l = Some bg
              \<longrightarrow> rqBackground (((scRequests s)(j := req')) k) = bg"
            using act actl j_new by auto
        qed
      qed
      moreover have "lane_ok t k x" if "mget (scLanes s) k = Some x" for k x
        using core_lane_ok [OF core that]
      proof (rule lane_ok_fresh)
        show "j \<notin> set (lane_jobs x)" using old [OF that] by blast
      qed (simp_all add: f)
      ultimately have "mall (lane_ok t) (scLanes t)" by (simp add: mall_def lanes)
      moreover have "placed t k \<longleftrightarrow> k < scNext t \<and> scResults t k = None" for k
      proof -
        have "placed t k \<longleftrightarrow> placed s k \<or> k = j"
        proof
          assume "placed t k"
          then obtain c x where x: "mget (scLanes t) c = Some x" "k \<in> set (lane_jobs x)" by (auto simp: placed_def)
          show "placed s k \<or> k = j"
          proof (cases "c = cid")
            case True
            then have "k = j \<or> k \<in> set (lane_jobs l)" using x lanes jobs by auto
            moreover have "k \<in> set (lane_jobs l) \<Longrightarrow> placed s k"
              using lcase by (auto simp: placed_def new_lane_def lane_jobs_def)
            ultimately show ?thesis by blast
          next
            case False
            then show ?thesis using x lanes by (auto simp: placed_def)
          qed
        next
          assume "placed s k \<or> k = j"
          then show "placed t k"
          proof
            assume "placed s k"
            then obtain c x where x: "mget (scLanes s) c = Some x" "k \<in> set (lane_jobs x)" by (auto simp: placed_def)
            then have "mget (scLanes t) c = Some (if c = cid then l' else x)" "k \<in> set (lane_jobs (if c = cid then l' else x))"
              using lcase lanes jobs by auto
            then show "placed t k" unfolding placed_def by blast
          next
            assume "k = j"
            then have "mget (scLanes t) cid = Some l'" "k \<in> set (lane_jobs l')" using lanes jobs by auto
            then show "placed t k" unfolding placed_def by blast
          qed
        qed
        moreover have "scResults s j = None"
          using D(7) [of j] by (cases "scResults s j") (auto simp: j_def)
        ultimately show ?thesis using D(4) [of k] by (auto simp: f j_def less_Suc_eq)
      qed
      moreover have "msum (holds_slot bg) (scLanes t) = msum (holds_slot bg) (scLanes s)" for bg
      proof -
        have "msum (holds_slot bg) (mput cid l' (scLanes s)) = msum (holds_slot bg) (scLanes s)" for bg
          using msum_mput [OF D(1), of "holds_slot bg" cid l'] lcase
          by (auto simp: l'_def holds_slot_def new_lane_def)
        moreover have "scLanes t = mput cid l' (if mget (scLanes s) cid = None then mput cid l (scLanes s) else scLanes s)"
          by (simp add: t s2_def s1_def s0_def)
        moreover have "mput cid l' (mput cid l m) = mput cid l' m" for m by (simp add: mput_def)
        ultimately show ?thesis by simp
      qed
      ultimately show ?thesis
        using D(2) D(5) D(6) wf less_SucI [OF D(7)] unfolding sched_core_def f j_def Suc_eq_plus1 [symmetric] by auto
    qed
  qed
qed

subsection \<open>The steps of the scheduler\<close>

lemma cancel_lane_fields [simp]:
  "scLanes (cancel_lane cid l s) = mput cid (l\<lparr>lnQueue := [], lnInbox := []\<rparr>) (scLanes s)"
  "scClosed (cancel_lane cid l s) = scClosed s" "scNext (cancel_lane cid l s) = scNext s"
  by (simp_all add: cancel_lane_def cancel_waiting_closed_form split: option.splits)

lemma seal_lanes_core:
  assumes "sched_core s" and "wf_map ls" and "\<And>c l. (c, l) \<in> set ls \<Longrightarrow> mget (scLanes s) c = Some l"
  shows "sched_core (seal_lanes ls s) \<and> scClosed (seal_lanes ls s) = scClosed s
     \<and> (\<forall>c l. mget (scLanes (seal_lanes ls s)) c = Some l \<longrightarrow> mget (scLanes s) c \<noteq> None
          \<and> (nothing_waits c l \<or> c \<notin> set (mkeys ls) \<and> mget (scLanes s) c = Some l))"
  using assms
proof (induction ls arbitrary: s)
  case Nil
  then show ?case by (simp add: mkeys_def)
next
  case (Cons p ls)
  obtain c l where p: "p = (c, l)" by (cases p)
  let ?s = "cancel_lane c l s"
  have l: "mget (scLanes s) c = Some l" using Cons.prems(3) p by simp
  have core: "sched_core ?s" using core_cancel_lane [OF Cons.prems(1) l] .
  have wf: "wf_map ls" "mget ls c = None" using Cons.prems(2) by (simp_all add: p wf_map_Cons)
  have "mget (scLanes ?s) k = Some x" if "(k, x) \<in> set ls" for k x
  proof -
    have "k \<noteq> c" using that wf in_set_mget [OF wf(1) that] by auto
    then show ?thesis using Cons.prems(3) [of k x] that by simp
  qed
  note IH = Cons.IH [OF core wf(1) this]
  have "nothing_waits c (l\<lparr>lnQueue := [], lnInbox := []\<rparr>)" by (simp add: nothing_waits_def)
  then show ?case
    using IH l unfolding p seal_lanes.simps
    by (auto simp: mkeys_def split: if_splits)
qed

lemma inv_Seal:
  assumes "sched_core s"
  shows "sched_inv (Seal s)" and "scClosed (Seal s)"
proof -
  let ?s = "s\<lparr>scClosed := True\<rparr>"
  have core: "sched_core ?s" using core_close [OF assms] .
  have wf: "wf_map (scLanes s)" using sched_coreD(1) [OF assms] .
  have "\<And>c l. (c, l) \<in> set (scLanes s) \<Longrightarrow> mget (scLanes ?s) c = Some l"
    using in_set_mget [OF wf] by simp
  note S = seal_lanes_core [OF core wf this]
  show "scClosed (Seal s)" using S by (simp add: Seal_def)
  have "nothing_waits c l" if "mget (scLanes (Seal s)) c = Some l" for c l
    using S that unfolding Seal_def by (fastforce simp: mget_None_iff [symmetric])
  then show "sched_inv (Seal s)" using S by (auto simp: sched_inv_def mall_def Seal_def)
qed

text \<open>
  What may happen: a request is submitted; the worker of a running lane takes the head of its
  queue, gets a slot, drains the inbox while its turn runs, and ends the turn, which ran only with
  a slot and a live context; a context ends; a conversation is cancelled; the scheduler is sealed.
\<close>

inductive sched_step :: "scheduler \<Rightarrow> scheduler \<Rightarrow> bool" where
  submit: "Submit ctx c req s = (r, t) \<Longrightarrow> sched_step s t"
| take: "mget (scLanes s) cid = Some l \<Longrightarrow> lnRunning l \<Longrightarrow> lnActive l = None \<Longrightarrow> sched_step s (work_take cid s)"
| acquire: "sched_step s (work_acquire cid s)"
| drained: "mget (scLanes s) cid = Some l \<Longrightarrow> lnAcquired l \<noteq> None \<Longrightarrow> sched_step s (snd (drain cid s))"
| turn: "mget (scLanes s) cid = Some l \<Longrightarrow> lnActive l = Some j \<Longrightarrow> lnAcquired l \<noteq> None
    \<Longrightarrow> sched_step s (work_done cid (turn_result None answer) s)"
| skipped: "mget (scLanes s) cid = Some l \<Longrightarrow> lnActive l = Some j \<Longrightarrow> scErrs s j = Some e
    \<Longrightarrow> sched_step s (work_done cid (turn_result (Some e) answer) s)"
| ended: "sched_step s (end_context j e s)"
| cancelled: "sched_step s (CancelConversation cid s)"
| sealed: "sched_step s (Seal s)"

lemma nothing_waits_mput:
  "mall nothing_waits m \<Longrightarrow> (\<And>l. mget m cid = Some l \<Longrightarrow> nothing_waits cid l \<Longrightarrow> nothing_waits cid l') \<Longrightarrow>
   mget m cid \<noteq> None \<Longrightarrow> mall nothing_waits (mput cid l' m)"
  by (auto simp: mall_def)

lemma sched_step_inv:
  assumes "sched_step s t" and "sched_inv s"
  shows "sched_inv t"
  using assms
proof (induction rule: sched_step.induct)
  case (submit ctx c req s r t)
  then have "sched_core t" "scClosed s \<Longrightarrow> t = s" using core_submit by (auto simp: sched_inv_def)
  moreover have "scClosed t = scClosed s" using Submit_closed [of ctx c req s] submit.hyps by simp
  ultimately show ?case using submit.prems by (auto simp: sched_inv_def)
next
  case (take s cid l)
  then have "sched_core (work_take cid s)" using core_take by (simp add: sched_inv_def)
  moreover have "scClosed (work_take cid s) = scClosed s"
    by (auto simp: work_take_def split: option.splits list.splits)
  moreover have "mall nothing_waits (scLanes (work_take cid s))" if "mall nothing_waits (scLanes s)"
  proof -
    have "lnQueue l = []" "nothing_waits cid l" using mallD [OF that take.hyps(1)] by (simp_all add: nothing_waits_def)
    then show ?thesis using that take.hyps(1) by (auto simp: work_take_def mall_def nothing_waits_def)
  qed
  ultimately show ?case using take.prems by (simp add: sched_inv_def)
next
  case (acquire s cid)
  have "mall nothing_waits (scLanes (work_acquire cid s))" if "mall nothing_waits (scLanes s)"
    using that by (auto simp: work_acquire_def Let_def mall_def nothing_waits_def split: option.splits)
  moreover have "scClosed (work_acquire cid s) = scClosed s"
    by (auto simp: work_acquire_def Let_def split: option.splits)
  ultimately show ?case using acquire core_acquire by (simp add: sched_inv_def)
next
  case (drained s cid l)
  have "mall nothing_waits (scLanes (snd (drain cid s)))" if "mall nothing_waits (scLanes s)"
    using that by (auto simp: drain_def drain_loop_closed_form mall_def nothing_waits_def split: option.splits)
  moreover have "scClosed (snd (drain cid s)) = scClosed s"
    by (auto simp: drain_def drain_loop_closed_form split: option.splits)
  ultimately show ?case using drained core_drain by (simp add: sched_inv_def)
next
  case (turn s cid l j answer)
  have "mall nothing_waits (scLanes (work_done cid r s))" if "mall nothing_waits (scLanes s)" for r
    using that by (auto simp: work_done_def Let_def finish_merged_closed_form mall_def nothing_waits_def split: option.splits)
  moreover have "scClosed (work_done cid r s) = scClosed s" for r
    by (auto simp: work_done_def Let_def finish_merged_closed_form split: option.splits)
  ultimately show ?case using turn core_done by (simp add: sched_inv_def)
next
  case (skipped s cid l j e answer)
  have "mall nothing_waits (scLanes (work_done cid r s))" if "mall nothing_waits (scLanes s)" for r
    using that by (auto simp: work_done_def Let_def finish_merged_closed_form mall_def nothing_waits_def split: option.splits)
  moreover have "scClosed (work_done cid r s) = scClosed s" for r
    by (auto simp: work_done_def Let_def finish_merged_closed_form split: option.splits)
  ultimately show ?case using skipped core_done by (simp add: sched_inv_def)
next
  case (ended s j e)
  then show ?case using core_end_context by (simp add: sched_inv_def)
next
  case (cancelled s cid)
  show ?case
  proof (cases "mget (scLanes s) cid")
    case None
    then show ?thesis using cancelled by (simp add: CancelConversation_def)
  next
    case (Some l)
    then have "mall nothing_waits (scLanes s) \<Longrightarrow> mall nothing_waits (scLanes (CancelConversation cid s))"
      by (auto simp: CancelConversation_def mall_def nothing_waits_def)
    then show ?thesis using cancelled core_cancel_lane [OF _ Some] Some
      by (simp add: sched_inv_def CancelConversation_def)
  qed
next
  case (sealed s)
  then show ?case using inv_Seal by (simp add: sched_inv_def)
qed

interpretation sched_runs: stepper sched_step sched_inv
  by unfold_locales (rule sched_step_inv)

subsection \<open>What the scheduler promises\<close>

lemma scheduled_inv:
  assumes "New u b c = Inr s0" and "sched_step\<^sup>*\<^sup>* s0 s"
  shows "sched_inv s"
  using sched_runs.run_inv [OF assms(2) New_inv [OF assms(1)]] .

definition demo_request :: "string \<Rightarrow> busy_policy \<Rightarrow> string \<Rightarrow> request" where
  "demo_request text busy approval = no_request\<lparr>rqConversation := ''c'', rqText := text, rqBusy := busy, rqApprovalID := approval\<rparr>"

definition demo_start :: scheduler where
  "demo_start = \<lparr>scLanes = [], scClosed = False, scCapacity = 4, scRequests = (\<lambda>_. no_request),
     scErrs = (\<lambda>_. None), scSlots = (\<lambda>bg. if bg then 1 else 1), scInUse = (\<lambda>_. 0),
     scResults = (\<lambda>_. None), scNext = 0\<rparr>"

definition demo_one :: scheduler where
  "demo_one = snd (Submit background None (demo_request ''hi'' BusyDefault '''') demo_start)"

lemma demo_start_new: "New 1 1 4 = Inr demo_start"
  by (simp add: New_def demo_start_def fun_eq_iff)

lemma demo_one_run: "sched_step\<^sup>*\<^sup>* demo_start demo_one"
  unfolding demo_one_def by (rule r_into_rtranclp, rule sched_step.submit, rule surjective_pairing)

lemmas demo_eval = demo_one_def background_def Current_def demo_start_def demo_request_def no_request_def no_identity_def Submit_def Let_def
  default_conversation_def admission_error_def lane_error_def new_lane_def injected_def enqueue_def wake_def set_lane_def mput_def

lemma demo_one_facts: "scNext demo_one = 1" "\<not> scClosed demo_one" "rqConversation (scRequests demo_one 0) = ''c''"
  by (simp_all add: demo_eval)

text \<open>C11. No request is lost or duplicated: in every reachable state an admitted request either has its
  final result, or waits, runs or is being merged in exactly one place of exactly one lane, the
  lane of its own conversation, whose source identity is its own.\<close>

theorem no_request_lost:
  assumes "New u b c = Inr s0" and "sched_step\<^sup>*\<^sup>* s0 s" and "j < scNext s"
  shows "(scResults s j \<noteq> None) \<noteq> (\<exists>l. mget (scLanes s) (rqConversation (scRequests s j)) = Some l
            \<and> lnSource l = rqSource (scRequests s j) \<and> distinct (lane_jobs l) \<and> j \<in> set (lane_jobs l))
     \<and> (\<forall>cid l. mget (scLanes s) cid = Some l \<and> j \<in> set (lane_jobs l) \<longrightarrow> cid = rqConversation (scRequests s j))"
proof -
  have core: "sched_core s" using scheduled_inv [OF assms(1,2)] by (simp add: sched_inv_def)
  have ok: "\<And>cid l. mget (scLanes s) cid = Some l \<Longrightarrow> lane_ok s cid l" using core_lane_ok [OF core] .
  show ?thesis
    using sched_coreD(4) [OF core, of j] assms(3) ok unfolding placed_def lane_ok_def by metis
qed

lemma no_request_lost_witness:
  "(scResults demo_one 0 \<noteq> None) \<noteq> (\<exists>l. mget (scLanes demo_one) ''c'' = Some l
     \<and> lnSource l = rqSource (scRequests demo_one 0) \<and> distinct (lane_jobs l) \<and> 0 \<in> set (lane_jobs l))"
  using no_request_lost [OF demo_start_new demo_one_run, of 0] by (simp add: demo_one_facts)

lemma results_step:
  assumes "sched_step s t" and "scResults s j = Some x"
  shows "scResults t j = Some x"
  using assms
proof (induction rule: sched_step.induct)
  case (submit ctx c req s r t)
  then show ?case using Submit_closed [of ctx c req s] by simp
next
  case (take s cid l)
  then show ?case by (auto simp: work_take_def split: list.splits)
next
  case (acquire s cid)
  then show ?case by (simp add: work_acquire_def Let_def split: option.splits)
next
  case (drained s cid l)
  then show ?case by (simp add: drain_def drain_loop_closed_form)
next
  case (turn s cid l k answer)
  then show ?case by (auto simp: work_done_def Let_def finish_merged_closed_form finish_job_def)
next
  case (skipped s cid l k e answer)
  then show ?case by (auto simp: work_done_def Let_def finish_merged_closed_form finish_job_def)
next
  case (ended s k e)
  then show ?case by simp
next
  case (cancelled s cid)
  then show ?case
    by (cases "mget (scLanes s) cid") (auto simp: CancelConversation_def cancel_lane_def cancel_waiting_closed_form split: option.splits)
next
  case (sealed s)
  have "scResults (seal_lanes ls u) j = Some x" if "scResults u j = Some x" for ls u
    using that
    by (induction ls u rule: seal_lanes.induct)
      (auto simp: cancel_lane_def cancel_waiting_closed_form split: option.splits)
  then show ?case using sealed by (simp add: Seal_def)
qed

definition demo_cancelled :: scheduler where
  "demo_cancelled = CancelConversation ''c'' demo_one"

lemma demo_cancelled_result:
  "scResults demo_cancelled 0 = Some \<lparr>rsText = '''', rsErr = Some Canceled, rsMerged = False\<rparr>"
  by (simp add: demo_cancelled_def CancelConversation_def cancel_lane_def demo_eval finish_job_def)

text \<open>Results are final: whatever is submitted, cancelled, sealed or answered later, a result that
  has been given to a request is never overwritten, so a waiter always reads the same one.\<close>

theorem results_are_final:
  assumes "sched_step\<^sup>*\<^sup>* s t" and "scResults s j = Some x"
  shows "scResults t j = Some x"
  using assms by (induction rule: rtranclp_induct) (auto intro: results_step)

lemma results_are_final_witness:
  "scResults (Seal demo_cancelled) 0 = Some \<lparr>rsText = '''', rsErr = Some Canceled, rsMerged = False\<rparr>"
  by (rule results_are_final [OF r_into_rtranclp [of sched_step, OF sched_step.sealed] demo_cancelled_result])

text \<open>C12. Capacity and identity: in every reachable state the messages that wait in a conversation never
  exceed the queue capacity, all of its requests share one source identity, the turns that hold
  a slot of a pool are counted exactly and never exceed the slots of that pool.\<close>

theorem lanes_and_pools_bounded:
  assumes "New u b c = Inr s0" and "sched_step\<^sup>*\<^sup>* s0 s"
  shows "(\<forall>cid l. mget (scLanes s) cid = Some l \<longrightarrow>
       int (length (lnQueue l) + length (lnInbox l)) \<le> scCapacity s
     \<and> (\<forall>j k. j \<in> set (lane_jobs l) \<and> k \<in> set (lane_jobs l) \<longrightarrow> rqSource (scRequests s j) = rqSource (scRequests s k)))
    \<and> (\<forall>bg. msum (holds_slot bg) (scLanes s) = scInUse s bg \<and> scInUse s bg \<le> scSlots s bg)"
proof (intro conjI)
  have core: "sched_core s" using scheduled_inv [OF assms] by (simp add: sched_inv_def)
  show "\<forall>cid l. mget (scLanes s) cid = Some l \<longrightarrow>
       int (length (lnQueue l) + length (lnInbox l)) \<le> scCapacity s
     \<and> (\<forall>j k. j \<in> set (lane_jobs l) \<and> k \<in> set (lane_jobs l) \<longrightarrow> rqSource (scRequests s j) = rqSource (scRequests s k))"
    using core_lane_ok [OF core] unfolding lane_ok_def by metis
  show "\<forall>bg. msum (holds_slot bg) (scLanes s) = scInUse s bg \<and> scInUse s bg \<le> scSlots s bg"
    using sched_coreD(5,6) [OF core] by simp
qed

lemma lanes_and_pools_bounded_witness:
  "msum (holds_slot False) (scLanes demo_one) = scInUse demo_one False \<and> scInUse demo_one False \<le> scSlots demo_one False"
  using lanes_and_pools_bounded [OF demo_start_new demo_one_run] by blast

text \<open>C13. Closing drains: once the scheduler is sealed nothing new is admitted and nothing waits, and
  when the current turn of a conversation ends, every request that was ever admitted to that
  conversation has its result.\<close>

theorem sealed_conversation_drains:
  assumes "New u b c = Inr s0" and "sched_step\<^sup>*\<^sup>* s0 s" and "scClosed s"
  shows "(\<exists>e. Submit ctx cerr req s = (Inl e, s))
    \<and> (j < scNext s \<longrightarrow> scResults (work_done (rqConversation (scRequests s j)) r s) j \<noteq> None)"
proof (intro conjI impI)
  have inv: "sched_inv s" using scheduled_inv [OF assms(1,2)] .
  then have core: "sched_core s" and quiet: "mall nothing_waits (scLanes s)"
    using assms(3) by (simp_all add: sched_inv_def)
  obtain q where q: "default_conversation req = q" by blast
  obtain e where "admission_error q cerr s = Some e"
    using admission_errorD [of q cerr s] assms(3) by (cases "admission_error q cerr s") auto
  then show "\<exists>e. Submit ctx cerr req s = (Inl e, s)"
    by (simp add: Submit_def q)
  assume j: "j < scNext s"
  let ?cid = "rqConversation (scRequests s j)"
  show "scResults (work_done ?cid r s) j \<noteq> None"
  proof (cases "placed s j")
    case False
    then obtain x where "scResults s j = Some x" using sched_coreD(4) [OF core, of j] j by auto
    then have "scResults (work_done ?cid r s) j = Some x"
      by (auto simp: work_done_def Let_def finish_merged_closed_form finish_job_def split: option.splits)
    then show ?thesis by simp
  next
    case True
    then obtain cid l where l: "mget (scLanes s) cid = Some l" "j \<in> set (lane_jobs l)" by (auto simp: placed_def)
    then have cid: "cid = ?cid" using placed_in_own_lane [OF sched_coreD(3) [OF core]] by simp
    have "j \<in> set_option (lnActive l) \<union> set (lnConsumed l)"
      using l(2) mallD [OF quiet l(1)] by (auto simp: lane_jobs_def nothing_waits_def split: option.splits)
    moreover have "lnActive l \<noteq> None" using calculation core_lane_ok [OF core l(1)] by (auto simp: lane_ok_def)
    ultimately show ?thesis
      using l(1) unfolding cid
      by (auto simp: work_done_def Let_def finish_merged_closed_form finish_job_def)
  qed
qed

lemma sealed_conversation_drains_witness:
  "scResults (work_done ''c'' \<lparr>rsText = '''', rsErr = None, rsMerged = False\<rparr> (Seal demo_one)) 0 \<noteq> None"
proof -
  have "sched_step\<^sup>*\<^sup>* demo_start (Seal demo_one)"
    using demo_one_run sched_step.sealed by (rule rtranclp.rtrancl_into_rtrancl)
  moreover have "scClosed (Seal demo_one)" "scNext (Seal demo_one) = 1" "rqConversation (scRequests (Seal demo_one) 0) = ''c''"
    by (simp_all add: Seal_def cancel_lane_def demo_eval finish_job_def)
  ultimately show ?thesis
    using sealed_conversation_drains [OF demo_start_new, of "Seal demo_one"] by simp
qed

text \<open>
  An approval that waits behind an interrupting message is not served: the lane is paused, an
  approval turn is running and a second approval waits; an interrupt is submitted, which is put
  before it. The interrupted turn ends with its cancellation, the lane is still paused and its
  head is no approval, so the worker stops and the waiting approval stays in the queue of a
  conversation nobody works on.
\<close>

definition stranded_lane :: lane where
  "stranded_lane = \<lparr>lnQueue = [1], lnInbox = [], lnActive = Some 0, lnRunning = True, lnPaused = True,
     lnSource = rqSource no_request, lnConsumed = [], lnAcquired = Some False\<rparr>"

definition stranded_start :: scheduler where
  "stranded_start = demo_start\<lparr>scLanes := [(''c'', stranded_lane)], scNext := 2, scInUse := (\<lambda>bg. if bg then 0 else 1),
     scRequests := (\<lambda>j. demo_request ''ok'' BusyDefault ''ap'')\<rparr>"

definition stranded_end :: scheduler where
  "stranded_end =
     work_take ''c'' (work_done ''c'' (turn_result None (Inl ('''', Some Canceled)))
       (snd (Submit background None (demo_request ''stop'' BusyInterrupt '''') stranded_start)))"

lemma approval_stranded_behind_interrupt:
  "map_option (\<lambda>l. (lnQueue l, lnRunning l, lnPaused l)) (mget (scLanes stranded_end) ''c'') = Some ([2, 1], False, True)"
  "rqApprovalID (scRequests stranded_end 1) = ''ap''" "scResults stranded_end 1 = None"
  by (simp_all add: stranded_end_def stranded_start_def stranded_lane_def work_take_def work_done_def demo_eval
      turn_result_def invoke_def pausing_def errors_as_def release_slot_def cancel_job_def end_context_def finish_job_def)

end
