(* ===== verification/Delivery.thy ===== *)
theory Delivery
  imports Journal Scheduler
begin

section \<open>Delivery of completed results\<close>

text \<open>
  \<open>internal/delivery/hub.go\<close> and \<open>durable.go\<close>: one outlet is called with bounded retries, the outbox
  entry of the journal follows the outcome, and the hub keeps a bounded queue per outlet with a
  count of the messages it still owns. What a call of the outlet answers (or the panic it raised),
  whether the hub's context is done after an attempt and whether it ends a delay are arguments,
  indexed by the attempt.
\<close>

record message =
  dmID :: string
  dmSource :: source
  dmText :: string
  dmIdentity :: identity

record delivery_record =
  drMessage :: message
  drReceipt :: string
  drOutcome :: string
  drAttempts :: nat

subsection \<open>One message\<close>

type_synonym send_answer = "(string \<times> gerr option) + string"

definition guardedSend :: "send_answer \<Rightarrow> string \<times> gerr option" where
  "guardedSend a = (case a of Inl r \<Rightarrow> r
     | Inr p \<Rightarrow> ('''', Some (Uncertain (Errorf ''delivery adapter panic: %v; external outcome requires reconciliation'' [p]))))"

text \<open>The error of one attempt: a success without a receipt is an error too.\<close>

definition attempt_error :: "send_answer \<Rightarrow> gerr option" where
  "attempt_error a = (case guardedSend a of (receipt, err) \<Rightarrow>
     if err = None \<and> receipt = '''' then Some (Msg ''delivery returned no platform receipt'') else err)"

definition is_Uncertain :: "gerr \<Rightarrow> bool" where "is_Uncertain e = (case e of Uncertain _ \<Rightarrow> True | _ \<Rightarrow> False)"
definition is_Terminal :: "gerr \<Rightarrow> bool" where "is_Terminal e = (case e of Terminal _ \<Rightarrow> True | _ \<Rightarrow> False)"
definition is_Rejected :: "gerr \<Rightarrow> bool" where "is_Rejected e = (case e of Rejected _ \<Rightarrow> True | _ \<Rightarrow> False)"

definition as_uncertain :: "gerr \<Rightarrow> bool" where "as_uncertain e \<longleftrightarrow> errors_as is_Uncertain e \<noteq> None"
definition as_terminal :: "gerr \<Rightarrow> bool" where "as_terminal e \<longleftrightarrow> errors_as is_Terminal e \<noteq> None"
definition as_rejected :: "gerr \<Rightarrow> bool" where "as_rejected e \<longleftrightarrow> errors_as is_Rejected e \<noteq> None"

definition retry_delay :: "duration \<Rightarrow> nat \<Rightarrow> duration" where
  "retry_delay delay attempt = mul64 delay (2 ^ min attempt 10)"

function send_loop ::
  "bool \<Rightarrow> nat \<Rightarrow> (nat \<Rightarrow> send_answer) \<Rightarrow> (nat \<Rightarrow> bool) \<Rightarrow> (nat \<Rightarrow> bool) \<Rightarrow> nat \<Rightarrow> delivery_record \<Rightarrow> delivery_record" where
  "send_loop idempotent retries answer down stopped attempt rec =
     (if attempt > retries then rec
      else (let rec1 = rec\<lparr>drAttempts := drAttempts rec + 1\<rparr> in
        (case attempt_error (answer attempt) of
           None \<Rightarrow> rec1\<lparr>drReceipt := fst (guardedSend (answer attempt)), drOutcome := ''delivered''\<rparr>
         | Some e \<Rightarrow>
             if as_uncertain e then rec1\<lparr>drOutcome := ''unknown''\<rparr>
             else if \<not> as_terminal e \<and> \<not> as_rejected e \<and> (\<not> idempotent \<or> dmID (drMessage rec) = '''')
             then rec1\<lparr>drOutcome := ''unknown''\<rparr>
             else if as_terminal e \<or> down attempt \<or> attempt = retries
             then (if as_terminal e then rec1 else rec1\<lparr>drOutcome := ''unknown''\<rparr>)
             else if stopped attempt then rec1\<lparr>drOutcome := ''unknown''\<rparr>
             else send_loop idempotent retries answer down stopped (attempt + 1) rec1)))"
  by pat_completeness auto

termination by (relation "measure (\<lambda>(_, retries, _, _, _, attempt, _). Suc retries - attempt)") auto

declare send_loop.simps [simp del]

definition fresh_record :: "message \<Rightarrow> delivery_record" where
  "fresh_record msg = \<lparr>drMessage = msg, drReceipt = '''', drOutcome = ''dropped'', drAttempts = 0\<rparr>"

text \<open>\<open>send\<close>: the record that reaches the sink (once, on every path), and the outbox.\<close>

definition send ::
  "journal option \<Rightarrow> io \<Rightarrow> io \<Rightarrow> instant \<Rightarrow> instant \<Rightarrow> (string \<Rightarrow> string) \<Rightarrow> bool \<Rightarrow> nat \<Rightarrow> (nat \<Rightarrow> send_answer)
     \<Rightarrow> (nat \<Rightarrow> bool) \<Rightarrow> (nat \<Rightarrow> bool) \<Rightarrow> message \<Rightarrow> journal_state content \<Rightarrow> delivery_record \<times> journal_state content"
where
  "send jo io1 io2 t1 t2 enc idempotent retries answer down stopped msg d =
     (case jo of
        Some j \<Rightarrow>
          if dmID msg = '''' then (send_loop idempotent retries answer down stopped 0 (fresh_record msg), d)
          else (case journal_Move j io1 t1 ''outbox'' (dmID msg) ''pending'' ''sending'' None d of
                  (Some e, d1) \<Rightarrow> ((fresh_record msg)\<lparr>drOutcome := ''journal_error''\<rparr>, d1)
                | (None, d1) \<Rightarrow>
                   (let rec = send_loop idempotent retries answer down stopped 0 (fresh_record msg)
                    in (case journal_Move j io2 t2 ''outbox'' (dmID msg) ''sending'' (drOutcome rec) (Some (Inr (enc (drReceipt rec)))) d1 of
                          (Some e, d2) \<Rightarrow> (rec\<lparr>drOutcome := ''journal_error''\<rparr>, d2)
                        | (None, d2) \<Rightarrow> (rec, d2))))
      | None \<Rightarrow> (send_loop idempotent retries answer down stopped 0 (fresh_record msg), d))"

subsection \<open>When an outlet is called again\<close>

definition safe_to_retry :: "bool \<Rightarrow> message \<Rightarrow> send_answer \<Rightarrow> bool" where
  "safe_to_retry idempotent msg a \<longleftrightarrow>
     (\<exists>e. attempt_error a = Some e \<and> \<not> as_uncertain e \<and> \<not> as_terminal e \<and> (as_rejected e \<or> idempotent \<and> dmID msg \<noteq> ''''))"

lemma send_loop_message [simp]:
  "drMessage (send_loop idem retries answer down stopped attempt rec) = drMessage rec"
proof (induction idem retries answer down stopped attempt rec rule: send_loop.induct)
  case (1 idem retries answer down stopped attempt rec)
  show ?case
    by (subst send_loop.simps) (use 1 in \<open>simp add: Let_def split: option.split\<close>)
qed

text \<open>What the attempts from \<open>attempt\<close> on amount to.\<close>

definition final_outcome :: "send_answer \<Rightarrow> string" where
  "final_outcome a = (case attempt_error a of None \<Rightarrow> ''delivered''
     | Some e \<Rightarrow> if \<not> as_uncertain e \<and> as_terminal e then ''dropped'' else ''unknown'')"

definition sent_well ::
  "bool \<Rightarrow> nat \<Rightarrow> (nat \<Rightarrow> send_answer) \<Rightarrow> (nat \<Rightarrow> bool) \<Rightarrow> (nat \<Rightarrow> bool) \<Rightarrow> nat \<Rightarrow> delivery_record \<Rightarrow> delivery_record \<Rightarrow> bool"
where
  "sent_well idem retries answer down stopped attempt rec r \<longleftrightarrow>
     attempt < drAttempts r \<and> drAttempts r \<le> retries + 1
   \<and> (\<forall>i. attempt \<le> i \<and> i + 1 < drAttempts r \<longrightarrow> safe_to_retry idem (drMessage rec) (answer i) \<and> \<not> down i \<and> \<not> stopped i)
   \<and> (drOutcome rec = ''dropped'' \<longrightarrow> drOutcome r = final_outcome (answer (drAttempts r - 1)))
   \<and> (attempt_error (answer (drAttempts r - 1)) = None \<longrightarrow>
        drReceipt r = fst (guardedSend (answer (drAttempts r - 1))) \<and> drReceipt r \<noteq> '''')"

lemma sent_well_step:
  assumes "sent_well idem retries answer down stopped (attempt + 1) (rec\<lparr>drAttempts := n\<rparr>) r"
    and "safe_to_retry idem (drMessage rec) (answer attempt)" "\<not> down attempt" "\<not> stopped attempt"
  shows "sent_well idem retries answer down stopped attempt rec r"
proof -
  have "i = attempt \<or> attempt + 1 \<le> i" if "attempt \<le> i" for i using that by auto
  then show ?thesis using assms unfolding sent_well_def by auto
qed

lemma send_loop_attempts:
  assumes "attempt \<le> retries" and "drAttempts rec = attempt"
  shows "sent_well idem retries answer down stopped attempt rec (send_loop idem retries answer down stopped attempt rec)"
  using assms
proof (induction idem retries answer down stopped attempt rec rule: send_loop.induct)
  case (1 idem retries answer down stopped attempt rec)
  note unfold = send_loop.simps [of idem retries answer down stopped attempt rec]
  show ?case
  proof (cases "attempt_error (answer attempt)")
    case None
    have "fst (guardedSend (answer attempt)) \<noteq> ''''"
      using None by (auto simp: attempt_error_def split: prod.splits if_splits)
    then show ?thesis using None 1(2,3) by (auto simp: unfold Let_def sent_well_def final_outcome_def)
  next
    case (Some e)
    show ?thesis
    proof (cases "as_uncertain e \<or> \<not> as_terminal e \<and> \<not> as_rejected e \<and> (\<not> idem \<or> dmID (drMessage rec) = '''')
        \<or> as_terminal e \<or> down attempt \<or> attempt = retries \<or> stopped attempt")
      case True
      then have "send_loop idem retries answer down stopped attempt rec = (rec\<lparr>drAttempts := drAttempts rec + 1\<rparr>)
          \<lparr>drOutcome := (if \<not> as_uncertain e \<and> as_terminal e then drOutcome rec else ''unknown'')\<rparr>"
        using Some 1(2) by (simp add: unfold Let_def) blast
      then show ?thesis using Some 1(2,3) by (auto simp: sent_well_def final_outcome_def)
    next
      case False
      have here: "safe_to_retry idem (drMessage rec) (answer attempt)" "\<not> down attempt" "\<not> stopped attempt"
        using Some False by (auto simp: safe_to_retry_def)
      let ?rec1 = "rec\<lparr>drAttempts := drAttempts rec + 1\<rparr>"
      have step: "send_loop idem retries answer down stopped attempt rec
          = send_loop idem retries answer down stopped (attempt + 1) ?rec1"
        using Some False 1(2) by (auto simp: unfold Let_def)
      have lt: "attempt + 1 \<le> retries" using False 1(2) by auto
      have "sent_well idem retries answer down stopped (attempt + 1) ?rec1
          (send_loop idem retries answer down stopped (attempt + 1) ?rec1)"
        by (rule 1(1) [OF _ refl Some]) (use False 1(2,3) lt in auto)
      then show ?thesis unfolding step by (rule sent_well_step) (use here in simp_all)
    qed
  qed
qed

lemma fresh_record_simps [simp]:
  "drMessage (fresh_record msg) = msg" "drOutcome (fresh_record msg) = ''dropped''" "drAttempts (fresh_record msg) = 0"
  by (simp_all add: fresh_record_def)

lemmas send_loop_fresh = send_loop_attempts [of 0 _ "fresh_record _", simplified]

lemma send_cases:
  assumes "send jo io1 io2 t1 t2 enc idem retries answer down stopped msg d = (rec, d')"
  obtains (refused) "drAttempts rec = 0" "drOutcome rec = ''journal_error''"
  | (sent) r where "r = send_loop idem retries answer down stopped 0 (fresh_record msg)"
      "rec = r \<or> rec = r\<lparr>drOutcome := ''journal_error''\<rparr>"
  using assms by (auto simp: send_def Let_def split: option.splits prod.splits if_splits)

text \<open>C14. A message is sent again only when that cannot duplicate it: there are at most
  \<open>retries + 1\<close> attempts, every attempt but the last was definitively rejected before delivery
  or went to an idempotent outlet with a stable identifier, and its outcome was not uncertain;
  the outcome of the record follows the last attempt (delivered only with a platform receipt,
  dropped only on a terminal error, unknown otherwise) unless the journal failed.\<close>

theorem resend_only_when_safe:
  assumes "send jo io1 io2 t1 t2 enc idem retries answer down stopped msg d = (rec, d')"
  shows "drAttempts rec \<le> retries + 1
     \<and> (\<forall>i. i + 1 < drAttempts rec \<longrightarrow> safe_to_retry idem msg (answer i) \<and> \<not> down i \<and> \<not> stopped i)
     \<and> (drOutcome rec = ''journal_error'' \<or> drAttempts rec > 0 \<and> drOutcome rec = final_outcome (answer (drAttempts rec - 1)))
     \<and> (drOutcome rec = ''delivered'' \<longrightarrow> drReceipt rec = fst (guardedSend (answer (drAttempts rec - 1))) \<and> drReceipt rec \<noteq> '''')"
  using assms
proof (cases rule: send_cases)
  case refused
  then show ?thesis by simp
next
  case (sent r)
  have well: "sent_well idem retries answer down stopped 0 (fresh_record msg) r"
    unfolding sent(1) by (rule send_loop_attempts) simp_all
  have "attempt_error (answer (drAttempts r - 1)) = None" if "drOutcome r = ''delivered''"
    using well that by (auto simp: sent_well_def final_outcome_def split: option.splits if_splits)
  then show ?thesis using well sent(2) by (auto simp: sent_well_def)
qed

definition demo_message :: message where
  "demo_message = \<lparr>dmID = ''m'', dmSource = rqSource no_request, dmText = ''hi'', dmIdentity = no_identity\<rparr>"

definition demo_answers :: "nat \<Rightarrow> send_answer" where
  "demo_answers i = Inl (if i = 0 then ('''', Some (Rejected (Msg ''429''))) else (''r1'', None))"

lemma demo_answers_errors:
  "attempt_error (demo_answers 0) = Some (Rejected (Msg ''429''))" "attempt_error (demo_answers (Suc 0)) = None"
  "\<not> as_uncertain (Rejected (Msg ''429''))" "\<not> as_terminal (Rejected (Msg ''429''))" "as_rejected (Rejected (Msg ''429''))"
  by (simp_all add: demo_answers_def attempt_error_def guardedSend_def as_uncertain_def as_terminal_def as_rejected_def
      errors_as_def is_Uncertain_def is_Terminal_def is_Rejected_def)

lemma demo_send:
  "send_loop False 3 demo_answers (\<lambda>_. False) (\<lambda>_. False) 0 (fresh_record demo_message)
     = \<lparr>drMessage = demo_message, drReceipt = ''r1'', drOutcome = ''delivered'', drAttempts = 2\<rparr>"
  by (simp add: send_loop.simps [of False 3 demo_answers _ _ 0] send_loop.simps [of False 3 demo_answers _ _ "Suc 0"]
      Let_def demo_answers_errors)
    (simp add: fresh_record_def demo_answers_def guardedSend_def)

lemma resend_only_when_safe_witness:
  "safe_to_retry False demo_message (demo_answers 0) \<and> (\<exists>rec. drOutcome rec = ''delivered'' \<and> drReceipt rec = ''r1''
     \<and> send None io_ok io_ok 1 2 id False 3 demo_answers (\<lambda>_. False) (\<lambda>_. False) demo_message Absent = (rec, Absent))"
proof -
  let ?rec = "\<lparr>drMessage = demo_message, drReceipt = ''r1'', drOutcome = ''delivered'', drAttempts = 2\<rparr>"
  have s: "send None io_ok io_ok 1 2 id False 3 demo_answers (\<lambda>_. False) (\<lambda>_. False) demo_message Absent = (?rec, Absent)"
    by (simp add: send_def demo_send)
  from resend_only_when_safe [OF s] have "safe_to_retry False demo_message (demo_answers 0)" by simp
  with s show ?thesis by auto
qed

subsection \<open>The outbox entry\<close>

lemma journal_Move_cases:
  assumes "journal_Move j e now kind k src dst res d = (x, d')"
  obtains (unchanged) "d' = d" "x \<noteq> None"
  | (moved) s en data where "decode journal_zero d = Inr s" "jsEpoch s = jnEpoch j" "mget (jsEntries s) (entry_key kind k) = Some en"
      "jeState en = src"
      "d' = Holds (s\<lparr>jsEntries := mput (entry_key kind k) (en\<lparr>jeState := dst, jeResult := data, jeUpdatedAt := now\<rparr>) (jsEntries s)\<rparr>)"
proof -
  have "d' = d \<and> x \<noteq> None \<or> (\<exists>s en data. decode journal_zero d = Inr s \<and> jsEpoch s = jnEpoch j
     \<and> mget (jsEntries s) (entry_key kind k) = Some en \<and> jeState en = src
     \<and> d' = Holds (s\<lparr>jsEntries := mput (entry_key kind k) (en\<lparr>jeState := dst, jeResult := data, jeUpdatedAt := now\<rparr>) (jsEntries s)\<rparr>))"
  proof (cases "\<exists>y. res = Some (Inl y) \<or> jnClosed j")
    case True
    then show ?thesis using assms
      by (auto simp: journal_Move_def journal_mutate_def Let_def split: option.splits sum.splits)
  next
    case False
    then obtain data o1 where u: "file_update journal_zero e () (fenced j () (move_fn (entry_key kind k) src dst data now)) d = ((o1, x), d')"
      using assms by (auto simp: journal_Move_def journal_mutate_def Let_def split: option.splits sum.splits prod.splits)
    from file_update_split [OF u] show ?thesis
      by (fastforce simp: fenced_def move_fn_def split: if_splits option.splits)
  qed
  with that show ?thesis by metis
qed

lemma journal_Move_wrong_state:
  assumes "decode journal_zero d = Inr s" and "\<And>en. mget (jsEntries s) (entry_key kind k) = Some en \<Longrightarrow> jeState en \<noteq> src"
  shows "snd (journal_Move j e now kind k src dst res d) = d \<and> fst (journal_Move j e now kind k src dst res d) \<noteq> None"
proof -
  obtain x d' where m: "journal_Move j e now kind k src dst res d = (x, d')" by fastforce
  from m show ?thesis
    by (cases rule: journal_Move_cases) (use assms in \<open>auto simp: m\<close>)
qed

text \<open>The moves of \<open>send\<close> are calls of the program on the journal.\<close>

lemma send_acts:
  assumes "send (Some j) io1 io2 t1 t2 enc idem retries answer down stopped msg d = (rec, d')"
  shows "(journal_act direct)\<^sup>*\<^sup>* d d'"
proof (cases "dmID msg = ''''")
  case True
  then show ?thesis using assms by (simp add: send_def)
next
  case False
  obtain x dm where m: "journal_Move j io1 t1 ''outbox'' (dmID msg) ''pending'' ''sending'' None d = (x, dm)" by fastforce
  then have one: "journal_act direct d dm" by (rule journal_act.moved) (simp add: program_move_def)
  show ?thesis
  proof (cases x)
    case (Some e)
    then have "d' = dm" using assms False m by (simp add: send_def)
    then show ?thesis using one by simp
  next
    case None
    let ?r = "send_loop idem retries answer down stopped 0 (fresh_record msg)"
    obtain y d2 where m2: "journal_Move j io2 t2 ''outbox'' (dmID msg) ''sending'' (drOutcome ?r) (Some (Inr (enc (drReceipt ?r)))) dm = (y, d2)"
      by fastforce
    have "d' = d2" using assms False m None m2 by (simp add: send_def Let_def split: option.splits)
    have "sent_well idem retries answer down stopped 0 (fresh_record msg) ?r" by (rule send_loop_attempts) simp_all
    then have "program_move ''outbox'' ''sending'' (drOutcome ?r)"
      by (auto simp: program_move_def sent_well_def final_outcome_def split: option.splits)
    from journal_act.moved [OF m2 this] have "journal_act direct dm d'" using \<open>d' = d2\<close> by simp
    then show ?thesis using one by simp
  qed
qed

text \<open>When the outlet was called, the entry was pending before and is not after.\<close>

lemma send_entry:
  assumes "send (Some j) io1 io2 t1 t2 enc idem retries answer down stopped msg d = (rec, d1)" "dmID msg \<noteq> ''''" "drAttempts rec \<noteq> 0"
  shows "(\<exists>s en. decode journal_zero d = Inr s \<and> mget (jsEntries s) (entry_key ''outbox'' (dmID msg)) = Some en \<and> jeState en = ''pending'')
     \<and> (\<exists>s1 e1. decode journal_zero d1 = Inr s1 \<and> mget (jsEntries s1) (entry_key ''outbox'' (dmID msg)) = Some e1 \<and> jeState e1 \<noteq> ''pending'')"
proof -
  let ?ek = "entry_key ''outbox'' (dmID msg)"
  let ?r = "send_loop idem retries answer down stopped 0 (fresh_record msg)"
  let ?m = "journal_Move j io1 t1 ''outbox'' (dmID msg) ''pending'' ''sending'' None d"
  obtain x dm where m: "?m = (x, dm)" by (cases ?m)
  have x: "x = None" using assms by (auto simp: send_def m split: option.splits)
  obtain s en where s: "decode journal_zero d = Inr s" "mget (jsEntries s) ?ek = Some en" "jeState en = ''pending''"
      and sm: "\<exists>sm em. dm = Holds sm \<and> mget (jsEntries sm) ?ek = Some em \<and> jeState em = ''sending''"
    using m by (cases rule: journal_Move_cases) (auto simp: x)
  obtain y d2 where m2: "journal_Move j io2 t2 ''outbox'' (dmID msg) ''sending'' (drOutcome ?r) (Some (Inr (enc (drReceipt ?r)))) dm = (y, d2)"
    by fastforce
  have d1: "d1 = d2" using assms(1,2) by (simp add: send_def m x m2 Let_def split: option.splits)
  have "sent_well idem retries answer down stopped 0 (fresh_record msg) ?r" by (rule send_loop_attempts) simp_all
  then have out: "drOutcome ?r \<noteq> ''pending''" by (auto simp: sent_well_def final_outcome_def split: option.splits)
  have "\<exists>s1 e1. decode journal_zero d1 = Inr s1 \<and> mget (jsEntries s1) ?ek = Some e1 \<and> jeState e1 \<noteq> ''pending''"
    using m2 by (cases rule: journal_Move_cases) (use sm out in \<open>auto simp: d1\<close>)
  then show ?thesis using s by blast
qed

text \<open>A result becomes pending again only by a decision on record.\<close>

definition requeued :: "journal_entry \<Rightarrow> journal_entry \<Rightarrow> bool" where
  "requeued e e' \<longleftrightarrow> jeKind e' = ''outbox'' \<and>
     (\<exists>later. jeResolutions e' = jeResolutions e @ later \<and>
       (jeState e' = ''pending'' \<longrightarrow> (\<exists>dc \<in> set later. decided_by ''confirmed_not_sent'' dc)))"

lemma life_to_pending: "life ''outbox'' a ''pending'' \<Longrightarrow> a = ''unknown''"
  by (cases rule: life.cases) auto

lemma requeued_step:
  assumes "requeued e b" "evolves b c"
  shows "requeued e c"
proof -
  obtain later where l: "jeResolutions b = jeResolutions e @ later" "jeKind b = ''outbox''"
    "jeState b = ''pending'' \<longrightarrow> (\<exists>dc \<in> set later. decided_by ''confirmed_not_sent'' dc)"
    using assms(1) by (auto simp: requeued_def)
  have kind: "jeKind c = ''outbox''" using assms(2) l(2) by (simp add: evolves_def)
  show ?thesis
  proof (cases "jeState b \<in> {''unknown'', ''needs_reconcile''} \<and> jeState c \<noteq> jeState b")
    case True
    then obtain dc where dc: "jeResolutions c = jeResolutions b @ [dc]" "decided_by (decision_action (jeState c)) dc"
      using assms(2) unfolding evolves_def by (simp only: if_True simp_thms) blast
    have "decided_by ''confirmed_not_sent'' dc" if "jeState c = ''pending''" using dc(2) that by (simp add: decision_action_def)
    then show ?thesis using dc(1) l kind unfolding requeued_def by (intro conjI exI [of _ "later @ [dc]"]) auto
  next
    case False
    then have same: "jeResolutions c = jeResolutions b" and life: "jeState c = jeState b \<or> life ''outbox'' (jeState b) (jeState c)"
      using assms(2) l(2) unfolding evolves_def by (simp_all only: if_False)
    have "jeState b = ''pending''" if "jeState c = ''pending''"
      using life life_to_pending [of "jeState b"] that False by auto
    then show ?thesis using same l kind unfolding requeued_def by auto
  qed
qed

lemma journal_act_entry:
  assumes "journal_act direct d d'" "journal_ok direct d" "decode journal_zero d = Inr s" "mget (jsEntries s) ek = Some e"
  shows "\<exists>s' e'. decode journal_zero d' = Inr s' \<and> mget (jsEntries s') ek = Some e' \<and> evolves e e'"
proof -
  have ok: "journal_inv direct s" "states_ok s" "0 \<le> jsEpoch s" using assms(2,3) by (auto simp: journal_ok_def journal_inv_def)
  obtain s' where s': "decode journal_zero d' = Inr s'" "s' = s \<or> journal_step direct s s'"
    using journal_act_step [OF assms(1,3) ok(3)] by blast
  from s'(2) show ?thesis
  proof
    assume "s' = s"
    then show ?thesis using s'(1) assms(4) evolves_refl by blast
  next
    assume "journal_step direct s s'"
    from journal_step_evolve [OF this ok(1,2)] show ?thesis using s'(1) assms(4) unfolding all_evolve_def mall_def by blast
  qed
qed

lemma journal_run_requeued:
  assumes "(journal_act direct)\<^sup>*\<^sup>* d d'" "journal_ok direct d" "decode journal_zero d = Inr s"
    and "mget (jsEntries s) ek = Some e" "requeued e e"
  shows "\<exists>s' e'. decode journal_zero d' = Inr s' \<and> mget (jsEntries s') ek = Some e' \<and> requeued e e'"
  using assms
proof (induction rule: rtranclp_induct)
  case base
  then show ?case by blast
next
  case (step b c)
  then obtain sb eb where b: "decode journal_zero b = Inr sb" "mget (jsEntries sb) ek = Some eb" "requeued e eb" by blast
  have "journal_ok direct b" using journal_world.run_inv [OF step.hyps(1) step.prems(1)] .
  from journal_act_entry [OF step.hyps(2) this b(1,2)] show ?case using requeued_step [OF b(3)] by blast
qed

text \<open>C15. A message that was handed to its outlet is not handed out again by itself. On a journal that came about by any calls of the
  program: \<open>send\<close> calls the outlet only for a pending entry; and whatever calls follow, by any owners of the journal, restarts and other
  sends included, a later \<open>send\<close> of the same identifier calls the outlet only when an operator has meanwhile put the decision
  \<open>confirmed_not_sent\<close> on record for it, with name, reason and evidence.\<close>

theorem delivered_at_most_once:
  assumes "(journal_act direct)\<^sup>*\<^sup>* Absent d"
    and "send (Some j) io1 io2 t1 t2 enc idem retries answer down stopped msg d = (rec, d1)" and "dmID msg \<noteq> ''''" and "drAttempts rec \<noteq> 0"
    and "(journal_act direct)\<^sup>*\<^sup>* d1 d2"
    and "send (Some j') io3 io4 t3 t4 enc' idem' retries' answer' down' stopped' msg' d2 = (rec', d3)"
    and "dmID msg' = dmID msg" and "drAttempts rec' \<noteq> 0"
  shows "(\<exists>s e. decode journal_zero d = Inr s \<and> mget (jsEntries s) (entry_key ''outbox'' (dmID msg)) = Some e \<and> jeState e = ''pending'') \<and>
    (\<exists>s1 e1 s2 e2 later. decode journal_zero d1 = Inr s1 \<and> mget (jsEntries s1) (entry_key ''outbox'' (dmID msg)) = Some e1 \<and>
       decode journal_zero d2 = Inr s2 \<and> mget (jsEntries s2) (entry_key ''outbox'' (dmID msg)) = Some e2 \<and>
       jeResolutions e2 = jeResolutions e1 @ later \<and> (\<exists>dc \<in> set later. decided_by ''confirmed_not_sent'' dc))"
proof -
  let ?ek = "entry_key ''outbox'' (dmID msg)"
  obtain s1 e1 where e1: "decode journal_zero d1 = Inr s1" "mget (jsEntries s1) ?ek = Some e1" "jeState e1 \<noteq> ''pending''"
    using send_entry [OF assms(2-4)] by blast
  obtain s2 e2 where e2: "decode journal_zero d2 = Inr s2" "mget (jsEntries s2) ?ek = Some e2" "jeState e2 = ''pending''"
    using send_entry [OF assms(6)] assms(3,7,8) by auto
  have ok: "journal_ok direct d1"
    using journal_world.run_inv [OF rtranclp_trans [OF assms(1) send_acts [OF assms(2)]] journal_ok_absent] .
  have "jeKind e1 = ''outbox''" using ok e1(1,2) inv_filed_key [of direct s1 "''outbox''" "dmID msg" e1] by (auto simp: journal_ok_def)
  then have "requeued e1 e1" using e1(3) by (simp add: requeued_def)
  from journal_run_requeued [OF assms(5) ok e1(1,2) this] have "requeued e1 e2" using e2(1,2) by auto
  then show ?thesis using send_entry [OF assms(2-4)] e1(1,2) e2 unfolding requeued_def by blast
qed

definition outbox_with :: "string \<Rightarrow> string option \<Rightarrow> instant \<Rightarrow> resolution list \<Rightarrow> journal_state content" where
  "outbox_with st result at decisions = Holds \<lparr>jsEpoch = 1, jsEntries =
     [(''outbox:m'', \<lparr>jeID = ''m'', jeKind = ''outbox'', jeState = st, jePayload = ''p'', jeResult = result, jeEpoch = 1, jeUpdatedAt = at, jeResolutions = decisions\<rparr>)]\<rparr>"

abbreviation demo_owner :: journal where
  "demo_owner \<equiv> \<lparr>jnEpoch = 1, jnClosed = False\<rparr>"

definition demo_decision :: resolution where
  "demo_decision = \<lparr>rsActor = ''op'', rsReason = ''asked'', rsEvidence = ''log'', rsAction = ''confirmed_not_sent'', rsReceipt = '''', rsAt = 8\<rparr>"

definition lost_answer :: "nat \<Rightarrow> send_answer" where
  "lost_answer i = Inl ('''', Some (Uncertain (Msg ''eof'')))"

lemma demo_lost:
  "send_loop False 3 lost_answer (\<lambda>_. False) (\<lambda>_. False) 0 (fresh_record demo_message)
     = \<lparr>drMessage = demo_message, drReceipt = '''', drOutcome = ''unknown'', drAttempts = 1\<rparr>"
  by (simp add: send_loop.simps [of False 3 lost_answer] Let_def lost_answer_def attempt_error_def guardedSend_def as_uncertain_def
      errors_as_def is_Uncertain_def fresh_record_def)

lemma demo_posted: "(journal_act (\<lambda>k. True))\<^sup>*\<^sup>* Absent (outbox_with ''pending'' None 5 [])"
proof -
  have o1: "journal_Open None io_ok Absent = (Inr demo_owner, Holds \<lparr>jsEpoch = 1, jsEntries = []\<rparr>)"
    by (simp add: journal_Open_def journal_open_fn_def journal_zero_def next_epoch_def)
  have a1: "journal_act (\<lambda>k. True) Absent (Holds \<lparr>jsEpoch = 1, jsEntries = []\<rparr>)"
    by (rule journal_act.opened [OF o1]) (simp add: journal_zero_def)
  have "journal_Put demo_owner io_ok 5 ''outbox'' ''m'' (Inr ''p'') (Holds \<lparr>jsEpoch = 1, jsEntries = []\<rparr>)
      = ((True, None), outbox_with ''pending'' None 5 [])"
    by (simp add: journal_Put_def journal_mutate_def fenced_def put_fn_def entry_key_def mput_def outbox_with_def new_entry_def)
  from journal_act.put [OF this, of "\<lambda>k. True"] show ?thesis using a1 by simp
qed

lemma demo_first_send:
  "send (Some demo_owner) io_ok io_ok 6 7 id False 3 lost_answer (\<lambda>_. False) (\<lambda>_. False) demo_message (outbox_with ''pending'' None 5 [])
     = (\<lparr>drMessage = demo_message, drReceipt = '''', drOutcome = ''unknown'', drAttempts = 1\<rparr>, outbox_with ''unknown'' (Some '''') 7 [])"
  by (simp add: send_def demo_lost journal_Move_def journal_mutate_def fenced_def move_fn_def entry_key_def outbox_with_def Let_def mput_def)
    (simp add: demo_message_def)

lemma demo_resolved:
  "journal_Resolve demo_owner id io_ok 8 ''outbox'' ''m'' demo_decision None (outbox_with ''unknown'' (Some '''') 7 [])
     = (None, outbox_with ''pending'' (Some '''') 8 [demo_decision])"
  by (simp add: journal_Resolve_def journal_mutate_def fenced_def resolve_fn_def unresolved_def decide_entry_def entry_key_def outbox_with_def Let_def
      mput_def demo_decision_def TrimSpace_def is_space_def)

lemma demo_second_send:
  "send (Some demo_owner) io_ok io_ok 9 10 id False 3 demo_answers (\<lambda>_. False) (\<lambda>_. False) demo_message
       (outbox_with ''pending'' (Some '''') 8 [demo_decision])
     = (\<lparr>drMessage = demo_message, drReceipt = ''r1'', drOutcome = ''delivered'', drAttempts = 2\<rparr>,
        outbox_with ''delivered'' (Some ''r1'') 10 [demo_decision])"
  by (simp add: send_def demo_send journal_Move_def journal_mutate_def fenced_def move_fn_def entry_key_def outbox_with_def Let_def mput_def)
    (simp add: demo_message_def)

lemma delivered_at_most_once_witness:
  "\<exists>s1 e1 s2 e2 later. decode journal_zero (outbox_with ''unknown'' (Some '''') 7 []) = Inr s1 \<and> mget (jsEntries s1) ''outbox:m'' = Some e1 \<and>
     decode journal_zero (outbox_with ''pending'' (Some '''') 8 [demo_decision]) = Inr s2 \<and> mget (jsEntries s2) ''outbox:m'' = Some e2 \<and>
     jeResolutions e2 = jeResolutions e1 @ later \<and> Bex (set later) (decided_by ''confirmed_not_sent'')"
proof -
  have act: "(journal_act (\<lambda>k. True))\<^sup>*\<^sup>* (outbox_with ''unknown'' (Some '''') 7 []) (outbox_with ''pending'' (Some '''') 8 [demo_decision])"
    using journal_act.resolved [OF demo_resolved] by blast
  have "dmID demo_message = ''m''" by (simp add: demo_message_def)
  then show ?thesis
    using delivered_at_most_once [OF demo_posted demo_first_send _ _ act demo_second_send refl] by (simp add: entry_key_def)
qed

subsection \<open>The hub\<close>

text \<open>
  The critical sections of the hub, and the channel operations between them. An endpoint has the
  posts that wait for room, the channel of its queue and the message its worker is sending. \<open>hbSink\<close> is
  the list of records the sink was given, \<open>hbAccepted\<close> the messages \<open>Post\<close> returned success for.
\<close>

record endpoint =
  epPosting :: "message list"
  epQueue :: "message list"
  epSending :: "message option"

record hub =
  hbEndpoints :: "endpoint gomap"
  hbSealed :: bool
  hbPending :: int
  hbIdle :: bool
  hbStopped :: bool
  hbCapacity :: nat
  hbRetries :: int
  hbSink :: "delivery_record list"
  hbAccepted :: "message list"

definition hub_New :: "int \<Rightarrow> int \<Rightarrow> duration \<Rightarrow> duration \<Rightarrow> gerr + hub" where
  "hub_New capacity retries delay timeout =
     (if capacity < 1 \<or> retries < 0 \<or> delay < 0 \<or> timeout \<le> 0 then Inl (Panicked ''invalid delivery configuration'')
      else Inr \<lparr>hbEndpoints = [], hbSealed = False, hbPending = 0, hbIdle = True, hbStopped = False,
        hbCapacity = nat capacity, hbRetries = retries, hbSink = [], hbAccepted = []\<rparr>)"

definition no_endpoint :: endpoint where "no_endpoint = \<lparr>epPosting = [], epQueue = [], epSending = None\<rparr>"

definition hub_Register :: "string \<Rightarrow> bool \<Rightarrow> hub \<Rightarrow> gerr option \<times> hub" where
  "hub_Register name nil_outlet h =
     (if hbSealed h then (Some (Msg ''delivery closed''), h)
      else if name = '''' \<or> nil_outlet then (Some (Msg ''name and outlet required''), h)
      else if mget (hbEndpoints h) name \<noteq> None then (Some (Errorf ''duplicate outlet %q'' [name]), h)
      else (None, h\<lparr>hbEndpoints := mput name no_endpoint (hbEndpoints h)\<rparr>))"

definition put_endpoint :: "string \<Rightarrow> endpoint \<Rightarrow> hub \<Rightarrow> hub" where
  "put_endpoint ch e h = h\<lparr>hbEndpoints := mput ch e (hbEndpoints h)\<rparr>"

text \<open>The first half of \<open>Post\<close>; then it waits for room in the queue, the end of its own context or
  the end of the hub's.\<close>

definition Post_enter :: "go_context \<Rightarrow> message \<Rightarrow> hub \<Rightarrow> (gerr + message) \<times> hub" where
  "Post_enter ctx msg h =
     (if hbSealed h then (Inl (Msg ''delivery closed''), h)
      else (case mget (hbEndpoints h) (srcChannel (dmSource msg)) of
              None \<Rightarrow> (Inl (Errorf ''no outlet for %q'' [srcChannel (dmSource msg)]), h)
            | Some e \<Rightarrow>
                if srcChatID (dmSource msg) = '''' then (Inl (Msg ''reply target required''), h)
                else (let m = (if TraceID (dmIdentity msg) = '''' then msg\<lparr>dmIdentity := Current ctx\<rparr> else msg);
                          h1 = (if hbPending h = 0 then h\<lparr>hbIdle := False\<rparr> else h);
                          h2 = h1\<lparr>hbPending := hbPending h1 + 1\<rparr>
                      in (Inr m, put_endpoint (srcChannel (dmSource msg)) (e\<lparr>epPosting := m # epPosting e\<rparr>) h2))))"

definition hub_finish :: "hub \<Rightarrow> hub" where
  "hub_finish h = (let h1 = h\<lparr>hbPending := hbPending h - 1\<rparr>
     in if hbPending h1 = 0 then h1\<lparr>hbIdle := True\<rparr> else h1)"

definition to_sink :: "delivery_record \<Rightarrow> hub \<Rightarrow> hub" where
  "to_sink r h = h\<lparr>hbSink := hbSink h @ [r]\<rparr>"

inductive hub_step :: "hub \<Rightarrow> hub \<Rightarrow> bool" where
  registered: "hub_Register name nil_outlet h = (x, h') \<Longrightarrow> hub_step h h'"
| entered: "Post_enter ctx msg h = (x, h') \<Longrightarrow> hub_step h h'"
| queued: "mget (hbEndpoints h) ch = Some e \<Longrightarrow> m \<in> set (epPosting e) \<Longrightarrow> length (epQueue e) < hbCapacity h \<Longrightarrow>
    hub_step h (put_endpoint ch (e\<lparr>epPosting := remove1 m (epPosting e), epQueue := epQueue e @ [m]\<rparr>)
      (h\<lparr>hbAccepted := hbAccepted h @ [m]\<rparr>))"
| given_up: "mget (hbEndpoints h) ch = Some e \<Longrightarrow> m \<in> set (epPosting e) \<Longrightarrow>
    hub_step h (hub_finish (put_endpoint ch (e\<lparr>epPosting := remove1 m (epPosting e)\<rparr>) h))"
| taken: "mget (hbEndpoints h) ch = Some e \<Longrightarrow> epSending e = None \<Longrightarrow> epQueue e = m # rest \<Longrightarrow>
    hub_step h (put_endpoint ch (e\<lparr>epQueue := rest, epSending := Some m\<rparr>) h)"
| finished: "mget (hbEndpoints h) ch = Some e \<Longrightarrow> epSending e = Some m \<Longrightarrow>
    send jo io1 io2 t1 t2 enc idem (nat (hbRetries h)) answer down stopped m d = (rec, d') \<Longrightarrow>
    hub_step h (hub_finish (to_sink rec (put_endpoint ch (e\<lparr>epSending := None\<rparr>) h)))"
| closed: "hub_step h (h\<lparr>hbSealed := True\<rparr>)"
| halted: "hbSealed h \<Longrightarrow> hub_step h (h\<lparr>hbStopped := True\<rparr>)"
| drained: "mget (hbEndpoints h) ch = Some e \<Longrightarrow> hbStopped h \<Longrightarrow> epPosting e = [] \<Longrightarrow> epSending e = None \<Longrightarrow> epQueue e = m # rest \<Longrightarrow>
    hub_step h (hub_finish (to_sink ((fresh_record m)\<lparr>drOutcome := ''cancelled''\<rparr>) (put_endpoint ch (e\<lparr>epQueue := rest\<rparr>) h)))"

text \<open>What the hub still owns, and where the accepted messages are.\<close>

definition owned :: "endpoint \<Rightarrow> int" where
  "owned e = int (length (epPosting e) + length (epQueue e) + (case epSending e of None \<Rightarrow> 0 | Some _ \<Rightarrow> 1))"

definition in_flight :: "endpoint \<Rightarrow> message multiset" where
  "in_flight e = mset (epQueue e) + (case epSending e of None \<Rightarrow> {#} | Some m \<Rightarrow> {#m#})"

definition all_in_flight :: "endpoint gomap \<Rightarrow> message multiset" where
  "all_in_flight m = sum_list (map (in_flight \<circ> snd) m)"

definition hub_inv :: "hub \<Rightarrow> bool" where
  "hub_inv h \<longleftrightarrow> wf_map (hbEndpoints h)
     \<and> hbPending h = msum owned (hbEndpoints h) \<and> (hbIdle h \<longleftrightarrow> hbPending h = 0)
     \<and> mset (hbAccepted h) = all_in_flight (hbEndpoints h) + mset (map drMessage (hbSink h))
     \<and> (hbStopped h \<longrightarrow> hbSealed h)
     \<and> mall (\<lambda>ch e. length (epQueue e) \<le> hbCapacity h) (hbEndpoints h)"

lemma all_in_flight_mput:
  "wf_map m \<Longrightarrow> all_in_flight (mput k v m) + (case mget m k of None \<Rightarrow> {#} | Some w \<Rightarrow> in_flight w) = all_in_flight m + in_flight v"
proof (induction m)
  case Nil
  then show ?case by (simp add: all_in_flight_def mput_def)
next
  case (Cons p m)
  obtain k' w where p: "p = (k', w)" by (cases p)
  with Cons.prems have m: "wf_map m" "mget m k' = None" by (simp_all add: wf_map_Cons)
  show ?case
  proof (cases "k' = k")
    case True
    then show ?thesis by (simp add: p mput_def all_in_flight_def)
  next
    case False
    then have "mput k v (p # m) = (k', w) # mput k v m" by (simp add: p mput_def)
    then show ?thesis using Cons.IH [OF m(1)] False by (simp add: p all_in_flight_def ac_simps)
  qed
qed

lemma owned_pos: "0 \<le> owned e"
  by (simp add: owned_def split: option.split)

lemma send_message: "send jo io1 io2 t1 t2 enc idem retries answer down stopped msg d = (rec, d') \<Longrightarrow> drMessage rec = msg"
  by (auto simp: send_def Let_def split: option.splits prod.splits if_splits)

lemma hub_finish_fields [simp]:
  "hbEndpoints (hub_finish h) = hbEndpoints h" "hbSealed (hub_finish h) = hbSealed h" "hbStopped (hub_finish h) = hbStopped h"
  "hbCapacity (hub_finish h) = hbCapacity h" "hbSink (hub_finish h) = hbSink h" "hbAccepted (hub_finish h) = hbAccepted h"
  "hbPending (hub_finish h) = hbPending h - 1" "hbIdle (hub_finish h) \<longleftrightarrow> hbIdle h \<or> hbPending h = 1"
  by (auto simp: hub_finish_def Let_def)

lemma hub_fields [simp]:
  "hbEndpoints (put_endpoint ch e h) = mput ch e (hbEndpoints h)" "hbSealed (put_endpoint ch e h) = hbSealed h"
  "hbStopped (put_endpoint ch e h) = hbStopped h" "hbCapacity (put_endpoint ch e h) = hbCapacity h"
  "hbSink (put_endpoint ch e h) = hbSink h" "hbAccepted (put_endpoint ch e h) = hbAccepted h"
  "hbPending (put_endpoint ch e h) = hbPending h" "hbIdle (put_endpoint ch e h) = hbIdle h"
  "hbEndpoints (to_sink r h) = hbEndpoints h" "hbSealed (to_sink r h) = hbSealed h"
  "hbStopped (to_sink r h) = hbStopped h" "hbCapacity (to_sink r h) = hbCapacity h"
  "hbSink (to_sink r h) = hbSink h @ [r]" "hbAccepted (to_sink r h) = hbAccepted h"
  "hbPending (to_sink r h) = hbPending h" "hbIdle (to_sink r h) = hbIdle h"
  by (simp_all add: put_endpoint_def to_sink_def)

text \<open>One update of an endpoint: what has to be checked of the step.\<close>

lemma hub_inv_update:
  assumes inv: "hub_inv h" and e: "mget (hbEndpoints h) ch = Some e"
    and t: "hbEndpoints t = mput ch e' (hbEndpoints h)" "hbCapacity t = hbCapacity h" "hbSealed t = hbSealed h" "hbStopped t = hbStopped h"
    and pending: "hbPending t = hbPending h + owned e' - owned e"
    and idle: "hbIdle t \<longleftrightarrow> hbPending t = 0"
    and flow: "mset (hbAccepted t) + mset (map drMessage (hbSink h)) + in_flight e
        = mset (hbAccepted h) + mset (map drMessage (hbSink t)) + in_flight e'"
    and room: "length (epQueue e') \<le> hbCapacity h"
  shows "hub_inv t"
proof -
  have wf: "wf_map (hbEndpoints h)" using inv by (simp add: hub_inv_def)
  have "hbPending t = msum owned (hbEndpoints t)"
    using inv pending msum_mput [OF wf, of owned ch e'] e by (simp add: hub_inv_def t)
  moreover have "mset (hbAccepted t) = all_in_flight (hbEndpoints t) + mset (map drMessage (hbSink t))"
  proof -
    have a: "all_in_flight (hbEndpoints t) + in_flight e = all_in_flight (hbEndpoints h) + in_flight e'"
      using all_in_flight_mput [OF wf, of ch e'] e by (simp add: t)
    have b: "mset (hbAccepted h) = all_in_flight (hbEndpoints h) + mset (map drMessage (hbSink h))"
      using inv by (simp add: hub_inv_def)
    have "count (mset (hbAccepted t)) x = count (all_in_flight (hbEndpoints t) + mset (map drMessage (hbSink t))) x" for x
      using arg_cong [OF a, of "\<lambda>m. count m x"] arg_cong [OF b, of "\<lambda>m. count m x"] arg_cong [OF flow, of "\<lambda>m. count m x"]
      by (simp only: count_union)
    then show ?thesis by (rule multiset_eqI)
  qed
  moreover have "mall (\<lambda>ch e. length (epQueue e) \<le> hbCapacity t) (hbEndpoints t)"
    using inv room by (simp add: hub_inv_def t mall_def)
  ultimately show ?thesis using inv idle wf by (simp add: hub_inv_def t)
qed

lemma owned_le_pending:
  assumes "hub_inv h" and "mget (hbEndpoints h) ch = Some e"
  shows "owned e \<le> hbPending h"
proof -
  have wf: "wf_map (hbEndpoints h)" using assms(1) by (simp add: hub_inv_def)
  have "0 \<le> msum owned (mput ch no_endpoint (hbEndpoints h))" using owned_pos wf by (intro msum_nonneg) simp_all
  then show ?thesis using msum_mput [OF wf, of owned ch no_endpoint] assms
    by (simp add: hub_inv_def no_endpoint_def owned_def)
qed

lemma hub_room: "hub_inv h \<Longrightarrow> mget (hbEndpoints h) ch = Some e \<Longrightarrow> length (epQueue e) \<le> hbCapacity h"
  by (auto simp: hub_inv_def dest: mallD)

lemma hub_step_inv:
  assumes "hub_step h t" and "hub_inv h"
  shows "hub_inv t"
  using assms
proof (induction rule: hub_step.induct)
  case (registered name nil_outlet h x h')
  show ?case
  proof (cases "hbEndpoints h' = hbEndpoints h")
    case True
    then have "h' = h" using registered by (auto simp: hub_Register_def split: if_splits)
    then show ?thesis using registered by simp
  next
    case False
    then have h': "h' = h\<lparr>hbEndpoints := mput name no_endpoint (hbEndpoints h)\<rparr>" "mget (hbEndpoints h) name = None"
      using registered by (auto simp: hub_Register_def split: if_splits)
    have wf: "wf_map (hbEndpoints h)" using registered by (simp add: hub_inv_def)
    show ?thesis
      using registered.prems all_in_flight_mput [OF wf, of name no_endpoint] msum_mput [OF wf, of owned name no_endpoint] h'
      by (auto simp: hub_inv_def no_endpoint_def owned_def in_flight_def mall_def)
  qed
next
  case (entered ctx msg h x h')
  show ?case
  proof (cases x)
    case (Inl e)
    then have "h' = h" using entered by (auto simp: Post_enter_def Let_def split: option.splits if_splits)
    then show ?thesis using entered by simp
  next
    case (Inr m)
    let ?ch = "srcChannel (dmSource msg)"
    obtain e where e: "mget (hbEndpoints h) ?ch = Some e"
      using entered Inr by (auto simp: Post_enter_def split: option.splits if_splits)
    have h': "h' = put_endpoint ?ch (e\<lparr>epPosting := m # epPosting e\<rparr>)
        ((if hbPending h = 0 then h\<lparr>hbIdle := False\<rparr> else h)\<lparr>hbPending := hbPending h + 1\<rparr>)"
      using entered Inr e by (auto simp: Post_enter_def Let_def split: if_splits)
    have "0 \<le> hbPending h" using owned_le_pending [OF entered.prems e] owned_pos [of e] by simp
    then show ?thesis
      by (intro hub_inv_update [OF entered.prems e, of _ "e\<lparr>epPosting := m # epPosting e\<rparr>"])
        (use entered.prems e in \<open>auto simp: h' owned_def in_flight_def hub_inv_def mall_def split: option.splits\<close>)
  qed
next
  case (queued h ch e m)
  have "length (remove1 m (epPosting e)) + 1 = length (epPosting e)"
    using queued(2) length_pos_if_in_set [OF queued(2)] by (simp add: length_remove1)
  then show ?case
    by (intro hub_inv_update [OF queued.prems queued(1), of _ "e\<lparr>epPosting := remove1 m (epPosting e), epQueue := epQueue e @ [m]\<rparr>"])
      (use queued in \<open>auto simp: owned_def in_flight_def hub_inv_def split: option.splits\<close>)
next
  case (given_up h ch e m)
  have len: "length (remove1 m (epPosting e)) + 1 = length (epPosting e)"
    using given_up(2) length_pos_if_in_set [OF given_up(2)] by (simp add: length_remove1)
  then have "1 \<le> hbPending h" using owned_le_pending [OF given_up.prems given_up(1)] by (simp add: owned_def split: option.splits)
  then show ?case
    by (intro hub_inv_update [OF given_up.prems given_up(1), of _ "e\<lparr>epPosting := remove1 m (epPosting e)\<rparr>"])
      (use given_up len in \<open>auto simp: owned_def in_flight_def hub_inv_def mall_def split: option.splits\<close>)
next
  case (taken h ch e m rest)
  then show ?case
    by (intro hub_inv_update [OF taken.prems taken(1), of _ "e\<lparr>epQueue := rest, epSending := Some m\<rparr>"])
      (use taken hub_room [OF taken.prems taken(1)] in \<open>auto simp: owned_def in_flight_def hub_inv_def mall_def\<close>)
next
  case (finished h ch e m jo io1 io2 t1 t2 enc idem answer down stopped d rec d')
  have "1 \<le> hbPending h" using owned_le_pending [OF finished.prems finished(1)] finished(2) by (simp add: owned_def)
  then show ?case
    by (intro hub_inv_update [OF finished.prems finished(1), of _ "e\<lparr>epSending := None\<rparr>"])
      (use finished send_message [OF finished(3)] in \<open>auto simp: owned_def in_flight_def hub_inv_def mall_def\<close>)
next
  case (closed h)
  then show ?case by (simp add: hub_inv_def)
next
  case (halted h)
  then show ?case by (simp add: hub_inv_def)
next
  case (drained h ch e m rest)
  have "1 \<le> hbPending h" using owned_le_pending [OF drained.prems drained(1)] drained(5) by (simp add: owned_def split: option.splits)
  then show ?case
    by (intro hub_inv_update [OF drained.prems drained(1), of _ "e\<lparr>epQueue := rest\<rparr>"])
      (use drained hub_room [OF drained.prems drained(1)] in \<open>auto simp: owned_def in_flight_def hub_inv_def mall_def split: option.splits\<close>)
qed

interpretation hub_runs: stepper hub_step hub_inv
  by unfold_locales (rule hub_step_inv)

lemma hub_New_inv: "hub_New c r dl t = Inr h \<Longrightarrow> hub_inv h"
  by (auto simp: hub_New_def hub_inv_def all_in_flight_def split: if_splits)

definition demo_hub :: hub where
  "demo_hub = \<lparr>hbEndpoints = [], hbSealed = False, hbPending = 0, hbIdle = True, hbStopped = False,
     hbCapacity = 2, hbRetries = 3, hbSink = [], hbAccepted = []\<rparr>"

lemma demo_hub_new: "hub_New 2 3 0 1 = Inr demo_hub"
  by (simp add: hub_New_def demo_hub_def)

lemma demo_hub_run: "hub_step\<^sup>*\<^sup>* demo_hub (demo_hub\<lparr>hbEndpoints := [(''t'', no_endpoint)]\<rparr>)"
  by (rule r_into_rtranclp, rule hub_step.registered [of "''t''" False demo_hub None]) (simp add: hub_Register_def demo_hub_def mput_def)

definition outbox_journal :: "journal_state content" where
  "outbox_journal = Holds \<lparr>jsEpoch = 1, jsEntries = [(''outbox:m'', new_entry ''outbox'' ''m'' ''p'' 1 5)]\<rparr>"

text \<open>C16. Every accepted message ends in exactly one record: in every reachable state the messages for which
  \<open>Post\<close> returned success are, with their multiplicities, those in a queue, those being sent
  and those whose record the sink was given; the idle channel is closed exactly when no post,
  queued message or send is outstanding; no queue exceeds its capacity.\<close>

theorem every_message_recorded_once:
  assumes "hub_New c r dl t = Inr h0" and "hub_step\<^sup>*\<^sup>* h0 h"
  shows "mset (hbAccepted h) = all_in_flight (hbEndpoints h) + mset (map drMessage (hbSink h))
     \<and> (hbIdle h \<longleftrightarrow> (\<forall>ch e. mget (hbEndpoints h) ch = Some e \<longrightarrow> e = no_endpoint))
     \<and> (\<forall>ch e. mget (hbEndpoints h) ch = Some e \<longrightarrow> length (epQueue e) \<le> hbCapacity h)"
proof -
  have inv: "hub_inv h" using hub_runs.run_inv [OF assms(2) hub_New_inv [OF assms(1)]] .
  have none: "owned e = 0 \<longleftrightarrow> e = no_endpoint" for e
    by (cases e) (auto simp: owned_def no_endpoint_def simp del: of_nat_add split: option.splits)
  have "hbPending h = 0 \<longleftrightarrow> (\<forall>ch e. mget (hbEndpoints h) ch = Some e \<longrightarrow> owned e = 0)"
  proof
    assume "hbPending h = 0"
    then show "\<forall>ch e. mget (hbEndpoints h) ch = Some e \<longrightarrow> owned e = 0"
      using owned_le_pending [OF inv] owned_pos by (metis order.antisym)
  next
    assume z: "\<forall>ch e. mget (hbEndpoints h) ch = Some e \<longrightarrow> owned e = 0"
    have "msum owned (hbEndpoints h) = msum (\<lambda>e. 0) (hbEndpoints h)"
      using z inv by (intro msum_cong) (auto simp: hub_inv_def in_set_mget_iff)
    moreover have "msum (\<lambda>e. 0) m = 0" for m :: "endpoint gomap" by (induction m) auto
    ultimately show "hbPending h = 0" using inv by (simp add: hub_inv_def)
  qed
  then show ?thesis using inv by (auto simp: hub_inv_def none mall_def)
qed

lemma every_message_recorded_once_witness:
  "hbIdle (demo_hub\<lparr>hbEndpoints := [(''t'', no_endpoint)]\<rparr>)"
  using every_message_recorded_once [OF demo_hub_new demo_hub_run] by (auto split: if_splits)

subsection \<open>Durable posting\<close>

text \<open>\<open>PostDurable\<close> up to its final \<open>Post\<close>: \<open>Inr None\<close> when the ledger already owns the message, \<open>Inr (Some m)\<close>
  when \<open>m\<close> is to be posted. \<open>enc\<close> and \<open>dec\<close> are the JSON encoding of a message and its decoding.\<close>

definition PostDurable ::
  "journal option \<Rightarrow> io \<Rightarrow> io \<Rightarrow> instant \<Rightarrow> (message \<Rightarrow> gerr + string) \<Rightarrow> (string \<Rightarrow> gerr + message) \<Rightarrow> go_context \<Rightarrow> message
     \<Rightarrow> journal_state content \<Rightarrow> (gerr + message option) \<times> journal_state content"
where
  "PostDurable jo io1 io2 now enc dec ctx msg0 d =
     (case jo of
        None \<Rightarrow> (Inl (Msg ''durable delivery requires a journal, stable ID and reply target''), d)
      | Some j \<Rightarrow>
        if dmID msg0 = '''' \<or> srcChannel (dmSource msg0) = '''' \<or> srcChatID (dmSource msg0) = ''''
        then (Inl (Msg ''durable delivery requires a journal, stable ID and reply target''), d)
        else
          (let msg = (if TraceID (dmIdentity msg0) = '''' then msg0\<lparr>dmIdentity := Current ctx\<rparr> else msg0) in
           (case journal_Put j io1 now ''outbox'' (dmID msg) (enc msg) d of
              ((created, Some e), d1) \<Rightarrow> (Inl e, d1)
            | ((True, None), d1) \<Rightarrow> (Inr (Some msg), d1)
            | ((False, None), d1) \<Rightarrow>
               (case journal_Get io2 ''outbox'' (dmID msg) d1 of
                  Inl e \<Rightarrow> (Inl e, d1)
                | Inr None \<Rightarrow> (Inl (Msg ''durable delivery record disappeared''), d1)
                | Inr (Some en) \<Rightarrow>
                   (case dec (jePayload en) of
                      Inl e \<Rightarrow> (Inl e, d1)
                    | Inr saved \<Rightarrow>
                        if dmID saved \<noteq> dmID msg \<or> dmSource saved \<noteq> dmSource msg \<or> dmText saved \<noteq> dmText msg
                        then (Inl (Msg ''delivery ID already belongs to a different result or destination''), d1)
                        else if jeState en \<noteq> ''pending'' then (Inr None, d1)
                        else (Inr (Some saved), d1))))))"

lemma journal_Put_cases:
  assumes "journal_Put j e now kind k payload d = ((created, None), d')"
  obtains (exists) s en where "\<not> created" "decode journal_zero d' = Inr s" "mget (jsEntries s) (entry_key kind k) = Some en"
  | (new) s b where "created" "payload = Inr b" "decode journal_zero d' = Inr s"
      "mget (jsEntries s) (entry_key kind k) = Some (new_entry kind k b (jnEpoch j) now)"
proof -
  obtain b where b: "payload = Inr b" "journal_mutate j e False (put_fn j kind k b now) d = ((created, None), d')"
    using assms by (auto simp: journal_Put_def split: if_splits sum.splits)
  then have "file_update journal_zero e False (fenced j False (put_fn j kind k b now)) d = ((created, None), d')"
    by (simp add: journal_mutate_def split: if_splits)
  then obtain v v' where v: "fenced j False (put_fn j kind k b now) v = (created, Inr v')" "d' = Holds v'"
    by (rule file_update_done)
  show thesis
  proof (cases "mget (jsEntries v) (entry_key kind k)")
    case None
    then show ?thesis using v b(1) new by (auto simp: fenced_def put_fn_def split: if_splits)
  next
    case (Some en)
    then show ?thesis using v exists by (auto simp: fenced_def put_fn_def split: if_splits)
  qed
qed

lemma journal_Get_done: "journal_Get io kind k d = Inr r \<Longrightarrow> \<exists>s. decode journal_zero d = Inr s \<and> mget (jsEntries s) (entry_key kind k) = r"
  by (auto simp: journal_Get_def split: prod.splits option.splits dest: file_read_done)

text \<open>A durable post hands out exactly what the journal holds: if \<open>PostDurable\<close> goes on to post a
  message, the outbox has a pending entry of its identifier whose payload decodes to that very
  message, and it has the identifier, the destination and the text the caller gave, so a stable
  identifier is never reused for another result (for an encoding that decodes back).\<close>

theorem durable_post_is_the_record:
  assumes "PostDurable jo io1 io2 now enc dec ctx msg0 d = (Inr (Some m), d')"
    and roundtrip: "\<forall>x b. enc x = Inr b \<longrightarrow> dec b = Inr x"
  shows "dmID m = dmID msg0 \<and> dmSource m = dmSource msg0 \<and> dmText m = dmText msg0
     \<and> (\<exists>s en. decode journal_zero d' = Inr s \<and> mget (jsEntries s) (entry_key ''outbox'' (dmID msg0)) = Some en
          \<and> jeState en = ''pending'' \<and> dec (jePayload en) = Inr m)"
proof -
  obtain j where j: "jo = Some j" using assms(1) by (auto simp: PostDurable_def split: option.splits)
  define msg where "msg = (if TraceID (dmIdentity msg0) = '''' then msg0\<lparr>dmIdentity := Current ctx\<rparr> else msg0)"
  have same: "dmID msg = dmID msg0" "dmSource msg = dmSource msg0" "dmText msg = dmText msg0" by (simp_all add: msg_def)
  obtain c x d1 where put: "journal_Put j io1 now ''outbox'' (dmID msg) (enc msg) d = ((c, x), d1)"
    by (metis prod.collapse)
  note post = assms(1) [unfolded PostDurable_def j option.case Let_def msg_def [symmetric] put]
  have x: "x = None" using post by (cases x) (auto split: if_splits bool.splits)
  show ?thesis
  proof (cases c)
    case True
    then have m: "m = msg" "d' = d1" using post x by (auto split: if_splits)
    show ?thesis
      using put unfolding x
      by (cases rule: journal_Put_cases) (use True roundtrip same m in auto)
  next
    case False
    then obtain en where en: "journal_Get io2 ''outbox'' (dmID msg) d1 = Inr (Some en)" "dec (jePayload en) = Inr m"
        "jeState en = ''pending''" "dmID m = dmID msg" "dmSource m = dmSource msg" "dmText m = dmText msg" "d' = d1"
      using post x by (auto split: if_splits sum.splits option.splits)
    from journal_Get_done [OF en(1)] en same show ?thesis by auto
  qed
qed

lemma durable_post_is_the_record_witness:
  "\<exists>s en. decode journal_zero outbox_journal = Inr s \<and> mget (jsEntries s) (entry_key ''outbox'' ''m'') = Some en \<and> jeState en = ''pending''"
proof -
  let ?ctx = "background\<lparr>cx_identity := Some no_identity\<rparr>"
  let ?msg = "demo_message\<lparr>dmSource := \<lparr>srcChannel = ''t'', srcChatID = ''u'', srcSenderID = ''''\<rparr>, dmIdentity := \<lparr>TraceID = ''1'', SpanID = ''''\<rparr>\<rparr>"
  have "PostDurable (Some \<lparr>jnEpoch = 1, jnClosed = False\<rparr>) io_ok io_ok 6 (\<lambda>m. if m = ?msg then Inr ''p'' else Inl EOF)
      (\<lambda>b. Inr ?msg) ?ctx ?msg outbox_journal = (Inr (Some ?msg), outbox_journal)"
    by (simp add: PostDurable_def demo_message_def journal_Put_def journal_mutate_def fenced_def put_fn_def entry_key_def
        outbox_journal_def journal_Get_def new_entry_def)
  from durable_post_is_the_record [OF this] show ?thesis by (simp add: demo_message_def)
qed

end
