(* ===== verification/Gateway.thy ===== *)
theory Gateway
  imports Delivery
begin

section \<open>The gateway\<close>

text \<open>
  \<open>internal/gateway/gateway.go\<close> and \<open>reconcile.go\<close>: authenticated platform events enter the inbox of
  the journal, are submitted to the scheduler, and their results go to the outbox and the hub.
  \<open>publish\<close> runs under the mutex of the gateway; it threads the gateway, the journal and the scheduler.
  I/O outcomes, clocks, fresh trace identifiers, JSON and the allow list are arguments.
\<close>

record event =
  evID :: string
  evRequest :: request
  evIdentity :: identity

record gateway =
  gwSeen :: "string list"
  gwClosed :: bool
  gwSlots :: nat

definition gateway_New :: gateway where
  "gateway_New = \<lparr>gwSeen = [], gwClosed = False, gwSlots = 0\<rparr>"

definition slot_capacity :: nat where "slot_capacity = 128"

definition seen_capacity :: nat where "seen_capacity = 100000"

definition event_key :: "event \<Rightarrow> string" where
  "event_key ev = srcChannel (rqSource (evRequest ev)) @ '':'' @ evID ev"

definition free_slot :: "gateway \<Rightarrow> gateway" where
  "free_slot g = g\<lparr>gwSlots := gwSlots g - 1\<rparr>"

text \<open>What the environment of one \<open>publish\<close> decides. \<open>pe_waited\<close> is the outcome of the blocking send on
  the slots, taken without the mutex: the error of the caller's context, or the gateway as it is
  when the mutex is held again (the slot taken). \<open>pe_fresh\<close> are the identifiers of a new trace.\<close>

record publish_env =
  pe_ctx :: go_context
  pe_ctx_err :: "gerr option"
  pe_waited :: "gerr + gateway"
  pe_fresh :: "string \<times> string"
  pe_io :: "nat \<Rightarrow> io"
  pe_now :: "nat \<Rightarrow> instant"
  pe_enc :: "event \<Rightarrow> gerr + string"
  pe_dec :: "string \<Rightarrow> gerr + event"

text \<open>The checks before the mutex, and the acquisition of a slot: \<open>Inl r\<close> is an early return.\<close>

definition publish_check :: "(source \<Rightarrow> bool) option \<Rightarrow> event \<Rightarrow> gerr option" where
  "publish_check allowed ev =
     (case allowed of
        None \<Rightarrow> Some (Msg ''sender not allowed'')
      | Some f \<Rightarrow>
        if \<not> f (rqSource (evRequest ev)) then Some (Msg ''sender not allowed'')
        else if evID ev = '''' then Some (Msg ''platform event id required'')
        else if srcChannel (rqSource (evRequest ev)) = '''' \<or> srcChatID (rqSource (evRequest ev)) = ''''
             \<or> TrimSpace (rqText (evRequest ev)) = ''''
        then Some (Msg ''channel, reply target and non-empty text required'')
        else None)"

definition take_slot :: "publish_env \<Rightarrow> string \<Rightarrow> bool \<Rightarrow> gateway \<Rightarrow> gerr option \<times> gateway \<times> bool" where
  "take_slot env key wait g =
     (if gwClosed g then (Some (Msg ''gateway closed''), g, False)
      else if key \<in> set (gwSeen g) then (None, g, False)
      else if length (gwSeen g) \<ge> seen_capacity then (Some (Msg ''dedup capacity exhausted''), g, False)
      else if gwSlots g < slot_capacity then (None, g\<lparr>gwSlots := gwSlots g + 1\<rparr>, True)
      else if \<not> wait then (Some (Msg ''gateway overloaded''), g, False)
      else (case pe_waited env of
              Inl e \<Rightarrow> (Some e, g, False)
            | Inr g1 \<Rightarrow>
                if gwClosed g1 then (Some (Msg ''gateway closed''), free_slot g1, False)
                else if key \<in> set (gwSeen g1) then (None, free_slot g1, False)
                else (None, g1, True)))"

text \<open>The inbox entry: \<open>Inl\<close> when there is nothing (more) to do, otherwise the event to run, which is
  the persisted one when the key was filed before and is still pending.\<close>

definition find_entry :: "string \<Rightarrow> journal_entry list \<Rightarrow> journal_entry option" where
  "find_entry key es = find (\<lambda>en. jeID en = key) es"

definition inbox_claim ::
  "publish_env \<Rightarrow> (source \<Rightarrow> bool) \<Rightarrow> journal \<Rightarrow> string \<Rightarrow> event \<Rightarrow> journal_state content
     \<Rightarrow> (gerr option + event) \<times> journal_state content"
where
  "inbox_claim env allowed j key ev d =
     (case journal_Put j (pe_io env 0) (pe_now env 0) ''inbox'' key (pe_enc env ev) d of
        ((created, Some e), d1) \<Rightarrow> (Inl (Some e), d1)
      | ((True, None), d1) \<Rightarrow> (Inr ev, d1)
      | ((False, None), d1) \<Rightarrow>
         (case journal_List (pe_io env 1) ''inbox'' ''pending'' d1 of
            Inl e \<Rightarrow> (Inl (Some e), d1)
          | Inr es \<Rightarrow>
             (case find_entry key es of
                None \<Rightarrow> (Inl None, d1)
              | Some en \<Rightarrow>
                 (case pe_dec env (jePayload en) of
                    Inl e \<Rightarrow> (Inl (Some e), d1)
                  | Inr ev1 \<Rightarrow>
                      if allowed (rqSource (evRequest ev1)) then (Inr ev1, d1)
                      else (Inl (Some (Msg ''persisted sender is no longer allowed'')), d1)))))"

definition fresh_identity :: "publish_env \<Rightarrow> string \<Rightarrow> identity" where
  "fresh_identity env name =
     Current (fst (Start (pe_ctx env) name True (fst (pe_fresh env)) (snd (pe_fresh env)) (pe_now env 4)))"

text \<open>The rest of \<open>publish\<close>: the entry is moved to running, the request is submitted, and when it is
  refused the entry goes back to pending. A \<open>started\<close> result is the job, its event and its trace.\<close>

definition run_event ::
  "publish_env \<Rightarrow> journal option \<Rightarrow> string \<Rightarrow> event \<Rightarrow> gateway \<Rightarrow> journal_state content \<Rightarrow> scheduler
     \<Rightarrow> (gerr option \<times> (job \<times> event \<times> identity) option) \<times> gateway \<times> journal_state content \<times> scheduler"
where
  "run_event env jo key ev g d s =
     (let i0 = (if TraceID (evIdentity ev) = '''' then fresh_identity env ''gateway.replay'' else evIdentity ev);
          i = i0\<lparr>SpanID := ''''\<rparr>;
          moved = (case jo of None \<Rightarrow> (None, d)
             | Some j \<Rightarrow> journal_Move j (pe_io env 2) (pe_now env 2) ''inbox'' key ''pending'' ''running'' None d)
      in (case moved of
            (Some e, d1) \<Rightarrow> ((Some e, None), free_slot g, d1, s)
          | (None, d1) \<Rightarrow>
             (case Submit (Attach (pe_ctx env) i) (pe_ctx_err env) (evRequest ev) s of
                (Inl e, s1) \<Rightarrow>
                  ((Some e, None), free_slot g,
                   (case jo of None \<Rightarrow> d1
                    | Some j \<Rightarrow> snd (journal_Move j (pe_io env 3) (pe_now env 3) ''inbox'' key ''running'' ''pending'' None d1)), s1)
              | (Inr job, s1) \<Rightarrow> ((None, Some (job, ev, i)), g\<lparr>gwSeen := key # gwSeen g\<rparr>, d1, s1))))"

definition publish ::
  "publish_env \<Rightarrow> (source \<Rightarrow> bool) option \<Rightarrow> journal option \<Rightarrow> event \<Rightarrow> bool \<Rightarrow> gateway \<Rightarrow> journal_state content \<Rightarrow> scheduler
     \<Rightarrow> (gerr option \<times> (job \<times> event \<times> identity) option) \<times> gateway \<times> journal_state content \<times> scheduler"
where
  "publish env allowed jo ev0 wait g d s =
     (case publish_check allowed ev0 of
        Some e \<Rightarrow> ((Some e, None), g, d, s)
      | None \<Rightarrow>
        (let key = event_key ev0 in
         (case take_slot env key wait g of
            (r, g1, False) \<Rightarrow> ((r, None), g1, d, s)
          | (r, g1, True) \<Rightarrow>
             (let ev = (if TraceID (evIdentity ev0) = '''' then ev0\<lparr>evIdentity := fresh_identity env ''gateway.request''\<rparr> else ev0) in
              (case jo of
                 None \<Rightarrow> run_event env jo key ev g1 d s
               | Some j \<Rightarrow>
                  (case inbox_claim env (the allowed) j key ev d of
                     (Inl r, d1) \<Rightarrow> ((r, None), free_slot g1, d1, s)
                   | (Inr ev1, d1) \<Rightarrow> run_event env jo key ev1 g1 d1 s))))))"

subsection \<open>When the turn is over\<close>

text \<open>The goroutine of a started event, after \<open>handle.Wait\<close>: the journal, the message for the hub, and the
  errors given to \<open>onError\<close>. Its slot is freed in every case.\<close>

definition settle ::
  "journal option \<Rightarrow> io \<Rightarrow> instant \<Rightarrow> (gerr \<Rightarrow> string) \<Rightarrow> (message \<Rightarrow> gerr + string) \<Rightarrow> string \<Rightarrow> event \<Rightarrow> identity \<Rightarrow> result
     \<Rightarrow> gateway \<Rightarrow> journal_state content \<Rightarrow> (message option \<times> gerr list) \<times> gateway \<times> journal_state content"
where
  "settle jo io now encerr encmsg key ev i r g d =
     (case rsErr r of
        Some e \<Rightarrow>
          ((None, [e]), free_slot g,
           (case jo of None \<Rightarrow> d
            | Some j \<Rightarrow> snd (journal_Move j io now ''inbox'' key ''running'' ''needs_reconcile'' (Some (Inr (encerr e))) d)))
      | None \<Rightarrow>
        if rsMerged r then
          ((None, []), free_slot g,
           (case jo of None \<Rightarrow> d | Some j \<Rightarrow> snd (journal_Move j io now ''inbox'' key ''running'' ''merged'' None d)))
        else
          (let m = \<lparr>dmID = key, dmSource = rqSource (evRequest ev), dmText = rsText r, dmIdentity = i\<rparr> in
           (case jo of
              None \<Rightarrow> ((Some m, []), free_slot g, d)
            | Some j \<Rightarrow>
               (case journal_Complete j io now key (encmsg m) d of
                  (Some e, d1) \<Rightarrow> ((None, [e]), free_slot g, d1)
                | (None, d1) \<Rightarrow> ((Some m, []), free_slot g, d1)))))"

subsection \<open>Replay and reconciliation\<close>

text \<open>\<open>Replay\<close> at start: pending results are posted, pending requests published, in the order of the
  journal's list, until the first error. Posting and publishing are the hub's and the gateway's.\<close>

fun replay_outbox ::
  "(string \<Rightarrow> gerr + message) \<Rightarrow> (message \<Rightarrow> 'h \<Rightarrow> gerr option \<times> 'h) \<Rightarrow> journal_entry list \<Rightarrow> 'h \<Rightarrow> gerr option \<times> 'h" where
  "replay_outbox dec post [] h = (None, h)"
| "replay_outbox dec post (en # es) h =
     (case dec (jePayload en) of
        Inl e \<Rightarrow> (Some e, h)
      | Inr m \<Rightarrow>
        if dmID m \<noteq> jeID en then (Some (Msg ''outbound journal identity mismatch''), h)
        else (case post m h of (Some e, h1) \<Rightarrow> (Some e, h1) | (None, h1) \<Rightarrow> replay_outbox dec post es h1))"

fun replay_inbox ::
  "(string \<Rightarrow> gerr + event) \<Rightarrow> (event \<Rightarrow> 'h \<Rightarrow> gerr option \<times> 'h) \<Rightarrow> journal_entry list \<Rightarrow> 'h \<Rightarrow> gerr option \<times> 'h" where
  "replay_inbox dec pub [] h = (None, h)"
| "replay_inbox dec pub (en # es) h =
     (case dec (jePayload en) of
        Inl e \<Rightarrow> (Some e, h)
      | Inr ev \<Rightarrow>
        if event_key ev \<noteq> jeID en then (Some (Msg ''inbound journal identity mismatch''), h)
        else (case pub ev h of (Some e, h1) \<Rightarrow> (Some e, h1) | (None, h1) \<Rightarrow> replay_inbox dec pub es h1))"

definition Replay ::
  "bool \<Rightarrow> io \<Rightarrow> io \<Rightarrow> (string \<Rightarrow> gerr + message) \<Rightarrow> (string \<Rightarrow> gerr + event) \<Rightarrow> (message \<Rightarrow> 'h \<Rightarrow> gerr option \<times> 'h)
     \<Rightarrow> (event \<Rightarrow> 'h \<Rightarrow> gerr option \<times> 'h) \<Rightarrow> ('h \<Rightarrow> journal_state content) \<Rightarrow> 'h \<Rightarrow> gerr option \<times> 'h"
where
  "Replay has_journal io1 io2 decm dece post pub file_of h =
     (if \<not> has_journal then (None, h)
      else (case journal_List io1 ''outbox'' ''pending'' (file_of h) of
              Inl e \<Rightarrow> (Some e, h)
            | Inr out \<Rightarrow>
               (case replay_outbox decm post out h of
                  (Some e, h1) \<Rightarrow> (Some e, h1)
                | (None, h1) \<Rightarrow>
                   (case journal_List io2 ''inbox'' ''pending'' (file_of h1) of
                      Inl e \<Rightarrow> (Some e, h1)
                    | Inr inb \<Rightarrow> replay_inbox dece pub inb h1))))"

definition Reconcile ::
  "journal option \<Rightarrow> (string \<Rightarrow> string) \<Rightarrow> io \<Rightarrow> io \<Rightarrow> instant \<Rightarrow> (string \<Rightarrow> gerr + event) \<Rightarrow> (message \<Rightarrow> gerr + string)
     \<Rightarrow> string \<Rightarrow> string \<Rightarrow> resolution \<Rightarrow> string \<Rightarrow> journal_state content \<Rightarrow> gerr option \<times> journal_state content"
where
  "Reconcile jo enc io1 io2 now dece encmsg kind k decision recoveredText d =
     (case jo of
        None \<Rightarrow> (Some (Msg ''durable journal required''), d)
      | Some j \<Rightarrow>
        if rsAction decision \<noteq> ''recover_result'' then journal_Resolve j enc io2 now kind k decision None d
        else if kind \<noteq> ''inbox'' \<or> TrimSpace recoveredText = ''''
        then (Some (Msg ''recover_result requires an inbound record and verified result text''), d)
        else (case journal_List io1 ''inbox'' ''needs_reconcile'' d of
                Inl e \<Rightarrow> (Some e, d)
              | Inr es \<Rightarrow>
                 (case find_entry k es of
                    None \<Rightarrow> (Some (Msg ''unresolved inbound record not found''), d)
                  | Some en \<Rightarrow>
                     (case dece (jePayload en) of
                        Inl e \<Rightarrow> (Some e, d)
                      | Inr ev \<Rightarrow>
                         journal_Resolve j enc io2 now kind k decision
                           (Some (encmsg \<lparr>dmID = k, dmSource = rqSource (evRequest ev), dmText = recoveredText, dmIdentity = evIdentity ev\<rparr>)) d))))"

subsection \<open>One turn per event\<close>

lemma Put_keeps_entry:
  assumes "journal_Put j e now kind k payload d = (r, d')" and "decode journal_zero d = Inr s"
    and "mget (jsEntries s) (entry_key kind k) = Some en"
  shows "decode journal_zero d' = Inr s"
proof (cases "(k = '''' \<or> kind = '''') \<or> jnClosed j \<or> (\<exists>x. payload = Inl x)")
  case True
  then have "d' = d" using assms(1) by (auto simp: journal_Put_def journal_mutate_def split: sum.splits if_splits)
  then show ?thesis using assms(2) by simp
next
  case False
  obtain c x where r: "r = (c, x)" by (cases r)
  from False obtain b where "file_update journal_zero e False (fenced j False (put_fn j kind k b now)) d = ((c, x), d')"
    using assms(1) r by (auto simp: journal_Put_def journal_mutate_def split: sum.splits)
  then show ?thesis
    by (cases rule: file_update_cases) (use assms(2,3) in \<open>auto simp: fenced_def put_fn_def split: if_splits\<close>)
qed

lemma run_event_started:
  assumes "run_event env (Some j) key ev g d s = ((r, Some st), g1, d1, s1)"
  obtains s0 en where "decode journal_zero d = Inr s0" "mget (jsEntries s0) (entry_key ''inbox'' key) = Some en" "jeState en = ''pending''"
    "\<exists>s' en'. decode journal_zero d1 = Inr s' \<and> mget (jsEntries s') (entry_key ''inbox'' key) = Some en' \<and> jeState en' = ''running''"
proof -
  obtain x dm where m: "journal_Move j (pe_io env 2) (pe_now env 2) ''inbox'' key ''pending'' ''running'' None d = (x, dm)" by fastforce
  have x: "x = None" "d1 = dm" using assms by (auto simp: run_event_def Let_def m split: option.splits prod.splits sum.splits)
  from m that show thesis
    by (cases rule: journal_Move_cases) (use x in auto)
qed

lemma run_event_result:
  assumes "run_event env jo key ev g d s = ((r, st), g1, d1, s1)"
  shows "case st of
      None \<Rightarrow> g1 = free_slot g \<and> r \<noteq> None
    | Some (job, ev1, i) \<Rightarrow> r = None \<and> ev1 = ev \<and> g1 = g\<lparr>gwSeen := key # gwSeen g\<rparr>
        \<and> Submit (Attach (pe_ctx env) i) (pe_ctx_err env) (evRequest ev) s = (Inr job, s1)"
  using assms by (auto simp: run_event_def Let_def split: option.splits prod.splits sum.splits)

lemma inbox_claim_keeps:
  assumes "inbox_claim env allowed j key ev d = (r, d1)" and "decode journal_zero d = Inr s"
    and "mget (jsEntries s) (entry_key ''inbox'' key) = Some en"
  shows "decode journal_zero d1 = Inr s"
proof -
  obtain c x d2 where p: "journal_Put j (pe_io env 0) (pe_now env 0) ''inbox'' key (pe_enc env ev) d = ((c, x), d2)"
    by (metis prod.collapse)
  have "d1 = d2" using assms(1) by (auto simp: inbox_claim_def p split: option.splits bool.splits sum.splits if_splits)
  then show ?thesis using Put_keeps_entry [OF p assms(2,3)] by simp
qed

lemma publish_started:
  assumes "publish env allowed jo ev0 wait g d s = ((r, Some (job, ev, i)), g1, d1, s1)"
  obtains f ga da eva where "publish_check allowed ev0 = None" "allowed = Some f" "take_slot env (event_key ev0) wait g = (None, ga, True)"
    "run_event env jo (event_key ev0) eva ga da s = ((r, Some (job, ev, i)), g1, d1, s1)"
    "jo = None \<and> da = d \<and> evRequest eva = evRequest ev0
       \<or> (\<exists>j eb. jo = Some j \<and> inbox_claim env f j (event_key ev0) eb d = (Inr eva, da) \<and> evRequest eb = evRequest ev0)"
proof -
  let ?key = "event_key ev0"
  let ?ev = "if TraceID (evIdentity ev0) = '''' then ev0\<lparr>evIdentity := fresh_identity env ''gateway.request''\<rparr> else ev0"
  have c: "publish_check allowed ev0 = None" using assms by (auto simp: publish_def split: option.splits)
  then obtain f where f: "allowed = Some f" by (auto simp: publish_check_def split: option.splits)
  obtain rt ga ok where t: "take_slot env ?key wait g = (rt, ga, ok)" by (metis prod_cases3)
  have ok: "ok = True" using assms by (cases ok) (auto simp: publish_def c t Let_def)
  have "rt = None" using t ok by (auto simp: take_slot_def split: if_splits sum.splits)
  show thesis
  proof (cases jo)
    case None
    then show thesis
      using assms that [of f ga ?ev d] c f t ok \<open>rt = None\<close> by (simp add: publish_def Let_def)
  next
    case (Some j)
    define e0 where "e0 = ?ev"
    have e0: "evRequest e0 = evRequest ev0" by (simp add: e0_def)
    obtain q da where q: "inbox_claim env f j ?key e0 d = (q, da)" by fastforce
    then obtain eva where eva: "q = Inr eva" "run_event env jo ?key eva ga da s = ((r, Some (job, ev, i)), g1, d1, s1)"
      using assms [unfolded f Some] t
      by (simp add: publish_def c [unfolded f] ok Let_def q Some e0_def [symmetric] split: sum.splits)
    have "\<exists>j eb. jo = Some j \<and> inbox_claim env f j ?key eb d = (Inr eva, da) \<and> evRequest eb = evRequest ev0"
      using q eva(1) e0 Some by blast
    then show thesis using that [of f ga eva da] c f t ok \<open>rt = None\<close> eva(2) by simp
  qed
qed

lemma inbox_claim_event:
  assumes "inbox_claim env f j key ev d = (Inr ev1, d1)"
  shows "ev1 = ev \<or> f (rqSource (evRequest ev1))"
  using assms by (auto simp: inbox_claim_def split: prod.splits option.splits bool.splits sum.splits if_splits)

text \<open>C17. A platform event starts at most one turn: once a \<open>publish\<close> has started a turn for a key, neither
  another \<open>publish\<close> of that key on this gateway, nor one on any other gateway state (a restart
  forgets the seen set) with the journal file as it was left, starts a turn.\<close>

theorem event_runs_once:
  assumes "publish env allowed (Some j) ev wait g d s = ((r, Some st), g1, d1, s1)"
    and "event_key ev' = event_key ev"
  shows "snd (fst (publish env' allowed' jo' ev' wait' (g1\<lparr>gwSlots := n\<rparr>) d' s')) = None
     \<and> snd (fst (publish env' allowed' (Some j') ev' wait' g' d1 s')) = None"
proof
  obtain job eva i where st: "st = (job, eva, i)" by (cases st)
  from assms(1) [unfolded st] obtain f ga da evb where p: "take_slot env (event_key ev) wait g = (None, ga, True)"
      "run_event env (Some j) (event_key ev) evb ga da s = ((r, Some (job, eva, i)), g1, d1, s1)"
    by (rule publish_started)
  have seen: "event_key ev \<in> set (gwSeen g1)" using run_event_result [OF p(2)] by auto
  show "snd (fst (publish env' allowed' jo' ev' wait' (g1\<lparr>gwSlots := n\<rparr>) d' s')) = None"
    using seen assms(2) by (auto simp: publish_def Let_def take_slot_def split: option.splits)
  from p(2) obtain s2 en where s2: "decode journal_zero d1 = Inr s2" "mget (jsEntries s2) (entry_key ''inbox'' (event_key ev)) = Some en"
      "jeState en = ''running''"
    by (rule run_event_started) blast
  show "snd (fst (publish env' allowed' (Some j') ev' wait' g' d1 s')) = None"
  proof (rule ccontr)
    assume "snd (fst (publish env' allowed' (Some j') ev' wait' g' d1 s')) \<noteq> None"
    then obtain r3 job3 ev3 i3 g3 d3 s3 where e: "publish env' allowed' (Some j') ev' wait' g' d1 s' = ((r3, Some (job3, ev3, i3)), g3, d3, s3)"
      by (metis prod.collapse option.exhaust_sel)
    then obtain f gx dx evx where x: "run_event env' (Some j') (event_key ev) evx gx dx s' = ((r3, Some (job3, ev3, i3)), g3, d3, s3)"
        "\<exists>j eb. Some j' = Some j \<and> inbox_claim env' f j (event_key ev) eb d1 = (Inr evx, dx)"
      using assms(2) by (metis (no_types, lifting) publish_started option.distinct(1))
    then have "decode journal_zero dx = Inr s2" using inbox_claim_keeps s2 by blast
    moreover from x(1) obtain s0 en0 where "decode journal_zero dx = Inr s0"
        "mget (jsEntries s0) (entry_key ''inbox'' (event_key ev)) = Some en0" "jeState en0 = ''pending''"
      by (rule run_event_started) blast
    ultimately show False using s2 by simp
  qed
qed

text \<open>A concrete start: one event, an empty journal of epoch 1.\<close>

definition demo_env :: publish_env where
  "demo_env = \<lparr>pe_ctx = background, pe_ctx_err = None, pe_waited = Inl Canceled, pe_fresh = (''tr'', ''sp''),
     pe_io = (\<lambda>_. io_ok), pe_now = (\<lambda>_. 5), pe_enc = (\<lambda>_. Inr ''p''), pe_dec = (\<lambda>_. Inl EOF)\<rparr>"

definition demo_event :: event where
  "demo_event = \<lparr>evID = ''1'', evRequest = no_request\<lparr>rqText := ''hi'', rqSource := \<lparr>srcChannel = ''t'', srcChatID = ''u'', srcSenderID = ''''\<rparr>\<rparr>,
     evIdentity = no_identity\<rparr>"

definition demo_owner :: journal where "demo_owner = \<lparr>jnEpoch = 1, jnClosed = False\<rparr>"

definition demo_file :: "journal_state content" where "demo_file = Holds \<lparr>jsEpoch = 1, jsEntries = []\<rparr>"

lemma Put_demo_file:
  "payload = Inr b \<Longrightarrow> journal_Put demo_owner io_ok now ''inbox'' (c # k) payload demo_file
     = ((True, None), Holds \<lparr>jsEpoch = 1, jsEntries = [(entry_key ''inbox'' (c # k), new_entry ''inbox'' (c # k) b 1 now)]\<rparr>)"
  by (simp add: journal_Put_def journal_mutate_def fenced_def put_fn_def demo_owner_def demo_file_def mput_def)

lemma demo_publish_fst:
  "\<exists>ev i. fst (publish demo_env (Some (\<lambda>_. True)) (Some demo_owner) demo_event False gateway_New demo_file demo_start)
     = (None, Some (0, ev, i))"
proof -
  have key: "event_key demo_event = ''t:1''" by (simp add: event_key_def demo_event_def)
  have check: "publish_check (Some (\<lambda>_. True)) demo_event = None"
    by (simp add: publish_check_def demo_event_def TrimSpace_def is_space_def)
  have slot: "take_slot demo_env ''t:1'' False gateway_New = (None, gateway_New\<lparr>gwSlots := 1\<rparr>, True)"
    by (simp add: take_slot_def gateway_New_def seen_capacity_def slot_capacity_def)
  have claim: "inbox_claim demo_env (\<lambda>_. True) demo_owner ''t:1'' ev demo_file = (Inr ev,
      Holds \<lparr>jsEpoch = 1, jsEntries = [(entry_key ''inbox'' ''t:1'', new_entry ''inbox'' ''t:1'' ''p'' 1 5)]\<rparr>)" for ev
    by (simp add: inbox_claim_def Put_demo_file demo_env_def)
  have submit: "\<exists>s1. Submit ctx None (evRequest demo_event) demo_start = (Inr 0, s1)" for ctx
    by (simp add: Submit_def default_conversation_def demo_event_def no_request_def admission_error_def lane_error_def
        demo_start_def new_lane_def Let_def)
  have move: "journal_Move demo_owner io_ok 5 ''inbox'' ''t:1'' ''pending'' ''running'' None
      (Holds \<lparr>jsEpoch = 1, jsEntries = [(entry_key ''inbox'' ''t:1'', new_entry ''inbox'' ''t:1'' ''p'' 1 5)]\<rparr>)
      = (None, Holds \<lparr>jsEpoch = 1, jsEntries = [(entry_key ''inbox'' ''t:1'', (new_entry ''inbox'' ''t:1'' ''p'' 1 5)
           \<lparr>jeState := ''running'', jeResult := None, jeUpdatedAt := 5\<rparr>)]\<rparr>)"
    by (simp add: journal_Move_def journal_mutate_def fenced_def move_fn_def demo_owner_def mput_def Let_def)
  have run: "\<exists>i. fst (run_event demo_env (Some demo_owner) ''t:1'' ev g
      (Holds \<lparr>jsEpoch = 1, jsEntries = [(entry_key ''inbox'' ''t:1'', new_entry ''inbox'' ''t:1'' ''p'' 1 5)]\<rparr>) demo_start)
      = (None, Some (0, ev, i))" if e: "evRequest ev = evRequest demo_event" for ev g
  proof -
    define i where "i = (if TraceID (evIdentity ev) = '''' then fresh_identity demo_env ''gateway.replay'' else evIdentity ev)\<lparr>SpanID := ''''\<rparr>"
    obtain s1 where s1: "Submit (Attach background i) None (evRequest demo_event) demo_start = (Inr 0, s1)" using submit by blast
    have env: "pe_io demo_env n = io_ok" "pe_now demo_env n = 5" "pe_ctx demo_env = background" "pe_ctx_err demo_env = None" for n
      by (simp_all add: demo_env_def)
    have "fst (run_event demo_env (Some demo_owner) ''t:1'' ev g
      (Holds \<lparr>jsEpoch = 1, jsEntries = [(entry_key ''inbox'' ''t:1'', new_entry ''inbox'' ''t:1'' ''p'' 1 5)]\<rparr>) demo_start)
      = (None, Some (0, ev, i))"
      by (simp only: run_event_def Let_def i_def [symmetric] env option.case move prod.case s1 sum.case e fst_conv)
    then show ?thesis ..
  qed
  define e0 where "e0 = (if TraceID (evIdentity demo_event) = '''' then demo_event\<lparr>evIdentity := fresh_identity demo_env ''gateway.request''\<rparr> else demo_event)"
  have "evRequest e0 = evRequest demo_event" by (simp add: e0_def)
  from run [OF this] obtain i where "fst (run_event demo_env (Some demo_owner) ''t:1'' e0 (gateway_New\<lparr>gwSlots := 1\<rparr>)
      (Holds \<lparr>jsEpoch = 1, jsEntries = [(entry_key ''inbox'' ''t:1'', new_entry ''inbox'' ''t:1'' ''p'' 1 5)]\<rparr>) demo_start)
      = (None, Some (0, e0, i))" by blast
  then have "fst (publish demo_env (Some (\<lambda>_. True)) (Some demo_owner) demo_event False gateway_New demo_file demo_start) = (None, Some (0, e0, i))"
    by (simp only: publish_def check key slot claim Let_def option.case prod.case sum.case bool.case e0_def [symmetric] option.sel)
  then show ?thesis by blast
qed

lemma event_runs_once_witness:
  "\<exists>g1 d1 s1. snd (fst (publish demo_env (Some (\<lambda>_. True)) (Some demo_owner) demo_event False gateway_New d1 s1)) = None \<and> gwSeen g1 = [''t:1'']"
proof -
  obtain ev i g1 d1 s1 where p: "publish demo_env (Some (\<lambda>_. True)) (Some demo_owner) demo_event False gateway_New demo_file demo_start
      = ((None, Some (0, ev, i)), g1, d1, s1)"
    using demo_publish_fst by (metis prod.collapse)
  from event_runs_once [OF p refl]
  have "snd (fst (publish demo_env (Some (\<lambda>_. True)) (Some demo_owner) demo_event False gateway_New d1 s1)) = None" by blast
  then show ?thesis by (metis gateway.select_convs(1))
qed

text \<open>Only allowed senders run, and slots balance: a started turn submitted the request of an event whose
  sender is allowed now (a persisted event is checked again), under a trace of its own, and
  left the inbox entry running; a \<open>publish\<close> that does not wait takes one of the 128 slots exactly
  when it starts a turn.\<close>

theorem started_event_is_owned:
  assumes "publish env allowed jo ev wait g d s = ((r, st), g1, d1, s1)"
  shows "(\<forall>job ev1 i. st = Some (job, ev1, i) \<longrightarrow> r = None
        \<and> (\<exists>f. allowed = Some f \<and> f (rqSource (evRequest ev1)))
        \<and> Submit (Attach (pe_ctx env) i) (pe_ctx_err env) (evRequest ev1) s = (Inr job, s1)
        \<and> (\<forall>j. jo = Some j \<longrightarrow> (\<exists>s' en. decode journal_zero d1 = Inr s'
              \<and> mget (jsEntries s') (entry_key ''inbox'' (event_key ev)) = Some en \<and> jeState en = ''running'')))
     \<and> (\<not> wait \<longrightarrow> gwSlots g1 = gwSlots g + (if st = None then 0 else 1)
        \<and> (gwSlots g \<le> slot_capacity \<longrightarrow> gwSlots g1 \<le> slot_capacity))"
proof (intro conjI allI impI)
  fix job ev1 i
  assume st: "st = Some (job, ev1, i)"
  from assms [unfolded st] obtain f ga da eva where p: "publish_check allowed ev = None" "allowed = Some f"
      "run_event env jo (event_key ev) eva ga da s = ((r, Some (job, ev1, i)), g1, d1, s1)"
      "jo = None \<and> da = d \<and> evRequest eva = evRequest ev
       \<or> (\<exists>j eb. jo = Some j \<and> inbox_claim env f j (event_key ev) eb d = (Inr eva, da) \<and> evRequest eb = evRequest ev)"
    by (rule publish_started)
  note R = run_event_result [OF p(3), simplified]
  show "r = None" and "Submit (Attach (pe_ctx env) i) (pe_ctx_err env) (evRequest ev1) s = (Inr job, s1)" using R by auto
  have f: "f (rqSource (evRequest ev))" using p(1,2) by (auto simp: publish_check_def split: if_splits)
  have "f (rqSource (evRequest eva))" using p(4) f inbox_claim_event by metis
  then show "\<exists>f. allowed = Some f \<and> f (rqSource (evRequest ev1))" using p(2) R by auto
  show "\<exists>s' en. decode journal_zero d1 = Inr s' \<and> mget (jsEntries s') (entry_key ''inbox'' (event_key ev)) = Some en
      \<and> jeState en = ''running''" if "jo = Some j" for j
    using p(3) unfolding that by (rule run_event_started) blast
next
  assume w: "\<not> wait"
  obtain rt ga ok where t: "take_slot env (event_key ev) wait g = (rt, ga, ok)" by (metis prod_cases3)
  have t': "if ok then ga = g\<lparr>gwSlots := gwSlots g + 1\<rparr> \<and> gwSlots g < slot_capacity else ga = g"
    using t w by (auto simp: take_slot_def split: if_splits)
  have "gwSlots g1 = gwSlots g + (if st = None then 0 else 1) \<and> (st \<noteq> None \<longrightarrow> gwSlots g < slot_capacity)"
  proof (cases "publish_check allowed ev = None \<and> ok")
    case False
    then show ?thesis using assms t t' by (auto simp: publish_def Let_def split: option.splits bool.splits)
  next
    case True
    let ?ev = "if TraceID (evIdentity ev) = '''' then ev\<lparr>evIdentity := fresh_identity env ''gateway.request''\<rparr> else ev"
    have "(g1 = free_slot ga \<and> st = None) \<or> (\<exists>e da. run_event env jo (event_key ev) e ga da s = ((r, st), g1, d1, s1))"
    proof (cases jo)
      case None
      then show ?thesis using assms True t by (auto simp: publish_def Let_def)
    next
      case (Some j)
      obtain q da where "inbox_claim env (the allowed) j (event_key ev) ?ev d = (q, da)" by fastforce
      then show ?thesis using assms True t Some by (cases q) (auto simp: publish_def Let_def)
    qed
    then show ?thesis
      using True t' run_event_result by (fastforce simp: free_slot_def split: option.splits)
  qed
  then show "gwSlots g1 = gwSlots g + (if st = None then 0 else 1)"
    and "gwSlots g \<le> slot_capacity \<Longrightarrow> gwSlots g1 \<le> slot_capacity"
    by (auto split: if_splits)
qed

lemma started_event_is_owned_witness:
  "\<exists>g1 d1 s1. fst (publish demo_env (Some (\<lambda>_. True)) (Some demo_owner) demo_event False gateway_New demo_file demo_start) \<noteq> (None, None) \<and>
     publish demo_env (Some (\<lambda>_. True)) (Some demo_owner) demo_event False gateway_New demo_file demo_start
     = (fst (publish demo_env (Some (\<lambda>_. True)) (Some demo_owner) demo_event False gateway_New demo_file demo_start), g1, d1, s1) \<and> gwSlots g1 = 1"
proof -
  obtain ev i g1 d1 s1 where p: "publish demo_env (Some (\<lambda>_. True)) (Some demo_owner) demo_event False gateway_New demo_file demo_start
      = ((None, Some (0, ev, i)), g1, d1, s1)"
    using demo_publish_fst by (metis prod.collapse)
  have "gwSlots gateway_New = 0" by (simp add: gateway_New_def)
  with started_event_is_owned [OF p] have "gwSlots g1 = 1" by auto
  with p show ?thesis by auto
qed

lemma journal_Complete_done:
  assumes "journal_Complete j io now key msg d = (None, d')"
  obtains b s a where "msg = Inr b" "decode journal_zero d' = Inr s"
    "mget (jsEntries s) (entry_key ''inbox'' key) = Some a" "jeState a = ''completed''" "jeResult a = Some b"
    "mget (jsEntries s) (entry_key ''outbox'' key) = Some (new_entry ''outbox'' key b (jnEpoch j) now)"
proof -
  obtain b o1 where b: "msg = Inr b" "journal_mutate j io () (complete_fn j key b now) d = ((o1, None), d')"
    using assms by (auto simp: journal_Complete_def split: sum.splits prod.splits)
  then have "file_update journal_zero io () (fenced j () (complete_fn j key b now)) d = ((o1, None), d')"
    by (simp add: journal_mutate_def split: if_splits)
  then show thesis
    by (rule file_update_done)
      (use that b(1) in \<open>auto simp: fenced_def complete_fn_def entry_key_def split: if_splits option.splits\<close>)
qed

text \<open>A result goes back where its request came from, and only after it is durable: when the turn of an
  event is over, the goroutine frees its slot; it hands a message to the hub only if the turn
  neither failed nor was merged, the message carries the key, the source and the trace of
  the event, and the journal then holds the request as completed and the message as a pending result.\<close>

theorem reply_belongs_to_request:
  assumes "settle (Some j) io now encerr encmsg key ev i r g d = ((Some m, errs), g', d')"
  shows "g' = free_slot g \<and> errs = [] \<and> rsErr r = None \<and> \<not> rsMerged r
     \<and> m = \<lparr>dmID = key, dmSource = rqSource (evRequest ev), dmText = rsText r, dmIdentity = i\<rparr>
     \<and> (\<exists>b s a. encmsg m = Inr b \<and> decode journal_zero d' = Inr s
          \<and> mget (jsEntries s) (entry_key ''inbox'' key) = Some a \<and> jeState a = ''completed'' \<and> jeResult a = Some b
          \<and> mget (jsEntries s) (entry_key ''outbox'' key) = Some (new_entry ''outbox'' key b (jnEpoch j) now))"
proof -
  let ?m = "\<lparr>dmID = key, dmSource = rqSource (evRequest ev), dmText = rsText r, dmIdentity = i\<rparr>"
  have r: "rsErr r = None" "\<not> rsMerged r" using assms by (auto simp: settle_def split: option.splits if_splits)
  obtain x dx where c: "journal_Complete j io now key (encmsg ?m) d = (x, dx)" by fastforce
  have x: "x = None" "m = ?m" "errs = []" "g' = free_slot g" "d' = dx"
    using assms r c by (auto simp: settle_def split: option.splits)
  from c [unfolded x(1)] show ?thesis
    by (rule journal_Complete_done) (use r x in auto)
qed

lemma reply_belongs_to_request_witness:
  "\<exists>s. decode journal_zero (snd (snd (settle (Some demo_owner) io_ok 9 Error (\<lambda>_. Inr ''b'') ''k'' demo_event no_identity
        \<lparr>rsText = ''yes'', rsErr = None, rsMerged = False\<rparr> (gateway_New\<lparr>gwSlots := 1\<rparr>)
        (Holds \<lparr>jsEpoch = 1, jsEntries = [(''inbox:k'', (new_entry ''inbox'' ''k'' ''p'' 1 5)\<lparr>jeState := ''running''\<rparr>)]\<rparr>)))) = Inr s
     \<and> mget (jsEntries s) (entry_key ''outbox'' ''k'') = Some (new_entry ''outbox'' ''k'' ''b'' 1 9)"
proof -
  let ?d = "Holds \<lparr>jsEpoch = 1, jsEntries = [(''inbox:k'', (new_entry ''inbox'' ''k'' ''p'' 1 5)\<lparr>jeState := ''running''\<rparr>)]\<rparr>"
  let ?t = "settle (Some demo_owner) io_ok 9 Error (\<lambda>_. Inr ''b'') ''k'' demo_event no_identity
        \<lparr>rsText = ''yes'', rsErr = None, rsMerged = False\<rparr> (gateway_New\<lparr>gwSlots := 1\<rparr>) ?d"
  obtain m d' where t: "?t = ((Some m, []), free_slot (gateway_New\<lparr>gwSlots := 1\<rparr>), d')"
    by (simp add: settle_def journal_Complete_def journal_mutate_def fenced_def complete_fn_def demo_owner_def entry_key_def new_entry_def)
  from reply_belongs_to_request [OF t] show ?thesis unfolding t by (auto simp: demo_owner_def)
qed

text \<open>An operator's recovered result keeps the route of the inbox record: it can reach the journal only
  as an encoding of a message whose source and trace were decoded from that record.\<close>

lemma Reconcile_route:
  assumes "Reconcile (Some j) enc io1 io2 now dece encmsg kind k decision text d = (None, d')"
    and "rsAction decision = ''recover_result''"
  obtains (found) en :: journal_entry and ev :: event where "kind = ''inbox''" "TrimSpace text \<noteq> ''''" "jeID en = k" "dece (jePayload en) = Inr ev"
    "journal_Resolve j enc io2 now ''inbox'' k decision
       (Some (encmsg \<lparr>dmID = k, dmSource = rqSource (evRequest ev), dmText = text, dmIdentity = evIdentity ev\<rparr>)) d = (None, d')"
  using assms that by (auto simp: Reconcile_def find_entry_def find_Some_iff split: if_splits sum.splits option.splits)

end
