(* ===== verification/Context.thy ===== *)
theory Context
  imports Turns
begin

section \<open>Building a request within its budget\<close>

text \<open>
  \<open>internal/contextbuilder/curator.go\<close> (\<open>BuildChecked\<close>) and \<open>messages.go\<close>: the fixed material, the groups
  that are kept, the selection by a curator, a selector or rules, and the eviction of the
  lowest scores until the counted request fits. The counter, JSON, the hash, the saved working
  state, the selector and the curator are arguments; the context's error is read where the code
  reads it apart from the counter's calls, whose error it becomes otherwise. A score that is not a
  finite number is \<^const>\<open>None\<close>. Metadata that accompanies an error is not modelled.
\<close>

record selection =
  slID :: int
  slScore :: "rat option"

record input =
  inWorkspace :: string
  inMemory :: string
  inUserMessage :: string
  inSkills :: string
  inActiveSkills :: string
  inWorkingState :: string
  inHistory :: "message list"
  inTools :: "tool_spec list"
  inMaxChars :: int
  inMaxTokens :: int
  inOutputReserve :: int
  inFastThreshold :: rat
  inSelectorTimeout :: duration

record metadata =
  mtPromptChars :: int
  mtRawChars :: int
  mtReduced :: bool
  mtPrefixHash :: string
  mtPath :: string
  mtSelectedGroups :: "int list"
  mtPromptTokens :: int
  mtRawTokens :: int
  mtContextWindow :: int
  mtOutputReserve :: int
  mtInputBudget :: int
  mtFixedTokens :: int
  mtFramingReserve :: int
  mtHistoryTokens :: int
  mtHistoryBudget :: int
  mtFastThreshold :: int
  mtSectionTokens :: "(string \<times> int) list"
  mtSelectionError :: string
  mtCuratorSteps :: int
  mtArchiveRefs :: "string list"

record curator_result =
  crIncludeGroups :: "int list"
  crWorkingState :: string
  crScores :: "(int \<times> rat) list"
  crArchiveRefs :: "string list"
  crSteps :: int

text \<open>A candidate check: the tokens of the request with these groups and this state, and its error.\<close>

type_synonym candidate_check = "int list \<Rightarrow> string \<Rightarrow> int \<times> gerr option"

record build_env =
  beCtx :: "gerr option"
  beCtxSelected :: "gerr option"
  beCounter :: counter
  beDecode :: "string \<Rightarrow> gerr + json"
  beEncode :: "json \<Rightarrow> gerr + string"
  beCompact :: "json \<Rightarrow> string"
  beSha :: "string \<Rightarrow> string"
  beSaved :: "(gerr + string) option"
  beCurator :: "(input \<Rightarrow> group list \<Rightarrow> metadata \<Rightarrow> candidate_check \<Rightarrow> curator_result \<times> gerr option) option"
  beSelector :: "(string \<Rightarrow> group list \<Rightarrow> gerr + selection list) option"

definition DefaultContextWindow :: int where "DefaultContextWindow = 65536"
definition DefaultOutputReserve :: int where "DefaultOutputReserve = 8192"
definition DefaultFastThreshold :: rat where "DefaultFastThreshold = 6 / 10"
definition framingReserve :: int where "framingReserve = 8"

subsection \<open>The wire form of messages\<close>

definition wire_call :: "(json \<Rightarrow> gerr + string) \<Rightarrow> tool_call \<Rightarrow> gerr + json" where
  "wire_call encode c = (case encode (case tcArgs c of None \<Rightarrow> JNull | Some a \<Rightarrow> JObj a) of
      Inl e \<Rightarrow> Inl e
    | Inr args \<Rightarrow> Inr (JObj [(''id'', JStr (tcID c)), (''type'', JStr ''function''),
        (''function'', JObj [(''name'', JStr (tcName c)), (''arguments'', JStr args)])]))"

fun wire_list :: "('a \<Rightarrow> gerr + json) \<Rightarrow> 'a list \<Rightarrow> gerr + json list" where
  "wire_list f [] = Inr []"
| "wire_list f (x # xs) = (case f x of Inl e \<Rightarrow> Inl e
     | Inr j \<Rightarrow> (case wire_list f xs of Inl e \<Rightarrow> Inl e | Inr js \<Rightarrow> Inr (j # js)))"

text \<open>The raw data of a native item is embedded as its value; a nil raw message is null.\<close>

definition native_json :: "(string \<Rightarrow> gerr + json) \<Rightarrow> native_item \<Rightarrow> gerr + json" where
  "native_json dec n = (case (if niData n = '''' then Inr JNull else dec (niData n)) of
      Inl e \<Rightarrow> Inl e
    | Inr v \<Rightarrow> Inr (JObj [(''protocol'', JStr (niProtocol n)), (''data'', v)]))"

definition wire_message :: "(string \<Rightarrow> gerr + json) \<Rightarrow> (json \<Rightarrow> gerr + string) \<Rightarrow> message \<Rightarrow> gerr + json" where
  "wire_message dec encode m =
     (case wire_list (wire_call encode) (mToolCalls m) of
        Inl e \<Rightarrow> Inl e
      | Inr calls \<Rightarrow>
        (case wire_list (native_json dec) (mNative m) of
           Inl e \<Rightarrow> Inl e
         | Inr natives \<Rightarrow> Inr (JObj ([(''role'', JStr (mRole m)), (''content'', JStr (mContent m))]
             @ (if mNative m \<noteq> [] then [(''native_content'', JArr natives)] else [])
             @ (if mToolCallID m \<noteq> '''' then [(''tool_call_id'', JStr (mToolCallID m))] else [])
             @ (if mToolCalls m \<noteq> [] then [(''tool_calls'', JArr calls)] else [])))))"

definition wire_tool :: "(string \<Rightarrow> gerr + json) \<Rightarrow> (json \<Rightarrow> string) \<Rightarrow> tool_spec \<Rightarrow> gerr + json" where
  "wire_tool dec pack s =
     (case JSONSchema dec pack (if spSchema s = '''' then ''{}'' else spSchema s) of
        Inl e \<Rightarrow> Inl (Wrapf ''tool %s schema: %w'' [spName s] e)
      | Inr raw \<Rightarrow> (case dec raw of
          Inl e \<Rightarrow> Inl e
        | Inr parameters \<Rightarrow> Inr (JObj [(''type'', JStr ''function''), (''function'',
            JObj [(''name'', JStr (spName s)), (''description'', JStr (spDescription s)), (''parameters'', parameters)])])))"

definition serializeMessages :: "build_env \<Rightarrow> message list \<Rightarrow> tool_spec list \<Rightarrow> gerr + string" where
  "serializeMessages env messages specs =
     (case wire_list (wire_message (beDecode env) (beEncode env)) messages of
        Inl e \<Rightarrow> Inl e
      | Inr ms \<Rightarrow>
         (if specs = [] then beEncode env (JObj [(''messages'', JArr ms)])
          else (case wire_list (wire_tool (beDecode env) (beCompact env)) specs of
                  Inl e \<Rightarrow> Inl e
                | Inr ts \<Rightarrow> beEncode env (JObj [(''messages'', JArr ms), (''tools'', JArr ts)]))))"

subsection \<open>Rendering and measuring\<close>

definition checked_count :: "counter \<Rightarrow> counter" where
  "checked_count cnt s = (case cnt s of Inl e \<Rightarrow> Inl e
     | Inr n \<Rightarrow> if n < 0 \<or> s \<noteq> '''' \<and> n = 0 then Inl (Errorf ''invalid token count %d'' [Itoa (nat n)]) else Inr n)"

record rendered =
  rdPrompt :: string
  rdMessages :: "message list"
  rdNative :: "message list"
  rdTokens :: int

definition paragraphs :: "string list \<Rightarrow> string" where
  "paragraphs xs = join_with (newline @ newline) xs"

definition render ::
  "build_env \<Rightarrow> bool \<Rightarrow> input \<Rightarrow> string \<Rightarrow> string \<Rightarrow> group list \<Rightarrow> int list \<Rightarrow> string \<Rightarrow> gerr + rendered"
where
  "render env native inp prefix req groups keep state =
     (let messages = kept_messages keep groups in
      if native then
        (let sys = text_message ''system'' (paragraphs [prefix, inMemory inp, inActiveSkills inp, inSkills inp, state]);
             nm = sys # messages @ [text_message ''user'' (inUserMessage inp)]
         in (case serializeMessages env nm (inTools inp) of
               Inl e \<Rightarrow> Inl e
             | Inr wire \<Rightarrow> Inr \<lparr>rdPrompt = wire, rdMessages = messages, rdNative = nm, rdTokens = 0\<rparr>))
      else Inr \<lparr>rdPrompt = paragraphs [prefix, inMemory inp, inActiveSkills inp, inSkills inp, state, renderHistory messages, req],
                rdMessages = messages, rdNative = [], rdTokens = 0\<rparr>)"

definition measured ::
  "build_env \<Rightarrow> bool \<Rightarrow> input \<Rightarrow> string \<Rightarrow> string \<Rightarrow> group list \<Rightarrow> int list \<Rightarrow> string \<Rightarrow> gerr + rendered"
where
  "measured env native inp prefix req groups keep state =
     (case render env native inp prefix req groups keep state of
        Inl e \<Rightarrow> Inl e
      | Inr r \<Rightarrow> (case checked_count (beCounter env) (rdPrompt r) of
          Inl e \<Rightarrow> Inl e | Inr n \<Rightarrow> Inr (r\<lparr>rdTokens := n + framingReserve\<rparr>)))"

definition over :: "input \<Rightarrow> int \<Rightarrow> rendered \<Rightarrow> bool" where
  "over inp budget r \<longleftrightarrow> rdTokens r > budget \<or> inMaxChars inp > 0 \<and> int (length (rdPrompt r)) > inMaxChars inp"

text \<open>Dropping the lowest scores first, while the request is over its budget; \<open>render_keep\<close> renders and
  measures the request with the given groups.\<close>

fun evict ::
  "(int list \<Rightarrow> gerr + rendered) \<Rightarrow> (rendered \<Rightarrow> bool) \<Rightarrow> group list \<Rightarrow> int list \<Rightarrow> rendered \<Rightarrow> gerr + (int list \<times> rendered \<times> bool)" where
  "evict render_keep is_over [] keep r = Inr (keep, r, False)"
| "evict render_keep is_over (g # gs) keep r =
     (if \<not> is_over r then Inr (keep, r, False)
      else if gpProtected g then evict render_keep is_over gs keep r
      else (let keep1 = removeAll (gpID g) keep in
            (case render_keep keep1 of
               Inl e \<Rightarrow> Inl e
             | Inr r1 \<Rightarrow> (case evict render_keep is_over gs keep1 r1 of
                 Inl e \<Rightarrow> Inl e | Inr (k, r2, _) \<Rightarrow> Inr (k, r2, True)))))"

subsection \<open>Selector proposals\<close>

definition manifest_of :: "group list \<Rightarrow> group list" where
  "manifest_of groups = map (\<lambda>g. g\<lparr>gpMessages := []\<rparr>) (drop (length groups - 64) groups)"

definition score_ok :: "rat option \<Rightarrow> bool" where
  "score_ok s = (case s of None \<Rightarrow> False | Some x \<Rightarrow> 0 \<le> x \<and> x \<le> 1)"

fun proposal_scores :: "int list \<Rightarrow> selection list \<Rightarrow> (int \<times> rat) list \<Rightarrow> (int \<times> rat) list option" where
  "proposal_scores allowed [] scores = Some scores"
| "proposal_scores allowed (s # ss) scores =
     (if slID s \<notin> set allowed \<or> \<not> score_ok (slScore s) then None
      else if map_of scores (slID s) \<noteq> None then None
      else proposal_scores allowed ss ((slID s, the (slScore s)) # scores))"

definition apply_scores :: "(group \<Rightarrow> bool) \<Rightarrow> (int \<times> rat) list \<Rightarrow> group list \<Rightarrow> group list" where
  "apply_scores eligible scores groups =
     map (\<lambda>g. case map_of scores (gpID g) of
         Some x \<Rightarrow> if eligible g then g\<lparr>gpScore := x\<rparr> else g
       | None \<Rightarrow> g) groups"

subsection \<open>Phase B: what is kept\<close>

record choice =
  chGroups :: "group list"
  chKeep :: "int list"
  chState :: string
  chPath :: string
  chSelectionError :: string
  chSteps :: int
  chRefs :: "string list"

definition candidate ::
  "build_env \<Rightarrow> bool \<Rightarrow> input \<Rightarrow> string \<Rightarrow> string \<Rightarrow> group list \<Rightarrow> int \<Rightarrow> candidate_check"
where
  "candidate env native inp prefix req groups budget ids state =
     (case render env native inp prefix req groups (protectedSelection groups ids) state of
        Inl e \<Rightarrow> (framingReserve, Some e)
      | Inr r \<Rightarrow> (case checked_count (beCounter env) (rdPrompt r) of
          Inl e \<Rightarrow> (framingReserve, Some e)
        | Inr n \<Rightarrow> (n + framingReserve,
            if over inp budget (r\<lparr>rdTokens := n + framingReserve\<rparr>) then Some ErrContextBudget else None)))"

definition no_choice :: "input \<Rightarrow> group list \<Rightarrow> int list \<Rightarrow> metadata \<Rightarrow> choice" where
  "no_choice inp groups keep meta = \<lparr>chGroups = groups, chKeep = keep, chState = inWorkingState inp, chPath = ''rule_fallback'',
     chSelectionError = mtSelectionError meta, chSteps = 0, chRefs = []\<rparr>"

definition by_rule :: "choice \<Rightarrow> choice" where
  "by_rule c = (if chPath c = ''rule_fallback'' then c\<lparr>chKeep := fallbackSelection (chGroups c)\<rparr> else c)"

definition curated :: "choice \<Rightarrow> curator_result \<times> gerr option \<Rightarrow> choice" where
  "curated c0 answer =
     (case answer of (r, err) \<Rightarrow>
        (let c = c0\<lparr>chSteps := crSteps r, chRefs := crArchiveRefs r\<rparr> in
         (case err of
            None \<Rightarrow> c\<lparr>chPath := ''curator'', chKeep := protectedSelection (chGroups c) (crIncludeGroups r),
               chState := crWorkingState r, chGroups := apply_scores (\<lambda>_. True) (crScores r) (chGroups c)\<rparr>
          | Some e \<Rightarrow> c\<lparr>chSelectionError := Error e\<rparr>)))"

definition selected :: "choice \<Rightarrow> gerr + selection list \<Rightarrow> choice" where
  "selected c answer =
     (case answer of
        Inl e \<Rightarrow> c\<lparr>chSelectionError := Error e\<rparr>
      | Inr ss \<Rightarrow>
         (case proposal_scores (map gpID (manifest_of (chGroups c))) ss [] of
            None \<Rightarrow> c\<lparr>chSelectionError := ''invalid selection proposal''\<rparr>
          | Some scores \<Rightarrow> c\<lparr>chPath := ''model_selection'',
              chGroups := apply_scores (\<lambda>g. \<not> gpProtected g) scores (chGroups c)\<rparr>))"

definition choose_groups ::
  "build_env \<Rightarrow> bool \<Rightarrow> input \<Rightarrow> string \<Rightarrow> string \<Rightarrow> group list \<Rightarrow> int list \<Rightarrow> metadata \<Rightarrow> gerr + choice"
where
  "choose_groups env native inp prefix req groups keep meta =
     (let c0 = no_choice inp groups keep meta in
      if groups = [] then Inr (by_rule c0)
      else (case beCurator env of
        Some curate \<Rightarrow>
          (let answer = curate inp groups meta (candidate env native inp prefix req groups (mtInputBudget meta)) in
           case beCtxSelected env of Some e \<Rightarrow> Inl e | None \<Rightarrow> Inr (by_rule (curated c0 answer)))
      | None \<Rightarrow>
         (case beSelector env of
            None \<Rightarrow> Inr (by_rule c0)
          | Some select \<Rightarrow>
             (let answer = select (inUserMessage inp) (manifest_of groups) in
              case beCtxSelected env of Some e \<Rightarrow> Inl e | None \<Rightarrow> Inr (by_rule (selected c0 answer))))))"

subsection \<open>BuildChecked\<close>

definition build_defaults :: "input \<Rightarrow> input" where
  "build_defaults inp0 =
     (let inp1 = (if inMaxTokens inp0 = 0 then inp0\<lparr>inMaxTokens := DefaultContextWindow,
            inOutputReserve := (if inOutputReserve inp0 = 0 then DefaultOutputReserve else inOutputReserve inp0)\<rparr> else inp0);
          inp2 = (if inFastThreshold inp1 = 0 then inp1\<lparr>inFastThreshold := DefaultFastThreshold\<rparr> else inp1)
      in (if inSelectorTimeout inp2 = 0 then inp2\<lparr>inSelectorTimeout := 30 * Second\<rparr> else inp2))"

definition budget_error :: "input \<Rightarrow> gerr option" where
  "budget_error inp =
     (if inMaxTokens inp < 1 \<or> inOutputReserve inp < 0 \<or> inOutputReserve inp \<ge> inMaxTokens inp \<or> inMaxChars inp < 0
      then Some (Errorf ''invalid context/output/byte budget'' [])
      else if inFastThreshold inp \<le> 0 \<or> inFastThreshold inp > 1 then Some (Errorf ''invalid fast-path threshold'' [])
      else if inSelectorTimeout inp < 0 then Some (Errorf ''invalid selector timeout'' [])
      else None)"

definition drop_current :: "input \<Rightarrow> input" where
  "drop_current inp = (let h = inHistory inp in
     if h \<noteq> [] \<and> mRole (last h) = ''user'' \<and> mContent (last h) = inUserMessage inp then inp\<lparr>inHistory := butlast h\<rparr> else inp)"

definition latest_user :: "message list \<Rightarrow> message option" where
  "latest_user h = find (\<lambda>m. mRole m = ''user'') (rev h)"

fun count_sections :: "counter \<Rightarrow> (string \<times> string) list \<Rightarrow> gerr + (string \<times> int) list" where
  "count_sections cnt [] = Inr []"
| "count_sections cnt ((name, s) # rest) = (case checked_count cnt s of Inl e \<Rightarrow> Inl e
     | Inr n \<Rightarrow> (case count_sections cnt rest of Inl e \<Rightarrow> Inl e | Inr xs \<Rightarrow> Inr ((name, n) # xs)))"

record built =
  bdPrompt :: string
  bdNative :: "message list"
  bdHistory :: "message list"
  bdMeta :: metadata

definition build_meta :: "build_env \<Rightarrow> input \<Rightarrow> string \<Rightarrow> metadata" where
  "build_meta env inp prefix = \<lparr>mtPromptChars = 0, mtRawChars = 0, mtReduced = False, mtPrefixHash = beSha env prefix,
     mtPath = ''fast'', mtSelectedGroups = [], mtPromptTokens = 0, mtRawTokens = 0, mtContextWindow = inMaxTokens inp,
     mtOutputReserve = inOutputReserve inp, mtInputBudget = inMaxTokens inp - inOutputReserve inp, mtFixedTokens = 0,
     mtFramingReserve = framingReserve, mtHistoryTokens = 0, mtHistoryBudget = 0, mtFastThreshold = 0,
     mtSectionTokens = [], mtSelectionError = '''', mtCuratorSteps = 0, mtArchiveRefs = []\<rparr>"

text \<open>The fixed material, counted, and the tokens of the history.\<close>

definition fixed_text :: "build_env \<Rightarrow> bool \<Rightarrow> input \<Rightarrow> string \<Rightarrow> string \<Rightarrow> gerr + string" where
  "fixed_text env native inp prefix req =
     (if native then serializeMessages env
          [text_message ''system'' (paragraphs [prefix, inMemory inp, inActiveSkills inp, inSkills inp, inWorkingState inp]),
           text_message ''user'' (inUserMessage inp)] (inTools inp)
      else Inr (paragraphs [prefix, inMemory inp, inActiveSkills inp, inSkills inp, inWorkingState inp, renderHistory [], req]))"

definition history_tokens :: "build_env \<Rightarrow> bool \<Rightarrow> input \<Rightarrow> gerr + int" where
  "history_tokens env native inp =
     (if inHistory inp = [] then Inr 0
      else (case (if native then serializeMessages env (inHistory inp) [] else Inr (renderHistory (inHistory inp))) of
              Inl e \<Rightarrow> Inl e | Inr s \<Rightarrow> checked_count (beCounter env) s))"

text \<open>The end: sections are counted, the messages are validated again, the budget is final.\<close>

definition build_end ::
  "build_env \<Rightarrow> input \<Rightarrow> string \<Rightarrow> string \<Rightarrow> string \<Rightarrow> group list \<Rightarrow> int list \<Rightarrow> rendered \<Rightarrow> metadata \<Rightarrow> gerr + built"
where
  "build_end env inp prefix req state groups keep r meta =
     (case count_sections (beCounter env) [(''prefix'', prefix), (''skills'', inSkills inp), (''active_skills'', inActiveSkills inp),
          (''memory'', inMemory inp), (''working_state'', state), (''history'', renderHistory (rdMessages r)), (''current_request'', req)] of
        Inl e \<Rightarrow> Inl e
      | Inr secs \<Rightarrow>
        (case ValidateClosure (rdMessages r) of
           Some e \<Rightarrow> Inl e
         | None \<Rightarrow>
           if over inp (mtInputBudget meta) r then Inl ErrContextBudget
           else Inr \<lparr>bdPrompt = rdPrompt r, bdNative = rdNative r, bdHistory = rdMessages r,
              bdMeta = meta\<lparr>mtPromptChars := int (length (rdPrompt r)), mtPromptTokens := rdTokens r, mtSectionTokens := secs,
                mtSelectedGroups := map gpID (filter (\<lambda>g. gpID g \<in> set keep) groups)\<rparr>\<rparr>))"

definition build_reduce ::
  "build_env \<Rightarrow> bool \<Rightarrow> input \<Rightarrow> string \<Rightarrow> string \<Rightarrow> group list \<Rightarrow> int list \<Rightarrow> metadata \<Rightarrow> gerr + built"
where
  "build_reduce env native inp prefix req groups keep0 meta =
     (case choose_groups env native inp prefix req groups keep0 meta of
        Inl e \<Rightarrow> Inl e
      | Inr c \<Rightarrow>
        (let again = (\<lambda>keep. measured env native inp prefix req (chGroups c) keep (chState c)) in
         (case again (chKeep c) of
            Inl e \<Rightarrow> Inl e
          | Inr r \<Rightarrow>
            (case evict again (over inp (mtInputBudget meta)) (sort_key gpScore (chGroups c)) (chKeep c) r of
               Inl e \<Rightarrow> Inl e
             | Inr (keep, r1, dropped) \<Rightarrow>
                build_end env inp prefix req (chState c) (chGroups c) keep r1
                  (meta\<lparr>mtPath := chPath c, mtSelectionError := chSelectionError c, mtCuratorSteps := chSteps c, mtArchiveRefs := chRefs c,
                     mtReduced := (length (chKeep c) < length groups \<or> dropped)\<rparr>)))))"

definition BuildChecked :: "build_env \<Rightarrow> bool \<Rightarrow> input \<Rightarrow> gerr + built" where
  "BuildChecked env native inp0 =
     (if beCtx env \<noteq> None then Inl (the (beCtx env))
      else (case ValidateClosure (inHistory inp0) of
        Some e \<Rightarrow> Inl e
      | None \<Rightarrow>
        (let inp1 = build_defaults inp0 in
         (case budget_error inp1 of
            Some e \<Rightarrow> Inl e
          | None \<Rightarrow>
            (let prefix = (if native then buildNativePrefix (inWorkspace inp1) else buildPrefix (inWorkspace inp1) (inTools inp1));
                 inp2 = (if native then drop_current inp1 else inp1);
                 req0 = ''Current request:'' @ newline @ inUserMessage inp2;
                 meta0 = build_meta env inp2 prefix;
                 loaded = (if inWorkingState inp2 = '''' then beSaved env else None);
                 inp = (case loaded of Some (Inr st) \<Rightarrow> inp2\<lparr>inWorkingState := st\<rparr> | _ \<Rightarrow> inp2);
                 meta1 = (case loaded of Some (Inl e) \<Rightarrow> meta0\<lparr>mtSelectionError := Error e\<rparr> | _ \<Rightarrow> meta0);
                 groups = makeGroups (inHistory inp);
                 keep = map gpID groups
             in
             (case fixed_text env native inp prefix req0 of
                Inl e \<Rightarrow> Inl e
              | Inr ft \<Rightarrow>
                (case checked_count (beCounter env) ft of
                   Inl e \<Rightarrow> Inl e
                 | Inr fixed \<Rightarrow>
                   (let req = (case (if native then None else latest_user (inHistory inp)) of
                           Some m \<Rightarrow> if mContent m = inUserMessage inp
                              then ''Current request is the latest matching user message in Transcript.'' else req0
                         | None \<Rightarrow> req0);
                        budget = max 0 (mtInputBudget meta1 - fixed - framingReserve)
                    in
                    (case history_tokens env native inp of
                       Inl e \<Rightarrow> Inl e
                     | Inr ht \<Rightarrow>
                       (case measured env native inp prefix req groups keep (inWorkingState inp) of
                          Inl e \<Rightarrow> Inl e
                        | Inr r \<Rightarrow>
                          (let meta = meta1\<lparr>mtFixedTokens := fixed, mtHistoryBudget := budget,
                                 mtFastThreshold := \<lfloor>rat_of_int budget * inFastThreshold inp\<rfloor>, mtHistoryTokens := ht,
                                 mtRawChars := int (length (rdPrompt r)), mtRawTokens := rdTokens r\<rparr>
                           in if ht \<ge> mtFastThreshold meta \<or> over inp (mtInputBudget meta) r
                              then build_reduce env native inp prefix req groups keep meta
                              else build_end env inp prefix req (inWorkingState inp) groups keep r meta)))))))))))"

subsection \<open>What rendering, scoring and eviction keep\<close>

lemma checked_count_done: "checked_count cnt s = Inr n \<Longrightarrow> cnt s = Inr n \<and> 0 \<le> n"
  by (auto simp: checked_count_def split: sum.splits if_splits)

lemma measured_done:
  assumes "measured env native inp prefix req groups keep state = Inr r"
  shows "rdMessages r = kept_messages keep groups"
    and "beCounter env (rdPrompt r) = Inr (rdTokens r - framingReserve)"
    and "rdNative r = (if native then text_message ''system'' (paragraphs [prefix, inMemory inp, inActiveSkills inp, inSkills inp, state])
           # rdMessages r @ [text_message ''user'' (inUserMessage inp)] else [])"
  using assms by (auto simp: measured_def render_def Let_def split: sum.splits if_splits dest!: checked_count_done)

definition same_turns :: "group list \<Rightarrow> group list \<Rightarrow> bool" where
  "same_turns gs hs \<longleftrightarrow> map (\<lambda>g. (gpID g, gpMessages g, gpProtected g)) gs = map (\<lambda>g. (gpID g, gpMessages g, gpProtected g)) hs"

lemma same_turns_refl [simp]: "same_turns gs gs"
  by (simp add: same_turns_def)

lemma same_turns_apply_scores [simp]: "same_turns (apply_scores el scores gs) gs"
  by (auto simp: same_turns_def apply_scores_def split: option.splits)

lemma same_turns_kept: "same_turns gs hs \<Longrightarrow> kept_messages keep gs = kept_messages keep hs"
proof (induction gs arbitrary: hs)
  case Nil
  then show ?case by (simp add: same_turns_def)
next
  case (Cons g gs)
  then obtain h hs' where "hs = h # hs'" by (cases hs) (auto simp: same_turns_def)
  with Cons show ?case by (auto simp: same_turns_def kept_messages_def)
qed

lemma same_turns_ids: "same_turns gs hs \<Longrightarrow> map gpID gs = map gpID hs"
  unfolding same_turns_def by (metis (mono_tags, lifting) comp_apply fst_conv list.map_comp map_eq_conv)

lemma same_turns_protected:
  "same_turns gs hs \<Longrightarrow> (\<exists>g \<in> set gs. gpProtected g = b \<and> gpID g = x) \<longleftrightarrow> (\<exists>h \<in> set hs. gpProtected h = b \<and> gpID h = x)"
proof -
  assume "same_turns gs hs"
  then have "set (map (\<lambda>g. (gpID g, gpMessages g, gpProtected g)) gs) = set (map (\<lambda>g. (gpID g, gpMessages g, gpProtected g)) hs)"
    by (simp add: same_turns_def)
  then show ?thesis by (auto simp: image_def set_eq_iff) metis+
qed

lemma evict_done:
  assumes "evict rk io cands keep r = Inr (k, r1, d)" and "rk keep = Inr r"
  shows "rk k = Inr r1 \<and> set k \<subseteq> set keep
     \<and> (\<forall>x \<in> set keep - set k. \<exists>g \<in> set cands. \<not> gpProtected g \<and> gpID g = x)
     \<and> (io r1 \<longrightarrow> (\<forall>g \<in> set cands. \<not> gpProtected g \<longrightarrow> gpID g \<notin> set k))"
  using assms
proof (induction rk io cands keep r arbitrary: d rule: evict.induct)
  case (1 rk io keep r)
  then show ?case by simp
next
  case (2 rk io g gs keep r)
  show ?case
  proof (cases "io r")
    case False
    then show ?thesis using 2 by auto
  next
    case over: True
    show ?thesis
    proof (cases "gpProtected g")
      case True
      then show ?thesis using 2 over by auto
    next
      case False
      let ?k = "removeAll (gpID g) keep"
      obtain r2 where r2: "rk ?k = Inr r2" using 2(3) over False by (auto simp: Let_def split: sum.splits)
      obtain d2 where d2: "evict rk io gs ?k r2 = Inr (k, r1, d2)"
        using 2(3) over False r2 by (auto simp: Let_def split: sum.splits)
      have IH: "rk k = Inr r1 \<and> set k \<subseteq> set ?k
          \<and> (\<forall>x \<in> set ?k - set k. \<exists>g \<in> set gs. \<not> gpProtected g \<and> gpID g = x)
          \<and> (io r1 \<longrightarrow> (\<forall>g \<in> set gs. \<not> gpProtected g \<longrightarrow> gpID g \<notin> set k))"
        using 2(2) [OF _ False refl r2 d2 r2] over by simp
      then show ?thesis using False by auto
    qed
  qed
qed

lemma set_fallbackSelection: "gpID ` {g \<in> set groups. gpProtected g} \<subseteq> set (fallbackSelection groups)"
  by (auto simp: fallbackSelection_def set_protectedSelection)

text \<open>What the choice of groups guarantees, whoever proposes it.\<close>

lemma choose_groups_done:
  assumes "choose_groups env native inp prefix req groups (map gpID groups) meta = Inr c"
  shows "same_turns (chGroups c) groups" and "g \<in> set groups \<Longrightarrow> gpProtected g \<Longrightarrow> gpID g \<in> set (chKeep c)"
proof -
  let ?c0 = "no_choice inp groups (map gpID groups) meta"
  have c0: "chGroups ?c0 = groups" "chKeep ?c0 = map gpID groups" by (simp_all add: no_choice_def)
  have rule: "same_turns (chGroups (by_rule x)) groups \<and> (g \<in> set groups \<longrightarrow> gpProtected g \<longrightarrow> gpID g \<in> set (chKeep (by_rule x)))"
    if "same_turns (chGroups x) groups" "g \<in> set groups \<Longrightarrow> gpProtected g \<Longrightarrow> gpID g \<in> set (chKeep x)" for x g
  proof -
    have "gpID g \<in> set (fallbackSelection (chGroups x))" if g: "g \<in> set groups" "gpProtected g"
    proof -
      obtain h where "h \<in> set (chGroups x)" "gpProtected h" "gpID h = gpID g"
        using same_turns_protected [OF \<open>same_turns (chGroups x) groups\<close>, of True "gpID g"] g by auto
      then show ?thesis using set_fallbackSelection by (metis (mono_tags, lifting) image_eqI mem_Collect_eq subsetD)
    qed
    with that show ?thesis by (auto simp: by_rule_def)
  qed
  have cu: "same_turns (chGroups (curated ?c0 a)) groups \<and> (g \<in> set groups \<longrightarrow> gpProtected g \<longrightarrow> gpID g \<in> set (chKeep (curated ?c0 a)))" for a g
    by (auto simp: curated_def c0 Let_def protected_kept split: prod.splits option.splits)
  have se: "same_turns (chGroups (selected ?c0 a)) groups \<and> (g \<in> set groups \<longrightarrow> gpProtected g \<longrightarrow> gpID g \<in> set (chKeep (selected ?c0 a)))" for a g
    by (auto simp: selected_def c0 split: sum.splits option.splits)
  define Q where "Q x \<longleftrightarrow> same_turns (chGroups x) groups \<and> (\<forall>g. g \<in> set groups \<longrightarrow> gpProtected g \<longrightarrow> gpID g \<in> set (chKeep x))" for x :: choice
  have Q0: "Q (by_rule ?c0)" using rule [of ?c0] by (simp add: Q_def c0)
  have Qc: "Q (by_rule (curated ?c0 a))" for a using rule [of "curated ?c0 a"] cu [of a] by (simp add: Q_def)
  have Qs: "Q (by_rule (selected ?c0 a))" for a using rule [of "selected ?c0 a"] se [of a] by (simp add: Q_def)
  have "Q c"
  proof (cases "groups = []")
    case True
    then have "c = by_rule ?c0" using assms by (simp add: choose_groups_def)
    then show ?thesis using Q0 by simp
  next
    case False
    then show ?thesis using assms unfolding choose_groups_def Let_def
      by (auto simp only: Q0 Qc Qs sum.inject split: if_splits option.splits)
  qed
  then show "same_turns (chGroups c) groups" "g \<in> set groups \<Longrightarrow> gpProtected g \<Longrightarrow> gpID g \<in> set (chKeep c)"
    by (simp_all add: Q_def)
qed

lemma build_end_done:
  assumes "build_end env inp prefix req state groups keep r meta = Inr b"
  shows "bdPrompt b = rdPrompt r" "bdHistory b = rdMessages r" "bdNative b = rdNative r" "\<not> over inp (mtInputBudget meta) r"
    and "ValidateClosure (rdMessages r) = None" "mtPromptTokens (bdMeta b) = rdTokens r" "mtInputBudget (bdMeta b) = mtInputBudget meta"
    and "mtSelectedGroups (bdMeta b) = map gpID (filter (\<lambda>g. gpID g \<in> set keep) groups)"
  using assms by (auto simp: build_end_def split: sum.splits option.splits if_splits)

text \<open>Every successful build ends in \<open>build_end\<close>, over the groups of the history and a kept set that holds
  the protected ones.\<close>

definition build_sound ::
  "build_env \<Rightarrow> bool \<Rightarrow> input \<Rightarrow> string \<Rightarrow> string \<Rightarrow> int \<Rightarrow> built \<Rightarrow> bool"
where
  "build_sound env native inp prefix req budget b \<longleftrightarrow>
     (\<exists>gs keep state r meta. same_turns gs (makeGroups (inHistory inp)) \<and> measured env native inp prefix req gs keep state = Inr r
        \<and> build_end env inp prefix req state gs keep r meta = Inr b \<and> mtInputBudget meta = budget
        \<and> (\<forall>g \<in> set (makeGroups (inHistory inp)). gpProtected g \<longrightarrow> gpID g \<in> set keep))"

lemma build_reduce_sound:
  assumes "build_reduce env native inp prefix req (makeGroups (inHistory inp)) (map gpID (makeGroups (inHistory inp))) meta = Inr b"
  shows "build_sound env native inp prefix req (mtInputBudget meta) b"
proof -
  let ?gs = "makeGroups (inHistory inp)"
  obtain c where c: "choose_groups env native inp prefix req ?gs (map gpID ?gs) meta = Inr c"
    using assms by (auto simp: build_reduce_def split: sum.splits)
  let ?again = "\<lambda>keep. measured env native inp prefix req (chGroups c) keep (chState c)"
  obtain r where r: "?again (chKeep c) = Inr r" using assms by (auto simp: build_reduce_def c Let_def split: sum.splits)
  obtain keep r1 d where e: "evict ?again (over inp (mtInputBudget meta)) (sort_key gpScore (chGroups c)) (chKeep c) r = Inr (keep, r1, d)"
    using assms by (auto simp: build_reduce_def c r Let_def split: sum.splits)
  obtain meta1 where m: "build_end env inp prefix req (chState c) (chGroups c) keep r1 meta1 = Inr b" "mtInputBudget meta1 = mtInputBudget meta"
    using assms by (auto simp: build_reduce_def c r e Let_def)
  note ev = evict_done [OF e r]
  have "gpID g \<in> set keep" if g: "g \<in> set ?gs" "gpProtected g" for g
  proof (rule ccontr)
    assume no: "gpID g \<notin> set keep"
    have "gpID g \<in> set (chKeep c)" using choose_groups_done(2) [OF c g] .
    then have "gpID g \<in> set (chKeep c) - set keep" using no by blast
    then obtain h where h: "h \<in> set (chGroups c)" "\<not> gpProtected h" "gpID h = gpID g" using ev by (metis set_sort)
    then obtain g' where "g' \<in> set ?gs" "\<not> gpProtected g'" "gpID g' = gpID g"
      using same_turns_protected [OF choose_groups_done(1) [OF c], of False "gpID g"] by auto
    with g makeGroups_distinct [of "inHistory inp"] show False by (metis distinct_map inj_on_def)
  qed
  with ev m choose_groups_done(1) [OF c] show ?thesis unfolding build_sound_def by blast
qed

lemma build_defaults_history: "inHistory (build_defaults inp) = inHistory inp" "inUserMessage (build_defaults inp) = inUserMessage inp"
    "inMaxChars (build_defaults inp) = inMaxChars inp"
  by (simp_all add: build_defaults_def Let_def)

text \<open>The history a native build starts from.\<close>

definition considered :: "bool \<Rightarrow> input \<Rightarrow> message list" where
  "considered native inp = (if native then inHistory (drop_current inp) else inHistory inp)"

lemma drop_current_fields [simp]: "inUserMessage (drop_current inp) = inUserMessage inp" "inMaxTokens (drop_current inp) = inMaxTokens inp"
    "inOutputReserve (drop_current inp) = inOutputReserve inp" "inMaxChars (drop_current inp) = inMaxChars inp"
  by (simp_all add: drop_current_def Let_def)

lemma BuildChecked_sound:
  assumes "BuildChecked env native inp0 = Inr b"
  obtains inp prefix req where "ValidateClosure (inHistory inp0) = None" "budget_error (build_defaults inp0) = None"
    "inHistory inp = considered native inp0" "inUserMessage inp = inUserMessage inp0" "inMaxChars inp = inMaxChars inp0"
    "build_sound env native inp prefix req (inMaxTokens (build_defaults inp0) - inOutputReserve (build_defaults inp0)) b"
proof -
  have c: "beCtx env = None" "ValidateClosure (inHistory inp0) = None" "budget_error (build_defaults inp0) = None"
    using assms by (auto simp: BuildChecked_def Let_def split: if_splits option.splits)
  define inp1 where "inp1 = build_defaults inp0"
  define prefix where "prefix = (if native then buildNativePrefix (inWorkspace inp1) else buildPrefix (inWorkspace inp1) (inTools inp1))"
  define inp2 where "inp2 = (if native then drop_current inp1 else inp1)"
  define req0 where "req0 = ''Current request:'' @ newline @ inUserMessage inp2"
  define meta0 where "meta0 = build_meta env inp2 prefix"
  define loaded where "loaded = (if inWorkingState inp2 = '''' then beSaved env else None)"
  define inp where "inp = (case loaded of Some (Inr st) \<Rightarrow> inp2\<lparr>inWorkingState := st\<rparr> | _ \<Rightarrow> inp2)"
  define meta1 where "meta1 = (case loaded of Some (Inl e) \<Rightarrow> meta0\<lparr>mtSelectionError := Error e\<rparr> | _ \<Rightarrow> meta0)"
  define groups where "groups = makeGroups (inHistory inp)"
  note c1 = c(1,2) c(3) [folded inp1_def]
  note B = assms [unfolded BuildChecked_def Let_def c(1,2) option.case inp1_def [symmetric] prefix_def [symmetric] inp2_def [symmetric]
      req0_def [symmetric] meta0_def [symmetric] loaded_def [symmetric] inp_def [symmetric] meta1_def [symmetric] groups_def [symmetric]]
  have hist: "inHistory inp = considered native inp0"
    by (auto simp: inp_def inp2_def inp1_def considered_def drop_current_def Let_def build_defaults_history split: option.splits sum.splits)
  have fields: "inUserMessage inp = inUserMessage inp0" "inMaxChars inp = inMaxChars inp0"
    by (auto simp: inp_def inp2_def inp1_def build_defaults_history split: option.splits sum.splits)
  have budget: "mtInputBudget meta1 = inMaxTokens inp1 - inOutputReserve inp1"
    by (auto simp: meta1_def meta0_def build_meta_def inp2_def split: option.splits sum.splits)
  obtain ft where ft: "fixed_text env native inp prefix req0 = Inr ft" using B c1 by (auto split: sum.splits if_splits)
  obtain fixed where fixed: "checked_count (beCounter env) ft = Inr fixed" using B c1 by (auto simp: ft split: sum.splits if_splits)
  define req where "req = (case (if native then None else latest_user (inHistory inp)) of
      Some m \<Rightarrow> if mContent m = inUserMessage inp then ''Current request is the latest matching user message in Transcript.'' else req0
    | None \<Rightarrow> req0)"
  note B2 = B [unfolded ft fixed sum.case req_def [symmetric]]
  obtain ht where ht: "history_tokens env native inp = Inr ht" using B2 c1 by (auto split: sum.splits if_splits)
  obtain r where r: "measured env native inp prefix req groups (map gpID groups) (inWorkingState inp) = Inr r"
    using B2 c1 by (auto simp: ht split: sum.splits if_splits)
  define meta where "meta = meta1\<lparr>mtFixedTokens := fixed, mtHistoryBudget := max 0 (mtInputBudget meta1 - fixed - framingReserve),
      mtFastThreshold := \<lfloor>rat_of_int (max 0 (mtInputBudget meta1 - fixed - framingReserve)) * inFastThreshold inp\<rfloor>, mtHistoryTokens := ht,
      mtRawChars := int (length (rdPrompt r)), mtRawTokens := rdTokens r\<rparr>"
  note B3 = B2 [unfolded ht r sum.case meta_def [symmetric]]
  have meta1: "mtInputBudget meta = mtInputBudget meta1" by (simp add: meta_def)
  have meta: "build_reduce env native inp prefix req groups (map gpID groups) meta = Inr b
       \<or> build_end env inp prefix req (inWorkingState inp) groups (map gpID groups) r meta = Inr b"
    using B3 c1 by (simp split: if_splits)
  have "build_sound env native inp prefix req (mtInputBudget meta1) b"
    using meta
  proof
    assume "build_reduce env native inp prefix req groups (map gpID groups) meta = Inr b"
    then show ?thesis using build_reduce_sound [of env native inp prefix req meta b] meta1 by (simp add: groups_def)
  next
    assume "build_end env inp prefix req (inWorkingState inp) groups (map gpID groups) r meta = Inr b"
    then show ?thesis using r meta1 unfolding build_sound_def groups_def by (metis imageI list.set_map same_turns_refl)
  qed
  then show thesis using that c hist fields budget by (simp add: inp1_def)
qed

subsection \<open>Properties\<close>

text \<open>Reduction cannot break a tool exchange: if the history validates, then whatever set of group IDs
  a model, a rule or the eviction keeps, the messages of the kept groups validate on their own.\<close>

theorem whole_turns_stay_closed:
  assumes "ValidateClosure history = None"
  shows "ValidateClosure (kept_messages keep (makeGroups history)) = None"
  using makeGroups_closed [OF assms] .

definition demo_history :: "message list" where
  "demo_history = [text_message ''user'' ''a'', text_message ''assistant'' ''b'', text_message ''user'' ''c'']"

lemma whole_turns_stay_closed_witness: "ValidateClosure (kept_messages [1] (makeGroups demo_history)) = None"
proof -
  have "ValidateClosure demo_history = None"
    by (simp add: demo_history_def ValidateClosure_def closure_msg_def text_message_def)
  then show ?thesis by (rule whole_turns_stay_closed)
qed

definition demo_build_env :: build_env where
  "demo_build_env = \<lparr>beCtx = None, beCtxSelected = None, beCounter = (\<lambda>_. Inr 1), beDecode = (\<lambda>_. Inl EOF), beEncode = (\<lambda>_. Inr ''j''),
     beCompact = (\<lambda>_. ''j''), beSha = id, beSaved = None, beCurator = None, beSelector = None\<rparr>"

definition demo_input :: input where
  "demo_input = \<lparr>inWorkspace = '''', inMemory = '''', inUserMessage = ''c'', inSkills = '''', inActiveSkills = '''', inWorkingState = '''',
     inHistory = demo_history, inTools = [], inMaxChars = 0, inMaxTokens = 0, inOutputReserve = 0, inFastThreshold = 0, inSelectorTimeout = 0\<rparr>"

lemma demo_history_closed: "ValidateClosure demo_history = None" "demo_history \<noteq> []"
  by (simp_all add: demo_history_def ValidateClosure_def closure_msg_def text_message_def)

lemma demo_build: "\<exists>b. BuildChecked demo_build_env False demo_input = Inr b"
proof -
  have d: "build_defaults demo_input = demo_input\<lparr>inMaxTokens := 65536, inOutputReserve := 8192, inFastThreshold := 3 / 5, inSelectorTimeout := 30 * Second\<rparr>"
    by (simp add: build_defaults_def demo_input_def DefaultContextWindow_def DefaultOutputReserve_def DefaultFastThreshold_def)
  have b: "budget_error (demo_input\<lparr>inMaxTokens := 65536, inOutputReserve := 8192, inFastThreshold := 3 / 5, inSelectorTimeout := 30 * Second\<rparr>) = None"
    by (simp add: budget_error_def demo_input_def Second_def)
  have c: "checked_count (\<lambda>_. Inr 1) = (\<lambda>_. Inr 1)" by (simp add: checked_count_def fun_eq_iff)
  have h: "inHistory demo_input = demo_history" "inWorkingState demo_input = ''''" "inMaxChars demo_input = 0" by (simp_all add: demo_input_def)
  have k: "ValidateClosure (kept_messages keep (makeGroups demo_history)) = None" for keep
    using makeGroups_closed [OF demo_history_closed(1)] .
  show ?thesis
    by (simp add: BuildChecked_def demo_history_closed d b c h k Let_def demo_build_env_def fixed_text_def history_tokens_def measured_def render_def
        build_meta_def over_def build_end_def paragraphs_def framingReserve_def)
qed

text \<open>C18. A built request fits: the counter, applied to exactly the prompt that is returned, plus the framing
  reserve is within the context window less the output reserve, the byte ceiling holds when one
  is set, and the metadata reports that count.\<close>

theorem built_request_fits:
  assumes "BuildChecked env native inp = Inr b"
  shows "\<exists>n. beCounter env (bdPrompt b) = Inr n
     \<and> n + framingReserve \<le> inMaxTokens (build_defaults inp) - inOutputReserve (build_defaults inp)
     \<and> mtPromptTokens (bdMeta b) = n + framingReserve
     \<and> (inMaxChars inp > 0 \<longrightarrow> int (length (bdPrompt b)) \<le> inMaxChars inp)"
proof -
  from assms obtain inp1 prefix req where s: "inMaxChars inp1 = inMaxChars inp"
      "build_sound env native inp1 prefix req (inMaxTokens (build_defaults inp) - inOutputReserve (build_defaults inp)) b"
    by (rule BuildChecked_sound)
  from s(2) obtain gs keep state r meta where m: "measured env native inp1 prefix req gs keep state = Inr r"
      "build_end env inp1 prefix req state gs keep r meta = Inr b"
      "mtInputBudget meta = inMaxTokens (build_defaults inp) - inOutputReserve (build_defaults inp)"
    unfolding build_sound_def by blast
  from measured_done [OF m(1)] build_end_done [OF m(2)] m(3) s(1) show ?thesis by (auto simp: over_def)
qed

lemma built_request_fits_witness:
  "\<exists>b. BuildChecked demo_build_env False demo_input = Inr b \<and> mtPromptTokens (bdMeta b) = 9"
proof -
  obtain b where b: "BuildChecked demo_build_env False demo_input = Inr b" using demo_build by blast
  from built_request_fits [OF b] b show ?thesis by (auto simp: demo_build_env_def framingReserve_def)
qed

text \<open>What a built request contains: its history is the concatenation of whole user turns of the given
  history (in native mode without the trailing copy of the current request), with every
  protected turn (the ones that hold the first six messages and the latest) among them and the
  reported group IDs exactly those turns; a native request is one system message, that history
  and the current request last.\<close>

theorem built_history_is_whole_turns:
  assumes "BuildChecked env native inp = Inr b"
  shows "let groups = makeGroups (considered native inp) in
     \<exists>keep. bdHistory b = kept_messages keep groups
       \<and> mtSelectedGroups (bdMeta b) = map gpID (filter (\<lambda>g. gpID g \<in> set keep) groups)
       \<and> (\<forall>g \<in> set groups. gpProtected g \<longrightarrow> gpID g \<in> set keep)
       \<and> concat (map gpMessages groups) = considered native inp \<and> turns (map gpMessages groups)
       \<and> (native \<longrightarrow> (\<exists>sys. bdNative b = text_message ''system'' sys # bdHistory b @ [text_message ''user'' (inUserMessage inp)]))"
proof -
  from assms obtain inp1 prefix req where s: "inHistory inp1 = considered native inp" "inUserMessage inp1 = inUserMessage inp"
      "build_sound env native inp1 prefix req (inMaxTokens (build_defaults inp) - inOutputReserve (build_defaults inp)) b"
    by (rule BuildChecked_sound)
  from s(3) obtain gs keep state r meta where m: "same_turns gs (makeGroups (considered native inp))"
      "measured env native inp1 prefix req gs keep state = Inr r" "build_end env inp1 prefix req state gs keep r meta = Inr b"
      "\<forall>g \<in> set (makeGroups (considered native inp)). gpProtected g \<longrightarrow> gpID g \<in> set keep"
    unfolding build_sound_def s(1) by blast
  note D = measured_done [OF m(2)] and E = build_end_done [OF m(3)]
  have sel: "map gpID (filter (\<lambda>g. gpID g \<in> set keep) gs) = filter (\<lambda>x. x \<in> set keep) (map gpID gs)" for gs :: "group list"
    by (induction gs) auto
  have "mtSelectedGroups (bdMeta b) = map gpID (filter (\<lambda>g. gpID g \<in> set keep) (makeGroups (considered native inp)))"
    using E same_turns_ids [OF m(1)] by (simp add: sel)
  moreover have "bdHistory b = kept_messages keep (makeGroups (considered native inp))"
    using D(1) E(2) same_turns_kept [OF m(1)] by simp
  moreover have "native \<Longrightarrow> \<exists>sys. bdNative b = text_message ''system'' sys # bdHistory b @ [text_message ''user'' (inUserMessage inp)]"
    using D(3) E(2,3) s(2) by auto
  ultimately show ?thesis
    using m(4) by (auto simp: Let_def makeGroups_messages concat_split_turns turns_split_turns)
qed

lemma built_history_is_whole_turns_witness:
  "\<exists>b keep. BuildChecked demo_build_env False demo_input = Inr b \<and> bdHistory b = kept_messages keep (makeGroups demo_history)"
proof -
  obtain b where b: "BuildChecked demo_build_env False demo_input = Inr b" using demo_build by blast
  have "considered False demo_input = demo_history" by (simp add: considered_def demo_input_def)
  with built_history_is_whole_turns [OF b] b show ?thesis by (auto simp: Let_def)
qed

text \<open>Eviction is minimal: it drops groups only while the request is over its budget, lowest score
  first, never a protected one, and stops over the budget only when no group that may be dropped
  is left; the request it returns is the one rendered from the groups it keeps.\<close>

theorem eviction_keeps_protected:
  assumes "evict render_keep is_over cands keep r = Inr (k, r1, dropped)" and "render_keep keep = Inr r"
  shows "render_keep k = Inr r1 \<and> set k \<subseteq> set keep
     \<and> (\<forall>x \<in> set keep - set k. \<exists>g \<in> set cands. \<not> gpProtected g \<and> gpID g = x)
     \<and> (is_over r1 \<longrightarrow> (\<forall>g \<in> set cands. \<not> gpProtected g \<longrightarrow> gpID g \<notin> set k))
     \<and> (\<not> is_over r \<longrightarrow> k = keep \<and> r1 = r)"
proof -
  have "k = keep \<and> r1 = r" if "\<not> is_over r" using assms(1) that by (cases cands) auto
  with evict_done [OF assms] show ?thesis by blast
qed

definition demo_rendered :: "int list \<Rightarrow> gerr + rendered" where
  "demo_rendered keep = Inr \<lparr>rdPrompt = '''', rdMessages = [], rdNative = [], rdTokens = int (length keep)\<rparr>"

lemma eviction_keeps_protected_witness:
  "\<exists>k r. evict demo_rendered (\<lambda>r. rdTokens r > 1) [\<lparr>gpID = 4, gpMessages = [], gpPreview = '''', gpProtected = False, gpScore = 0, gpArchiveRef = ''''\<rparr>]
     [4, 5] \<lparr>rdPrompt = '''', rdMessages = [], rdNative = [], rdTokens = 2\<rparr> = Inr (k, r, True) \<and> demo_rendered k = Inr r \<and> 4 \<notin> set k"
proof -
  let ?g = "\<lparr>gpID = 4, gpMessages = [], gpPreview = '''', gpProtected = False, gpScore = 0, gpArchiveRef = ''''\<rparr> :: group"
  let ?r = "\<lparr>rdPrompt = '''', rdMessages = [], rdNative = [], rdTokens = 1\<rparr>"
  have e: "evict demo_rendered (\<lambda>r. rdTokens r > 1) [?g] [4, 5] \<lparr>rdPrompt = '''', rdMessages = [], rdNative = [], rdTokens = 2\<rparr>
      = Inr ([5], ?r, True)"
    by (simp add: demo_rendered_def Let_def)
  from eviction_keeps_protected [OF e] e show ?thesis by (auto simp: demo_rendered_def)
qed

end
