(* ===== verification/Curator.thy ===== *)
theory Curator
  imports Context Durable
begin

section \<open>The history curator\<close>

text \<open>
  \<open>internal/contextbuilder/curator_loop.go\<close> and \<open>curator_store.go\<close>: a bounded dialogue in which a model
  searches, scores and archives history groups and proposes a selection, and the confined store of
  its archives, scores and working state. Model answers, the strict JSON decoder, encodings with
  redaction, the hash, memory recall and the errors of the file system and of the context are
  arguments; the fixed instruction text is one too. Text is lower-cased and split as ASCII.
\<close>

subsection \<open>Bounded views\<close>

record working_state =
  wsGoals :: "string list"
  wsOpenThreads :: "string list"
  wsDecisions :: "string list"

definition no_state :: working_state where
  "no_state = \<lparr>wsGoals = [], wsOpenThreads = [], wsDecisions = []\<rparr>"

fun limit_items :: "nat \<Rightarrow> string list \<Rightarrow> string list" where
  "limit_items n [] = []"
| "limit_items 0 (v # vs) = []"
| "limit_items (Suc n) (v # vs) = (if TrimSpace v \<noteq> '''' then runePreview (TrimSpace v) 420 # limit_items n vs
     else limit_items (Suc n) vs)"

definition boundedState :: "working_state \<Rightarrow> working_state" where
  "boundedState s = \<lparr>wsGoals = limit_items 8 (wsGoals s), wsOpenThreads = limit_items 12 (wsOpenThreads s),
     wsDecisions = limit_items 20 (wsDecisions s)\<rparr>"

function shrink_text :: "counter \<Rightarrow> int \<Rightarrow> string list \<Rightarrow> gerr + string" where
  "shrink_text cnt budget rs =
     (if rs = [] then Inr ''''
      else (let rs1 = take (length rs * 3 div 4) rs; c = concat rs1 @ '' [truncated]'' in
        (case cnt c of Inl e \<Rightarrow> Inl e
         | Inr n \<Rightarrow> if n \<le> budget then Inr c else shrink_text cnt budget rs1)))"
  by pat_completeness auto

termination
proof (relation "measure (\<lambda>(cnt, budget, rs). length rs)", simp, clarify)
  fix budget and rs :: "string list"
  assume "rs \<noteq> []"
  then have "length rs * 3 div 4 < length rs" by (cases rs) auto
  then show "((cnt, budget, take (length rs * 3 div 4) rs), cnt, budget, rs) \<in> measure (\<lambda>(cnt, budget, rs). length rs)" for cnt :: counter
    by simp
qed

declare shrink_text.simps [simp del]

definition boundedText :: "counter \<Rightarrow> string \<Rightarrow> int \<Rightarrow> gerr + string" where
  "boundedText cnt text budget = (case cnt text of Inl e \<Rightarrow> Inl e
     | Inr n \<Rightarrow> if n \<le> budget then Inr text else shrink_text cnt budget (runes text))"

record view =
  vwGroup :: int
  vwText :: string
  vwTruncated :: bool

fun view_messages ::
  "counter \<Rightarrow> (message \<Rightarrow> gerr + string) \<Rightarrow> int \<Rightarrow> (int \<times> message) list \<Rightarrow> int \<Rightarrow> view list \<Rightarrow> gerr + (view list \<times> int)"
where
  "view_messages cnt enc budget [] used vs = Inr (vs, used)"
| "view_messages cnt enc budget ((i, m) # rest) used vs =
     (if used \<ge> budget then Inr (vs, used)
      else (case enc m of Inl e \<Rightarrow> Inl e
        | Inr b \<Rightarrow> (case boundedText cnt b (budget - used) of Inl e \<Rightarrow> Inl e
          | Inr t \<Rightarrow> (case cnt t of Inl e \<Rightarrow> Inl e
            | Inr n \<Rightarrow> view_messages cnt enc budget rest (used + n) (vs @ [\<lparr>vwGroup = i, vwText = t, vwTruncated = (t \<noteq> b)\<rparr>])))))"

definition boundedGroups :: "counter \<Rightarrow> (message \<Rightarrow> gerr + string) \<Rightarrow> group list \<Rightarrow> int \<Rightarrow> gerr + (view list \<times> int)" where
  "boundedGroups cnt enc groups budget =
     view_messages cnt enc budget (concat (map (\<lambda>g. map (\<lambda>m. (gpID g, m)) (gpMessages g)) groups)) 0 []"

definition lower_char :: "char \<Rightarrow> char" where
  "lower_char c = (let n = of_char c :: nat in if 65 \<le> n \<and> n \<le> 90 then char_of (n + 32) else c)"

definition word_char :: "char \<Rightarrow> bool" where
  "word_char c = (let n = of_char c :: nat in 48 \<le> n \<and> n \<le> 57 \<or> 65 \<le> n \<and> n \<le> 90 \<or> 97 \<le> n \<and> n \<le> 122 \<or> c = CHR ''_'')"

definition hit_count :: "string list \<Rightarrow> group \<Rightarrow> nat" where
  "hit_count words g = length (filter (\<lambda>w. Contains (map lower_char (renderHistory (gpMessages g))) w) words)"

definition searchGroups :: "group list \<Rightarrow> string \<Rightarrow> group list" where
  "searchGroups groups query =
     (let words = fields_by word_char (map lower_char query) '''';
          hits = filter (\<lambda>(g, n). n > 0) (map (\<lambda>g. (g, hit_count words g)) groups)
      in take 20 (map (\<lambda>(g, n). g\<lparr>gpMessages := []\<rparr>) (sort_key (\<lambda>(g, n). - int n) hits)))"

subsection \<open>The store\<close>

record store_env =
  seRead :: "string \<Rightarrow> gerr option"
  seWrite :: "string \<Rightarrow> string \<Rightarrow> replaced"
  seSha :: "string \<Rightarrow> string"
  seEncState :: "working_state \<Rightarrow> gerr + string"
  seDecState :: "string \<Rightarrow> gerr + working_state"
  seEncRecord :: "int \<times> message \<Rightarrow> gerr + string"
  seDecRecord :: "string \<Rightarrow> gerr + (int \<times> message)"
  seEncScores :: "(string \<times> rat \<times> string) list \<Rightarrow> gerr + string"
  seDecScores :: "string \<Rightarrow> gerr + (string \<times> rat \<times> string) list"
  seFingerprint :: "message list \<Rightarrow> string"

type_synonym files = "string gomap"

definition max_archive :: nat where "max_archive = 67108864"

definition store_write :: "store_env \<Rightarrow> string \<Rightarrow> string \<Rightarrow> files \<Rightarrow> gerr option \<times> files" where
  "store_write se name content fs =
     (case seWrite se name content of
        Replaced \<Rightarrow> (None, mput name content fs)
      | NotReplaced e \<Rightarrow> (Some e, fs)
      | Unsynced e \<Rightarrow> (Some e, mput name content fs))"

text \<open>\<open>Inr None\<close> is a missing file.\<close>

definition store_read :: "store_env \<Rightarrow> string \<Rightarrow> files \<Rightarrow> gerr + string option" where
  "store_read se name fs =
     (case mget fs name of
        None \<Rightarrow> Inr None
      | Some b \<Rightarrow> (case seRead se name of
          Some e \<Rightarrow> Inl e
        | None \<Rightarrow> if length b > max_archive then Inl (Msg ''curator archive too large'') else Inr (Some b)))"

definition readState :: "store_env \<Rightarrow> files \<Rightarrow> gerr + working_state" where
  "readState se fs = (case store_read se ''working-state.json'' fs of
      Inl e \<Rightarrow> Inl e
    | Inr None \<Rightarrow> Inr no_state
    | Inr (Some b) \<Rightarrow> (case seDecState se b of Inl e \<Rightarrow> Inl e | Inr s \<Rightarrow> Inr (boundedState s)))"

definition writeState :: "store_env \<Rightarrow> working_state \<Rightarrow> files \<Rightarrow> gerr option \<times> files" where
  "writeState se s fs = (case seEncState se (boundedState s) of
      Inl e \<Rightarrow> (Some e, fs) | Inr b \<Rightarrow> store_write se ''working-state.json'' b fs)"

fun archive_bytes :: "store_env \<Rightarrow> (int \<times> message) list \<Rightarrow> string \<Rightarrow> gerr + string" where
  "archive_bytes se [] b = Inr b"
| "archive_bytes se (r # rs) b = (case seEncRecord se r of
      Inl e \<Rightarrow> Inl e
    | Inr line \<Rightarrow> (let b1 = b @ line @ newline in
        if length b1 > max_archive then Inl (Msg ''curator archive exceeds 64 MiB'') else archive_bytes se rs b1))"

definition archive_records :: "group list \<Rightarrow> (int \<times> message) list" where
  "archive_records groups = concat (map (\<lambda>g. map (\<lambda>m. (gpID g, m)) (gpMessages g)) groups)"

definition archive :: "store_env \<Rightarrow> group list \<Rightarrow> files \<Rightarrow> (gerr + string) \<times> files" where
  "archive se groups fs =
     (case archive_bytes se (archive_records groups) '''' of
        Inl e \<Rightarrow> (Inl e, fs)
      | Inr b \<Rightarrow> (let ref = seSha se b @ ''.jsonl'' in
          (case store_write se ref b fs of (Some e, fs1) \<Rightarrow> (Inl e, fs1) | (None, fs1) \<Rightarrow> (Inr ref, fs1))))"

definition hex_char :: "char \<Rightarrow> bool" where
  "hex_char c \<longleftrightarrow> c \<in> set ''0123456789abcdef''"

definition archive_ref :: "string \<Rightarrow> bool" where
  "archive_ref ref \<longleftrightarrow> length ref = 70 \<and> list_all hex_char (take 64 ref) \<and> drop 64 ref = ''.jsonl''"

text \<open>\<open>bufio.Scanner\<close> over lines: the lines of a text, without their ends; a carriage return before a
  newline is dropped too, and a line that fills the buffer is an error.\<close>

definition drop_return :: "string \<Rightarrow> string" where
  "drop_return w = (if w \<noteq> '''' \<and> last w = CHR 0x0D then butlast w else w)"

fun scan_lines :: "string \<Rightarrow> string \<Rightarrow> string list" where
  "scan_lines [] w = (if w = '''' then [] else [drop_return w])"
| "scan_lines (c # cs) w = (if c = CHR 0x0A then drop_return w # scan_lines cs '''' else scan_lines cs (w @ [c]))"

definition bare_group :: "int \<Rightarrow> message list \<Rightarrow> group" where
  "bare_group i ms = \<lparr>gpID = i, gpMessages = ms, gpPreview = '''', gpProtected = False, gpScore = 0, gpArchiveRef = ''''\<rparr>"

fun add_record :: "int \<times> message \<Rightarrow> group list \<Rightarrow> group list" where
  "add_record (i, m) [] = [bare_group i [m]]"
| "add_record (i, m) (g # gs) = (if gpID g = i then g\<lparr>gpMessages := gpMessages g @ [m]\<rparr> # gs else g # add_record (i, m) gs)"

fun read_records :: "store_env \<Rightarrow> string list \<Rightarrow> group list \<Rightarrow> gerr + group list" where
  "read_records se [] gs = Inr gs"
| "read_records se (l # ls) gs = (if length l \<ge> max_archive then Inl (Msg ''bufio.Scanner: token too long'')
     else (case seDecRecord se l of Inl e \<Rightarrow> Inl e | Inr r \<Rightarrow> read_records se ls (add_record r gs)))"

definition retrieve :: "store_env \<Rightarrow> string \<Rightarrow> files \<Rightarrow> gerr + group list" where
  "retrieve se ref fs =
     (if \<not> archive_ref ref then Inl (Msg ''invalid archive reference'')
      else (case store_read se ref fs of
        Inl e \<Rightarrow> Inl e
      | Inr None \<Rightarrow> Inl (Msg ''file does not exist'')
      | Inr (Some b) \<Rightarrow>
          if ref \<noteq> seSha se b @ ''.jsonl'' then Inl (Msg ''archive checksum mismatch'')
          else read_records se (scan_lines b '''') []))"

definition score_entry_ok :: "rat \<times> string \<Rightarrow> bool" where
  "score_entry_ok e = (case e of (s, ref) \<Rightarrow> \<not> (s < 0 \<or> s > 1 \<or> ref \<noteq> '''' \<and> \<not> archive_ref ref))"

fun load_scores :: "store_env \<Rightarrow> (string \<times> rat \<times> string) list \<Rightarrow> nat \<Rightarrow> nat \<Rightarrow> group list \<Rightarrow> gerr + group list" where
  "load_scores se scores n_all offset [] = Inr []"
| "load_scores se scores n_all offset (g # gs) =
     (case (case map_of scores (seFingerprint se (gpMessages g)) of
              None \<Rightarrow> Inr g
            | Some e \<Rightarrow> if \<not> score_entry_ok e then Inl (Errorf ''invalid persisted relevance'' [])
                else (let s1 = (if int (offset + length (gpMessages g)) > int n_all - 12 then max (fst e) (3 / 4) else fst e);
                          s2 = (if gpProtected g then max s1 (4 / 5) else s1)
                      in Inr (g\<lparr>gpScore := s2, gpArchiveRef := snd e\<rparr>))) of
        Inl x \<Rightarrow> Inl x
      | Inr g1 \<Rightarrow> (case load_scores se scores n_all (offset + length (gpMessages g)) gs of Inl x \<Rightarrow> Inl x | Inr gs1 \<Rightarrow> Inr (g1 # gs1)))"

definition loadScores :: "store_env \<Rightarrow> group list \<Rightarrow> files \<Rightarrow> gerr + group list" where
  "loadScores se groups fs =
     (case store_read se ''relevance.json'' fs of
        Inl e \<Rightarrow> Inl e
      | Inr None \<Rightarrow> Inr groups
      | Inr (Some b) \<Rightarrow> (case seDecScores se b of
          Inl e \<Rightarrow> Inl e
        | Inr scores \<Rightarrow> load_scores se scores (length (concat (map gpMessages groups))) 0 groups))"

definition saveScores :: "store_env \<Rightarrow> group list \<Rightarrow> files \<Rightarrow> gerr option \<times> files" where
  "saveScores se groups fs =
     (case seEncScores se (foldl (\<lambda>m g. AList.update (seFingerprint se (gpMessages g)) (gpScore g, gpArchiveRef g) m) [] groups) of
        Inl e \<Rightarrow> (Some e, fs)
      | Inr b \<Rightarrow> store_write se ''relevance.json'' b fs)"

subsection \<open>An archive is read back as it was written\<close>

lemma archive_bytes_lines:
  assumes "archive_bytes se rs b = Inr out"
  shows "\<exists>ls. out = b @ concat (map (\<lambda>l. l @ newline) ls) \<and> list_all2 (\<lambda>r l. seEncRecord se r = Inr l \<and> length l < max_archive) rs ls
     \<and> (length b \<le> max_archive \<longrightarrow> length out \<le> max_archive)"
  using assms
proof (induction se rs b rule: archive_bytes.induct)
  case (1 se b)
  then show ?case by (intro exI [of _ "[]"]) simp
next
  case (2 se r rs b)
  then obtain line where l: "seEncRecord se r = Inr line" "length (b @ line @ newline) \<le> max_archive"
      "archive_bytes se rs (b @ line @ newline) = Inr out"
    by (auto simp: Let_def split: sum.splits if_splits)
  from 2(1) [OF l(1) refl _ l(3)] l(2) obtain ls where
    "out = (b @ line @ newline) @ concat (map (\<lambda>l. l @ newline) ls)"
    "list_all2 (\<lambda>r l. seEncRecord se r = Inr l \<and> length l < max_archive) rs ls" "length out \<le> max_archive" by auto
  moreover have "length line < max_archive" using l(2) by (simp add: newline_def)
  ultimately show ?case using l(1) by (intro exI [of _ "line # ls"]) simp
qed

lemma scan_line: "CHR 0x0A \<notin> set l \<Longrightarrow> scan_lines (l @ newline @ rest) w = drop_return (w @ l) # scan_lines rest ''''"
  by (induction l arbitrary: w) (auto simp: newline_def)

lemma scan_lines_concat:
  "(\<And>l. l \<in> set ls \<Longrightarrow> CHR 0x0A \<notin> set l \<and> drop_return l = l) \<Longrightarrow> scan_lines (concat (map (\<lambda>l. l @ newline) ls)) '''' = ls"
  by (induction ls) (auto simp: scan_line)

lemma read_records_fold:
  assumes "list_all2 (\<lambda>r l. length l < max_archive \<and> seDecRecord se l = Inr (f r)) rs ls"
  shows "read_records se ls gs = Inr (foldl (\<lambda>gs r. add_record (f r) gs) gs rs)"
  using assms by (induction rs ls arbitrary: gs rule: list_all2_induct) auto

lemma add_record_new: "i \<notin> set (map gpID gs) \<Longrightarrow> add_record (i, m) gs = gs @ [bare_group i [m]]"
  by (induction gs) auto

lemma add_record_last: "i \<notin> set (map gpID gs) \<Longrightarrow> add_record (i, m) (gs @ [bare_group i ms]) = gs @ [bare_group i (ms @ [m])]"
  by (induction gs) (auto simp: bare_group_def)

lemma add_records_group:
  fixes f :: "int \<times> message \<Rightarrow> int \<times> message"
  assumes "i \<notin> set (map gpID gs)" and f: "\<And>m. fst (f (i, m)) = i" and "ms \<noteq> []"
  shows "foldl (\<lambda>gs r. add_record (f r) gs) gs (map (\<lambda>m. (i, m)) ms) = gs @ [bare_group i (map snd (map f (map (\<lambda>m. (i, m)) ms)))]"
proof -
  have fi: "f (i, m) = (i, snd (f (i, m)))" for m using f by (metis prod.collapse)
  have rest: "foldl (\<lambda>gs r. add_record (f r) gs) (gs @ [bare_group i acc]) (map (\<lambda>m. (i, m)) ms)
      = gs @ [bare_group i (acc @ map (\<lambda>m. snd (f (i, m))) ms)]" for acc ms
  proof (induction ms arbitrary: acc)
    case Nil
    then show ?case by simp
  next
    case (Cons m ms)
    have "add_record (f (i, m)) (gs @ [bare_group i acc]) = gs @ [bare_group i (acc @ [snd (f (i, m))])]"
      using add_record_last [OF assms(1)] by (subst fi) simp
    with Cons.IH show ?case by simp
  qed
  from assms(3) obtain m ms' where ms: "ms = m # ms'" by (cases ms) auto
  have "add_record (f (i, m)) gs = gs @ [bare_group i [snd (f (i, m))]]" using add_record_new [OF assms(1)] by (subst fi) simp
  then show ?thesis using rest [of "[snd (f (i, m))]" ms'] by (simp add: ms comp_def)
qed

lemma add_records_groups:
  assumes "distinct (map gpID gs @ map gpID groups)" and "\<And>g. g \<in> set groups \<Longrightarrow> gpMessages g \<noteq> []"
  shows "foldl (\<lambda>gs r. add_record (fst r, red (snd r)) gs) gs (archive_records groups)
     = gs @ map (\<lambda>g. bare_group (gpID g) (map red (gpMessages g))) groups"
  using assms
proof (induction groups arbitrary: gs)
  case Nil
  then show ?case by (simp add: archive_records_def)
next
  case (Cons g groups)
  have new: "gpID g \<notin> set (map gpID gs)" using Cons.prems(1) by auto
  have "foldl (\<lambda>gs r. add_record (fst r, red (snd r)) gs) gs (map (\<lambda>m. (gpID g, m)) (gpMessages g))
      = gs @ [bare_group (gpID g) (map red (gpMessages g))]"
    using add_records_group [OF new, of "\<lambda>r. (fst r, red (snd r))" "gpMessages g"] Cons.prems(2) [of g] by (simp add: comp_def)
  moreover have "foldl (\<lambda>gs r. add_record (fst r, red (snd r)) gs) (gs @ [bare_group (gpID g) (map red (gpMessages g))]) (archive_records groups)
      = (gs @ [bare_group (gpID g) (map red (gpMessages g))]) @ map (\<lambda>g. bare_group (gpID g) (map red (gpMessages g))) groups"
    by (rule Cons.IH) (use Cons.prems in \<open>auto simp: bare_group_def\<close>)
  ultimately show ?case by (simp add: archive_records_def)
qed

text \<open>What the archive relies on of its encoding and hash: a record is one line that decodes to the record
  with its message redacted, and a digest is 64 hexadecimal digits.\<close>

definition archive_codec :: "store_env \<Rightarrow> (message \<Rightarrow> message) \<Rightarrow> bool" where
  "archive_codec se red \<longleftrightarrow>
     (\<forall>r l. seEncRecord se r = Inr l \<longrightarrow> CHR 0x0A \<notin> set l \<and> drop_return l = l \<and> seDecRecord se l = Inr (fst r, red (snd r)))
   \<and> (\<forall>b. length (seSha se b) = 64 \<and> list_all hex_char (seSha se b))"

text \<open>C19. An archive reference is a promise: if \<open>archive\<close> returned a reference for whole groups, then
  \<open>retrieve\<close> of that reference from the files it left gives exactly those groups in order, with
  every message redacted (and nothing else changed), for any codec that decodes its lines.\<close>

theorem archive_roundtrip:
  assumes "archive se groups fs = (Inr ref, fs1)" and "archive_codec se red" and "seRead se ref = None"
    and "distinct (map gpID groups)" and "\<forall>g \<in> set groups. gpMessages g \<noteq> []"
  shows "retrieve se ref fs1 = Inr (map (\<lambda>g. bare_group (gpID g) (map red (gpMessages g))) groups)"
proof -
  obtain b where b: "archive_bytes se (archive_records groups) '''' = Inr b" "ref = seSha se b @ ''.jsonl''"
      "store_write se ref b fs = (None, fs1)"
    using assms(1) by (auto simp: archive_def Let_def split: sum.splits prod.splits option.splits)
  have stored: "mget fs1 ref = Some b" using b(3) by (auto simp: store_write_def split: replaced.splits)
  from archive_bytes_lines [OF b(1)] obtain ls where ls: "b = concat (map (\<lambda>l. l @ newline) ls)"
      "list_all2 (\<lambda>r l. seEncRecord se r = Inr l \<and> length l < max_archive) (archive_records groups) ls" "length b \<le> max_archive"
    by auto
  have ok: "archive_ref ref" using assms(2) by (simp add: b(2) archive_ref_def archive_codec_def)
  have "CHR 0x0A \<notin> set l \<and> drop_return l = l" if "l \<in> set ls" for l
    using ls(2) that assms(2) unfolding archive_codec_def list_all2_conv_all_nth by (metis in_set_conv_nth)
  then have lines: "scan_lines b '''' = ls" using scan_lines_concat [of ls] by (simp add: ls(1))
  have "list_all2 (\<lambda>r l. length l < max_archive \<and> seDecRecord se l = Inr ((\<lambda>r. (fst r, red (snd r))) r)) (archive_records groups) ls"
    using ls(2) assms(2) by (auto simp: archive_codec_def elim!: list_all2_mono)
  from read_records_fold [OF this, of "[]"] add_records_groups [of "[]" groups red] assms(4,5)
  show ?thesis using ok stored ls(3) assms(3) lines by (simp add: retrieve_def store_read_def b(2))
qed

definition demo_store :: store_env where
  "demo_store = \<lparr>seRead = (\<lambda>_. None), seWrite = (\<lambda>_ _. Replaced), seSha = (\<lambda>_. replicate 64 (CHR ''0'')),
     seEncState = (\<lambda>_. Inl EOF), seDecState = (\<lambda>_. Inl EOF),
     seEncRecord = (\<lambda>r. if r = (0, text_message ''user'' ''hi'') then Inr ''r0'' else Inl EOF),
     seDecRecord = (\<lambda>l. if l = ''r0'' then Inr (0, text_message ''user'' ''hi'') else Inl EOF),
     seEncScores = (\<lambda>_. Inl EOF), seDecScores = (\<lambda>_. Inl EOF), seFingerprint = (\<lambda>_. '''')\<rparr>"

lemma archive_roundtrip_witness:
  "retrieve demo_store (replicate 64 (CHR ''0'') @ ''.jsonl'') [(replicate 64 (CHR ''0'') @ ''.jsonl'', ''r0'' @ newline)]
     = Inr [bare_group 0 [text_message ''user'' ''hi'']]"
proof -
  let ?g = "bare_group 0 [text_message ''user'' ''hi'']"
  have a: "archive demo_store [?g] [] = (Inr (replicate 64 (CHR ''0'') @ ''.jsonl''),
      [(replicate 64 (CHR ''0'') @ ''.jsonl'', ''r0'' @ newline)])"
    by (simp add: archive_def archive_records_def bare_group_def demo_store_def store_write_def max_archive_def newline_def mput_def Let_def)
  have c: "archive_codec demo_store id"
    by (auto simp: archive_codec_def demo_store_def drop_return_def hex_char_def list_all_iff split: if_splits)
  have r: "seRead demo_store ref = None" for ref by (simp add: demo_store_def)
  have "distinct (map gpID [?g])" "\<forall>g \<in> set [?g]. gpMessages g \<noteq> []" by (simp_all add: bare_group_def)
  from archive_roundtrip [OF a c r this] show ?thesis by (simp add: bare_group_def)
qed

subsection \<open>The dialogue\<close>

record action =
  acTool :: string
  acIDs :: "int list"
  acQuery :: string
  acRef :: string
  acScores :: "selection list"
  acState :: "working_state option"

text \<open>What a step answers the model with.\<close>

datatype observation =
    OBudget int int bool
  | OViews "view list" int int
  | OHits "group list"
  | OText string
  | OState working_state
  | OArchived string "int list"
  | OMemory string working_state
  | OError string

text \<open>\<open>ceCtx step point\<close> is the error of the context before the model call, after it, and after the action.\<close>

record curator_env =
  ceStore :: "store_env option"
  ceOpen :: "gerr option"
  ceComplete :: "nat \<Rightarrow> string \<Rightarrow> int \<Rightarrow> gerr + string"
  ceParse :: "string \<Rightarrow> gerr + action"
  ceRecall :: "(string \<Rightarrow> gerr + string) option"
  ceCtx :: "nat \<Rightarrow> nat \<Rightarrow> gerr option"
  ceCounter :: counter
  ceEncMessage :: "message \<Rightarrow> gerr + string"
  ceEncOutput :: "observation \<Rightarrow> gerr + string"
  ceEncState :: "working_state \<Rightarrow> string"
  ceManifest :: "group list \<Rightarrow> string"
  ceInstructions :: string
  ceMaxSteps :: int
  ceReadTokens :: int

record curator_state =
  cuState :: working_state
  cuGroups :: "group list"
  cuFiles :: files
  cuRefs :: "string list"

definition empty_state :: "working_state \<Rightarrow> bool" where
  "empty_state s \<longleftrightarrow> wsGoals s = [] \<and> wsOpenThreads s = [] \<and> wsDecisions s = []"

definition state_text :: "curator_env \<Rightarrow> input \<Rightarrow> working_state \<Rightarrow> string" where
  "state_text ce inp s = (if empty_state s then inWorkingState inp else ''# Working State'' @ newline @ ceEncState ce s)"

text \<open>The working state a build starts from when it has none.\<close>

definition loadWorkingState :: "curator_env \<Rightarrow> store_env \<Rightarrow> files \<Rightarrow> gerr + string" where
  "loadWorkingState ce se fs =
     (case ceOpen ce of
        Some e \<Rightarrow> Inl e
      | None \<Rightarrow> (case readState se fs of
          Inl e \<Rightarrow> Inl (Wrapf ''curator state: %w'' [] e)
        | Inr s \<Rightarrow> if empty_state s then Inr '''' else Inr (''# Working State'' @ newline @ ceEncState ce s)))"

definition find_group :: "int \<Rightarrow> group list \<Rightarrow> group option" where
  "find_group i gs = find (\<lambda>g. gpID g = i) gs"

fun validIDs :: "group list \<Rightarrow> int list \<Rightarrow> int list \<Rightarrow> gerr option" where
  "validIDs gs [] seen = None"
| "validIDs gs (i # is) seen =
     (if find_group i gs = None \<or> i \<in> set seen then Some (Errorf ''unknown or duplicate group ID %d'' [Itoa (nat i)])
      else validIDs gs is (i # seen))"

definition groups_of :: "group list \<Rightarrow> int list \<Rightarrow> group list" where
  "groups_of gs ids = map (\<lambda>i. the (find_group i gs)) ids"

fun proposal_ok :: "group list \<Rightarrow> selection list \<Rightarrow> int list \<Rightarrow> bool" where
  "proposal_ok gs [] seen \<longleftrightarrow> True"
| "proposal_ok gs (s # ss) seen \<longleftrightarrow> find_group (slID s) gs \<noteq> None \<and> slID s \<notin> set seen \<and> score_ok (slScore s) \<and> proposal_ok gs ss (slID s # seen)"

definition rescore :: "int \<Rightarrow> (group \<Rightarrow> group) \<Rightarrow> group list \<Rightarrow> group list" where
  "rescore i f gs = map (\<lambda>g. if gpID g = i then f g else g) gs"

definition propose :: "selection \<Rightarrow> group \<Rightarrow> group" where
  "propose s g = g\<lparr>gpScore := (if gpProtected g then max (the (slScore s)) (4 / 5) else the (slScore s))\<rparr>"

definition mark_archived :: "string \<Rightarrow> group \<Rightarrow> group" where
  "mark_archived ref g = g\<lparr>gpScore := min (gpScore g) (9 / 20), gpArchiveRef := ref\<rparr>"

definition archive_action :: "store_env \<Rightarrow> int list \<Rightarrow> curator_state \<Rightarrow> (gerr + observation) \<times> curator_state" where
  "archive_action se ids st =
     (if ids = [] then (Inl (Msg ''archive requires group IDs''), st)
      else if \<exists>g \<in> set (groups_of (cuGroups st) ids). gpProtected g then (Inl (Msg ''protected groups cannot be archived''), st)
      else (case archive se (groups_of (cuGroups st) ids) (cuFiles st) of
          (Inl e, fs) \<Rightarrow> (Inl e, st\<lparr>cuFiles := fs\<rparr>)
        | (Inr ref, fs) \<Rightarrow>
            (let gs = foldl (\<lambda>gs i. rescore i (mark_archived ref) gs) (cuGroups st) ids;
                 st1 = st\<lparr>cuFiles := fs, cuGroups := gs, cuRefs := cuRefs st @ [ref]\<rparr>
             in (case saveScores se gs fs of
                   (Some e, fs1) \<Rightarrow> (Inl e, st1\<lparr>cuFiles := fs1\<rparr>)
                 | (None, fs1) \<Rightarrow> (Inr (OArchived ref ids), st1\<lparr>cuFiles := fs1\<rparr>)))))"

text \<open>A finish that passed the check is stored; the last component is whether the dialogue is over.\<close>

definition finish_action :: "store_env option \<Rightarrow> observation \<Rightarrow> curator_state \<Rightarrow> (gerr + observation) \<times> curator_state \<times> bool" where
  "finish_action so out st =
     (case so of
        None \<Rightarrow> (Inr out, st, True)
      | Some se \<Rightarrow>
         (case writeState se (cuState st) (cuFiles st) of
            (Some e, fs) \<Rightarrow> (Inl e, st\<lparr>cuFiles := fs\<rparr>, False)
          | (None, fs) \<Rightarrow>
             (case saveScores se (cuGroups st) fs of
                (Some e, fs1) \<Rightarrow> (Inl e, st\<lparr>cuFiles := fs1\<rparr>, False)
              | (None, fs1) \<Rightarrow> (Inr out, st\<lparr>cuFiles := fs1\<rparr>, True))))"

definition view_output :: "int \<Rightarrow> gerr + (view list \<times> int) \<Rightarrow> gerr + observation" where
  "view_output budget r = (case r of Inl e \<Rightarrow> Inl e | Inr (vs, used) \<Rightarrow> Inr (OViews vs used budget))"

definition run_action ::
  "curator_env \<Rightarrow> int \<Rightarrow> input \<Rightarrow> metadata \<Rightarrow> candidate_check \<Rightarrow> action \<Rightarrow> curator_state
     \<Rightarrow> (gerr + observation) \<times> curator_state \<times> bool"
where
  "run_action ce readTokens inp meta check a st =
     (case validIDs (cuGroups st) (acIDs a) [] of
        Some e \<Rightarrow> (Inl e, st, False)
      | None \<Rightarrow>
        if acTool a = ''read'' then
          (view_output readTokens (boundedGroups (ceCounter ce) (ceEncMessage ce) (groups_of (cuGroups st) (acIDs a)) readTokens), st, False)
        else if acTool a = ''search'' then (Inr (OHits (searchGroups (cuGroups st) (acQuery a))), st, False)
        else if acTool a = ''budget'' \<or> acTool a = ''finish'' then
          (case check (acIDs a) (state_text ce inp (cuState st)) of
             (n, Some e) \<Rightarrow> (Inl e, st, False)
           | (n, None) \<Rightarrow>
              if acTool a = ''finish'' then finish_action (ceStore ce) (OBudget n (mtInputBudget meta) True) st
              else (Inr (OBudget n (mtInputBudget meta) True), st, False))
        else if acTool a = ''score'' then
          (if proposal_ok (cuGroups st) (acScores a) [] then
             (Inr (OText ''scores updated''),
              st\<lparr>cuGroups := foldl (\<lambda>gs s. rescore (slID s) (propose s) gs) (cuGroups st) (acScores a)\<rparr>, False)
           else (Inl (Msg ''invalid score proposal''), st, False))
        else if acTool a = ''state'' then
          (case acState a of
             None \<Rightarrow> (Inl (Msg ''state is required''), st, False)
           | Some s \<Rightarrow> (Inr (OState (boundedState s)), st\<lparr>cuState := boundedState s\<rparr>, False))
        else if acTool a = ''archive'' then
          (case ceStore ce of
             None \<Rightarrow> (Inl (Msg ''archive storage is not configured''), st, False)
           | Some se \<Rightarrow> (case archive_action se (acIDs a) st of (r, st1) \<Rightarrow> (r, st1, False)))
        else if acTool a = ''retrieve'' then
          (case ceStore ce of
             None \<Rightarrow> (Inl (Msg ''archive storage is not configured''), st, False)
           | Some se \<Rightarrow> (case retrieve se (acRef a) (cuFiles st) of
               Inl e \<Rightarrow> (Inl e, st, False)
             | Inr gs \<Rightarrow> (view_output readTokens (boundedGroups (ceCounter ce) (ceEncMessage ce) gs readTokens), st, False)))
        else if acTool a = ''memory'' then
          (case (case ceRecall ce of None \<Rightarrow> Inr (inMemory inp) | Some f \<Rightarrow> f (acQuery a)) of
             Inl e \<Rightarrow> (Inl e, st, False)
           | Inr memory \<Rightarrow> (case boundedText (ceCounter ce) memory readTokens of
               Inl e \<Rightarrow> (Inl e, st, False)
             | Inr b \<Rightarrow> (Inr (OMemory b (cuState st)), st, False)))
        else (Inl (Errorf ''unknown internal tool %q'' [acTool a]), st, False))"

text \<open>The control prompt: the tail manifest shrinks until the fixed part fits, old observations go first.\<close>

definition base_prompt :: "curator_env \<Rightarrow> input \<Rightarrow> metadata \<Rightarrow> nat \<Rightarrow> group list \<Rightarrow> string" where
  "base_prompt ce inp meta n manifest =
     Sprintf (''%s'' @ newline @ ''Request data: %q'' @ newline
         @ ''Input budget=%d, fixed tokens=%d, history budget=%d, groups=%d.'' @ newline @ ''Tail manifest data: %s'' @ newline)
       [ceInstructions ce, inUserMessage inp, Itoa (nat (mtInputBudget meta)), Itoa (nat (mtFixedTokens meta)),
        Itoa (nat (mtHistoryBudget meta)), Itoa n, ceManifest ce manifest]"

definition with_state :: "curator_env \<Rightarrow> input \<Rightarrow> working_state \<Rightarrow> string \<Rightarrow> string" where
  "with_state ce inp s base = base @ ''Current working state data: '' @ state_text ce inp s @ newline"

function shrink_manifest :: "counter \<Rightarrow> int \<Rightarrow> (group list \<Rightarrow> string) \<Rightarrow> (string \<Rightarrow> string) \<Rightarrow> group list \<Rightarrow> gerr + string" where
  "shrink_manifest cnt limit base wrap manifest =
     (case cnt (wrap (base manifest)) of
        Inl e \<Rightarrow> Inl e
      | Inr n \<Rightarrow> if n \<le> limit \<or> manifest = [] then Inr (base manifest)
          else shrink_manifest cnt limit base wrap (drop (length manifest div 2 + 1) manifest))"
  by pat_completeness auto

termination by (relation "measure (\<lambda>(_, _, _, _, manifest). length manifest)") auto

declare shrink_manifest.simps [simp del]

fun fit_observations :: "counter \<Rightarrow> int \<Rightarrow> string \<Rightarrow> string list \<Rightarrow> gerr + string list" where
  "fit_observations cnt limit front [] = (case cnt front of Inl e \<Rightarrow> Inl e
     | Inr n \<Rightarrow> if n \<le> limit then Inr [] else Inl (Errorf ''curator control prompt exceeds model input budget'' []))"
| "fit_observations cnt limit front (ob # obs) = (case cnt (front @ join_with newline (ob # obs)) of Inl e \<Rightarrow> Inl e
     | Inr n \<Rightarrow> if n \<le> limit then Inr (ob # obs) else fit_observations cnt limit front obs)"

definition stopped_result :: "nat \<Rightarrow> curator_state \<Rightarrow> curator_result" where
  "stopped_result n st = \<lparr>crIncludeGroups = [], crWorkingState = '''', crScores = [], crArchiveRefs = cuRefs st, crSteps = int n\<rparr>"

definition accepted_result :: "nat \<Rightarrow> int list \<Rightarrow> string \<Rightarrow> curator_state \<Rightarrow> curator_result" where
  "accepted_result n ids text st = \<lparr>crIncludeGroups = ids, crWorkingState = text,
     crScores = map (\<lambda>g. (gpID g, gpScore g)) (cuGroups st), crArchiveRefs = cuRefs st, crSteps = int n\<rparr>"

fun curator_loop ::
  "curator_env \<Rightarrow> int \<Rightarrow> int \<Rightarrow> int \<Rightarrow> input \<Rightarrow> metadata \<Rightarrow> candidate_check \<Rightarrow> string \<Rightarrow> nat \<Rightarrow> nat \<Rightarrow> string list \<Rightarrow> curator_state
     \<Rightarrow> (curator_result \<times> gerr option) \<times> curator_state"
where
  "curator_loop ce readTokens limit outputLimit inp meta check base step 0 obs st =
     ((stopped_result step st, Some (Errorf ''curator exhausted %d steps without an accepted plan'' [Itoa step])), st)"
| "curator_loop ce readTokens limit outputLimit inp meta check base step (Suc left) obs st =
     (case ceCtx ce step 0 of
        Some e \<Rightarrow> ((stopped_result step st, Some e), st)
      | None \<Rightarrow>
     (case fit_observations (ceCounter ce) limit (with_state ce inp (cuState st) base) obs of
        Inl e \<Rightarrow> ((stopped_result step st, Some e), st)
      | Inr obs1 \<Rightarrow>
     (let answer = ceComplete ce step (with_state ce inp (cuState st) base @ join_with newline obs1) outputLimit in
     (case ceCtx ce step 1 of
        Some e \<Rightarrow> ((stopped_result (step + 1) st, Some e), st)
      | None \<Rightarrow>
     (case answer of
        Inl e \<Rightarrow> ((stopped_result (step + 1) st, Some e), st)
      | Inr text \<Rightarrow>
     (case (case ceParse ce text of
              Inl e \<Rightarrow> (Inl e, st, None)
            | Inr a \<Rightarrow> (case run_action ce readTokens inp meta check a st of
                (out, st1, fin) \<Rightarrow> (out, st1, if fin then Some (acIDs a) else None))) of
        (out, st1, Some ids) \<Rightarrow>
          ((accepted_result (step + 1) ids (state_text ce inp (cuState st1)) st1, None), st1)
      | (out, st1, None) \<Rightarrow>
     (case ceCtx ce step 2 of
        Some e \<Rightarrow> ((stopped_result (step + 1) st1, Some e), st1)
      | None \<Rightarrow>
     (case ceEncOutput ce (case out of Inl e \<Rightarrow> OError (Error e) | Inr x \<Rightarrow> x) of
        Inl e \<Rightarrow> ((stopped_result (step + 1) st1, Some e), st1)
      | Inr encoded \<Rightarrow>
          curator_loop ce readTokens limit outputLimit inp meta check base (step + 1) left
            (obs1 @ [''Step '' @ Itoa (step + 1) @ '' action data: '' @ text @ newline @ ''Observation data: '' @ encoded]) st1))))))))"

definition DefaultCuratorSteps :: int where "DefaultCuratorSteps = 12"
definition DefaultCuratorReadTokens :: int where "DefaultCuratorReadTokens = 2000"

definition runCurator ::
  "curator_env \<Rightarrow> files \<Rightarrow> input \<Rightarrow> group list \<Rightarrow> metadata \<Rightarrow> candidate_check \<Rightarrow> (curator_result \<times> gerr option) \<times> files"
where
  "runCurator ce fs inp groups meta check =
     (let none = \<lparr>crIncludeGroups = [], crWorkingState = '''', crScores = [], crArchiveRefs = [], crSteps = 0\<rparr>;
          steps = (if ceMaxSteps ce = 0 then DefaultCuratorSteps else ceMaxSteps ce);
          readTokens = (if ceReadTokens ce = 0 then DefaultCuratorReadTokens else ceReadTokens ce)
      in
      if steps < 1 \<or> steps > DefaultCuratorSteps
      then ((none, Some (Errorf ''curator steps must be in [1,%d]'' [Itoa (nat DefaultCuratorSteps)])), fs)
      else if readTokens < 1 \<or> readTokens > 12000 then ((none, Some (Errorf ''invalid curator read budget'' [])), fs)
      else
        (case (case ceStore ce of
                 None \<Rightarrow> Inr (no_state, groups)
               | Some se \<Rightarrow> (case ceOpen ce of Some e \<Rightarrow> Inl e
                   | None \<Rightarrow> (case readState se fs of Inl e \<Rightarrow> Inl (Wrapf ''curator state: %w'' [] e)
                       | Inr s \<Rightarrow> (case loadScores se groups fs of Inl e \<Rightarrow> Inl e | Inr gs \<Rightarrow> Inr (s, gs))))) of
           Inl e \<Rightarrow> ((none, Some e), fs)
         | Inr (s, gs) \<Rightarrow>
            (let out0 = min 2048 (max 1 (mtContextWindow meta div 4));
                 outputLimit = (if mtOutputReserve meta > 0 then min out0 (mtOutputReserve meta) else out0);
                 limit = min (mtContextWindow meta - outputLimit - 8) 16000
             in (case shrink_manifest (ceCounter ce) limit (base_prompt ce inp meta (length gs)) (with_state ce inp s) (manifest_of gs) of
                   Inl e \<Rightarrow> ((none, Some e), fs)
                 | Inr base \<Rightarrow>
                    (case curator_loop ce readTokens limit outputLimit inp meta check base 0 (nat steps) []
                           \<lparr>cuState = s, cuGroups = gs, cuFiles = fs, cuRefs = []\<rparr> of
                       (res, st) \<Rightarrow> (res, cuFiles st))))))"

subsection \<open>What an accepted plan guarantees\<close>

text \<open>A well-scored group, and a bounded working state.\<close>

definition scored :: "group \<Rightarrow> bool" where
  "scored g \<longleftrightarrow> 0 \<le> gpScore g \<and> gpScore g \<le> 1 \<and> (gpProtected g \<longrightarrow> 3 / 4 \<le> gpScore g)"

definition small_state :: "working_state \<Rightarrow> bool" where
  "small_state s \<longleftrightarrow> length (wsGoals s) \<le> 8 \<and> length (wsOpenThreads s) \<le> 12 \<and> length (wsDecisions s) \<le> 20"

lemma limit_items_length: "length (limit_items n xs) \<le> n"
  by (induction n xs rule: limit_items.induct) auto

lemma small_boundedState: "small_state (boundedState s)"
  by (simp add: small_state_def boundedState_def limit_items_length)

lemma small_no_state: "small_state no_state"
  by (simp add: small_state_def no_state_def)

text \<open>The groups keep their identifiers, messages and protection, whatever the model does to their scores.\<close>

definition curator_inv :: "group list \<Rightarrow> curator_state \<Rightarrow> bool" where
  "curator_inv gs0 st \<longleftrightarrow> same_turns (cuGroups st) gs0 \<and> (\<forall>g \<in> set (cuGroups st). scored g) \<and> small_state (cuState st)"

lemma same_turns_trans: "same_turns a b \<Longrightarrow> same_turns b c \<Longrightarrow> same_turns a c"
  by (simp add: same_turns_def)

lemma same_turns_rescore:
  "(\<And>g. gpID (f g) = gpID g \<and> gpMessages (f g) = gpMessages g \<and> gpProtected (f g) = gpProtected g) \<Longrightarrow> same_turns (rescore i f gs) gs"
  by (simp add: same_turns_def rescore_def)

lemma scored_rescore:
  "(\<And>g. g \<in> set gs \<Longrightarrow> gpID g = i \<Longrightarrow> scored (f g)) \<Longrightarrow> \<forall>g \<in> set gs. scored g \<Longrightarrow> \<forall>g \<in> set (rescore i f gs). scored g"
  by (auto simp: rescore_def)

lemma propose_groups:
  assumes "proposal_ok gs0 ss seen" and "same_turns gs gs0" and "\<forall>g \<in> set gs. scored g"
  shows "same_turns (foldl (\<lambda>gs s. rescore (slID s) (propose s) gs) gs ss) gs0
     \<and> (\<forall>g \<in> set (foldl (\<lambda>gs s. rescore (slID s) (propose s) gs) gs ss). scored g)"
  using assms
proof (induction ss arbitrary: gs seen)
  case Nil
  then show ?case by simp
next
  case (Cons s ss)
  have sc: "score_ok (slScore s)" "proposal_ok gs0 ss (slID s # seen)" using Cons.prems(1) by auto
  then obtain x where "slScore s = Some x" "0 \<le> x" "x \<le> 1" by (auto simp: score_ok_def split: option.splits)
  then have "scored (propose s g)" for g by (auto simp: scored_def propose_def)
  then have "\<forall>g \<in> set (rescore (slID s) (propose s) gs). scored g" using Cons.prems(3) by (intro scored_rescore) auto
  moreover have "same_turns (rescore (slID s) (propose s) gs) gs0"
    by (rule same_turns_trans [OF same_turns_rescore Cons.prems(2)]) (simp add: propose_def)
  ultimately show ?case using Cons.IH [OF sc(2)] by simp
qed

lemma mark_groups:
  assumes "\<forall>i \<in> set ids. \<forall>g \<in> set gs0. gpID g = i \<longrightarrow> \<not> gpProtected g" and "same_turns gs gs0" and "\<forall>g \<in> set gs. scored g"
  shows "same_turns (foldl (\<lambda>gs i. rescore i (mark_archived ref) gs) gs ids) gs0
     \<and> (\<forall>g \<in> set (foldl (\<lambda>gs i. rescore i (mark_archived ref) gs) gs ids). scored g)"
  using assms
proof (induction ids arbitrary: gs)
  case Nil
  then show ?case by simp
next
  case (Cons i ids)
  have "scored (mark_archived ref g)" if "g \<in> set gs" "gpID g = i" for g
  proof -
    have "\<not> gpProtected g" using Cons.prems(1) same_turns_protected [OF Cons.prems(2), of True i] that by auto
    then show ?thesis using Cons.prems(3) that by (auto simp: scored_def mark_archived_def)
  qed
  then have "\<forall>g \<in> set (rescore i (mark_archived ref) gs). scored g" using Cons.prems(3) by (intro scored_rescore) auto
  moreover have "same_turns (rescore i (mark_archived ref) gs) gs0"
    by (rule same_turns_trans [OF same_turns_rescore Cons.prems(2)]) (simp add: mark_archived_def)
  ultimately show ?case using Cons.IH [of "rescore i (mark_archived ref) gs"] Cons.prems(1) by simp
qed

lemma find_group_Some: "find_group i gs = Some g \<Longrightarrow> g \<in> set gs \<and> gpID g = i"
  by (auto simp: find_group_def find_Some_iff)

lemma validIDs_ok: "validIDs gs ids seen = None \<Longrightarrow> distinct ids \<and> set ids \<inter> set seen = {} \<and> set ids \<subseteq> set (map gpID gs)"
proof (induction gs ids seen rule: validIDs.induct)
  case (1 gs seen)
  then show ?case by simp
next
  case (2 gs i js seen)
  then obtain g where "find_group i gs = Some g" "i \<notin> set seen" "validIDs gs js (i # seen) = None" by (auto split: if_splits)
  with 2(1) show ?case by (auto dest!: find_group_Some)
qed

lemma archive_action_inv:
  assumes "archive_action se ids st = (r, st1)" and "curator_inv gs0 st" and "distinct (map gpID gs0)"
    and "set ids \<subseteq> set (map gpID (cuGroups st))"
  shows "curator_inv gs0 st1"
proof (cases "ids = [] \<or> (\<exists>g \<in> set (groups_of (cuGroups st) ids). gpProtected g)")
  case True
  then show ?thesis using assms(1,2) by (auto simp: archive_action_def split: if_splits)
next
  case False
  obtain a fs where a: "archive se (groups_of (cuGroups st) ids) (cuFiles st) = (a, fs)" by fastforce
  show ?thesis
  proof (cases a)
    case (Inl e)
    then show ?thesis using assms(1,2) a False by (auto simp: archive_action_def curator_inv_def)
  next
    case (Inr ref)
    let ?gs = "foldl (\<lambda>gs i. rescore i (mark_archived ref) gs) (cuGroups st) ids"
    have dist: "distinct (map gpID (cuGroups st))"
      using assms(2,3) same_turns_ids by (metis curator_inv_def)
    have "\<not> gpProtected g" if "i \<in> set ids" "g \<in> set gs0" "gpID g = i" for i g
    proof -
      have "find_group i (cuGroups st) \<noteq> None" using assms(4) that(1) by (auto simp: find_group_def find_None_iff)
      then obtain h where h: "find_group i (cuGroups st) = Some h" by blast
      then have "\<not> gpProtected h" using False that(1) by (force simp: groups_of_def)
      moreover have "gpProtected h = gpProtected g"
        using same_turns_protected [of "cuGroups st" gs0 "gpProtected h" i] find_group_Some [OF h] that assms(2,3)
        by (metis curator_inv_def distinct_map inj_on_def)
      ultimately show ?thesis by simp
    qed
    then have "same_turns ?gs gs0 \<and> (\<forall>g \<in> set ?gs. scored g)"
      using mark_groups [of ids gs0 "cuGroups st" ref] assms(2) by (auto simp: curator_inv_def)
    then show ?thesis using assms(1,2) a False Inr
      by (auto simp: archive_action_def curator_inv_def Let_def split: prod.splits option.splits)
  qed
qed

lemma finish_action_inv: "finish_action so out st = (r, st1, b) \<Longrightarrow> cuGroups st1 = cuGroups st \<and> cuState st1 = cuState st"
  by (auto simp: finish_action_def split: option.splits prod.splits)

lemma run_action_inv:
  assumes "run_action ce rt inp meta check a st = (r, st1, fin)" and "curator_inv gs0 st" and "distinct (map gpID gs0)"
  shows "curator_inv gs0 st1 \<and> (fin \<longrightarrow> distinct (acIDs a) \<and> set (acIDs a) \<subseteq> set (map gpID gs0)
     \<and> (\<exists>n. check (acIDs a) (state_text ce inp (cuState st1)) = (n, None)))"
proof (cases "validIDs (cuGroups st) (acIDs a) []")
  case (Some e)
  then show ?thesis using assms by (simp add: run_action_def)
next
  case None
  have ids: "distinct (acIDs a)" "set (acIDs a) \<subseteq> set (map gpID (cuGroups st))" using validIDs_ok [OF None] by auto
  have same: "map gpID (cuGroups st) = map gpID gs0" using assms(2) same_turns_ids by (auto simp: curator_inv_def)
  have sc: "curator_inv gs0 (st\<lparr>cuGroups := foldl (\<lambda>gs s. rescore (slID s) (propose s) gs) (cuGroups st) ss\<rparr>)"
    if "proposal_ok (cuGroups st) ss []" for ss
  proof -
    have refl: "same_turns (cuGroups st) (cuGroups st)" by simp
    from propose_groups [OF that refl] same_turns_trans assms(2) show ?thesis by (auto simp: curator_inv_def)
  qed
  have st: "curator_inv gs0 (st\<lparr>cuState := boundedState s\<rparr>)" for s using assms(2) by (simp add: curator_inv_def small_boundedState)
  consider "acTool a = ''budget'' \<or> acTool a = ''finish''" | "acTool a = ''archive''" | "acTool a \<notin> {''budget'', ''finish'', ''archive''}" by blast
  then show ?thesis
  proof cases
    case 1
    then obtain n x where c: "check (acIDs a) (state_text ce inp (cuState st)) = (n, x)" by fastforce
    show ?thesis
    proof (cases "x = None \<and> acTool a = ''finish''")
      case True
      then have f: "finish_action (ceStore ce) (OBudget n (mtInputBudget meta) True) st = (r, st1, fin)"
        using assms(1) None c by (simp add: run_action_def)
      then show ?thesis using finish_action_inv [OF f] assms(2) ids same True c by (auto simp: curator_inv_def)
    next
      case False
      then have "st1 = st \<and> \<not> fin" using assms(1) None 1 c by (cases x) (auto simp: run_action_def)
      then show ?thesis using assms(2) by simp
    qed
  next
    case 2
    show ?thesis
    proof (cases "ceStore ce")
      case None': None
      then show ?thesis using assms None 2 by (simp add: run_action_def)
    next
      case (Some se)
      then have "\<exists>q. archive_action se (acIDs a) st = (q, st1)" "\<not> fin"
        using assms(1) None 2 by (auto simp: run_action_def split: prod.splits)
      then show ?thesis using archive_action_inv assms(2,3) ids by blast
    qed
  next
    case 3
    have "(st1 = st \<or> (\<exists>s. st1 = st\<lparr>cuState := boundedState s\<rparr>)
         \<or> proposal_ok (cuGroups st) (acScores a) []
           \<and> st1 = st\<lparr>cuGroups := foldl (\<lambda>gs s. rescore (slID s) (propose s) gs) (cuGroups st) (acScores a)\<rparr>) \<and> \<not> fin"
      using assms(1) None 3 by (auto simp: run_action_def split: if_splits option.splits sum.splits)
    then show ?thesis using assms(2) sc st by auto
  qed
qed

definition plan_ok :: "group list \<Rightarrow> candidate_check \<Rightarrow> curator_result \<Rightarrow> bool" where
  "plan_ok gs0 check r \<longleftrightarrow> distinct (crIncludeGroups r) \<and> set (crIncludeGroups r) \<subseteq> set (map gpID gs0)
     \<and> (\<exists>n. check (crIncludeGroups r) (crWorkingState r) = (n, None))
     \<and> map fst (crScores r) = map gpID gs0
     \<and> (\<forall>g \<in> set gs0. \<forall>x. (gpID g, x) \<in> set (crScores r) \<longrightarrow> 0 \<le> x \<and> x \<le> 1 \<and> (gpProtected g \<longrightarrow> 3 / 4 \<le> x))"

lemma accepted_plan_ok:
  assumes "curator_inv gs0 st" and "distinct (map gpID gs0)" and "distinct ids" and "set ids \<subseteq> set (map gpID gs0)"
    and "check ids text = (n, None)"
  shows "plan_ok gs0 check (accepted_result k ids text st)"
proof -
  have same: "same_turns (cuGroups st) gs0" and sc: "\<forall>g \<in> set (cuGroups st). scored g" using assms(1) by (auto simp: curator_inv_def)
  have "0 \<le> gpScore h \<and> gpScore h \<le> 1 \<and> (gpProtected g \<longrightarrow> 3 / 4 \<le> gpScore h)"
    if "g \<in> set gs0" "h \<in> set (cuGroups st)" "gpID h = gpID g" for g h
  proof -
    have "gpProtected g = gpProtected h"
      using same_turns_protected [OF same, of "gpProtected h" "gpID g"] that assms(2) by (metis distinct_map inj_on_def)
    then show ?thesis using sc that by (auto simp: scored_def)
  qed
  then show ?thesis
    using assms(3-5) same_turns_ids [OF same] by (auto simp: plan_ok_def accepted_result_def comp_def)
qed

lemma curator_loop_inv:
  assumes "curator_loop ce rt lmt ol inp meta check base step left obs st = ((r, err), st')"
    and "curator_inv gs0 st" and "distinct (map gpID gs0)"
  shows "int step \<le> crSteps r \<and> crSteps r \<le> int (step + left) \<and> (err = None \<longrightarrow> plan_ok gs0 check r)"
  using assms(1,2)
proof (induction left arbitrary: step obs st)
  case 0
  then show ?case by (auto simp: stopped_result_def)
next
  case (Suc left)
  show ?case
  proof (cases "ceCtx ce step 0")
    case (Some e)
    then show ?thesis using Suc.prems by (auto simp: stopped_result_def)
  next
    case c0: None
    show ?thesis
    proof (cases "fit_observations (ceCounter ce) lmt (with_state ce inp (cuState st) base) obs")
      case (Inl e)
      then show ?thesis using Suc.prems c0 by (auto simp: stopped_result_def)
    next
      case obs1: (Inr obs1)
      define said where "said = ceComplete ce step (with_state ce inp (cuState st) base @ join_with newline obs1) ol"
      show ?thesis
      proof (cases "ceCtx ce step 1 \<noteq> None \<or> (\<exists>e. said = Inl e)")
        case True
        then show ?thesis using Suc.prems(1) c0 obs1
          by (auto simp: stopped_result_def Let_def said_def [symmetric] split: option.splits sum.splits)
      next
        case False
        then obtain t where t: "said = Inr t" "ceCtx ce step 1 = None" by (cases said) auto
        define res where "res = (case ceParse ce t of
              Inl e \<Rightarrow> (Inl e, st, None)
            | Inr a \<Rightarrow> (case run_action ce rt inp meta check a st of
                (out, st1, fin) \<Rightarrow> (out, st1, if fin then Some (acIDs a) else None)))"
        obtain out st1 q where res: "res = (out, st1, q)" by (metis prod_cases3)
        have inv: "curator_inv gs0 st1 \<and> (\<forall>ids. q = Some ids \<longrightarrow> distinct ids \<and> set ids \<subseteq> set (map gpID gs0)
            \<and> (\<exists>n. check ids (state_text ce inp (cuState st1)) = (n, None)))"
        proof (cases "ceParse ce t")
          case (Inl e)
          then show ?thesis using res res_def Suc.prems(2) by auto
        next
          case (Inr a)
          then obtain fin where "run_action ce rt inp meta check a st = (out, st1, fin)" "q = (if fin then Some (acIDs a) else None)"
            using res res_def by (auto split: prod.splits)
          then show ?thesis using run_action_inv Suc.prems(2) assms(3) by (auto split: if_splits)
        qed
        have step: "curator_loop ce rt lmt ol inp meta check base step (Suc left) obs st =
            (case res of
              (out, st1, Some ids) \<Rightarrow>
                ((accepted_result (step + 1) ids (state_text ce inp (cuState st1)) st1, None), st1)
            | (out, st1, None) \<Rightarrow>
           (case ceCtx ce step 2 of
              Some e \<Rightarrow> ((stopped_result (step + 1) st1, Some e), st1)
            | None \<Rightarrow>
           (case ceEncOutput ce (case out of Inl e \<Rightarrow> OError (Error e) | Inr x \<Rightarrow> x) of
              Inl e \<Rightarrow> ((stopped_result (step + 1) st1, Some e), st1)
            | Inr encoded \<Rightarrow>
                curator_loop ce rt lmt ol inp meta check base (step + 1) left
                  (obs1 @ [''Step '' @ Itoa (step + 1) @ '' action data: '' @ t @ newline @ ''Observation data: '' @ encoded]) st1)))"
          unfolding curator_loop.simps(2) c0 obs1 option.case sum.case Let_def said_def [symmetric] t res_def [symmetric] ..
        show ?thesis
        proof (cases q)
          case (Some ids)
          then have "accepted_result (step + 1) ids (state_text ce inp (cuState st1)) st1 = r"
            using Suc.prems(1) unfolding step res Some by auto
          then show ?thesis using inv Some accepted_plan_ok [of gs0 st1 ids check _ _ "step + 1"] assms(3)
            by (auto simp: accepted_result_def)
        next
          case None
          show ?thesis
          proof (cases "\<exists>enc. ceCtx ce step 2 = None \<and> ceEncOutput ce (case out of Inl e \<Rightarrow> OError (Error e) | Inr x \<Rightarrow> x) = Inr enc")
            case True
            then obtain enc where "curator_loop ce rt lmt ol inp meta check base (step + 1) left
                  (obs1 @ [''Step '' @ Itoa (step + 1) @ '' action data: '' @ t @ newline @ ''Observation data: '' @ enc]) st1 = ((r, err), st')"
              using Suc.prems(1) unfolding step res None by auto
            from Suc.IH [OF this] inv show ?thesis by auto
          next
            case False
            then show ?thesis using Suc.prems(1) unfolding step res None
              by (auto simp: stopped_result_def split: option.splits sum.splits)
          qed
        qed
      qed
    qed
  qed
qed

lemma load_scores_inv:
  assumes "load_scores se scores n off gs = Inr gs'" and "\<forall>g \<in> set gs. scored g"
  shows "same_turns gs' gs \<and> (\<forall>g \<in> set gs'. scored g)"
  using assms
proof (induction gs arbitrary: off gs')
  case Nil
  then show ?case by simp
next
  case (Cons g gs)
  let ?e = "map_of scores (seFingerprint se (gpMessages g))"
  obtain g1 gs1 where g1: "(case ?e of None \<Rightarrow> Inr g
            | Some e \<Rightarrow> if \<not> score_entry_ok e then Inl (Errorf ''invalid persisted relevance'' [])
                else (let s1 = (if int (off + length (gpMessages g)) > int n - 12 then max (fst e) (3 / 4) else fst e);
                          s2 = (if gpProtected g then max s1 (4 / 5) else s1)
                      in Inr (g\<lparr>gpScore := s2, gpArchiveRef := snd e\<rparr>))) = Inr g1"
      "load_scores se scores n (off + length (gpMessages g)) gs = Inr gs1" "gs' = g1 # gs1"
    using Cons.prems(1) by (auto split: sum.splits)
  have "scored g1 \<and> gpID g1 = gpID g \<and> gpMessages g1 = gpMessages g \<and> gpProtected g1 = gpProtected g"
  proof (cases ?e)
    case None
    then show ?thesis using g1(1) Cons.prems(2) by simp
  next
    case (Some e)
    then have "score_entry_ok e" using g1(1) by (auto split: if_splits)
    then have "0 \<le> fst e \<and> fst e \<le> 1" by (auto simp: score_entry_ok_def split: prod.splits)
    then show ?thesis using g1(1) Some \<open>score_entry_ok e\<close> by (auto simp: scored_def Let_def split: if_splits)
  qed
  with Cons.IH [OF g1(2)] Cons.prems(2) g1(3) show ?case by (auto simp: same_turns_def)
qed

lemma loadScores_inv:
  "loadScores se gs fs = Inr gs' \<Longrightarrow> \<forall>g \<in> set gs. scored g \<Longrightarrow> same_turns gs' gs \<and> (\<forall>g \<in> set gs'. scored g)"
  using load_scores_inv by (auto simp: loadScores_def split: sum.splits option.splits)

lemma readState_small: "readState se fs = Inr s \<Longrightarrow> small_state s"
  by (auto simp: readState_def small_boundedState small_no_state split: sum.splits option.splits)

lemma runCurator_cases:
  assumes "runCurator ce fs inp groups meta check = ((r, err), fs')"
  obtains "crSteps r = 0" "err \<noteq> None"
  | rt lmt ol base steps s gs st' where "1 \<le> steps" "steps \<le> 12" "small_state s"
      "gs = groups \<or> (\<exists>se. loadScores se groups fs = Inr gs)"
      "curator_loop ce rt lmt ol inp meta check base 0 (nat steps) [] \<lparr>cuState = s, cuGroups = gs, cuFiles = fs, cuRefs = []\<rparr> = ((r, err), st')"
proof -
  define steps where "steps = (if ceMaxSteps ce = 0 then DefaultCuratorSteps else ceMaxSteps ce)"
  define rt where "rt = (if ceReadTokens ce = 0 then DefaultCuratorReadTokens else ceReadTokens ce)"
  define start where "start = (case ceStore ce of
                 None \<Rightarrow> Inr (no_state, groups)
               | Some se \<Rightarrow> (case ceOpen ce of Some e \<Rightarrow> Inl e
                   | None \<Rightarrow> (case readState se fs of Inl e \<Rightarrow> Inl (Wrapf ''curator state: %w'' [] e)
                       | Inr s \<Rightarrow> (case loadScores se groups fs of Inl e \<Rightarrow> Inl e | Inr gs \<Rightarrow> Inr (s, gs)))))"
  define out1 where "out1 = (if mtOutputReserve meta > 0 then min (min 2048 (max 1 (mtContextWindow meta div 4))) (mtOutputReserve meta)
      else min 2048 (max 1 (mtContextWindow meta div 4)))"
  define lmt0 where "lmt0 = min (mtContextWindow meta - out1 - 8) 16000"
  note R = assms [unfolded runCurator_def Let_def steps_def [symmetric] rt_def [symmetric] start_def [symmetric]
      out1_def [symmetric] lmt0_def [symmetric]]
  show thesis
  proof (cases "steps < 1 \<or> steps > DefaultCuratorSteps \<or> rt < 1 \<or> rt > 12000")
    case True
    then show ?thesis using R that(1) by (auto split: if_splits)
  next
    case ok: False
    show ?thesis
    proof (cases start)
      case (Inl e)
      then show ?thesis using R ok that(1) by (auto split: if_splits)
    next
      case start: (Inr p)
      obtain s gs where p: "p = (s, gs)" by (cases p)
      have sg: "small_state s \<and> (gs = groups \<or> (\<exists>se. loadScores se groups fs = Inr gs))"
        using start p small_no_state by (auto simp: start_def dest: readState_small split: option.splits sum.splits)
      show ?thesis
      proof (cases "shrink_manifest (ceCounter ce) lmt0 (base_prompt ce inp meta (length gs)) (with_state ce inp s) (manifest_of gs)")
        case (Inl e)
        then have "crSteps r = 0 \<and> err \<noteq> None" using R ok unfolding start p by auto
        then show ?thesis using that(1) by blast
      next
        case base: (Inr base)
        obtain r1 e1 st' where loop: "curator_loop ce rt lmt0 out1 inp meta check base 0 (nat steps) []
            \<lparr>cuState = s, cuGroups = gs, cuFiles = fs, cuRefs = []\<rparr> = ((r1, e1), st')" by (metis prod_cases3 surj_pair)
        then have "r1 = r \<and> e1 = err" using R ok base unfolding start p by simp
        with loop have "curator_loop ce rt lmt0 out1 inp meta check base 0 (nat steps) []
            \<lparr>cuState = s, cuGroups = gs, cuFiles = fs, cuRefs = []\<rparr> = ((r, err), st')" by simp
        moreover have "1 \<le> steps" "steps \<le> 12" using ok by (auto simp: DefaultCuratorSteps_def)
        ultimately show ?thesis using that(2) sg by blast
      qed
    qed
  qed
qed

lemma makeGroups_scored: "\<forall>g \<in> set (makeGroups history). scored g"
proof -
  have num: "\<forall>g \<in> set (number_groups n i off gs). scored g" if "off + length (concat gs) = n" for n i off gs
    using that
  proof (induction gs arbitrary: i off)
    case Nil
    then show ?case by simp
  next
    case (Cons ms gs)
    have "1 / 2 \<le> group_score n off (length ms) \<and> group_score n off (length ms) \<le> 1"
      using group_score_bounds [of n off "length ms"] by linarith
    moreover have "3 / 4 \<le> group_score n off (length ms)" if "off < 6 \<or> gs = []"
      using that Cons.prems by (auto simp: group_score_def Let_def)
    ultimately show ?case using Cons by (auto simp: scored_def)
  qed
  show ?thesis using num [of 0 "split_turns history" "length history"] by (simp add: makeGroups_def concat_split_turns)
qed

text \<open>C20. The curator cannot overstep: it always stops, after at most twelve model calls, and a plan it
  returns names known groups once, passed the budget check of the assembler together with its own
  working state, and scores every group in [0,1] with no protected group below three quarters,
  whatever the model answered.\<close>

theorem curator_plan_is_checked:
  assumes "runCurator ce fs inp (makeGroups history) meta check = ((r, err), fs')"
  shows "0 \<le> crSteps r \<and> crSteps r \<le> 12 \<and> (err = None \<longrightarrow> plan_ok (makeGroups history) check r)"
  using assms
proof (cases rule: runCurator_cases)
  case 1
  then show ?thesis by auto
next
  case (2 rt lmt ol base steps s gs st')
  have "same_turns gs (makeGroups history) \<and> (\<forall>g \<in> set gs. scored g)"
    using 2(4) makeGroups_scored loadScores_inv by (metis same_turns_refl)
  then have "curator_inv (makeGroups history) \<lparr>cuState = s, cuGroups = gs, cuFiles = fs, cuRefs = []\<rparr>"
    using 2(3) by (simp add: curator_inv_def)
  from curator_loop_inv [OF 2(5) this makeGroups_distinct] 2(1,2) show ?thesis by auto
qed

definition demo_curated_input :: input where
  "demo_curated_input = \<lparr>inWorkspace = ''w'', inMemory = ''m'', inUserMessage = ''u'', inSkills = '''', inActiveSkills = '''',
     inWorkingState = '''', inHistory = [], inTools = [], inMaxChars = 0, inMaxTokens = 0, inOutputReserve = 0,
     inFastThreshold = 0, inSelectorTimeout = 0\<rparr>"

definition demo_metadata :: metadata where
  "demo_metadata = \<lparr>mtPromptChars = 0, mtRawChars = 0, mtReduced = False, mtPrefixHash = '''', mtPath = '''',
     mtSelectedGroups = [], mtPromptTokens = 0, mtRawTokens = 0, mtContextWindow = 8000, mtOutputReserve = 0,
     mtInputBudget = 100, mtFixedTokens = 0, mtFramingReserve = 0, mtHistoryTokens = 0, mtHistoryBudget = 0,
     mtFastThreshold = 0, mtSectionTokens = [], mtSelectionError = '''', mtCuratorSteps = 0, mtArchiveRefs = []\<rparr>"

definition demo_curator :: curator_env where
  "demo_curator = \<lparr>ceStore = None, ceOpen = None, ceComplete = (\<lambda>_ _ _. Inr ''finish''),
     ceParse = (\<lambda>_. Inr \<lparr>acTool = ''finish'', acIDs = [0], acQuery = '''', acRef = '''', acScores = [], acState = None\<rparr>),
     ceRecall = None, ceCtx = (\<lambda>_ _. None), ceCounter = (\<lambda>_. Inr 1), ceEncMessage = (\<lambda>m. Inr ''''),
     ceEncOutput = (\<lambda>_. Inr ''''), ceEncState = (\<lambda>_. ''''), ceManifest = (\<lambda>_. ''''), ceInstructions = ''choose'',
     ceMaxSteps = 0, ceReadTokens = 0\<rparr>"

lemma curator_plan_is_checked_witness:
  "plan_ok (makeGroups [text_message ''user'' ''hi'']) (\<lambda>ids text. (3, None))
     (fst (fst (runCurator demo_curator [] demo_curated_input (makeGroups [text_message ''user'' ''hi'']) demo_metadata (\<lambda>ids text. (3, None)))))"
proof -
  let ?x = "runCurator demo_curator [] demo_curated_input (makeGroups [text_message ''user'' ''hi'']) demo_metadata (\<lambda>ids text. (3, None))"
  have "snd (fst ?x) = None" by code_simp
  moreover have "?x = ((fst (fst ?x), snd (fst ?x)), snd ?x)" by simp
  ultimately show ?thesis using curator_plan_is_checked by metis
qed

end
