(* ===== verification/Readiness.thy ===== *)
theory Readiness
  imports Approvals
begin

section \<open>Final readiness\<close>

text \<open>
  \<open>internal/governance\<close>: whether a final answer is accepted, given what the turn changed and
  checked, and which shell commands count as a check. A mode is its string. Commands are walked by
  byte; the hash of the reason codes is an argument.
\<close>

subsection \<open>The gate\<close>

record readiness_evidence =
  evChangedPaths :: "string list"
  evAttempted :: bool
  evSucceeded :: bool
  evRunningWorkers :: "string list"
  evReminded :: bool

record reason =
  rnCode :: string
  rnSeverity :: string
  rnMessage :: string

record readiness_decision =
  rdMode :: string
  rdDecision :: string
  rdAction :: string
  rdReasons :: "reason list"
  rdSignature :: string

definition ParseMode :: "string \<Rightarrow> string \<times> bool" where
  "ParseMode value = (let mode = ToLower (TrimSpace value)
     in if mode \<in> {''off'', ''warn'', ''soft'', ''strict''} then (mode, True) else (''warn'', False))"

definition reasonSignature :: "(string \<Rightarrow> string) \<Rightarrow> reason list \<Rightarrow> string" where
  "reasonSignature sum8 reasons = sum8 (join_with ''|'' (map rnCode reasons))"

definition readiness_reasons :: "readiness_evidence \<Rightarrow> reason list" where
  "readiness_reasons e =
     (if evChangedPaths e \<noteq> [] \<and> \<not> evSucceeded e
      then [\<lparr>rnCode = ''changed_paths_without_verification'', rnSeverity = ''hard'',
             rnMessage = (if evAttempted e then ''Files changed, and the latest verification did not succeed.''
                          else ''Files changed, but no successful verification was recorded.'')\<rparr>] else [])
     @ (if evRunningWorkers e \<noteq> []
        then [\<lparr>rnCode = ''workers_still_running'', rnSeverity = ''soft'',
               rnMessage = ''Background workers are still running: '' @ join_with '', '' (evRunningWorkers e) @ ''.''\<rparr>] else [])"

definition Evaluate :: "(string \<Rightarrow> string) \<Rightarrow> string \<Rightarrow> readiness_evidence \<Rightarrow> readiness_decision" where
  "Evaluate sum8 mode e =
     (let decision = \<lparr>rdMode = mode, rdDecision = ''allow'', rdAction = ''none'', rdReasons = [], rdSignature = ''''\<rparr>;
          reasons = readiness_reasons e;
          flagged = decision\<lparr>rdReasons := reasons, rdSignature := reasonSignature sum8 reasons\<rparr>
      in if mode = ''off'' then decision
         else if reasons = [] then decision
         else if mode = ''warn'' then flagged\<lparr>rdDecision := ''warn''\<rparr>
         else if mode = ''soft'' then
           (if evReminded e then flagged\<lparr>rdDecision := ''warn''\<rparr>
            else flagged\<lparr>rdDecision := ''remind'', rdAction := ''runtime_notice''\<rparr>)
         else if mode = ''strict'' then
           (if \<exists>r \<in> set reasons. rnSeverity r = ''hard'' then flagged\<lparr>rdDecision := ''block'', rdAction := ''block''\<rparr>
            else flagged\<lparr>rdDecision := ''warn''\<rparr>)
         else flagged)"

definition readiness_Notice :: "readiness_decision \<Rightarrow> string" where
  "readiness_Notice d =
     (if rdAction d = ''block'' then ''Final answer blocked by the runtime readiness gate:''
      else ''Before final answer, address these readiness issues:'')
     @ newline @ join_with newline (map (\<lambda>r. ''- '' @ rnMessage r) (rdReasons d))
     @ newline @ ''Run the relevant checks, wait for workers, or explain the limitation before returning final again.''"

text \<open>A final answer is held back by a hard reason in strict mode, and once, by any reason, in soft mode.\<close>

definition holds_answer :: "readiness_decision \<Rightarrow> bool" where
  "holds_answer d \<longleftrightarrow> rdAction d = ''runtime_notice'' \<or> rdAction d = ''block''"

lemma Evaluate_holds:
  "holds_answer (Evaluate sum8 mode e) \<longleftrightarrow>
     (mode = ''soft'' \<and> \<not> evReminded e \<and> readiness_reasons e \<noteq> []) \<or>
     (mode = ''strict'' \<and> evChangedPaths e \<noteq> [] \<and> \<not> evSucceeded e)"
proof (cases "readiness_reasons e = []")
  case True
  then have "evChangedPaths e = [] \<or> evSucceeded e" by (auto simp: readiness_reasons_def split: if_splits)
  moreover have "Evaluate sum8 mode e = \<lparr>rdMode = mode, rdDecision = ''allow'', rdAction = ''none'', rdReasons = [], rdSignature = ''''\<rparr>"
    using True by (simp add: Evaluate_def Let_def)
  ultimately show ?thesis using True by (simp add: holds_answer_def)
next
  case False
  define hard where "hard \<longleftrightarrow> (\<exists>r \<in> set (readiness_reasons e). rnSeverity r = ''hard'')"
  have hard: "hard \<longleftrightarrow> evChangedPaths e \<noteq> [] \<and> \<not> evSucceeded e"
    by (cases "evRunningWorkers e = []") (simp_all add: hard_def readiness_reasons_def)
  have e: "Evaluate sum8 mode e = (let f = \<lparr>rdMode = mode, rdDecision = ''allow'', rdAction = ''none'', rdReasons = readiness_reasons e,
      rdSignature = reasonSignature sum8 (readiness_reasons e)\<rparr>
    in if mode = ''off'' then f\<lparr>rdReasons := [], rdSignature := ''''\<rparr>
         else if mode = ''warn'' then f\<lparr>rdDecision := ''warn''\<rparr>
         else if mode = ''soft'' then
           (if evReminded e then f\<lparr>rdDecision := ''warn''\<rparr>
            else f\<lparr>rdDecision := ''remind'', rdAction := ''runtime_notice''\<rparr>)
         else if mode = ''strict'' then
           (if hard then f\<lparr>rdDecision := ''block'', rdAction := ''block''\<rparr> else f\<lparr>rdDecision := ''warn''\<rparr>)
         else f)"
    using False by (simp add: Evaluate_def Let_def hard_def)
  consider "mode = ''soft''" | "mode = ''strict''" | "mode \<noteq> ''soft'' \<and> mode \<noteq> ''strict''" by blast
  then show ?thesis
  proof cases
    case 1
    then show ?thesis using False unfolding e Let_def holds_answer_def by simp
  next
    case 2
    then show ?thesis using hard unfolding e Let_def holds_answer_def by simp
  next
    case 3
    then show ?thesis unfolding e Let_def holds_answer_def by simp
  qed
qed

subsection \<open>Commands that count as a check\<close>

text \<open>The words of one simple command: \<open>None\<close> when it is anything else. The state is the open
  quote, whether a word was started, the word and the words so far.\<close>

definition words_stop :: "char set" where
  "words_stop = set '';&|<>(){}$#'' \<union> {CHR 0x60, CHR 0x5C}"

type_synonym words_state = "char option \<times> bool \<times> string \<times> string list"

definition word_step :: "char \<Rightarrow> words_state \<Rightarrow> words_state option" where
  "word_step ch st = (case st of (quote, started, word, words) \<Rightarrow>
     (if ch = CHR 0x0A \<or> ch = CHR 0x0D \<or> ch = CHR 0x00 then None
      else (case quote of
          Some q \<Rightarrow>
            if ch = q then Some (None, started, word, words)
            else if q = CHR 0x22 \<and> (ch = CHR ''$'' \<or> ch = CHR 0x60 \<or> ch = CHR 0x5C) then None
            else Some (quote, started, word @ [ch], words)
        | None \<Rightarrow>
            if ch = CHR 0x27 \<or> ch = CHR 0x22 then Some (Some ch, True, word, words)
            else if ch = CHR '' '' \<or> ch = CHR 0x09 then
              (if started then Some (None, False, '''', words @ [word]) else Some st)
            else if ch \<in> words_stop then None
            else Some (None, True, word @ [ch], words))))"

fun words_loop :: "string \<Rightarrow> words_state \<Rightarrow> string list option" where
  "words_loop [] (quote, started, word, words) =
     (if quote \<noteq> None then None else Some (if started then words @ [word] else words))"
| "words_loop (ch # cs) st = (case word_step ch st of None \<Rightarrow> None | Some st' \<Rightarrow> words_loop cs st')"

definition verificationWords :: "string \<Rightarrow> string list option" where
  "verificationWords command = words_loop command (None, False, '''', [])"

definition letter :: "char \<Rightarrow> bool" where
  "letter c \<longleftrightarrow> c = CHR ''_'' \<or> (65 \<le> (of_char c :: nat) \<and> (of_char c :: nat) \<le> 90) \<or> (97 \<le> (of_char c :: nat) \<and> (of_char c :: nat) \<le> 122)"

definition digit :: "char \<Rightarrow> bool" where
  "digit c \<longleftrightarrow> 48 \<le> (of_char c :: nat) \<and> (of_char c :: nat) \<le> 57"

definition environmentAssignment :: "string \<Rightarrow> bool" where
  "environmentAssignment word =
     (CHR ''='' \<in> set word \<and>
      (case takeWhile (\<lambda>c. c \<noteq> CHR ''='') word of
         [] \<Rightarrow> False
       | c # cs \<Rightarrow> letter c \<and> list_all (\<lambda>x. letter x \<or> digit x) cs))"

text \<open>\<open>filepath.Base\<close> of an absolute slash path.\<close>

definition base_name :: "string \<Rightarrow> string" where
  "base_name p = (let q = rev (dropWhile (\<lambda>c. c = CHR ''/'') (rev p))
     in if q = '''' then ''/'' else rev (takeWhile (\<lambda>c. c \<noteq> CHR ''/'') (rev q)))"

definition IsVerificationCommand :: "string \<Rightarrow> bool" where
  "IsVerificationCommand command =
     (case verificationWords command of
        None \<Rightarrow> False
      | Some ws \<Rightarrow>
        (case dropWhile environmentAssignment ws of
           [] \<Rightarrow> False
         | first # rest \<Rightarrow>
            (let second = (case rest of [] \<Rightarrow> '''' | w # _ \<Rightarrow> w);
                 third = (case rest of _ # w # _ \<Rightarrow> Some w | _ \<Rightarrow> None);
                 name = (if HasPrefix first ''/'' then base_name first else first)
             in if name = ''go'' then second \<in> {''test'', ''vet'', ''build''}
                else if name \<in> {''pytest'', ''pytest-3'', ''staticcheck''} then True
                else if name = ''golangci-lint'' then second = ''run''
                else if name \<in> {''python'', ''python3''} then second = ''-m'' \<and> third = Some ''pytest''
                else if name \<in> {''npm'', ''pnpm'', ''yarn''} then second = ''test'' \<or> second = ''run'' \<and> third = Some ''test''
                else if name \<in> {''cargo'', ''mvn'', ''gradle'', ''./gradlew''} then second = ''test''
                else if name = ''make'' then second \<in> {''test'', ''check'', ''build''}
                else False)))"

text \<open>A command that chains, pipes, substitutes or comments outside quotes is never a check.\<close>

lemma words_stop_blank: "CHR '' '' \<notin> words_stop" "CHR 0x09 \<notin> words_stop"
  by (simp_all add: words_stop_def)

lemma word_step_plain:
  assumes "word_step ch (None, started, word, words) = Some st" "ch \<noteq> CHR 0x27" "ch \<noteq> CHR 0x22"
  shows "ch \<notin> words_stop \<and> fst st = None"
proof (cases "ch = CHR '' '' \<or> ch = CHR 0x09")
  case True
  then show ?thesis using words_stop_blank assms by (cases started) (auto simp: word_step_def)
next
  case False
  then show ?thesis using assms unfolding word_step_def by (simp split: if_splits) auto
qed

lemma words_loop_plain:
  "words_loop cs st = Some ws \<Longrightarrow> fst st = None \<Longrightarrow> CHR 0x27 \<notin> set cs \<Longrightarrow> CHR 0x22 \<notin> set cs \<Longrightarrow> set cs \<inter> words_stop = {}"
proof (induction cs arbitrary: st)
  case Nil
  then show ?case by simp
next
  case (Cons ch cs)
  then obtain st' where st': "word_step ch st = Some st'" "words_loop cs st' = Some ws" by (auto split: option.splits)
  obtain started word words where "st = (None, started, word, words)" using Cons.prems(2) by (cases st) auto
  with st'(1) have "word_step ch (None, started, word, words) = Some st'" by simp
  then have "ch \<notin> words_stop \<and> fst st' = None" by (rule word_step_plain) (use Cons.prems(3,4) in auto)
  with Cons.IH st'(2) Cons.prems(3,4) show ?case by auto
qed

lemma chained_command_is_no_check:
  assumes "set command \<inter> words_stop \<noteq> {}" "CHR 0x27 \<notin> set command" "CHR 0x22 \<notin> set command"
  shows "\<not> IsVerificationCommand command"
proof (cases "verificationWords command")
  case None
  then show ?thesis by (simp add: IsVerificationCommand_def)
next
  case (Some ws)
  have "set command \<inter> words_stop = {}"
    by (rule words_loop_plain [OF Some [unfolded verificationWords_def] _ assms(2,3)]) simp
  then show ?thesis using assms(1) by contradiction
qed

end
