(* ===== verification/ToolRun.thy ===== *)
theory ToolRun
  imports Readiness Batch Turns
begin

section \<open>Running one tool call\<close>

text \<open>
  \<open>internal/runtime/tool_approval.go\<close>, \<open>tool_preflight.go\<close> and \<open>executeTool\<close>, \<open>boundToolResult\<close>,
  \<open>denied\<close>, \<open>planAllows\<close>, \<open>toolAllowed\<close> of \<open>engine.go\<close> and \<open>agent.go\<close>: the gates a call
  passes, the durable approval it holds while it runs, and the receipt it leaves. The
  approval file is threaded through; the registry is read when the call is prepared and when it is
  admitted; the workspace is read at five points (\<open>teFiles\<close>), the clock and the I/O at one point per
  transaction. Recorded events are not modelled: the code ignores their errors.
\<close>

subsection \<open>The environment of a call\<close>

datatype 'a lookup = Found 'a | Missing | Failing gerr

record file_view =
  fvResolve :: "string \<Rightarrow> gerr + string"
  fvStat :: "string \<Rightarrow> unit lookup"
  fvFresh :: "string \<Rightarrow> bool"
  fvSymlinks :: "string \<Rightarrow> string lookup"
  fvRead :: "string \<Rightarrow> string lookup"

record tool_lib =
  tlApprovals :: approval_lib
  tlNormalise :: "json gomap \<Rightarrow> gerr + json gomap"
  tlClean :: "string \<Rightarrow> string"
  tlSprint :: "json \<Rightarrow> string"
  tlDefinition :: "tool_spec \<Rightarrow> string"
  tlHash :: "string \<Rightarrow> string"
  tlEncArgs :: "json gomap option \<Rightarrow> gerr + string"
  tlRedactArgs :: "json gomap option \<Rightarrow> json gomap option"
  tlRedactText :: "string \<Rightarrow> string"
  tlEncResult :: "tool_result \<Rightarrow> string"
  tlDecResult :: "string \<Rightarrow> gerr + tool_result"

record agent =
  agPrincipal :: string
  agSession :: string
  agRun :: string
  agApproval :: string
  agAsync :: bool
  agAllowed :: "string list"
  agMaxSteps :: nat
  agMaxAttempts :: nat

record 'h tool_env =
  teLib :: tool_lib
  teCtx :: "gerr option"
  teCtxAuthorized :: "gerr option"
  teCtxRun :: "gerr option"
  teCtxAfter :: "gerr option"
  teCatalog :: "(catalog \<times> bool) option"
  tePrepared :: "'h registry"
  teAdmitted :: "'h registry"
  teHost :: 'h
  tePanic :: "string option"
  tePlan :: "string option"
  tePlanAgain :: "string option"
  teFiles :: "nat \<Rightarrow> file_view"
  teApprover :: "bool option"
  teIO :: "nat \<Rightarrow> io"
  teNow :: "nat \<Rightarrow> instant"
  teToken :: "gerr + string"
  teArtifact :: "gerr + string"

subsection \<open>The gates\<close>

definition toolAllowed :: "agent \<Rightarrow> string \<Rightarrow> bool" where
  "toolAllowed ag name \<longleftrightarrow> agAllowed ag = [] \<or> name \<in> set (agAllowed ag)"

definition call_arg :: "tool_call \<Rightarrow> string \<Rightarrow> json option" where
  "call_arg call k = (case tcArgs call of None \<Rightarrow> None | Some a \<Rightarrow> mget a k)"

text \<open>\<open>fmt.Sprint(call.Args[k])\<close>\<close>

definition sprint_arg :: "tool_lib \<Rightarrow> tool_call \<Rightarrow> string \<Rightarrow> string" where
  "sprint_arg lib call k = (case call_arg call k of None \<Rightarrow> ''<nil>'' | Some (JStr s) \<Rightarrow> s | Some v \<Rightarrow> tlSprint lib v)"

definition planAllows :: "tool_lib \<Rightarrow> 'h registry \<Rightarrow> string option \<Rightarrow> tool_call \<Rightarrow> gerr option" where
  "planAllows lib r plan call =
     (case plan of
        None \<Rightarrow> None
      | Some path \<Rightarrow>
          if tcName call \<noteq> ''write_file'' \<and> tcName call \<noteq> ''patch_file'' \<and> tcName call \<noteq> ''run_shell'' then
            (case mget (rgSpecs r) (tcName call) of
               Some spec \<Rightarrow> if spRisky spec then Some (Errorf ''plan mode blocks external side effects'' []) else None
             | None \<Rightarrow> None)
          else if tcName call = ''run_shell'' then Some (Errorf ''plan mode blocks shell execution'' [])
          else if tlClean lib (sprint_arg lib call ''path'') \<noteq> tlClean lib path
          then Some (Errorf ''plan mode only allows writes to %s'' [path])
          else None)"

definition writes_file :: "string \<Rightarrow> bool" where
  "writes_file name \<longleftrightarrow> name = ''write_file'' \<or> name = ''patch_file''"

definition preflightPath :: "file_view \<Rightarrow> tool_call \<Rightarrow> gerr option" where
  "preflightPath fv call =
     (if tcName call \<in> {''read_file'', ''write_file'', ''patch_file'', ''list_files'', ''search'', ''inspect_image''} then
        (let rel = (case call_arg call ''path'' of Some (JStr s) \<Rightarrow> s | _ \<Rightarrow> '''') in
         (case fvResolve fv rel of
            Inl e \<Rightarrow> Some e
          | Inr p \<Rightarrow>
              if writes_file (tcName call) then
                (case fvStat fv p of
                   Found _ \<Rightarrow> if fvFresh fv p then None else Some (Errorf ''read current file before modifying %s'' [rel])
                 | Missing \<Rightarrow> None
                 | Failing e \<Rightarrow> Some e)
              else None))
      else None)"

definition freezeableCalls :: "tool_lib \<Rightarrow> tool_call list \<Rightarrow> gerr option" where
  "freezeableCalls lib calls =
     (let check = (\<lambda>call. case tlEncArgs lib (tcArgs call) of
            Inl e \<Rightarrow> Some e
          | Inr original \<Rightarrow>
             (case tlEncArgs lib (tlRedactArgs lib (tcArgs call)) of
                Inl e \<Rightarrow> Some e
              | Inr safe \<Rightarrow> if original \<noteq> safe \<or> tlRedactText lib original \<noteq> original
                  then Some (Errorf (''tool %s contains secret material; durable approval requires a secret reference ''
                     @ ''instead of raw credentials'') [tcName call])
                  else None))
      in (case find (\<lambda>call. check call \<noteq> None) calls of None \<Rightarrow> None | Some call \<Rightarrow> check call))"

definition approvalAction :: "tool_lib \<Rightarrow> agent \<Rightarrow> file_view \<Rightarrow> tool_call \<Rightarrow> tool_spec \<Rightarrow> gerr + approval_action" where
  "approvalAction lib ag fv call spec =
     (let action = \<lparr>acPrincipal = (if agPrincipal ag = '''' then ''local'' else agPrincipal ag), acSession = agSession ag,
            acTurn = agRun ag, acCallID = tcID call, acTool = tcName call,
            acArgs = (case tcArgs call of None \<Rightarrow> [] | Some a \<Rightarrow> a), acDefinitionDigest = tlDefinition lib spec,
            acPreconditions = []\<rparr>
      in if \<not> writes_file (tcName call) then Inr action
         else
        (case fvResolve fv (sprint_arg lib call ''path'') of
           Inl e \<Rightarrow> Inl e
         | Inr p \<Rightarrow>
          (case fvSymlinks fv p of
             Failing e \<Rightarrow> Inl e
           | target \<Rightarrow>
            (let t = (case target of Found actual \<Rightarrow> actual | _ \<Rightarrow> p) in
             (case fvRead fv (sprint_arg lib call ''path'') of
                Failing e \<Rightarrow> Inl e
              | Missing \<Rightarrow> Inr (action\<lparr>acPreconditions := mput ''content'' ''absent'' (mput ''target'' t [])\<rparr>)
              | Found data \<Rightarrow> Inr (action\<lparr>acPreconditions := mput ''content'' (tlHash lib data) (mput ''target'' t [])\<rparr>))))))"

subsection \<open>Authorization\<close>

datatype authorization =
    Unguarded
  | Granted approval_claim
  | Replayed tool_result
  | Paused string string
  | Refused gerr

fun status_name :: "approval_status \<Rightarrow> string" where
  "status_name Pending = ''pending''"
| "status_name Approved = ''approved''"
| "status_name Denied = ''denied''"
| "status_name Expired = ''expired''"
| "status_name Claimed = ''claimed''"
| "status_name Completed = ''completed''"
| "status_name Failed = ''failed''"
| "status_name Unknown = ''unknown''"

text \<open>Consent: \<open>None\<close> when the record may be claimed.\<close>

definition consent ::
  "agent \<Rightarrow> 'h tool_env \<Rightarrow> approval_record \<Rightarrow> string \<Rightarrow> approval_state content \<Rightarrow> authorization option \<times> approval_state content" where
  "consent ag e r who d =
     (if agAsync ag \<and> agApproval ag = ''ask'' then
        (if arStatus r = Pending then (Some (Paused (arID r) ''explicit approve or deny required''), d)
         else if arStatus r \<noteq> Approved then (Some (Refused (Errorf ''approval %s'' [status_name (arStatus r)])), d)
         else (None, d))
      else
        (let decision = Check (agApproval ag) True (teApprover e) in
         (case Decide (teIO e 2) (teNow e 2) (arID r) who (pdAllowed decision) d of
            ((_, Some x), d1) \<Rightarrow> (Some (Refused x), d1)
          | ((_, None), d1) \<Rightarrow>
              if pdAllowed decision then (None, d1) else (Some (Refused (Errorf ''%s'' [pdReason decision])), d1))))"

text \<open>The gates again, over the workspace as it is now, and the claim.\<close>

definition claim_action ::
  "agent \<Rightarrow> 'h tool_env \<Rightarrow> tool_call \<Rightarrow> tool_spec \<Rightarrow> approval_record \<Rightarrow> string \<Rightarrow> approval_state content
     \<Rightarrow> authorization \<times> approval_state content" where
  "claim_action ag e call spec r who d =
     (if \<not> toolAllowed ag (tcName call) then (Refused (Errorf ''tool authorization changed'' []), d)
      else (case planAllows (teLib e) (tePrepared e) (tePlanAgain e) call of
         Some x \<Rightarrow> (Refused x, d)
       | None \<Rightarrow>
        (case preflightPath (teFiles e 2) call of
           Some x \<Rightarrow> (Refused x, d)
         | None \<Rightarrow>
          (case approvalAction (teLib e) ag (teFiles e 3) call spec of
             Inl x \<Rightarrow> (Refused x, d)
           | Inr current \<Rightarrow>
            (case approval_Claim (tlApprovals (teLib e)) (teIO e 3) (teNow e 3) (teToken e) (arID r) who current d of
               ((c, None), d1) \<Rightarrow> (Granted c, d1)
             | ((c, Some x), d1) \<Rightarrow>
                 if errors_is x ErrApprovalChanged then (Paused (arID r) (Error x), d1) else (Refused x, d1))))))"

definition ask_and_claim ::
  "agent \<Rightarrow> 'h tool_env \<Rightarrow> tool_call \<Rightarrow> tool_spec \<Rightarrow> approval_state content \<Rightarrow> authorization \<times> approval_state content" where
  "ask_and_claim ag e call spec d =
     (case preflightPath (teFiles e 0) call of
        Some x \<Rightarrow> (Refused x, d)
      | None \<Rightarrow>
       (case freezeableCalls (teLib e) [call] of
          Some x \<Rightarrow> (Refused x, d)
        | None \<Rightarrow>
         (case approvalAction (teLib e) ag (teFiles e 1) call spec of
            Inl x \<Rightarrow> (Refused x, d)
          | Inr action \<Rightarrow>
           (case Create (tlApprovals (teLib e)) (teIO e 1) (teNow e 1) action (10 * Minute) d of
              ((r, Some x), d1) \<Rightarrow> (Refused x, d1)
            | ((r, None), d1) \<Rightarrow>
             (case consent ag e r (acPrincipal action) d1 of
                (Some a, d2) \<Rightarrow> (a, d2)
              | (None, d2) \<Rightarrow> claim_action ag e call spec r (acPrincipal action) d2)))))"

definition call_identity :: "agent \<Rightarrow> tool_call \<Rightarrow> approval_action" where
  "call_identity ag call = no_action\<lparr>acPrincipal := agPrincipal ag, acSession := agSession ag, acTurn := agRun ag, acCallID := tcID call\<rparr>"

definition args_text :: "tool_lib \<Rightarrow> json gomap option \<Rightarrow> string" where
  "args_text lib a = (case tlEncArgs lib a of Inl _ \<Rightarrow> '''' | Inr s \<Rightarrow> s)"

definition authorizeTool ::
  "agent \<Rightarrow> 'h tool_env \<Rightarrow> tool_call \<Rightarrow> tool_spec \<Rightarrow> approval_state content \<Rightarrow> authorization \<times> approval_state content" where
  "authorizeTool ag e call spec d =
     (if \<not> spRisky spec then (Unguarded, d)
      else (case approval_Find (tlApprovals (teLib e)) (teIO e 0) (call_identity ag call) d of
         Inl x \<Rightarrow> (Refused x, d)
       | Inr None \<Rightarrow> ask_and_claim ag e call spec d
       | Inr (Some prior) \<Rightarrow>
          if arStatus prior = Claimed \<or> arStatus prior = Unknown
          then (Paused (arID prior) ''tool outcome unknown; reconcile before retry'', d)
          else if arStatus prior = Completed then
            (if args_text (teLib e) (tcArgs call) \<noteq> args_text (teLib e) (Some (acArgs (arAction prior)))
                \<or> acDefinitionDigest (arAction prior) \<noteq> tlDefinition (teLib e) spec
             then (Refused ErrApprovalChanged, d)
             else (case tlDecResult (teLib e) (arReceipt prior) of
                     Inl x \<Rightarrow> (Refused x, d) | Inr res \<Rightarrow> (Replayed res, d)))
          else if arStatus prior = Denied \<or> arStatus prior = Expired
          then (Refused (Errorf ''approval %s'' [status_name (arStatus prior)]), d)
          else ask_and_claim ag e call spec d))"

text \<open>What the returned closure does with the result.\<close>

definition finish_approval ::
  "agent \<Rightarrow> 'h tool_env \<Rightarrow> approval_claim \<Rightarrow> tool_result \<Rightarrow> approval_state content \<Rightarrow> tool_result \<times> approval_state content" where
  "finish_approval ag e c res d =
     (let outcome = (if trStatus res \<noteq> ''ok'' \<and> trErrorCode res \<noteq> ''definition_changed'' \<and> trErrorCode res \<noteq> ''already_invoked''
            then Unknown else Completed)
      in (case Finish (teIO e 4) (teNow e 4) c outcome (tlRedactText (teLib e) (tlEncResult (teLib e) res)) d of
            (Some x, d1) \<Rightarrow> (res\<lparr>trStatus := ''error'',
               trError := ''tool finished but approval receipt could not be persisted; reconcile before retry: '' @ Error x,
               trErrorCode := ''receipt_unknown''\<rparr>, d1)
          | (None, d1) \<Rightarrow> (if outcome = Unknown \<and> agAsync ag then res\<lparr>trErrorCode := ''effect_unknown''\<rparr> else res, d1)))"

subsection \<open>The call\<close>

definition boundToolResult :: "'h tool_env \<Rightarrow> tool_result \<Rightarrow> tool_result" where
  "boundToolResult e res =
     (let rs = runes (trOutput res) in
      if length rs > 16000 then
        (case teArtifact e of
           Inr path \<Rightarrow> res\<lparr>trMetadata := mput ''full_output_artifact'' (JStr path) (trMetadata res),
             trOutput := concat (take 16000 rs) @ newline @ ''...[full output written to artifact]''\<rparr>
         | Inl _ \<Rightarrow> res\<lparr>trOutput := concat (take 16000 rs) @ newline
             @ ''...[output truncated; full artifact persistence failed]''\<rparr>)
      else res)"

definition denied :: "tool_call \<Rightarrow> string \<Rightarrow> string \<Rightarrow> tool_result \<times> 'h invocation option" where
  "denied call reason code = (tool_error (tcName call) reason code, None)"

text \<open>What follows a positive authorization: the last checks, the run with its recovered panic, and
  the receipt. The result carries the invocation when one was handed to the registry.\<close>

definition dispatch ::
  "agent \<Rightarrow> 'h tool_env \<Rightarrow> 'h invocation \<Rightarrow> authorization \<Rightarrow> approval_state content
     \<Rightarrow> (tool_result \<times> 'h invocation option) \<times> approval_state content" where
  "dispatch ag e i auth d =
     (case teCtxAuthorized e of
        Some x \<Rightarrow> (denied (ivCall i) (Error x) ''cancelled'', d)
      | None \<Rightarrow>
     (case preflightPath (teFiles e 4) (ivCall i) of
        Some x \<Rightarrow> (denied (ivCall i) (Error x) ''path_precondition'', d)
      | None \<Rightarrow>
     (case invocation_run (teCtxRun e) (teAdmitted e) (teHost e) i of
        (res, i1) \<Rightarrow>
          (case (if ivUsed i1 then tePanic e else None) of
             Some p \<Rightarrow> ((tool_error (tcName (ivCall i)) (''tool panicked; outcome requires reconciliation: '' @ p) ''effect_unknown'',
                 Some i1), d)
           | None \<Rightarrow>
              (case auth of
                 Granted c \<Rightarrow> (case finish_approval ag e c res d of (res1, d1) \<Rightarrow> ((boundToolResult e res1, Some i1), d1))
               | _ \<Rightarrow> ((boundToolResult e res, Some i1), d))))))"

definition executeTool ::
  "agent \<Rightarrow> 'h tool_env \<Rightarrow> tool_call \<Rightarrow> approval_state content
     \<Rightarrow> (tool_result \<times> 'h invocation option) \<times> approval_state content" where
  "executeTool ag e call d =
     (case teCtx e of
        Some x \<Rightarrow> (denied call (Error x) ''cancelled'', d)
      | None \<Rightarrow>
     (if \<not> toolAllowed ag (tcName call)
      then (denied call ''tool is not allowed by the active profile'' ''tool_not_allowed'', d)
      else
     (case PrepareContext (tlNormalise (teLib e)) (teCatalog e) (tePrepared e) call of
        Inl x \<Rightarrow> (denied call (Error x) ''invalid_or_changed_tool'', d)
      | Inr i \<Rightarrow>
     (case planAllows (teLib e) (tePrepared e) (tePlan e) (ivCall i) of
        Some x \<Rightarrow> (denied (ivCall i) (Error x) ''plan_mode'', d)
      | None \<Rightarrow>
     (case authorizeTool ag e (ivCall i) (ivSpec i) d of
        (Replayed res, d1) \<Rightarrow> ((boundToolResult e res, None), d1)
      | (Paused k reason, d1) \<Rightarrow>
          ((no_result\<lparr>trName := tcName (ivCall i), trStatus := ''pending'', trError := reason,
              trErrorCode := ''approval_pending'', trMetadata := [(''approval_id'', JStr k)]\<rparr>, None), d1)
      | (Refused x, d1) \<Rightarrow> (denied (ivCall i) (Error x) ''approval_denied'', d1)
      | (auth, d1) \<Rightarrow> dispatch ag e i auth d1)))))"

subsection \<open>A call in the history of the approval file\<close>

lemma claimed_in_append [simp]: "claimed_in (xs @ ys) k \<longleftrightarrow> claimed_in xs k \<or> claimed_in ys k"
  by (auto simp: claimed_in_def)

lemma claimed_in_Created [simp]: "claimed_in (Created a b # xs) k \<longleftrightarrow> claimed_in xs k"
  by (auto simp: claimed_in_def)

lemma consented_in_Created [simp]: "consented_in (Created a b # xs) k who \<longleftrightarrow> consented_in xs k who"
  by (auto simp: consented_in_def)

lemma Create_record_id:
  assumes "approvals_run lib tr d" "Create lib e now a ttl d = ((r, None), d')"
  shows "arID r = alID lib a"
proof -
  obtain v where v: "decode [] d = Inr v" "approvals_inv lib tr v" using approvals_run_inv [OF assms(1)] by blast
  obtain dg fz ttl' where u: "file_update [] e no_record (create_fn (alID lib a) dg fz ttl' now) d = ((r, None), d')"
    using assms(2) by (auto simp: Create_def Let_def split: if_splits sum.splits)
  then obtain w w' where w: "decode [] d = Inr w" "create_fn (alID lib a) dg fz ttl' now w = (r, Inr w')"
    by (rule file_update_done)
  then show ?thesis
  proof (cases "mget w (alID lib a)")
    case None
    then show ?thesis using w(2) by (auto simp: create_fn_def Let_def)
  next
    case (Some old)
    then show ?thesis using w v record_okD [OF v(2), of "alID lib a" old]
      by (auto simp: create_fn_def record_ok_def split: if_splits)
  qed
qed

lemma approvalAction_identity:
  "approvalAction lib ag fv call spec = Inr a \<Longrightarrow>
     acSession a = agSession ag \<and> acTurn a = agRun ag \<and> acCallID a = tcID call \<and> acTool a = tcName call
     \<and> acPrincipal a = (if agPrincipal ag = '''' then ''local'' else agPrincipal ag)"
proof -
  assume a: "approvalAction lib ag fv call spec = Inr a"
  define b where "b = \<lparr>acPrincipal = (if agPrincipal ag = '''' then ''local'' else agPrincipal ag), acSession = agSession ag,
            acTurn = agRun ag, acCallID = tcID call, acTool = tcName call,
            acArgs = (case tcArgs call of None \<Rightarrow> [] | Some a \<Rightarrow> a), acDefinitionDigest = tlDefinition lib spec,
            acPreconditions = []\<rparr>"
  have "\<exists>pre. a = b\<lparr>acPreconditions := pre\<rparr>"
  proof (cases "writes_file (tcName call)")
    case False
    then have "a = b" using a by (simp add: approvalAction_def b_def)
    then show ?thesis by (intro exI [of _ "acPreconditions b"]) simp
  next
    case True
    then show ?thesis using a unfolding approvalAction_def Let_def b_def [symmetric]
      by (simp split: sum.splits lookup.splits) blast+
  qed
  then show ?thesis by (auto simp: b_def)
qed

lemma consent_history:
  assumes "approvals_run lib tr d" "consent ag e r who d = (a, d')"
  shows "\<exists>tr'. approvals_run lib (tr @ tr') d' \<and> (\<forall>k. \<not> claimed_in tr' k)"
proof (cases "agAsync ag \<and> agApproval ag = ''ask''")
  case True
  then have "d' = d" using assms(2) by (auto simp: consent_def split: if_splits)
  then show ?thesis using assms(1) by (intro exI [of _ "[]"]) (simp add: claimed_in_def)
next
  case False
  obtain r1 x d1 where dec: "Decide (teIO e 2) (teNow e 2) (arID r) who (pdAllowed (Check (agApproval ag) True (teApprover e))) d = ((r1, x), d1)"
    by (metis surj_pair)
  then have "d' = d1" using False assms(2) by (auto simp: consent_def Let_def split: option.splits if_splits)
  then show ?thesis using approvals_run.decide [OF assms(1) dec] by (intro exI [of _ "[_]"]) (auto simp: claimed_in_def)
qed

text \<open>What a granted authorization means: a claim that no earlier event of the history made, with the
  consent of the principal, after the gates.\<close>

definition granted_in ::
  "agent \<Rightarrow> 'h tool_env \<Rightarrow> tool_call \<Rightarrow> approval_event list \<Rightarrow> approval_event list \<Rightarrow> approval_action \<Rightarrow> bool" where
  "granted_in ag e call tr tr' a \<longleftrightarrow>
     acSession a = agSession ag \<and> acTurn a = agRun ag \<and> acCallID a = tcID call \<and> acTool a = tcName call
     \<and> \<not> claimed_in tr (alID (tlApprovals (teLib e)) a) \<and> claimed_in tr' (alID (tlApprovals (teLib e)) a)
     \<and> consented_in (tr @ tr') (alID (tlApprovals (teLib e)) a) (acPrincipal a)
     \<and> planAllows (teLib e) (tePrepared e) (tePlanAgain e) call = None"

lemma claim_action_history:
  assumes run: "approvals_run (tlApprovals (teLib e)) tr d" and "claim_action ag e call spec r who d = (auth, d')"
  shows "\<exists>tr'. approvals_run (tlApprovals (teLib e)) (tr @ tr') d'
     \<and> (\<forall>c. auth = Granted c \<longrightarrow> \<not> claimed_in tr (arID r) \<and> claimed_in tr' (arID r) \<and> consented_in tr (arID r) who
          \<and> planAllows (teLib e) (tePrepared e) (tePlanAgain e) call = None)"
proof (cases "\<exists>current. toolAllowed ag (tcName call) \<and> planAllows (teLib e) (tePrepared e) (tePlanAgain e) call = None
    \<and> preflightPath (teFiles e 2) call = None \<and> approvalAction (teLib e) ag (teFiles e 3) call spec = Inr current")
  case False
  then have "d' = d \<and> (\<forall>c. auth \<noteq> Granted c)"
    using assms(2) by (auto simp: claim_action_def split: if_splits option.splits sum.splits)
  then show ?thesis using run by (intro exI [of _ "[]"]) simp
next
  case True
  then obtain current where cur: "toolAllowed ag (tcName call)" "planAllows (teLib e) (tePrepared e) (tePlanAgain e) call = None"
    "preflightPath (teFiles e 2) call = None" "approvalAction (teLib e) ag (teFiles e 3) call spec = Inr current" by blast
  obtain c x d1 where cl: "approval_Claim (tlApprovals (teLib e)) (teIO e 3) (teNow e 3) (teToken e) (arID r) who current d = ((c, x), d1)"
    by (metis surj_pair)
  have d': "d' = d1" and auth: "auth = Granted c' \<Longrightarrow> x = None" for c'
    using assms(2) cur cl by (auto simp: claim_action_def split: option.splits if_splits)
  have run1: "approvals_run (tlApprovals (teLib e)) (tr @ [ClaimedBy (arID r) who current (x = None)]) d1"
    by (rule approvals_run.claim [OF run cl])
  have "\<not> claimed_in tr (arID r) \<and> consented_in tr (arID r) who" if "x = None"
    using approvals_run_claims [OF run1] that by (auto simp: claims_ok_def)
  then show ?thesis using run1 d' auth cur(2)
    by (intro exI [of _ "[ClaimedBy (arID r) who current (x = None)]"]) (auto simp: claimed_in_def)
qed

lemma consented_in_append [simp]: "consented_in (xs @ ys) k who \<longleftrightarrow> consented_in xs k who \<or> consented_in ys k who"
  by (auto simp: consented_in_def)

lemma ask_and_claim_history:
  assumes run: "approvals_run (tlApprovals (teLib e)) tr d" and "ask_and_claim ag e call spec d = (auth, d')"
  shows "\<exists>tr'. approvals_run (tlApprovals (teLib e)) (tr @ tr') d'
     \<and> (\<forall>c. auth = Granted c \<longrightarrow> (\<exists>a. granted_in ag e call tr tr' a))"
proof (cases "\<exists>action. preflightPath (teFiles e 0) call = None \<and> freezeableCalls (teLib e) [call] = None
    \<and> approvalAction (teLib e) ag (teFiles e 1) call spec = Inr action")
  case False
  then have "d' = d \<and> (\<forall>c. auth \<noteq> Granted c)"
    using assms(2) by (auto simp: ask_and_claim_def split: option.splits sum.splits)
  then show ?thesis using run by (intro exI [of _ "[]"]) simp
next
  case True
  then obtain action where act: "preflightPath (teFiles e 0) call = None" "freezeableCalls (teLib e) [call] = None"
    "approvalAction (teLib e) ag (teFiles e 1) call spec = Inr action" by blast
  obtain r x d1 where cr: "Create (tlApprovals (teLib e)) (teIO e 1) (teNow e 1) action (10 * Minute) d = ((r, x), d1)"
    by (metis surj_pair)
  note run1 = approvals_run.create [OF run cr]
  show ?thesis
  proof (cases x)
    case (Some y)
    then have "d' = d1 \<and> (\<forall>c. auth \<noteq> Granted c)" using assms(2) act cr by (simp add: ask_and_claim_def) blast
    then show ?thesis using run1 by (intro exI [of _ "[_]"]) auto
  next
    case None
    have k: "arID r = alID (tlApprovals (teLib e)) action" using Create_record_id [OF run] cr None by simp
    obtain a2 d2 where co: "consent ag e r (acPrincipal action) d1 = (a2, d2)" by fastforce
    from consent_history [OF run1 co] obtain tr2 where
      run2: "approvals_run (tlApprovals (teLib e)) ((tr @ [Created action (x = None)]) @ tr2) d2" and n: "\<forall>k. \<not> claimed_in tr2 k" by blast
    show ?thesis
    proof (cases a2)
      case (Some a)
      then have "d' = d2 \<and> auth = a" using assms(2) act cr None co by (simp add: ask_and_claim_def)
      moreover have "\<forall>c. a \<noteq> Granted c" using co Some by (auto simp: consent_def Let_def split: if_splits prod.splits option.splits)
      ultimately show ?thesis using run2 by (intro exI [of _ "[Created action (x = None)] @ tr2"]) simp
    next
      case none: None
      then have "claim_action ag e call spec r (acPrincipal action) d2 = (auth, d')"
        using assms(2) act cr None co by (simp add: ask_and_claim_def)
      from claim_action_history [OF run2 this] obtain tr3 where
        t3: "approvals_run (tlApprovals (teLib e)) (((tr @ [Created action (x = None)]) @ tr2) @ tr3) d'"
        "\<forall>c. auth = Granted c \<longrightarrow> \<not> claimed_in ((tr @ [Created action (x = None)]) @ tr2) (arID r) \<and> claimed_in tr3 (arID r)
          \<and> consented_in ((tr @ [Created action (x = None)]) @ tr2) (arID r) (acPrincipal action)
          \<and> planAllows (teLib e) (tePrepared e) (tePlanAgain e) call = None" by blast
      have "granted_in ag e call tr ([Created action (x = None)] @ tr2 @ tr3) action" if "auth = Granted c" for c
        using t3(2) that approvalAction_identity [OF act(3)] by (auto simp: granted_in_def k)
      then show ?thesis using t3(1) by (intro exI [of _ "[Created action (x = None)] @ tr2 @ tr3"]) auto
    qed
  qed
qed

lemma authorizeTool_history:
  assumes run: "approvals_run (tlApprovals (teLib e)) tr d" and "authorizeTool ag e call spec d = (auth, d')"
  shows "\<exists>tr'. approvals_run (tlApprovals (teLib e)) (tr @ tr') d'
     \<and> (\<forall>c. auth = Granted c \<longrightarrow> (\<exists>a. granted_in ag e call tr tr' a)) \<and> (spRisky spec \<longrightarrow> auth \<noteq> Unguarded)"
proof (cases "ask_and_claim ag e call spec d = (auth, d') \<and> spRisky spec")
  case True
  moreover have "auth \<noteq> Unguarded" using True
    by (auto simp: ask_and_claim_def claim_action_def consent_def Let_def split: if_splits option.splits sum.splits prod.splits)
  ultimately show ?thesis using ask_and_claim_history [OF run, of ag call spec auth d'] by blast
next
  case False
  then have "d' = d \<and> (\<forall>c. auth \<noteq> Granted c) \<and> (spRisky spec \<longrightarrow> auth \<noteq> Unguarded)"
    using assms(2) by (auto simp: authorizeTool_def split: if_splits sum.splits option.splits)
  then show ?thesis using run by (intro exI [of _ "[]"]) simp
qed

lemma dispatch_history:
  assumes run: "approvals_run (tlApprovals (teLib e)) tr d" and "dispatch ag e i auth d = (r, d')"
  shows "\<exists>tr'. approvals_run (tlApprovals (teLib e)) (tr @ tr') d'"
proof (cases "d' = d")
  case True
  then show ?thesis using run by (intro exI [of _ "[]"]) simp
next
  case False
  then obtain c res res1 where f: "finish_approval ag e c res d = (res1, d')"
    using assms(2) unfolding dispatch_def by (simp split: option.splits prod.splits authorization.splits if_splits)
  then obtain out x receipt where "Finish (teIO e 4) (teNow e 4) c out receipt d = (x, d')"
    by (auto simp: finish_approval_def Let_def split: prod.splits option.splits)
  from approvals_run.finish [OF run this] show ?thesis by blast
qed

lemma dispatch_invocation:
  "dispatch ag e i auth d = ((res, Some i1), d') \<Longrightarrow> ivCall i1 = ivCall i \<and> ivSpec i1 = ivSpec i"
proof -
  assume a: "dispatch ag e i auth d = ((res, Some i1), d')"
  obtain r2 i2 where inv: "invocation_run (teCtxRun e) (teAdmitted e) (teHost e) i = (r2, i2)" by fastforce
  have "i2 = i \<or> i2 = i\<lparr>ivUsed := True\<rparr>"
    using inv by (auto simp: invocation_run_def Let_def split: option.splits if_splits prod.splits)
  moreover have "i1 = i2"
    using a inv unfolding dispatch_def denied_def by (simp split: option.splits prod.splits authorization.splits)
  ultimately show ?thesis by auto
qed

text \<open>When a call is handed to the registry.\<close>

lemma executeTool_dispatched:
  assumes "executeTool ag e call d = ((res, Some i1), d')"
  obtains i auth d1 where "toolAllowed ag (tcName call)"
    "PrepareContext (tlNormalise (teLib e)) (teCatalog e) (tePrepared e) call = Inr i"
    "planAllows (teLib e) (tePrepared e) (tePlan e) (ivCall i) = None"
    "authorizeTool ag e (ivCall i) (ivSpec i) d = (auth, d1)" "auth = Unguarded \<or> (\<exists>c. auth = Granted c)"
    "dispatch ag e i auth d1 = ((res, Some i1), d')"
proof -
  obtain i where i: "toolAllowed ag (tcName call)"
    "PrepareContext (tlNormalise (teLib e)) (teCatalog e) (tePrepared e) call = Inr i"
    "planAllows (teLib e) (tePrepared e) (tePlan e) (ivCall i) = None" "teCtx e = None"
    using assms by (auto simp: executeTool_def denied_def split: option.splits if_splits sum.splits)
  obtain auth d1 where a: "authorizeTool ag e (ivCall i) (ivSpec i) d = (auth, d1)" by fastforce
  have "(auth = Unguarded \<or> (\<exists>c. auth = Granted c)) \<and> dispatch ag e i auth d1 = ((res, Some i1), d')"
    using assms i a by (cases auth) (simp_all add: executeTool_def denied_def)
  with i(1-3) a that show ?thesis by blast
qed

text \<open>C21. A risky tool runs once and with consent: whenever the handler of a risky tool is run, the
  profile and the plan allowed the call, its principal had consented to it, and the call claimed
  its approval record, which no event of the history before had claimed; the claim stays in the
  history, so that no later call with that identity can be run.\<close>

theorem risky_call_runs_once:
  assumes "approvals_run (tlApprovals (teLib e)) tr d"
    and "executeTool ag e call d = ((res, Some i), d')" and "spRisky (ivSpec i)"
  shows "toolAllowed ag (tcName call) \<and> planAllows (teLib e) (tePrepared e) (tePlan e) (ivCall i) = None
     \<and> (\<exists>tr' a. approvals_run (tlApprovals (teLib e)) (tr @ tr') d' \<and> granted_in ag e (ivCall i) tr tr' a)"
proof -
  obtain i0 auth d1 where g: "toolAllowed ag (tcName call)"
    "planAllows (teLib e) (tePrepared e) (tePlan e) (ivCall i0) = None"
    "authorizeTool ag e (ivCall i0) (ivSpec i0) d = (auth, d1)" "auth = Unguarded \<or> (\<exists>c. auth = Granted c)"
    "dispatch ag e i0 auth d1 = ((res, Some i), d')"
    using executeTool_dispatched [OF assms(2)] by metis
  have same: "ivCall i = ivCall i0" "ivSpec i = ivSpec i0" using dispatch_invocation [OF g(5)] by simp_all
  from authorizeTool_history [OF assms(1) g(3)] g(4) assms(3) same obtain tr1 a where
    t1: "approvals_run (tlApprovals (teLib e)) (tr @ tr1) d1" "granted_in ag e (ivCall i0) tr tr1 a" by auto
  from dispatch_history [OF t1(1) g(5)] obtain tr2 where
    t2: "approvals_run (tlApprovals (teLib e)) ((tr @ tr1) @ tr2) d'" by blast
  have "granted_in ag e (ivCall i0) tr (tr1 @ tr2) a" using t1(2) by (auto simp: granted_in_def)
  with t2 g(1,2) same show ?thesis by auto
qed

definition demo_tools :: tool_lib where
  "demo_tools = \<lparr>tlApprovals = demo_approvals, tlNormalise = Inr, tlClean = id, tlSprint = (\<lambda>_. ''''),
     tlDefinition = (\<lambda>_. ''def''), tlHash = id, tlEncArgs = (\<lambda>_. Inr ''{}''), tlRedactArgs = id, tlRedactText = id,
     tlEncResult = trStatus, tlDecResult = (\<lambda>_. Inl EOF)\<rparr>"

definition demo_shell_registry :: "unit registry" where
  "demo_shell_registry = \<lparr>rgSpecs = [(''run_shell'', \<lparr>spName = ''run_shell'', spRisky = True, spDescription = '''', spSchema = ''''\<rparr>)],
     rgHandlers = [(''run_shell'', \<lambda>_ _. (''out'', [], None, []))], rgCapabilities = [], rgValidators = [], rgOwners = [],
     rgGenerations = [(''run_shell'', 1)], rgGeneration = 1\<rparr>"

definition demo_tool_env :: "unit tool_env" where
  "demo_tool_env = \<lparr>teLib = demo_tools, teCtx = None, teCtxAuthorized = None, teCtxRun = None, teCtxAfter = None, teCatalog = None,
     tePrepared = demo_shell_registry, teAdmitted = demo_shell_registry, teHost = (), tePanic = None, tePlan = None,
     tePlanAgain = None, teFiles = (\<lambda>_. \<lparr>fvResolve = Inr, fvStat = (\<lambda>_. Missing), fvFresh = (\<lambda>_. True),
       fvSymlinks = (\<lambda>_. Missing), fvRead = (\<lambda>_. Missing)\<rparr>),
     teApprover = None, teIO = (\<lambda>_. io_ok), teNow = int, teToken = Inr ''tok'', teArtifact = Inr ''a''\<rparr>"

definition demo_agent :: agent where
  "demo_agent = \<lparr>agPrincipal = ''u'', agSession = ''s'', agRun = ''t'', agApproval = ''auto'', agAsync = False, agAllowed = [],
     agMaxSteps = 5, agMaxAttempts = 5\<rparr>"

definition demo_shell_call :: tool_call where
  "demo_shell_call = \<lparr>tcID = ''c'', tcName = ''run_shell'', tcArgs = Some []\<rparr>"

lemma demo_execute:
  "\<exists>i d'. executeTool demo_agent demo_tool_env demo_shell_call Absent
     = ((no_result\<lparr>trName := ''run_shell'', trStatus := ''ok'', trOutput := ''out''\<rparr>, Some i), d')
   \<and> spRisky (ivSpec i) \<and> ivCall i = demo_shell_call"
proof -
  let ?i = "\<lparr>ivCall = demo_shell_call, ivSpec = \<lparr>spName = ''run_shell'', spRisky = True, spDescription = '''', spSchema = ''''\<rparr>,
     ivHandler = (\<lambda>_ _. (''out'', [], None, [])), ivPrivate = demo_shell_call, ivGeneration = 1, ivUsed = False\<rparr> :: unit invocation"
  have p: "PrepareContext (tlNormalise (teLib demo_tool_env)) (teCatalog demo_tool_env) (tePrepared demo_tool_env) demo_shell_call = Inr ?i"
    by (simp add: PrepareContext_def prepare_def demo_tool_env_def demo_tools_def demo_shell_registry_def demo_shell_call_def
        validateCall_def generation_at_def mget_def)
  have a: "\<exists>c d1. authorizeTool demo_agent demo_tool_env demo_shell_call (ivSpec ?i) Absent = (Granted c, d1)
      \<and> finish_approval demo_agent demo_tool_env c r d1 = (r, snd (finish_approval demo_agent demo_tool_env c r d1))" if "trStatus r = ''ok''" for r
    using that
    by (simp add: authorizeTool_def approval_Find_def ask_and_claim_def preflightPath_def freezeableCalls_def approvalAction_def
        consent_def claim_action_def Create_def Decide_def approval_Claim_def create_fn_def decide_fn_def claim_fn_def Check_def
        planAllows_def toolAllowed_def demo_tool_env_def demo_tools_def demo_shell_call_def demo_agent_def demo_approvals_def
        writes_file_def finish_approval_def Finish_def finish_fn_def mput_def mget_def Let_def Minute_def Second_def)
  let ?r = "no_result\<lparr>trName := ''run_shell'', trStatus := ''ok'', trOutput := ''out''\<rparr>"
  obtain c d1 d2 where c: "authorizeTool demo_agent demo_tool_env demo_shell_call (ivSpec ?i) Absent = (Granted c, d1)"
    "finish_approval demo_agent demo_tool_env c ?r d1 = (?r, d2)"
    using a [of ?r] by auto
  have inv: "invocation_run (teCtxRun demo_tool_env) (teAdmitted demo_tool_env) (teHost demo_tool_env) ?i = (?r, ?i\<lparr>ivUsed := True\<rparr>)"
    by (simp add: invocation_run_def demo_tool_env_def demo_shell_registry_def demo_shell_call_def mget_def no_result_def Let_def)
  have b: "boundToolResult demo_tool_env ?r = ?r" by (simp add: boundToolResult_def no_result_def)
  have "executeTool demo_agent demo_tool_env demo_shell_call Absent
      = ((?r, Some (?i\<lparr>ivUsed := True\<rparr>)), d2)"
  proof -
    have "dispatch demo_agent demo_tool_env ?i (Granted c) d1
        = ((?r, Some (?i\<lparr>ivUsed := True\<rparr>)), d2)"
      unfolding dispatch_def inv using c(2) b
      by (simp add: demo_tool_env_def [THEN arg_cong [of _ _ teCtxAuthorized]] demo_tool_env_def [THEN arg_cong [of _ _ tePanic]]
          preflightPath_def demo_shell_call_def)
    then show ?thesis unfolding executeTool_def p using c(1)
      by (simp add: demo_tool_env_def [THEN arg_cong [of _ _ teCtx]] demo_tool_env_def [THEN arg_cong [of _ _ tePlan]]
          toolAllowed_def demo_agent_def planAllows_def)
  qed
  then show ?thesis by simp
qed

lemma risky_call_runs_once_witness:
  "\<exists>tr' a d'. approvals_run demo_approvals tr' d' \<and> granted_in demo_agent demo_tool_env demo_shell_call [] tr' a"
proof -
  obtain i d' where e: "executeTool demo_agent demo_tool_env demo_shell_call Absent
     = ((no_result\<lparr>trName := ''run_shell'', trStatus := ''ok'', trOutput := ''out''\<rparr>, Some i), d')"
    "spRisky (ivSpec i)" "ivCall i = demo_shell_call" using demo_execute by blast
  have l: "tlApprovals (teLib demo_tool_env) = demo_approvals" by (simp add: demo_tool_env_def demo_tools_def)
  from risky_call_runs_once [OF approvals_run.start e(1,2)] e(3) show ?thesis by (auto simp: l)
qed

end
