(* ===== verification/Recovery.thy ===== *)
theory Recovery
  imports Conversation "HOL-Library.Sublist"
begin

section \<open>Reopening an interrupted session\<close>

text \<open>
  \<open>internal/runtime/recovery.go\<close>: when a session is resumed, a tool call without a stored result
  is answered by an explicit message that its outcome is unknown, so that the history is a
  closed conversation again and nothing is re-run. The walk keeps the calls of the exchange it is in,
  which of them have a result, and every call identifier it has seen.
\<close>

record repair =
  rpOut :: "message list"
  rpPending :: "tool_call list"
  rpGot :: "string list"
  rpSeen :: "string list"
  rpRepaired :: nat

definition unknown_receipt :: "tool_call \<Rightarrow> message" where
  "unknown_receipt c = \<lparr>mID = '''', mToolCalls = [], mToolCallID = tcID c, mRole = ''tool'',
     mContent = Sprintf (''Tool %s has no durable receipt after interruption. Outcome is unknown; do not repeat a write. ''
        @ ''Inspect the workspace or reconcile the external operation first.'') [tcName c], mNative = []\<rparr>"

definition flush :: "repair \<Rightarrow> repair" where
  "flush s = (let missing = filter (\<lambda>c. tcID c \<notin> set (rpGot s)) (rpPending s)
     in s\<lparr>rpOut := rpOut s @ map unknown_receipt missing, rpPending := [], rpGot := [],
          rpRepaired := rpRepaired s + length missing\<rparr>)"

fun add_pending :: "tool_call list \<Rightarrow> repair \<Rightarrow> gerr + repair" where
  "add_pending [] s = Inr s"
| "add_pending (c # cs) s =
     (if tcID c = '''' then add_pending cs s
      else if tcID c \<in> set (rpSeen s) then Inl (Errorf ''corrupt session: repeated tool call ID'' [])
      else add_pending cs (s\<lparr>rpSeen := tcID c # rpSeen s, rpPending := rpPending s @ [c]\<rparr>))"

definition repair_message :: "message \<Rightarrow> repair \<Rightarrow> gerr + repair" where
  "repair_message m s =
     (case add_pending (mToolCalls m) (if mRole m \<noteq> ''tool'' then flush s else s) of
        Inl e \<Rightarrow> Inl e
      | Inr s1 \<Rightarrow>
          if mRole m = ''tool'' \<and> mToolCallID m \<noteq> '''' then
            (if mToolCallID m \<notin> set (map tcID (rpPending s1)) \<or> mToolCallID m \<in> set (rpGot s1)
             then Inl (Errorf ''corrupt session: orphan tool receipt'' [])
             else Inr (s1\<lparr>rpGot := mToolCallID m # rpGot s1, rpOut := rpOut s1 @ [m]\<rparr>))
          else Inr (s1\<lparr>rpOut := rpOut s1 @ [m]\<rparr>))"

fun repair_loop :: "message list \<Rightarrow> repair \<Rightarrow> gerr + repair" where
  "repair_loop [] s = Inr s"
| "repair_loop (m # ms) s = (case repair_message m s of Inl e \<Rightarrow> Inl e | Inr s1 \<Rightarrow> repair_loop ms s1)"

definition no_repair :: repair where
  "no_repair = \<lparr>rpOut = [], rpPending = [], rpGot = [], rpSeen = [], rpRepaired = 0\<rparr>"

definition closeInterruptedExchanges :: "message list \<Rightarrow> gerr + (message list \<times> nat)" where
  "closeInterruptedExchanges messages =
     (case repair_loop messages no_repair of
        Inl e \<Rightarrow> Inl e
      | Inr s \<Rightarrow> Inr (rpOut (flush s), rpRepaired (flush s)))"

subsection \<open>The walk against the closure check\<close>

text \<open>The messages the engine writes: results carry the identifier of their call, calls have
  identifiers and are made by the assistant.\<close>

definition ledger_message :: "message \<Rightarrow> bool" where
  "ledger_message m \<longleftrightarrow>
     (if mRole m = ''tool'' then mToolCallID m \<noteq> '''' \<and> mToolCalls m = []
      else mToolCallID m = '''' \<and> (mToolCalls m \<noteq> [] \<longrightarrow> mRole m = ''assistant'') \<and> (\<forall>c \<in> set (mToolCalls m). tcID c \<noteq> ''''))"

definition waiting :: "repair \<Rightarrow> string list" where
  "waiting s = filter (\<lambda>i. i \<notin> set (rpGot s)) (map tcID (rpPending s))"

definition repair_inv :: "repair \<Rightarrow> bool" where
  "repair_inv s \<longleftrightarrow> distinct (map tcID (rpPending s)) \<and> '''' \<notin> set (map tcID (rpPending s))
     \<and> (\<exists>seen. closure_loop (rpOut s) [] [] = Inr (rev (waiting s), seen) \<and> set seen = set (rpSeen s))"

text \<open>Results that answer calls one by one.\<close>

definition answers :: "tool_call list \<Rightarrow> message list \<Rightarrow> bool" where
  "answers calls ms \<longleftrightarrow> map mToolCallID ms = map tcID calls \<and> (\<forall>m \<in> set ms. mRole m = ''tool'' \<and> mToolCalls m = [])"

lemma answers_Nil [simp]: "answers [] ms \<longleftrightarrow> ms = []"
  by (auto simp: answers_def)

lemma answers_append: "answers cs ms \<Longrightarrow> answers cs' ms' \<Longrightarrow> answers (cs @ cs') (ms @ ms')"
  by (auto simp: answers_def)

lemma closure_answers:
  assumes "answers cs ms" "distinct (map tcID cs)" "'''' \<notin> set (map tcID cs)" "set (map tcID cs) \<subseteq> set p"
  shows "closure_loop ms p seen = Inr (filter (\<lambda>i. i \<notin> set (map tcID cs)) p, seen)"
  using assms
proof (induction cs arbitrary: p ms)
  case Nil
  then show ?case by simp
next
  case (Cons c cs)
  then obtain m ms' where ms: "ms = m # ms'" "mToolCallID m = tcID c" "mRole m = ''tool''" "mToolCalls m = []" "answers cs ms'"
    by (cases ms) (auto simp: answers_def)
  have m: "closure_msg m p seen = Inr (removeAll (tcID c) p, seen)"
    using Cons.prems ms by (auto simp: closure_msg_def)
  have "closure_loop ms' (removeAll (tcID c) p) seen = Inr (filter (\<lambda>i. i \<notin> set (map tcID cs)) (removeAll (tcID c) p), seen)"
  proof (rule Cons.IH [OF ms(5)])
    show "distinct (map tcID cs)" using Cons.prems(2) by simp
    show "'''' \<notin> set (map tcID cs)" using Cons.prems(3) by simp
    show "set (map tcID cs) \<subseteq> set (removeAll (tcID c) p)" using Cons.prems(2,4) by (simp add: subset_Diff_insert)
  qed
  with m ms(1) show ?case by (simp add: removeAll_filter_not_eq) (rule filter_cong, auto)
qed

lemma receipts_answer: "answers cs (map unknown_receipt cs)"
  by (simp add: answers_def unknown_receipt_def comp_def)

lemmas closure_receipts = closure_answers [OF receipts_answer]

lemma filter_waiting: "filter (\<lambda>i. i \<notin> set (rpGot s)) (map tcID (rpPending s))
    = map tcID (filter (\<lambda>c. tcID c \<notin> set (rpGot s)) (rpPending s))"
  by (simp add: filter_map comp_def)

lemma flush_inv:
  assumes "repair_inv s"
  shows "repair_inv (flush s)" and "waiting (flush s) = []"
proof -
  let ?missing = "filter (\<lambda>c. tcID c \<notin> set (rpGot s)) (rpPending s)"
  obtain seen where c: "closure_loop (rpOut s) [] [] = Inr (rev (waiting s), seen)" "set seen = set (rpSeen s)"
    using assms by (auto simp: repair_inv_def)
  have w: "waiting s = map tcID ?missing" by (simp only: waiting_def filter_waiting)
  have "closure_loop (map unknown_receipt ?missing) (rev (waiting s)) seen
      = Inr (filter (\<lambda>i. i \<notin> set (map tcID ?missing)) (rev (waiting s)), seen)"
    using assms by (intro closure_receipts) (auto simp: repair_inv_def w distinct_map inj_on_def)
  moreover have "filter (\<lambda>i. i \<notin> set (map tcID ?missing)) (rev (waiting s)) = []"
    unfolding w by (auto simp: filter_empty_conv)
  ultimately show "repair_inv (flush s)" "waiting (flush s) = []"
    using c by (simp_all add: repair_inv_def flush_def Let_def closure_loop_append waiting_def)
qed

lemma flush_keeps: "rpSeen (flush s) = rpSeen s" "rpPending (flush s) = []" "rpGot (flush s) = []"
  by (simp_all add: flush_def Let_def)

lemma add_pending_eq:
  assumes "\<forall>c \<in> set cs. tcID c \<noteq> ''''"
  shows "add_pending cs s = (if closed_calls_ok cs (set (rpSeen s))
      then Inr (s\<lparr>rpSeen := rev (map tcID cs) @ rpSeen s, rpPending := rpPending s @ cs\<rparr>)
      else Inl (Errorf ''corrupt session: repeated tool call ID'' []))"
  using assms
proof (induction cs arbitrary: s)
  case Nil
  then show ?case by (simp add: closed_calls_ok_def)
next
  case (Cons c cs)
  have "closed_calls_ok (c # cs) (set (rpSeen s)) \<longleftrightarrow> tcID c \<notin> set (rpSeen s) \<and> closed_calls_ok cs (insert (tcID c) (set (rpSeen s)))"
    using Cons.prems by (auto simp: closed_calls_ok_def)
  with Cons.IH [of "s\<lparr>rpSeen := tcID c # rpSeen s, rpPending := rpPending s @ [c]\<rparr>"] Cons.prems show ?case by simp
qed

lemma repair_message_inv:
  assumes "repair_inv s" "ledger_message m" "repair_message m s = Inr s'"
  shows "repair_inv s'"
proof (cases "mRole m = ''tool''")
  case True
  with assms(2) have t: "mToolCallID m \<noteq> ''''" "mToolCalls m = []" by (auto simp: ledger_message_def)
  then have i: "mToolCallID m \<in> set (map tcID (rpPending s))" "mToolCallID m \<notin> set (rpGot s)"
    and s': "s' = s\<lparr>rpGot := mToolCallID m # rpGot s, rpOut := rpOut s @ [m]\<rparr>"
    using assms(3) True by (auto simp: repair_message_def split: if_splits)
  obtain seen where c: "closure_loop (rpOut s) [] [] = Inr (rev (waiting s), seen)" "set seen = set (rpSeen s)"
    using assms(1) by (auto simp: repair_inv_def)
  have "closure_msg m (rev (waiting s)) seen = Inr (removeAll (mToolCallID m) (rev (waiting s)), seen)"
    using i t True by (simp add: closure_msg_def waiting_def)
  moreover have "removeAll (mToolCallID m) (rev (waiting s)) = rev (waiting s')"
    by (simp add: waiting_def s' rev_filter [symmetric] removeAll_filter_not_eq) (rule filter_cong, auto)
  ultimately show ?thesis using c assms(1) by (simp add: repair_inv_def closure_loop_append s')
next
  case False
  with assms(2) have t: "mToolCallID m = ''''" "mToolCalls m \<noteq> [] \<longrightarrow> mRole m = ''assistant''"
    "\<forall>c \<in> set (mToolCalls m). tcID c \<noteq> ''''" by (auto simp: ledger_message_def)
  note f = flush_inv [OF assms(1)]
  have ok: "closed_calls_ok (mToolCalls m) (set (rpSeen s))"
    and s': "s' = (flush s)\<lparr>rpSeen := rev (map tcID (mToolCalls m)) @ rpSeen s, rpPending := mToolCalls m, rpOut := rpOut (flush s) @ [m]\<rparr>"
    using assms(3) False add_pending_eq [OF t(3), of "flush s"] by (auto simp: repair_message_def flush_keeps split: if_splits)
  obtain seen where c: "closure_loop (rpOut (flush s)) [] [] = Inr ([], seen)" "set seen = set (rpSeen s)"
    using f by (auto simp: repair_inv_def flush_keeps)
  have "closure_msg m [] seen = Inr (rev (map tcID (mToolCalls m)), rev (map tcID (mToolCalls m)) @ seen)"
    using t False ok c(2) by (auto simp: closure_msg_def closure_calls_eq)
  then show ?thesis using c ok t(3)
    by (auto simp: repair_inv_def closure_loop_append s' waiting_def flush_keeps closed_calls_ok_def)
qed

lemma repair_loop_inv:
  "repair_loop ms s = Inr s' \<Longrightarrow> repair_inv s \<Longrightarrow> list_all ledger_message ms \<Longrightarrow> repair_inv s'"
proof (induction ms arbitrary: s)
  case Nil
  then show ?case by simp
next
  case (Cons m ms)
  then show ?case by (auto split: sum.splits dest: repair_message_inv)
qed

subsection \<open>What is added\<close>

text \<open>The walk keeps every message in order and adds receipts of calls it has seen.\<close>

definition extends :: "message list \<Rightarrow> repair \<Rightarrow> bool" where
  "extends ms s \<longleftrightarrow> subseq ms (rpOut s) \<and> length (rpOut s) = length ms + rpRepaired s
     \<and> (\<forall>c \<in> set (rpPending s). c \<in> \<Union> (set ` mToolCalls ` set ms))
     \<and> (\<forall>m \<in> set (rpOut s). m \<in> set ms \<or> m \<in> unknown_receipt ` \<Union> (set ` mToolCalls ` set ms))"

lemma flush_extends: "extends ms s \<Longrightarrow> extends ms (flush s)"
  by (auto simp: extends_def flush_def Let_def intro: subseq_append_iff [THEN iffD2] list_emb_append2)

lemma add_pending_pending: "add_pending cs s = Inr s' \<Longrightarrow>
    set (rpPending s') \<subseteq> set (rpPending s) \<union> set cs \<and> rpOut s' = rpOut s \<and> rpRepaired s' = rpRepaired s"
  by (induction cs s rule: add_pending.induct) (auto split: if_splits)

lemma repair_message_extends:
  assumes "extends ms s" "repair_message m s = Inr s'"
  shows "extends (ms @ [m]) s'"
proof -
  define s0 where "s0 = (if mRole m \<noteq> ''tool'' then flush s else s)"
  have s0: "extends ms s0" using assms(1) flush_extends by (simp add: s0_def)
  obtain s1 where a: "add_pending (mToolCalls m) s0 = Inr s1"
    and out: "rpOut s' = rpOut s1 @ [m]" "rpRepaired s' = rpRepaired s1" "rpPending s' = rpPending s1"
    using assms(2) by (auto simp: repair_message_def s0_def [symmetric] split: sum.splits if_splits)
  let ?calls = "\<Union> (set ` mToolCalls ` set (ms @ [m]))"
  have "x \<in> set (ms @ [m]) \<or> x \<in> unknown_receipt ` ?calls" if "x \<in> set (rpOut s')" for x
  proof (cases "x = m")
    case False
    then have "x \<in> set (rpOut s0)" using that add_pending_pending [OF a] by (simp add: out)
    then have "x \<in> set ms \<or> x \<in> unknown_receipt ` \<Union> (set ` mToolCalls ` set ms)" using s0 by (simp add: extends_def)
    then show ?thesis by (auto intro: imageI)
  qed simp
  moreover have "subseq (ms @ [m]) (rpOut s')" "length (rpOut s') = length (ms @ [m]) + rpRepaired s'" "\<forall>c \<in> set (rpPending s'). c \<in> ?calls"
    using add_pending_pending [OF a] s0 by (auto simp: extends_def out)
  ultimately show ?thesis by (simp only: extends_def) blast
qed

lemma repair_loop_extends: "repair_loop ms s = Inr s' \<Longrightarrow> extends ms0 s \<Longrightarrow> extends (ms0 @ ms) s'"
proof (induction ms arbitrary: s ms0)
  case Nil
  then show ?case by simp
next
  case (Cons m ms)
  then obtain s1 where s1: "repair_message m s = Inr s1" "repair_loop ms s1 = Inr s'" by (auto split: sum.splits)
  from Cons.IH [OF s1(2) repair_message_extends [OF Cons.prems(2) s1(1)]] show ?case by simp
qed

text \<open>On a closed history the walk adds nothing, and on any part of one it succeeds.\<close>

lemma repair_loop_follows:
  assumes "list_all ledger_message ms" "repair_inv s" "closure_loop ms (rev (waiting s)) seen = Inr (p, seen')"
    "set seen = set (rpSeen s)"
  shows "\<exists>s'. repair_loop ms s = Inr s' \<and> rev (waiting s') = p \<and> rpRepaired s' = rpRepaired s"
  using assms
proof (induction ms arbitrary: s seen)
  case Nil
  then show ?case by simp
next
  case (Cons m ms)
  then obtain p1 seen1 where c: "closure_msg m (rev (waiting s)) seen = Inr (p1, seen1)"
    "closure_loop ms p1 seen1 = Inr (p, seen')" by (auto split: sum.splits prod.splits)
  have m: "ledger_message m" using Cons.prems(1) by simp
  have "\<exists>s1. repair_message m s = Inr s1 \<and> rev (waiting s1) = p1 \<and> set (rpSeen s1) = set seen1 \<and> rpRepaired s1 = rpRepaired s"
  proof (cases "mRole m = ''tool''")
    case True
    then have t: "mToolCallID m \<noteq> ''''" "mToolCalls m = []" using m by (auto simp: ledger_message_def)
    then have i: "mToolCallID m \<in> set (waiting s)" "p1 = removeAll (mToolCallID m) (rev (waiting s))" "seen1 = seen"
      using c(1) True by (auto simp: closure_msg_def split: if_splits)
    then have "repair_message m s = Inr (s\<lparr>rpGot := mToolCallID m # rpGot s, rpOut := rpOut s @ [m]\<rparr>)"
      using True t by (auto simp: repair_message_def waiting_def)
    moreover have "rev (filter (\<lambda>i. i \<noteq> mToolCallID m \<and> i \<notin> set (rpGot s)) (map tcID (rpPending s)))
        = removeAll (mToolCallID m) (rev (waiting s))"
      by (simp add: waiting_def rev_filter [symmetric] removeAll_filter_not_eq) (rule filter_cong, auto)
    ultimately show ?thesis using i(2,3) Cons.prems(4) by (simp add: waiting_def)
  next
    case False
    then have t: "mToolCallID m = ''''" "\<forall>c \<in> set (mToolCalls m). tcID c \<noteq> ''''" using m by (auto simp: ledger_message_def)
    have w: "waiting s = []" using c(1) False closure_msg_turn by fastforce
    have ok: "closed_calls_ok (mToolCalls m) (set (rpSeen s))" "p1 = rev (map tcID (mToolCalls m))"
        "seen1 = rev (map tcID (mToolCalls m)) @ seen"
      using c(1) False t Cons.prems(4) w by (auto simp: closure_msg_def closure_calls_eq split: if_splits)
    have "rpRepaired (flush s) = rpRepaired s"
      using w by (auto simp: flush_def Let_def waiting_def filter_empty_conv)
    then show ?thesis using False t ok add_pending_eq [OF t(2), of "flush s"] Cons.prems(4)
      by (simp add: repair_message_def flush_keeps waiting_def)
  qed
  then obtain s1 where s1: "repair_message m s = Inr s1" "rev (waiting s1) = p1" "set (rpSeen s1) = set seen1" "rpRepaired s1 = rpRepaired s" by blast
  have "\<exists>s'. repair_loop ms s1 = Inr s' \<and> rev (waiting s') = p \<and> rpRepaired s' = rpRepaired s1"
    using Cons.IH [of s1 seen1] Cons.prems(1) repair_message_inv [OF Cons.prems(2) m s1(1)] c(2) s1(2,3) by simp
  with s1(1,4) show ?case by auto
qed

lemma repair_inv_start: "repair_inv no_repair" "waiting no_repair = []" "extends [] no_repair"
  by (simp_all add: repair_inv_def no_repair_def waiting_def extends_def)

lemma flush_waiting: "rpRepaired (flush s) = rpRepaired s + length (waiting s)"
  by (simp only: waiting_def filter_waiting) (simp add: flush_def Let_def)

text \<open>A resumed session is a closed conversation: every message is kept in its order, the only
  additions are results that say the outcome of an unanswered call is unknown, one for each, and a
  session that was closed is taken as it is.\<close>

theorem resumed_session_is_closed:
  assumes "list_all ledger_message ms" and "closeInterruptedExchanges ms = Inr (out, n)"
  shows "ValidateClosure out = None \<and> subseq ms out \<and> length out = length ms + n
     \<and> set out \<subseteq> set ms \<union> unknown_receipt ` \<Union> (set ` mToolCalls ` set ms)
     \<and> (n = 0 \<longleftrightarrow> ValidateClosure ms = None)"
proof -
  obtain s where s: "repair_loop ms no_repair = Inr s" "out = rpOut (flush s)" "n = rpRepaired (flush s)"
    using assms(2) by (auto simp: closeInterruptedExchanges_def split: sum.splits)
  have inv: "repair_inv s" using repair_loop_inv [OF s(1) repair_inv_start(1) assms(1)] .
  have "closure_state out [] []"
    using flush_inv [OF inv] by (auto simp: repair_inv_def s(2) closure_state_def)
  then have closed: "ValidateClosure out = None" by (simp add: ValidateClosure_None)
  have "extends ms (flush s)" using repair_loop_extends [OF s(1) repair_inv_start(3)] flush_extends by simp
  then have ext: "subseq ms out" "length out = length ms + n"
      "set out \<subseteq> set ms \<union> unknown_receipt ` \<Union> (set ` mToolCalls ` set ms)"
    by (auto simp: extends_def s(2,3))
  have "n = 0" if "ValidateClosure ms = None"
  proof -
    obtain seen' where "closure_loop ms (rev (waiting no_repair)) [] = Inr ([], seen')"
      using \<open>ValidateClosure ms = None\<close> by (auto simp: ValidateClosure_None closure_state_def repair_inv_start(2))
    from repair_loop_follows [OF assms(1) repair_inv_start(1) this] s(1) show ?thesis
      by (auto simp: s(3) flush_waiting no_repair_def)
  qed
  moreover have "ValidateClosure ms = None" if "n = 0"
    using ext \<open>n = 0\<close> closed subseq_same_length by force
  ultimately show ?thesis using closed ext by blast
qed

lemma resumed_session_is_closed_witness:
  "closeInterruptedExchanges [text_message ''user'' ''hi'', demo_call]
     = Inr ([text_message ''user'' ''hi'', demo_call, unknown_receipt (hd (mToolCalls demo_call))], 1)
   \<and> ValidateClosure [text_message ''user'' ''hi'', demo_call, unknown_receipt (hd (mToolCalls demo_call))] = None"
proof -
  have l: "list_all ledger_message [text_message ''user'' ''hi'', demo_call]"
    by (simp add: ledger_message_def text_message_def demo_call_def)
  have c: "closeInterruptedExchanges [text_message ''user'' ''hi'', demo_call]
     = Inr ([text_message ''user'' ''hi'', demo_call, unknown_receipt (hd (mToolCalls demo_call))], 1)"
    by (simp add: closeInterruptedExchanges_def no_repair_def repair_message_def flush_def text_message_def demo_call_def)
  from resumed_session_is_closed [OF l c] c show ?thesis by simp
qed

text \<open>A session stopped anywhere within a closed conversation can be reopened.\<close>

lemma interrupted_prefix_reopens:
  assumes "list_all ledger_message ms" and "ValidateClosure (ms @ later) = None"
  shows "\<exists>out n. closeInterruptedExchanges ms = Inr (out, n)"
proof -
  obtain p seen' where "closure_loop ms (rev (waiting no_repair)) [] = Inr (p, seen')"
    using assms(2) by (auto simp: ValidateClosure_None closure_state_def closure_loop_append repair_inv_start(2) split: sum.splits)
  from repair_loop_follows [OF assms(1) repair_inv_start(1) this] show ?thesis
    by (auto simp: closeInterruptedExchanges_def no_repair_def)
qed

end
