(* ===== verification/ToolBatch.thy ===== *)
theory ToolBatch
  imports ToolRun Recovery Context
begin

section \<open>Running the tool calls of a turn\<close>

text \<open>
  \<open>internal/runtime/tool_batch.go\<close>, \<open>loop_guard.go\<close> and the continuation file of
  \<open>approval_continuation.go\<close> (\<open>saveContinuation\<close>, \<open>clearContinuation\<close>, \<open>recoverBufferedResults\<close>): the
  calls of one model response are run in groups, each group is joined, its results are added to the
  conversation, journalled in the continuation and saved before the next group starts; a
  call that waits for approval stops the batch.
  The agent's conversation, task and loop guard, the saved session and the continuation file are the
  state. What the environment decides is \<open>batch_env\<close>: the environment of each call by its index,
  and, by the index of the first call of a group, the registry, the context's errors and the outcomes of
  the writes (\<open>baSave start k\<close>, numbered in the order of the code). Members of a group are
  threaded in the order of their index. Memory notes and recorded events are not modelled.
\<close>

subsection \<open>The loop guard\<close>

record loop_guard =
  lgFailures :: "nat gomap"
  lgFinalOnly :: bool
  lgFinalCalls :: nat
  lgReason :: string

definition no_guard :: loop_guard where
  "no_guard = \<lparr>lgFailures = [], lgFinalOnly = False, lgFinalCalls = 0, lgReason = ''''\<rparr>"

definition observe :: "(tool_call \<Rightarrow> tool_result \<Rightarrow> string) \<Rightarrow> tool_call \<Rightarrow> tool_result \<Rightarrow> loop_guard \<Rightarrow> loop_guard" where
  "observe fkey call res g =
     (if trStatus res = ''ok'' \<or> trStatus res = ''pending'' then g
      else (let k = fkey call res;
                n = (case mget (lgFailures g) k of None \<Rightarrow> 0 | Some n \<Rightarrow> n) + 1;
                g1 = g\<lparr>lgFailures := mput k n (lgFailures g)\<rparr>
            in if n \<ge> 2
               then g1\<lparr>lgFinalOnly := True, lgReason := ''same tool and arguments failed with the same error twice''\<rparr>
               else g1))"

subsection \<open>Task, continuation and state\<close>

record task =
  tkRunID :: string
  tkUserRequest :: string
  tkStatus :: string
  tkToolSteps :: nat
  tkAttempts :: nat
  tkLastTool :: string
  tkStopReason :: string
  tkFinalAnswer :: string
  tkCheckpointID :: string
  tkChangedPaths :: "string list"
  tkAttempted :: bool
  tkSucceeded :: bool
  tkReminded :: bool

definition no_task :: task where
  "no_task = \<lparr>tkRunID = '''', tkUserRequest = '''', tkStatus = '''', tkToolSteps = 0, tkAttempts = 0, tkLastTool = '''', tkStopReason = '''',
     tkFinalAnswer = '''', tkCheckpointID = '''', tkChangedPaths = [], tkAttempted = False, tkSucceeded = False, tkReminded = False\<rparr>"

record continuation =
  coActive :: bool
  coSession :: string
  coPrincipal :: string
  coRequest :: string
  coTask :: task
  coCalls :: "tool_call list"
  coBlocked :: "bool list"
  coNext :: nat
  coExecuting :: bool
  coPendingID :: string
  coDigest :: string
  coMaxSteps :: nat
  coMaxAttempts :: nat
  coGuard :: loop_guard
  coDefinitions :: "string gomap"
  coLedgerLength :: nat
  coBuffered :: "message list"
  coBufferedNext :: nat
  coBufferedTask :: "task option"
  coBufferedGuard :: "loop_guard option"

definition no_continuation :: continuation where
  "no_continuation = \<lparr>coActive = False, coSession = '''', coPrincipal = '''', coRequest = '''', coTask = no_task, coCalls = [],
     coBlocked = [], coNext = 0, coExecuting = False, coPendingID = '''', coDigest = '''', coMaxSteps = 0, coMaxAttempts = 0,
     coGuard = no_guard, coDefinitions = [], coLedgerLength = 0, coBuffered = [], coBufferedNext = 0,
     coBufferedTask = None, coBufferedGuard = None\<rparr>"

record turn_state =
  tuMessages :: "message list"
  tuSaved :: "message list"
  tuTask :: task
  tuGuard :: loop_guard
  tuApprovals :: "approval_state content"
  tuContinuation :: continuation

text \<open>What the turn takes from elsewhere: the redactor (\<open>trlBlock\<close> is its verdict on a native block),
  digests, and the key of a failure.\<close>

record turn_lib =
  tulRedact :: "string \<Rightarrow> string"
  tulRedactArgs :: "json gomap option \<Rightarrow> json gomap option"
  tulBlock :: "native_item \<Rightarrow> gerr option"
  tulDigest :: "message list \<Rightarrow> string"
  tulFailure :: "tool_call \<Rightarrow> tool_result \<Rightarrow> string"

record 'h batch_env =
  baTool :: "nat \<Rightarrow> 'h tool_env"
  baRegistry :: "nat \<Rightarrow> 'h registry"
  baCtx :: "nat \<Rightarrow> gerr option"
  baCtxBatch :: "nat \<Rightarrow> gerr option"
  baCtxAfter :: "nat \<Rightarrow> gerr option"
  baSave :: "nat \<Rightarrow> nat \<Rightarrow> replaced"
  baStart :: replaced
  baClear :: replaced
  baID :: "nat \<Rightarrow> string"
  baCheckpointID :: "nat \<Rightarrow> string"
  baDefinitions :: "string gomap"

subsection \<open>Writes\<close>

fun write_error :: "replaced \<Rightarrow> gerr option" where
  "write_error Replaced = None"
| "write_error (NotReplaced e) = Some e"
| "write_error (Unsynced e) = Some e"

definition written :: "replaced \<Rightarrow> bool" where
  "written w \<longleftrightarrow> (case w of NotReplaced _ \<Rightarrow> False | _ \<Rightarrow> True)"

definition stored_message :: "turn_lib \<Rightarrow> message \<Rightarrow> message" where
  "stored_message lib m = m\<lparr>mContent := tulRedact lib (mContent m),
     mToolCalls := map (\<lambda>c. c\<lparr>tcArgs := tulRedactArgs lib (tcArgs c)\<rparr>) (mToolCalls m)\<rparr>"

text \<open>\<open>saveSession\<close>: the redacted ledger is stored; a native block the redactor would change is refused.\<close>

definition saveSession :: "turn_lib \<Rightarrow> replaced \<Rightarrow> turn_state \<Rightarrow> gerr option \<times> turn_state" where
  "saveSession lib w st =
     (case find (\<lambda>b. tulBlock lib b \<noteq> None) (concat (map mNative (tuMessages st))) of
        Some b \<Rightarrow> (tulBlock lib b, st)
      | None \<Rightarrow> (write_error w, if written w then st\<lparr>tuSaved := map (stored_message lib) (tuMessages st)\<rparr> else st))"

definition redact_task :: "turn_lib \<Rightarrow> task \<Rightarrow> task" where
  "redact_task lib t = t\<lparr>tkUserRequest := tulRedact lib (tkUserRequest t), tkFinalAnswer := tulRedact lib (tkFinalAnswer t)\<rparr>"

text \<open>\<open>saveContinuation\<close> returns the continuation with what it recorded of the stored session; when the
  session was changed by another owner, or the file is not written, only the error.\<close>

definition saveContinuation ::
  "turn_lib \<Rightarrow> replaced \<Rightarrow> continuation \<Rightarrow> turn_state \<Rightarrow> gerr option \<times> continuation \<times> turn_state" where
  "saveContinuation lib w c st =
     (let c1 = c\<lparr>coDigest := tulDigest lib (tuSaved st), coLedgerLength := length (tuSaved st),
                coTask := redact_task lib (coTask c),
                coBufferedTask := map_option (redact_task lib) (coBufferedTask c),
                coRequest := tulRedact lib (coRequest c)\<rparr>
      in (write_error w, c1, if written w then st\<lparr>tuContinuation := c1\<rparr> else st))"

definition clearContinuation :: "replaced \<Rightarrow> turn_state \<Rightarrow> gerr option \<times> turn_state" where
  "clearContinuation w st = (write_error w, if written w then st\<lparr>tuContinuation := no_continuation\<rparr> else st)"

definition pendingError :: "agent \<Rightarrow> continuation \<Rightarrow> string \<Rightarrow> gerr" where
  "pendingError ag c why = Pausing True (Sprintf ''session %s paused for approval %s: %s'' [agSession ag, coPendingID c, why])"

subsection \<open>Results\<close>

definition renderToolResult :: "tool_result \<Rightarrow> string" where
  "renderToolResult res =
     (if trStatus res = ''ok''
      then Sprintf (''<tool_result name=%q status=%q>'' @ newline @ ''%s'' @ newline @ ''</tool_result>'') [trName res, trStatus res, trOutput res]
      else Sprintf (''<tool_result name=%q status=%q error_code=%q>'' @ newline @ ''%s'' @ newline @ ''</tool_result>'')
        [trName res, trStatus res, trErrorCode res, trError res])"

definition appendUnique :: "string list \<Rightarrow> string list \<Rightarrow> string list" where
  "appendUnique existing values = foldl (\<lambda>acc v. if v \<noteq> '''' \<and> v \<notin> set acc then acc @ [v] else acc) existing values"

text \<open>The exit code is an integer of this runtime, or one restored from a receipt.\<close>

definition SuccessfulShellExit :: "json gomap \<Rightarrow> bool" where
  "SuccessfulShellExit meta \<longleftrightarrow> mget meta ''shell_completed'' = Some (JBool True) \<and> mget meta ''shell_exit_code'' = Some (JNum ''0'')"

definition acceptToolResult :: "tool_lib \<Rightarrow> string \<Rightarrow> tool_call \<Rightarrow> tool_result \<Rightarrow> bool \<Rightarrow> turn_state \<Rightarrow> turn_state" where
  "acceptToolResult lib mid call res blocked st =
     (let t0 = tuTask st;
          t1 = t0\<lparr>tkToolSteps := tkToolSteps t0 + (if blocked then 0 else 1), tkLastTool := tcName call\<rparr>;
          t2 = (if trPaths res \<noteq> []
                then t1\<lparr>tkChangedPaths := appendUnique (tkChangedPaths t1) (trPaths res), tkAttempted := False, tkSucceeded := False\<rparr>
                else t1);
          t3 = (if tcName call = ''run_shell'' \<and> IsVerificationCommand (sprint_arg lib call ''command'')
                then t2\<lparr>tkAttempted := True, tkSucceeded := (trStatus res = ''ok'' \<and> SuccessfulShellExit (trMetadata res))\<rparr>
                else t2)
      in st\<lparr>tuTask := t3, tuMessages := tuMessages st @ [\<lparr>mID = mid, mToolCalls = [], mToolCallID = tcID call, mRole = ''tool'',
             mContent = renderToolResult res, mNative = []\<rparr>]\<rparr>)"

subsection \<open>A group\<close>

definition step_limit :: "tool_call \<Rightarrow> tool_result" where
  "step_limit call = tool_error (tcName call) ''tool step budget exhausted; do not retry'' ''step_limit''"

definition cancelled_over :: "gerr option \<Rightarrow> tool_result \<Rightarrow> tool_result" where
  "cancelled_over x res = (case x of
      Some y \<Rightarrow> if trStatus res \<noteq> ''pending'' then res\<lparr>trStatus := ''error'', trError := Error y, trErrorCode := ''cancelled''\<rparr> else res
    | None \<Rightarrow> res)"

fun run_calls ::
  "agent \<Rightarrow> 'h batch_env \<Rightarrow> bool list \<Rightarrow> bool \<Rightarrow> nat \<Rightarrow> tool_call list \<Rightarrow> approval_state content
     \<Rightarrow> tool_result list \<times> approval_state content" where
  "run_calls ag be blocked final i [] d = ([], d)"
| "run_calls ag be blocked final i (c # cs) d =
     (case (if blocked ! i \<or> final then (step_limit c, d)
            else (case executeTool ag (baTool be i) c d of
                    ((res, _), d1) \<Rightarrow> (cancelled_over (teCtxAfter (baTool be i)) res, d1))) of
        (res, d1) \<Rightarrow> (case run_calls ag be blocked final (i + 1) cs d1 of (rs, d2) \<Rightarrow> (res # rs, d2)))"

text \<open>The group goes through the registry's batch, which asks the context once more before it starts.\<close>

definition run_group ::
  "agent \<Rightarrow> 'h batch_env \<Rightarrow> bool list \<Rightarrow> bool \<Rightarrow> nat \<Rightarrow> tool_call list \<Rightarrow> approval_state content
     \<Rightarrow> tool_result list \<times> approval_state content" where
  "run_group ag be blocked final start calls d =
     (case run_calls ag be blocked final start calls d of
        (outs, d1) \<Rightarrow>
          (fst (RunIndexedBatch (baRegistry be start) 4 (\<lambda>_. baCtxBatch be start) (\<lambda>j _. Returned (outs ! j)) calls),
           if baCtxBatch be start = None then d1 else d))"

definition unsettled :: "tool_result \<Rightarrow> bool" where
  "unsettled res \<longleftrightarrow> trStatus res = ''pending'' \<or> trErrorCode res = ''receipt_unknown'' \<or> trErrorCode res = ''effect_unknown''"

text \<open>Results are accepted in order up to the first that is not settled.\<close>

fun accept_results ::
  "turn_lib \<Rightarrow> 'h batch_env \<Rightarrow> bool list \<Rightarrow> nat \<Rightarrow> tool_call list \<Rightarrow> tool_result list \<Rightarrow> turn_state \<Rightarrow> tool_result option \<times> turn_state" where
  "accept_results lib be blocked i (c # cs) (r # rs) st =
     (if unsettled r then (Some r, st)
      else accept_results lib be blocked (i + 1) cs rs
             (acceptToolResult (teLib (baTool be i)) (baID be i) c r (blocked ! i \<or> trErrorCode r = ''step_limit'')
                (st\<lparr>tuGuard := observe (tulFailure lib) c r (tuGuard st)\<rparr>)))"
| "accept_results lib be blocked i cs rs st = (None, st)"

definition spec_at :: "'h registry \<Rightarrow> string \<Rightarrow> tool_spec" where
  "spec_at r name = (case mget (rgSpecs r) name of Some s \<Rightarrow> s | None \<Rightarrow> no_spec)"

subsection \<open>The batch\<close>

definition approval_of :: "tool_result \<Rightarrow> string" where
  "approval_of res = (case mget (trMetadata res) ''approval_id'' of Some (JStr k) \<Rightarrow> k | _ \<Rightarrow> '''')"

text \<open>The batch stops at a result that waits for approval, or whose effect is not known.\<close>

definition stop_at ::
  "agent \<Rightarrow> turn_lib \<Rightarrow> 'h batch_env \<Rightarrow> nat \<Rightarrow> tool_result \<Rightarrow> continuation \<Rightarrow> turn_state \<Rightarrow> gerr \<times> turn_state" where
  "stop_at ag lib be start res c st =
     (let st1 = st\<lparr>tuTask := (tuTask st)\<lparr>tkStatus := ''waiting_approval''\<rparr>\<rparr> in
      if trStatus res = ''pending'' then
        (case saveContinuation lib (baSave be start 1) (c\<lparr>coPendingID := approval_of res, coExecuting := False,
                coTask := tuTask st1, coGuard := tuGuard st1\<rparr>) st1 of
           (Some x, c1, st2) \<Rightarrow> (x, st2)
         | (None, c1, st2) \<Rightarrow>
             (case write_error (baSave be start 2) of
                Some x \<Rightarrow> (x, st2) | None \<Rightarrow> (pendingError ag c1 (trError res), st2)))
      else (pendingError ag c ''tool receipt persistence failed; reconcile before retry'', st1))"

definition saved_when :: "bool \<Rightarrow> turn_lib \<Rightarrow> replaced \<Rightarrow> continuation \<Rightarrow> turn_state \<Rightarrow> gerr option \<times> continuation \<times> turn_state" where
  "saved_when durable lib w c st = (if durable then saveContinuation lib w c st else (None, c, st))"

text \<open>After a group whose results are all accepted: journal them, save the ledger, checkpoint, advance.\<close>

definition commit_group ::
  "turn_lib \<Rightarrow> 'h batch_env \<Rightarrow> bool \<Rightarrow> nat \<Rightarrow> nat \<Rightarrow> nat \<Rightarrow> continuation \<Rightarrow> turn_state
     \<Rightarrow> (gerr \<times> turn_state) + (continuation \<times> turn_state)" where
  "commit_group lib be durable start endpos ledger c st =
     (case saved_when durable lib (baSave be start 3)
         (if durable then c\<lparr>coBuffered := map (\<lambda>m. m\<lparr>mContent := tulRedact lib (mContent m)\<rparr>) (drop ledger (tuMessages st)),
             coBufferedTask := Some (tuTask st), coBufferedGuard := Some (tuGuard st), coBufferedNext := endpos\<rparr> else c) st of
        (Some x, c1, st1) \<Rightarrow> Inl (x, st1)
      | (None, c1, st1) \<Rightarrow>
       (case saveSession lib (baSave be start 4) st1 of
          (Some x, st2) \<Rightarrow> Inl (x, st2)
        | (None, st2) \<Rightarrow>
         (case write_error (baSave be start 5) of
            Some x \<Rightarrow> Inl (x, st2)
          | None \<Rightarrow>
           (let st3 = st2\<lparr>tuTask := (tuTask st2)\<lparr>tkCheckpointID := baCheckpointID be start\<rparr>\<rparr> in
            (case write_error (baSave be start 6) of
               Some x \<Rightarrow> Inl (x, st3)
             | None \<Rightarrow>
              (case saved_when durable lib (baSave be start 7)
                  (c1\<lparr>coNext := endpos, coExecuting := False, coBuffered := [], coBufferedTask := None, coBufferedGuard := None,
                      coTask := tuTask st3, coGuard := tuGuard st3\<rparr>) st3 of
                 (Some x, c2, st4) \<Rightarrow> Inl (x, st4)
               | (None, c2, st4) \<Rightarrow> (case baCtxAfter be start of Some x \<Rightarrow> Inl (x, st4) | None \<Rightarrow> Inr (c2, st4))))))))"

definition group_step ::
  "agent \<Rightarrow> turn_lib \<Rightarrow> 'h batch_env \<Rightarrow> tool_call list \<Rightarrow> bool list \<Rightarrow> bool \<Rightarrow> continuation \<Rightarrow> turn_state
     \<Rightarrow> (gerr \<times> turn_state) + (continuation \<times> turn_state)" where
  "group_step ag lib be calls blocked durable c st =
     (let start = coNext c; r = baRegistry be start; call = calls ! start;
          size = group_size r 4 (drop start calls); group = take size (drop start calls) in
      (case baCtx be start of
         Some x \<Rightarrow> Inl (x, st)
       | None \<Rightarrow>
        (if coExecuting c \<and> \<not> safe_read r call \<and> \<not> spRisky (spec_at r (tcName call))
         then Inl (pendingError ag c ''interrupted non-read tool has no durable receipt; reconcile before retry'', st)
         else
         (case saved_when durable lib (baSave be start 0) (c\<lparr>coExecuting := True\<rparr>) st of
            (Some x, c1, st1) \<Rightarrow> Inl (x, st1)
          | (None, c1, st1) \<Rightarrow>
           (case run_group ag be blocked (lgFinalOnly (tuGuard st1)) start group (tuApprovals st1) of
              (results, d1) \<Rightarrow>
               (case accept_results lib be blocked start group results (st1\<lparr>tuApprovals := d1\<rparr>) of
                  (Some res, st2) \<Rightarrow> Inl (stop_at ag lib be start res c1 st2)
                | (None, st2) \<Rightarrow> commit_group lib be durable start (start + size) (length (tuMessages st)) c1 st2))))))"

text \<open>Every group advances, so as many rounds as there are calls are enough.\<close>

fun batch_rounds ::
  "nat \<Rightarrow> agent \<Rightarrow> turn_lib \<Rightarrow> 'h batch_env \<Rightarrow> tool_call list \<Rightarrow> bool list \<Rightarrow> bool \<Rightarrow> continuation \<Rightarrow> turn_state
     \<Rightarrow> (gerr option \<times> turn_state) option" where
  "batch_rounds fuel ag lib be calls blocked durable c st =
     (if coNext c \<ge> length calls
      then Some (if durable then clearContinuation (baClear be) st else (None, st))
      else (case fuel of
          0 \<Rightarrow> None
        | Suc fuel' \<Rightarrow>
           (case group_step ag lib be calls blocked durable c st of
              Inl (x, st1) \<Rightarrow> Some (Some x, st1)
            | Inr (c1, st1) \<Rightarrow> batch_rounds fuel' ag lib be calls blocked durable c1 st1)))"

declare batch_rounds.simps [simp del]

definition fresh_continuation ::
  "agent \<Rightarrow> 'h batch_env \<Rightarrow> string \<Rightarrow> tool_call list \<Rightarrow> bool list \<Rightarrow> turn_state \<Rightarrow> continuation" where
  "fresh_continuation ag be request calls blocked st =
     no_continuation\<lparr>coActive := True, coSession := agSession ag, coPrincipal := agPrincipal ag, coRequest := request,
       coTask := tuTask st, coCalls := calls, coBlocked := blocked, coMaxSteps := agMaxSteps ag,
       coMaxAttempts := agMaxAttempts ag, coGuard := tuGuard st, coDefinitions := baDefinitions be\<rparr>"

definition executeToolBatch ::
  "agent \<Rightarrow> turn_lib \<Rightarrow> 'h batch_env \<Rightarrow> string \<Rightarrow> tool_call list \<Rightarrow> bool list \<Rightarrow> continuation option \<Rightarrow> turn_state
     \<Rightarrow> (gerr option \<times> turn_state) option" where
  "executeToolBatch ag lib be request calls blocked co st =
     (case co of
        Some c \<Rightarrow> batch_rounds (length calls) ag lib be calls blocked True c st
      | None \<Rightarrow>
         (case saved_when (agAsync ag) lib (baStart be) (fresh_continuation ag be request calls blocked st) st of
            (Some x, c, st1) \<Rightarrow> Some (Some x, st1)
          | (None, c, st1) \<Rightarrow> batch_rounds (length calls) ag lib be calls blocked (agAsync ag) c st1))"

subsection \<open>Recovering journalled results\<close>

text \<open>\<open>recoverBufferedResults\<close>: \<open>disk\<close> is the stored session. The results the journal holds are added unless
  the stored session has them; anything else is refused.\<close>

definition recoverBufferedResults ::
  "agent \<Rightarrow> turn_lib \<Rightarrow> replaced \<Rightarrow> replaced \<Rightarrow> continuation \<Rightarrow> turn_state \<Rightarrow> gerr option \<times> continuation \<times> turn_state" where
  "recoverBufferedResults ag lib wSession wContinuation c st =
     (let disk = tuSaved st in
      if coBuffered c = [] then
        (if tulDigest lib disk \<noteq> coDigest c then (Some (pendingError ag c ''session messages changed''), c, st) else (None, c, st))
      else if coBufferedTask c = None \<or> coBufferedGuard c = None \<or> coBufferedNext c \<noteq> coNext c + length (coBuffered c)
          \<or> coBufferedNext c > length (coCalls c) \<or> coLedgerLength c > length disk
      then (Some (pendingError ag c ''invalid result journal''), c, st)
      else if \<exists>i < length (coBuffered c). mRole (coBuffered c ! i) \<noteq> ''tool'' \<or> mToolCallID (coBuffered c ! i) \<noteq> tcID (coCalls c ! (coNext c + i))
      then (Some (pendingError ag c ''result journal call identity mismatch''), c, st)
      else
       (let old = (tulDigest lib disk = coDigest c) in
        if \<not> old \<and> (length disk \<noteq> coLedgerLength c + length (coBuffered c)
             \<or> tulDigest lib (take (coLedgerLength c) disk) \<noteq> coDigest c
             \<or> tulDigest lib (drop (coLedgerLength c) disk) \<noteq> tulDigest lib (coBuffered c))
        then (Some (pendingError ag c ''session differs from journalled tool results''), c, st)
        else
         (let st1 = st\<lparr>tuMessages := disk @ (if old then coBuffered c else [])\<rparr> in
          (case (if old then saveSession lib wSession st1 else (None, st1)) of
             (Some x, st2) \<Rightarrow> (Some x, c, st2)
           | (None, st2) \<Rightarrow>
              saveContinuation lib wContinuation
                (c\<lparr>coNext := coBufferedNext c, coTask := the (coBufferedTask c), coGuard := the (coBufferedGuard c),
                   coBuffered := [], coBufferedTask := None, coBufferedGuard := None, coExecuting := False\<rparr>) st2))))"

subsection \<open>Every call is answered\<close>

lemma acceptToolResult_effect:
  "\<exists>m. tuMessages (acceptToolResult lib mid c r b st) = tuMessages st @ [m] \<and> answers [c] [m]"
  "tkToolSteps (tuTask (acceptToolResult lib mid c r b st)) = tkToolSteps (tuTask st) + (if b then 0 else 1)"
  "tkAttempts (tuTask (acceptToolResult lib mid c r b st)) = tkAttempts (tuTask st)"
  "tuSaved (acceptToolResult lib mid c r b st) = tuSaved st"
  by (simp_all add: acceptToolResult_def Let_def answers_def)

definition open_steps :: "bool list \<Rightarrow> nat \<Rightarrow> nat \<Rightarrow> nat" where
  "open_steps blocked i n = length (filter (\<lambda>j. \<not> blocked ! j) [i..<i + n])"

lemma open_steps_Suc: "open_steps blocked i (Suc n) = (if blocked ! i then 0 else 1) + open_steps blocked (Suc i) n"
  by (simp add: open_steps_def upt_conv_Cons del: upt_Suc)

lemma open_steps_add: "open_steps blocked i (m + n) = open_steps blocked i m + open_steps blocked (i + m) n"
proof -
  have "[i..<i + (m + n)] = [i..<i + m] @ [i + m..<(i + m) + n]" by (metis add.assoc le_add1 upt_add_eq_append)
  then show ?thesis by (simp add: open_steps_def)
qed

lemma open_steps_0 [simp]: "open_steps blocked i 0 = 0"
  by (simp add: open_steps_def)

text \<open>What some of the calls from index \<open>i\<close> on did to the conversation and to the task.\<close>

definition progressed :: "bool list \<Rightarrow> nat \<Rightarrow> tool_call list \<Rightarrow> turn_state \<Rightarrow> turn_state \<Rightarrow> bool" where
  "progressed blocked i cs st st' \<longleftrightarrow>
     (\<exists>ms. tuMessages st' = tuMessages st @ ms \<and> answers cs ms)
     \<and> tkToolSteps (tuTask st') \<le> tkToolSteps (tuTask st) + open_steps blocked i (length cs)
     \<and> tkAttempts (tuTask st') = tkAttempts (tuTask st)"

lemma progressed_refl: "progressed blocked i [] st st"
  by (simp add: progressed_def)

lemma progressed_trans:
  assumes "progressed blocked i cs st st'" "progressed blocked (i + length cs) cs' st' st''"
  shows "progressed blocked i (cs @ cs') st st''"
proof -
  from assms obtain ms ms' where "tuMessages st' = tuMessages st @ ms" "answers cs ms"
    "tuMessages st'' = tuMessages st' @ ms'" "answers cs' ms'" by (auto simp: progressed_def)
  then have "\<exists>ms. tuMessages st'' = tuMessages st @ ms \<and> answers (cs @ cs') ms"
    by (intro exI [of _ "ms @ ms'"]) (simp add: answers_append)
  with assms show ?thesis by (auto simp: progressed_def open_steps_add)
qed

lemma progressed_same:
  "progressed blocked i cs st st' \<Longrightarrow> tuMessages st'' = tuMessages st' \<Longrightarrow> tkToolSteps (tuTask st'') = tkToolSteps (tuTask st')
     \<Longrightarrow> tkAttempts (tuTask st'') = tkAttempts (tuTask st') \<Longrightarrow> progressed blocked i cs st st''"
  by (simp add: progressed_def)

lemma progressed_from:
  "progressed blocked i cs st' st'' \<Longrightarrow> tuMessages st' = tuMessages st \<Longrightarrow> tuTask st' = tuTask st \<Longrightarrow> progressed blocked i cs st st''"
  by (simp add: progressed_def)

lemma accept_results_progress:
  "accept_results lib be blocked i cs rs st = (stop, st') \<Longrightarrow> length rs = length cs \<Longrightarrow>
     \<exists>k \<le> length cs. progressed blocked i (take k cs) st st' \<and> (stop = None \<longrightarrow> k = length cs)"
proof (induction lib be blocked i cs rs st rule: accept_results.induct)
  case (1 lib be blocked i c cs r rs st)
  show ?case
  proof (cases "unsettled r")
    case True
    with 1 show ?thesis by (intro exI [of _ 0]) (auto simp: progressed_refl)
  next
    case False
    define st1 where "st1 = acceptToolResult (teLib (baTool be i)) (baID be i) c r (blocked ! i \<or> trErrorCode r = ''step_limit'')
        (st\<lparr>tuGuard := observe (tulFailure lib) c r (tuGuard st)\<rparr>)"
    have "accept_results lib be blocked (i + 1) cs rs st1 = (stop, st')"
      using "1.prems"(1) False by (simp add: st1_def)
    with "1.IH" [OF False, folded st1_def] "1.prems"(2) obtain k where
      k: "k \<le> length cs" "progressed blocked (i + 1) (take k cs) st1 st'" "stop = None \<longrightarrow> k = length cs" by auto
    have "\<exists>m. tuMessages st1 = tuMessages st @ [m] \<and> answers [c] [m]"
      using acceptToolResult_effect(1) [of "teLib (baTool be i)" "baID be i" c r _ "st\<lparr>tuGuard := observe (tulFailure lib) c r (tuGuard st)\<rparr>"]
      by (simp add: st1_def)
    then have "progressed blocked i [c] st st1"
      by (auto simp: progressed_def st1_def acceptToolResult_effect(2,3) open_steps_Suc)
    from progressed_trans [OF this, of "take k cs" st'] k show ?thesis by (intro exI [of _ "Suc k"]) simp
  qed
qed (auto simp: progressed_refl)

lemma run_group_length: "run_group ag be blocked final start calls d = (rs, d') \<Longrightarrow> length rs = length calls"
proof -
  assume "run_group ag be blocked final start calls d = (rs, d')"
  then obtain outs where "rs = fst (batch_loop (baRegistry be start) 4 (\<lambda>_. baCtxBatch be start) (\<lambda>j _. Returned (outs ! j)) 0 calls)"
    by (auto simp: run_group_def RunIndexedBatch_def split: prod.splits)
  then show ?thesis
    using batch_loop_ok [of 4 "baRegistry be start" "\<lambda>j _. Returned (outs ! j)" 0 calls "\<lambda>_. baCtxBatch be start"]
    by (simp add: batch_ok_def)
qed

lemma saveContinuation_keeps:
  "saveContinuation lib w c st = (x, c', st') \<Longrightarrow> tuMessages st' = tuMessages st \<and> tuTask st' = tuTask st \<and> tuGuard st' = tuGuard st
     \<and> tuSaved st' = tuSaved st \<and> tuApprovals st' = tuApprovals st \<and> coNext c' = coNext c \<and> coExecuting c' = coExecuting c"
  by (auto simp: saveContinuation_def Let_def)

lemma saved_when_keeps:
  "saved_when b lib w c st = (x, c', st') \<Longrightarrow> tuMessages st' = tuMessages st \<and> tuTask st' = tuTask st \<and> tuGuard st' = tuGuard st
     \<and> tuSaved st' = tuSaved st \<and> tuApprovals st' = tuApprovals st \<and> coNext c' = coNext c \<and> coExecuting c' = coExecuting c"
  by (cases b) (auto simp: saved_when_def dest: saveContinuation_keeps)

lemma saveSession_keeps:
  "saveSession lib w st = (x, st') \<Longrightarrow> tuMessages st' = tuMessages st \<and> tuTask st' = tuTask st \<and> tuGuard st' = tuGuard st
     \<and> (x = None \<longrightarrow> tuSaved st' = map (stored_message lib) (tuMessages st))"
  by (cases w) (auto simp: saveSession_def written_def find_Some_iff split: option.splits)

lemma stop_at_keeps:
  "stop_at ag lib be start r c st = (x, st') \<Longrightarrow> tuMessages st' = tuMessages st
     \<and> tkToolSteps (tuTask st') = tkToolSteps (tuTask st) \<and> tkAttempts (tuTask st') = tkAttempts (tuTask st)"
  by (auto simp: stop_at_def Let_def dest!: saveContinuation_keeps split: if_splits prod.splits option.splits)

lemma commit_group_keeps:
  assumes "commit_group lib be b start endpos ledger c st = out"
  shows "case out of
      Inl (x, st') \<Rightarrow> tuMessages st' = tuMessages st \<and> tkToolSteps (tuTask st') = tkToolSteps (tuTask st) \<and> tkAttempts (tuTask st') = tkAttempts (tuTask st)
    | Inr (c', st') \<Rightarrow> tuMessages st' = tuMessages st \<and> tkToolSteps (tuTask st') = tkToolSteps (tuTask st) \<and> tkAttempts (tuTask st') = tkAttempts (tuTask st)
        \<and> coNext c' = endpos \<and> tuSaved st' = map (stored_message lib) (tuMessages st')"
  using assms unfolding commit_group_def Let_def
  by (auto dest!: saved_when_keeps saveSession_keeps split: prod.splits option.splits)

lemma group_step_progress:
  assumes "group_step ag lib be calls blocked b c st = out" and "coNext c < length calls"
  shows "case out of
      Inl (x, st') \<Rightarrow> \<exists>k. progressed blocked (coNext c) (take k (drop (coNext c) calls)) st st'
    | Inr (c', st') \<Rightarrow> \<exists>n \<ge> 1. coNext c' = coNext c + n \<and> coNext c' \<le> length calls
        \<and> progressed blocked (coNext c) (take n (drop (coNext c) calls)) st st' \<and> tuSaved st' = map (stored_message lib) (tuMessages st')"
proof -
  define start where "start = coNext c"
  define n where "n = group_size (baRegistry be start) 4 (drop start calls)"
  define group where "group = take n (drop start calls)"
  have n: "1 \<le> n" "n \<le> length calls - start" "length group = n"
    using group_size_bounds [of "drop start calls" "baRegistry be start" 4] assms(2) by (auto simp: n_def start_def group_def)
  note G = assms(1) [unfolded group_step_def Let_def start_def [symmetric] n_def [symmetric] group_def [symmetric]]
  show ?thesis
  proof (cases "baCtx be start = None \<and> \<not> (coExecuting c \<and> \<not> safe_read (baRegistry be start) (calls ! start)
      \<and> \<not> spRisky (spec_at (baRegistry be start) (tcName (calls ! start))))")
    case False
    then have "\<exists>x. out = Inl (x, st)" using G by (auto split: option.splits if_splits)
    then show ?thesis using progressed_refl by (auto intro!: exI [of _ 0])
  next
    case go: True
    obtain x c1 st1 where s1: "saved_when b lib (baSave be start 0) (c\<lparr>coExecuting := True\<rparr>) st = (x, c1, st1)" by (metis prod_cases3)
    note k1 = saved_when_keeps [OF s1]
    show ?thesis
    proof (cases x)
      case (Some y)
      then have "out = Inl (y, st1)" using G go s1 by (auto split: option.splits if_splits)
      then show ?thesis using k1 by (auto intro!: exI [of _ 0] simp: progressed_def)
    next
      case None
      obtain rs d1 where r: "run_group ag be blocked (lgFinalOnly (tuGuard st1)) start group (tuApprovals st1) = (rs, d1)" by fastforce
      obtain stop st2 where a: "accept_results lib be blocked start group rs (st1\<lparr>tuApprovals := d1\<rparr>) = (stop, st2)" by fastforce
      from accept_results_progress [OF a] run_group_length [OF r] obtain k where
        k: "k \<le> n" "progressed blocked start (take k group) (st1\<lparr>tuApprovals := d1\<rparr>) st2" "stop = None \<longrightarrow> k = n" using n(3) by auto
      have tk: "take k group = take k (drop start calls)" using k(1) by (simp add: group_def)
      have p: "progressed blocked start (take k (drop start calls)) st st2"
        by (rule progressed_from [OF k(2) [unfolded tk]]) (simp_all add: k1)
      have out: "out = (case stop of Some res \<Rightarrow> Inl (stop_at ag lib be start res c1 st2)
          | None \<Rightarrow> commit_group lib be b start (start + n) (length (tuMessages st)) c1 st2)"
        using G go s1 None r a by auto
      show ?thesis
      proof (cases stop)
        case (Some res)
        obtain y st3 where "stop_at ag lib be start res c1 st2 = (y, st3)" by fastforce
        with stop_at_keeps [OF this] p out Some show ?thesis
          by (auto simp: start_def intro!: exI [of _ k] intro: progressed_same)
      next
        case none: None
        show ?thesis using commit_group_keeps [of lib be b start "start + n" "length (tuMessages st)" c1 st2 out] out none p k n assms(2)
          by (auto simp: start_def split: sum.splits intro!: exI [of _ k] intro: progressed_same)
      qed
    qed
  qed
qed

lemma batch_rounds_progress:
  assumes "batch_rounds fuel ag lib be calls blocked b c st = Some (x, st')" and "coNext c \<le> length calls"
  shows "\<exists>k. progressed blocked (coNext c) (take k (drop (coNext c) calls)) st st' \<and> (x = None \<longrightarrow> length calls \<le> coNext c + k)
     \<and> (x = None \<longrightarrow> coNext c < length calls \<longrightarrow> tuSaved st' = map (stored_message lib) (tuMessages st'))"
  using assms
proof (induction fuel arbitrary: c st)
  case 0
  then have "coNext c = length calls" "tuMessages st' = tuMessages st \<and> tuTask st' = tuTask st"
    by (auto simp: batch_rounds.simps [of 0] clearContinuation_def split: if_splits)
  then show ?case by (intro exI [of _ 0]) (simp add: progressed_def)
next
  case (Suc fuel)
  show ?case
  proof (cases "coNext c = length calls")
    case True
    then have "tuMessages st' = tuMessages st \<and> tuTask st' = tuTask st"
      using Suc.prems(1) by (auto simp: batch_rounds.simps [of "Suc fuel"] clearContinuation_def split: if_splits)
    then show ?thesis using True by (intro exI [of _ 0]) (simp add: progressed_def)
  next
    case False
    then have lt: "coNext c < length calls" using Suc.prems(2) by simp
    show ?thesis
    proof (cases "group_step ag lib be calls blocked b c st")
      case (Inl p)
      obtain y st1 where "p = (y, st1)" by (cases p)
      then show ?thesis using Suc.prems(1) lt Inl group_step_progress [OF Inl lt]
        by (auto simp: batch_rounds.simps [of "Suc fuel"])
    next
      case (Inr p)
      obtain c1 st1 where p: "p = (c1, st1)" by (cases p)
      with group_step_progress [OF Inr lt] obtain n where
        n: "coNext c1 = coNext c + n" "1 \<le> n" "coNext c1 \<le> length calls"
          "progressed blocked (coNext c) (take n (drop (coNext c) calls)) st st1" "tuSaved st1 = map (stored_message lib) (tuMessages st1)" by auto
      have rest: "batch_rounds fuel ag lib be calls blocked b c1 st1 = Some (x, st')"
        using Suc.prems(1) lt Inr p by (simp add: batch_rounds.simps [of "Suc fuel"])
      from Suc.IH [OF rest n(3)] obtain k where
        k: "progressed blocked (coNext c1) (take k (drop (coNext c1) calls)) st1 st'" "x = None \<longrightarrow> length calls \<le> coNext c1 + k"
          "x = None \<longrightarrow> coNext c1 < length calls \<longrightarrow> tuSaved st' = map (stored_message lib) (tuMessages st')" by blast
      have len: "length (take n (drop (coNext c) calls)) = n" using n(1,3) by simp
      have "take n (drop (coNext c) calls) @ take k (drop (coNext c1) calls) = take (n + k) (drop (coNext c) calls)"
        unfolding take_add drop_drop n(1) by (simp add: add.commute)
      with progressed_trans [OF n(4), of "take k (drop (coNext c1) calls)" st'] k(1) len
      have "progressed blocked (coNext c) (take (n + k) (drop (coNext c) calls)) st st'" by (simp add: n(1))
      moreover have "tuSaved st' = map (stored_message lib) (tuMessages st')" if "x = None"
      proof (cases "coNext c1 < length calls")
        case True
        then show ?thesis using k(3) that by simp
      next
        case False
        then have "tuMessages st' = tuMessages st1 \<and> tuSaved st' = tuSaved st1"
          using rest n(3) by (auto simp: batch_rounds.simps [of fuel] clearContinuation_def split: if_splits)
        then show ?thesis using n(5) by simp
      qed
      ultimately show ?thesis using k(2) n(1) by (intro exI [of _ "n + k"]) auto
    qed
  qed
qed

lemma batch_rounds_total:
  "length calls \<le> coNext c + fuel \<Longrightarrow> batch_rounds fuel ag lib be calls blocked b c st \<noteq> None"
proof (induction fuel arbitrary: c st)
  case 0
  then show ?case by (simp add: batch_rounds.simps [of 0])
next
  case (Suc fuel)
  show ?case
  proof (cases "coNext c < length calls")
    case False
    then show ?thesis by (simp add: batch_rounds.simps [of "Suc fuel"])
  next
    case True
    show ?thesis
    proof (cases "group_step ag lib be calls blocked b c st")
      case (Inl p)
      then show ?thesis using True by (cases p) (simp add: batch_rounds.simps [of "Suc fuel"])
    next
      case (Inr p)
      obtain c1 st1 where p: "p = (c1, st1)" by (cases p)
      then have "length calls \<le> coNext c1 + fuel" using group_step_progress [OF Inr True] Suc.prems by auto
      from Suc.IH [OF this] True Inr p show ?thesis by (simp add: batch_rounds.simps [of "Suc fuel"])
    qed
  qed
qed

lemma executeToolBatch_total:
  "executeToolBatch ag lib be request calls blocked co st \<noteq> None"
proof (cases co)
  case None
  obtain y c st1 where s: "saved_when (agAsync ag) lib (baStart be) (fresh_continuation ag be request calls blocked st) st = (y, c, st1)"
    by (metis prod_cases3)
  have "batch_rounds (length calls) ag lib be calls blocked (agAsync ag) c st1 \<noteq> None" by (rule batch_rounds_total) simp
  then show ?thesis using None s by (cases y) (simp_all add: executeToolBatch_def)
next
  case (Some c)
  have "batch_rounds (length calls) ag lib be calls blocked True c st \<noteq> None" by (rule batch_rounds_total) simp
  then show ?thesis using Some by (simp add: executeToolBatch_def)
qed

lemma executeToolBatch_progress:
  assumes "executeToolBatch ag lib be request calls blocked None st = Some (x, st')"
  shows "\<exists>k. progressed blocked 0 (take k calls) st st' \<and> (x = None \<longrightarrow> length calls \<le> k)
     \<and> (x = None \<longrightarrow> calls \<noteq> [] \<longrightarrow> tuSaved st' = map (stored_message lib) (tuMessages st'))"
proof -
  obtain y c st1 where s: "saved_when (agAsync ag) lib (baStart be) (fresh_continuation ag be request calls blocked st) st = (y, c, st1)"
    by (metis prod_cases3)
  note k = saved_when_keeps [OF s]
  have c: "coNext c = 0" using k by (simp add: fresh_continuation_def no_continuation_def)
  show ?thesis
  proof (cases y)
    case (Some z)
    then have "x = Some z \<and> st' = st1" using assms s by (simp add: executeToolBatch_def)
    then show ?thesis using k by (intro exI [of _ 0]) (simp add: progressed_def)
  next
    case None
    then have "batch_rounds (length calls) ag lib be calls blocked (agAsync ag) c st1 = Some (x, st')"
      using assms s by (simp add: executeToolBatch_def)
    from batch_rounds_progress [OF this] c obtain n where
      "progressed blocked 0 (take n calls) st1 st'" "x = None \<longrightarrow> length calls \<le> n"
      "x = None \<longrightarrow> calls \<noteq> [] \<longrightarrow> tuSaved st' = map (stored_message lib) (tuMessages st')" by auto
    then show ?thesis using k by (intro exI [of _ n]) (auto intro: progressed_from)
  qed
qed

subsection \<open>The guard has a reason\<close>

text \<open>Only a final answer is asked for when the tool steps are used up, or a tool failed twice in the same way.\<close>

definition failed_twice :: "loop_guard \<Rightarrow> bool" where
  "failed_twice g \<longleftrightarrow> (\<exists>k n. mget (lgFailures g) k = Some n \<and> 2 \<le> n)"

definition guarded :: "nat \<Rightarrow> turn_state \<Rightarrow> bool" where
  "guarded limit st \<longleftrightarrow> (lgFinalOnly (tuGuard st) \<longrightarrow>
     lgReason (tuGuard st) = ''tool step budget exhausted'' \<and> limit \<le> tkToolSteps (tuTask st) \<or>
     lgReason (tuGuard st) = ''same tool and arguments failed with the same error twice'' \<and> failed_twice (tuGuard st))"

lemma guarded_same:
  "guarded limit st \<Longrightarrow> tuGuard st' = tuGuard st \<Longrightarrow> tkToolSteps (tuTask st) \<le> tkToolSteps (tuTask st') \<Longrightarrow> guarded limit st'"
  by (auto simp: guarded_def)

lemma observe_cases:
  obtains "observe f c r g = g"
    | "lgFinalOnly (observe f c r g)" "lgReason (observe f c r g) = ''same tool and arguments failed with the same error twice''" "failed_twice (observe f c r g)"
    | "lgFinalOnly (observe f c r g) = lgFinalOnly g" "lgReason (observe f c r g) = lgReason g" "failed_twice g \<longrightarrow> failed_twice (observe f c r g)"
proof -
  let ?k = "f c r"
  let ?n = "(case mget (lgFailures g) ?k of None \<Rightarrow> 0 | Some n \<Rightarrow> n) + 1"
  consider "trStatus r = ''ok'' \<or> trStatus r = ''pending''" | (bad) "trStatus r \<noteq> ''ok''" "trStatus r \<noteq> ''pending''" by blast
  then show thesis
  proof cases
    case bad
    show thesis
    proof (cases "2 \<le> ?n")
      case True
      then show thesis using bad by (intro that(2)) (auto simp: observe_def Let_def failed_twice_def intro!: exI [of _ ?k])
    next
      case False
      have fails: "lgFailures (observe f c r g) = mput ?k ?n (lgFailures g)" using False bad by (simp add: observe_def Let_def)
      have "failed_twice (observe f c r g)" if twice: "failed_twice g"
      proof -
        obtain k n where k: "mget (lgFailures g) k = Some n" "2 \<le> n" using twice by (auto simp: failed_twice_def)
        then have "k \<noteq> ?k" using False by auto
        then show ?thesis using k unfolding failed_twice_def fails by (intro exI [of _ k] exI [of _ n]) simp
      qed
      then have "failed_twice g \<longrightarrow> failed_twice (observe f c r g)" by blast
      then show thesis using False bad by (intro that(3)) (simp_all add: observe_def Let_def)
    qed
  qed (simp add: observe_def that(1))
qed

lemma observe_guarded:
  assumes "guarded limit st"
  shows "guarded limit (st\<lparr>tuGuard := observe f c r (tuGuard st)\<rparr>)"
  by (cases f c r "tuGuard st" rule: observe_cases) (use assms in \<open>auto simp: guarded_def\<close>)

lemma accept_results_guarded:
  "accept_results lib be blocked i cs rs st = (stop, st') \<Longrightarrow> guarded limit st \<Longrightarrow> guarded limit st'"
proof (induction lib be blocked i cs rs st rule: accept_results.induct)
  case (1 lib be blocked i c cs r rs st)
  let ?st = "st\<lparr>tuGuard := observe (tulFailure lib) c r (tuGuard st)\<rparr>"
  have "guarded limit (acceptToolResult l mid c r b ?st)" for l mid b
    by (rule guarded_same [OF observe_guarded [OF "1.prems"(2)]]) (simp_all add: acceptToolResult_effect acceptToolResult_def Let_def)
  then show ?case using 1 by (auto split: if_splits)
qed simp_all

lemma stop_at_guard: "stop_at ag lib be start r c st = (x, st') \<Longrightarrow> tuGuard st' = tuGuard st"
  by (auto simp: stop_at_def Let_def dest!: saveContinuation_keeps split: if_splits prod.splits option.splits)

lemma commit_group_guard:
  assumes "commit_group lib be b start endpos ledger c st = out"
  shows "case out of Inl (x, st') \<Rightarrow> tuGuard st' = tuGuard st | Inr (c', st') \<Rightarrow> tuGuard st' = tuGuard st"
  using assms unfolding commit_group_def Let_def
  by (auto dest!: saved_when_keeps saveSession_keeps split: prod.splits option.splits)

lemma group_step_guarded:
  assumes "group_step ag lib be calls blocked b c st = out" "guarded limit st"
  shows "case out of Inl (x, st') \<Rightarrow> guarded limit st' | Inr (c', st') \<Rightarrow> guarded limit st'"
proof -
  define start where "start = coNext c"
  define n where "n = group_size (baRegistry be start) 4 (drop start calls)"
  define group where "group = take n (drop start calls)"
  note G = assms(1) [unfolded group_step_def Let_def start_def [symmetric] n_def [symmetric] group_def [symmetric]]
  obtain x c1 st1 where s1: "saved_when b lib (baSave be start 0) (c\<lparr>coExecuting := True\<rparr>) st = (x, c1, st1)" by (metis prod_cases3)
  have g1: "guarded limit st1" using saved_when_keeps [OF s1] assms(2) by (auto intro: guarded_same)
  obtain rs d1 where r: "run_group ag be blocked (lgFinalOnly (tuGuard st1)) start group (tuApprovals st1) = (rs, d1)" by fastforce
  obtain stop st2 where a: "accept_results lib be blocked start group rs (st1\<lparr>tuApprovals := d1\<rparr>) = (stop, st2)" by fastforce
  have g2: "guarded limit st2" by (rule accept_results_guarded [OF a]) (rule guarded_same [OF g1]; simp)
  consider y where "out = Inl (y, st)" | y where "out = Inl (y, st1)" | res where "out = Inl (stop_at ag lib be start res c1 st2)"
    | "commit_group lib be b start (start + n) (length (tuMessages st)) c1 st2 = out"
    using G s1 r a by (auto split: option.splits if_splits)
  then show ?thesis
  proof cases
    case (3 res)
    obtain y st3 where "stop_at ag lib be start res c1 st2 = (y, st3)" by fastforce
    moreover have "guarded limit st3" by (rule guarded_same [OF g2]) (use stop_at_guard [OF calculation] stop_at_keeps [OF calculation] in simp_all)
    ultimately show ?thesis using 3 by simp
  next
    case 4
    from commit_group_guard [OF 4] commit_group_keeps [OF 4] show ?thesis
      by (auto split: sum.splits intro: guarded_same [OF g2])
  qed (use assms(2) g1 in simp_all)
qed

lemma batch_rounds_guarded:
  "batch_rounds fuel ag lib be calls blocked b c st = Some (x, st') \<Longrightarrow> guarded limit st \<Longrightarrow> guarded limit st'"
proof (induction fuel arbitrary: c st)
  case 0
  then show ?case by (auto simp: batch_rounds.simps [of 0] clearContinuation_def split: if_splits elim!: guarded_same)
next
  case (Suc fuel)
  show ?case
  proof (cases "length calls \<le> coNext c")
    case True
    then show ?thesis using Suc.prems by (auto simp: batch_rounds.simps [of "Suc fuel"] clearContinuation_def split: if_splits elim!: guarded_same)
  next
    case False
    show ?thesis
    proof (cases "group_step ag lib be calls blocked b c st")
      case (Inl p)
      then show ?thesis using Suc.prems False group_step_guarded [OF Inl] by (cases p) (auto simp: batch_rounds.simps [of "Suc fuel"])
    next
      case (Inr p)
      obtain c1 st1 where p: "p = (c1, st1)" by (cases p)
      have "guarded limit st1" using group_step_guarded [OF Inr Suc.prems(2)] p by simp
      with Suc.IH [of c1 st1] show ?thesis using Suc.prems(1) False Inr p by (simp add: batch_rounds.simps [of "Suc fuel"])
    qed
  qed
qed

lemma executeToolBatch_guarded:
  assumes "executeToolBatch ag lib be request calls blocked None st = Some (x, st')" "guarded limit st"
  shows "guarded limit st'"
proof -
  obtain y c st1 where s: "saved_when (agAsync ag) lib (baStart be) (fresh_continuation ag be request calls blocked st) st = (y, c, st1)"
    by (metis prod_cases3)
  have "guarded limit st1" using saved_when_keeps [OF s] assms(2) by (auto intro: guarded_same)
  then show ?thesis using assms(1) s batch_rounds_guarded by (auto simp: executeToolBatch_def split: option.splits)
qed

subsection \<open>What the batch leaves in the session\<close>

text \<open>The ids used in a history.\<close>

definition used_ids :: "message list \<Rightarrow> string set" where
  "used_ids ms = (\<Union>m \<in> set ms. set (map tcID (mToolCalls m)))"

lemma exchange_closure:
  assumes hist: "ValidateClosure hist = None" and m: "ledger_message m" "mRole m = ''assistant''"
    and ids: "closed_calls_ok (mToolCalls m) (used_ids hist)" and rs: "answers (take (length rs) (mToolCalls m)) rs"
  shows "\<exists>seen. closure_loop (hist @ m # rs) [] [] = Inr (rev (map tcID (drop (length rs) (mToolCalls m))), seen)"
proof -
  let ?calls = "mToolCalls m"
  obtain seen where h: "closure_loop hist [] [] = Inr ([], seen)" using hist by (auto simp: ValidateClosure_None closure_state_def)
  have seen: "set seen = used_ids hist" using closure_loop_seen [OF h] by (simp add: used_ids_def)
  have mm: "closure_msg m [] seen = Inr (rev (map tcID ?calls), rev (map tcID ?calls) @ seen)"
    using m ids by (auto simp: closure_msg_def closure_calls_eq ledger_message_def seen)
  let ?a = "take (length rs) ?calls"
  have dist: "distinct (map tcID ?calls)" "'''' \<notin> set (map tcID ?calls)" using ids by (auto simp: closed_calls_ok_def)
  have a: "closure_loop rs (rev (map tcID ?calls)) (rev (map tcID ?calls) @ seen)
      = Inr (filter (\<lambda>i. i \<notin> set (map tcID ?a)) (rev (map tcID ?calls)), rev (map tcID ?calls) @ seen)"
    using dist by (intro closure_answers [OF rs]) (auto simp: distinct_map intro: inj_on_subset dest: in_set_takeD)
  have split: "?calls = ?a @ drop (length rs) ?calls" by simp
  have "filter (\<lambda>i. i \<notin> set (map tcID ?a)) (map tcID ?calls) = map tcID (drop (length rs) ?calls)"
  proof -
    have "set (map tcID ?a) \<inter> set (map tcID (drop (length rs) ?calls)) = {}"
      using dist(1) by (subst (asm) split) (simp only: map_append distinct_append)
    then have "filter (\<lambda>i. i \<notin> set (map tcID ?a)) (map tcID (drop (length rs) ?calls)) = map tcID (drop (length rs) ?calls)"
      by (intro filter_True) blast
    moreover have "filter (\<lambda>i. i \<notin> set (map tcID ?a)) (map tcID ?a) = []" by (auto simp: filter_empty_conv)
    ultimately show ?thesis by (subst split) (simp only: map_append filter_append append_Nil)
  qed
  then have f: "filter (\<lambda>i. i \<notin> set (map tcID ?a)) (rev (map tcID ?calls)) = rev (map tcID (drop (length rs) ?calls))"
    by (simp only: rev_filter [symmetric])
  have "closure_loop (m # rs) [] seen = Inr (rev (map tcID (drop (length rs) ?calls)), rev (map tcID ?calls) @ seen)"
    unfolding closure_loop.simps(2) mm sum.case prod.case a f ..
  then show ?thesis using h unfolding closure_loop_append h sum.case prod.case by blast
qed

text \<open>C22. A batch leaves a session that can go on or be reopened: when the assistant message with
  the calls was appended to a closed history, the results are those of the first calls in their order;
  when the batch succeeds every call has its result and the saved ledger is the redacted conversation;
  the conversation is closed exactly when every call was answered, and in every case it can be reopened.\<close>

theorem batch_leaves_session_reopenable:
  assumes "ValidateClosure hist = None" and "list_all ledger_message (hist @ [m])" and "mRole m = ''assistant''"
    and "closed_calls_ok (mToolCalls m) (used_ids hist)" and "mToolCalls m \<noteq> []" and "tuMessages st = hist @ [m]"
    and "executeToolBatch ag lib be request (mToolCalls m) blocked None st = Some (x, st')"
  shows "\<exists>rs. tuMessages st' = hist @ m # rs \<and> answers (take (length rs) (mToolCalls m)) rs
     \<and> (x = None \<longrightarrow> length rs = length (mToolCalls m) \<and> tuSaved st' = map (stored_message lib) (tuMessages st'))
     \<and> (ValidateClosure (tuMessages st') = None \<longleftrightarrow> length rs = length (mToolCalls m))
     \<and> (\<exists>out n. closeInterruptedExchanges (tuMessages st') = Inr (out, n) \<and> ValidateClosure out = None)"
proof -
  let ?calls = "mToolCalls m"
  from executeToolBatch_progress [OF assms(7)] assms(5) obtain k where
    k: "progressed blocked 0 (take k ?calls) st st'" "x = None \<longrightarrow> length ?calls \<le> k"
      "x = None \<longrightarrow> tuSaved st' = map (stored_message lib) (tuMessages st')" by blast
  then obtain rs where rs: "tuMessages st' = hist @ m # rs" "answers (take k ?calls) rs"
    by (auto simp: progressed_def assms(6))
  have len: "length rs = min k (length ?calls)" using rs(2) by (auto simp: answers_def dest: arg_cong [of _ _ length])
  then have ans: "answers (take (length rs) ?calls) rs" using rs(2) by (cases "k \<le> length ?calls") (simp_all add: min_def)
  have m: "ledger_message m" and hl: "list_all ledger_message hist" using assms(2) by simp_all
  obtain seen where c: "closure_loop (hist @ m # rs) [] [] = Inr (rev (map tcID (drop (length rs) ?calls)), seen)"
    using exchange_closure [OF assms(1) m assms(3,4) ans] by blast
  have closed: "ValidateClosure (tuMessages st') = None \<longleftrightarrow> length rs = length ?calls"
    using len by (auto simp: ValidateClosure_def rs(1) c)
  have lrs: "list_all ledger_message rs"
  proof -
    have "mToolCallID r \<noteq> ''''" if "r \<in> set rs" for r
    proof -
      have "mToolCallID r \<in> set (map tcID (take (length rs) ?calls))" using ans that by (metis answers_def image_eqI set_map)
      then obtain c where "c \<in> set ?calls" "mToolCallID r = tcID c" by (auto dest: in_set_takeD)
      then show ?thesis using assms(4) by (simp add: closed_calls_ok_def)
    qed
    then show ?thesis using ans by (auto simp: list_all_iff ledger_message_def answers_def)
  qed
  have ledger: "list_all ledger_message (tuMessages st')" using m hl lrs by (simp add: rs(1))
  have full: "answers (take (length (rs @ map unknown_receipt (drop (length rs) ?calls))) ?calls) (rs @ map unknown_receipt (drop (length rs) ?calls))"
    using answers_append [OF ans receipts_answer, of "drop (length rs) ?calls"] len by simp
  have "ValidateClosure (tuMessages st' @ map unknown_receipt (drop (length rs) ?calls)) = None"
    using exchange_closure [OF assms(1) m assms(3,4) full] len by (auto simp: rs(1) ValidateClosure_def)
  from interrupted_prefix_reopens [OF ledger this] resumed_session_is_closed [OF ledger]
  have "\<exists>out n. closeInterruptedExchanges (tuMessages st') = Inr (out, n) \<and> ValidateClosure out = None" by blast
  then show ?thesis using rs(1) ans closed k(2,3) len by auto
qed

text \<open>The other side of it: nothing within a running agent answers the calls that an interrupted batch
  left open. Every later request is built from the same conversation and refused, until the session is
  reopened.\<close>

lemma open_exchange_refused:
  assumes "closure_loop ms [] [] = Inr (p, seen)" "p \<noteq> []" "mRole u \<noteq> ''tool''"
  shows "ValidateClosure (ms @ u # later) \<noteq> None"
proof -
  have "\<exists>e. closure_msg u p seen = Inl e"
    using closure_msg_turn [of u p seen] assms(2,3) by (cases "closure_msg u p seen") auto
  then show ?thesis using assms(1) by (auto simp: ValidateClosure_None closure_state_def closure_loop_append)
qed

lemma interrupted_batch_blocks_turns:
  assumes "ValidateClosure hist = None" "ledger_message m" "mRole m = ''assistant''"
    "closed_calls_ok (mToolCalls m) (used_ids hist)" "answers (take (length rs) (mToolCalls m)) rs"
    and "length rs < length (mToolCalls m)" "mRole u \<noteq> ''tool''"
    and "inHistory inp = hist @ m # rs @ u # later"
  shows "\<exists>e. BuildChecked env native inp = Inl e"
proof -
  obtain seen where c: "closure_loop (hist @ m # rs) [] [] = Inr (rev (map tcID (drop (length rs) (mToolCalls m))), seen)"
    using exchange_closure [OF assms(1-5)] by blast
  have "ValidateClosure (inHistory inp) \<noteq> None"
    using open_exchange_refused [OF c _ assms(7), of later] assms(6,8) by simp
  then show ?thesis by (auto simp: BuildChecked_def)
qed

definition demo_calls :: message where
  "demo_calls = (text_message ''assistant'' '''')
     \<lparr>mToolCalls := [\<lparr>tcID = ''c1'', tcName = ''run_shell'', tcArgs = Some []\<rparr>, \<lparr>tcID = ''c2'', tcName = ''run_shell'', tcArgs = Some []\<rparr>]\<rparr>"

definition demo_turn_lib :: turn_lib where
  "demo_turn_lib = \<lparr>tulRedact = id, tulRedactArgs = id, tulBlock = (\<lambda>_. None), tulDigest = (\<lambda>_. ''''), tulFailure = (\<lambda>c _. tcID c)\<rparr>"

text \<open>The user cancels the turn after its first call.\<close>

definition demo_batch_env :: "unit batch_env" where
  "demo_batch_env = \<lparr>baTool = (\<lambda>_. demo_tool_env), baRegistry = (\<lambda>_. demo_shell_registry), baCtx = (\<lambda>_. None), baCtxBatch = (\<lambda>_. None),
     baCtxAfter = (\<lambda>_. Some Canceled), baSave = (\<lambda>_ _. Replaced), baStart = Replaced, baClear = Replaced, baID = (\<lambda>_. ''m''),
     baCheckpointID = (\<lambda>_. ''k''), baDefinitions = []\<rparr>"

definition demo_turn :: turn_state where
  "demo_turn = \<lparr>tuMessages = [text_message ''user'' ''hi'', demo_calls], tuSaved = [], tuTask = no_task, tuGuard = no_guard,
     tuApprovals = Absent, tuContinuation = no_continuation\<rparr>"

lemma demo_cancelled:
  "\<exists>st' r. executeToolBatch demo_agent demo_turn_lib demo_batch_env ''hi'' (mToolCalls demo_calls) [True, True] None demo_turn
       = Some (Some Canceled, st')
     \<and> tuMessages st' = [text_message ''user'' ''hi'', demo_calls, r] \<and> answers (take 1 (mToolCalls demo_calls)) [r]"
proof -
  let ?calls = "mToolCalls demo_calls"
  define c where "c = fresh_continuation demo_agent demo_batch_env ''hi'' ?calls [True, True] demo_turn"
  let ?call = "\<lparr>tcID = ''c1'', tcName = ''run_shell'', tcArgs = Some []\<rparr>"
  let ?msg = "\<lparr>mID = ''m'', mToolCalls = [], mToolCallID = ''c1'', mRole = ''tool'', mContent = renderToolResult (step_limit ?call), mNative = []\<rparr>"
  have c0: "coNext c = 0" "coExecuting c = False" by (simp_all add: c_def fresh_continuation_def no_continuation_def)
  have safe: "\<not> safe_read demo_shell_registry call" for call
    by (simp add: safe_read_def Capability_def demo_shell_registry_def unknown_capability_def mget_def)
  have size: "group_size demo_shell_registry 4 ?calls = 1" by (simp add: group_size_def demo_calls_def safe)
  have grp: "run_group demo_agent demo_batch_env [True, True] False 0 [?call] Absent = ([step_limit ?call], Absent)"
    by (simp add: run_group_def RunIndexedBatch_def demo_batch_env_def batch_loop.simps(2) group_size_def safe slot_result_def
        group_aborts_def step_limit_def tool_error_def no_result_def)
  have be: "baCtx demo_batch_env i = None" "baRegistry demo_batch_env i = demo_shell_registry" "baID demo_batch_env i = ''m''"
      "baSave demo_batch_env i k = Replaced" "baCtxAfter demo_batch_env i = Some Canceled" for i k
    by (simp_all add: demo_batch_env_def)
  have turn: "tuMessages demo_turn = [text_message ''user'' ''hi'', demo_calls]" "lgFinalOnly (tuGuard demo_turn) = False" "tuApprovals demo_turn = Absent"
    by (simp_all add: demo_turn_def no_guard_def)
  have two: "take (Suc 0) ?calls = [?call]" "?calls ! 0 = ?call" "length ?calls = 2" by (simp_all add: demo_calls_def)
  have async: "agAsync demo_agent = False" by (simp add: demo_agent_def)
  have unsettled: "\<not> unsettled (step_limit ?call)" by (simp add: unsettled_def step_limit_def tool_error_def no_result_def)
  have session: "saveSession demo_turn_lib Replaced st = (None, st\<lparr>tuSaved := map (stored_message demo_turn_lib) (tuMessages st)\<rparr>)" for st
  proof -
    have "find (\<lambda>b. tulBlock demo_turn_lib b \<noteq> None) (concat (map mNative (tuMessages st))) = None"
      by (simp add: find_None_iff demo_turn_lib_def)
    then show ?thesis by (simp add: saveSession_def written_def)
  qed
  have "\<exists>st'. group_step demo_agent demo_turn_lib demo_batch_env ?calls [True, True] False c demo_turn = Inl (Canceled, st')
      \<and> tuMessages st' = [text_message ''user'' ''hi'', demo_calls, ?msg]"
    using size
    by (simp add: group_step_def c0 be turn two grp safe unsettled Let_def saved_when_def
        acceptToolResult_def commit_group_def session)
  then obtain st' where st': "group_step demo_agent demo_turn_lib demo_batch_env ?calls [True, True] False c demo_turn = Inl (Canceled, st')"
      "tuMessages st' = [text_message ''user'' ''hi'', demo_calls, ?msg]" by blast
  have "executeToolBatch demo_agent demo_turn_lib demo_batch_env ''hi'' ?calls [True, True] None demo_turn = Some (Some Canceled, st')"
    using st'(1) c0 two(3) by (simp add: executeToolBatch_def saved_when_def c_def [symmetric] async batch_rounds.simps [of "Suc _"] numeral_2_eq_2)
  moreover have "answers (take 1 ?calls) [?msg]" by (simp add: answers_def demo_calls_def)
  ultimately show ?thesis using st'(2) by blast
qed

lemma batch_leaves_session_reopenable_witness:
  "\<exists>st' out n. executeToolBatch demo_agent demo_turn_lib demo_batch_env ''hi'' (mToolCalls demo_calls) [True, True] None demo_turn
       = Some (Some Canceled, st')
     \<and> closeInterruptedExchanges (tuMessages st') = Inr (out, n) \<and> ValidateClosure out = None"
proof -
  obtain st' where st': "executeToolBatch demo_agent demo_turn_lib demo_batch_env ''hi'' (mToolCalls demo_calls) [True, True] None demo_turn
       = Some (Some Canceled, st')" using demo_cancelled by blast
  have a: "ValidateClosure [text_message ''user'' ''hi''] = None" "list_all ledger_message ([text_message ''user'' ''hi''] @ [demo_calls])"
    "mRole demo_calls = ''assistant''" "closed_calls_ok (mToolCalls demo_calls) (used_ids [text_message ''user'' ''hi''])"
    "mToolCalls demo_calls \<noteq> []" "tuMessages demo_turn = [text_message ''user'' ''hi''] @ [demo_calls]"
    by (simp_all add: ValidateClosure_def closure_msg_def ledger_message_def text_message_def demo_calls_def closed_calls_ok_def used_ids_def demo_turn_def)
  from batch_leaves_session_reopenable [OF a st'] st' show ?thesis by blast
qed

text \<open>After the cancelled batch of the example, no request of that agent can be built any more.\<close>

lemma cancelled_turn_blocks_session:
  "\<exists>st'. executeToolBatch demo_agent demo_turn_lib demo_batch_env ''hi'' (mToolCalls demo_calls) [True, True] None demo_turn
       = Some (Some Canceled, st')
     \<and> (\<forall>env native inp later. inHistory inp = tuMessages st' @ text_message ''user'' ''go on'' # later \<longrightarrow> (\<exists>e. BuildChecked env native inp = Inl e))"
proof -
  obtain st' r where st': "executeToolBatch demo_agent demo_turn_lib demo_batch_env ''hi'' (mToolCalls demo_calls) [True, True] None demo_turn
       = Some (Some Canceled, st')" "tuMessages st' = [text_message ''user'' ''hi'', demo_calls, r]" "answers (take 1 (mToolCalls demo_calls)) [r]"
    using demo_cancelled by blast
  have a: "ValidateClosure [text_message ''user'' ''hi''] = None" "ledger_message demo_calls"
    "mRole demo_calls = ''assistant''" "closed_calls_ok (mToolCalls demo_calls) (used_ids [text_message ''user'' ''hi''])"
    "length [r] < length (mToolCalls demo_calls)" "mRole (text_message ''user'' ''go on'') \<noteq> ''tool''"
    by (simp_all add: ValidateClosure_def closure_msg_def ledger_message_def text_message_def demo_calls_def closed_calls_ok_def used_ids_def)
  have b: "answers (take (length [r]) (mToolCalls demo_calls)) [r]" using st'(3) by simp
  show ?thesis using st'(1,2) interrupted_batch_blocks_turns [OF a(1-4) b a(5,6)] by auto
qed

end
