(* ===== verification/Sessions.thy ===== *)
theory Sessions
  imports Durable Model "HOL-Library.List_Lexorder" "HOL-Library.Char_ord" "HOL-Library.Word"
begin

section \<open>The session store\<close>

text \<open>
  \<open>internal/store/store.go\<close>: a session is one JSON file. An owner holds a \<open>session\<close> and the fence of the content it
  last read or wrote, the hash of that content; \<open>Save\<close> and \<open>Claim\<close> go through a locked transaction and are refused when
  the file is not what the owner saw. The hash is the argument \<open>h\<close>; its values are any type \<open>'f\<close>, \<open>None\<close> is
  the empty fence of a session that was never stored. Revision and epoch are 64-bit words. Messages and memory
  are assumed to survive their JSON encoding. Directory listings and single file reads are arguments.
\<close>

subsection \<open>Sessions and owners\<close>

record session =
  seRevision :: "64 word"
  seEpoch :: "64 word"
  seSchema :: string
  seID :: string
  seWorkspace :: string
  seMemoryUser :: string
  seMessages :: "message list"
  seMemory :: "json gomap"
  seCreated :: instant
  seUpdated :: instant

definition no_session :: session where
  "no_session = \<lparr>seRevision = 0, seEpoch = 0, seSchema = '''', seID = '''', seWorkspace = '''', seMemoryUser = '''', seMessages = [],
     seMemory = [], seCreated = 0, seUpdated = 0\<rparr>"

record 'f owned =
  owSession :: session
  owFence :: "'f option"

definition new_session :: "string \<Rightarrow> instant \<Rightarrow> string \<Rightarrow> session" where
  "new_session sid now workspace =
     no_session\<lparr>seSchema := ''pico.go.session.v1'', seID := sid, seWorkspace := workspace, seCreated := now, seUpdated := now\<rparr>"

definition New_session :: "string \<Rightarrow> instant \<Rightarrow> string \<Rightarrow> 'f owned" where
  "New_session sid now workspace = \<lparr>owSession = new_session sid now workspace, owFence = None\<rparr>"

text \<open>\<open>filepath.Base(id) == id\<close> follows from the other conditions.\<close>

definition validSessionID :: "string \<Rightarrow> bool" where
  "validSessionID sid \<longleftrightarrow> sid \<notin> {'''', ''.'', ''..''} \<and> CHR ''/'' \<notin> set sid \<and> CHR 0x5C \<notin> set sid"

definition ErrSessionConflict :: gerr where
  "ErrSessionConflict = Msg ''session owner or content changed; reload before writing''"

definition checkSessionFence :: "(session \<Rightarrow> 'f) \<Rightarrow> 'f owned \<Rightarrow> session \<Rightarrow> gerr option" where
  "checkSessionFence h want current =
     (let w = owSession want in
      if seID current = '''' then (if seRevision w \<noteq> 0 \<or> owFence want \<noteq> None then Some ErrSessionConflict else None)
      else if seID current \<noteq> seID w \<or> seRevision current \<noteq> seRevision w \<or> seEpoch current \<noteq> seEpoch w
           \<or> owFence want = None \<or> Some (h current) \<noteq> owFence want
      then Some ErrSessionConflict else None)"

subsection \<open>Save, claim, load\<close>

definition save_fn :: "(session \<Rightarrow> 'f) \<Rightarrow> instant \<Rightarrow> 'f owned \<Rightarrow> (session, session) callback" where
  "save_fn h now own current =
     (case checkSessionFence h own current of
        Some e \<Rightarrow> (owSession own, Inl e)
      | None \<Rightarrow>
         (let s = owSession own;
              next = s\<lparr>seRevision := seRevision current + 1, seEpoch := (if seEpoch s = 0 then 1 else seEpoch s), seUpdated := now\<rparr>
          in (next, Inr next)))"

definition claim_session_fn :: "(session \<Rightarrow> 'f) \<Rightarrow> 'f owned \<Rightarrow> (session, session) callback" where
  "claim_session_fn h own current =
     (case checkSessionFence h own current of
        Some e \<Rightarrow> (owSession own, Inl e)
      | None \<Rightarrow>
         (let next = (owSession own)\<lparr>seEpoch := seEpoch current + 1, seRevision := seRevision current + 1\<rparr> in (next, Inr next)))"

definition session_update ::
  "(session \<Rightarrow> 'f) \<Rightarrow> io \<Rightarrow> (session, session) callback \<Rightarrow> 'f owned \<Rightarrow> session content \<Rightarrow> (gerr option \<times> 'f owned) \<times> session content" where
  "session_update h e fn own d =
     (case file_update no_session e (owSession own) fn d of
        ((next, Some x), d') \<Rightarrow> ((Some x, own), d')
      | ((next, None), d') \<Rightarrow> ((None, \<lparr>owSession = next, owFence = Some (h next)\<rparr>), d'))"

definition session_Save ::
  "(session \<Rightarrow> 'f) \<Rightarrow> io \<Rightarrow> instant \<Rightarrow> 'f owned \<Rightarrow> session content \<Rightarrow> (gerr option \<times> 'f owned) \<times> session content" where
  "session_Save h e now own d =
     (if \<not> validSessionID (seID (owSession own)) then ((Some (Errorf ''invalid session id'' []), own), d)
      else session_update h e (save_fn h now own) own d)"

text \<open>\<open>lease\<close> is the error of \<open>TurnLease\<close>.\<close>

definition TurnLease :: "gerr option \<Rightarrow> string \<Rightarrow> gerr option" where
  "TurnLease lease sid = (if \<not> validSessionID sid then Some (Errorf ''invalid session id'' []) else lease)"

definition session_Claim ::
  "(session \<Rightarrow> 'f) \<Rightarrow> gerr option \<Rightarrow> io \<Rightarrow> 'f owned \<Rightarrow> session content \<Rightarrow> (gerr option \<times> 'f owned) \<times> session content" where
  "session_Claim h lease e own d =
     (case TurnLease lease (seID (owSession own)) of
        Some x \<Rightarrow> ((Some x, own), d)
      | None \<Rightarrow> session_update h e (claim_session_fn h own) own d)"

text \<open>\<open>latest\<close> is what \<open>Latest\<close> found, \<open>files\<close> the content of every session file.\<close>

definition session_Load :: "(session \<Rightarrow> 'f) \<Rightarrow> gerr + string \<Rightarrow> gerr option \<Rightarrow> string \<Rightarrow> (string \<Rightarrow> session content) \<Rightarrow> gerr + 'f owned" where
  "session_Load h latest rd sid0 files =
     (case (if sid0 = ''latest'' then latest else Inr sid0) of
        Inl e \<Rightarrow> Inl e
      | Inr sid \<Rightarrow>
         if \<not> validSessionID sid then Inl (Errorf ''invalid session id'' [])
         else (case rd of
            Some e \<Rightarrow> Inl e
          | None \<Rightarrow>
            (case files sid of
               Absent \<Rightarrow> Inl (Msg ''file does not exist'')
             | Corrupt e \<Rightarrow> Inl e
             | Holds v \<Rightarrow> if seID v \<noteq> sid then Inl (Errorf ''session ID does not match file'' [])
                          else Inr \<lparr>owSession = v, owFence = Some (h v)\<rparr>)))"

subsection \<open>Listings\<close>

record dir_entry =
  deName :: string
  deIsDir :: bool
  deModTime :: "instant option"

definition HasSuffix :: "string \<Rightarrow> string \<Rightarrow> bool" where
  "HasSuffix s p \<longleftrightarrow> length p \<le> length s \<and> drop (length s - length p) s = p"

text \<open>An extension \<open>.json\<close> is a suffix, since it has no further dot.\<close>

definition Latest :: "gerr + dir_entry list \<Rightarrow> gerr + string" where
  "Latest entries =
     (case entries of
        Inl e \<Rightarrow> Inl e
      | Inr es \<Rightarrow>
         (case map deName (filter (\<lambda>x. \<not> deIsDir x \<and> HasSuffix (deName x) ''.json'') es) of
            [] \<Rightarrow> Inl (Errorf ''no sessions'' [])
          | names \<Rightarrow> (let l = last (sort names) in Inr (take (length l - 5) l))))"

definition CountSince :: "gerr + dir_entry list \<Rightarrow> instant \<Rightarrow> string \<Rightarrow> nat" where
  "CountSince entries since excludeID =
     (case entries of
        Inl e \<Rightarrow> 0
      | Inr es \<Rightarrow> length (filter (\<lambda>x. \<not> deIsDir x \<and> HasSuffix (deName x) ''.json'' \<and> \<not> HasSuffix (deName x) ''.events.json''
           \<and> take (length (deName x) - 5) (deName x) \<noteq> excludeID
           \<and> (case deModTime x of Some t \<Rightarrow> t > since | None \<Rightarrow> False)) es))"

record checkpoint =
  ckSession :: string
  ckSchema :: string
  ckID :: string
  ckRun :: string
  ckGoal :: string
  ckNextStep :: string
  ckWorkspaceHash :: string

text \<open>\<open>runs\<close> gives the checkpoint and the session of the report of a run directory, when they can be read.\<close>

fun newest_checkpoint :: "(string \<Rightarrow> checkpoint option \<times> string option) \<Rightarrow> string \<Rightarrow> dir_entry list \<Rightarrow> gerr + checkpoint" where
  "newest_checkpoint runs sid [] = Inl (Msg ''file does not exist'')"
| "newest_checkpoint runs sid (x # xs) =
     (if \<not> deIsDir x then newest_checkpoint runs sid xs
      else (case runs (deName x) of
          (None, r) \<Rightarrow> newest_checkpoint runs sid xs
        | (Some c, r) \<Rightarrow> if ckSession c = sid \<or> ckSession c = '''' \<and> r = Some sid then Inr c else newest_checkpoint runs sid xs))"

definition LoadLatestCheckpoint :: "(string \<Rightarrow> checkpoint option \<times> string option) \<Rightarrow> gerr + dir_entry list \<Rightarrow> string \<Rightarrow> gerr + checkpoint" where
  "LoadLatestCheckpoint runs entries sid =
     (case entries of Inl e \<Rightarrow> Inl e | Inr es \<Rightarrow> newest_checkpoint runs sid (rev es))"

subsection \<open>Owners of one session file\<close>

text \<open>Any number of owners work on the file of a session: they save, claim it, load it, and change the data they hold.\<close>

datatype store_call =
    CallSave io instant
  | CallClaim "gerr option" io
  | CallLoad "gerr option"
  | CallEdit "message list" "json gomap" string

definition edited :: "message list \<Rightarrow> json gomap \<Rightarrow> string \<Rightarrow> session \<Rightarrow> session" where
  "edited ms mem user s = s\<lparr>seMessages := ms, seMemory := mem, seMemoryUser := user\<rparr>"

definition owner_call ::
  "(session \<Rightarrow> 'f) \<Rightarrow> string \<Rightarrow> store_call \<Rightarrow> 'f owned \<Rightarrow> session content \<Rightarrow> (gerr option \<times> 'f owned) \<times> session content" where
  "owner_call h sid c own d =
     (case c of
        CallSave e now \<Rightarrow> session_Save h e now own d
      | CallClaim lease e \<Rightarrow> session_Claim h lease e own d
      | CallLoad rd \<Rightarrow> (case session_Load h (Inr sid) rd sid (\<lambda>_. d) of Inl e \<Rightarrow> ((Some e, own), d) | Inr own' \<Rightarrow> ((None, own'), d))
      | CallEdit ms mem user \<Rightarrow> ((None, own\<lparr>owSession := edited ms mem user (owSession own)\<rparr>), d))"

fun store_run ::
  "(session \<Rightarrow> 'f) \<Rightarrow> string \<Rightarrow> (nat \<times> store_call) list \<Rightarrow> (nat \<Rightarrow> 'f owned) \<Rightarrow> session content
     \<Rightarrow> (gerr option \<times> session content) list" where
  "store_run h sid [] own d = []"
| "store_run h sid ((i, c) # cs) own d =
     (case owner_call h sid c (own i) d of
        ((x, o'), d') \<Rightarrow> (x, d') # store_run h sid cs (own(i := o')) d')"

text \<open>
  The specification, without fences, revisions compared or hashes: a register that every owner sees as it was
  when the owner last read or wrote it. A write is refused unless the register is what the owner saw. What
  the file system does to a write is the same \<open>io\<close>.
\<close>

record reg_owner =
  roData :: session
  roSeen :: "session option"

definition reg_value :: "session content \<Rightarrow> session option" where
  "reg_value d = (case d of Holds v \<Rightarrow> Some v | _ \<Rightarrow> None)"

definition reg_write ::
  "io \<Rightarrow> (session \<Rightarrow> session) \<Rightarrow> reg_owner \<Rightarrow> session content \<Rightarrow> (gerr option \<times> reg_owner) \<times> session content" where
  "reg_write e upd ro d =
     (case (io_lock e, io_read e, d) of
        (Some x, _, _) \<Rightarrow> ((Some x, ro), d)
      | (None, Some x, _) \<Rightarrow> ((Some x, ro), d)
      | (None, None, Corrupt x) \<Rightarrow> ((Some x, ro), d)
      | (None, None, _) \<Rightarrow>
          if reg_value d \<noteq> roSeen ro then ((Some ErrSessionConflict, ro), d)
          else (let new = upd (case reg_value d of None \<Rightarrow> no_session | Some v \<Rightarrow> v) in
             (case io_replace e of
                Replaced \<Rightarrow> ((None, \<lparr>roData = new, roSeen = Some new\<rparr>), Holds new)
              | NotReplaced x \<Rightarrow> ((Some x, ro), d)
              | Unsynced x \<Rightarrow> ((Some x, ro), Holds new))))"

definition reg_call ::
  "store_call \<Rightarrow> reg_owner \<Rightarrow> session content \<Rightarrow> (gerr option \<times> reg_owner) \<times> session content" where
  "reg_call c ro d =
     (let s = roData ro in
      (case c of
        CallSave e now \<Rightarrow>
          reg_write e (\<lambda>cur. s\<lparr>seRevision := seRevision cur + 1, seEpoch := (if seEpoch s = 0 then 1 else seEpoch s), seUpdated := now\<rparr>) ro d
      | CallClaim lease e \<Rightarrow>
          (case lease of Some x \<Rightarrow> ((Some x, ro), d)
           | None \<Rightarrow> reg_write e (\<lambda>cur. s\<lparr>seEpoch := seEpoch cur + 1, seRevision := seRevision cur + 1\<rparr>) ro d)
      | CallLoad rd \<Rightarrow>
          (case (rd, d) of
             (Some x, _) \<Rightarrow> ((Some x, ro), d)
           | (None, Absent) \<Rightarrow> ((Some (Msg ''file does not exist''), ro), d)
           | (None, Corrupt x) \<Rightarrow> ((Some x, ro), d)
           | (None, Holds v) \<Rightarrow> ((None, \<lparr>roData = v, roSeen = Some v\<rparr>), d))
      | CallEdit ms mem user \<Rightarrow> ((None, ro\<lparr>roData := edited ms mem user s\<rparr>), d)))"

fun reg_run :: "(nat \<times> store_call) list \<Rightarrow> (nat \<Rightarrow> reg_owner) \<Rightarrow> session content \<Rightarrow> (gerr option \<times> session content) list" where
  "reg_run [] ro d = []"
| "reg_run ((i, c) # cs) ro d =
     (case reg_call c (ro i) d of ((x, r'), d') \<Rightarrow> (x, d') # reg_run cs (ro(i := r')) d')"

subsection \<open>The store implements the register\<close>

text \<open>How an owner of the store stands for an owner of the register, and what the file holds.\<close>

definition coherent :: "(session \<Rightarrow> 'f) \<Rightarrow> string \<Rightarrow> 'f owned \<Rightarrow> reg_owner \<Rightarrow> bool" where
  "coherent h sid own ro \<longleftrightarrow> owSession own = roData ro \<and> seID (roData ro) = sid
     \<and> (case roSeen ro of
          None \<Rightarrow> owFence own = None \<and> seRevision (roData ro) = 0
        | Some v \<Rightarrow> owFence own = Some (h v) \<and> seID v = sid \<and> seRevision (roData ro) = seRevision v \<and> seEpoch (roData ro) = seEpoch v)"

definition own_file :: "string \<Rightarrow> session content \<Rightarrow> bool" where
  "own_file sid d \<longleftrightarrow> (\<forall>v. d = Holds v \<longrightarrow> seID v = sid)"

lemma checkSessionFence_iff:
  assumes "inj h" "sid \<noteq> ''''" "coherent h sid own ro" "own_file sid d" "decode no_session d = Inr v"
  shows "checkSessionFence h own v = (if reg_value d = roSeen ro then None else Some ErrSessionConflict)"
  using assms
  by (cases d; cases "roSeen ro")
    (auto simp: checkSessionFence_def coherent_def own_file_def reg_value_def no_session_def Let_def inj_eq)

text \<open>The updates of both operations keep the identifier, count a revision and set the epoch of the owner.\<close>

lemma session_update_refines:
  assumes h: "inj h" "sid \<noteq> ''''" "coherent h sid own ro" "own_file sid d"
    and fn: "\<And>v. fn v = (case checkSessionFence h own v of Some e \<Rightarrow> (owSession own, Inl e) | None \<Rightarrow> (upd v, Inr (upd v)))"
    and upd: "\<And>v. seID (upd v) = sid"
    and out: "session_update h e fn own d = ((x, own'), d')" "reg_write e upd ro d = ((y, ro'), d'')"
  shows "x = y \<and> d' = d'' \<and> coherent h sid own' ro' \<and> own_file sid d'"
proof -
  note c = checkSessionFence_iff [OF h]
  show ?thesis
  proof (cases "io_lock e = None \<and> io_read e = None \<and> (\<forall>z. d \<noteq> Corrupt z)")
    case False
    then show ?thesis using out h(3,4)
      by (auto simp: session_update_def reg_write_def file_update_def transaction_def split: option.splits content.splits)
  next
    case True
    then obtain v where v: "decode no_session d = Inr v" "v = (case reg_value d of None \<Rightarrow> no_session | Some v \<Rightarrow> v)"
      by (cases d) (auto simp: reg_value_def)
    have r: "reg_write e upd ro d = (if reg_value d \<noteq> roSeen ro then ((Some ErrSessionConflict, ro), d)
          else (case io_replace e of Replaced \<Rightarrow> ((None, \<lparr>roData = upd v, roSeen = Some (upd v)\<rparr>), Holds (upd v))
              | NotReplaced x \<Rightarrow> ((Some x, ro), d) | Unsynced x \<Rightarrow> ((Some x, ro), Holds (upd v))))"
      unfolding v(2) using True by (cases d; cases "io_replace e") (simp_all add: reg_write_def Let_def reg_value_def)
    show ?thesis
    proof (cases "reg_value d = roSeen ro")
      case False
      then show ?thesis using True out(1) out(2) [unfolded r] v(1) c [OF v(1)] h(3,4)
        by (auto simp: session_update_def file_update_def transaction_def fn)
    next
      case same: True
      show ?thesis using True out(1) out(2) [unfolded r] v(1) c [OF v(1)] h(3,4) same
        by (cases "io_replace e")
          (auto simp: session_update_def file_update_def transaction_def fn coherent_def own_file_def upd)
    qed
  qed
qed

lemma owner_call_refines:
  assumes h: "inj h" "validSessionID sid" "coherent h sid own ro" "own_file sid d"
    and out: "owner_call h sid c own d = ((x, own'), d')" "reg_call c ro d = ((y, ro'), d'')"
  shows "x = y \<and> d' = d'' \<and> coherent h sid own' ro' \<and> own_file sid d'"
proof -
  have sid: "sid \<noteq> ''''" using h(2) by (simp add: validSessionID_def)
  have own: "owSession own = roData ro" "seID (roData ro) = sid" using h(3) by (simp_all add: coherent_def)
  show ?thesis
  proof (cases c)
    case (CallSave e now)
    let ?upd = "\<lambda>cur. (roData ro)\<lparr>seRevision := seRevision cur + 1, seEpoch := (if seEpoch (roData ro) = 0 then 1 else seEpoch (roData ro)), seUpdated := now\<rparr>"
    have "session_update h e (save_fn h now own) own d = ((x, own'), d')" "reg_write e ?upd ro d = ((y, ro'), d'')"
      using out CallSave h(2) own by (simp_all add: owner_call_def session_Save_def reg_call_def Let_def)
    then show ?thesis
      by (rule session_update_refines [OF h(1) sid h(3,4), rotated 2])
        (simp_all add: save_fn_def Let_def own fun_eq_iff split: option.split)
  next
    case (CallClaim lease e)
    let ?upd = "\<lambda>cur. (roData ro)\<lparr>seEpoch := seEpoch cur + 1, seRevision := seRevision cur + 1\<rparr>"
    show ?thesis
    proof (cases lease)
      case (Some z)
      then show ?thesis using out CallClaim h own by (auto simp: owner_call_def session_Claim_def TurnLease_def reg_call_def Let_def)
    next
      case None
      have "session_update h e (claim_session_fn h own) own d = ((x, own'), d')" "reg_write e ?upd ro d = ((y, ro'), d'')"
        using out CallClaim None h(2) own by (simp_all add: owner_call_def session_Claim_def TurnLease_def reg_call_def Let_def)
      then show ?thesis
        by (rule session_update_refines [OF h(1) sid h(3,4), rotated 2])
          (simp_all add: claim_session_fn_def Let_def own split: option.split)
    qed
  next
    case (CallLoad rd)
    then show ?thesis using out h sid
      by (auto simp: owner_call_def session_Load_def reg_call_def Let_def own_file_def coherent_def split: option.splits content.splits)
  next
    case (CallEdit ms mem user)
    then show ?thesis using out h(3,4)
      by (auto simp: owner_call_def reg_call_def Let_def coherent_def edited_def split: option.splits)
  qed
qed

lemma store_run_refines:
  "inj h \<Longrightarrow> validSessionID sid \<Longrightarrow> (\<And>i. coherent h sid (own i) (ro i)) \<Longrightarrow> own_file sid d
     \<Longrightarrow> store_run h sid cs own d = reg_run cs ro d"
proof (induction cs arbitrary: own ro d)
  case Nil
  show ?case by simp
next
  case (Cons a cs)
  obtain i c where a: "a = (i, c)" by (cases a)
  obtain x o' d' where s: "owner_call h sid c (own i) d = ((x, o'), d')" by (metis surj_pair)
  obtain y r' d'' where r: "reg_call c (ro i) d = ((y, r'), d'')" by (metis surj_pair)
  note one = owner_call_refines [OF Cons.prems(1,2,3) Cons.prems(4) s r]
  have "store_run h sid cs (own(i := o')) d' = reg_run cs (ro(i := r')) d'"
    using one Cons.prems by (intro Cons.IH) auto
  then show ?case using a s r one by simp
qed

lemma reg_write_conflict:
  "reg_value d \<noteq> roSeen ro \<Longrightarrow> \<exists>x. reg_write e upd ro d = ((Some x, ro), d)"
  by (cases "io_lock e"; cases "io_read e"; cases d) (simp_all add: reg_write_def)

lemma claim_fences_previous_owner:
  assumes "reg_call (CallClaim lease e) ro d = ((None, ro'), d')" "roSeen old = reg_value d"
    and "reg_call (CallSave e' now) old d' = ((x, old'), d'')"
  shows "x \<noteq> None \<and> d'' = d'"
proof -
  obtain s where s: "d' = Holds s" "seRevision s = seRevision (case reg_value d of None \<Rightarrow> no_session | Some v \<Rightarrow> v) + 1" "reg_value d = roSeen ro"
    using assms(1)
    by (cases d) (auto simp: reg_call_def reg_write_def Let_def reg_value_def split: option.splits replaced.splits if_splits)
  have "reg_value d' \<noteq> roSeen old"
  proof
    assume "reg_value d' = roSeen old"
    then have "reg_value d = Some s" using s(1) assms(2) by (simp add: reg_value_def)
    then show False using s(2) by simp
  qed
  note conflict = reg_write_conflict [OF this, of e']
  obtain upd where "reg_write e' upd old d' = ((x, old'), d'')"
    using assms(3) unfolding reg_call_def Let_def store_call.case by blast
  then show ?thesis using conflict [of upd] by auto
qed

text \<open>C24. The session store is a compare-and-swap register: whatever a number of owners of one session do, in any
  order and with any failure of the file system, every call has the same error and leaves the same file as in the
  specification, where a save or claim writes only if the file holds exactly what this owner last read
  or wrote, and then the next revision; so no owner ever overwrites content that it has not seen. The hash is
  taken to be collision-free.\<close>

theorem session_store_is_compare_and_swap:
  assumes "inj h" and "validSessionID sid"
  shows "store_run h sid calls (\<lambda>i. New_session sid (now i) workspace) Absent
       = reg_run calls (\<lambda>i. \<lparr>roData = new_session sid (now i) workspace, roSeen = None\<rparr>) Absent"
  using assms
  by (intro store_run_refines)
    (auto simp: coherent_def own_file_def New_session_def new_session_def no_session_def)

text \<open>Two owners create the same session; the second is refused until it has loaded what the first wrote.\<close>

lemma session_store_is_compare_and_swap_witness:
  "map fst (store_run id ''s'' [(0, CallSave io_ok 1), (1, CallSave io_ok 2), (1, CallLoad None), (1, CallSave io_ok 3), (0, CallSave io_ok 4)]
       (\<lambda>i. New_session ''s'' 0 ''w'') Absent)
     = [None, Some ErrSessionConflict, None, None, Some ErrSessionConflict]"
proof -
  have "inj (id :: session \<Rightarrow> session)" "validSessionID ''s''" by (simp_all add: validSessionID_def)
  note eq = session_store_is_compare_and_swap [OF this, of _ "\<lambda>_. 0" "''w''"]
  show ?thesis unfolding eq
    by (simp add: reg_call_def reg_write_def reg_value_def io_ok_def Let_def new_session_def no_session_def)
qed

end
