(* ===== verification/Workers.thy ===== *)
theory Workers
  imports Durable "HOL-Library.Multiset" "HOL-Library.List_Lexorder" "HOL-Library.Char_ord"
begin

section \<open>Background workers\<close>

text \<open>
  \<open>internal/worker/manager.go\<close> and \<open>results.go\<close>. A manager admits workers up to an hourly limit, runs them in a bounded
  number of slots and, when it is durable, keeps a receipt of each in a file. The goroutine of a worker is a
  little machine: it waits for a slot, invokes the runner, settles its status, persists the result and
  notifies; \<open>stage\<close> is where it is, and every step it takes, like every call of the manager, is one event.
  What the mutex protects changes in one step. The clock, new identifiers, what the runner returns and the outcome of
  writes come with the events; causal identities of traces are not modelled.
\<close>

subsection \<open>State\<close>

datatype stage = Waiting | Invoking | Ended string "gerr option" | Settled | Persisted "gerr option" | Over

record worker =
  wkID :: string
  wkRole :: string
  wkPrompt :: string
  wkStatus :: string
  wkResult :: string
  wkError :: string
  wkCreated :: instant
  wkStarted :: instant
  wkFinished :: instant
  wkInbox :: "string list"
  wkCancelled :: bool
  wkStage :: stage
  wkPersistenceError :: string

record receipt =
  rcID :: string
  rcRole :: string
  rcPrompt :: string
  rcStatus :: string
  rcResult :: string
  rcError :: string
  rcCreated :: instant
  rcStarted :: instant
  rcFinished :: instant
  rcAcknowledged :: bool
  rcRevoked :: bool

record result_state =
  wsSession :: string
  wsPrincipal :: string
  wsRecords :: "receipt gomap"
  wsAdmissions :: "instant list"

definition no_results :: result_state where
  "no_results = \<lparr>wsSession = '''', wsPrincipal = '''', wsRecords = [], wsAdmissions = []\<rparr>"

record worker_options =
  woConcurrency :: int
  woHourlyLimit :: int
  woRunner :: bool
  woRoot :: string
  woSession :: string
  woPrincipal :: string

record manager =
  mnWorkers :: "worker gomap"
  mnRunner :: bool
  mnSeq :: nat
  mnClosed :: bool
  mnLifetime :: "gerr option"
  mnSlots :: nat
  mnUsed :: nat
  mnHourlyLimit :: nat
  mnAdmissions :: "instant list"
  mnDurable :: bool
  mnPrincipal :: string
  mnSession :: string
  mnNotificationErr :: "gerr option"

definition DefaultConcurrency :: int where "DefaultConcurrency = 4"
definition DefaultHourlyLimit :: int where "DefaultHourlyLimit = 30"
definition DefaultInboxCapacity :: nat where "DefaultInboxCapacity = 50"

definition NewWithOptions :: "worker_options \<Rightarrow> manager" where
  "NewWithOptions opts = \<lparr>mnWorkers = [], mnRunner = woRunner opts, mnSeq = 0, mnClosed = False, mnLifetime = None,
     mnSlots = nat (if woConcurrency opts \<le> 0 then DefaultConcurrency else woConcurrency opts), mnUsed = 0,
     mnHourlyLimit = nat (if woHourlyLimit opts \<le> 0 then DefaultHourlyLimit else woHourlyLimit opts),
     mnAdmissions = [], mnDurable = False, mnPrincipal = '''', mnSession = '''', mnNotificationErr = None\<rparr>"

definition active :: "string \<Rightarrow> bool" where
  "active status \<longleftrightarrow> status = ''queued'' \<or> status = ''running'' \<or> status = ''stopping''"

text \<open>The context of a worker ends with the manager's or by its own cancel.\<close>

definition worker_ctx :: "manager \<Rightarrow> worker \<Rightarrow> gerr option" where
  "worker_ctx m w = (case mnLifetime m of Some e \<Rightarrow> Some e | None \<Rightarrow> if wkCancelled w then Some Canceled else None)"

definition put_worker :: "worker \<Rightarrow> manager \<Rightarrow> manager" where
  "put_worker w m = m\<lparr>mnWorkers := mput (wkID w) w (mnWorkers m)\<rparr>"

subsection \<open>The file of receipts\<close>

definition results_update :: "manager \<Rightarrow> io \<Rightarrow> (result_state, unit) callback \<Rightarrow> result_state content \<Rightarrow> gerr option \<times> result_state content" where
  "results_update m e fn d = (if \<not> mnDurable m then (None, d) else (case file_update no_results e () fn d of ((_, x), d') \<Rightarrow> (x, d')))"

definition queued_fn :: "(string \<Rightarrow> string) \<Rightarrow> manager \<Rightarrow> worker \<Rightarrow> (result_state, unit) callback" where
  "queued_fn redact m w s = ((), Inr (s\<lparr>wsRecords := mput (wkID w)
       \<lparr>rcID = wkID w, rcRole = redact (wkRole w), rcPrompt = redact (wkPrompt w), rcStatus = ''queued'', rcResult = '''', rcError = '''',
        rcCreated = wkCreated w, rcStarted = 0, rcFinished = 0, rcAcknowledged = False, rcRevoked = False\<rparr> (wsRecords s),
     wsAdmissions := mnAdmissions m\<rparr>))"

definition finished_fn :: "(string \<Rightarrow> string) \<Rightarrow> worker \<Rightarrow> (result_state, unit) callback" where
  "finished_fn redact w s =
     (case mget (wsRecords s) (wkID w) of
        None \<Rightarrow> ((), Inl (Msg ''worker admission receipt missing''))
      | Some r \<Rightarrow> ((), Inr (s\<lparr>wsRecords := mput (wkID w)
          (r\<lparr>rcStatus := wkStatus w, rcResult := redact (wkResult w), rcError := redact (wkError w), rcStarted := wkStarted w,
             rcFinished := wkFinished w, rcRevoked := rcRevoked r \<or> wkStatus w = ''stopped''\<rparr>) (wsRecords s)\<rparr>)))"

definition acknowledge_fn :: "string \<Rightarrow> (result_state, unit) callback" where
  "acknowledge_fn k s =
     (case mget (wsRecords s) k of
        None \<Rightarrow> ((), Inl (Msg ''unknown worker receipt''))
      | Some r \<Rightarrow> if active (rcStatus r) then ((), Inl (Msg ''worker not finished''))
                 else ((), Inr (s\<lparr>wsRecords := mput k (r\<lparr>rcAcknowledged := True\<rparr>) (wsRecords s)\<rparr>)))"

definition revoke_fn :: "(result_state, unit) callback" where
  "revoke_fn s = ((), Inr (s\<lparr>wsRecords := map (\<lambda>(k, r). (k, r\<lparr>rcRevoked := True\<rparr>)) (wsRecords s)\<rparr>))"

definition pending_receipt :: "receipt \<Rightarrow> bool" where
  "pending_receipt r \<longleftrightarrow> \<not> active (rcStatus r) \<and> \<not> rcAcknowledged r \<and> \<not> rcRevoked r"

definition PendingResults :: "manager \<Rightarrow> io \<Rightarrow> result_state content \<Rightarrow> gerr + receipt list" where
  "PendingResults m e d =
     (if \<not> mnDurable m then Inr []
      else (case file_read no_results e d of
          (s, Some x) \<Rightarrow> Inl x
        | (s, None) \<Rightarrow> Inr (sort_key rcCreated (filter pending_receipt (mvals (wsRecords s))))))"

subsection \<open>Opening a durable manager\<close>

text \<open>Receipts that were not finished belong to a process that has ended: they are marked, and nothing is restarted.\<close>

definition interrupted :: "instant \<Rightarrow> receipt \<Rightarrow> receipt" where
  "interrupted now r = (if active (rcStatus r)
     then r\<lparr>rcStatus := ''interrupted'', rcError := ''owning runtime exited before a terminal result; worker was not restarted'', rcFinished := now\<rparr>
     else r)"

definition past_worker :: "receipt \<Rightarrow> worker" where
  "past_worker r = \<lparr>wkID = rcID r, wkRole = rcRole r, wkPrompt = rcPrompt r, wkStatus = rcStatus r, wkResult = rcResult r, wkError = rcError r,
     wkCreated = rcCreated r, wkStarted = rcStarted r, wkFinished = rcFinished r, wkInbox = [], wkCancelled = False, wkStage = Over,
     wkPersistenceError = ''''\<rparr>"

definition open_results_fn :: "worker_options \<Rightarrow> instant \<Rightarrow> (result_state, receipt gomap \<times> instant list) callback" where
  "open_results_fn opts now s =
     (if wsSession s \<noteq> '''' \<and> (wsSession s \<noteq> woSession opts \<or> wsPrincipal s \<noteq> woPrincipal opts)
      then (([], []), Inl (Msg ''worker result ownership mismatch''))
      else (let rs = map (\<lambda>(k, r). (k, interrupted now r)) (wsRecords s)
            in ((rs, wsAdmissions s), Inr (s\<lparr>wsSession := woSession opts, wsPrincipal := woPrincipal opts, wsRecords := rs\<rparr>))))"

definition NewDurable :: "worker_options \<Rightarrow> gerr option \<Rightarrow> io \<Rightarrow> instant \<Rightarrow> result_state content \<Rightarrow> (gerr + manager) \<times> result_state content" where
  "NewDurable opts lease e now d =
     (if woRoot opts = '''' \<or> woSession opts = '''' \<or> woPrincipal opts = ''''
      then (Inl (Msg ''durable worker manager requires root, session and principal''), d)
      else (case lease of
          Some x \<Rightarrow> (Inl (Wrapf ''worker session is owned by another live runtime: %w'' [] x), d)
        | None \<Rightarrow>
         (case file_update no_results e ([], []) (open_results_fn opts now) d of
            (((rs, adm), Some x), d') \<Rightarrow> (Inl x, d')
          | (((rs, adm), None), d') \<Rightarrow>
              (Inr ((NewWithOptions opts)\<lparr>mnDurable := True, mnPrincipal := woPrincipal opts, mnSession := woSession opts,
                 mnWorkers := map (\<lambda>(k, r). (k, past_worker r)) rs, mnAdmissions := adm\<rparr>), d'))))"

subsection \<open>Admission\<close>

type_synonym worker_sys = "manager \<times> result_state content"

text \<open>\<open>worker-%03d\<close> when the manager is not durable.\<close>

definition newID :: "manager \<Rightarrow> string \<Rightarrow> string" where
  "newID m fresh = (if mnDurable m then fresh else ''worker-'' @ pad0 3 (Itoa (mnSeq m)))"

definition new_worker :: "string \<Rightarrow> string \<Rightarrow> string \<Rightarrow> instant \<Rightarrow> worker" where
  "new_worker k role prompt now = \<lparr>wkID = k, wkRole = role, wkPrompt = prompt, wkStatus = ''queued'', wkResult = '''', wkError = '''',
     wkCreated = now, wkStarted = 0, wkFinished = 0, wkInbox = [], wkCancelled = False, wkStage = Waiting, wkPersistenceError = ''''\<rparr>"

definition StartContext ::
  "(string \<Rightarrow> string) \<Rightarrow> gerr option \<Rightarrow> instant \<Rightarrow> string \<Rightarrow> io \<Rightarrow> string \<Rightarrow> string \<Rightarrow> worker_sys \<Rightarrow> (gerr + string) \<times> worker_sys" where
  "StartContext redact origin now fresh e role prompt sys =
     (case sys of (m, d) \<Rightarrow>
      (case origin of
         Some x \<Rightarrow> (Inl x, m, d)
       | None \<Rightarrow>
          if TrimSpace prompt = '''' then (Inl (Errorf ''worker prompt is required'' []), m, d)
          else if mnClosed m \<or> mnLifetime m \<noteq> None then (Inl (Errorf ''worker manager is closed'' []), m, d)
          else if \<not> mnRunner m then (Inl (Errorf ''worker runner is required'' []), m, d)
          else
           (let adm = dropWhile (\<lambda>t. \<not> t > now - Hour) (mnAdmissions m); m1 = m\<lparr>mnAdmissions := adm\<rparr> in
            if length adm \<ge> mnHourlyLimit m then (Inl ErrQuota, m1, d)
            else
             (let m2 = m1\<lparr>mnAdmissions := adm @ [now], mnSeq := mnSeq m + 1\<rparr>; w = new_worker (newID m2 fresh) role prompt now in
              (case results_update m2 e (queued_fn redact m2 w) d of
                 (Some x, d') \<Rightarrow> (Inl x, m2\<lparr>mnAdmissions := adm\<rparr>, d')
               | (None, d') \<Rightarrow> (Inr (wkID w), put_worker w m2, d'))))))"

subsection \<open>The goroutine of a worker\<close>

text \<open>It takes a slot when there is one. A worker that was stopped in the meantime gives the slot back at once.\<close>

definition take_slot :: "instant \<Rightarrow> worker \<Rightarrow> manager \<Rightarrow> manager" where
  "take_slot now w m =
     (if wkStage w \<noteq> Waiting \<or> mnUsed m \<ge> mnSlots m then m
      else (case worker_ctx m w of
          Some x \<Rightarrow> put_worker (w\<lparr>wkStage := Ended '''' (Some x)\<rparr>) m
        | None \<Rightarrow> (put_worker (w\<lparr>wkStatus := (if wkStatus w \<noteq> ''stopping'' then ''running'' else wkStatus w), wkStarted := now, wkStage := Invoking\<rparr>) m)
             \<lparr>mnUsed := mnUsed m + 1\<rparr>))"

definition give_up :: "worker \<Rightarrow> manager \<Rightarrow> manager" where
  "give_up w m =
     (if wkStage w \<noteq> Waiting then m
      else (case worker_ctx m w of Some x \<Rightarrow> put_worker (w\<lparr>wkStage := Ended '''' (Some x)\<rparr>) m | None \<Rightarrow> m))"

datatype run_end = RunReturned string "gerr option" | RunPanicked string

definition invoke :: "run_end \<Rightarrow> string \<times> gerr option" where
  "invoke r = (case r of RunReturned s x \<Rightarrow> (s, x) | RunPanicked p \<Rightarrow> ('''', Some (Errorf ''worker panic: %v'' [p])))"

definition runner_returns :: "run_end \<Rightarrow> worker \<Rightarrow> manager \<Rightarrow> manager" where
  "runner_returns r w m =
     (if wkStage w \<noteq> Invoking then m
      else (case invoke r of (s, x) \<Rightarrow> (put_worker (w\<lparr>wkStage := Ended s x\<rparr>) m)\<lparr>mnUsed := mnUsed m - 1\<rparr>))"

definition settle_worker :: "instant \<Rightarrow> worker \<Rightarrow> manager \<Rightarrow> manager" where
  "settle_worker now w m =
     (case wkStage w of
        Ended res err \<Rightarrow>
          (let w1 = w\<lparr>wkFinished := now, wkStage := Settled\<rparr> in
           put_worker
             (if worker_ctx m w \<noteq> None \<or> wkStatus w = ''stopping''
              then w1\<lparr>wkStatus := ''stopped'', wkError := (case err of Some x \<Rightarrow> Error x | None \<Rightarrow> wkError w)\<rparr>
              else (case err of
                  Some x \<Rightarrow> w1\<lparr>wkStatus := ''failed'', wkError := Error x\<rparr>
                | None \<Rightarrow> w1\<lparr>wkStatus := ''completed'', wkResult := res\<rparr>)) m)
      | _ \<Rightarrow> m)"

definition persist_worker :: "(string \<Rightarrow> string) \<Rightarrow> io \<Rightarrow> worker \<Rightarrow> worker_sys \<Rightarrow> worker_sys" where
  "persist_worker redact e w sys =
     (case sys of (m, d) \<Rightarrow>
      if wkStage w \<noteq> Settled then (m, d)
      else (case results_update m e (finished_fn redact w) d of (x, d') \<Rightarrow> (put_worker (w\<lparr>wkStage := Persisted x\<rparr>) m, d')))"

text \<open>Whether the host is woken up.\<close>

definition finish_worker :: "worker \<Rightarrow> manager \<Rightarrow> bool \<times> manager" where
  "finish_worker w m =
     (case wkStage w of
        Persisted x \<Rightarrow> (x = None \<and> \<not> mnClosed m \<and> wkStatus w \<noteq> ''stopped'',
          put_worker (w\<lparr>wkPersistenceError := (case x of Some y \<Rightarrow> Error y | None \<Rightarrow> wkPersistenceError w), wkStage := Over\<rparr>) m)
      | _ \<Rightarrow> (False, m))"

subsection \<open>Calls\<close>

definition SendWorker :: "string \<Rightarrow> string \<Rightarrow> manager \<Rightarrow> gerr option \<times> manager" where
  "SendWorker k msg m =
     (case mget (mnWorkers m) k of
        None \<Rightarrow> (Some (Errorf ''worker %q not found'' [k]), m)
      | Some w \<Rightarrow>
          if mnClosed m \<or> wkStatus w \<noteq> ''running'' \<and> wkStatus w \<noteq> ''queued'' then (Some (Errorf ''worker %q is not running'' [k]), m)
          else if length (wkInbox w) \<ge> DefaultInboxCapacity then (Some (Errorf ''worker %q inbox is full'' [k]), m)
          else (None, put_worker (w\<lparr>wkInbox := wkInbox w @ [msg]\<rparr>) m))"

definition stop_mark :: "worker \<Rightarrow> worker" where
  "stop_mark w = (if active (wkStatus w) then w\<lparr>wkStatus := ''stopping'', wkCancelled := True\<rparr> else w)"

definition StopWorker :: "string \<Rightarrow> manager \<Rightarrow> gerr option \<times> manager" where
  "StopWorker k m =
     (case mget (mnWorkers m) k of
        None \<Rightarrow> (Some (Errorf ''worker %q not found'' [k]), m)
      | Some w \<Rightarrow> (None, put_worker (stop_mark w) m))"

definition CancelAll :: "manager \<Rightarrow> manager" where
  "CancelAll m = m\<lparr>mnWorkers := map (\<lambda>(k, w). (k, stop_mark w)) (mnWorkers m)\<rparr>"

definition SealWorkers :: "io \<Rightarrow> worker_sys \<Rightarrow> worker_sys" where
  "SealWorkers e sys =
     (case sys of (m, d) \<Rightarrow>
      (let m1 = (CancelAll m)\<lparr>mnClosed := True, mnLifetime := (case mnLifetime m of None \<Rightarrow> Some Canceled | Some x \<Rightarrow> Some x)\<rparr> in
       if mnClosed m then (m1, d)
       else (case results_update m1 e revoke_fn d of
           (None, d') \<Rightarrow> (m1, d') | (Some x, d') \<Rightarrow> (m1\<lparr>mnNotificationErr := Some x\<rparr>, d'))))"

definition ListWorkers :: "manager \<Rightarrow> worker list" where
  "ListWorkers m = sort_key wkID (mvals (mnWorkers m))"

definition RunningIDs :: "manager \<Rightarrow> string list" where
  "RunningIDs m = sort (map fst (filter (\<lambda>(k, w). active (wkStatus w)) (mnWorkers m)))"

subsection \<open>Runs of a manager\<close>

datatype worker_event =
    EvStart "gerr option" instant string io string string
  | EvSlot string instant
  | EvGiveUp string
  | EvReturn string run_end
  | EvSettle string instant
  | EvPersist string io
  | EvFinish string
  | EvSend string string
  | EvStop string
  | EvCancelAll
  | EvLifetime gerr
  | EvSeal io
  | EvAcknowledge string io
  | EvReopen io instant

definition on_worker :: "string \<Rightarrow> (worker \<Rightarrow> manager \<Rightarrow> manager) \<Rightarrow> worker_sys \<Rightarrow> worker_sys" where
  "on_worker k f sys = (case sys of (m, d) \<Rightarrow> (case mget (mnWorkers m) k of None \<Rightarrow> (m, d) | Some w \<Rightarrow> (f w m, d)))"

text \<open>The instants at which workers were admitted come out of a step. After the death of a durable owner the next one opens the
  file; when that fails, no manager is left.\<close>

definition dead_manager :: "manager \<Rightarrow> manager" where
  "dead_manager m = m\<lparr>mnWorkers := [], mnUsed := 0, mnClosed := True\<rparr>"

definition worker_step :: "worker_options \<Rightarrow> (string \<Rightarrow> string) \<Rightarrow> worker_event \<Rightarrow> worker_sys \<Rightarrow> instant list \<times> worker_sys" where
  "worker_step opts redact ev sys =
     (case ev of
        EvStart origin now fresh e role prompt \<Rightarrow>
          (case StartContext redact origin now fresh e role prompt sys of (Inr k, sys') \<Rightarrow> ([now], sys') | (Inl x, sys') \<Rightarrow> ([], sys'))
      | EvSlot k now \<Rightarrow> ([], on_worker k (take_slot now) sys)
      | EvGiveUp k \<Rightarrow> ([], on_worker k give_up sys)
      | EvReturn k r \<Rightarrow> ([], on_worker k (runner_returns r) sys)
      | EvSettle k now \<Rightarrow> ([], on_worker k (settle_worker now) sys)
      | EvPersist k e \<Rightarrow> ([], case mget (mnWorkers (fst sys)) k of None \<Rightarrow> sys | Some w \<Rightarrow> persist_worker redact e w sys)
      | EvFinish k \<Rightarrow> ([], on_worker k (\<lambda>w m. snd (finish_worker w m)) sys)
      | EvSend k msg \<Rightarrow> ([], snd (SendWorker k msg (fst sys)), snd sys)
      | EvStop k \<Rightarrow> ([], snd (StopWorker k (fst sys)), snd sys)
      | EvCancelAll \<Rightarrow> ([], CancelAll (fst sys), snd sys)
      | EvLifetime x \<Rightarrow> ([], (fst sys)\<lparr>mnLifetime := (case mnLifetime (fst sys) of None \<Rightarrow> Some x | Some y \<Rightarrow> Some y)\<rparr>, snd sys)
      | EvSeal e \<Rightarrow> ([], SealWorkers e sys)
      | EvAcknowledge k e \<Rightarrow> ([], fst sys, snd (results_update (fst sys) e (acknowledge_fn k) (snd sys)))
      | EvReopen e now \<Rightarrow>
          ([], if mnDurable (fst sys)
               then (case NewDurable opts None e now (snd sys) of (Inr m, d') \<Rightarrow> (m, d') | (Inl x, d') \<Rightarrow> (dead_manager (fst sys), d'))
               else sys))"

fun worker_run :: "worker_options \<Rightarrow> (string \<Rightarrow> string) \<Rightarrow> worker_event list \<Rightarrow> worker_sys \<Rightarrow> instant list \<times> worker_sys" where
  "worker_run opts redact [] sys = ([], sys)"
| "worker_run opts redact (ev # evs) sys =
     (case worker_step opts redact ev sys of
        (ts, sys1) \<Rightarrow> (case worker_run opts redact evs sys1 of (us, sys2) \<Rightarrow> (ts @ us, sys2)))"

text \<open>A new manager, without a file or with the file of a new session.\<close>

definition worker_start :: "worker_options \<Rightarrow> worker_sys \<Rightarrow> bool" where
  "worker_start opts sys \<longleftrightarrow> sys = (NewWithOptions opts, Absent) \<or> (\<exists>e now m d. NewDurable opts None e now Absent = (Inr m, d) \<and> sys = (m, d))"

fun event_time :: "worker_event \<Rightarrow> instant option" where
  "event_time (EvStart origin now fresh e role prompt) = Some now"
| "event_time ev = None"

definition event_ids :: "worker_event list \<Rightarrow> string list" where
  "event_ids evs = concat (map (\<lambda>ev. case ev of EvStart origin now fresh e role prompt \<Rightarrow> [fresh] | _ \<Rightarrow> []) evs)"

subsection \<open>Slots\<close>

definition slot_use :: "worker \<Rightarrow> int" where
  "slot_use w = (if wkStage w = Invoking then 1 else 0)"

definition running :: "manager \<Rightarrow> nat" where
  "running m = length (filter (\<lambda>w. wkStage w = Invoking) (mvals (mnWorkers m)))"

lemma running_msum: "int (running m) = msum slot_use (mnWorkers m)"
proof -
  have "int (length (filter (\<lambda>w. wkStage w = Invoking) (map snd xs))) = msum slot_use xs" for xs :: "worker gomap"
    by (induction xs) (auto simp: slot_use_def)
  then show ?thesis by (simp add: running_def mvals_def)
qed

text \<open>Workers are filed under their identifiers, and those that run hold a slot.\<close>

definition slots_ok :: "manager \<Rightarrow> bool" where
  "slots_ok m \<longleftrightarrow> wf_map (mnWorkers m) \<and> mall (\<lambda>k w. wkID w = k) (mnWorkers m)
     \<and> msum slot_use (mnWorkers m) \<le> int (mnUsed m) \<and> mnUsed m \<le> mnSlots m"

definition receipts_ok :: "result_state content \<Rightarrow> bool" where
  "receipts_ok d \<longleftrightarrow> (\<forall>s. decode no_results d = Inr s \<longrightarrow> wf_map (wsRecords s) \<and> mall (\<lambda>k r. rcID r = k) (wsRecords s))"

lemma slot_use_bounds: "0 \<le> slot_use w" "slot_use w \<le> 1"
  by (simp_all add: slot_use_def)

lemma slot_use_le: "wf_map ws \<Longrightarrow> mget ws k = Some w \<Longrightarrow> slot_use w \<le> msum slot_use ws"
proof -
  assume "wf_map ws" "mget ws k = Some w"
  then have "msum slot_use ws = msum slot_use (mput k (w\<lparr>wkStage := Over\<rparr>) ws) + slot_use w"
    by (simp add: msum_mput slot_use_def)
  moreover have "0 \<le> msum slot_use (mput k (w\<lparr>wkStage := Over\<rparr>) ws)"
    using \<open>wf_map ws\<close> by (intro msum_nonneg) (simp_all add: slot_use_bounds)
  ultimately show ?thesis by simp
qed

text \<open>Replacing one worker, with the slots it takes or gives back.\<close>

lemma slots_put:
  assumes "slots_ok m" "wkID w' = k"
    and "slot_use w' \<le> (case mget (mnWorkers m) k of None \<Rightarrow> 0 | Some w \<Rightarrow> slot_use w) + int u - int (mnUsed m)" "u \<le> mnSlots m"
  shows "slots_ok ((put_worker w' m)\<lparr>mnUsed := u\<rparr>)"
  using assms by (auto simp: slots_ok_def put_worker_def msum_mput mall_mput split: option.splits)

lemma slots_put_same:
  assumes "slots_ok m" "mget (mnWorkers m) k = Some w" "wkID w' = wkID w" "slot_use w' \<le> slot_use w"
  shows "slots_ok (put_worker w' m)"
proof -
  have "wkID w = k" using assms(1,2) by (simp add: slots_ok_def mall_def)
  then show ?thesis using assms
    by (auto simp: slots_ok_def put_worker_def msum_mput mall_mput)
qed

lemma msum_mono: "(\<And>k v. (k, v) \<in> set xs \<Longrightarrow> f (g v) \<le> f v) \<Longrightarrow> msum f (map (\<lambda>(k, v). (k, g v)) xs) \<le> msum f xs"
  by (induction xs) (fastforce simp: add_mono)+

lemma mget_map_vals: "mget (map (\<lambda>(k, v). (k, g v)) xs) k = map_option g (mget xs k)"
  by (induction xs) auto

lemma wf_map_vals [simp]: "wf_map (map (\<lambda>(k, v). (k, g v)) xs) \<longleftrightarrow> wf_map xs"
  by (simp add: wf_map_def case_prod_beta' comp_def)

lemma stop_mark_simps [simp]: "wkID (stop_mark w) = wkID w" "wkStage (stop_mark w) = wkStage w" "slot_use (stop_mark w) = slot_use w"
  by (simp_all add: stop_mark_def slot_use_def)

lemma slots_CancelAll: "slots_ok m \<Longrightarrow> slots_ok (CancelAll m)"
proof -
  assume "slots_ok m"
  moreover have "msum slot_use (map (\<lambda>(k, w). (k, stop_mark w)) (mnWorkers m)) \<le> msum slot_use (mnWorkers m)"
    by (rule msum_mono) simp
  ultimately show ?thesis by (auto simp: slots_ok_def CancelAll_def mall_def mget_map_vals)
qed

lemma slots_worker_steps:
  assumes "slots_ok m" "mget (mnWorkers m) k = Some w"
  shows "slots_ok (take_slot now w m)" "slots_ok (give_up w m)" "slots_ok (runner_returns r w m)" "slots_ok (settle_worker now w m)"
    "slots_ok (snd (finish_worker w m))" "slots_ok (put_worker (w\<lparr>wkStage := Persisted x\<rparr>) m)" "slots_ok (put_worker (stop_mark w) m)"
    "slots_ok (put_worker (w\<lparr>wkInbox := msgs\<rparr>) m)"
proof -
  have k: "wkID w = k" using assms by (simp add: slots_ok_def mall_def)
  note same = slots_put_same [OF assms]
  show "slots_ok (take_slot now w m)"
  proof (cases "wkStage w \<noteq> Waiting \<or> mnUsed m \<ge> mnSlots m \<or> worker_ctx m w \<noteq> None")
    case True
    then show ?thesis using assms(1) by (auto simp: take_slot_def slot_use_def intro!: same split: option.split)
  next
    case False
    then show ?thesis using assms k by (auto simp: take_slot_def slot_use_def intro!: slots_put [of m _ k])
  qed
  show "slots_ok (give_up w m)"
    using assms(1) by (auto simp: give_up_def slot_use_def intro!: same split: option.split)
  show "slots_ok (runner_returns r w m)"
  proof (cases "wkStage w = Invoking")
    case True
    then have "1 \<le> msum slot_use (mnWorkers m)" using slot_use_le [of "mnWorkers m" k w] assms by (simp add: slots_ok_def slot_use_def)
    then have "1 \<le> mnUsed m" using assms(1) by (simp add: slots_ok_def)
    obtain res err where r: "invoke r = (res, err)" by (metis surj_pair)
    have "mnUsed m - 1 \<le> mnSlots m" using assms(1) by (auto simp: slots_ok_def)
    then have "slots_ok ((put_worker (w\<lparr>wkStage := Ended res err\<rparr>) m)\<lparr>mnUsed := mnUsed m - 1\<rparr>)"
      using True assms k \<open>1 \<le> mnUsed m\<close> by (intro slots_put [of m _ k]) (simp_all add: slot_use_def)
    then show ?thesis using True r by (simp add: runner_returns_def)
  next
    case False
    then show ?thesis using assms(1) by (simp add: runner_returns_def)
  qed
  show "slots_ok (settle_worker now w m)"
    using assms(1) by (auto simp: settle_worker_def slot_use_def Let_def intro!: same split: stage.split option.split)
  show "slots_ok (snd (finish_worker w m))"
    using assms(1) by (auto simp: finish_worker_def slot_use_def intro!: same split: stage.split)
  show "slots_ok (put_worker (w\<lparr>wkStage := Persisted x\<rparr>) m)" "slots_ok (put_worker (stop_mark w) m)" "slots_ok (put_worker (w\<lparr>wkInbox := msgs\<rparr>) m)"
    by (rule same; simp add: slot_use_def)+
qed

subsection \<open>What a step may do\<close>

text \<open>A step that neither admits nor opens leaves limits and admissions alone.\<close>

definition calm :: "worker_sys \<Rightarrow> worker_sys \<Rightarrow> bool" where
  "calm sys sys' \<longleftrightarrow> mnAdmissions (fst sys') = mnAdmissions (fst sys) \<and> mnHourlyLimit (fst sys') = mnHourlyLimit (fst sys)
     \<and> mnSlots (fst sys') = mnSlots (fst sys) \<and> mnDurable (fst sys') = mnDurable (fst sys)
     \<and> (\<forall>s'. decode no_results (snd sys') = Inr s' \<longrightarrow> (\<exists>s. decode no_results (snd sys) = Inr s \<and> wsAdmissions s' = wsAdmissions s))"

lemma results_update_cases:
  assumes "results_update m e fn d = (x, d')"
  obtains (same) "d' = d" "x \<noteq> None \<or> \<not> mnDurable m" | (new) s s' where "mnDurable m" "decode no_results d = Inr s" "fn s = ((), Inr s')" "d' = Holds s'"
proof (cases "mnDurable m")
  case False
  with assms that(1) show ?thesis by (simp add: results_update_def)
next
  case True
  then have "file_update no_results e () fn d = (((), x), d')"
    using assms by (auto simp: results_update_def split: prod.splits)
  then show ?thesis by (cases rule: file_update_cases) (use that True in auto)
qed

lemma receipts_results_update:
  assumes "results_update m e fn d = (x, d')" "receipts_ok d"
    and "\<And>s s'. fn s = ((), Inr s') \<Longrightarrow> wf_map (wsRecords s) \<Longrightarrow> mall (\<lambda>k r. rcID r = k) (wsRecords s)
       \<Longrightarrow> wf_map (wsRecords s') \<and> mall (\<lambda>k r. rcID r = k) (wsRecords s')"
  shows "receipts_ok d'"
  using assms(1)
proof (cases rule: results_update_cases)
  case same
  then show ?thesis using assms(2) by simp
next
  case (new s s')
  then show ?thesis using assms(2,3) by (simp add: receipts_ok_def)
qed

lemma calm_results_update:
  assumes "results_update m e fn d = (x, d')" and "\<And>s s'. fn s = ((), Inr s') \<Longrightarrow> wsAdmissions s' = wsAdmissions s"
  shows "\<forall>s'. decode no_results d' = Inr s' \<longrightarrow> (\<exists>s. decode no_results d = Inr s \<and> wsAdmissions s' = wsAdmissions s)"
  using assms(1)
proof (cases rule: results_update_cases)
  case same
  then show ?thesis by simp
next
  case (new s s')
  then show ?thesis using assms(2) by simp
qed

lemma fn_effects:
  "queued_fn redact m w s = ((), Inr s') \<Longrightarrow> wsAdmissions s' = mnAdmissions m"
  "finished_fn redact w s = ((), Inr s') \<Longrightarrow> wsAdmissions s' = wsAdmissions s"
  "acknowledge_fn k s = ((), Inr s') \<Longrightarrow> wsAdmissions s' = wsAdmissions s"
  "revoke_fn s = ((), Inr s') \<Longrightarrow> wsAdmissions s' = wsAdmissions s"
  by (auto simp: queued_fn_def finished_fn_def acknowledge_fn_def revoke_fn_def split: option.splits if_splits)

lemma fn_receipts:
  assumes "wf_map (wsRecords s)" "mall (\<lambda>k r. rcID r = k) (wsRecords s)"
  shows "queued_fn redact m w s = ((), Inr s') \<Longrightarrow> wf_map (wsRecords s') \<and> mall (\<lambda>k r. rcID r = k) (wsRecords s')"
    "finished_fn redact w s = ((), Inr s') \<Longrightarrow> wf_map (wsRecords s') \<and> mall (\<lambda>k r. rcID r = k) (wsRecords s')"
    "acknowledge_fn k s = ((), Inr s') \<Longrightarrow> wf_map (wsRecords s') \<and> mall (\<lambda>k r. rcID r = k) (wsRecords s')"
    "revoke_fn s = ((), Inr s') \<Longrightarrow> wf_map (wsRecords s') \<and> mall (\<lambda>k r. rcID r = k) (wsRecords s')"
  using assms
  by (auto simp: queued_fn_def finished_fn_def acknowledge_fn_def revoke_fn_def mall_def mget_map_vals split: option.splits if_splits)

lemma put_worker_keeps [simp]:
  "mnAdmissions (put_worker w m) = mnAdmissions m" "mnHourlyLimit (put_worker w m) = mnHourlyLimit m"
  "mnSlots (put_worker w m) = mnSlots m" "mnDurable (put_worker w m) = mnDurable m"
  "mnUsed (put_worker w m) = mnUsed m"
  by (simp_all add: put_worker_def)

definition worker_inv :: "worker_sys \<Rightarrow> bool" where
  "worker_inv sys \<longleftrightarrow> slots_ok (fst sys) \<and> receipts_ok (snd sys)"

lemma on_worker_calm:
  assumes "worker_inv (m, d)" "on_worker k f (m, d) = sys'"
    and "\<And>w. mget (mnWorkers m) k = Some w \<Longrightarrow> slots_ok (f w m)"
    and "\<And>w. mnAdmissions (f w m) = mnAdmissions m \<and> mnHourlyLimit (f w m) = mnHourlyLimit m \<and> mnSlots (f w m) = mnSlots m \<and> mnDurable (f w m) = mnDurable m"
  shows "worker_inv sys' \<and> calm (m, d) sys'"
  using assms by (auto simp: on_worker_def worker_inv_def calm_def split: option.splits)

fun quiet :: "worker_event \<Rightarrow> bool" where
  "quiet (EvStart origin now fresh e role prompt) = False"
| "quiet (EvReopen e now) = False"
| "quiet ev = True"

lemma quiet_step:
  assumes "quiet ev" "worker_inv (m, d)" "worker_step opts redact ev (m, d) = (ts, sys')"
  shows "ts = [] \<and> worker_inv sys' \<and> calm (m, d) sys'"
proof -
  have slots: "slots_ok m" and rec: "receipts_ok d" using assms(2) by (simp_all add: worker_inv_def)
  note w = slots_worker_steps [OF slots]
  note on = on_worker_calm [OF assms(2)]
  show ?thesis
  proof (cases ev)
    case (EvSlot k now)
    then show ?thesis using assms(3) on [of k "take_slot now" sys'] w(1)
      by (auto simp: worker_step_def take_slot_def split: option.split)
  next
    case (EvGiveUp k)
    then show ?thesis using assms(3) on [of k give_up sys'] w(2)
      by (auto simp: worker_step_def give_up_def split: option.split)
  next
    case (EvReturn k r)
    then show ?thesis using assms(3) on [of k "runner_returns r" sys'] w(3)
      by (auto simp: worker_step_def runner_returns_def split: prod.split)
  next
    case (EvSettle k now)
    then show ?thesis using assms(3) on [of k "settle_worker now" sys'] w(4)
      by (auto simp: worker_step_def settle_worker_def Let_def split: stage.split option.split)
  next
    case (EvFinish k)
    then show ?thesis using assms(3) on [of k "\<lambda>w m. snd (finish_worker w m)" sys'] w(5)
      by (auto simp: worker_step_def finish_worker_def split: stage.split)
  next
    case (EvPersist k e)
    show ?thesis
    proof (cases "mget (mnWorkers m) k")
      case None
      then show ?thesis using EvPersist assms(2,3) by (auto simp: worker_step_def calm_def)
    next
      case (Some wk)
      obtain x d' where u: "results_update m e (finished_fn redact wk) d = (x, d')" by (metis surj_pair)
      have "receipts_ok d'" by (rule receipts_results_update [OF u rec]) (rule fn_receipts(2))
      moreover note calm_results_update [OF u fn_effects(2)]
      ultimately show ?thesis using EvPersist Some assms(2,3) u w(6) [OF Some]
        by (auto simp: worker_step_def persist_worker_def worker_inv_def calm_def split: if_splits)
    qed
  next
    case (EvSend k msg)
    then show ?thesis using assms(2,3) w(8)
      by (auto simp: worker_step_def SendWorker_def worker_inv_def calm_def split: option.splits if_splits)
  next
    case (EvStop k)
    then show ?thesis using assms(2,3) w(7)
      by (auto simp: worker_step_def StopWorker_def worker_inv_def calm_def split: option.splits)
  next
    case EvCancelAll
    then show ?thesis using assms(2,3) slots_CancelAll [OF slots]
      by (auto simp: worker_step_def worker_inv_def calm_def CancelAll_def)
  next
    case (EvLifetime x)
    then show ?thesis using assms(2,3)
      by (auto simp: worker_step_def worker_inv_def calm_def slots_ok_def)
  next
    case (EvSeal e)
    define m1 where "m1 = (CancelAll m)\<lparr>mnClosed := True, mnLifetime := (case mnLifetime m of None \<Rightarrow> Some Canceled | Some x \<Rightarrow> Some x)\<rparr>"
    have m1: "slots_ok m1" "mnAdmissions m1 = mnAdmissions m" "mnHourlyLimit m1 = mnHourlyLimit m" "mnSlots m1 = mnSlots m" "mnDurable m1 = mnDurable m"
      using slots_CancelAll [OF slots] by (simp_all add: m1_def slots_ok_def CancelAll_def)
    then have m2: "slots_ok (m1\<lparr>mnNotificationErr := y\<rparr>)" for y by (simp add: slots_ok_def)
    obtain x d' where u: "results_update m1 e revoke_fn d = (x, d')" by (metis surj_pair)
    have "receipts_ok d'" by (rule receipts_results_update [OF u rec]) (rule fn_receipts(4))
    moreover note calm_results_update [OF u fn_effects(4)]
    ultimately show ?thesis using EvSeal assms(3) u m1 m2 rec
      by (cases x) (auto simp: worker_step_def SealWorkers_def Let_def m1_def [symmetric] worker_inv_def calm_def split: if_splits)
  next
    case (EvAcknowledge k e)
    obtain x d' where u: "results_update m e (acknowledge_fn k) d = (x, d')" by (metis surj_pair)
    have "receipts_ok d'" by (rule receipts_results_update [OF u rec]) (rule fn_receipts(3))
    moreover note calm_results_update [OF u fn_effects(3)]
    ultimately show ?thesis using EvAcknowledge assms(3) u slots
      by (auto simp: worker_step_def worker_inv_def calm_def)
  qed (use assms(1) in simp_all)
qed

subsection \<open>The rolling hour\<close>

text \<open>The admissions in the hour that ends at \<open>t\<close>, and an account of them that a manager may hold at a time \<open>c\<close>.\<close>

definition in_hour :: "instant \<Rightarrow> instant list \<Rightarrow> nat" where
  "in_hour t acc = length (filter (\<lambda>a. t - Hour < a \<and> a \<le> t) acc)"

definition covers :: "instant \<Rightarrow> instant list \<Rightarrow> instant list \<Rightarrow> bool" where
  "covers c acc adm \<longleftrightarrow> sorted adm \<and> (\<forall>a \<in> set adm. a \<le> c) \<and> filter_mset (\<lambda>a. c - Hour < a) (mset acc) \<subseteq># mset adm"

lemma dropWhile_sorted: "sorted xs \<Longrightarrow> dropWhile (\<lambda>t. \<not> t > (b::int)) xs = filter (\<lambda>t. t > b) xs"
proof (induction xs)
  case Nil
  then show ?case by simp
next
  case (Cons x xs)
  show ?case
  proof (cases "x > b")
    case True
    then have "filter (\<lambda>t. t > b) xs = xs" using Cons.prems by (intro filter_True) auto
    then show ?thesis using True by simp
  next
    case False
    then show ?thesis using Cons by simp
  qed
qed

lemma covers_mono: "covers c acc adm \<Longrightarrow> c \<le> c' \<Longrightarrow> covers c' acc adm"
proof -
  assume c: "covers c acc adm" "c \<le> c'"
  have "filter_mset (\<lambda>a. c' - Hour < a) (mset acc) \<subseteq># filter_mset (\<lambda>a. c - Hour < a) (mset acc)"
    using c(2) by (intro filter_mset_mono_strong) auto
  then show ?thesis using c by (auto simp: covers_def intro: subset_mset.order_trans)
qed

lemma covers_pruned:
  assumes "covers c acc adm" "c \<le> now"
  shows "covers now acc (dropWhile (\<lambda>t. \<not> t > now - Hour) adm)"
proof -
  have now: "covers now acc adm" using covers_mono [OF assms] .
  then have "filter_mset (\<lambda>a. now - Hour < a) (mset acc) \<subseteq># filter_mset (\<lambda>a. now - Hour < a) (mset adm)"
    using multiset_filter_mono [of "filter_mset (\<lambda>a. now - Hour < a) (mset acc)" "mset adm" "\<lambda>a. now - Hour < a"]
    by (simp add: covers_def filter_filter_mset)
  then show ?thesis using now by (simp add: covers_def dropWhile_sorted sorted_wrt_filter mset_filter)
qed

lemma covers_snoc:
  assumes "covers now acc adm"
  shows "covers now (acc @ [now]) (adm @ [now])" "covers now acc (adm @ [now])"
  using assms by (auto simp: covers_def sorted_append Hour_def Minute_def Second_def intro: subset_mset.order_trans)

lemma in_hour_covers:
  assumes "covers now acc adm" "\<forall>a \<in> set acc. a \<le> now" "\<And>t. in_hour t acc \<le> n" "length adm < n"
  shows "in_hour t (acc @ [now]) \<le> n"
proof (cases "t - Hour < now \<and> now \<le> t")
  case False
  then show ?thesis using assms(3) [of t] by (auto simp: in_hour_def)
next
  case True
  have "in_hour t acc \<le> length (filter (\<lambda>a. now - Hour < a) acc)"
    unfolding in_hour_def using True by (induction acc) auto
  also have "\<dots> = size (filter_mset (\<lambda>a. now - Hour < a) (mset acc))" by (metis mset_filter size_mset)
  also have "\<dots> \<le> length adm" using assms(1) size_mset_mono by (fastforce simp: covers_def)
  finally show ?thesis using True assms(4) by (simp add: in_hour_def)
qed

definition quota_inv :: "worker_options \<Rightarrow> instant \<Rightarrow> instant list \<Rightarrow> worker_sys \<Rightarrow> bool" where
  "quota_inv opts c acc sys \<longleftrightarrow> worker_inv sys
     \<and> mnSlots (fst sys) = mnSlots (NewWithOptions opts) \<and> mnHourlyLimit (fst sys) = mnHourlyLimit (NewWithOptions opts)
     \<and> covers c acc (mnAdmissions (fst sys))
     \<and> (mnDurable (fst sys) \<longrightarrow> (\<forall>s. decode no_results (snd sys) = Inr s \<longrightarrow> covers c acc (wsAdmissions s)))
     \<and> (\<forall>a \<in> set acc. a \<le> c) \<and> (\<forall>t. in_hour t acc \<le> mnHourlyLimit (NewWithOptions opts))"

lemma slots_new_worker: "slots_ok m \<Longrightarrow> slots_ok (put_worker (new_worker k role prompt now) m)"
proof -
  assume s: "slots_ok m"
  then have "0 \<le> (case mget (mnWorkers m) k of None \<Rightarrow> 0 | Some w \<Rightarrow> slot_use w)"
    by (simp add: slot_use_bounds split: option.split)
  with s show ?thesis
    by (auto simp: slots_ok_def put_worker_def new_worker_def slot_use_def msum_mput mall_mput split: option.splits)
qed

lemma start_step_quota:
  assumes "quota_inv opts c acc (m, d)" "c \<le> now" "worker_step opts redact (EvStart origin now fresh e role prompt) (m, d) = (ts, sys')"
  shows "quota_inv opts now (acc @ ts) sys'"
proof -
  let ?L = "mnHourlyLimit (NewWithOptions opts)"
  have inv: "slots_ok m" "receipts_ok d" "mnHourlyLimit m = ?L" and acc: "\<forall>a \<in> set acc. a \<le> now" and hour: "\<And>t. in_hour t acc \<le> ?L"
    using assms(1,2) by (auto simp: quota_inv_def worker_inv_def)
  have later: "quota_inv opts now acc (m, d)"
    using assms(1,2) by (auto simp: quota_inv_def intro: covers_mono)
  define adm where "adm = dropWhile (\<lambda>t. \<not> t > now - Hour) (mnAdmissions m)"
  have adm: "covers now acc adm" unfolding adm_def
    by (rule covers_pruned [OF _ assms(2)]) (use assms(1) in \<open>simp add: quota_inv_def\<close>)
  have pruned: "quota_inv opts now acc (m\<lparr>mnAdmissions := adm\<rparr>, d)"
    using later adm by (simp add: quota_inv_def worker_inv_def slots_ok_def)
  show ?thesis
  proof (cases "origin = None \<and> TrimSpace prompt \<noteq> '''' \<and> \<not> mnClosed m \<and> mnLifetime m = None \<and> mnRunner m")
    case False
    then have "ts = [] \<and> sys' = (m, d)" using assms(3) by (cases origin) (auto simp: worker_step_def StartContext_def split: if_splits)
    then show ?thesis using later by simp
  next
    case go: True
    show ?thesis
    proof (cases "length adm \<ge> mnHourlyLimit m")
      case True
      then have "ts = [] \<and> sys' = (m\<lparr>mnAdmissions := adm\<rparr>, d)"
        using go assms(3) by (simp add: worker_step_def StartContext_def adm_def [symmetric] Let_def)
      then show ?thesis using pruned by simp
    next
      case room: False
      define m2 where "m2 = m\<lparr>mnAdmissions := adm @ [now], mnSeq := mnSeq m + 1\<rparr>"
      define w where "w = new_worker (newID m2 fresh) role prompt now"
      obtain x d' where u: "results_update m2 e (queued_fn redact m2 w) d = (x, d')" by (metis surj_pair)
      have rec: "receipts_ok d'" by (rule receipts_results_update [OF u inv(2)]) (rule fn_receipts(1))
      have disk: "mnDurable m \<Longrightarrow> decode no_results d' = Inr s \<Longrightarrow> covers now acc (wsAdmissions s)" for s
        using u
      proof (cases rule: results_update_cases)
        case same
        then show "mnDurable m \<Longrightarrow> decode no_results d' = Inr s \<Longrightarrow> covers now acc (wsAdmissions s)" using later by (simp add: quota_inv_def)
      next
        case (new s0 s1)
        then show "mnDurable m \<Longrightarrow> decode no_results d' = Inr s \<Longrightarrow> covers now acc (wsAdmissions s)"
          using covers_snoc(2) [OF adm] fn_effects(1) [of redact m2 w s0 s1] by (simp add: m2_def)
      qed
      show ?thesis
      proof (cases x)
        case (Some y)
        then have "ts = [] \<and> sys' = (m2\<lparr>mnAdmissions := adm\<rparr>, d')"
          using go room assms(3) u [unfolded w_def m2_def]
          by (auto simp: worker_step_def StartContext_def adm_def [symmetric] Let_def m2_def w_def)
        then show ?thesis using pruned rec disk by (simp add: quota_inv_def worker_inv_def slots_ok_def m2_def)
      next
        case None
        then have r: "ts = [now] \<and> sys' = (put_worker w m2, d')"
          using go room assms(3) u [unfolded w_def m2_def]
          by (auto simp: worker_step_def StartContext_def adm_def [symmetric] Let_def m2_def w_def)
        have "slots_ok (put_worker w m2)" unfolding w_def using inv(1) by (intro slots_new_worker) (simp add: slots_ok_def m2_def)
        moreover have "\<forall>t. in_hour t (acc @ [now]) \<le> ?L" using in_hour_covers [OF adm acc hour] room inv(3) by simp
        moreover have "covers now (acc @ [now]) (wsAdmissions s)" if "mnDurable m" "decode no_results d' = Inr s" for s
          using u
        proof (cases rule: results_update_cases)
          case same
          then show ?thesis using that None by (simp add: m2_def)
        next
          case (new s0 s1)
          then show ?thesis using that covers_snoc(1) [OF adm] fn_effects(1) [of redact m2 w s0 s1] by (simp add: m2_def)
        qed
        ultimately show ?thesis using r rec covers_snoc(1) [OF adm] later acc
          by (auto simp: quota_inv_def worker_inv_def m2_def)
      qed
    qed
  qed
qed

lemma NewDurable_cases:
  assumes "NewDurable opts lease e now d = (res, d')"
  obtains (refused) x where "res = Inl x" "d' = d"
  | (wrote) s s' r where "decode no_results d = Inr s" "open_results_fn opts now s = (r, Inr s')" "d' = Holds s'"
     "(\<exists>x. res = Inl x) \<or> res = Inr ((NewWithOptions opts)\<lparr>mnDurable := True, mnPrincipal := woPrincipal opts, mnSession := woSession opts,
        mnWorkers := map (\<lambda>(k, r). (k, past_worker r)) (wsRecords s'), mnAdmissions := wsAdmissions s'\<rparr>)"
proof (cases "woRoot opts = '''' \<or> woSession opts = '''' \<or> woPrincipal opts = '''' \<or> lease \<noteq> None")
  case True
  then show ?thesis using assms refused by (auto simp: NewDurable_def split: option.splits if_splits)
next
  case False
  obtain rs adm x d1 where u: "file_update no_results e ([], []) (open_results_fn opts now) d = (((rs, adm), x), d1)" by (metis surj_pair)
  have r: "d' = d1" "res = (case x of Some y \<Rightarrow> Inl y | None \<Rightarrow> Inr ((NewWithOptions opts)\<lparr>mnDurable := True, mnPrincipal := woPrincipal opts,
       mnSession := woSession opts, mnWorkers := map (\<lambda>(k, r). (k, past_worker r)) rs, mnAdmissions := adm\<rparr>))"
    using assms False u by (auto simp: NewDurable_def split: option.splits)
  show ?thesis
  proof (cases rule: file_update_cases [OF u])
    case 1
    then show ?thesis using r refused by auto
  next
    case (2 s s')
    have "rs = wsRecords s' \<and> adm = wsAdmissions s'" using 2(2) by (auto simp: open_results_fn_def Let_def split: if_splits)
    then show ?thesis using 2 r by (intro wrote [of s "(rs, adm)" s']) (auto split: option.splits)
  qed
qed

lemma open_results_fn_effect:
  assumes "open_results_fn opts now s = (r, Inr s')"
  shows "wsAdmissions s' = wsAdmissions s \<and> wsRecords s' = map (\<lambda>(k, r). (k, interrupted now r)) (wsRecords s)"
  using assms by (auto simp: open_results_fn_def Let_def split: if_splits)

lemma interrupted_id [simp]: "rcID (interrupted now r) = rcID r"
  by (simp add: interrupted_def)

definition results_of :: "result_state content \<Rightarrow> result_state" where
  "results_of d = (case decode no_results d of Inr s \<Rightarrow> s | Inl e \<Rightarrow> no_results)"

lemma reopen_step_inv:
  assumes "NewDurable opts lease e now d = (res, d')" "receipts_ok d"
  shows "receipts_ok d' \<and> (\<forall>m. res = Inr m \<longrightarrow> slots_ok m \<and> mnUsed m = 0)
     \<and> (\<forall>s'. decode no_results d' = Inr s' \<longrightarrow> (\<exists>s. decode no_results d = Inr s \<and> wsAdmissions s' = wsAdmissions s))
     \<and> (\<forall>m. res = Inr m \<longrightarrow> mnSlots m = mnSlots (NewWithOptions opts) \<and> mnHourlyLimit m = mnHourlyLimit (NewWithOptions opts)
          \<and> mnDurable m \<and> decode no_results d' = Inr (results_of d') \<and> mnAdmissions m = wsAdmissions (results_of d'))"
  using assms(1)
proof (cases rule: NewDurable_cases)
  case (refused x)
  then show ?thesis using assms(2) by simp
next
  case (wrote s s' r)
  note eff = open_results_fn_effect [OF wrote(2)]
  have rec: "wf_map (wsRecords s')" "mall (\<lambda>k r. rcID r = k) (wsRecords s')"
    using assms(2) wrote(1) eff by (auto simp: receipts_ok_def mall_def mget_map_vals)
  have "slots_ok ((NewWithOptions opts)\<lparr>mnDurable := True, mnPrincipal := woPrincipal opts, mnSession := woSession opts,
        mnWorkers := map (\<lambda>(k, r). (k, past_worker r)) (wsRecords s'), mnAdmissions := wsAdmissions s'\<rparr>)"
  proof -
    have "msum slot_use (map (\<lambda>(k, r). (k, past_worker r)) xs) = 0" for xs :: "receipt gomap"
      by (induction xs) (auto simp: slot_use_def past_worker_def)
    then show ?thesis using rec by (auto simp: slots_ok_def NewWithOptions_def mall_def mget_map_vals past_worker_def)
  qed
  then show ?thesis using wrote eff rec by (auto simp: receipts_ok_def NewWithOptions_def results_of_def)
qed

lemma worker_step_quota:
  assumes "quota_inv opts c acc sys" "worker_step opts redact ev sys = (ts, sys')" "\<forall>t. event_time ev = Some t \<longrightarrow> c \<le> t"
  shows "quota_inv opts (case event_time ev of Some t \<Rightarrow> t | None \<Rightarrow> c) (acc @ ts) sys'"
proof -
  obtain m d where sys: "sys = (m, d)" by (cases sys)
  have q: "quota_inv opts c acc (m, d)" and inv: "worker_inv (m, d)" using assms(1) by (simp_all add: sys quota_inv_def)
  show ?thesis
  proof (cases "quiet ev")
    case True
    then have "event_time ev = None" by (cases ev) simp_all
    moreover note quiet_step [OF True inv assms(2) [unfolded sys]]
    ultimately show ?thesis using q by (auto simp: quota_inv_def calm_def)
  next
    case False
    show ?thesis
    proof (cases ev)
      case (EvStart origin now fresh e role prompt)
      then show ?thesis using start_step_quota [OF q, of now redact origin fresh e role prompt ts sys'] assms(2,3) by (simp add: sys)
    next
      case (EvReopen e now)
      show ?thesis
      proof (cases "mnDurable m")
        case False
        then show ?thesis using EvReopen assms(2) q by (auto simp: sys worker_step_def)
      next
        case True
        obtain res d' where n: "NewDurable opts None e now d = (res, d')" by (metis surj_pair)
        have "receipts_ok d" using inv by (simp add: worker_inv_def)
        note r = reopen_step_inv [OF n this]
        have ts: "ts = []" "sys' = (case res of Inr m \<Rightarrow> (m, d') | Inl x \<Rightarrow> (dead_manager m, d'))"
          using EvReopen assms(2) True n by (cases res; auto simp: sys worker_step_def)+
        have cov: "covers c acc (wsAdmissions s)" if "decode no_results d' = Inr s" for s
          using r that q True by (fastforce simp: quota_inv_def)
        show ?thesis using EvReopen ts r q cov
          by (cases res) (auto simp: quota_inv_def worker_inv_def dead_manager_def slots_ok_def)
      qed
    qed (use False in simp_all)
  qed
qed

definition event_times :: "worker_event list \<Rightarrow> instant list" where
  "event_times evs = concat (map (\<lambda>ev. case event_time ev of Some t \<Rightarrow> [t] | None \<Rightarrow> []) evs)"

lemma worker_run_quota:
  "worker_run opts redact evs sys = (ts, sys') \<Longrightarrow> quota_inv opts c acc sys \<Longrightarrow> sorted (event_times evs) \<Longrightarrow> \<forall>t \<in> set (event_times evs). c \<le> t
     \<Longrightarrow> \<exists>c'. quota_inv opts c' (acc @ ts) sys'"
proof (induction evs arbitrary: sys ts c acc)
  case Nil
  then show ?case by auto
next
  case (Cons ev evs)
  obtain us sys1 where s: "worker_step opts redact ev sys = (us, sys1)" by (metis surj_pair)
  obtain vs where r: "worker_run opts redact evs sys1 = (vs, sys')" "ts = us @ vs" using Cons.prems(1) s by (auto split: prod.splits)
  define c1 where "c1 = (case event_time ev of Some t \<Rightarrow> t | None \<Rightarrow> c)"
  have "quota_inv opts c1 (acc @ us) sys1"
    unfolding c1_def by (rule worker_step_quota [OF Cons.prems(2) s]) (use Cons.prems(4) in \<open>auto simp: event_times_def\<close>)
  moreover have "sorted (event_times evs)" "\<forall>t \<in> set (event_times evs). c1 \<le> t"
    using Cons.prems(3,4) by (auto simp: event_times_def c1_def sorted_append split: option.splits)
  ultimately show ?case using Cons.IH [OF r(1), of c1 "acc @ us"] r(2) by simp
qed

lemma worker_start_quota: "worker_start opts sys \<Longrightarrow> quota_inv opts c [] sys"
proof -
  assume "worker_start opts sys"
  then consider "sys = (NewWithOptions opts, Absent)" | e now m d where "NewDurable opts None e now Absent = (Inr m, d)" "sys = (m, d)"
    by (auto simp: worker_start_def)
  then show ?thesis
  proof cases
    case 1
    then show ?thesis
      by (simp add: quota_inv_def worker_inv_def slots_ok_def receipts_ok_def NewWithOptions_def covers_def in_hour_def no_results_def)
  next
    case 2
    have "receipts_ok Absent" by (simp add: receipts_ok_def no_results_def)
    note r = reopen_step_inv [OF 2(1) this]
    have "covers c [] (wsAdmissions s)" if "decode no_results d = Inr s" for s
      using r that by (auto simp: no_results_def covers_def)
    then show ?thesis using r 2(2) by (auto simp: quota_inv_def worker_inv_def in_hour_def)
  qed
qed

text \<open>C25. The worker pool is bounded: from a new manager, whatever is started, stopped, sent, finished and reopened after a
  crash, and whatever the file system does, the runners that are active never exceed the configured slots, and
  the workers admitted in any hour never exceed the hourly limit, also across restarts of a durable manager,
  provided the clock does not go backwards.\<close>

theorem worker_pool_is_bounded:
  assumes "worker_start opts sys" and "sorted (event_times evs)" and "worker_run opts redact evs sys = (admitted, sys')"
  shows "running (fst sys') \<le> mnSlots (NewWithOptions opts) \<and> (\<forall>t. in_hour t admitted \<le> mnHourlyLimit (NewWithOptions opts))"
proof -
  obtain c where c: "\<forall>t \<in> set (event_times evs). c \<le> t"
    using assms(2) by (cases "event_times evs") auto
  from worker_run_quota [OF assms(3) worker_start_quota [OF assms(1)] assms(2) c] obtain c' where
    q: "quota_inv opts c' admitted sys'" by auto
  then have "int (running (fst sys')) \<le> int (mnUsed (fst sys'))" "mnUsed (fst sys') \<le> mnSlots (NewWithOptions opts)"
    by (simp_all add: quota_inv_def worker_inv_def slots_ok_def running_msum)
  then show ?thesis using q by (simp add: quota_inv_def)
qed

definition demo_options :: worker_options where
  "demo_options = \<lparr>woConcurrency = 1, woHourlyLimit = 1, woRunner = True, woRoot = ''r'', woSession = ''s'', woPrincipal = ''p''\<rparr>"

text \<open>The second worker of the hour is refused.\<close>

lemma worker_pool_is_bounded_witness:
  "\<exists>sys'. worker_run demo_options id [EvStart None 0 '''' io_ok ''r'' ''p'', EvStart None 1 '''' io_ok ''r'' ''p'', EvSlot ''worker-001'' 2]
       (NewWithOptions demo_options, Absent) = ([0], sys') \<and> running (fst sys') \<le> 1 \<and> in_hour 5 [0] \<le> 1"
proof -
  let ?evs = "[EvStart None 0 '''' io_ok ''r'' ''p'', EvStart None 1 '''' io_ok ''r'' ''p'', EvSlot ''worker-001'' 2]"
  have opts: "mnSlots (NewWithOptions demo_options) = 1" "mnHourlyLimit (NewWithOptions demo_options) = 1"
    by (simp_all add: NewWithOptions_def demo_options_def)
  have "TrimSpace ''p'' \<noteq> ''''" by code_simp
  then have "\<exists>sys'. worker_run demo_options id ?evs (NewWithOptions demo_options, Absent) = ([0], sys')"
    by (auto simp: worker_step_def StartContext_def NewWithOptions_def demo_options_def results_update_def Let_def put_worker_def
        Hour_def Minute_def Second_def split: prod.split)
  then obtain sys' where r: "worker_run demo_options id ?evs (NewWithOptions demo_options, Absent) = ([0], sys')" ..
  have "worker_start demo_options (NewWithOptions demo_options, Absent)" "sorted (event_times ?evs)"
    by (simp_all add: worker_start_def event_times_def)
  from worker_pool_is_bounded [OF this r] opts r show ?thesis by auto
qed

subsection \<open>Receipts\<close>

definition records_of :: "result_state content \<Rightarrow> receipt gomap" where
  "records_of d = wsRecords (results_of d)"

text \<open>How a receipt may change: its result is written once, and neither an acknowledgement nor a revocation is undone.\<close>

definition receipt_kept :: "receipt \<Rightarrow> receipt \<Rightarrow> bool" where
  "receipt_kept r r' \<longleftrightarrow> rcID r' = rcID r \<and> rcRole r' = rcRole r \<and> rcPrompt r' = rcPrompt r \<and> rcCreated r' = rcCreated r
     \<and> (\<not> active (rcStatus r) \<longrightarrow> rcStatus r' = rcStatus r \<and> rcResult r' = rcResult r \<and> rcError r' = rcError r)
     \<and> (rcAcknowledged r \<longrightarrow> rcAcknowledged r') \<and> (rcRevoked r \<longrightarrow> rcRevoked r')"

lemma receipt_kept_refl: "receipt_kept r r"
  by (simp add: receipt_kept_def)

lemma receipt_kept_trans: "receipt_kept r r' \<Longrightarrow> receipt_kept r' r'' \<Longrightarrow> receipt_kept r r''"
  by (auto simp: receipt_kept_def)

definition receipts_kept :: "result_state content \<Rightarrow> result_state content \<Rightarrow> bool" where
  "receipts_kept d d' \<longleftrightarrow> (\<forall>k r. mget (records_of d) k = Some r \<longrightarrow> (\<exists>r'. mget (records_of d') k = Some r' \<and> receipt_kept r r'))"

lemma receipts_kept_refl: "receipts_kept d d"
  by (auto simp: receipts_kept_def intro: receipt_kept_refl)

lemma receipts_kept_trans: "receipts_kept d d' \<Longrightarrow> receipts_kept d' d'' \<Longrightarrow> receipts_kept d d''"
  unfolding receipts_kept_def by (meson receipt_kept_trans)

lemma records_of_Holds [simp]: "records_of (Holds s) = wsRecords s" "records_of Absent = []"
  by (simp_all add: records_of_def results_of_def no_results_def)

lemma records_decode: "decode no_results d = Inr s \<Longrightarrow> records_of d = wsRecords s"
  by (simp add: records_of_def results_of_def)

text \<open>A worker whose receipt is final is past the point where it writes it.\<close>

definition written_once :: "worker_sys \<Rightarrow> bool" where
  "written_once sys \<longleftrightarrow> (\<forall>k r w. mget (records_of (snd sys)) k = Some r \<longrightarrow> \<not> active (rcStatus r) \<longrightarrow> mget (mnWorkers (fst sys)) k = Some w
     \<longrightarrow> (\<exists>x. wkStage w = Persisted x) \<or> wkStage w = Over)"

text \<open>Steps that leave the file alone and move no finished worker back.\<close>

definition stages_forward :: "manager \<Rightarrow> manager \<Rightarrow> bool" where
  "stages_forward m m' \<longleftrightarrow> (\<forall>k w'. mget (mnWorkers m') k = Some w' \<longrightarrow> (\<exists>w. mget (mnWorkers m) k = Some w
     \<and> ((\<exists>x. wkStage w = Persisted x) \<or> wkStage w = Over \<longrightarrow> (\<exists>x. wkStage w' = Persisted x) \<or> wkStage w' = Over)))"

lemma stages_forward_refl: "stages_forward m m"
  by (auto simp: stages_forward_def)

lemma written_once_forward: "written_once (m, d) \<Longrightarrow> stages_forward m m' \<Longrightarrow> written_once (m', d)"
  unfolding written_once_def stages_forward_def by (metis fst_conv snd_conv)

lemma written_once_cong: "mnWorkers m' = mnWorkers m \<Longrightarrow> written_once (m', d) = written_once (m, d)"
  by (simp add: written_once_def)

lemma stages_forward_put:
  assumes "mget (mnWorkers m) k = Some w" "wkID w' = k"
    and "(\<exists>x. wkStage w = Persisted x) \<or> wkStage w = Over \<longrightarrow> (\<exists>x. wkStage w' = Persisted x) \<or> wkStage w' = Over"
  shows "stages_forward m (put_worker w' m)" "stages_forward m ((put_worker w' m)\<lparr>mnUsed := u\<rparr>)"
  using assms by (auto simp: stages_forward_def put_worker_def)

lemma stages_forward_steps:
  assumes "mget (mnWorkers m) k = Some w" "wkID w = k"
  shows "stages_forward m (take_slot now w m)" "stages_forward m (give_up w m)" "stages_forward m (runner_returns r w m)"
    "stages_forward m (settle_worker now w m)" "stages_forward m (snd (finish_worker w m))" "stages_forward m (put_worker (stop_mark w) m)"
    "stages_forward m (put_worker (w\<lparr>wkInbox := msgs\<rparr>) m)"
  using assms
  by (auto simp: take_slot_def give_up_def runner_returns_def settle_worker_def finish_worker_def Let_def stages_forward_refl
      intro!: stages_forward_put [OF assms(1)] split: option.split prod.split stage.split)

lemma receipts_kept_update:
  assumes "results_update m e fn d = (x, d')"
    and "\<And>s s' k r. decode no_results d = Inr s \<Longrightarrow> fn s = ((), Inr s') \<Longrightarrow> mget (wsRecords s) k = Some r
      \<Longrightarrow> \<exists>r'. mget (wsRecords s') k = Some r' \<and> receipt_kept r r'"
  shows "receipts_kept d d'"
  using assms(1)
proof (cases rule: results_update_cases)
  case same
  then show ?thesis by (simp add: receipts_kept_refl)
next
  case (new s s')
  then show ?thesis using assms(2) by (auto simp: receipts_kept_def records_decode)
qed

lemma written_once_receipts:
  assumes "written_once (m, d)" "\<And>k r'. mget (records_of d') k = Some r' \<Longrightarrow> \<not> active (rcStatus r')
      \<Longrightarrow> \<exists>r. mget (records_of d) k = Some r \<and> \<not> active (rcStatus r)"
  shows "written_once (m, d')"
  using assms unfolding written_once_def by (metis fst_conv snd_conv)

lemma acknowledge_kept:
  assumes "results_update m e (acknowledge_fn k) d = (x, d')" "written_once (m, d)"
  shows "receipts_kept d d' \<and> written_once (m, d')"
proof
  show "receipts_kept d d'"
    by (rule receipts_kept_update [OF assms(1)])
      (auto simp: acknowledge_fn_def receipt_kept_def split: option.splits if_splits)
  show "written_once (m, d')" using assms(1)
  proof (cases rule: results_update_cases)
    case (new s s')
    show ?thesis
      by (rule written_once_receipts [OF assms(2)])
        (use new in \<open>auto simp: acknowledge_fn_def records_decode split: option.splits if_splits\<close>)
  qed (use assms(2) in simp)
qed

lemma revoke_kept:
  assumes "results_update m e revoke_fn d = (x, d')" "written_once (m', d)"
  shows "receipts_kept d d' \<and> written_once (m', d')"
proof
  show "receipts_kept d d'"
    by (rule receipts_kept_update [OF assms(1)]) (auto simp: revoke_fn_def receipt_kept_def mget_map_vals)
  show "written_once (m', d')" using assms(1)
  proof (cases rule: results_update_cases)
    case (new s s')
    show ?thesis
      by (rule written_once_receipts [OF assms(2)]) (use new in \<open>auto simp: revoke_fn_def records_decode mget_map_vals\<close>)
  qed (use assms(2) in simp)
qed

lemma persist_kept:
  assumes "results_update m e (finished_fn redact w) d = (x, d')" "written_once (m, d)" "mget (mnWorkers m) k = Some w" "wkID w = k" "wkStage w = Settled"
  shows "receipts_kept d d' \<and> written_once (put_worker (w\<lparr>wkStage := Persisted x\<rparr>) m, d')"
proof
  have unfinished: "active (rcStatus r)" if "mget (records_of d) k = Some r" for r
    using assms(2,3,5) that by (fastforce simp: written_once_def)
  show "receipts_kept d d'"
    by (rule receipts_kept_update [OF assms(1)])
      (use unfinished assms(4) in \<open>auto simp: finished_fn_def receipt_kept_def receipt_kept_refl records_decode split: option.splits\<close>)
  have "stages_forward m (put_worker (w\<lparr>wkStage := Persisted x\<rparr>) m)"
    using stages_forward_put(1) [OF assms(3), of "w\<lparr>wkStage := Persisted x\<rparr>"] assms(4) by simp
  then have w: "written_once (put_worker (w\<lparr>wkStage := Persisted x\<rparr>) m, d)" using written_once_forward assms(2) by blast
  show "written_once (put_worker (w\<lparr>wkStage := Persisted x\<rparr>) m, d')" using assms(1)
  proof (cases rule: results_update_cases)
    case (new s s')
    then show ?thesis using w assms(4)
      by (auto simp: written_once_def finished_fn_def records_decode put_worker_def split: option.splits) metis
  qed (use w in simp)
qed

lemma start_kept:
  assumes "results_update m e (queued_fn redact m w) d = (x, d')" "written_once (m0, d)" "mnWorkers m0 = mnWorkers m"
    and "mget (records_of d) (wkID w) = None"
  shows "receipts_kept d d' \<and> written_once (m0, d') \<and> written_once (put_worker w m, d')"
proof -
  have "receipts_kept d d'"
    by (rule receipts_kept_update [OF assms(1)]) (use assms(4) in \<open>auto simp: queued_fn_def receipt_kept_refl records_decode\<close>)
  moreover have "written_once (m0, d') \<and> written_once (put_worker w m, d')" using assms(1)
  proof (cases rule: results_update_cases)
    case same
    then show ?thesis using assms(2,3,4) by (auto simp: written_once_def put_worker_def split: if_splits)
  next
    case (new s s')
    then show ?thesis using assms(2,3,4)
      by (auto simp: written_once_def queued_fn_def records_decode put_worker_def split: if_splits) (blast | simp add: active_def)+
  qed
  ultimately show ?thesis by simp
qed

lemma reopen_kept:
  assumes "NewDurable opts lease e now d = (res, d')"
  shows "receipts_kept d d' \<and> (res = Inr m' \<longrightarrow> written_once (m', d'))"
  using assms(1)
proof (cases rule: NewDurable_cases)
  case (refused x)
  then show ?thesis by (simp add: receipts_kept_refl)
next
  case (wrote s s' r)
  note eff = open_results_fn_effect [OF wrote(2)]
  have "receipts_kept d d'"
    using wrote(1,3) eff by (auto simp: receipts_kept_def records_decode mget_map_vals receipt_kept_def interrupted_def)
  moreover have "wkStage w = Over" if "mget (map (\<lambda>(k, r). (k, past_worker r)) xs) k = Some w" for xs k w
    using that by (auto simp: mget_map_vals past_worker_def)
  ultimately show ?thesis using wrote(4) by (auto simp: written_once_def)
qed

text \<open>The identifiers of new workers are not in use in the file.\<close>

fun fresh_event :: "worker_event \<Rightarrow> worker_sys \<Rightarrow> bool" where
  "fresh_event (EvStart origin now fresh e role prompt) sys \<longleftrightarrow> mget (records_of (snd sys)) fresh = None"
| "fresh_event ev sys \<longleftrightarrow> True"

fun fresh_run :: "worker_options \<Rightarrow> (string \<Rightarrow> string) \<Rightarrow> worker_event list \<Rightarrow> worker_sys \<Rightarrow> bool" where
  "fresh_run opts redact [] sys \<longleftrightarrow> True"
| "fresh_run opts redact (ev # evs) sys \<longleftrightarrow> fresh_event ev sys \<and> fresh_run opts redact evs (snd (worker_step opts redact ev sys))"

definition receipts_inv :: "worker_sys \<Rightarrow> bool" where
  "receipts_inv sys \<longleftrightarrow> worker_inv sys \<and> written_once sys \<and> (\<not> mnDurable (fst sys) \<longrightarrow> records_of (snd sys) = [])"

lemma on_worker_kept:
  assumes "worker_inv (m, d)" "written_once (m, d)" "on_worker k f (m, d) = sys'"
    and "\<And>w. mget (mnWorkers m) k = Some w \<Longrightarrow> wkID w = k \<Longrightarrow> stages_forward m (f w m)"
  shows "receipts_kept d (snd sys') \<and> written_once sys'"
proof (cases "mget (mnWorkers m) k")
  case None
  then show ?thesis using assms(2,3) by (auto simp: on_worker_def receipts_kept_refl)
next
  case (Some w)
  then have "wkID w = k" using assms(1) by (simp add: worker_inv_def slots_ok_def mall_def)
  then show ?thesis using assms(2,3,4) Some written_once_forward by (fastforce simp: on_worker_def receipts_kept_refl)
qed

lemma quiet_step_kept:
  assumes "quiet ev" "worker_inv (m, d)" "written_once (m, d)" "worker_step opts redact ev (m, d) = (ts, sys')"
  shows "receipts_kept d (snd sys') \<and> written_once sys'"
proof -
  note on = on_worker_kept [OF assms(2,3)]
  show ?thesis
  proof (cases ev)
    case (EvSlot k now)
    then show ?thesis using assms(4) by (intro on [of k "take_slot now"]) (auto simp: worker_step_def intro: stages_forward_steps)
  next
    case (EvGiveUp k)
    then show ?thesis using assms(4) by (intro on [of k give_up]) (auto simp: worker_step_def intro: stages_forward_steps)
  next
    case (EvReturn k r)
    then show ?thesis using assms(4) by (intro on [of k "runner_returns r"]) (auto simp: worker_step_def intro: stages_forward_steps)
  next
    case (EvSettle k now)
    then show ?thesis using assms(4) by (intro on [of k "settle_worker now"]) (auto simp: worker_step_def intro: stages_forward_steps)
  next
    case (EvFinish k)
    then show ?thesis using assms(4)
      by (intro on [of k "\<lambda>w m. snd (finish_worker w m)"]) (auto simp: worker_step_def intro: stages_forward_steps)
  next
    case (EvPersist k e)
    show ?thesis
    proof (cases "mget (mnWorkers m) k")
      case None
      then show ?thesis using EvPersist assms(3,4) by (auto simp: worker_step_def receipts_kept_refl)
    next
      case (Some w)
      then have k: "wkID w = k" using assms(2) by (simp add: worker_inv_def slots_ok_def mall_def)
      obtain x d' where u: "results_update m e (finished_fn redact w) d = (x, d')" by (metis surj_pair)
      show ?thesis
      proof (cases "wkStage w = Settled")
        case True
        then show ?thesis using persist_kept [OF u assms(3) Some k True] EvPersist Some assms(4) u
          by (auto simp: worker_step_def persist_worker_def)
      next
        case False
        then show ?thesis using EvPersist Some assms(3,4) by (auto simp: worker_step_def persist_worker_def receipts_kept_refl)
      qed
    qed
  next
    case (EvSend k msg)
    have "stages_forward m (snd (SendWorker k msg m))"
      using assms(2) by (auto simp: SendWorker_def stages_forward_refl worker_inv_def slots_ok_def mall_def intro: stages_forward_steps(7) split: option.split)
    then show ?thesis using EvSend assms(3,4) written_once_forward by (auto simp: worker_step_def receipts_kept_refl)
  next
    case (EvStop k)
    have "stages_forward m (snd (StopWorker k m))"
      using assms(2) by (auto simp: StopWorker_def stages_forward_refl worker_inv_def slots_ok_def mall_def intro: stages_forward_steps(6) split: option.split)
    then show ?thesis using EvStop assms(3,4) written_once_forward by (auto simp: worker_step_def receipts_kept_refl)
  next
    case EvCancelAll
    have "stages_forward m (CancelAll m)" by (auto simp: stages_forward_def CancelAll_def mget_map_vals)
    then show ?thesis using EvCancelAll assms(3,4) written_once_forward by (auto simp: worker_step_def receipts_kept_refl)
  next
    case (EvLifetime x)
    have "written_once (m\<lparr>mnLifetime := y\<rparr>, d)" for y by (rule iffD2 [OF written_once_cong assms(3)]) simp
    then show ?thesis using EvLifetime assms(4) by (auto simp: worker_step_def receipts_kept_refl)
  next
    case (EvSeal e)
    define m1 where "m1 = (CancelAll m)\<lparr>mnClosed := True, mnLifetime := (case mnLifetime m of None \<Rightarrow> Some Canceled | Some x \<Rightarrow> Some x)\<rparr>"
    have "stages_forward m m1" by (auto simp: m1_def stages_forward_def CancelAll_def mget_map_vals)
    then have m1: "written_once (m1, d)" using written_once_forward assms(3) by blast
    obtain x d' where u: "results_update m1 e revoke_fn d = (x, d')" by (metis surj_pair)
    have "written_once (m1\<lparr>mnNotificationErr := y\<rparr>, d')" for y
      using revoke_kept [OF u m1] by (simp add: written_once_def)
    then show ?thesis using EvSeal assms(4) u m1 revoke_kept [OF u m1]
      by (cases x) (auto simp: worker_step_def SealWorkers_def Let_def m1_def [symmetric] receipts_kept_refl split: if_splits)
  next
    case (EvAcknowledge k e)
    obtain x d' where u: "results_update m e (acknowledge_fn k) d = (x, d')" by (metis surj_pair)
    then show ?thesis using EvAcknowledge assms(4) acknowledge_kept [OF u assms(3)] by (auto simp: worker_step_def)
  qed (use assms(1) in simp_all)
qed

lemma results_update_idle: "\<not> mnDurable m \<Longrightarrow> results_update m e fn d = (None, d)"
  by (simp add: results_update_def)

lemma start_step_kept:
  assumes "receipts_inv (m, d)" "mget (records_of d) fresh = None" "worker_step opts redact (EvStart origin now fresh e role prompt) (m, d) = (ts, sys')"
  shows "receipts_kept d (snd sys') \<and> written_once sys'"
proof -
  have w: "written_once (m, d)" and nd: "\<not> mnDurable m \<Longrightarrow> records_of d = []" using assms(1) by (simp_all add: receipts_inv_def)
  define adm where "adm = dropWhile (\<lambda>t. \<not> t > now - Hour) (mnAdmissions m)"
  define m2 where "m2 = m\<lparr>mnAdmissions := adm @ [now], mnSeq := mnSeq m + 1\<rparr>"
  define wk where "wk = new_worker (newID m2 fresh) role prompt now"
  obtain x d' where u: "results_update m2 e (queued_fn redact m2 wk) d = (x, d')" by (metis surj_pair)
  have "mget (records_of d) (wkID wk) = None"
    using assms(2) nd by (cases "mnDurable m") (simp_all add: wk_def new_worker_def newID_def m2_def)
  from start_kept [OF u w _ this] have k: "receipts_kept d d' \<and> written_once (m, d') \<and> written_once (put_worker wk m2, d')"
    by (simp add: m2_def)
  have same: "written_once (m\<lparr>mnAdmissions := a\<rparr>, d1) = written_once (m, d1)" "written_once (m2\<lparr>mnAdmissions := a\<rparr>, d1) = written_once (m, d1)" for a d1
    by (rule written_once_cong, simp add: m2_def)+
  show ?thesis
  proof (cases "origin = None \<and> TrimSpace prompt \<noteq> '''' \<and> \<not> mnClosed m \<and> mnLifetime m = None \<and> mnRunner m")
    case False
    then have "sys' = (m, d)" using assms(3) by (cases origin) (auto simp: worker_step_def StartContext_def split: if_splits)
    then show ?thesis using w by (simp add: receipts_kept_refl)
  next
    case True
    then have "sys' = (if length adm \<ge> mnHourlyLimit m then (m\<lparr>mnAdmissions := adm\<rparr>, d)
        else case x of Some y \<Rightarrow> (m2\<lparr>mnAdmissions := adm\<rparr>, d') | None \<Rightarrow> (put_worker wk m2, d'))"
      using assms(3) u [unfolded wk_def m2_def]
      by (cases x) (auto simp: worker_step_def StartContext_def adm_def [symmetric] Let_def m2_def wk_def split: if_splits)
    then show ?thesis using k w by (cases x) (auto simp: receipts_kept_refl same)
  qed
qed

lemma StartContext_idle:
  "StartContext redact origin now fresh e role prompt (m, d) = (r, m', d') \<Longrightarrow> \<not> mnDurable m \<Longrightarrow> \<not> mnDurable m' \<and> d' = d"
  by (auto simp: StartContext_def results_update_idle Let_def split: option.splits if_splits)

lemma worker_step_durable:
  "worker_step opts redact ev (m, d) = (ts, (m', d')) \<Longrightarrow> worker_inv (m, d) \<Longrightarrow> \<not> mnDurable m \<Longrightarrow> \<not> mnDurable m' \<and> d' = d"
proof -
  assume s: "worker_step opts redact ev (m, d) = (ts, (m', d'))" and inv: "worker_inv (m, d)" and nd: "\<not> mnDurable m"
  show ?thesis
  proof (cases "quiet ev")
    case True
    from quiet_step [OF True inv s] nd have "\<not> mnDurable m'" by (simp add: calm_def)
    moreover have "d' = d"
      using s nd True by (cases ev) (auto simp: worker_step_def on_worker_def persist_worker_def SealWorkers_def Let_def results_update_def CancelAll_def
          split: option.splits if_splits prod.splits)
    ultimately show ?thesis by simp
  next
    case False
    show ?thesis
    proof (cases ev)
      case (EvStart origin now fresh e role prompt)
      obtain r m1 d1 where c: "StartContext redact origin now fresh e role prompt (m, d) = (r, m1, d1)" by (metis prod_cases3)
      then have "m' = m1 \<and> d' = d1" using s EvStart by (cases r) (simp_all add: worker_step_def)
      then show ?thesis using StartContext_idle [OF c nd] by simp
    qed (use s nd False in \<open>auto simp: worker_step_def\<close>)
  qed
qed

lemma start_step_inv:
  assumes "worker_inv (m, d)" "worker_step opts redact (EvStart origin now fresh e role prompt) (m, d) = (ts, (m', d'))"
  shows "worker_inv (m', d') \<and> mnDurable m' = mnDurable m"
proof -
  have inv: "slots_ok m" "receipts_ok d" using assms(1) by (simp_all add: worker_inv_def)
  define adm where "adm = dropWhile (\<lambda>t. \<not> t > now - Hour) (mnAdmissions m)"
  define m2 where "m2 = m\<lparr>mnAdmissions := adm @ [now], mnSeq := mnSeq m + 1\<rparr>"
  define wk where "wk = new_worker (newID m2 fresh) role prompt now"
  obtain x d1 where u: "results_update m2 e (queued_fn redact m2 wk) d = (x, d1)" by (metis surj_pair)
  have rec: "receipts_ok d1" by (rule receipts_results_update [OF u inv(2)]) (rule fn_receipts(1))
  have "slots_ok m2" using inv(1) by (simp add: slots_ok_def m2_def)
  then have slots: "slots_ok (put_worker wk m2)" "slots_ok (m2\<lparr>mnAdmissions := adm\<rparr>)" "slots_ok (m\<lparr>mnAdmissions := adm\<rparr>)"
    using inv(1) slots_new_worker unfolding wk_def by (simp_all add: slots_ok_def)
  have "(m', d') = (m, d) \<or> (m', d') = (m\<lparr>mnAdmissions := adm\<rparr>, d) \<or> (m', d') = (m2\<lparr>mnAdmissions := adm\<rparr>, d1) \<or> (m', d') = (put_worker wk m2, d1)"
    using assms(2) u [unfolded wk_def m2_def]
    by (cases origin; cases x) (auto simp: worker_step_def StartContext_def adm_def [symmetric] Let_def m2_def wk_def split: if_splits)
  then show ?thesis using inv rec slots by (auto simp: worker_inv_def m2_def)
qed

lemma worker_step_receipts:
  assumes "receipts_inv (m, d)" "fresh_event ev (m, d)" "worker_step opts redact ev (m, d) = (ts, (m', d'))"
  shows "receipts_kept d d' \<and> receipts_inv (m', d')"
proof -
  have inv: "worker_inv (m, d)" "written_once (m, d)" using assms(1) by (simp_all add: receipts_inv_def)
  have idle: "\<not> mnDurable m' \<Longrightarrow> records_of d' = []" if "mnDurable m \<Longrightarrow> mnDurable m'"
    using that worker_step_durable [OF assms(3) inv(1)] assms(1) by (auto simp: receipts_inv_def)
  show ?thesis
  proof (cases "quiet ev")
    case True
    then show ?thesis using quiet_step [OF True inv(1) assms(3)] quiet_step_kept [OF True inv assms(3)] idle
      by (simp add: receipts_inv_def calm_def)
  next
    case False
    show ?thesis
    proof (cases ev)
      case (EvStart origin now fresh e role prompt)
      have k: "receipts_kept d d' \<and> written_once (m', d')"
        using start_step_kept [OF assms(1) _ assms(3) [unfolded EvStart]] assms(2) EvStart by simp
      note start_step_inv [OF inv(1) assms(3) [unfolded EvStart]]
      then show ?thesis using k idle by (simp add: receipts_inv_def)
    next
      case (EvReopen e now)
      show ?thesis
      proof (cases "mnDurable m")
        case False
        then show ?thesis using EvReopen assms by (auto simp: worker_step_def receipts_kept_refl)
      next
        case True
        obtain res d1 where n: "NewDurable opts None e now d = (res, d1)" by (metis surj_pair)
        have "receipts_ok d" using inv by (simp add: worker_inv_def)
        note r = reopen_step_inv [OF n this]
        have "(m', d') = (case res of Inr m \<Rightarrow> (m, d1) | Inl x \<Rightarrow> (dead_manager m, d1))"
          using EvReopen assms(3) True n by (cases res; simp add: worker_step_def)
        then show ?thesis using r reopen_kept [OF n, of m'] True
          by (cases res) (auto simp: receipts_inv_def worker_inv_def dead_manager_def slots_ok_def written_once_def)
      qed
    qed (use False in simp_all)
  qed
qed

lemma worker_run_receipts:
  "worker_run opts redact evs sys = (ts, sys') \<Longrightarrow> receipts_inv sys \<Longrightarrow> fresh_run opts redact evs sys
     \<Longrightarrow> receipts_kept (snd sys) (snd sys') \<and> receipts_inv sys'"
proof (induction evs arbitrary: sys ts)
  case Nil
  then show ?case by (simp add: receipts_kept_refl)
next
  case (Cons ev evs)
  obtain m d where sys: "sys = (m, d)" by (cases sys)
  obtain us m1 d1 where s: "worker_step opts redact ev (m, d) = (us, (m1, d1))" by (metis prod_cases3)
  obtain vs where r: "worker_run opts redact evs (m1, d1) = (vs, sys')" using Cons.prems(1) s sys by (auto split: prod.splits)
  have k: "receipts_kept d d1 \<and> receipts_inv (m1, d1)"
    using worker_step_receipts [OF _ _ s] Cons.prems(2,3) sys by simp
  with Cons.IH [OF r] Cons.prems(3) s sys show ?case by (auto intro: receipts_kept_trans)
qed

lemma worker_start_receipts: "worker_start opts sys \<Longrightarrow> receipts_inv sys"
proof -
  assume s: "worker_start opts sys"
  have inv: "worker_inv sys" using worker_start_quota [OF s] by (simp add: quota_inv_def)
  from s consider "sys = (NewWithOptions opts, Absent)" | e now m d where "NewDurable opts None e now Absent = (Inr m, d)" "sys = (m, d)"
    by (auto simp: worker_start_def)
  then show ?thesis
  proof cases
    case 1
    then show ?thesis using inv by (simp add: receipts_inv_def written_once_def)
  next
    case 2
    have "receipts_ok Absent" by (simp add: receipts_ok_def no_results_def)
    note r = reopen_step_inv [OF 2(1) this]
    then show ?thesis using inv 2(2) reopen_kept [OF 2(1), of m] by (simp add: receipts_inv_def)
  qed
qed

text \<open>A worker's result is written once and notified until it is settled: over any history of a durable manager, crashes
  and failed writes included, a receipt never disappears; once its worker has ended its status, result and error never
  change; and after an acknowledgement or a revocation it is never pending again. New workers are taken to
  have unused identifiers.\<close>

theorem worker_receipts_are_final:
  assumes "worker_start opts sys0" and "worker_run opts redact evs0 sys0 = (ts0, sys)" and "fresh_run opts redact evs0 sys0"
    and "worker_run opts redact evs sys = (ts, sys')" and "fresh_run opts redact evs sys"
    and "mget (records_of (snd sys)) k = Some r"
  shows "\<exists>r'. mget (records_of (snd sys')) k = Some r' \<and> receipt_kept r r'
     \<and> (rcAcknowledged r \<or> rcRevoked r \<longrightarrow> \<not> pending_receipt r')"
proof -
  have "receipts_inv sys" using worker_run_receipts [OF assms(2) worker_start_receipts [OF assms(1)] assms(3)] by simp
  from worker_run_receipts [OF assms(4) this assms(5)] assms(6)
  obtain r' where "mget (records_of (snd sys')) k = Some r'" "receipt_kept r r'" by (auto simp: receipts_kept_def)
  then show ?thesis by (auto simp: receipt_kept_def pending_receipt_def)
qed

text \<open>A worker that was admitted, run to its end, acknowledged, and whose manager was then replaced.\<close>

lemma demo_open:
  "\<exists>m. NewDurable demo_options None io_ok 0 Absent = (Inr m, Holds (no_results\<lparr>wsSession := ''s'', wsPrincipal := ''p''\<rparr>))
     \<and> mnDurable m \<and> mnWorkers m = [] \<and> \<not> mnClosed m \<and> mnLifetime m = None \<and> mnRunner m \<and> mnAdmissions m = [] \<and> mnHourlyLimit m = 1 \<and> mnSeq m = 0"
  by (simp add: NewDurable_def demo_options_def open_results_fn_def no_results_def NewWithOptions_def)

lemma worker_receipts_are_final_witness:
  "\<exists>sys r'. snd (worker_run demo_options id [EvSlot ''w1'' 1, EvReturn ''w1'' (RunReturned ''done'' None), EvSettle ''w1'' 2, EvPersist ''w1'' io_ok,
       EvAcknowledge ''w1'' io_ok, EvReopen io_ok 3]
     (snd (worker_run demo_options id [EvStart None 0 ''w1'' io_ok ''r'' ''p''] sys))) = r'
     \<and> (\<exists>r. mget (records_of (snd r')) ''w1'' = Some r \<and> rcRole r = ''r'')"
proof -
  let ?evs = "[EvSlot ''w1'' 1, EvReturn ''w1'' (RunReturned ''done'' None), EvSettle ''w1'' 2, EvPersist ''w1'' io_ok,
       EvAcknowledge ''w1'' io_ok, EvReopen io_ok 3]"
  let ?d = "Holds (no_results\<lparr>wsSession := ''s'', wsPrincipal := ''p''\<rparr>)"
  obtain m where m: "NewDurable demo_options None io_ok 0 Absent = (Inr m, ?d)" "mnDurable m" "mnWorkers m = []" "\<not> mnClosed m" "mnLifetime m = None"
      "mnRunner m" "mnAdmissions m = []" "mnHourlyLimit m = 1" "mnSeq m = 0" using demo_open by blast
  have start: "worker_start demo_options (m, ?d)" using m(1) by (auto simp: worker_start_def)
  have trim: "TrimSpace ''p'' \<noteq> ''''" by code_simp
  obtain ts0 sys where r0: "worker_run demo_options id [EvStart None 0 ''w1'' io_ok ''r'' ''p''] (m, ?d) = (ts0, sys)" by (metis surj_pair)
  then have rec: "\<exists>r. mget (records_of (snd sys)) ''w1'' = Some r \<and> rcRole r = ''r''"
    using m trim by (auto simp: worker_step_def StartContext_def results_update_def queued_fn_def Let_def newID_def new_worker_def put_worker_def no_results_def)
  have f0: "fresh_run demo_options id [EvStart None 0 ''w1'' io_ok ''r'' ''p''] (m, ?d)" by (simp add: no_results_def)
  obtain ts sys' where r1: "worker_run demo_options id ?evs sys = (ts, sys')" by (metis surj_pair)
  have f1: "fresh_run demo_options id ?evs sys" by simp
  from rec obtain r where "mget (records_of (snd sys)) ''w1'' = Some r" "rcRole r = ''r''" by blast
  with worker_receipts_are_final [OF start r0 f0 r1 f1 this(1)]
  have "\<exists>r. mget (records_of (snd sys')) ''w1'' = Some r \<and> rcRole r = ''r''" by (auto simp: receipt_kept_def)
  then have "snd (worker_run demo_options id ?evs (snd (worker_run demo_options id [EvStart None 0 ''w1'' io_ok ''r'' ''p''] (m, ?d)))) = sys'
      \<and> (\<exists>r. mget (records_of (snd sys')) ''w1'' = Some r \<and> rcRole r = ''r'')"
    unfolding r0 snd_conv r1 by simp
  then show ?thesis by (intro exI [of _ "(m, ?d)"] exI [of _ sys']) assumption
qed

end
