(* ===== verification/Facts.thy ===== *)
theory Facts
  imports Durable "HOL-Library.Word"
begin

section \<open>Long-term memory: facts and their evidence\<close>

text \<open>
  \<open>internal/memory/backend.go\<close> and \<open>sanitizeDream\<close> of \<open>dream.go\<close>. Facts are kept in one durable file, in the order in which they were
  accepted; each is about a subject and attribute of a scope. The library record holds the digest of a list of
  strings (JSON and SHA-256), the JSON key of a list of strings, and what the regular expressions replace. The extractor,
  a paid model call, is the argument \<open>extract\<close>.
\<close>

subsection \<open>Data\<close>

record evidence =
  evID :: string
  evKind :: string
  evText :: string
  evObservedAt :: instant

record scope =
  scRepo :: string
  scUser :: string

record candidate =
  cdSubject :: string
  cdAttribute :: string
  cdValue :: string
  cdEvidence :: "string list"

record fact =
  fcID :: string
  fcSubject :: string
  fcAttribute :: string
  fcValue :: string
  fcStatus :: string
  fcScope :: scope
  fcSources :: "evidence list"
  fcRevision :: "64 word"
  fcSupersedes :: string
  fcUpdatedAt :: instant

record fact_state =
  fsRevision :: "64 word"
  fsFacts :: "fact list"
  fsSessions :: "bool gomap"

definition no_facts :: fact_state where
  "no_facts = \<lparr>fsRevision = 0, fsFacts = [], fsSessions = []\<rparr>"

definition ErrRevision :: gerr where
  "ErrRevision = Msg ''memory revision conflict''"

datatype secret_pattern = SkKey | ApiKeyField | BearerHeader | CredentialField

record memory_lib =
  mlDigest :: "string list \<Rightarrow> string"
  mlKey :: "string list \<Rightarrow> string"
  mlRedact :: "secret_pattern \<Rightarrow> string \<Rightarrow> string"

definition sanitizeDream :: "memory_lib \<Rightarrow> string \<Rightarrow> string" where
  "sanitizeDream lib v = foldl (\<lambda>v p. mlRedact lib p v) v [SkKey, ApiKeyField, BearerHeader, CredentialField]"

definition factKey :: "memory_lib \<Rightarrow> scope \<Rightarrow> string \<Rightarrow> string \<Rightarrow> string" where
  "factKey lib sc subject attribute =
     mlDigest lib [scRepo sc, scUser sc, ToLower (TrimSpace subject), ToLower (TrimSpace attribute)]"

definition fact_key :: "memory_lib \<Rightarrow> fact \<Rightarrow> string" where
  "fact_key lib f = factKey lib (fcScope f) (fcSubject f) (fcAttribute f)"

definition rank :: "evidence \<Rightarrow> nat" where
  "rank e = (if evKind e = ''user_confirmed'' then 3 else if evKind e = ''workspace_verified'' then 2
     else if evKind e = ''conversation'' then 1 else 0)"

definition authority :: "evidence list \<Rightarrow> nat" where
  "authority sources = foldl (\<lambda>n e. max n (rank e)) 0 sources"

subsection \<open>Applying candidates\<close>

fun collect_refs :: "memory_lib \<Rightarrow> evidence gomap \<Rightarrow> string list \<Rightarrow> evidence list \<Rightarrow> gerr + evidence list" where
  "collect_refs lib sources [] refs = Inr refs"
| "collect_refs lib sources (i # ids) refs =
     (case mget sources i of
        None \<Rightarrow> Inl (Errorf ''unknown memory evidence %q'' [i])
      | Some e \<Rightarrow> collect_refs lib sources ids (refs @ [e\<lparr>evText := sanitizeDream lib (evText e)\<rparr>]))"

fun last_index :: "('a \<Rightarrow> bool) \<Rightarrow> nat \<Rightarrow> 'a list \<Rightarrow> nat option \<Rightarrow> nat option" where
  "last_index p i [] r = r"
| "last_index p i (x # xs) r = last_index p (Suc i) xs (if p x then Some i else r)"

definition add_sources :: "evidence list \<Rightarrow> evidence list \<Rightarrow> evidence list" where
  "add_sources refs old = foldl (\<lambda>ss r. if \<exists>s \<in> set ss. evID s = evID r then ss else ss @ [r]) old refs"

definition active_for :: "memory_lib \<Rightarrow> string \<Rightarrow> fact \<Rightarrow> bool" where
  "active_for lib key f \<longleftrightarrow> fact_key lib f = key \<and> fcStatus f = ''active''"

definition append_fact ::
  "string \<Rightarrow> scope \<Rightarrow> instant \<Rightarrow> candidate \<Rightarrow> evidence list \<Rightarrow> string \<Rightarrow> string \<Rightarrow> fact_state \<Rightarrow> fact_state" where
  "append_fact key sc now c refs status supersedes st =
     (let rev = fsRevision st + 1 in
      st\<lparr>fsRevision := rev, fsFacts := fsFacts st @
        [\<lparr>fcID = key @ ''-'' @ Itoa (unat rev), fcSubject = cdSubject c, fcAttribute = cdAttribute c, fcValue = cdValue c,
          fcStatus = status, fcScope = sc, fcSources = refs, fcRevision = rev, fcSupersedes = supersedes, fcUpdatedAt = now\<rparr>]\<rparr>)"

definition put_fact :: "memory_lib \<Rightarrow> scope \<Rightarrow> instant \<Rightarrow> candidate \<Rightarrow> evidence list \<Rightarrow> fact_state \<Rightarrow> fact_state" where
  "put_fact lib sc now c refs st =
     (let key = factKey lib sc (cdSubject c) (cdAttribute c);
          status = (if authority refs = 0 then ''pending'' else ''active'')
      in (case last_index (active_for lib key) 0 (fsFacts st) None of
            None \<Rightarrow> append_fact key sc now c refs status '''' st
          | Some i \<Rightarrow>
             (let old = fsFacts st ! i in
              if fcValue old = cdValue c then
                st\<lparr>fsFacts := (fsFacts st)[i := old\<lparr>fcSources := add_sources refs (fcSources old), fcUpdatedAt := now\<rparr>]\<rparr>
              else if authority refs < authority (fcSources old) then append_fact key sc now c refs ''pending'' '''' st
              else if status = ''active'' then
                append_fact key sc now c refs status (fcID old) (st\<lparr>fsFacts := (fsFacts st)[i := old\<lparr>fcStatus := ''superseded''\<rparr>]\<rparr>)
              else append_fact key sc now c refs status '''' st)))"

definition trimmed :: "candidate \<Rightarrow> candidate" where
  "trimmed c = c\<lparr>cdSubject := TrimSpace (cdSubject c), cdAttribute := TrimSpace (cdAttribute c), cdValue := TrimSpace (cdValue c)\<rparr>"

definition acceptable :: "memory_lib \<Rightarrow> string \<Rightarrow> string \<Rightarrow> string \<Rightarrow> bool" where
  "acceptable lib subject attribute v \<longleftrightarrow> subject \<noteq> '''' \<and> attribute \<noteq> '''' \<and> v \<noteq> '''' \<and> length v \<le> 4096
     \<and> sanitizeDream lib (subject @ attribute @ v) = subject @ attribute @ v"

definition apply_candidate ::
  "memory_lib \<Rightarrow> scope \<Rightarrow> evidence gomap \<Rightarrow> instant \<Rightarrow> candidate \<Rightarrow> fact_state \<Rightarrow> gerr + fact_state" where
  "apply_candidate lib sc sources now c0 st =
     (let c = trimmed c0 in
      if \<not> acceptable lib (cdSubject c) (cdAttribute c) (cdValue c) then Inl (Msg ''invalid or sensitive memory candidate'')
      else (case collect_refs lib sources (cdEvidence c) [] of
              Inl e \<Rightarrow> Inl e
            | Inr refs \<Rightarrow> if refs = [] then Inl (Msg ''memory evidence required'') else Inr (put_fact lib sc now c refs st)))"

text \<open>\<open>clock n\<close> is the time read for the \<open>n\<close>-th candidate.\<close>

fun applyFacts ::
  "memory_lib \<Rightarrow> scope \<Rightarrow> evidence gomap \<Rightarrow> (nat \<Rightarrow> instant) \<Rightarrow> nat \<Rightarrow> candidate list \<Rightarrow> fact_state \<Rightarrow> gerr + fact_state" where
  "applyFacts lib sc sources clock n [] st = Inr (st\<lparr>fsRevision := fsRevision st + 1\<rparr>)"
| "applyFacts lib sc sources clock n (c # cs) st =
     (case apply_candidate lib sc sources (clock n) c st of
        Inl e \<Rightarrow> Inl e
      | Inr st' \<Rightarrow> applyFacts lib sc sources clock (Suc n) cs st')"

subsection \<open>The operations of the backend\<close>

definition source_map :: "evidence list \<Rightarrow> evidence gomap" where
  "source_map es = foldl (\<lambda>m e. mput (evID e) e m) [] es"

definition upsert_fn ::
  "memory_lib \<Rightarrow> (nat \<Rightarrow> instant) \<Rightarrow> scope \<Rightarrow> candidate list \<Rightarrow> evidence list \<Rightarrow> (64 word) option \<Rightarrow> (fact_state, unit) callback" where
  "upsert_fn lib clock sc cs es expected st =
     (if expected \<noteq> None \<and> expected \<noteq> Some (fsRevision st) then ((), Inl ErrRevision)
      else ((), applyFacts lib sc (source_map es) clock 0 cs st))"

definition facts_update :: "io \<Rightarrow> (fact_state, unit) callback \<Rightarrow> fact_state content \<Rightarrow> gerr option \<times> fact_state content" where
  "facts_update e fn d = (case file_update no_facts e () fn d of ((_, x), d') \<Rightarrow> (x, d'))"

definition Upsert ::
  "memory_lib \<Rightarrow> io \<Rightarrow> (nat \<Rightarrow> instant) \<Rightarrow> scope \<Rightarrow> candidate list \<Rightarrow> evidence list \<Rightarrow> (64 word) option
     \<Rightarrow> fact_state content \<Rightarrow> gerr option \<times> fact_state content" where
  "Upsert lib e clock sc cs es expected d =
     (if scRepo sc = '''' \<or> scUser sc = '''' then (Some (Msg ''explicit memory scope required''), d)
      else facts_update e (upsert_fn lib clock sc cs es expected) d)"

definition store_fact_fn ::
  "memory_lib \<Rightarrow> (nat \<Rightarrow> instant) \<Rightarrow> scope \<Rightarrow> string \<Rightarrow> candidate list \<Rightarrow> evidence list \<Rightarrow> (fact_state, unit) callback" where
  "store_fact_fn lib clock sc key cs es st =
     (if mget (fsSessions st) key = Some True then ((), Inr st)
      else (case applyFacts lib sc (source_map es) clock 0 cs st of
              Inl e \<Rightarrow> ((), Inl e)
            | Inr st' \<Rightarrow> ((), Inr (st'\<lparr>fsSessions := mput key True (fsSessions st')\<rparr>))))"

text \<open>
  \<open>seen\<close> is the file when it is read first; other writers may change it to \<open>d\<close> while the extractor runs.
  \<open>extract\<close> is absent when no extractor is configured. The result says whether it was called.
\<close>

definition store_key :: "memory_lib \<Rightarrow> scope \<Rightarrow> string \<Rightarrow> string" where
  "store_key lib sc turn = mlKey lib [scRepo sc, scUser sc, turn]"

definition fact_Store ::
  "memory_lib \<Rightarrow> io \<Rightarrow> io \<Rightarrow> (nat \<Rightarrow> instant) \<Rightarrow> (evidence list \<Rightarrow> gerr + candidate list) option \<Rightarrow> scope \<Rightarrow> string \<Rightarrow> evidence list
     \<Rightarrow> fact_state content \<Rightarrow> fact_state content \<Rightarrow> (gerr option \<times> bool) \<times> fact_state content" where
  "fact_Store lib er ew clock extract sc turn es seen d =
     (if scRepo sc = '''' \<or> scUser sc = '''' \<or> turn = '''' then ((Some (Msg ''explicit memory scope and turn required''), False), d)
      else (case file_read no_facts er seen of
          (_, Some x) \<Rightarrow> ((Some x, False), d)
        | (st, None) \<Rightarrow>
           (let key = store_key lib sc turn in
            if mget (fsSessions st) key = Some True then ((None, False), d)
            else (case extract of
                None \<Rightarrow> ((None, False), d)
              | Some ex \<Rightarrow>
                 (case ex es of
                    Inl x \<Rightarrow> ((Some x, True), d)
                  | Inr cs \<Rightarrow> (case facts_update ew (store_fact_fn lib clock sc key cs es) d of (x, d') \<Rightarrow> ((x, True), d')))))))"

fun invalidate_facts :: "string \<Rightarrow> scope \<Rightarrow> fact list \<Rightarrow> fact list option" where
  "invalidate_facts i sc [] = None"
| "invalidate_facts i sc (f # fs) =
     (if fcID f = i \<and> fcScope f = sc then Some (f\<lparr>fcStatus := ''invalidated''\<rparr> # fs)
      else map_option (\<lambda>r. f # r) (invalidate_facts i sc fs))"

definition invalidate_fn :: "scope \<Rightarrow> string \<Rightarrow> (fact_state, unit) callback" where
  "invalidate_fn sc i st =
     (case invalidate_facts i sc (fsFacts st) of
        None \<Rightarrow> ((), Inl (Msg ''fact not found in scope''))
      | Some fs \<Rightarrow> ((), Inr (st\<lparr>fsFacts := fs, fsRevision := fsRevision st + 1\<rparr>)))"

definition Invalidate :: "io \<Rightarrow> scope \<Rightarrow> string \<Rightarrow> fact_state content \<Rightarrow> gerr option \<times> fact_state content" where
  "Invalidate e sc i d = facts_update e (invalidate_fn sc i) d"

definition recall_score :: "string list \<Rightarrow> fact \<Rightarrow> nat" where
  "recall_score words f =
     length (filter (\<lambda>w. Contains (ToLower (fcSubject f @ '' '' @ fcAttribute f @ '' '' @ fcValue f)) w) words)"

text \<open>A stable sort by descending score of the list sorted by descending revision: ties go to the later revision.\<close>

definition Recall :: "io \<Rightarrow> scope \<Rightarrow> string \<Rightarrow> int \<Rightarrow> fact_state content \<Rightarrow> gerr + fact list" where
  "Recall e sc query limit0 d =
     (case file_read no_facts e d of
        (_, Some x) \<Rightarrow> Inl x
      | (st, None) \<Rightarrow>
         (let limit = (if limit0 \<le> 0 then 5 else limit0);
              words = fields_by (\<lambda>c. \<not> is_space c) (ToLower query) '''';
              matches = filter (\<lambda>f. fcScope f = sc \<and> fcStatus f = ''active'' \<and> (recall_score words f > 0 \<or> query = '''')) (fsFacts st)
          in Inr (take (nat limit) (sort_key (\<lambda>f. - int (recall_score words f)) (sort_key (\<lambda>f. - uint (fcRevision f)) matches)))))"

subsection \<open>Histories\<close>

datatype memory_op =
    MUpsert io "nat \<Rightarrow> instant" scope "candidate list" "evidence list" "(64 word) option"
  | MStore io io "nat \<Rightarrow> instant" "(evidence list \<Rightarrow> gerr + candidate list) option" scope string "evidence list" "fact_state content"
  | MInvalidate io scope string

definition memory_step :: "memory_lib \<Rightarrow> fact_state content \<Rightarrow> memory_op \<Rightarrow> fact_state content" where
  "memory_step lib d x =
     (case x of
        MUpsert e clock sc cs es expected \<Rightarrow> snd (Upsert lib e clock sc cs es expected d)
      | MStore er ew clock extract sc turn es seen \<Rightarrow> snd (fact_Store lib er ew clock extract sc turn es seen d)
      | MInvalidate e sc i \<Rightarrow> snd (Invalidate e sc i d))"

definition memory_run :: "memory_lib \<Rightarrow> memory_op list \<Rightarrow> fact_state content \<Rightarrow> fact_state content" where
  "memory_run lib xs d = foldl (memory_step lib) d xs"

subsection \<open>Authority and the active fact of a key\<close>

lemma authority_snoc [simp]: "authority (es @ [e]) = max (authority es) (rank e)"
  by (simp add: authority_def)

lemma authority_append: "authority es \<le> authority (es @ fs)"
proof (induction fs rule: rev_induct)
  case (snoc e fs)
  have "es @ fs @ [e] = (es @ fs) @ [e]" by simp
  then show ?case using snoc authority_snoc [of "es @ fs" e] by simp
qed simp

lemma add_sources_append: "\<exists>r. add_sources refs old = old @ r"
proof (induction refs rule: rev_induct)
  case (snoc x refs)
  then show ?case by (auto simp: add_sources_def)
qed (simp add: add_sources_def)

lemma last_index_None: "last_index p n xs r = None \<longleftrightarrow> r = None \<and> (\<forall>x \<in> set xs. \<not> p x)"
  by (induction p n xs r rule: last_index.induct) auto

lemma last_index_Some:
  "last_index p n xs r = Some i \<Longrightarrow> r = Some i \<or> n \<le> i \<and> i - n < length xs \<and> p (xs ! (i - n))"
proof (induction p n xs r rule: last_index.induct)
  case (2 p n x xs r)
  then have "(if p x then Some n else r) = Some i \<or> Suc n \<le> i \<and> i - Suc n < length xs \<and> p (xs ! (i - Suc n))"
    by simp
  then show ?case by (cases "i - n") (auto split: if_splits simp: Suc_diff_Suc diff_Suc split: nat.splits)
qed simp

lemma previous_fact:
  assumes "last_index p 0 xs None = Some i"
  shows "i < length xs" "p (xs ! i)"
  using last_index_Some [OF assms] by simp_all

lemma collect_refs_sanitized:
  "collect_refs lib sources ids refs = Inr out \<Longrightarrow>
     \<exists>es. out = refs @ map (\<lambda>e. e\<lparr>evText := sanitizeDream lib (evText e)\<rparr>) es \<and> (\<forall>e \<in> set es. \<exists>i. mget sources i = Some e)"
proof (induction lib sources ids refs rule: collect_refs.induct)
  case (2 lib sources i ids refs)
  then obtain e where e: "mget sources i = Some e"
    "collect_refs lib sources ids (refs @ [e\<lparr>evText := sanitizeDream lib (evText e)\<rparr>]) = Inr out"
    by (auto split: option.splits)
  obtain es where "out = (refs @ [e\<lparr>evText := sanitizeDream lib (evText e)\<rparr>]) @ map (\<lambda>e. e\<lparr>evText := sanitizeDream lib (evText e)\<rparr>) es"
      "\<forall>e \<in> set es. \<exists>i. mget sources i = Some e"
    using "2.IH" [OF e] by blast
  then show ?case using e(1) by (intro exI [of _ "e # es"]) auto
qed simp

subsection \<open>What a change of the facts keeps\<close>

definition same_fact :: "fact \<Rightarrow> fact \<Rightarrow> bool" where
  "same_fact f g \<longleftrightarrow> fcID g = fcID f \<and> fcSubject g = fcSubject f \<and> fcAttribute g = fcAttribute f \<and> fcValue g = fcValue f
     \<and> fcScope g = fcScope f \<and> fcRevision g = fcRevision f \<and> (\<exists>r. fcSources g = fcSources f @ r)"

definition extends :: "fact list \<Rightarrow> fact list \<Rightarrow> bool" where
  "extends fs gs \<longleftrightarrow> length fs \<le> length gs \<and> (\<forall>i < length fs. same_fact (fs ! i) (gs ! i))"

definition as_strong :: "memory_lib \<Rightarrow> fact list \<Rightarrow> fact list \<Rightarrow> bool" where
  "as_strong lib fs gs \<longleftrightarrow> (\<forall>k. \<forall>f \<in> set fs. active_for lib k f \<longrightarrow>
     (\<exists>g \<in> set gs. active_for lib k g \<and> authority (fcSources f) \<le> authority (fcSources g)))"

lemma same_fact_refl [simp]: "same_fact f f"
  by (simp add: same_fact_def)

lemma same_fact_trans: "same_fact f g \<Longrightarrow> same_fact g h \<Longrightarrow> same_fact f h"
  by (auto simp: same_fact_def)

lemma same_fact_key: "same_fact f g \<Longrightarrow> fact_key lib g = fact_key lib f"
  by (simp add: same_fact_def fact_key_def)

lemma same_fact_authority: "same_fact f g \<Longrightarrow> authority (fcSources f) \<le> authority (fcSources g)"
  using authority_append by (auto simp: same_fact_def)

lemma extends_refl [simp]: "extends fs fs"
  by (simp add: extends_def)

lemma extends_trans: "extends fs gs \<Longrightarrow> extends gs hs \<Longrightarrow> extends fs hs"
  by (auto simp: extends_def intro: same_fact_trans)

lemma extends_snoc: "extends fs gs \<Longrightarrow> extends fs (gs @ [g])"
  by (auto simp: extends_def nth_append)

lemma extends_update: "same_fact (fs ! i) g \<Longrightarrow> extends fs (fs[i := g])"
  unfolding extends_def by (metis same_fact_refl length_list_update nth_list_update_eq nth_list_update_neq order_refl)

lemma as_strong_refl [simp]: "as_strong lib fs fs"
  by (auto simp: as_strong_def)

lemma as_strong_trans: "as_strong lib fs gs \<Longrightarrow> as_strong lib gs hs \<Longrightarrow> as_strong lib fs hs"
  by (simp add: as_strong_def) (meson order_trans)

lemma as_strong_snoc: "as_strong lib fs gs \<Longrightarrow> as_strong lib fs (gs @ [g])"
  by (auto simp: as_strong_def)

text \<open>A fact that is replaced by one at least as strong under its key, in its place or after it.\<close>

lemma as_strong_update:
  assumes "i < length fs"
    and "active_for lib (fact_key lib (fs ! i)) (fs ! i) \<longrightarrow>
      (\<exists>g \<in> set (fs[i := f'] @ new). active_for lib (fact_key lib (fs ! i)) g \<and> authority (fcSources (fs ! i)) \<le> authority (fcSources g))"
  shows "as_strong lib fs (fs[i := f'] @ new)"
  unfolding as_strong_def
proof (intro allI ballI impI)
  fix k f
  assume f: "f \<in> set fs" "active_for lib k f"
  then obtain j where j: "j < length fs" "f = fs ! j" by (metis in_set_conv_nth)
  show "\<exists>g \<in> set (fs[i := f'] @ new). active_for lib k g \<and> authority (fcSources f) \<le> authority (fcSources g)"
  proof (cases "j = i")
    case True
    then show ?thesis using assms(2) f(2) j(2) by (auto simp: active_for_def)
  next
    case False
    then have "f \<in> set (fs[i := f'])" using j by (metis length_list_update nth_list_update_neq nth_mem)
    then show ?thesis using f(2) by auto
  qed
qed

subsection \<open>The invariant of the store\<close>

definition good_fact :: "memory_lib \<Rightarrow> fact \<Rightarrow> bool" where
  "good_fact lib f \<longleftrightarrow> acceptable lib (fcSubject f) (fcAttribute f) (fcValue f) \<and> fcSources f \<noteq> []
     \<and> scRepo (fcScope f) \<noteq> '''' \<and> scUser (fcScope f) \<noteq> '''' \<and> (fcStatus f = ''active'' \<longrightarrow> authority (fcSources f) > 0)"

definition one_active :: "memory_lib \<Rightarrow> fact list \<Rightarrow> bool" where
  "one_active lib fs \<longleftrightarrow> (\<forall>i < length fs. \<forall>j < length fs. \<forall>k. active_for lib k (fs ! i) \<longrightarrow> active_for lib k (fs ! j) \<longrightarrow> i = j)"

definition facts_ok :: "memory_lib \<Rightarrow> fact list \<Rightarrow> bool" where
  "facts_ok lib fs \<longleftrightarrow> (\<forall>f \<in> set fs. good_fact lib f) \<and> one_active lib fs"

lemma facts_ok_Nil [simp]: "facts_ok lib []"
  by (simp add: facts_ok_def one_active_def)

lemma one_active_count: "one_active lib fs \<Longrightarrow> length (filter (active_for lib k) fs) \<le> 1"
proof -
  assume a: "one_active lib fs"
  have "card {i. i < length fs \<and> active_for lib k (fs ! i)} \<le> Suc 0"
    by (subst card_le_Suc0_iff_eq) (use a in \<open>auto simp: one_active_def\<close>)
  then show ?thesis by (simp add: length_filter_conv_card)
qed

lemma facts_ok_snoc:
  assumes "facts_ok lib fs" "good_fact lib g" "\<forall>f \<in> set fs. \<not> (active_for lib (fact_key lib g) f \<and> fcStatus g = ''active'')"
  shows "facts_ok lib (fs @ [g])"
  using assms by (auto simp: facts_ok_def one_active_def nth_append active_for_def less_Suc_eq)

text \<open>A fact may be replaced by one with its key that is active only if it was.\<close>

lemma facts_ok_update:
  assumes "facts_ok lib fs" "good_fact lib g" "i < length fs" "fact_key lib g = fact_key lib (fs ! i)"
    and "fcStatus g = ''active'' \<Longrightarrow> fcStatus (fs ! i) = ''active''"
  shows "facts_ok lib (fs[i := g])"
proof -
  have act: "active_for lib k (fs[i := g] ! j) \<Longrightarrow> j < length fs \<Longrightarrow> active_for lib k (fs ! j)" for j k
    using assms(3-5) by (cases "j = i") (auto simp: active_for_def)
  have "one_active lib (fs[i := g])"
    unfolding one_active_def length_list_update using act assms(1) by (meson facts_ok_def one_active_def)
  moreover have "\<forall>f \<in> set (fs[i := g]). good_fact lib f"
    using assms(1,2) set_update_subset_insert [of fs i g] by (auto simp: facts_ok_def)
  ultimately show ?thesis by (simp add: facts_ok_def)
qed

lemma append_fact_facts:
  "fsFacts (append_fact key sc now c refs status supersedes st) = fsFacts st @
     [\<lparr>fcID = key @ ''-'' @ Itoa (unat (fsRevision st + 1)), fcSubject = cdSubject c, fcAttribute = cdAttribute c, fcValue = cdValue c,
       fcStatus = status, fcScope = sc, fcSources = refs, fcRevision = fsRevision st + 1, fcSupersedes = supersedes, fcUpdatedAt = now\<rparr>]"
  by (simp add: append_fact_def Let_def)

lemma sessions_put [simp]: "fsSessions (put_fact lib sc now c refs st) = fsSessions st"
  by (simp add: put_fact_def append_fact_def Let_def split: option.split)

lemma put_fact_grows: "extends (fsFacts st) (fsFacts (put_fact lib sc now c refs st))"
proof (cases "last_index (active_for lib (factKey lib sc (cdSubject c) (cdAttribute c))) 0 (fsFacts st) None")
  case None
  then show ?thesis by (simp add: put_fact_def Let_def append_fact_facts extends_snoc)
next
  case (Some i)
  obtain r where "add_sources refs (fcSources (fsFacts st ! i)) = fcSources (fsFacts st ! i) @ r"
    using add_sources_append by blast
  then show ?thesis using Some
    by (auto simp: put_fact_def Let_def append_fact_facts intro!: extends_snoc extends_update) (simp_all add: same_fact_def)
qed

lemma put_fact_strong: "as_strong lib (fsFacts st) (fsFacts (put_fact lib sc now c refs st))"
proof (cases "last_index (active_for lib (factKey lib sc (cdSubject c) (cdAttribute c))) 0 (fsFacts st) None")
  case None
  then show ?thesis by (simp add: put_fact_def Let_def append_fact_facts as_strong_snoc)
next
  case (Some i)
  let ?key = "factKey lib sc (cdSubject c) (cdAttribute c)" and ?old = "fsFacts st ! i"
  note i = previous_fact [OF Some]
  show ?thesis
  proof (cases "fcValue ?old = cdValue c")
    case True
    let ?new = "?old\<lparr>fcSources := add_sources refs (fcSources ?old), fcUpdatedAt := now\<rparr>"
    have "same_fact ?old ?new" using add_sources_append [of refs] by (simp add: same_fact_def)
    then have "authority (fcSources ?old) \<le> authority (fcSources ?new)" by (rule same_fact_authority)
    moreover have "active_for lib (fact_key lib ?old) ?new" using i(2) by (simp add: active_for_def fact_key_def)
    moreover have "?new \<in> set ((fsFacts st)[i := ?new])" using i(1) by (rule set_update_memI)
    ultimately have "as_strong lib (fsFacts st) ((fsFacts st)[i := ?new] @ [])"
      using i(1) by (intro as_strong_update) auto
    then show ?thesis using Some True by (simp add: put_fact_def Let_def)
  next
    case False
    show ?thesis
    proof (cases "authority refs < authority (fcSources ?old) \<or> authority refs = 0")
      case True
      then show ?thesis using Some False by (auto simp: put_fact_def Let_def append_fact_facts intro: as_strong_snoc)
    next
      case stronger: False
      have key: "fact_key lib ?old = ?key" using i(2) by (simp add: active_for_def)
      have "fsFacts (put_fact lib sc now c refs st) = (fsFacts st)[i := ?old\<lparr>fcStatus := ''superseded''\<rparr>] @
          [\<lparr>fcID = ?key @ ''-'' @ Itoa (unat (fsRevision st + 1)), fcSubject = cdSubject c, fcAttribute = cdAttribute c, fcValue = cdValue c,
            fcStatus = ''active'', fcScope = sc, fcSources = refs, fcRevision = fsRevision st + 1, fcSupersedes = fcID ?old, fcUpdatedAt = now\<rparr>]"
        using Some False stronger by (simp add: put_fact_def Let_def append_fact_facts)
      then show ?thesis using i(1) stronger key
        by (simp only:) (intro as_strong_update, auto simp: active_for_def fact_key_def)
    qed
  qed
qed

lemma put_fact_ok:
  assumes ok: "facts_ok lib (fsFacts st)" and refs: "refs \<noteq> []" and sc: "scRepo sc \<noteq> ''''" "scUser sc \<noteq> ''''"
    and c: "acceptable lib (cdSubject c) (cdAttribute c) (cdValue c)"
  shows "facts_ok lib (fsFacts (put_fact lib sc now c refs st))"
proof -
  let ?key = "factKey lib sc (cdSubject c) (cdAttribute c)"
  have good: "good_fact lib \<lparr>fcID = a, fcSubject = cdSubject c, fcAttribute = cdAttribute c, fcValue = cdValue c,
      fcStatus = status, fcScope = sc, fcSources = refs, fcRevision = b, fcSupersedes = s, fcUpdatedAt = now\<rparr>"
    if "status = ''active'' \<Longrightarrow> authority refs > 0" for a b s status
    using assms that by (simp add: good_fact_def)
  show ?thesis
  proof (cases "last_index (active_for lib ?key) 0 (fsFacts st) None")
    case None
    then have "\<forall>f \<in> set (fsFacts st). \<not> active_for lib ?key f" by (simp add: last_index_None)
    then show ?thesis using None
      by (auto simp: put_fact_def Let_def append_fact_facts fact_key_def active_for_def intro!: facts_ok_snoc [OF ok] good)
  next
    case (Some i)
    let ?old = "fsFacts st ! i"
    note i = previous_fact [OF Some]
    have old: "good_fact lib ?old" using ok i(1) by (simp add: facts_ok_def)
    have pending: "facts_ok lib (fsFacts (append_fact ?key sc now c refs ''pending'' s st))" for s
      unfolding append_fact_facts by (rule facts_ok_snoc [OF ok good]) simp_all
    have merged: "facts_ok lib ((fsFacts st)[i := ?old\<lparr>fcSources := add_sources refs (fcSources ?old), fcUpdatedAt := now\<rparr>])"
    proof (rule facts_ok_update [OF ok _ i(1)])
      obtain r where r: "add_sources refs (fcSources ?old) = fcSources ?old @ r" using add_sources_append by blast
      show "good_fact lib (?old\<lparr>fcSources := add_sources refs (fcSources ?old), fcUpdatedAt := now\<rparr>)"
        using old authority_append [of "fcSources ?old" r] by (auto simp: good_fact_def r)
    qed (simp_all add: fact_key_def)
    have superseded: "facts_ok lib ((fsFacts st)[i := ?old\<lparr>fcStatus := ''superseded''\<rparr>])"
      by (rule facts_ok_update [OF ok _ i(1)]) (use old in \<open>simp_all add: good_fact_def fact_key_def\<close>)
    have none: "\<not> active_for lib ?key f" if "f \<in> set ((fsFacts st)[i := ?old\<lparr>fcStatus := ''superseded''\<rparr>])" for f
    proof
      assume a: "active_for lib ?key f"
      obtain j where j: "j < length (fsFacts st)" "f = (fsFacts st)[i := ?old\<lparr>fcStatus := ''superseded''\<rparr>] ! j"
        using \<open>f \<in> set _\<close> by (metis in_set_conv_nth length_list_update)
      show False
      proof (cases "j = i")
        case True
        then show False using a j i(1) by (simp add: active_for_def)
      next
        case False
        then show False using a j i ok by (simp add: facts_ok_def one_active_def)
      qed
    qed
    show ?thesis
    proof (cases "fcValue ?old = cdValue c \<or> authority refs < authority (fcSources ?old) \<or> authority refs = 0")
      case True
      then show ?thesis using Some pending merged by (auto simp: put_fact_def Let_def)
    next
      case False
      then have "put_fact lib sc now c refs st = append_fact ?key sc now c refs ''active'' (fcID ?old)
          (st\<lparr>fsFacts := (fsFacts st)[i := ?old\<lparr>fcStatus := ''superseded''\<rparr>]\<rparr>)"
        using Some by (simp add: put_fact_def Let_def)
      then show ?thesis
        using False none by (auto simp: append_fact_facts fact_key_def active_for_def intro!: facts_ok_snoc [OF superseded] good)
    qed
  qed
qed

subsection \<open>Every operation on the file\<close>

definition improves :: "memory_lib \<Rightarrow> fact_state \<Rightarrow> fact_state \<Rightarrow> bool" where
  "improves lib st st' \<longleftrightarrow> extends (fsFacts st) (fsFacts st') \<and> as_strong lib (fsFacts st) (fsFacts st')
     \<and> (facts_ok lib (fsFacts st) \<longrightarrow> facts_ok lib (fsFacts st')) \<and> (\<forall>k. mget (fsSessions st) k = Some True \<longrightarrow> mget (fsSessions st') k = Some True)"

lemma improves_refl [simp]: "improves lib st st"
  by (simp add: improves_def)

lemma improves_trans: "improves lib st st' \<Longrightarrow> improves lib st' st'' \<Longrightarrow> improves lib st st''"
  by (auto simp: improves_def intro: extends_trans as_strong_trans)

lemma apply_candidate_improves:
  assumes "apply_candidate lib sc sources now c st = Inr st'" "scRepo sc \<noteq> ''''" "scUser sc \<noteq> ''''"
  shows "improves lib st st'"
proof -
  obtain refs where "st' = put_fact lib sc now (trimmed c) refs st" "refs \<noteq> []"
      "acceptable lib (cdSubject (trimmed c)) (cdAttribute (trimmed c)) (cdValue (trimmed c))"
    using assms(1) by (auto simp: apply_candidate_def Let_def split: if_splits sum.splits)
  then show ?thesis using assms(2,3)
    by (simp add: improves_def put_fact_grows put_fact_strong put_fact_ok)
qed

lemma applyFacts_improves:
  "applyFacts lib sc sources clock n cs st = Inr st' \<Longrightarrow> scRepo sc \<noteq> '''' \<Longrightarrow> scUser sc \<noteq> '''' \<Longrightarrow> improves lib st st'"
proof (induction lib sc sources clock n cs st rule: applyFacts.induct)
  case (1 lib sc sources clock n st)
  then show ?case by (auto simp: improves_def)
next
  case (2 lib sc sources clock n c cs st)
  then show ?case by (auto split: sum.splits intro: improves_trans apply_candidate_improves)
qed

lemma invalidate_facts_grows: "invalidate_facts i sc fs = Some gs \<Longrightarrow> extends fs gs"
proof (induction fs arbitrary: gs)
  case (Cons f fs)
  show ?case
  proof (cases "fcID f = i \<and> fcScope f = sc")
    case True
    with Cons.prems show ?thesis by (auto simp: extends_def same_fact_def nth_Cons split: nat.split)
  next
    case False
    with Cons.prems obtain r where r: "gs = f # r" "invalidate_facts i sc fs = Some r" by auto
    with Cons.IH [of r] show ?thesis by (auto simp: extends_def nth_Cons split: nat.split)
  qed
qed simp

lemma invalidate_facts_ok:
  "invalidate_facts i sc fs = Some gs \<Longrightarrow> facts_ok lib fs \<Longrightarrow> facts_ok lib gs"
proof -
  assume a: "invalidate_facts i sc fs = Some gs" "facts_ok lib fs"
  have "\<exists>j < length fs. gs = fs[j := (fs ! j)\<lparr>fcStatus := ''invalidated''\<rparr>]"
    using a(1)
  proof (induction fs arbitrary: gs)
    case (Cons f fs)
    show ?case
    proof (cases "fcID f = i \<and> fcScope f = sc")
      case True
      with Cons.prems show ?thesis by (intro exI [of _ 0]) auto
    next
      case False
      with Cons.prems obtain r where r: "gs = f # r" "invalidate_facts i sc fs = Some r" by auto
      with Cons.IH [of r] obtain j where "j < length fs" "r = fs[j := (fs ! j)\<lparr>fcStatus := ''invalidated''\<rparr>]" by blast
      with r(1) show ?thesis by (intro exI [of _ "Suc j"]) auto
    qed
  qed simp
  then obtain j where j: "j < length fs" "gs = fs[j := (fs ! j)\<lparr>fcStatus := ''invalidated''\<rparr>]" by blast
  have "good_fact lib (fs ! j)" using a(2) j(1) by (simp add: facts_ok_def)
  then have "good_fact lib ((fs ! j)\<lparr>fcStatus := ''invalidated''\<rparr>)" by (simp add: good_fact_def)
  then show "facts_ok lib gs"
    unfolding j(2) by (rule facts_ok_update [OF a(2) _ j(1)]) (simp_all add: fact_key_def)
qed

text \<open>One operation on the file, whatever the disk does.\<close>

definition is_invalidate :: "memory_op \<Rightarrow> bool" where
  "is_invalidate x = (case x of MInvalidate _ _ _ \<Rightarrow> True | _ \<Rightarrow> False)"

lemma facts_update_improves:
  assumes "facts_update e fn d = (x, d')" "decode no_facts d = Inr st"
    and "\<And>st'. fn st = ((), Inr st') \<Longrightarrow> P st st'" and "P st st"
  shows "\<exists>st'. decode no_facts d' = Inr st' \<and> P st st'"
proof -
  have "file_update no_facts e () fn d = (((), x), d')"
    using assms(1) by (auto simp: facts_update_def split: prod.splits)
  then show ?thesis using assms(2-4) by (cases rule: file_update_cases) auto
qed

definition changes :: "memory_lib \<Rightarrow> memory_op \<Rightarrow> fact_state \<Rightarrow> fact_state \<Rightarrow> bool" where
  "changes lib x st st' \<longleftrightarrow> extends (fsFacts st) (fsFacts st') \<and> (facts_ok lib (fsFacts st) \<longrightarrow> facts_ok lib (fsFacts st'))
     \<and> (\<not> is_invalidate x \<longrightarrow> as_strong lib (fsFacts st) (fsFacts st'))
     \<and> (\<forall>k. mget (fsSessions st) k = Some True \<longrightarrow> mget (fsSessions st') k = Some True)"

lemma changes_refl [simp]: "changes lib x st st"
  by (simp add: changes_def)

lemma improves_changes: "improves lib st st' \<Longrightarrow> changes lib x st st'"
  by (simp add: changes_def improves_def)

lemma upsert_fn_improves:
  "upsert_fn lib clock sc cs es expected st = ((), Inr st') \<Longrightarrow> scRepo sc \<noteq> '''' \<Longrightarrow> scUser sc \<noteq> '''' \<Longrightarrow> improves lib st st'"
  by (auto simp: upsert_fn_def split: if_splits intro: applyFacts_improves)

lemma store_fact_fn_improves:
  "store_fact_fn lib clock sc key cs es st = ((), Inr st') \<Longrightarrow> scRepo sc \<noteq> '''' \<Longrightarrow> scUser sc \<noteq> '''' \<Longrightarrow> improves lib st st'"
proof -
  assume a: "store_fact_fn lib clock sc key cs es st = ((), Inr st')" "scRepo sc \<noteq> ''''" "scUser sc \<noteq> ''''"
  show "improves lib st st'"
  proof (cases "mget (fsSessions st) key = Some True")
    case False
    then obtain st1 where "applyFacts lib sc (source_map es) clock 0 cs st = Inr st1" "st' = st1\<lparr>fsSessions := mput key True (fsSessions st1)\<rparr>"
      using a(1) by (auto simp: store_fact_fn_def split: sum.splits)
    then show ?thesis using applyFacts_improves [OF _ a(2,3)] by (fastforce simp: improves_def)
  qed (use a(1) in \<open>simp add: store_fact_fn_def\<close>)
qed

lemma memory_step_changes:
  assumes st: "decode no_facts d = Inr st"
  shows "\<exists>st'. decode no_facts (memory_step lib d x) = Inr st' \<and> changes lib x st st'"
proof (cases x)
  case (MUpsert e clock sc cs es expected)
  show ?thesis
  proof (cases "scRepo sc = '''' \<or> scUser sc = ''''")
    case False
    obtain y d' where u: "facts_update e (upsert_fn lib clock sc cs es expected) d = (y, d')" by (metis surj_pair)
    have "\<exists>st'. decode no_facts d' = Inr st' \<and> changes lib x st st'"
      using False upsert_fn_improves by (intro facts_update_improves [OF u st]) (blast intro: improves_changes changes_refl)+
    then show ?thesis using MUpsert False u by (simp add: memory_step_def Upsert_def)
  qed (use MUpsert st in \<open>auto simp: memory_step_def Upsert_def\<close>)
next
  case (MStore er ew clock extr sc turn es seen)
  obtain st0 y0 where seen: "file_read no_facts er seen = (st0, y0)" by (metis surj_pair)
  show ?thesis
  proof (cases "(scRepo sc = '''' \<or> scUser sc = '''' \<or> turn = '''') \<or> y0 \<noteq> None
      \<or> mget (fsSessions st0) (store_key lib sc turn) = Some True \<or> extr = None \<or> (\<exists>ex z. extr = Some ex \<and> ex es = Inl z)")
    case True
    then show ?thesis using MStore st seen
      by (auto simp: memory_step_def fact_Store_def Let_def split: option.splits sum.splits)
  next
    case False
    then obtain ex cs where ex: "extr = Some ex" "ex es = Inr cs" by (metis not_None_eq obj_sumE)
    obtain y d' where u: "facts_update ew (store_fact_fn lib clock sc (store_key lib sc turn) cs es) d = (y, d')" by (metis surj_pair)
    have "\<exists>st'. decode no_facts d' = Inr st' \<and> changes lib x st st'"
      using False store_fact_fn_improves by (intro facts_update_improves [OF u st]) (blast intro: improves_changes changes_refl)+
    then show ?thesis using MStore False ex seen u by (auto simp: memory_step_def fact_Store_def Let_def)
  qed
next
  case (MInvalidate e sc i)
  obtain y d' where u: "facts_update e (invalidate_fn sc i) d = (y, d')" by (metis surj_pair)
  have "\<exists>st'. decode no_facts d' = Inr st' \<and> changes lib x st st'"
    using MInvalidate
    by (intro facts_update_improves [OF u st])
      (auto simp: invalidate_fn_def changes_def is_invalidate_def invalidate_facts_grows invalidate_facts_ok split: option.splits)
  then show ?thesis using MInvalidate u by (simp add: memory_step_def Invalidate_def)
qed

lemma memory_run_Nil [simp]: "memory_run lib [] d = d"
  by (simp add: memory_run_def)

lemma memory_run_Cons [simp]: "memory_run lib (x # xs) d = memory_run lib xs (memory_step lib d x)"
  by (simp add: memory_run_def)

lemma memory_run_append: "memory_run lib (xs @ ys) d = memory_run lib ys (memory_run lib xs d)"
  by (simp add: memory_run_def)

lemma memory_run_changes:
  "decode no_facts d = Inr st \<Longrightarrow> \<exists>st'. decode no_facts (memory_run lib xs d) = Inr st'
     \<and> extends (fsFacts st) (fsFacts st') \<and> (facts_ok lib (fsFacts st) \<longrightarrow> facts_ok lib (fsFacts st'))
     \<and> (list_all (\<lambda>x. \<not> is_invalidate x) xs \<longrightarrow> as_strong lib (fsFacts st) (fsFacts st'))
     \<and> (\<forall>k. mget (fsSessions st) k = Some True \<longrightarrow> mget (fsSessions st') k = Some True)"
proof (induction xs arbitrary: d st)
  case (Cons x xs)
  obtain st1 where 1: "decode no_facts (memory_step lib d x) = Inr st1" "changes lib x st st1"
    using memory_step_changes [OF Cons.prems] by blast
  from Cons.IH [OF 1(1)] 1(2) show ?case
    by (auto simp: changes_def intro: extends_trans as_strong_trans)
qed simp

lemma decode_Absent_facts: "decode no_facts Absent = Inr no_facts" "facts_ok lib (fsFacts no_facts)"
  by (simp_all add: no_facts_def)

text \<open>A stored turn is marked, a marked turn is left alone.\<close>

lemma fact_Store_marks:
  assumes "fact_Store lib er ew clock extr sc turn es seen d = ((None, True), d')"
  shows "\<exists>st. d' = Holds st \<and> mget (fsSessions st) (store_key lib sc turn) = Some True"
proof -
  obtain cs where "facts_update ew (store_fact_fn lib clock sc (store_key lib sc turn) cs es) d = (None, d')"
    using assms by (auto simp: fact_Store_def Let_def split: if_splits prod.splits option.splits sum.splits)
  then have "file_update no_facts ew () (store_fact_fn lib clock sc (store_key lib sc turn) cs es) d = (((), None), d')"
    by (auto simp: facts_update_def split: prod.splits)
  then obtain v v' where "store_fact_fn lib clock sc (store_key lib sc turn) cs es v = ((), Inr v')" "d' = Holds v'"
    by (rule file_update_done) blast
  then show ?thesis by (auto simp: store_fact_fn_def split: if_splits sum.splits)
qed

lemma fact_Store_marked:
  assumes "decode no_facts d = Inr st" "mget (fsSessions st) (store_key lib sc turn) = Some True"
  shows "snd (fact_Store lib er ew clock extr sc turn es seen d) = d"
    and "snd (fst (fact_Store lib er ew clock extr sc turn es d d)) = False"
proof -
  have d: "d = Holds st" using assms by (cases d) (auto simp: no_facts_def)
  have "store_fact_fn lib clock sc (store_key lib sc turn) cs es st = ((), Inr st)" for cs
    using assms(2) by (simp add: store_fact_fn_def)
  then have "snd (facts_update ew (store_fact_fn lib clock sc (store_key lib sc turn) cs es) d) = d" for cs
    by (simp add: facts_update_def file_update_def transaction_def d split: option.split replaced.split)
  then show "snd (fact_Store lib er ew clock extr sc turn es seen d) = d"
    by (auto simp: fact_Store_def Let_def split: prod.split option.split sum.split) (metis snd_conv)+
  show "snd (fst (fact_Store lib er ew clock extr sc turn es d d)) = False"
    using assms(2) file_read_done [of no_facts er d] d
    by (auto simp: fact_Store_def Let_def split: prod.split option.split sum.split)
qed

subsection \<open>What the memory promises\<close>

text \<open>C26. At most one fact is believed: after any operations of any writers on the memory file, whatever the disk does, there
  is at most one active fact per scope, subject and attribute; every fact has evidence, a complete scope, a
  value of bounded size that holds no recognised secret, and an active one has evidence from a conversation,
  the workspace or the user.\<close>

theorem at_most_one_fact_is_active:
  "\<exists>st. decode no_facts (memory_run lib ops Absent) = Inr st
     \<and> (\<forall>k. length (filter (active_for lib k) (fsFacts st)) \<le> 1) \<and> (\<forall>f \<in> set (fsFacts st). good_fact lib f)"
  using memory_run_changes [OF decode_Absent_facts(1), of lib ops] decode_Absent_facts(2) [of lib]
  by (auto simp: facts_ok_def one_active_count [simplified])

definition demo_memory :: memory_lib where
  "demo_memory = \<lparr>mlDigest = concat, mlKey = concat, mlRedact = (\<lambda>p s. s)\<rparr>"

definition demo_scope :: scope where
  "demo_scope = \<lparr>scRepo = ''r'', scUser = ''u''\<rparr>"

definition demo_evidence :: "evidence list" where
  "demo_evidence = [\<lparr>evID = ''e1'', evKind = ''conversation'', evText = ''t'', evObservedAt = 1\<rparr>,
     \<lparr>evID = ''e2'', evKind = ''user_confirmed'', evText = ''t'', evObservedAt = 2\<rparr>]"

definition demo_ops :: "memory_op list" where
  "demo_ops = [MUpsert io_ok (\<lambda>n. 5) demo_scope [\<lparr>cdSubject = ''build'', cdAttribute = ''tool'', cdValue = ''make'', cdEvidence = [''e1'']\<rparr>] demo_evidence None,
     MUpsert io_ok (\<lambda>n. 6) demo_scope [\<lparr>cdSubject = ''build '', cdAttribute = ''tool'', cdValue = ''bazel'', cdEvidence = [''e2'']\<rparr>] demo_evidence None,
     MUpsert io_ok (\<lambda>n. 7) demo_scope [\<lparr>cdSubject = ''build'', cdAttribute = ''tool'', cdValue = ''make'', cdEvidence = [''e1'']\<rparr>] demo_evidence None]"

lemmas memory_evaluation = memory_step_def Upsert_def facts_update_def upsert_fn_def source_map_def apply_candidate_def trimmed_def
  acceptable_def sanitizeDream_def put_fact_def append_fact_def active_for_def fact_key_def factKey_def authority_def rank_def
  TrimSpace_def is_space_def ToLower_def Let_def no_facts_def add_sources_def

lemma at_most_one_fact_is_active_witness:
  "\<exists>st. decode no_facts (memory_run demo_memory demo_ops Absent) = Inr st
     \<and> map fcStatus (fsFacts st) = [''superseded'', ''active'', ''pending'']
     \<and> length (filter (active_for demo_memory ''rubuildtool'') (fsFacts st)) \<le> 1"
proof -
  have st: "map fcStatus (case memory_run demo_memory demo_ops Absent of Holds st \<Rightarrow> fsFacts st | _ \<Rightarrow> []) = [''superseded'', ''active'', ''pending'']"
    by (simp add: demo_ops_def demo_memory_def demo_scope_def demo_evidence_def memory_evaluation)
  obtain st where "decode no_facts (memory_run demo_memory demo_ops Absent) = Inr st"
      "length (filter (active_for demo_memory ''rubuildtool'') (fsFacts st)) \<le> 1"
    using at_most_one_fact_is_active [of demo_memory demo_ops] by auto
  with st show ?thesis by (cases "memory_run demo_memory demo_ops Absent") (auto simp: no_facts_def)
qed

text \<open>Memory keeps its history and never trusts less: whatever is done after a state of the file, every fact of it is still
  at its place with its identity, subject, value, scope and revision, and all its evidence; and unless a
  fact is invalidated, whoever was active under a key has a successor that is active under the same
  key and rests on evidence of at least the same authority.\<close>

theorem memory_keeps_history:
  assumes "decode no_facts d = Inr st"
  shows "\<exists>st'. decode no_facts (memory_run lib ys d) = Inr st' \<and> extends (fsFacts st) (fsFacts st')
     \<and> (list_all (\<lambda>x. \<not> is_invalidate x) ys \<longrightarrow> as_strong lib (fsFacts st) (fsFacts st'))"
  using memory_run_changes [OF assms, of lib ys] by auto

text \<open>A confirmed value is not displaced by what a conversation says.\<close>

lemma memory_keeps_history_witness:
  "\<exists>st st'. decode no_facts (memory_run demo_memory (take 2 demo_ops) Absent) = Inr st \<and> length (fsFacts st) = 2
     \<and> decode no_facts (memory_run demo_memory (drop 2 demo_ops) (memory_run demo_memory (take 2 demo_ops) Absent)) = Inr st'
     \<and> as_strong demo_memory (fsFacts st) (fsFacts st')"
proof -
  have two: "length (case memory_run demo_memory (take 2 demo_ops) Absent of Holds st \<Rightarrow> fsFacts st | _ \<Rightarrow> []) = 2"
    by (simp add: demo_ops_def demo_memory_def demo_scope_def demo_evidence_def memory_evaluation)
  then obtain st where st: "memory_run demo_memory (take 2 demo_ops) Absent = Holds st" "length (fsFacts st) = 2"
    by (cases "memory_run demo_memory (take 2 demo_ops) Absent") auto
  have "list_all (\<lambda>x. \<not> is_invalidate x) (drop 2 demo_ops)" by (simp add: demo_ops_def is_invalidate_def)
  then show ?thesis
    using memory_keeps_history [of "Holds st" st demo_memory "drop 2 demo_ops"] st by auto
qed

text \<open>C27. A turn is remembered once: after \<open>Store\<close> has succeeded with the candidates of a turn, then, after any further
  operations of any writers, storing the same turn again leaves the file as it is, also when the caller read the file
  before the first one finished; and a caller that reads it now does not call the extractor.\<close>

theorem stored_turn_is_applied_once:
  assumes "fact_Store lib er ew clock extr sc turn es seen d = ((None, True), d')"
    and "d'' = memory_run lib ops d'"
  shows "snd (fact_Store lib er1 ew1 clock1 extr1 sc turn es1 seen1 d'') = d''
     \<and> snd (fst (fact_Store lib er1 ew1 clock1 extr1 sc turn es1 d'' d'')) = False"
proof -
  obtain st where st: "d' = Holds st" "mget (fsSessions st) (store_key lib sc turn) = Some True"
    using fact_Store_marks [OF assms(1)] by blast
  then obtain st' where "decode no_facts d'' = Inr st'" "mget (fsSessions st') (store_key lib sc turn) = Some True"
    using memory_run_changes [of d' st lib ops] assms(2) by auto
  then show ?thesis by (simp add: fact_Store_marked)
qed

lemma stored_turn_is_applied_once_witness:
  "let d = snd (fact_Store demo_memory io_ok io_ok (\<lambda>n. 1) (Some (\<lambda>es. Inr [])) demo_scope ''t'' [] Absent Absent)
   in snd (fact_Store demo_memory io_ok io_ok (\<lambda>n. 2) (Some (\<lambda>es. Inr [])) demo_scope ''t'' [] Absent (memory_run demo_memory demo_ops d))
        = memory_run demo_memory demo_ops d"
proof -
  obtain d where d: "fact_Store demo_memory io_ok io_ok (\<lambda>n. 1) (Some (\<lambda>es. Inr [])) demo_scope ''t'' [] Absent Absent = ((None, True), d)"
    by (simp add: fact_Store_def facts_update_def store_fact_fn_def no_facts_def demo_scope_def Let_def)
  show ?thesis using stored_turn_is_applied_once [OF d refl, of io_ok io_ok "\<lambda>n. 2" "Some (\<lambda>es. Inr [])" "[]" Absent demo_ops]
    by (simp add: d)
qed

end
