(* ===== verification/Outbox.thy ===== *)
theory Outbox
  imports Facts Tracing
begin

section \<open>The memory outbox\<close>

text \<open>
  \<open>internal/memory/outbox.go\<close>: a turn registers its evidence before its result is committed; a background writer gives
  it to the memory backend once the report of the run says that it completed. The jobs are one durable file, shared by
  the writers of several processes; at most one of them flushes, under a lease that a process gives up when it ends.
  The state holds the file, the run reports, the writers that are closed and the flush in progress; the steps are what
  the code does under a lock or between two calls. The time, the outcome of the disk and the answers of the
  backend are arguments of the steps. \<open>filepath.Base\<close> is that of Unix.
\<close>

subsection \<open>Jobs\<close>

record write_job =
  wjTurn :: string
  wjSession :: string
  wjEvidence :: "evidence list"
  wjTrace :: identity
  wjAttempts :: int
  wjDone :: bool
  wjFailed :: bool
  wjLastError :: string
  wjNextAttempt :: instant

text \<open>The zero time is before every other.\<close>

type_synonym write_state = "write_job gomap"

record writer_options =
  woPollInterval :: duration
  woRetryBase :: duration
  woAttemptTimeout :: duration
  woMaxAttempts :: int

definition writer_defaults :: "writer_options \<Rightarrow> writer_options" where
  "writer_defaults opts =
     \<lparr>woPollInterval = (if woPollInterval opts \<le> 0 then Second else woPollInterval opts),
      woRetryBase = (if woRetryBase opts \<le> 0 then Second else woRetryBase opts),
      woAttemptTimeout = (if woAttemptTimeout opts \<le> 0 then 30 * Second else woAttemptTimeout opts),
      woMaxAttempts = (if woMaxAttempts opts \<le> 0 then 5 else woMaxAttempts opts)\<rparr>"

definition NewWriter :: "scope \<Rightarrow> bool \<Rightarrow> writer_options \<Rightarrow> io \<Rightarrow> write_state content \<Rightarrow> gerr + writer_options" where
  "NewWriter sc has_backend opts e d =
     (if scRepo sc = '''' \<or> scUser sc = '''' \<or> \<not> has_backend then Inl (Msg ''memory writer requires explicit scope and backend'')
      else (case file_read [] e d of
              (_, Some x) \<Rightarrow> Inl x
            | (_, None) \<Rightarrow> Inr (writer_defaults opts)))"

definition no_time :: instant where
  "no_time = - (2 ^ 62)"

definition filepath_Base :: "string \<Rightarrow> string" where
  "filepath_Base p =
     (if p = '''' then ''.''
      else (let q = rev (dropWhile (\<lambda>c. c = CHR ''/'') (rev p))
            in if q = '''' then ''/'' else rev (takeWhile (\<lambda>c. c \<noteq> CHR ''/'') (rev q))))"

subsection \<open>Transactions on the jobs\<close>

definition prepare_fn :: "write_job \<Rightarrow> (write_state, unit) callback" where
  "prepare_fn job s =
     (case mget s (wjTurn job) of
        Some old \<Rightarrow> if wjSession old \<noteq> wjSession job then ((), Inl (Msg ''memory turn belongs to another session'')) else ((), Inr s)
      | None \<Rightarrow> ((), Inr (mput (wjTurn job) job s)))"

definition new_job :: "memory_lib \<Rightarrow> identity \<Rightarrow> string \<Rightarrow> string \<Rightarrow> evidence list \<Rightarrow> write_job" where
  "new_job lib trace turn session es =
     \<lparr>wjTurn = turn, wjSession = session, wjEvidence = map (\<lambda>e. e\<lparr>evText := sanitizeDream lib (evText e)\<rparr>) es, wjTrace = trace,
      wjAttempts = 0, wjDone = False, wjFailed = False, wjLastError = '''', wjNextAttempt = no_time\<rparr>"

definition backoff :: "writer_options \<Rightarrow> int \<Rightarrow> duration" where
  "backoff opts attempts = min (mul64 (woRetryBase opts) (2 ^ nat (min (attempts - 1) 8))) (5 * Minute)"

definition result_fn :: "writer_options \<Rightarrow> instant \<Rightarrow> string \<Rightarrow> gerr option \<Rightarrow> (write_state, unit) callback" where
  "result_fn opts now key storeErr s =
     (case mget s key of
        None \<Rightarrow> ((), Inr s)
      | Some j0 \<Rightarrow>
          if wjDone j0 then ((), Inr s)
          else (let j = j0\<lparr>wjAttempts := wjAttempts j0 + 1\<rparr> in
            ((), Inr (mput key
              (case storeErr of
                 None \<Rightarrow> j\<lparr>wjDone := True, wjLastError := ''''\<rparr>
               | Some e \<Rightarrow> j\<lparr>wjLastError := Error e, wjFailed := (wjAttempts j \<ge> woMaxAttempts opts),
                             wjNextAttempt := now + backoff opts (wjAttempts j)\<rparr>) s))))"

definition retry_fn :: "string \<Rightarrow> (write_state, unit) callback" where
  "retry_fn turn s =
     (case mget s turn of
        None \<Rightarrow> ((), Inl (Msg ''memory write job not found''))
      | Some j \<Rightarrow> if wjDone j then ((), Inr s)
                 else ((), Inr (mput turn (j\<lparr>wjFailed := False, wjAttempts := 0, wjNextAttempt := no_time\<rparr>) s)))"

definition jobs_update :: "io \<Rightarrow> (write_state, unit) callback \<Rightarrow> write_state content \<Rightarrow> gerr option \<times> write_state content" where
  "jobs_update e fn d = (case file_update [] e () fn d of ((_, x), d') \<Rightarrow> (x, d'))"

definition Prepare ::
  "memory_lib \<Rightarrow> bool \<Rightarrow> io \<Rightarrow> identity \<Rightarrow> string \<Rightarrow> string \<Rightarrow> evidence list \<Rightarrow> write_state content \<Rightarrow> gerr option \<times> write_state content" where
  "Prepare lib closed e trace turn session es d =
     (if turn = '''' \<or> filepath_Base turn \<noteq> turn \<or> session = '''' then (Some (Msg ''invalid memory turn/session''), d)
      else if closed then (Some (Msg ''memory writer closed''), d)
      else jobs_update e (prepare_fn (new_job lib trace turn session es)) d)"

definition Retry :: "io \<Rightarrow> string \<Rightarrow> write_state content \<Rightarrow> gerr option \<times> write_state content" where
  "Retry e turn d = jobs_update e (retry_fn turn) d"

definition recordResult :: "writer_options \<Rightarrow> io \<Rightarrow> instant \<Rightarrow> string \<Rightarrow> gerr option \<Rightarrow> write_state content \<Rightarrow> gerr option \<times> write_state content" where
  "recordResult opts e now key storeErr d = jobs_update e (result_fn opts now key storeErr) d"

definition Pending :: "io \<Rightarrow> write_state content \<Rightarrow> nat \<times> gerr option" where
  "Pending e d = (case file_read [] e d of (s, x) \<Rightarrow> (length (filter (\<lambda>j. \<not> wjDone j) (mvals s)), x))"

subsection \<open>The commit report\<close>

datatype report_file = NoReport | Unreadable gerr | Malformed gerr | Report string string string

definition committed :: "report_file \<Rightarrow> write_job \<Rightarrow> gerr + bool" where
  "committed r job =
     (case r of
        NoReport \<Rightarrow> Inr False
      | Unreadable e \<Rightarrow> Inl e
      | Malformed e \<Rightarrow> Inl (Wrapf ''memory commit report: %w'' [] e)
      | Report run session status \<Rightarrow>
          if run \<noteq> wjTurn job \<or> session \<noteq> wjSession job then Inl (Msg ''memory commit identity mismatch'')
          else Inr (status = ''completed''))"

subsection \<open>Writers and the flush\<close>

text \<open>
  \<open>flRest\<close> are the jobs of the snapshot that the loop has not looked at, in a map, since Go visits them in any order;
  \<open>flCall\<close> is the job whose \<open>Store\<close> call is running. \<open>obCalls\<close> records the calls of the backend.
\<close>

record flush =
  flOwner :: nat
  flRest :: write_state
  flCall :: "(string \<times> write_job) option"

record outbox =
  obFile :: "write_state content"
  obReports :: "string \<Rightarrow> report_file"
  obClosed :: "nat \<Rightarrow> bool"
  obFlush :: "flush option"
  obLastErr :: "nat \<Rightarrow> gerr option"
  obCalls :: "(string \<times> evidence list) list"

definition new_outbox :: outbox where
  "new_outbox = \<lparr>obFile = Absent, obReports = (\<lambda>_. NoReport), obClosed = (\<lambda>_. False), obFlush = None, obLastErr = (\<lambda>_. None), obCalls = []\<rparr>"

datatype outbox_step =
    OPrepare nat io identity string string "evidence list"
  | ORetry io string
  | OReport string report_file
  | OClose nat
  | OCrash nat
  | OFlush nat "gerr option" io
  | OJob instant string io
  | OStored instant "gerr option" io
  | OEnd

text \<open>The flush ends, with an error of the loop that is kept unless the writer is being closed.\<close>

definition note_error :: "nat \<Rightarrow> gerr option \<Rightarrow> outbox \<Rightarrow> outbox" where
  "note_error i x ob = (if x \<noteq> None \<and> \<not> obClosed ob i then ob\<lparr>obLastErr := (obLastErr ob)(i := x)\<rparr> else ob)"

definition end_flush :: "nat \<Rightarrow> gerr option \<Rightarrow> outbox \<Rightarrow> outbox" where
  "end_flush i x ob = note_error i x (ob\<lparr>obFlush := None\<rparr>)"

text \<open>The lease is granted only when no writer flushes.\<close>

definition start_flush :: "nat \<Rightarrow> gerr option \<Rightarrow> io \<Rightarrow> outbox \<Rightarrow> outbox" where
  "start_flush i lease e ob =
     (if obClosed ob i then ob
      else (case lease of
          Some x \<Rightarrow> note_error i (Some x) ob
        | None \<Rightarrow>
          if obFlush ob \<noteq> None then ob
          else (case file_read [] e (obFile ob) of
             (_, Some x) \<Rightarrow> end_flush i (Some x) ob
           | (s, None) \<Rightarrow> ob\<lparr>obFlush := Some \<lparr>flOwner = i, flRest = s, flCall = None\<rparr>\<rparr>)))"

definition record_step :: "writer_options \<Rightarrow> nat \<Rightarrow> flush \<Rightarrow> instant \<Rightarrow> io \<Rightarrow> string \<Rightarrow> gerr option \<Rightarrow> outbox \<Rightarrow> outbox" where
  "record_step opts i fl now e key storeErr ob =
     (case recordResult opts e now key storeErr (obFile ob) of
        (None, d) \<Rightarrow> ob\<lparr>obFile := d, obFlush := Some fl\<rparr>
      | (Some x, d) \<Rightarrow> end_flush i (Some x) (ob\<lparr>obFile := d\<rparr>))"

definition flush_job :: "writer_options \<Rightarrow> instant \<Rightarrow> string \<Rightarrow> io \<Rightarrow> outbox \<Rightarrow> outbox" where
  "flush_job opts now key e ob =
     (case obFlush ob of
        None \<Rightarrow> ob
      | Some fl \<Rightarrow>
         if flCall fl \<noteq> None then ob
         else (case mget (flRest fl) key of
            None \<Rightarrow> ob
          | Some job \<Rightarrow>
             (let i = flOwner fl; next = fl\<lparr>flRest := mdel key (flRest fl)\<rparr> in
              if obClosed ob i then end_flush i (Some Canceled) ob
              else if wjDone job \<or> wjFailed job \<or> now < wjNextAttempt job then ob\<lparr>obFlush := Some next\<rparr>
              else (case committed (obReports ob (wjTurn job)) job of
                  Inl x \<Rightarrow> record_step opts i next now e key (Some x) ob
                | Inr False \<Rightarrow> ob\<lparr>obFlush := Some next\<rparr>
                | Inr True \<Rightarrow> ob\<lparr>obFlush := Some (next\<lparr>flCall := Some (key, job)\<rparr>),
                                obCalls := obCalls ob @ [(wjTurn job, wjEvidence job)]\<rparr>))))"

definition store_returns :: "writer_options \<Rightarrow> instant \<Rightarrow> gerr option \<Rightarrow> io \<Rightarrow> outbox \<Rightarrow> outbox" where
  "store_returns opts now storeErr e ob =
     (case obFlush ob of
        None \<Rightarrow> ob
      | Some fl \<Rightarrow>
         (case flCall fl of
            None \<Rightarrow> ob
          | Some (key, job) \<Rightarrow>
             (let i = flOwner fl in
              if obClosed ob i then end_flush i (Some Canceled) ob
              else record_step opts i (fl\<lparr>flCall := None\<rparr>) now e key storeErr ob)))"

definition outbox_step :: "memory_lib \<Rightarrow> writer_options \<Rightarrow> outbox \<Rightarrow> outbox_step \<Rightarrow> outbox" where
  "outbox_step lib opts ob x =
     (case x of
        OPrepare i e trace turn session es \<Rightarrow> ob\<lparr>obFile := snd (Prepare lib (obClosed ob i) e trace turn session es (obFile ob))\<rparr>
      | ORetry e turn \<Rightarrow> ob\<lparr>obFile := snd (Retry e turn (obFile ob))\<rparr>
      | OReport turn r \<Rightarrow> ob\<lparr>obReports := (obReports ob)(turn := r)\<rparr>
      | OClose i \<Rightarrow> ob\<lparr>obClosed := (obClosed ob)(i := True)\<rparr>
      | OCrash i \<Rightarrow> ob\<lparr>obClosed := (obClosed ob)(i := True),
          obFlush := (case obFlush ob of Some fl \<Rightarrow> if flOwner fl = i then None else Some fl | None \<Rightarrow> None)\<rparr>
      | OFlush i lease e \<Rightarrow> start_flush i lease e ob
      | OJob now key e \<Rightarrow> flush_job opts now key e ob
      | OStored now storeErr e \<Rightarrow> store_returns opts now storeErr e ob
      | OEnd \<Rightarrow> (case obFlush ob of Some fl \<Rightarrow> if flRest fl = [] \<and> flCall fl = None then end_flush (flOwner fl) None ob else ob | None \<Rightarrow> ob))"

definition outbox_run :: "memory_lib \<Rightarrow> writer_options \<Rightarrow> outbox_step list \<Rightarrow> outbox \<Rightarrow> outbox" where
  "outbox_run lib opts xs ob = foldl (outbox_step lib opts) ob xs"

subsection \<open>What holds of the jobs\<close>

definition prepared :: "outbox_step list \<Rightarrow> (string \<times> string \<times> evidence list) set" where
  "prepared xs = {(turn, session, es). \<exists>i e trace. OPrepare i e trace turn session es \<in> set xs}"

definition sanitized :: "memory_lib \<Rightarrow> evidence list \<Rightarrow> evidence list" where
  "sanitized lib es = map (\<lambda>e. e\<lparr>evText := sanitizeDream lib (evText e)\<rparr>) es"

definition job_ok :: "memory_lib \<Rightarrow> writer_options \<Rightarrow> (string \<times> string \<times> evidence list) set \<Rightarrow> string \<Rightarrow> write_job \<Rightarrow> bool" where
  "job_ok lib opts P k j \<longleftrightarrow> wjTurn j = k \<and> (\<exists>es. (k, wjSession j, es) \<in> P \<and> wjEvidence j = sanitized lib es)
     \<and> wjAttempts j \<le> woMaxAttempts opts \<and> (\<not> wjDone j \<longrightarrow> (wjFailed j \<longleftrightarrow> wjAttempts j \<ge> woMaxAttempts opts))"

text \<open>A job of the file as another writer may leave it, and as the flush may.\<close>

definition same_job :: "write_job \<Rightarrow> write_job \<Rightarrow> bool" where
  "same_job j c \<longleftrightarrow> wjTurn c = wjTurn j \<and> wjSession c = wjSession j \<and> wjEvidence c = wjEvidence j \<and> wjDone c = wjDone j
     \<and> (wjFailed c \<longrightarrow> wjFailed j)"

definition later_job :: "write_job \<Rightarrow> write_job \<Rightarrow> bool" where
  "later_job j c \<longleftrightarrow> wjTurn c = wjTurn j \<and> wjSession c = wjSession j \<and> wjEvidence c = wjEvidence j \<and> (wjDone j \<longrightarrow> c = j)"

definition jobs_rel :: "(write_job \<Rightarrow> write_job \<Rightarrow> bool) \<Rightarrow> write_state \<Rightarrow> write_state \<Rightarrow> bool" where
  "jobs_rel R s s' \<longleftrightarrow> (\<forall>k j. mget s k = Some j \<longrightarrow> (\<exists>c. mget s' k = Some c \<and> R j c))"

definition snapshot_ok :: "write_state \<Rightarrow> flush \<Rightarrow> bool" where
  "snapshot_ok s fl \<longleftrightarrow> jobs_rel same_job (flRest fl) s
     \<and> (\<forall>k j. flCall fl = Some (k, j) \<longrightarrow> mget (flRest fl) k = None \<and> wjTurn j = k \<and> \<not> wjDone j \<and> \<not> wjFailed j
          \<and> (\<exists>c. mget s k = Some c \<and> same_job j c))"

definition outbox_inv :: "memory_lib \<Rightarrow> writer_options \<Rightarrow> (string \<times> string \<times> evidence list) set \<Rightarrow> outbox \<Rightarrow> write_state \<Rightarrow> bool" where
  "outbox_inv lib opts P ob s \<longleftrightarrow> decode [] (obFile ob) = Inr s \<and> mall (job_ok lib opts P) s
     \<and> (\<forall>fl. obFlush ob = Some fl \<longrightarrow> snapshot_ok s fl)"

lemma same_job_refl [simp]: "same_job j j" and later_job_refl [simp]: "later_job j j"
  by (simp_all add: same_job_def later_job_def)

lemma same_job_trans: "same_job a b \<Longrightarrow> same_job b c \<Longrightarrow> same_job a c"
  by (auto simp: same_job_def)

lemma later_job_trans: "later_job a b \<Longrightarrow> later_job b c \<Longrightarrow> later_job a c"
  by (auto simp: later_job_def)

lemma jobs_rel_refl: "(\<And>j. R j j) \<Longrightarrow> jobs_rel R s s"
  by (simp add: jobs_rel_def)

lemma jobs_rel_trans: "(\<And>a b c. R a b \<Longrightarrow> R b c \<Longrightarrow> R a c) \<Longrightarrow> jobs_rel R s t \<Longrightarrow> jobs_rel R t u \<Longrightarrow> jobs_rel R s u"
  unfolding jobs_rel_def by meson

lemma jobs_rel_mput: "(\<And>j. R j j) \<Longrightarrow> (\<And>j. mget s k = Some j \<Longrightarrow> R j c) \<Longrightarrow> jobs_rel R s (mput k c s)"
  by (simp add: jobs_rel_def)

lemma job_ok_mono: "job_ok lib opts P k j \<Longrightarrow> P \<subseteq> Q \<Longrightarrow> job_ok lib opts Q k j"
  by (auto simp: job_ok_def)

lemma snapshot_ok_producer: "snapshot_ok s fl \<Longrightarrow> jobs_rel same_job s s' \<Longrightarrow> snapshot_ok s' fl"
  unfolding snapshot_ok_def jobs_rel_def by (meson same_job_trans)

lemma jobs_update_cases:
  assumes "jobs_update e fn d = (x, d')" "decode [] d = Inr s"
  shows "\<exists>s'. decode [] d' = Inr s' \<and> (s' = s \<or> fn s = ((), Inr s'))"
proof -
  have "file_update [] e () fn d = (((), x), d')"
    using assms(1) by (auto simp: jobs_update_def split: prod.splits)
  then show ?thesis using assms(2) by (cases rule: file_update_cases) auto
qed

lemma new_job_ok: "woMaxAttempts opts > 0 \<Longrightarrow> job_ok lib opts {(turn, session, es)} turn (new_job lib trace turn session es)"
  by (simp add: job_ok_def new_job_def sanitized_def)

lemma prepare_fn_ok:
  assumes "prepare_fn (new_job lib trace turn session es) s = ((), Inr s')" "mall (job_ok lib opts P) s" "woMaxAttempts opts > 0"
  shows "mall (job_ok lib opts (P \<union> {(turn, session, es)})) s' \<and> jobs_rel same_job s s' \<and> jobs_rel later_job s s'"
proof -
  have "mall (job_ok lib opts (P \<union> {(turn, session, es)})) s" using assms(2) by (rule mall_mono) (auto intro: job_ok_mono)
  moreover have "job_ok lib opts (P \<union> {(turn, session, es)}) turn (new_job lib trace turn session es)"
    using new_job_ok [OF assms(3)] by (rule job_ok_mono) simp
  ultimately show ?thesis using assms(1)
    by (auto simp: prepare_fn_def new_job_def intro!: mall_mput jobs_rel_mput jobs_rel_refl split: option.splits if_splits)
qed

lemma retry_fn_ok:
  assumes "retry_fn turn s = ((), Inr s')" "mall (job_ok lib opts P) s" "woMaxAttempts opts > 0"
  shows "mall (job_ok lib opts P) s' \<and> jobs_rel same_job s s' \<and> jobs_rel later_job s s'"
proof -
  obtain j where j: "mget s turn = Some j" using assms(1) by (auto simp: retry_fn_def split: option.splits)
  note ok = mallD [OF assms(2) j]
  show ?thesis
  proof (cases "wjDone j")
    case False
    then have "s' = mput turn (j\<lparr>wjFailed := False, wjAttempts := 0, wjNextAttempt := no_time\<rparr>) s"
      using assms(1) j by (simp add: retry_fn_def)
    then show ?thesis using ok assms(2,3) j False
      by (auto simp: job_ok_def same_job_def later_job_def intro!: mall_mput jobs_rel_mput)
  qed (use assms j in \<open>auto simp: retry_fn_def intro!: jobs_rel_refl\<close>)
qed

text \<open>The result of a call is recorded for a job that is neither done nor given up.\<close>

lemma result_fn_ok:
  assumes "result_fn opts now k err s = ((), Inr s')" "mall (job_ok lib opts P) s"
    and "mget s k = Some c" "\<not> wjFailed c"
  shows "mall (job_ok lib opts P) s' \<and> jobs_rel later_job s s' \<and> (\<forall>k'. k' \<noteq> k \<longrightarrow> mget s' k' = mget s k')"
proof -
  note ok = mallD [OF assms(2,3)]
  show ?thesis
  proof (cases "wjDone c")
    case False
    let ?j = "c\<lparr>wjAttempts := wjAttempts c + 1\<rparr>"
    let ?new = "case err of None \<Rightarrow> ?j\<lparr>wjDone := True, wjLastError := ''''\<rparr>
       | Some e \<Rightarrow> ?j\<lparr>wjLastError := Error e, wjFailed := (wjAttempts ?j \<ge> woMaxAttempts opts), wjNextAttempt := now + backoff opts (wjAttempts ?j)\<rparr>"
    have s': "s' = mput k ?new s" using assms(1,3) False by (simp add: result_fn_def Let_def)
    have "job_ok lib opts P k ?new" using ok False assms(4) by (auto simp: job_ok_def split: option.split)
    moreover have "later_job c ?new" using False by (simp add: later_job_def split: option.split)
    ultimately show ?thesis using assms(2,3) unfolding s'
      by (auto intro!: mall_mput jobs_rel_mput)
  qed (use assms in \<open>auto simp: result_fn_def intro!: jobs_rel_refl\<close>)
qed

subsection \<open>Every step keeps the invariant\<close>

definition advances :: "memory_lib \<Rightarrow> writer_options \<Rightarrow> (string \<times> string \<times> evidence list) set \<Rightarrow> write_state \<Rightarrow> outbox \<Rightarrow> bool" where
  "advances lib opts P s ob \<longleftrightarrow> (\<exists>s'. outbox_inv lib opts P ob s' \<and> jobs_rel later_job s s')"

lemma note_error_simps [simp]:
  "obFile (note_error i x ob) = obFile ob" "obFlush (note_error i x ob) = obFlush ob" "obCalls (note_error i x ob) = obCalls ob"
  by (simp_all add: note_error_def)

lemma end_flush_simps [simp]:
  "obFile (end_flush i x ob) = obFile ob" "obFlush (end_flush i x ob) = None" "obCalls (end_flush i x ob) = obCalls ob"
  by (simp_all add: end_flush_def)

lemma advances_same:
  "outbox_inv lib opts P ob s \<Longrightarrow> obFile ob' = obFile ob \<Longrightarrow> (\<And>fl. obFlush ob' = Some fl \<Longrightarrow> snapshot_ok s fl) \<Longrightarrow> advances lib opts P s ob'"
  unfolding advances_def by (intro exI [of _ s]) (auto simp: outbox_inv_def intro: jobs_rel_refl)

lemma advances_producer:
  assumes "outbox_inv lib opts P ob s" "jobs_update e fn (obFile ob) = (x, d)"
    and "\<And>s'. fn s = ((), Inr s') \<Longrightarrow> mall (job_ok lib opts Q) s' \<and> jobs_rel same_job s s' \<and> jobs_rel later_job s s'" and "P \<subseteq> Q"
  shows "advances lib opts Q s (ob\<lparr>obFile := d\<rparr>)"
proof -
  have ob: "decode [] (obFile ob) = Inr s" "mall (job_ok lib opts P) s" "\<And>fl. obFlush ob = Some fl \<Longrightarrow> snapshot_ok s fl"
    using assms(1) by (simp_all add: outbox_inv_def)
  obtain s' where s': "decode [] d = Inr s'" "s' = s \<or> fn s = ((), Inr s')"
    using jobs_update_cases [OF assms(2) ob(1)] by blast
  have "mall (job_ok lib opts Q) s" using ob(2) by (rule mall_mono) (use assms(4) in \<open>auto intro: job_ok_mono\<close>)
  then have "mall (job_ok lib opts Q) s' \<and> jobs_rel same_job s s' \<and> jobs_rel later_job s s'"
    using s'(2) assms(3) jobs_rel_refl by (metis later_job_refl same_job_refl)
  then show ?thesis using s'(1) ob(3)
    unfolding advances_def outbox_inv_def by (intro exI [of _ s']) (auto intro: snapshot_ok_producer)
qed

lemma record_step_advances:
  assumes "outbox_inv lib opts P ob s" "jobs_rel same_job (flRest fl) s" "flCall fl = None" "mget (flRest fl) k = None"
    and "mget s k = Some c" "\<not> wjFailed c"
  shows "advances lib opts P s (record_step opts i fl now e k err ob)"
proof -
  have ob: "decode [] (obFile ob) = Inr s" "mall (job_ok lib opts P) s"
    using assms(1) by (simp_all add: outbox_inv_def)
  obtain x d where u: "recordResult opts e now k err (obFile ob) = (x, d)" by (metis surj_pair)
  obtain s' where s': "decode [] d = Inr s'" "s' = s \<or> result_fn opts now k err s = ((), Inr s')"
    using jobs_update_cases [OF u [unfolded recordResult_def] ob(1)] by blast
  have new: "mall (job_ok lib opts P) s' \<and> jobs_rel later_job s s' \<and> (\<forall>k'. k' \<noteq> k \<longrightarrow> mget s' k' = mget s k')"
    using s'(2) result_fn_ok [OF _ ob(2) assms(5,6)] ob(2) jobs_rel_refl by (metis later_job_refl)
  moreover have "snapshot_ok s' fl"
    unfolding snapshot_ok_def using assms(2-4) new by (auto simp: jobs_rel_def) (metis not_None_eq)
  ultimately show ?thesis using s'(1)
    unfolding advances_def by (intro exI [of _ s']) (cases x; simp add: record_step_def u outbox_inv_def)
qed

lemma snapshot_ok_rest:
  "snapshot_ok s fl \<Longrightarrow> jobs_rel same_job (mdel k (flRest fl)) s"
  by (auto simp: snapshot_ok_def jobs_rel_def)

lemma flush_job_advances:
  assumes inv: "outbox_inv lib opts P ob s"
  shows "advances lib opts P s (flush_job opts now k e ob)"
proof (cases "\<exists>fl job. obFlush ob = Some fl \<and> flCall fl = None \<and> mget (flRest fl) k = Some job \<and> \<not> obClosed ob (flOwner fl)")
  case False
  then show ?thesis
    by (intro advances_same [OF inv])
      (use inv in \<open>auto simp: flush_job_def Let_def outbox_inv_def split: option.splits if_splits\<close>)
next
  case True
  then obtain fl job where fl: "obFlush ob = Some fl" "flCall fl = None" "mget (flRest fl) k = Some job" "\<not> obClosed ob (flOwner fl)"
    by blast
  let ?next = "fl\<lparr>flRest := mdel k (flRest fl)\<rparr>"
  have snap: "snapshot_ok s fl" using inv fl(1) by (simp add: outbox_inv_def)
  obtain c where c: "mget s k = Some c" "same_job job c" using snap fl(3) unfolding snapshot_ok_def jobs_rel_def by blast
  have ok: "job_ok lib opts P k c" using inv c(1) by (auto simp: outbox_inv_def dest: mallD)
  have next_ok: "snapshot_ok s ?next" using snapshot_ok_rest [OF snap] fl(2) by (simp add: snapshot_ok_def)
  show ?thesis
  proof (cases "wjDone job \<or> wjFailed job \<or> now < wjNextAttempt job")
    case True
    then show ?thesis using fl next_ok
      by (intro advances_same [OF inv]) (auto simp: flush_job_def Let_def)
  next
    case False
    show ?thesis
    proof (cases "committed (obReports ob (wjTurn job)) job")
      case (Inl x)
      then have "flush_job opts now k e ob = record_step opts (flOwner fl) ?next now e k (Some x) ob"
        using fl False by (simp add: flush_job_def Let_def)
      then show ?thesis
        using record_step_advances [OF inv, of ?next k c] snapshot_ok_rest [OF snap] fl(2) c False
        by (simp add: same_job_def)
    next
      case (Inr b)
      have "snapshot_ok s (?next\<lparr>flCall := Some (k, job)\<rparr>)"
        using snapshot_ok_rest [OF snap] c False ok by (auto simp: snapshot_ok_def same_job_def job_ok_def)
      then show ?thesis using fl Inr False next_ok
        by (intro advances_same [OF inv]) (auto simp: flush_job_def Let_def split: bool.splits)
    qed
  qed
qed

lemma store_returns_advances:
  assumes inv: "outbox_inv lib opts P ob s"
  shows "advances lib opts P s (store_returns opts now err e ob)"
proof (cases "\<exists>fl k job. obFlush ob = Some fl \<and> flCall fl = Some (k, job) \<and> \<not> obClosed ob (flOwner fl)")
  case False
  then show ?thesis
    by (intro advances_same [OF inv])
      (use inv in \<open>auto simp: store_returns_def Let_def outbox_inv_def split: option.splits if_splits prod.splits\<close>)
next
  case True
  then obtain fl k job where fl: "obFlush ob = Some fl" "flCall fl = Some (k, job)" "\<not> obClosed ob (flOwner fl)" by blast
  have snap: "snapshot_ok s fl" using inv fl(1) by (simp add: outbox_inv_def)
  obtain c where c: "mget s k = Some c" "\<not> wjFailed c" "mget (flRest fl) k = None"
    using snap fl(2) unfolding snapshot_ok_def same_job_def by blast
  have "store_returns opts now err e ob = record_step opts (flOwner fl) (fl\<lparr>flCall := None\<rparr>) now e k err ob"
    using fl by (simp add: store_returns_def Let_def)
  then show ?thesis
    using record_step_advances [OF inv, of "fl\<lparr>flCall := None\<rparr>" k c] snap c by (simp add: snapshot_ok_def)
qed

lemma prepared_Nil [simp]: "prepared [] = {}"
  by (simp add: prepared_def)

lemma prepared_single: "prepared [x] = (case x of OPrepare i e trace turn session es \<Rightarrow> {(turn, session, es)} | _ \<Rightarrow> {})"
  by (cases x) (auto simp: prepared_def)

lemma outbox_step_advances:
  assumes inv: "outbox_inv lib opts P ob s" and max: "woMaxAttempts opts > 0"
  shows "advances lib opts (P \<union> prepared [x]) s (outbox_step lib opts ob x)"
proof -
  note quiet = prepared_single
  have mall: "mall (job_ok lib opts P) s" and snap: "\<And>fl. obFlush ob = Some fl \<Longrightarrow> snapshot_ok s fl"
    using inv by (simp_all add: outbox_inv_def)
  show ?thesis
  proof (cases x)
    case (OPrepare i e trace turn session es)
    then have P: "P \<union> prepared [x] = P \<union> {(turn, session, es)}" by (auto simp: prepared_def)
    obtain y d where u: "jobs_update e (prepare_fn (new_job lib trace turn session es)) (obFile ob) = (y, d)" by (metis surj_pair)
    have "advances lib opts (P \<union> {(turn, session, es)}) s (ob\<lparr>obFile := d\<rparr>)"
      by (rule advances_producer [OF inv u]) (use prepare_fn_ok [OF _ mall max] in auto)
    moreover have "advances lib opts (P \<union> {(turn, session, es)}) s ob"
      unfolding advances_def using inv mall
      by (intro exI [of _ s]) (auto simp: outbox_inv_def intro: jobs_rel_refl mall_mono job_ok_mono)
    ultimately show ?thesis using u by (simp add: OPrepare outbox_step_def Prepare_def P [unfolded OPrepare])
  next
    case (ORetry e turn)
    obtain y d where u: "jobs_update e (retry_fn turn) (obFile ob) = (y, d)" by (metis surj_pair)
    have "advances lib opts P s (ob\<lparr>obFile := d\<rparr>)"
      by (rule advances_producer [OF inv u]) (use retry_fn_ok [OF _ mall max] in auto)
    then show ?thesis using u quiet ORetry by (simp add: outbox_step_def Retry_def)
  next
    case (OFlush i lease e)
    have "snapshot_ok s fl" if "obFlush (start_flush i lease e ob) = Some fl" for fl
    proof (cases "obFlush ob = Some fl")
      case False
      then have "flCall fl = None" "decode [] (obFile ob) = Inr (flRest fl)"
        using that by (auto simp: start_flush_def dest: file_read_done split: if_splits option.splits prod.splits)
      then show ?thesis using inv by (auto simp: snapshot_ok_def outbox_inv_def intro: jobs_rel_refl)
    qed (rule snap)
    moreover have "obFile (start_flush i lease e ob) = obFile ob"
      by (simp add: start_flush_def split: option.split prod.split)
    ultimately have "advances lib opts P s (start_flush i lease e ob)" by (intro advances_same [OF inv])
    then show ?thesis using quiet OFlush by (simp add: outbox_step_def)
  next
    case OEnd
    have "advances lib opts P s (outbox_step lib opts ob x)"
      using OEnd snap by (intro advances_same [OF inv]) (auto simp: outbox_step_def split: option.splits if_splits)
    then show ?thesis using quiet OEnd by simp
  next
    case (OCrash i)
    have "advances lib opts P s (outbox_step lib opts ob x)"
      using OCrash snap by (intro advances_same [OF inv]) (auto simp: outbox_step_def split: option.splits if_splits)
    then show ?thesis using quiet OCrash by simp
  next
    case (OReport turn r)
    have "advances lib opts P s (outbox_step lib opts ob x)"
      using OReport snap by (intro advances_same [OF inv]) (auto simp: outbox_step_def)
    then show ?thesis using quiet OReport by simp
  next
    case (OClose i)
    have "advances lib opts P s (outbox_step lib opts ob x)"
      using OClose snap by (intro advances_same [OF inv]) (auto simp: outbox_step_def)
    then show ?thesis using quiet OClose by simp
  qed (use quiet flush_job_advances [OF inv] store_returns_advances [OF inv] in \<open>auto simp: outbox_step_def\<close>)
qed

lemma outbox_run_snoc: "outbox_run lib opts (xs @ [x]) ob = outbox_step lib opts (outbox_run lib opts xs ob) x"
  by (simp add: outbox_run_def)

lemma outbox_run_append: "outbox_run lib opts (xs @ ys) ob = outbox_run lib opts ys (outbox_run lib opts xs ob)"
  by (simp add: outbox_run_def)

lemma prepared_append: "prepared (xs @ ys) = prepared xs \<union> prepared ys"
  by (auto simp: prepared_def)

lemma outbox_run_advances:
  assumes "woMaxAttempts opts > 0" "outbox_inv lib opts P ob s"
  shows "advances lib opts (P \<union> prepared xs) s (outbox_run lib opts xs ob)"
proof (induction xs rule: rev_induct)
  case Nil
  then show ?case using assms(2) by (auto simp: advances_def outbox_run_def intro: jobs_rel_refl [OF later_job_refl])
next
  case (snoc x xs)
  then obtain s1 where s1: "outbox_inv lib opts (P \<union> prepared xs) (outbox_run lib opts xs ob) s1" "jobs_rel later_job s s1"
    by (auto simp: advances_def)
  then show ?case
    using outbox_step_advances [OF s1(1) assms(1), of x] jobs_rel_trans [of later_job s s1] later_job_trans
    by (auto simp: advances_def outbox_run_snoc prepared_append Un_assoc)
qed

lemma outbox_inv_start: "outbox_inv lib opts {} new_outbox []"
  by (simp add: outbox_inv_def new_outbox_def)

lemma outbox_inv_run:
  "woMaxAttempts opts > 0 \<Longrightarrow> \<exists>s. outbox_inv lib opts (prepared xs) (outbox_run lib opts xs new_outbox) s"
  using outbox_run_advances [OF _ outbox_inv_start, of opts lib xs] by (auto simp: advances_def)

subsection \<open>What the outbox promises\<close>

lemma record_step_calls [simp]: "obCalls (record_step opts i fl now e k err ob) = obCalls ob"
  by (simp add: record_step_def split: prod.split option.split)

lemma calls_unless_job:
  "(\<And>now k e. x \<noteq> OJob now k e) \<Longrightarrow> obCalls (outbox_step lib opts ob x) = obCalls ob"
  by (cases x) (auto simp: outbox_step_def start_flush_def store_returns_def Let_def split: option.split prod.split)

text \<open>C28. Only committed runs are remembered: when the backend is called, whatever writers, producers, crashes and disk did
  before, then for a job of the file that is neither done nor given up, whose evidence is the sanitized evidence a
  \<open>Prepare\<close> of this turn and session registered; and the run report says that the same session
  completed this turn.\<close>

theorem only_committed_runs_are_remembered:
  assumes "woMaxAttempts opts > 0" and "ob = outbox_run lib opts xs new_outbox"
    and "obCalls (outbox_step lib opts ob x) = obCalls ob @ [(turn, es)]"
  shows "\<exists>s j es0. decode [] (obFile ob) = Inr s \<and> mget s turn = Some j \<and> \<not> wjDone j \<and> \<not> wjFailed j
     \<and> (turn, wjSession j, es0) \<in> prepared xs \<and> es = sanitized lib es0
     \<and> obReports ob turn = Report turn (wjSession j) ''completed''"
proof -
  obtain s where inv: "outbox_inv lib opts (prepared xs) ob s" using outbox_inv_run assms(1,2) by blast
  obtain now k e where x: "x = OJob now k e" using assms(3) calls_unless_job by fastforce
  obtain fl job where fl: "obFlush ob = Some fl" "mget (flRest fl) k = Some job" "\<not> wjDone job" "\<not> wjFailed job"
      "committed (obReports ob (wjTurn job)) job = Inr True" "turn = wjTurn job" "es = wjEvidence job"
    using assms(3) by (auto simp: x outbox_step_def flush_job_def Let_def split: option.splits if_splits sum.splits bool.splits)
  obtain c where c: "mget s k = Some c" "same_job job c"
    using inv fl(1,2) unfolding outbox_inv_def snapshot_ok_def jobs_rel_def by blast
  have ok: "job_ok lib opts (prepared xs) k c" using inv c(1) by (auto simp: outbox_inv_def dest: mallD)
  have "obReports ob turn = Report turn (wjSession c) ''completed''"
    using fl(5,6) c(2) by (auto simp: committed_def same_job_def split: report_file.splits if_splits)
  moreover have "turn = k" "es = wjEvidence c" "\<not> wjDone c" "\<not> wjFailed c"
    using fl ok c(2) by (auto simp: same_job_def job_ok_def)
  ultimately show ?thesis using inv c(1) ok by (auto simp: outbox_inv_def job_ok_def)
qed

definition demo_writer :: writer_options where
  "demo_writer = writer_defaults \<lparr>woPollInterval = 0, woRetryBase = 0, woAttemptTimeout = 0, woMaxAttempts = 0\<rparr>"

definition demo_outbox :: "outbox_step list" where
  "demo_outbox = [OPrepare 0 io_ok no_identity ''t'' ''s'' demo_evidence, OReport ''t'' (Report ''t'' ''s'' ''completed''),
     OFlush 0 None io_ok, OJob 1 ''t'' io_ok, OStored 2 (Some (Msg ''down'')) io_ok, OEnd, OFlush 0 None io_ok]"

lemmas outbox_evaluation = outbox_run_def outbox_step_def Prepare_def Retry_def recordResult_def jobs_update_def prepare_fn_def result_fn_def
  retry_fn_def mput_def mdel_def AList.delete_eq new_job_def new_outbox_def start_flush_def flush_job_def store_returns_def record_step_def end_flush_def note_error_def
  committed_def backoff_def demo_writer_def writer_defaults_def no_time_def filepath_Base_def Let_def

text \<open>A failed call is tried again after a second.\<close>

lemma only_committed_runs_are_remembered_witness:
  "let ob = outbox_run demo_memory demo_writer demo_outbox new_outbox;
       ob' = outbox_step demo_memory demo_writer ob (OJob (3 * Second) ''t'' io_ok)
   in length (obCalls ob) = 1 \<and> length (obCalls ob') = 2 \<and> obReports ob ''t'' = Report ''t'' ''s'' ''completed''"
proof -
  let ?ob = "outbox_run demo_memory demo_writer demo_outbox new_outbox"
  have ev: "obCalls ?ob = [(''t'', demo_evidence)]"
      "obCalls (outbox_step demo_memory demo_writer ?ob (OJob (3 * Second) ''t'' io_ok)) = [(''t'', demo_evidence), (''t'', demo_evidence)]"
    by (simp_all add: demo_outbox_def demo_memory_def demo_evidence_def sanitizeDream_def outbox_evaluation mul64_def is_int64_def
        MaxInt64_def MinInt64_def Second_def Minute_def)
  have "0 < woMaxAttempts demo_writer" by (simp add: demo_writer_def writer_defaults_def)
  note holds = only_committed_runs_are_remembered [OF this refl, of demo_memory demo_outbox "OJob (3 * Second) ''t'' io_ok" "''t''" demo_evidence]
  have "obCalls (outbox_step demo_memory demo_writer ?ob (OJob (3 * Second) ''t'' io_ok)) = obCalls ?ob @ [(''t'', demo_evidence)]"
    unfolding ev by simp
  from holds [OF this] obtain j :: write_job where "obReports ?ob ''t'' = Report ''t'' (wjSession j) ''completed''" "\<exists>es0. (''t'', wjSession j, es0) \<in> prepared demo_outbox"
    by blast
  moreover from this(2) have "wjSession j = ''s''" by (auto simp: prepared_def demo_outbox_def)
  ultimately show ?thesis using ev by simp
qed

text \<open>C29. Accepted memory is kept: a job in the file stays there, whatever writers, producers, crashes and disk do afterwards, with
  its session and evidence; once done it never changes again; its attempts never exceed the limit, and it
  is given up exactly when they have reached it.\<close>

theorem accepted_memory_is_kept:
  assumes "woMaxAttempts opts > 0" and "decode [] (obFile (outbox_run lib opts xs new_outbox)) = Inr s" and "mget s turn = Some j"
  shows "\<exists>s' c. decode [] (obFile (outbox_run lib opts (xs @ ys) new_outbox)) = Inr s' \<and> mget s' turn = Some c \<and> later_job j c
     \<and> wjAttempts c \<le> woMaxAttempts opts \<and> (wjDone c \<or> (wjFailed c \<longleftrightarrow> wjAttempts c \<ge> woMaxAttempts opts))"
proof -
  have inv: "outbox_inv lib opts (prepared xs) (outbox_run lib opts xs new_outbox) s"
    using outbox_inv_run [OF assms(1), of lib xs] assms(2) by (auto simp: outbox_inv_def)
  obtain s' where s': "outbox_inv lib opts (prepared xs \<union> prepared ys) (outbox_run lib opts (xs @ ys) new_outbox) s'" "jobs_rel later_job s s'"
    using outbox_run_advances [OF assms(1) inv, of ys] by (auto simp: advances_def outbox_run_append)
  obtain c where c: "mget s' turn = Some c" "later_job j c" using s'(2) assms(3) by (auto simp: jobs_rel_def)
  have "job_ok lib opts (prepared xs \<union> prepared ys) turn c" using s'(1) c(1) by (auto simp: outbox_inv_def dest: mallD)
  then show ?thesis using s'(1) c by (auto simp: outbox_inv_def job_ok_def)
qed

lemma accepted_memory_is_kept_witness:
  "\<exists>s' c. decode [] (obFile (outbox_run demo_memory demo_writer (demo_outbox @ [OCrash 0, OFlush 1 None io_ok]) new_outbox)) = Inr s'
     \<and> mget s' ''t'' = Some c \<and> wjSession c = ''s'' \<and> wjAttempts c \<le> 5"
proof -
  have max: "0 < woMaxAttempts demo_writer" "woMaxAttempts demo_writer = 5" by (simp_all add: demo_writer_def writer_defaults_def)
  obtain s j where j: "decode [] (obFile (outbox_run demo_memory demo_writer demo_outbox new_outbox)) = Inr s" "mget s ''t'' = Some j" "wjSession j = ''s''"
    by (simp add: demo_outbox_def demo_memory_def demo_evidence_def sanitizeDream_def outbox_evaluation mul64_def is_int64_def
        MaxInt64_def MinInt64_def Second_def Minute_def)
  show ?thesis
    using accepted_memory_is_kept [OF max(1) j(1,2), of "[OCrash 0, OFlush 1 None io_ok]"] max(2) j(3) by (auto simp: later_job_def)
qed

text \<open>An undisturbed flush carries a committed job to its end.\<close>

lemma flush_finishes_job:
  assumes "obFlush ob = None" "\<not> obClosed ob i" "decode [] (obFile ob) = Inr s" "mget s turn = Some j" "wjTurn j = turn"
    and "\<not> wjDone j" "\<not> wjFailed j" "wjNextAttempt j \<le> now" "obReports ob turn = Report turn (wjSession j) ''completed''"
  shows "decode [] (obFile (outbox_run lib opts [OFlush i None io_ok, OJob now turn e, OStored later None io_ok] ob))
     = Inr (mput turn (j\<lparr>wjAttempts := wjAttempts j + 1, wjDone := True, wjLastError := ''''\<rparr>) s)"
  using assms by (simp add: outbox_evaluation)

end
