(* ===== verification/Resilient.thy ===== *)
theory Resilient
  imports Budgeted "HOL-Library.Product_Lexorder"
begin

section \<open>Retries and fallback clients\<close>

text \<open>
  \<open>Retryable\<close> and \<open>Resilient\<close> of \<open>internal/provider/policy.go\<close>, with its methods in \<open>chat.go\<close>. A client is what it does when it is
  called the n-th time with the arguments of this call: its answer, and for a stream the strings that it
  passes to the callback. The callback is given by its result at each of its calls; cancellation and the random
  part of the delay are arguments.
\<close>

subsection \<open>Errors worth a retry\<close>

definition as_http :: "gerr \<Rightarrow> (int \<times> string \<times> int) option" where
  "as_http err = (case errors_as (\<lambda>x. case x of HTTPError _ _ _ \<Rightarrow> True | _ \<Rightarrow> False) err of
     Some (HTTPError status detail after) \<Rightarrow> Some (status, detail, after) | _ \<Rightarrow> None)"

definition Retryable :: "gerr \<Rightarrow> bool" where
  "Retryable err =
     (if \<exists>fatal \<in> {ErrBudgetExhausted, ErrBudgetAccounting, ErrBudgetState, ErrNestedBudget}. errors_is err fatal then False
      else if errors_is err Canceled \<or> errors_is err DeadlineExceeded then False
      else (case as_http err of
              Some (status, detail, after) \<Rightarrow> status = 408 \<or> status = 429 \<or> status \<ge> 500
            | None \<Rightarrow> errors_as (\<lambda>x. case x of NetError _ \<Rightarrow> True | _ \<Rightarrow> False) err \<noteq> None
                      \<or> errors_is err UnexpectedEOF \<or> errors_is err EOF))"

text \<open>The time before the next attempt; \<open>random k\<close> is \<open>rand.Int64N(k)\<close>, below \<open>k\<close>.\<close>

definition Millisecond :: duration where "Millisecond = 1000000"

definition retry_wait :: "duration \<Rightarrow> (int \<Rightarrow> int) \<Rightarrow> nat \<Rightarrow> gerr \<Rightarrow> duration" where
  "retry_wait delay random n err =
     (let wait0 = min (30 * Second) (mul64 (max Millisecond delay) (2 ^ min n 8));
          wait = add64 wait0 (random (max 1 (wait0 div 4)))
      in (case as_http err of None \<Rightarrow> wait | Some (_, _, after) \<Rightarrow> max wait (min Minute after)))"

subsection \<open>The retry loop\<close>

type_synonym answer = "completion \<times> gerr option"

text \<open>What a call did, in order: an attempt of a client (its number, and which of its attempts) with the answer, and a delay.\<close>

datatype attempt_event = Tried nat nat answer | Waited duration

record retry_env =
  reCtx :: "nat \<Rightarrow> gerr option"
  reWaitCtx :: "nat \<Rightarrow> gerr option"
  reRandom :: "nat \<Rightarrow> int \<Rightarrow> int"

text \<open>
  One client, from its attempt \<open>n\<close> with \<open>m\<close> attempts left; \<open>run n s\<close> calls it, in the state \<open>s\<close> of the callback. The first
  component says whether the call has returned. The environment is indexed by the events so far.
\<close>

fun client_loop ::
  "retry_env \<Rightarrow> duration \<Rightarrow> int \<Rightarrow> (nat \<Rightarrow> 's \<Rightarrow> answer \<times> 's) \<Rightarrow> nat \<Rightarrow> nat \<Rightarrow> nat \<Rightarrow> answer \<Rightarrow> 's \<Rightarrow> attempt_event list
     \<Rightarrow> bool \<times> answer \<times> 's \<times> attempt_event list" where
  "client_loop env delay retries run i n 0 out s evs = (False, out, s, evs)"
| "client_loop env delay retries run i n (Suc m) out s evs =
     (case reCtx env (length evs) of
        Some e \<Rightarrow> (True, (fst out, Some e), s, evs)
      | None \<Rightarrow>
         (case run n s of ((c, err), s') \<Rightarrow>
            (let evs' = evs @ [Tried i n (c, err)] in
             (case err of
                None \<Rightarrow> (True, (c, None), s', evs')
              | Some e \<Rightarrow>
                 if \<not> Retryable e then (True, (c, Some e), s', evs')
                 else if int n = retries then (False, (c, Some e), s', evs')
                 else (let evs'' = evs' @ [Waited (retry_wait delay (reRandom env (length evs')) n e)] in
                   (case reWaitCtx env (length evs') of
                      Some x \<Rightarrow> (True, (c, Some x), s', evs'')
                    | None \<Rightarrow> client_loop env delay retries run i (Suc n) m (c, Some e) s' evs''))))))"

fun clients_loop ::
  "retry_env \<Rightarrow> duration \<Rightarrow> int \<Rightarrow> (nat \<Rightarrow> 's \<Rightarrow> answer \<times> 's) list \<Rightarrow> nat \<Rightarrow> answer \<Rightarrow> 's \<Rightarrow> attempt_event list
     \<Rightarrow> answer \<times> 's \<times> attempt_event list" where
  "clients_loop env delay retries [] i out s evs = (out, s, evs)"
| "clients_loop env delay retries (run # runs) i out s evs =
     (case client_loop env delay retries run i 0 (nat (retries + 1)) out s evs of
        (True, out', s', evs') \<Rightarrow> (out', s', evs')
      | (False, out', s', evs') \<Rightarrow> clients_loop env delay retries runs (Suc i) out' s' evs')"

definition resilient_call ::
  "retry_env \<Rightarrow> duration \<Rightarrow> int \<Rightarrow> (nat \<Rightarrow> 's \<Rightarrow> answer \<times> 's) list \<Rightarrow> 's \<Rightarrow> answer \<times> 's \<times> attempt_event list" where
  "resilient_call env delay retries runs s =
     (if runs = [] then ((no_completion, Some (Errorf ''no provider clients configured'' [])), s, [])
      else clients_loop env delay retries runs 0 (no_completion, None) s [])"

subsection \<open>The methods\<close>

record stream_script =
  ssDeltas :: "string list"
  ssAnswer :: answer

record resilient_client =
  rcComplete :: "nat \<Rightarrow> answer"
  rcStream :: "(nat \<Rightarrow> stream_script) option"
  rcInspect :: "(nat \<Rightarrow> answer) option"
  rcChat :: "(nat \<Rightarrow> answer) option"
  rcNative :: bool
  rcChatStream :: "(nat \<Rightarrow> stream_script) option"

record resilient =
  rlClients :: "resilient_client list"
  rlRetries :: int
  rlDelay :: duration

text \<open>Without clients the name of the requested model cannot be read: the methods panic before they call.\<close>

definition no_clients :: "'s \<Rightarrow> answer \<times> 's \<times> attempt_event list" where
  "no_clients s = ((no_completion, Some (Panicked ''index out of range'')), s, [])"

definition with_clients ::
  "retry_env \<Rightarrow> resilient \<Rightarrow> (resilient_client \<Rightarrow> nat \<Rightarrow> 's \<Rightarrow> answer \<times> 's) \<Rightarrow> 's \<Rightarrow> answer \<times> 's \<times> attempt_event list" where
  "with_clients env r run s =
     (if rlClients r = [] then no_clients s else resilient_call env (rlDelay r) (rlRetries r) (map run (rlClients r)) s)"

definition Resilient_Complete :: "retry_env \<Rightarrow> resilient \<Rightarrow> answer \<times> unit \<times> attempt_event list" where
  "Resilient_Complete env r = with_clients env r (\<lambda>c n s. (rcComplete c n, s)) ()"

definition Resilient_InspectImage :: "retry_env \<Rightarrow> resilient \<Rightarrow> answer \<times> unit \<times> attempt_event list" where
  "Resilient_InspectImage env r = with_clients env r
     (\<lambda>c n s. (case rcInspect c of Some v \<Rightarrow> v n | None \<Rightarrow> (no_completion, Some (Errorf ''vision unsupported'' [])), s)) ()"

definition Resilient_Chat :: "retry_env \<Rightarrow> resilient \<Rightarrow> answer \<times> unit \<times> attempt_event list" where
  "Resilient_Chat env r = with_clients env r
     (\<lambda>c n s. (case rcChat c of
         Some ch \<Rightarrow> if rcNative c then ch n else (no_completion, Some (Msg ''native tools unsupported''))
       | None \<Rightarrow> (no_completion, Some (Msg ''native tools unsupported'')), s)) ()"

text \<open>The strings that reached the callback are the state; \<open>delta k\<close> is the result of its call number \<open>k\<close>.\<close>

record emission =
  emSent :: "string list"
  emEmitted :: bool
  emFailed :: bool

definition Stream_emit :: "(nat \<Rightarrow> gerr option) \<Rightarrow> string \<Rightarrow> emission \<Rightarrow> gerr option \<times> emission" where
  "Stream_emit delta x em =
     (let e = delta (length (emSent em))
      in (e, \<lparr>emSent = emSent em @ [x], emEmitted = (if x \<noteq> '''' then True else emEmitted em), emFailed = (e \<noteq> None)\<rparr>))"

definition ChatStream_emit :: "(nat \<Rightarrow> gerr option) \<Rightarrow> string \<Rightarrow> emission \<Rightarrow> gerr option \<times> emission" where
  "ChatStream_emit delta x em =
     (let e = delta (length (emSent em))
      in (e, \<lparr>emSent = emSent em @ [x], emEmitted = (emEmitted em \<or> x \<noteq> ''''), emFailed = (emFailed em \<or> e \<noteq> None)\<rparr>))"

definition emit_all :: "(string \<Rightarrow> emission \<Rightarrow> gerr option \<times> emission) \<Rightarrow> string list \<Rightarrow> emission \<Rightarrow> emission" where
  "emit_all emit xs em = foldl (\<lambda>em x. snd (emit x em)) em xs"

definition stream_end :: "answer \<Rightarrow> emission \<Rightarrow> answer \<times> string list" where
  "stream_end a em =
     (case a of
        (v, Some e) \<Rightarrow> ((v, Some (if emEmitted em \<or> emFailed em then PartialStream e else e)), emSent em)
      | (v, None) \<Rightarrow> (a, emSent em))"

text \<open>A client that cannot stream answers first, and its text is the only delta.\<close>

definition emit_text :: "(string \<Rightarrow> emission \<Rightarrow> gerr option \<times> emission) \<Rightarrow> bool \<Rightarrow> answer \<Rightarrow> emission \<Rightarrow> answer \<times> string list" where
  "emit_text emit blank a em =
     (case a of
        (v, Some e) \<Rightarrow> stream_end a em
      | (v, None) \<Rightarrow> if \<not> blank \<and> cText v = '''' then stream_end a em
                     else (case emit (cText v) em of (e, em') \<Rightarrow> stream_end (v, e) em'))"

definition fresh_emission :: "string list \<Rightarrow> emission" where
  "fresh_emission sent = \<lparr>emSent = sent, emEmitted = False, emFailed = False\<rparr>"

definition stream_run :: "(nat \<Rightarrow> gerr option) \<Rightarrow> resilient_client \<Rightarrow> nat \<Rightarrow> string list \<Rightarrow> answer \<times> string list" where
  "stream_run delta c n sent =
     (let emit = Stream_emit delta; em = fresh_emission sent in
      (case rcStream c of
         Some st \<Rightarrow> stream_end (ssAnswer (st n)) (emit_all emit (ssDeltas (st n)) em)
       | None \<Rightarrow> emit_text emit True (rcComplete c n) em))"

definition chat_stream_run :: "(nat \<Rightarrow> gerr option) \<Rightarrow> resilient_client \<Rightarrow> nat \<Rightarrow> string list \<Rightarrow> answer \<times> string list" where
  "chat_stream_run delta c n sent =
     (let emit = ChatStream_emit delta; em = fresh_emission sent in
      (case rcChatStream c of
         Some st \<Rightarrow> stream_end (ssAnswer (st n)) (emit_all emit (ssDeltas (st n)) em)
       | None \<Rightarrow> (case rcChat c of
            Some ch \<Rightarrow> emit_text emit False (ch n) em
          | None \<Rightarrow> stream_end (no_completion, Some (Msg ''native tools unsupported'')) em)))"

definition unwrap_partial :: "answer \<times> 's \<times> 'l \<Rightarrow> answer \<times> 's \<times> 'l" where
  "unwrap_partial r =
     (case r of ((out, err), s, evs) \<Rightarrow>
        ((out, (case err of None \<Rightarrow> None
           | Some e \<Rightarrow> (case errors_as (\<lambda>x. case x of PartialStream _ \<Rightarrow> True | _ \<Rightarrow> False) e of
                Some (PartialStream x) \<Rightarrow> Some x | _ \<Rightarrow> Some e))), s, evs))"

definition Resilient_Stream :: "retry_env \<Rightarrow> resilient \<Rightarrow> (nat \<Rightarrow> gerr option) \<Rightarrow> answer \<times> string list \<times> attempt_event list" where
  "Resilient_Stream env r delta = unwrap_partial (with_clients env r (stream_run delta) [])"

definition Resilient_ChatStream :: "retry_env \<Rightarrow> resilient \<Rightarrow> (nat \<Rightarrow> gerr option) \<Rightarrow> answer \<times> string list \<times> attempt_event list" where
  "Resilient_ChatStream env r delta = unwrap_partial (with_clients env r (chat_stream_run delta) [])"

subsection \<open>What a call does\<close>

definition tries :: "attempt_event list \<Rightarrow> (nat \<times> nat \<times> answer) list" where
  "tries evs = concat (map (\<lambda>e. case e of Tried i n a \<Rightarrow> [(i, n, a)] | Waited _ \<Rightarrow> []) evs)"

definition retried :: "nat \<times> nat \<times> answer \<Rightarrow> bool" where
  "retried x = (case x of (i, n, c, None) \<Rightarrow> False | (i, n, c, Some e) \<Rightarrow> Retryable e)"

definition run_attempt :: "(nat \<Rightarrow> nat \<Rightarrow> 's \<Rightarrow> answer \<times> 's) \<Rightarrow> 's \<Rightarrow> nat \<times> nat \<times> answer \<Rightarrow> 's" where
  "run_attempt run s x = snd (run (fst x) (fst (snd x)) s)"

definition answered_by :: "(nat \<Rightarrow> nat \<Rightarrow> 's \<Rightarrow> answer \<times> 's) \<Rightarrow> nat \<times> nat \<times> answer \<Rightarrow> bool" where
  "answered_by run x \<longleftrightarrow> (\<exists>s. snd (snd x) = fst (run (fst x) (fst (snd x)) s))"

lemma tries_simps [simp]: "tries [] = []" "tries (evs @ fs) = tries evs @ tries fs" "tries (Tried i n a # evs) = (i, n, a) # tries evs" "tries (Waited w # evs) = tries evs"
  by (simp_all add: tries_def)

lemma retried_cases [simp]: "retried (i, n, c, None) = False" "retried (i, n, c, Some e) = Retryable e"
  by (simp_all add: retried_def)

text \<open>The attempts of one client, in order, each but the last followed because its error is worth a retry.\<close>

lemma client_loop_spec:
  "client_loop env delay retries (run i) i n m out s evs = (b, out', s', evs') \<Longrightarrow>
     \<exists>T. tries evs' = tries evs @ T \<and> length T \<le> m \<and> map (\<lambda>x. (fst x, fst (snd x))) T = map (Pair i) [n..<n + length T]
       \<and> list_all retried (butlast T) \<and> (\<not> b \<longrightarrow> list_all retried T) \<and> list_all (answered_by run) T
       \<and> s' = foldl (run_attempt run) s T \<and> (\<not> b \<longrightarrow> (if T = [] then m = 0 \<and> out' = out else snd (snd (last T)) = out'))
       \<and> (snd out' = None \<longrightarrow> b \<longrightarrow> T \<noteq> [] \<and> snd (snd (last T)) = out')"
proof (induction m arbitrary: n out s evs)
  case 0
  then show ?case by (intro exI [of _ "[]"]) auto
next
  case (Suc m)
  show ?case
  proof (cases "reCtx env (length evs)")
    case (Some e)
    then show ?thesis using Suc.prems by (intro exI [of _ "[]"]) auto
  next
    case None
    obtain c err s1 where run: "run i n s = ((c, err), s1)" by (metis surj_pair)
    have by_run: "answered_by run (i, n, c, err)" unfolding answered_by_def using run by (metis fst_conv snd_conv)
    have step: "run_attempt run s (i, n, c, err) = s1" using run by (simp add: run_attempt_def)
    let ?evs = "evs @ [Tried i n (c, err)]"
    show ?thesis
    proof (cases "\<exists>e. err = Some e \<and> Retryable e \<and> int n \<noteq> retries \<and> reWaitCtx env (length ?evs) = None")
      case False
      then show ?thesis using Suc.prems None run by_run step
        by (intro exI [of _ "[(i, n, c, err)]"])
          (auto simp: Let_def split: option.splits if_splits prod.splits)
    next
      case True
      then obtain e where e: "err = Some e" "Retryable e" "int n \<noteq> retries" "reWaitCtx env (length ?evs) = None" by blast
      let ?evs2 = "?evs @ [Waited (retry_wait delay (reRandom env (length ?evs)) n e)]"
      have "client_loop env delay retries (run i) i (Suc n) m (c, Some e) s1 ?evs2 = (b, out', s', evs')"
        using Suc.prems None run e by (simp add: Let_def)
      from Suc.IH [OF this] obtain T where T: "tries evs' = tries ?evs2 @ T" "length T \<le> m"
          "map (\<lambda>x. (fst x, fst (snd x))) T = map (Pair i) [Suc n..<Suc n + length T]"
          "list_all retried (butlast T)" "\<not> b \<longrightarrow> list_all retried T" "list_all (answered_by run) T"
          "s' = foldl (run_attempt run) s1 T" "\<not> b \<longrightarrow> (if T = [] then m = 0 \<and> out' = (c, Some e) else snd (snd (last T)) = out')"
          "snd out' = None \<longrightarrow> b \<longrightarrow> T \<noteq> [] \<and> snd (snd (last T)) = out'"
        by (elim exE conjE) (rule that; assumption)
      have "map (\<lambda>x. (fst x, fst (snd x))) ((i, n, c, err) # T) = map (Pair i) [n..<n + length ((i, n, c, err) # T)]"
        using T(3) by (simp add: upt_conv_Cons del: upt_Suc)
      moreover have "tries evs' = tries evs @ (i, n, c, err) # T" using T(1) by simp
      moreover have "s' = foldl (run_attempt run) s ((i, n, c, err) # T)" using T(7) step by simp
      moreover have "list_all retried (butlast ((i, n, c, err) # T))" "\<not> b \<longrightarrow> list_all retried ((i, n, c, err) # T)"
        using T(4,5) e by simp_all
      moreover have "list_all (answered_by run) ((i, n, c, err) # T)" "length ((i, n, c, err) # T) \<le> Suc m" using T(2,6) by_run by simp_all
      moreover have "\<not> b \<longrightarrow> (if (i, n, c, err) # T = [] then Suc m = 0 \<and> out' = out else snd (snd (last ((i, n, c, err) # T))) = out')"
          "snd out' = None \<longrightarrow> b \<longrightarrow> (i, n, c, err) # T \<noteq> [] \<and> snd (snd (last ((i, n, c, err) # T))) = out'"
        using T(8,9) e(1) by (cases "T = []"; simp)+
      ultimately show ?thesis by (intro exI [of _ "(i, n, c, err) # T"] conjI)
    qed
  qed
qed

definition in_order :: "(nat \<times> nat \<times> answer) list \<Rightarrow> bool" where
  "in_order T \<longleftrightarrow> sorted_wrt (<) (map (\<lambda>x. (fst x, fst (snd x))) T)"

lemma clients_loop_spec:
  assumes "clients_loop env delay retries (map run [i..<i + k]) i out s evs = (out', s', evs')" "retries \<ge> 0"
  shows "\<exists>T. tries evs' = tries evs @ T \<and> length T \<le> k * nat (retries + 1) \<and> in_order T
       \<and> list_all (\<lambda>x. i \<le> fst x \<and> fst x < i + k \<and> int (fst (snd x)) \<le> retries) T
       \<and> list_all retried (butlast T) \<and> list_all (answered_by run) T \<and> s' = foldl (run_attempt run) s T
       \<and> (snd out' = None \<longrightarrow> snd out = None \<and> k = 0 \<or> T \<noteq> [] \<and> snd (snd (last T)) = out')"
  using assms(1)
proof (induction k arbitrary: i out s evs)
  case 0
  then show ?case by (intro exI [of _ "[]"]) (simp add: in_order_def)
next
  case (Suc k)
  obtain b out1 s1 evs1 where one: "client_loop env delay retries (run i) i 0 (nat (retries + 1)) out s evs = (b, out1, s1, evs1)"
    by (metis prod_cases4)
  have "[i..<i + Suc k] = i # [Suc i..<Suc i + k]" by (simp add: upt_rec)
  then have both: "clients_loop env delay retries (run i # map run [Suc i..<Suc i + k]) i out s evs = (out', s', evs')"
    using Suc.prems by (simp del: upt_Suc)
  obtain T where T: "tries evs1 = tries evs @ T" "length T \<le> nat (retries + 1)" "map (\<lambda>x. (fst x, fst (snd x))) T = map (Pair i) [0..<0 + length T]"
      "list_all retried (butlast T)" "\<not> b \<longrightarrow> list_all retried T" "list_all (answered_by run) T" "s1 = foldl (run_attempt run) s T"
      "\<not> b \<longrightarrow> (if T = [] then nat (retries + 1) = 0 \<and> out1 = out else snd (snd (last T)) = out1)"
      "snd out1 = None \<longrightarrow> b \<longrightarrow> T \<noteq> [] \<and> snd (snd (last T)) = out1"
    using client_loop_spec [where run = run, OF one] by (elim exE conjE) (rule that; assumption)
  have mine: "fst x = i \<and> int (fst (snd x)) \<le> retries" if "x \<in> set T" for x
  proof -
    have "(fst x, fst (snd x)) \<in> set (map (\<lambda>x. (fst x, fst (snd x))) T)" using that by force
    then have "(fst x, fst (snd x)) \<in> set (map (Pair i) [0..<length T])" by (simp only: T(3) add_0)
    then show ?thesis using T(2) assms(2) by auto
  qed
  have ordered: "in_order T" by (simp add: in_order_def T(3) sorted_wrt_map)
  show ?case
  proof (cases b)
    case True
    then have "out' = out1" "s' = s1" "evs' = evs1" using both one by (simp_all del: upt_Suc)
    then show ?thesis using T mine ordered True
      by (intro exI [of _ T]) (auto simp: list_all_iff)
  next
    case False
    have rest: "clients_loop env delay retries (map run [Suc i..<Suc i + k]) (Suc i) out1 s1 evs1 = (out', s', evs')"
      using both one False by (simp del: upt_Suc)
    have T_all: "T \<noteq> []" "list_all retried T" "snd (snd (last T)) = out1" using T(5,8) False assms(2) by (auto split: if_splits)
    then have err: "snd out1 \<noteq> None"
      by (cases "last T") (auto simp: list_all_iff retried_def dest: last_in_set split: option.splits prod.splits)
    obtain U where U: "tries evs' = tries evs1 @ U" "length U \<le> k * nat (retries + 1)" "in_order U"
        "list_all (\<lambda>x. Suc i \<le> fst x \<and> fst x < Suc i + k \<and> int (fst (snd x)) \<le> retries) U"
        "list_all retried (butlast U)" "list_all (answered_by run) U" "s' = foldl (run_attempt run) s1 U"
        "snd out' = None \<longrightarrow> snd out1 = None \<and> k = 0 \<or> U \<noteq> [] \<and> snd (snd (last U)) = out'"
      using Suc.IH [OF rest] by (elim exE conjE) (rule that; assumption)
    have "in_order (T @ U)"
      using ordered U(3,4) mine by (auto simp: in_order_def sorted_wrt_append list_all_iff)
    moreover have "list_all retried (butlast (T @ U))"
      using T(4) T_all U(5) by (auto simp: butlast_append)
    moreover have "length (T @ U) \<le> Suc k * nat (retries + 1)" using T(2) U(2) by simp
    moreover have "tries evs' = tries evs @ (T @ U)" "s' = foldl (run_attempt run) s (T @ U)" "list_all (answered_by run) (T @ U)"
      using T(1,6,7) U(1,6,7) by simp_all
    moreover have "list_all (\<lambda>x. i \<le> fst x \<and> fst x < i + Suc k \<and> int (fst (snd x)) \<le> retries) (T @ U)"
      using mine U(4) by (auto simp: list_all_iff)
    moreover have "snd out' = None \<longrightarrow> snd out = None \<and> Suc k = 0 \<or> T @ U \<noteq> [] \<and> snd (snd (last (T @ U))) = out'"
      using U(8) err by auto
    ultimately show ?thesis by (intro exI [of _ "T @ U"] conjI)
  qed
qed

subsection \<open>Streams\<close>

text \<open>What a client passes to the callback at its \<open>n\<close>-th attempt.\<close>

definition text_delta :: "bool \<Rightarrow> answer \<Rightarrow> string list" where
  "text_delta blank a = (case a of (v, Some e) \<Rightarrow> [] | (v, None) \<Rightarrow> if \<not> blank \<and> cText v = '''' then [] else [cText v])"

definition Stream_delivered :: "resilient_client \<Rightarrow> nat \<Rightarrow> string list" where
  "Stream_delivered c n = (case rcStream c of Some st \<Rightarrow> ssDeltas (st n) | None \<Rightarrow> text_delta True (rcComplete c n))"

definition ChatStream_delivered :: "resilient_client \<Rightarrow> nat \<Rightarrow> string list" where
  "ChatStream_delivered c n = (case rcChatStream c of Some st \<Rightarrow> ssDeltas (st n)
     | None \<Rightarrow> (case rcChat c of Some ch \<Rightarrow> text_delta False (ch n) | None \<Rightarrow> []))"

lemma PartialStream_not_retryable [simp]: "\<not> Retryable (PartialStream e)"
  by (simp add: Retryable_def as_http_def errors_is_def errors_as_def)

definition emits :: "(string \<Rightarrow> emission \<Rightarrow> gerr option \<times> emission) \<Rightarrow> bool" where
  "emits emit \<longleftrightarrow> (\<forall>x em. emSent (snd (emit x em)) = emSent em @ [x] \<and> (emEmitted (snd (emit x em)) \<longleftrightarrow> emEmitted em \<or> x \<noteq> ''''))"

lemma emits_both [simp]: "emits (Stream_emit delta)" "emits (ChatStream_emit delta)"
  by (simp_all add: emits_def Stream_emit_def ChatStream_emit_def Let_def)

lemma emit_all_spec:
  "emits emit \<Longrightarrow> emSent (emit_all emit xs em) = emSent em @ xs \<and> (emEmitted (emit_all emit xs em) \<longleftrightarrow> emEmitted em \<or> concat xs \<noteq> '''')"
  by (induction xs arbitrary: em) (auto simp: emit_all_def emits_def)

lemma stream_end_spec:
  "stream_end a em = (a', sent) \<Longrightarrow> sent = emSent em \<and> (retried (i, n, a') \<longrightarrow> \<not> emEmitted em)"
  by (auto simp: stream_end_def retried_def split: prod.splits option.splits if_splits)

lemma emit_text_spec:
  assumes "emits emit" "emit_text emit blank a em = (a', sent)"
  shows "sent = emSent em @ text_delta blank a \<and> (retried (i, n, a') \<longrightarrow> concat (text_delta blank a) = '''')"
proof -
  obtain v err where a: "a = (v, err)" by (cases a)
  obtain e em' where em': "emit (cText v) em = (e, em')" by (metis surj_pair)
  then have "emSent em' = emSent em @ [cText v]" "emEmitted em' \<longleftrightarrow> emEmitted em \<or> cText v \<noteq> ''''"
    using assms(1) by (metis emits_def snd_conv)+
  then show ?thesis using assms(2) a em' stream_end_spec [of _ _ a' sent i n]
    by (auto simp: emit_text_def text_delta_def split: option.splits if_splits)
qed

lemma stream_run_spec:
  "stream_run delta c n sent = (a, sent') \<Longrightarrow> sent' = sent @ Stream_delivered c n \<and> (retried (i, n, a) \<longrightarrow> concat (Stream_delivered c n) = '''')"
  by (cases "rcStream c")
    (auto simp: stream_run_def Let_def Stream_delivered_def fresh_emission_def emit_all_spec dest: stream_end_spec emit_text_spec [rotated])

lemma chat_stream_run_spec:
  "chat_stream_run delta c n sent = (a, sent')
     \<Longrightarrow> sent' = sent @ ChatStream_delivered c n \<and> (retried (i, n, a) \<longrightarrow> concat (ChatStream_delivered c n) = '''')"
  by (cases "rcChatStream c"; cases "rcChat c")
    (auto simp: chat_stream_run_def Let_def ChatStream_delivered_def fresh_emission_def emit_all_spec dest: stream_end_spec emit_text_spec [rotated])

text \<open>The promise of a streamed call.\<close>

definition streamed_once :: "resilient \<Rightarrow> (resilient_client \<Rightarrow> nat \<Rightarrow> string list) \<Rightarrow> answer \<times> string list \<times> attempt_event list \<Rightarrow> bool" where
  "streamed_once r delivered res = (case res of ((out, err), sent, evs) \<Rightarrow>
     length (tries evs) \<le> length (rlClients r) * nat (rlRetries r + 1) \<and> in_order (tries evs) \<and> list_all retried (butlast (tries evs))
     \<and> concat sent = (if tries evs = [] then '''' else case last (tries evs) of (i, n, a) \<Rightarrow> concat (delivered (rlClients r ! i) n))
     \<and> (err = None \<longrightarrow> tries evs \<noteq> [] \<and> snd (snd (last (tries evs))) = (out, None)))"

lemma run_attempts_sent:
  assumes run: "\<And>i n sent a sent'. run i n sent = (a, sent') \<Longrightarrow> sent' = sent @ deliv i n \<and> (retried (i, n, a) \<longrightarrow> concat (deliv i n) = '''')"
    and T: "list_all retried (butlast T)" "list_all (answered_by run) T"
  shows "concat (foldl (run_attempt run) sent T) = concat sent @ (if T = [] then '''' else case last T of (i, n, a) \<Rightarrow> concat (deliv i n))"
proof -
  have sent: "snd (run i n s) = s @ deliv i n" for i n s by (metis run surj_pair snd_conv)
  have "concat (deliv i n) = ''''" if "answered_by run (i, n, a)" "retried (i, n, a)" for i n a
    using that run unfolding answered_by_def by (metis fst_conv snd_conv surj_pair)
  then show ?thesis using T
  proof (induction T arbitrary: sent)
    case (Cons x T)
    obtain i n a where x: "x = (i, n, a)" by (metis prod_cases3)
    show ?case
    proof (cases "T = []")
      case True
      then show ?thesis by (simp add: x run_attempt_def sent)
    next
      case False
      have "answered_by run (i, n, a)" "retried (i, n, a)" using Cons.prems(2,3) x False by simp_all
      then have "concat (deliv i n) = ''''" by (rule Cons.prems(1))
      then show ?thesis using Cons.IH [where sent = "run_attempt run sent x", OF Cons.prems(1)] Cons.prems False
        by (simp add: x run_attempt_def sent)
    qed
  qed simp
qed

lemma with_clients_streams_once:
  assumes run: "\<And>c n sent a sent' i. run c n sent = (a, sent') \<Longrightarrow> sent' = sent @ deliv c n \<and> (retried (i, n, a) \<longrightarrow> concat (deliv c n) = '''')"
    and "rlRetries r \<ge> 0"
  shows "streamed_once r deliv (unwrap_partial (with_clients env r run []))"
proof (cases "rlClients r = []")
  case True
  then show ?thesis by (simp add: with_clients_def no_clients_def unwrap_partial_def streamed_once_def in_order_def errors_as_def)
next
  case False
  let ?cs = "rlClients r" and ?run = "\<lambda>i. run (rlClients r ! i)"
  have runs: "map run ?cs = map ?run [0..<0 + length ?cs]" by (rule nth_equalityI) simp_all
  obtain out err sent evs where res: "with_clients env r run [] = ((out, err), sent, evs)" by (metis surj_pair)
  then have "clients_loop env (rlDelay r) (rlRetries r) (map ?run [0..<0 + length ?cs]) 0 (no_completion, None) [] [] = ((out, err), sent, evs)"
    using False runs by (simp add: with_clients_def resilient_call_def)
  from clients_loop_spec [OF this assms(2)]
  obtain T where T: "tries evs = T" "length T \<le> length ?cs * nat (rlRetries r + 1)" "in_order T" "list_all retried (butlast T)"
      "list_all (answered_by ?run) T" "sent = foldl (run_attempt ?run) [] T" "err = None \<longrightarrow> T \<noteq> [] \<and> snd (snd (last T)) = (out, err)"
    using False by auto
  have "concat sent = (if T = [] then '''' else case last T of (i, n, a) \<Rightarrow> concat (deliv (?cs ! i) n))"
    unfolding T(6) using run_attempts_sent [where run = ?run and deliv = "\<lambda>i n. deliv (?cs ! i) n" and T = T and sent = "[]"] run T(4,5) by simp
  then show ?thesis using T res
    by (auto simp: streamed_once_def unwrap_partial_def split: option.splits gerr.splits)
qed

text \<open>The delay between attempts.\<close>

lemma is_int64I: "0 \<le> x \<Longrightarrow> x \<le> MaxInt64 \<Longrightarrow> is_int64 x"
  by (simp add: is_int64_def MinInt64_def)

lemma retry_wait_bounds:
  assumes "delay \<le> 2 ^ 54" "\<And>k. k > 0 \<Longrightarrow> 0 \<le> random k \<and> random k < k"
  shows "Millisecond \<le> retry_wait delay random n err" "retry_wait delay random n err \<le> Minute"
proof -
  let ?f = "max Millisecond delay * 2 ^ min n 8"
  have p: "(1::int) \<le> 2 ^ min n 8" "(2::int) ^ min n 8 \<le> 2 ^ 8" by (simp_all add: power_increasing del: power_numeral)
  have m: "0 < max Millisecond delay" "max Millisecond delay \<le> 2 ^ 54" using assms(1) by (auto simp: Millisecond_def max_def)
  have f: "max Millisecond delay \<le> ?f" using m p(1) mult_left_mono [of 1 "2 ^ min n 8" "max Millisecond delay"] by simp
  have "?f \<le> 2 ^ 54 * 2 ^ 8" using m p by (intro mult_mono) auto
  moreover have "0 \<le> ?f" using f m(1) by linarith
  ultimately have "is_int64 ?f" by (intro is_int64I) (simp_all add: MaxInt64_def)
  then have "mul64 (max Millisecond delay) (2 ^ min n 8) = ?f" unfolding mul64_def by (rule wrap64_id)
  then obtain w where w: "w = min (30 * Second) (mul64 (max Millisecond delay) (2 ^ min n 8))" "Millisecond \<le> w" "w \<le> 30 * Second"
    using f by (auto simp: Second_def Millisecond_def)
  have k: "0 \<le> random (max 1 (w div 4))" "random (max 1 (w div 4)) < max 1 (w div 4)" using assms(2) [of "max 1 (w div 4)"] by simp_all
  have "add64 w (random (max 1 (w div 4))) = w + random (max 1 (w div 4))"
    by (rule add64_id) (use w(2,3) k in \<open>auto simp: Second_def Millisecond_def MaxInt64_def max_def split: if_splits\<close>)
  then show "Millisecond \<le> retry_wait delay random n err" "retry_wait delay random n err \<le> Minute"
    unfolding retry_wait_def Let_def w(1) [symmetric] using w(2,3) k
    by (auto simp: Second_def Minute_def Millisecond_def max_def split: option.split prod.split if_splits)
qed

text \<open>C7. A streamed call retries safely: over the fallback clients it makes at most the allowed number of attempts, client by client
  in their order; it goes on only after an error that is worth a retry; whatever the callback, the clients and the
  context do, all text that reached the callback is that of the last attempt, so no text is ever repeated by a retry;
  and it succeeds only with the answer of that attempt.\<close>

theorem streamed_call_is_not_repeated:
  assumes "rlRetries r \<ge> 0"
  shows "streamed_once r Stream_delivered (Resilient_Stream env r delta)
       \<and> streamed_once r ChatStream_delivered (Resilient_ChatStream env r delta)"
  unfolding Resilient_Stream_def Resilient_ChatStream_def
  using with_clients_streams_once [OF stream_run_spec assms] with_clients_streams_once [OF chat_stream_run_spec assms] by simp

definition demo_resilient :: resilient where
  "demo_resilient =
     \<lparr>rlClients = [\<lparr>rcComplete = (\<lambda>n. (no_completion, Some EOF)), rcStream = Some (\<lambda>n. \<lparr>ssDeltas = [''''], ssAnswer = (no_completion, Some EOF)\<rparr>),
         rcInspect = None, rcChat = None, rcNative = False, rcChatStream = None\<rparr>,
       \<lparr>rcComplete = (\<lambda>n. (no_completion, None)), rcStream = Some (\<lambda>n. \<lparr>ssDeltas = [''o'', ''k''], ssAnswer = (no_completion, None)\<rparr>),
         rcInspect = None, rcChat = None, rcNative = False, rcChatStream = None\<rparr>],
      rlRetries = 1, rlDelay = 0\<rparr>"

definition demo_retry_env :: retry_env where
  "demo_retry_env = \<lparr>reCtx = (\<lambda>k. None), reWaitCtx = (\<lambda>k. None), reRandom = (\<lambda>k m. 0)\<rparr>"

lemma streamed_call_is_not_repeated_witness:
  "streamed_once demo_resilient Stream_delivered (Resilient_Stream demo_retry_env demo_resilient (\<lambda>k. None))
     \<and> fst (snd (Resilient_Stream demo_retry_env demo_resilient (\<lambda>k. None))) = ['''', '''', ''o'', ''k'']"
proof -
  have "rlRetries demo_resilient \<ge> 0" by (simp add: demo_resilient_def)
  moreover have "Retryable EOF" by (simp add: Retryable_def as_http_def errors_is_def errors_as_def)
  ultimately show ?thesis
    using streamed_call_is_not_repeated [of demo_resilient demo_retry_env "\<lambda>k. None"]
    by (simp add: Resilient_Stream_def with_clients_def resilient_call_def demo_resilient_def demo_retry_env_def stream_run_def Let_def
        stream_end_def emit_all_def Stream_emit_def fresh_emission_def unwrap_partial_def numeral_2_eq_2)
qed

end
