(* ===== verification/Resume.thy ===== *)
theory Resume
  imports Engine
begin

section \<open>Turns and the resumption of frozen batches\<close>

text \<open>
  \<open>internal/runtime/approval_continuation.go\<close> and \<open>Agent.Ask\<close> of \<open>agent.go\<close>: a new turn starts only when no batch is frozen; a
  frozen batch is resumed by the principal it belongs to, with a decision on its approval, after the results that its
  journal holds are recovered. The mutex, the turn lease and the reads of the session are arguments; \<open>rsOwner\<close> says that
  the stored session is the one this agent last wrote and not older than the continuation.
\<close>

subsection \<open>Asking\<close>

record ask_env =
  asLock :: "gerr option"
  asClosed :: bool
  asCtx :: "gerr option"
  asLease :: "gerr option"
  asRead :: "gerr option"

text \<open>A call that is refused before it reaches the engine.\<close>

definition refused_turn :: "gerr \<Rightarrow> turn_state \<Rightarrow> turn_result option" where
  "refused_turn e st = Some (('''', Some e), st, 0)"

definition ensureNoPendingApproval :: "agent \<Rightarrow> gerr option \<Rightarrow> turn_state \<Rightarrow> gerr option" where
  "ensureNoPendingApproval ag rd st =
     (case rd of
        Some e \<Rightarrow> Some e
      | None \<Rightarrow> if coActive (tuContinuation st)
                then Some (pendingError ag (tuContinuation st) ''resolve the frozen tool batch before starting another turn'') else None)"

definition Ask :: "'h engine_env \<Rightarrow> 'h turn_start \<Rightarrow> ask_env \<Rightarrow> string \<Rightarrow> turn_state \<Rightarrow> turn_result option" where
  "Ask en ts ae request st =
     (case asLock ae of
        Some e \<Rightarrow> refused_turn e st
      | None \<Rightarrow>
       if asClosed ae then refused_turn (Errorf ''agent is closed'' []) st
       else (case asCtx ae of
          Some e \<Rightarrow> refused_turn e st
        | None \<Rightarrow>
         (case asLease ae of
            Some e \<Rightarrow> refused_turn e st
          | None \<Rightarrow>
           (case ensureNoPendingApproval (reAgent en) (asRead ae) st of
              Some e \<Rightarrow> refused_turn e st
            | None \<Rightarrow> run_turn en ts request None st))))"

definition PendingApprovals ::
  "agent \<Rightarrow> gerr option \<Rightarrow> gerr option \<Rightarrow> io \<Rightarrow> instant \<Rightarrow> turn_state \<Rightarrow> gerr + approval_record list" where
  "PendingApprovals ag lock rd e now st =
     (case lock of
        Some x \<Rightarrow> Inl x
      | None \<Rightarrow>
       (case rd of
          Some x \<Rightarrow> Inl x
        | None \<Rightarrow>
         (let c = tuContinuation st in
          if \<not> coActive c then Inr []
          else if coPendingID c \<noteq> '''' then
            (case approval_Get e (coPendingID c) (agPrincipal ag) (tuApprovals st) of Inl x \<Rightarrow> Inl x | Inr r \<Rightarrow> Inr [r])
          else approval_Pending e now (agPrincipal ag) (agSession ag) (tuApprovals st))))"

subsection \<open>Resuming\<close>

record 'h resume_env =
  rsLock :: "gerr option"
  rsClosed :: bool
  rsLease :: "gerr option"
  rsRead :: "gerr option"
  rsLoad :: "gerr option"
  rsOwner :: bool
  rsSaveResults :: replaced
  rsSaveAdvance :: replaced
  rsGet :: io
  rsDecide :: io
  rsNow :: instant
  rsRegistry :: "'h registry"
  rsFiles :: file_view
  rsSnapshot :: "gerr option"
  rsSaveFrozen :: replaced

fun index_of :: "('a \<Rightarrow> bool) \<Rightarrow> nat \<Rightarrow> 'a list \<Rightarrow> nat option" where
  "index_of p i [] = None"
| "index_of p i (x # xs) = (if p x then Some i else index_of p (Suc i) xs)"

definition terminal_status :: "approval_status \<Rightarrow> bool" where
  "terminal_status s \<longleftrightarrow> s = Completed \<or> s = Denied \<or> s = Expired"

text \<open>The approval must belong to this batch, and to the next call unless it is over.\<close>

definition belongs_to_batch :: "continuation \<Rightarrow> string \<Rightarrow> approval_record \<Rightarrow> bool" where
  "belongs_to_batch c k r \<longleftrightarrow> acSession (arAction r) = coSession c \<and> acTurn (arAction r) = tkRunID (coTask c)
     \<and> (case index_of (\<lambda>call. tcID call = acCallID (arAction r)) 0 (coCalls c) of
          None \<Rightarrow> False
        | Some i \<Rightarrow> i \<le> coNext c \<and> (i < coNext c \<longrightarrow> terminal_status (arStatus r)))
     \<and> (coPendingID c = '''' \<or> coPendingID c = k)"

definition definitions_unchanged :: "tool_lib \<Rightarrow> 'h registry \<Rightarrow> continuation \<Rightarrow> bool" where
  "definitions_unchanged lib reg c \<longleftrightarrow> (\<forall>call \<in> set (drop (coNext c) (coCalls c)).
     case mget (coDefinitions c) (tcName call) of
       None \<Rightarrow> True
     | Some expected \<Rightarrow> (case mget (rgSpecs reg) (tcName call) of None \<Rightarrow> False | Some s \<Rightarrow> tlDefinition lib s = expected))"

text \<open>The approved version of a file is read again, so that the write that follows counts as informed.\<close>

definition restore_read ::
  "agent \<Rightarrow> tool_lib \<Rightarrow> 'h resume_env \<Rightarrow> bool \<Rightarrow> continuation \<Rightarrow> approval_record \<Rightarrow> gerr option" where
  "restore_read ag lib rs allow c r =
     (if allow \<and> writes_file (acTool (arAction r)) \<and> arStatus r = Approved \<and> coNext c < length (coCalls c) then
        (case mget (rgSpecs (rsRegistry rs)) (acTool (arAction r)) of
           None \<Rightarrow> Some (pendingError ag c ''tool no longer exists'')
         | Some spec \<Rightarrow>
            (case approvalAction lib (ag\<lparr>agRun := tkRunID (coTask c)\<rparr>) (rsFiles rs) (coCalls c ! coNext c) spec of
               Inl e \<Rightarrow> Some (pendingError ag c (Error e))
             | Inr current \<Rightarrow>
                if arAction r \<noteq> current then Some (pendingError ag c ''approved file or tool definition changed'')
                else if mget (acPreconditions current) ''content'' \<noteq> Some ''absent'' then rsSnapshot rs else None))
      else None)"

definition decided :: "'h resume_env \<Rightarrow> string \<Rightarrow> string \<Rightarrow> bool \<Rightarrow> approval_record \<Rightarrow> turn_state \<Rightarrow> (gerr + approval_record) \<times> turn_state" where
  "decided rs k who allow r st =
     (if arStatus r = Pending \<or> arStatus r = Approved then
        (case Decide (rsDecide rs) (rsNow rs) k who allow (tuApprovals st) of
           ((r', x), d) \<Rightarrow>
             (case x of
                None \<Rightarrow> Inr r'
              | Some e \<Rightarrow> if errors_is e ErrApprovalExpired then Inr r' else Inl e, st\<lparr>tuApprovals := d\<rparr>))
      else (Inr r, st))"

text \<open>The agent of the resumed turn: the limits of the frozen batch, its run, and durable approvals.\<close>

definition resumed_agent :: "continuation \<Rightarrow> agent \<Rightarrow> agent" where
  "resumed_agent c ag = ag\<lparr>agAsync := True, agRun := tkRunID (coTask c),
     agMaxSteps := min (agMaxSteps ag) (coMaxSteps c), agMaxAttempts := min (agMaxAttempts ag) (coMaxAttempts c)\<rparr>"

text \<open>What is checked before anything changes, and the frozen batch it leads to.\<close>

definition resumable :: "agent \<Rightarrow> 'h resume_env \<Rightarrow> string \<Rightarrow> turn_state \<Rightarrow> gerr + continuation" where
  "resumable ag rs who st =
     (case rsLock rs of
        Some e \<Rightarrow> Inl e
      | None \<Rightarrow>
       if rsClosed rs then Inl (Msg ''agent is closed'')
       else if who \<noteq> agPrincipal ag then Inl ErrApprovalIdentity
       else (case rsLease rs of
          Some e \<Rightarrow> Inl e
        | None \<Rightarrow>
         (case rsRead rs of
            Some e \<Rightarrow> Inl e
          | None \<Rightarrow>
           (let c = tuContinuation st in
            if \<not> coActive c \<or> coNext c > length (coCalls c) \<or> length (coBlocked c) \<noteq> length (coCalls c)
            then Inl (Msg ''no resumable approval batch'')
            else if coPrincipal c \<noteq> who \<or> coSession c \<noteq> agSession ag then Inl ErrApprovalIdentity
            else (case rsLoad rs of
                Some e \<Rightarrow> Inl e
              | None \<Rightarrow>
                 if \<not> rsOwner rs then Inl (pendingError ag c ''session owner or messages changed; frozen action was not executed'')
                 else Inr c)))))"

text \<open>From the recovered batch on: the approval is found and decided, the tools and the file are what was frozen, and the
  batch is frozen again with this approval before it runs.\<close>

definition resume_checked ::
  "agent \<Rightarrow> turn_lib \<Rightarrow> tool_lib \<Rightarrow> 'h resume_env \<Rightarrow> string \<Rightarrow> string \<Rightarrow> bool \<Rightarrow> continuation \<Rightarrow> turn_state
     \<Rightarrow> (gerr + continuation) \<times> turn_state" where
  "resume_checked ag lib tlib rs k who allow c st =
     (case approval_Get (rsGet rs) k who (tuApprovals st) of
        Inl e \<Rightarrow> (Inl e, st)
      | Inr r \<Rightarrow>
         if \<not> belongs_to_batch c k r then (Inl ErrApprovalIdentity, st)
         else (let c1 = c\<lparr>coPendingID := k\<rparr> in
           if arStatus r = Claimed \<or> arStatus r = Unknown
           then (Inl (pendingError ag c1 ''tool outcome is unknown; reconcile externally, never replay automatically''), st)
           else (case decided rs k who allow r st of
               (Inl e, st1) \<Rightarrow> (Inl e, st1)
             | (Inr r1, st1) \<Rightarrow>
                if \<not> definitions_unchanged tlib (rsRegistry rs) c1
                then (Inl (pendingError ag c1 ''a frozen batch tool definition changed''), st1)
                else (case restore_read ag tlib rs allow c1 r1 of
                    Some e \<Rightarrow> (Inl e, st1)
                  | None \<Rightarrow>
                     (case saveContinuation lib (rsSaveFrozen rs) c1 st1 of
                        (Some e, c2, st2) \<Rightarrow> (Inl e, st2)
                      | (None, c2, st2) \<Rightarrow> (Inr c2, st2))))))"

definition ResumeApproval ::
  "'h engine_env \<Rightarrow> 'h turn_start \<Rightarrow> 'h resume_env \<Rightarrow> string \<Rightarrow> string \<Rightarrow> bool \<Rightarrow> turn_state \<Rightarrow> turn_result option" where
  "ResumeApproval en ts rs k user allow st =
     (let ag = reAgent en; who = (if user = '''' then ''local'' else user) in
      (case resumable ag rs who st of
         Inl e \<Rightarrow> refused_turn e st
       | Inr c \<Rightarrow>
          (case recoverBufferedResults ag (reLib en) (rsSaveResults rs) (rsSaveAdvance rs) c st of
             (Some e, c1, st1) \<Rightarrow> refused_turn e st1
           | (None, c1, st1) \<Rightarrow>
              (case resume_checked ag (reLib en) (reTools en) rs k who allow c1 st1 of
                 (Inl e, st2) \<Rightarrow> refused_turn e st2
               | (Inr c2, st2) \<Rightarrow> run_turn (en\<lparr>reAgent := resumed_agent c2 ag\<rparr>) ts (coRequest c2) (Some c2) st2))))"

subsection \<open>Journalled results survive a crash\<close>

text \<open>
  What is on disk when \<open>commit_group\<close> has stopped, in any of its writes: the continuation before it, the journal \<open>J\<close> of
  the group, or the continuation after it; with the session before or after the group.
\<close>

definition commit_state :: "(gerr \<times> turn_state) + (continuation \<times> turn_state) \<Rightarrow> turn_state" where
  "commit_state out = (case out of Inl (x, s) \<Rightarrow> s | Inr (c, s) \<Rightarrow> s)"

definition frozen :: "turn_lib \<Rightarrow> continuation \<Rightarrow> turn_state \<Rightarrow> continuation" where
  "frozen lib c st = c\<lparr>coDigest := tulDigest lib (tuSaved st), coLedgerLength := length (tuSaved st), coTask := redact_task lib (coTask c),
     coBufferedTask := map_option (redact_task lib) (coBufferedTask c), coRequest := tulRedact lib (coRequest c)\<rparr>"

lemma frozen_simps [simp]:
  "coBuffered (frozen lib c st) = coBuffered c" "coNext (frozen lib c st) = coNext c" "coDigest (frozen lib c st) = tulDigest lib (tuSaved st)"
  "coBufferedGuard (frozen lib c st) = coBufferedGuard c" "coBufferedNext (frozen lib c st) = coBufferedNext c" "coCalls (frozen lib c st) = coCalls c"
  "coBufferedTask (frozen lib c st) = map_option (redact_task lib) (coBufferedTask c)" "coLedgerLength (frozen lib c st) = length (tuSaved st)"
  by (simp_all add: frozen_def)

lemma saved_when_True:
  "saved_when True lib w c st = (write_error w, frozen lib c st, if written w then st\<lparr>tuContinuation := frozen lib c st\<rparr> else st)"
  by (simp add: saved_when_def saveContinuation_def frozen_def Let_def)

definition journal_of :: "turn_lib \<Rightarrow> nat \<Rightarrow> nat \<Rightarrow> continuation \<Rightarrow> turn_state \<Rightarrow> continuation" where
  "journal_of lib endpos ledger c st =
     frozen lib (c\<lparr>coBuffered := map (\<lambda>m. m\<lparr>mContent := tulRedact lib (mContent m)\<rparr>) (drop ledger (tuMessages st)),
       coBufferedTask := Some (tuTask st), coBufferedGuard := Some (tuGuard st), coBufferedNext := endpos\<rparr>) st"

definition clean_ledger :: "turn_lib \<Rightarrow> message list \<Rightarrow> bool" where
  "clean_ledger lib ms \<longleftrightarrow> (\<forall>m \<in> set ms. \<forall>b \<in> set (mNative m). tulBlock lib b = None)"

lemma saveSession_clean:
  assumes "clean_ledger lib (tuMessages st)"
  shows "saveSession lib w st = (write_error w, if written w then st\<lparr>tuSaved := map (stored_message lib) (tuMessages st)\<rparr> else st)"
proof -
  have "find (\<lambda>b. tulBlock lib b \<noteq> None) (concat (map mNative (tuMessages st))) = None"
    using assms by (auto simp: find_None_iff clean_ledger_def)
  then show ?thesis by (simp add: saveSession_def)
qed

lemma commit_group_durable:
  assumes "clean_ledger lib (tuMessages st)" "st' = commit_state (commit_group lib be True start endpos ledger c st)"
  shows "tuContinuation st' = tuContinuation st \<and> tuSaved st' = tuSaved st
       \<or> tuContinuation st' = journal_of lib endpos ledger c st \<and> tuSaved st' \<in> {tuSaved st, map (stored_message lib) (tuMessages st)}
       \<or> coBuffered (tuContinuation st') = [] \<and> coNext (tuContinuation st') = endpos
           \<and> tuSaved st' = map (stored_message lib) (tuMessages st) \<and> coDigest (tuContinuation st') = tulDigest lib (tuSaved st')"
proof -
  let ?st1 = "st\<lparr>tuContinuation := journal_of lib endpos ledger c st\<rparr>"
  have S: "saveSession lib w ?st1 = (write_error w, if written w then ?st1\<lparr>tuSaved := map (stored_message lib) (tuMessages st)\<rparr> else ?st1)" for w
    using saveSession_clean [of lib ?st1 w] assms(1) by simp
  note step = commit_group_def [of lib be True start endpos ledger c st, unfolded if_True saved_when_True [of lib "baSave be start 3"] journal_of_def [symmetric]]
  show ?thesis
  proof (cases "baSave be start 3")
    case Replaced
    then show ?thesis using assms(2)
      by (cases "baSave be start 4"; cases "baSave be start 7")
        (auto simp: step S commit_state_def Let_def written_def saved_when_True split: option.splits)
  qed (use assms(2) in \<open>auto simp: step commit_state_def written_def\<close>)
qed

lemma stored_message_idem:
  assumes "\<And>s. tulRedact lib (tulRedact lib s) = tulRedact lib s" "\<And>a. tulRedactArgs lib (tulRedactArgs lib a) = tulRedactArgs lib a"
  shows "stored_message lib (stored_message lib m) = stored_message lib m"
  using assms by (simp add: stored_message_def comp_def)

text \<open>The journal is replayed onto the session before the group, and recognised in the session after it.\<close>

lemma recover_journal:
  assumes digest: "tulDigest lib (map (stored_message lib) (msgs @ results)) \<noteq> tulDigest lib (map (stored_message lib) msgs)"
    and idem: "\<And>s. tulRedact lib (tulRedact lib s) = tulRedact lib s" "\<And>a. tulRedactArgs lib (tulRedactArgs lib a) = tulRedactArgs lib a"
    and clean: "clean_ledger lib (tuMessages st)" and ledger: "tuMessages st = msgs @ results" "results \<noteq> []"
    and before: "tuSaved st = map (stored_message lib) msgs"
    and batch: "coNext c + length results \<le> length (coCalls c)" "answers (take (length results) (drop (coNext c) (coCalls c))) results"
    and after: "tuContinuation st' = journal_of lib (coNext c + length results) (length msgs) c st" "tuMessages st' = tuSaved st'"
      "tuSaved st' \<in> {tuSaved st, map (stored_message lib) (tuMessages st)}"
    and recovered: "recoverBufferedResults ag lib Replaced Replaced (tuContinuation st') st' = (x, c2, st2)"
  shows "x = None \<and> coNext c2 = coNext c + length results \<and> coBuffered c2 = [] \<and> tuSaved st2 = map (stored_message lib) (tuMessages st)
       \<and> tuMessages st2 = tuSaved st2"
proof -
  let ?j = "journal_of lib (coNext c + length results) (length msgs) c st"
  have calls: "mToolCalls m = []" if "m \<in> set results" for m using batch(2) that by (auto simp: answers_def)
  then have buffered: "coBuffered ?j = map (stored_message lib) results"
    by (auto simp: journal_of_def ledger(1) stored_message_def)
  have ids: "mRole (coBuffered ?j ! i) = ''tool'' \<and> mToolCallID (coBuffered ?j ! i) = tcID (coCalls c ! (coNext c + i))" if "i < length results" for i
  proof -
    have "map mToolCallID results ! i = map tcID (take (length results) (drop (coNext c) (coCalls c))) ! i"
      using batch(2) by (simp add: answers_def)
    then show ?thesis using that batch by (auto simp: buffered stored_message_def answers_def)
  qed
  have fields: "coBufferedTask ?j \<noteq> None" "coBufferedGuard ?j \<noteq> None" "coBufferedNext ?j = coNext c + length results" "coNext ?j = coNext c"
      "coCalls ?j = coCalls c" "coLedgerLength ?j = length msgs" "coDigest ?j = tulDigest lib (map (stored_message lib) msgs)"
    by (simp_all add: journal_of_def before)
  let ?full = "map (stored_message lib) msgs @ map (stored_message lib) results"
  have cleaned: "clean_ledger lib ?full"
    using clean by (simp add: clean_ledger_def ledger(1) ball_Un stored_message_def)
  have twice: "map (stored_message lib) ?full = ?full" by (simp add: stored_message_idem [OF idem])
  have ok: "\<not> (coBufferedTask ?j = None \<or> coBufferedGuard ?j = None \<or> coBufferedNext ?j \<noteq> coNext ?j + length (coBuffered ?j)
      \<or> coBufferedNext ?j > length (coCalls ?j) \<or> coLedgerLength ?j > length (tuSaved st'))"
    using batch(1) after(3) by (auto simp: fields buffered before ledger(1))
  have ids': "\<not> (\<exists>i < length (coBuffered ?j). mRole (coBuffered ?j ! i) \<noteq> ''tool'' \<or> mToolCallID (coBuffered ?j ! i) \<noteq> tcID (coCalls ?j ! (coNext ?j + i)))"
    using ids by (auto simp: fields buffered)
  have some: "coBuffered ?j \<noteq> []" using ledger(2) by (simp add: buffered)
  note replay = recovered [unfolded after(1) recoverBufferedResults_def Let_def if_not_P [OF some] if_not_P [OF ok] if_not_P [OF ids']]
  show ?thesis
  proof (cases "tuSaved st' = tuSaved st")
    case True
    have "saveSession lib Replaced (st'\<lparr>tuMessages := ?full\<rparr>) = (None, st'\<lparr>tuMessages := ?full, tuSaved := ?full\<rparr>)"
      using saveSession_clean [of lib "st'\<lparr>tuMessages := ?full\<rparr>" Replaced] cleaned twice by (simp add: written_def)
    then show ?thesis
      using replay True by (auto simp: fields before buffered ledger(1) saveContinuation_def Let_def written_def)
  next
    case False
    then have "tuSaved st' = ?full" using after(3) ledger(1) by simp
    moreover have "tulDigest lib ?full \<noteq> tulDigest lib (map (stored_message lib) msgs)"
      using digest by simp
    ultimately show ?thesis
      using replay by (auto simp: fields buffered ledger(1) saveContinuation_def Let_def written_def after(2))
  qed
qed

text \<open>C30. Results are recovered once: wherever the process stops while a group of tool results is committed (any of the writes may
  fail, or reach the disk and then report an error), a process that opens the session afterwards either finds the
  continuation and session as they were before, or recovers, with writes that work, exactly the conversation before the group
  followed by each of its results once, and goes on behind the group. The redactor is idempotent and the digest
  tells the two conversations apart.\<close>

theorem committed_results_are_recovered_once:
  assumes "\<And>s. tulRedact lib (tulRedact lib s) = tulRedact lib s" and "\<And>a. tulRedactArgs lib (tulRedactArgs lib a) = tulRedactArgs lib a"
    and "tulDigest lib (map (stored_message lib) (msgs @ results)) \<noteq> tulDigest lib (map (stored_message lib) msgs)"
    and "clean_ledger lib (msgs @ results)" and "results \<noteq> []"
    and "tuMessages st = msgs @ results" and "tuSaved st = map (stored_message lib) msgs"
    and "coNext c + length results \<le> length (coCalls c)" and "answers (take (length results) (drop (coNext c) (coCalls c))) results"
    and "st' = commit_state (commit_group lib be True (coNext c) (coNext c + length results) (length msgs) c st)"
    and "recoverBufferedResults ag lib Replaced Replaced (tuContinuation st') (st'\<lparr>tuMessages := tuSaved st'\<rparr>) = (x, c2, st2)"
  shows "tuContinuation st' = tuContinuation st \<and> tuSaved st' = tuSaved st
     \<or> x = None \<and> coNext c2 = coNext c + length results \<and> coBuffered c2 = []
         \<and> tuSaved st2 = map (stored_message lib) (msgs @ results) \<and> tuMessages st2 = tuSaved st2"
proof -
  have clean: "clean_ledger lib (tuMessages st)" using assms(4,6) by simp
  let ?boot = "st'\<lparr>tuMessages := tuSaved st'\<rparr>"
  from commit_group_durable [OF clean assms(10)] consider
      (untouched) "tuContinuation st' = tuContinuation st" "tuSaved st' = tuSaved st"
    | (journalled) "tuContinuation st' = journal_of lib (coNext c + length results) (length msgs) c st"
        "tuSaved st' \<in> {tuSaved st, map (stored_message lib) (tuMessages st)}"
    | (advanced) "coBuffered (tuContinuation st') = []" "coNext (tuContinuation st') = coNext c + length results"
        "tuSaved st' = map (stored_message lib) (tuMessages st)" "coDigest (tuContinuation st') = tulDigest lib (tuSaved st')"
    by blast
  then show ?thesis
  proof cases
    case journalled
    have "recoverBufferedResults ag lib Replaced Replaced (tuContinuation ?boot) ?boot = (x, c2, st2)" using assms(11) by simp
    from recover_journal [OF assms(3,1,2) clean assms(6,5,7,8,9) _ _ _ this] journalled assms(6) show ?thesis by simp
  next
    case advanced
    then show ?thesis using assms(6,11) by (auto simp: recoverBufferedResults_def Let_def)
  qed simp
qed

text \<open>The process stops after the session is saved, before the continuation advances.\<close>

definition demo_digest_lib :: turn_lib where
  "demo_digest_lib = demo_turn_lib\<lparr>tulDigest := (\<lambda>ms. replicate (length ms) (CHR ''x''))\<rparr>"

definition demo_crash_env :: "unit batch_env" where
  "demo_crash_env = demo_batch_env\<lparr>baSave := (\<lambda>start k. if k = 4 then Unsynced (Msg ''stopped'') else Replaced)\<rparr>"

definition demo_result :: message where
  "demo_result = \<lparr>mID = ''m'', mToolCalls = [], mToolCallID = ''c1'', mRole = ''tool'', mContent = ''r'', mNative = []\<rparr>"

definition demo_joined :: turn_state where
  "demo_joined = demo_turn\<lparr>tuMessages := [demo_calls, demo_result], tuSaved := [demo_calls]\<rparr>"

definition demo_frozen :: continuation where
  "demo_frozen = no_continuation\<lparr>coActive := True, coCalls := mToolCalls demo_calls\<rparr>"

definition demo_after :: turn_state where
  "demo_after = commit_state (commit_group demo_digest_lib demo_crash_env True 0 1 1 demo_frozen demo_joined)"

lemma committed_results_are_recovered_once_witness:
  "\<exists>c2 st2. recoverBufferedResults demo_agent demo_digest_lib Replaced Replaced (tuContinuation demo_after) (demo_after\<lparr>tuMessages := tuSaved demo_after\<rparr>)
       = (None, c2, st2) \<and> coNext c2 = 1 \<and> tuMessages st2 = [demo_calls, demo_result]"
proof -
  have stored: "stored_message demo_digest_lib m = m" for m
    by (simp add: stored_message_def demo_digest_lib_def demo_turn_lib_def)
  have lib: "tulRedact demo_digest_lib = id" "tulRedactArgs demo_digest_lib = id" "tulDigest demo_digest_lib ms = replicate (length ms) (CHR ''x'')" for ms
    by (simp_all add: demo_digest_lib_def demo_turn_lib_def)
  have all_stored: "map (stored_message demo_digest_lib) ms = ms" for ms using stored by (simp add: map_idI)
  have clean: "clean_ledger demo_digest_lib ms" for ms by (simp add: clean_ledger_def demo_digest_lib_def demo_turn_lib_def)
  have env: "baSave demo_crash_env 0 3 = Replaced" "baSave demo_crash_env 0 4 = Unsynced (Msg ''stopped'')" by (simp_all add: demo_crash_env_def)
  have turn: "tuMessages demo_joined = [demo_calls] @ [demo_result]" "tuSaved demo_joined = [demo_calls]" by (simp_all add: demo_joined_def)
  have calls: "coNext demo_frozen = 0" "coCalls demo_frozen = mToolCalls demo_calls" "length (mToolCalls demo_calls) = 2"
      "map tcID (take 1 (mToolCalls demo_calls)) = [''c1'']"
    by (simp_all add: demo_frozen_def no_continuation_def demo_calls_def)
  have saved: "tuSaved demo_after = [demo_calls, demo_result]"
    by (simp add: demo_after_def commit_state_def commit_group_def saved_when_True saveSession_clean [OF clean] env written_def all_stored turn)
  obtain x c2 st2 where r: "recoverBufferedResults demo_agent demo_digest_lib Replaced Replaced (tuContinuation demo_after)
      (demo_after\<lparr>tuMessages := tuSaved demo_after\<rparr>) = (x, c2, st2)" by (metis surj_pair)
  have "tuContinuation demo_after = tuContinuation demo_joined \<and> tuSaved demo_after = tuSaved demo_joined
     \<or> x = None \<and> coNext c2 = coNext demo_frozen + length [demo_result] \<and> coBuffered c2 = []
         \<and> tuSaved st2 = map (stored_message demo_digest_lib) ([demo_calls] @ [demo_result]) \<and> tuMessages st2 = tuSaved st2"
  proof (rule committed_results_are_recovered_once [OF _ _ _ clean _ turn(1) _ _ _ _ r])
    show "demo_after = commit_state (commit_group demo_digest_lib demo_crash_env True (coNext demo_frozen)
        (coNext demo_frozen + length [demo_result]) (length [demo_calls]) demo_frozen demo_joined)"
      by (simp add: demo_after_def calls)
    show "answers (take (length [demo_result]) (drop (coNext demo_frozen) (coCalls demo_frozen))) [demo_result]"
      using calls by (simp add: answers_def demo_result_def)
  qed (simp_all add: lib stored turn calls all_stored)
  then show ?thesis using r saved turn calls(1) by (auto simp: stored)
qed

end
