(* ===== verification/Service.thy ===== *)
theory Service
  imports Scheduler Workers Outbox
begin

section \<open>Conversations of a service and the summaries of their workers\<close>

text \<open>
  \<open>internal/runtime/service_routes.go\<close>, \<open>worker_summary_store.go\<close>, and the hand-over of summaries in \<open>service_workers.go\<close>,
  \<open>service_summary_recovery.go\<close> and \<open>Service.run\<close> of \<open>service.go\<close>. A conversation is bound once, in a durable file, to a session
  and a source; the summary of finished workers is recorded before it is generated, and handed to the sink by whoever
  holds its delivery lease: the service for a conversation that it has loaded, or a pass over conversations that it has not.
  Identifiers, the clock, run reports and the answers of the sink are arguments.
\<close>

subsection \<open>Routes\<close>

record route =
  rtSession :: string
  rtSource :: source

type_synonym routes = "route gomap"

record resolve_env =
  rvRoot :: "gerr option"
  rvLease :: "gerr option"
  rvRead :: io
  rvSession :: string
  rvSave :: "gerr option"
  rvUpdate :: io

definition route_fn :: "string \<Rightarrow> source \<Rightarrow> string \<Rightarrow> (routes, unit) callback" where
  "route_fn cid src sid s =
     (case mget s cid of
        Some r \<Rightarrow> if rtSource r \<noteq> src then ((), Inl (Msg ''conversation source changed during initialization''))
                  else ((), Inl (Msg ''conversation route already initialized''))
      | None \<Rightarrow> ((), Inr (mput cid \<lparr>rtSession = sid, rtSource = src\<rparr> s)))"

text \<open>The session identifier is returned with the error.\<close>

definition resolveSession :: "resolve_env \<Rightarrow> string \<Rightarrow> source \<Rightarrow> routes content \<Rightarrow> (string \<times> gerr option) \<times> routes content" where
  "resolveSession rv cid src d =
     (if srcChannel src \<noteq> '''' \<and> (srcSenderID src = '''' \<or> srcChatID src = '''')
      then (('''', Some (Msg ''channel conversation requires trusted sender and chat identity'')), d)
      else (case rvRoot rv of
          Some e \<Rightarrow> (('''', Some e), d)
        | None \<Rightarrow>
         (case rvLease rv of
            Some e \<Rightarrow> (('''', Some e), d)
          | None \<Rightarrow>
           (case file_read [] (rvRead rv) d of
              (_, Some e) \<Rightarrow> (('''', Some e), d)
            | (s, None) \<Rightarrow>
               (case mget s cid of
                  Some r \<Rightarrow>
                    if rtSource r \<noteq> src then (('''', Some (Msg ''conversation is bound to another source identity'')), d)
                    else if rtSession r = '''' then (('''', Some (Msg ''conversation route has no session'')), d)
                    else ((rtSession r, None), d)
                | None \<Rightarrow>
                   (case rvSave rv of
                      Some e \<Rightarrow> (('''', Some e), d)
                    | None \<Rightarrow>
                       (case file_update [] (rvUpdate rv) () (route_fn cid src (rvSession rv)) d of
                          ((_, x), d') \<Rightarrow> ((rvSession rv, x), d'))))))))"

subsection \<open>Summaries\<close>

record summary =
  suConversation :: string
  suSession :: string
  suRun :: string
  suText :: string
  suSource :: source
  suIdentity :: identity

record summary_receipt =
  srSummary :: summary
  srStatus :: string
  srCreatedAt :: instant
  srResults :: "receipt list"
  srLastError :: string

type_synonym summary_state = "summary_receipt gomap"

definition open_summary :: "summary_receipt \<Rightarrow> bool" where
  "open_summary r \<longleftrightarrow> srStatus r = ''generating'' \<or> srStatus r = ''pending''"

definition closed_summary :: "summary_receipt \<Rightarrow> bool" where
  "closed_summary r \<longleftrightarrow> srStatus r = ''revoked'' \<or> srStatus r = ''accepted''"

definition save_summary_fn :: "summary_receipt \<Rightarrow> (summary_state, unit) callback" where
  "save_summary_fn r s =
     (case mget s (suRun (srSummary r)) of
        Some old \<Rightarrow> if closed_summary old then ((), Inr s) else ((), Inr (mput (suRun (srSummary r)) r s))
      | None \<Rightarrow> ((), Inr (mput (suRun (srSummary r)) r s)))"

definition settle_summary_fn :: "string \<Rightarrow> string \<Rightarrow> string \<Rightarrow> (summary_state, unit) callback" where
  "settle_summary_fn k status why s =
     (case mget s k of
        None \<Rightarrow> ((), Inl (Msg ''summary receipt missing''))
      | Some r \<Rightarrow> if closed_summary r then ((), Inr s)
                 else ((), Inr (mput k (r\<lparr>srStatus := status, srLastError := why\<rparr>) s)))"

definition revoke_summaries_fn :: "string \<Rightarrow> (summary_state, unit) callback" where
  "revoke_summaries_fn cid s =
     ((), Inr (map (\<lambda>(k, r). (k, if suConversation (srSummary r) = cid \<and> srStatus r \<noteq> ''accepted'' then r\<lparr>srStatus := ''revoked''\<rparr> else r)) s))"

definition summary_update :: "io \<Rightarrow> (summary_state, unit) callback \<Rightarrow> summary_state content \<Rightarrow> gerr option \<times> summary_state content" where
  "summary_update e fn d = (case file_update [] e () fn d of ((_, x), d') \<Rightarrow> (x, d'))"

definition saveSummary :: "io \<Rightarrow> summary_receipt \<Rightarrow> summary_state content \<Rightarrow> gerr option \<times> summary_state content" where
  "saveSummary e r d = summary_update e (save_summary_fn r) d"

definition settleSummary :: "io \<Rightarrow> string \<Rightarrow> string \<Rightarrow> string \<Rightarrow> summary_state content \<Rightarrow> gerr option \<times> summary_state content" where
  "settleSummary e k status why d = summary_update e (settle_summary_fn k status why) d"

definition revokeSummaries :: "io \<Rightarrow> string \<Rightarrow> summary_state content \<Rightarrow> gerr option \<times> summary_state content" where
  "revokeSummaries e cid d = summary_update e (revoke_summaries_fn cid) d"

text \<open>The oldest open summary of a conversation.\<close>

definition nextSummary :: "io \<Rightarrow> string \<Rightarrow> summary_state content \<Rightarrow> gerr + summary_receipt option" where
  "nextSummary e cid d =
     (case file_read [] e d of
        (_, Some x) \<Rightarrow> Inl x
      | (s, None) \<Rightarrow>
         (case sort_key srCreatedAt (filter (\<lambda>r. suConversation (srSummary r) = cid \<and> open_summary r) (mvals s)) of
            [] \<Rightarrow> Inr None | r # _ \<Rightarrow> Inr (Some r)))"

text \<open>
  A run report gives run, session, status and final answer, when it can be read. \<open>slFront\<close> is the first line of the
  text made of raw results, \<open>slRunes n\<close> the first \<open>n\<close> runes of a text.
\<close>

record summary_lib =
  slFront :: string
  slRunes :: "nat \<Rightarrow> string \<Rightarrow> string"

definition raw_text :: "summary_lib \<Rightarrow> receipt list \<Rightarrow> string" where
  "raw_text sl rs = slRunes sl 16000 (slFront sl @ concat (map (\<lambda>r. rcID r @ '' ['' @ rcStatus r @ '']: '' @ rcResult r @ rcError r @ newline) rs))"

definition recoverSummary ::
  "summary_lib \<Rightarrow> (string \<times> string \<times> string \<times> string) option \<Rightarrow> io \<Rightarrow> summary_receipt \<Rightarrow> summary_state content
     \<Rightarrow> (summary_receipt \<times> gerr option) \<times> summary_state content" where
  "recoverSummary sl report e r d =
     (if srStatus r \<noteq> ''generating'' then ((r, None), d)
      else (let s = srSummary r;
                text = (case report of
                    Some (run, session, status, answer) \<Rightarrow>
                      if run = suRun s \<and> session = suSession s \<and> status = ''completed'' then answer else raw_text sl (srResults r)
                  | None \<Rightarrow> raw_text sl (srResults r));
                r' = r\<lparr>srSummary := s\<lparr>suText := text\<rparr>, srStatus := ''pending''\<rparr>
            in (case saveSummary e r' d of (x, d') \<Rightarrow> ((r', x), d'))))"

definition detachedSummaryMatchesRoute :: "string \<Rightarrow> summary_receipt \<Rightarrow> routes \<Rightarrow> bool" where
  "detachedSummaryMatchesRoute k r rts =
     (case mget rts (suConversation (srSummary r)) of
        None \<Rightarrow> False
      | Some rt \<Rightarrow>
          if rtSession rt \<noteq> suSession (srSummary r) \<or> rtSource rt \<noteq> suSource (srSummary r) \<or> k \<noteq> suRun (srSummary r) \<or> k = ''''
             \<or> filepath_Base k \<noteq> k \<or> CHR ''/'' \<in> set k \<or> CHR 0x5C \<in> set k then False
          else srcChannel (rtSource rt) = '''' \<or> srcChatID (rtSource rt) \<noteq> '''' \<and> srcSenderID (rtSource rt) \<noteq> '''')"

subsection \<open>Handing over\<close>

text \<open>
  \<open>svAgents\<close>: the session and the owner of the conversations that are loaded. Who holds the delivery lease of a
  summary is in a phase: \<open>Held\<close>, with the record it will send, then \<open>Handed\<close> with the answer of the sink. \<open>svSent\<close> records the calls
  of the sink.
\<close>

datatype phase = Free | Held summary_receipt bool | Handed "gerr option" bool

record service_state =
  svSummaries :: "summary_state content"
  svRoutes :: "routes content"
  svAgents :: "string \<Rightarrow> (string \<times> source) option"
  svLease :: "string \<Rightarrow> phase"
  svSent :: "(string \<times> summary) list"

definition new_service :: service_state where
  "new_service = \<lparr>svSummaries = Absent, svRoutes = Absent, svAgents = (\<lambda>_. None), svLease = (\<lambda>_. Free), svSent = []\<rparr>"

text \<open>\<open>Service.run\<close> binds a conversation when it loads its agent; \<open>built\<close> is the error of \<open>New\<close>.\<close>

definition load_agent :: "resolve_env \<Rightarrow> gerr option \<Rightarrow> string \<Rightarrow> source \<Rightarrow> service_state \<Rightarrow> gerr option \<times> service_state" where
  "load_agent rv built cid src sv =
     (case svAgents sv cid of
        Some (sid, owner) \<Rightarrow> (if owner \<noteq> src then Some (Msg ''conversation is bound to another source identity'') else None, sv)
      | None \<Rightarrow>
         (case resolveSession rv cid src (svRoutes sv) of
            ((_, Some e), d) \<Rightarrow> (Some e, sv\<lparr>svRoutes := d\<rparr>)
          | ((sid, None), d) \<Rightarrow>
             (case built of
                Some e \<Rightarrow> (Some e, sv\<lparr>svRoutes := d\<rparr>)
              | None \<Rightarrow> (None, sv\<lparr>svRoutes := d, svAgents := (svAgents sv)(cid := Some (sid, src))\<rparr>))))"

text \<open>The part of \<open>dispatchWorkerSummary\<close> before the model is asked: the intent, with a fresh run and the pending results.\<close>

definition record_intent ::
  "io \<Rightarrow> io \<Rightarrow> string \<Rightarrow> instant \<Rightarrow> identity \<Rightarrow> receipt list \<Rightarrow> string \<Rightarrow> service_state \<Rightarrow> gerr option \<times> service_state" where
  "record_intent e1 e2 run now trace pending cid sv =
     (case svAgents sv cid of
        None \<Rightarrow> (None, sv)
      | Some (sid, owner) \<Rightarrow>
         (case nextSummary e1 cid (svSummaries sv) of
            Inl e \<Rightarrow> (Some e, sv)
          | Inr (Some r) \<Rightarrow> (None, sv)
          | Inr None \<Rightarrow>
             if pending = [] then (None, sv)
             else (case saveSummary e2
                 \<lparr>srSummary = \<lparr>suConversation = cid, suSession = sid, suRun = run, suText = '''', suSource = owner, suIdentity = trace\<rparr>,
                  srStatus = ''generating'', srCreatedAt = now, srResults = pending, srLastError = ''''\<rparr> (svSummaries sv) of
                 (x, d) \<Rightarrow> (x, sv\<lparr>svSummaries := d\<rparr>))))"

text \<open>\<open>Service.run\<close> after the model has written the summary \<open>text\<close> of the run.\<close>

definition record_text :: "io \<Rightarrow> io \<Rightarrow> string \<Rightarrow> string \<Rightarrow> identity \<Rightarrow> string \<Rightarrow> service_state \<Rightarrow> gerr option \<times> service_state" where
  "record_text e1 e2 run text trace cid sv =
     (case nextSummary e1 cid (svSummaries sv) of
        Inl e \<Rightarrow> (Some e, sv)
      | Inr None \<Rightarrow> (Some (Msg ''worker summary intent missing''), sv)
      | Inr (Some r) \<Rightarrow>
          if suRun (srSummary r) \<noteq> run then (Some (Msg ''worker summary intent missing''), sv)
          else (case saveSummary e2 (r\<lparr>srSummary := (srSummary r)\<lparr>suText := text, suIdentity := trace\<rparr>, srStatus := ''pending''\<rparr>) (svSummaries sv) of
              (x, d) \<Rightarrow> (x, sv\<lparr>svSummaries := d\<rparr>)))"

text \<open>Whoever has the lease reads the record again and attests it: against the loaded agent, or against the route.\<close>

definition attested :: "bool \<Rightarrow> io \<Rightarrow> string \<Rightarrow> string \<Rightarrow> summary_receipt \<Rightarrow> service_state \<Rightarrow> bool" where
  "attested live e cid k r sv =
     (if live then
        (case svAgents sv cid of
           None \<Rightarrow> False
         | Some (sid, owner) \<Rightarrow> suRun (srSummary r) = k \<and> suConversation (srSummary r) = cid \<and> open_summary r
             \<and> suSession (srSummary r) = sid \<and> suSource (srSummary r) = owner)
      else open_summary r \<and> (case file_read [] e (svRoutes sv) of (_, Some x) \<Rightarrow> False | (rts, None) \<Rightarrow> detachedSummaryMatchesRoute k r rts))"

definition take_summary ::
  "summary_lib \<Rightarrow> bool \<Rightarrow> io \<Rightarrow> io \<Rightarrow> io \<Rightarrow> (string \<times> string \<times> string \<times> string) option \<Rightarrow> string \<Rightarrow> string \<Rightarrow> service_state \<Rightarrow> service_state" where
  "take_summary sl live e1 e2 e3 report cid k sv =
     (if svLease sv k \<noteq> Free then sv
      else (case file_read [] e1 (svSummaries sv) of
          (_, Some x) \<Rightarrow> sv
        | (s, None) \<Rightarrow>
           (case mget s k of
              None \<Rightarrow> sv
            | Some r \<Rightarrow>
               if \<not> attested live e2 cid k r sv then sv
               else (case recoverSummary sl report e3 r (svSummaries sv) of
                   ((r', Some x), d) \<Rightarrow> sv\<lparr>svSummaries := d\<rparr>
                 | ((r', None), d) \<Rightarrow> sv\<lparr>svSummaries := d, svLease := (svLease sv)(k := Held r' live)\<rparr>))))"

text \<open>\<open>valid\<close>: there is a sink, and for a loaded conversation the notification was not cancelled.\<close>

definition send_summary :: "bool \<Rightarrow> gerr option \<Rightarrow> string \<Rightarrow> service_state \<Rightarrow> service_state" where
  "send_summary valid answer k sv =
     (case svLease sv k of
        Held r live \<Rightarrow>
          if valid then sv\<lparr>svSent := svSent sv @ [(k, srSummary r)], svLease := (svLease sv)(k := Handed answer live)\<rparr>
          else sv\<lparr>svLease := (svLease sv)(k := Free)\<rparr>
      | _ \<Rightarrow> sv)"

definition finish_summary :: "(string \<Rightarrow> string) \<Rightarrow> io \<Rightarrow> string \<Rightarrow> service_state \<Rightarrow> service_state" where
  "finish_summary redact e k sv =
     (case svLease sv k of
        Handed answer live \<Rightarrow>
          (let sv' = (case answer of
              None \<Rightarrow> sv\<lparr>svSummaries := snd (settleSummary e k ''accepted'' '''' (svSummaries sv))\<rparr>
            | Some x \<Rightarrow> if live then sv\<lparr>svSummaries := snd (settleSummary e k ''pending'' (redact (Error x)) (svSummaries sv))\<rparr> else sv)
           in sv'\<lparr>svLease := (svLease sv')(k := Free)\<rparr>)
      | _ \<Rightarrow> sv)"

datatype service_step =
    SvLoad resolve_env "gerr option" string source
  | SvIntent io io string instant identity "receipt list" string
  | SvText io io string string identity string
  | SvMerged io string
  | SvRevoke io string
  | SvTake bool io io io "(string \<times> string \<times> string \<times> string) option" string string
  | SvSend bool "gerr option" string
  | SvFinish io string
  | SvCrash string
  | SvUnload string

definition service_step :: "summary_lib \<Rightarrow> (string \<Rightarrow> string) \<Rightarrow> service_state \<Rightarrow> service_step \<Rightarrow> service_state" where
  "service_step sl redact sv x =
     (case x of
        SvLoad rv built cid src \<Rightarrow> snd (load_agent rv built cid src sv)
      | SvIntent e1 e2 run now trace pending cid \<Rightarrow> snd (record_intent e1 e2 run now trace pending cid sv)
      | SvText e1 e2 run text trace cid \<Rightarrow> snd (record_text e1 e2 run text trace cid sv)
      | SvMerged e k \<Rightarrow> sv\<lparr>svSummaries := snd (settleSummary e k ''accepted'' '''' (svSummaries sv))\<rparr>
      | SvRevoke e cid \<Rightarrow> sv\<lparr>svSummaries := snd (revokeSummaries e cid (svSummaries sv))\<rparr>
      | SvTake live e1 e2 e3 report cid k \<Rightarrow> take_summary sl live e1 e2 e3 report cid k sv
      | SvSend valid answer k \<Rightarrow> send_summary valid answer k sv
      | SvFinish e k \<Rightarrow> finish_summary redact e k sv
      | SvCrash k \<Rightarrow> sv\<lparr>svLease := (svLease sv)(k := Free)\<rparr>
      | SvUnload cid \<Rightarrow> sv\<lparr>svAgents := (svAgents sv)(cid := None)\<rparr>)"

definition service_run :: "summary_lib \<Rightarrow> (string \<Rightarrow> string) \<Rightarrow> service_step list \<Rightarrow> service_state \<Rightarrow> service_state" where
  "service_run sl redact xs sv = foldl (service_step sl redact) sv xs"

subsection \<open>What holds of routes, records and leases\<close>

definition bound_to :: "routes \<Rightarrow> summary \<Rightarrow> bool" where
  "bound_to rts s \<longleftrightarrow> mget rts (suConversation s) = Some \<lparr>rtSession = suSession s, rtSource = suSource s\<rparr>"

definition routes_grow :: "routes \<Rightarrow> routes \<Rightarrow> bool" where
  "routes_grow r r' \<longleftrightarrow> (\<forall>cid rt. mget r cid = Some rt \<longrightarrow> mget r' cid = Some rt)"

definition record_bound :: "routes \<Rightarrow> string \<Rightarrow> summary_receipt \<Rightarrow> bool" where
  "record_bound rts k r \<longleftrightarrow> suRun (srSummary r) = k \<and> bound_to rts (srSummary r)"

definition records_ok :: "routes \<Rightarrow> summary_state \<Rightarrow> bool" where
  "records_ok rts s \<longleftrightarrow> wf_map s \<and> mall (record_bound rts) s"

definition service_inv :: "service_state \<Rightarrow> summary_state \<Rightarrow> routes \<Rightarrow> bool" where
  "service_inv sv s rts \<longleftrightarrow> decode [] (svSummaries sv) = Inr s \<and> decode [] (svRoutes sv) = Inr rts \<and> records_ok rts s
     \<and> (\<forall>cid sid src. svAgents sv cid = Some (sid, src) \<longrightarrow> mget rts cid = Some \<lparr>rtSession = sid, rtSource = src\<rparr>)
     \<and> (\<forall>k r live. svLease sv k = Held r live \<longrightarrow> record_bound rts k r)
     \<and> list_all (\<lambda>(k, m). suRun m = k \<and> bound_to rts m) (svSent sv)"

definition settles :: "summary_state \<Rightarrow> summary_state \<Rightarrow> bool" where
  "settles s s' \<longleftrightarrow> (\<forall>k r. mget s k = Some r \<longrightarrow> closed_summary r \<longrightarrow> (\<exists>r'. mget s' k = Some r' \<and> closed_summary r'
     \<and> (srStatus r = ''accepted'' \<longrightarrow> r' = r)))"

text \<open>A step keeps the invariant, adds routes only, never reopens a summary, and sends nothing that is closed.\<close>

definition service_advances :: "service_state \<Rightarrow> summary_state \<Rightarrow> routes \<Rightarrow> service_state \<Rightarrow> bool" where
  "service_advances sv s rts sv' \<longleftrightarrow> (\<exists>s' rts'. service_inv sv' s' rts' \<and> routes_grow rts rts' \<and> settles s s')
     \<and> (\<forall>k r. mget s k = Some r \<longrightarrow> closed_summary r \<longrightarrow> svLease sv k = Free
          \<longrightarrow> svLease sv' k = Free \<and> filter (\<lambda>x. fst x = k) (svSent sv') = filter (\<lambda>x. fst x = k) (svSent sv))"

lemma routes_grow_refl [simp]: "routes_grow r r"
  by (simp add: routes_grow_def)

lemma routes_grow_trans: "routes_grow a b \<Longrightarrow> routes_grow b c \<Longrightarrow> routes_grow a c"
  by (simp add: routes_grow_def)

lemma settles_refl [simp]: "settles s s"
  by (auto simp: settles_def)

lemma settles_trans: "settles a b \<Longrightarrow> settles b c \<Longrightarrow> settles a c"
  unfolding settles_def by metis

lemma bound_grow: "bound_to r m \<Longrightarrow> routes_grow r r' \<Longrightarrow> bound_to r' m"
  by (simp add: bound_to_def routes_grow_def)

lemma record_bound_grow: "record_bound r k x \<Longrightarrow> routes_grow r r' \<Longrightarrow> record_bound r' k x"
  by (auto simp: record_bound_def intro: bound_grow)

lemma service_advances_refl: "service_inv sv s rts \<Longrightarrow> service_advances sv s rts sv"
  unfolding service_advances_def by (intro conjI exI [of _ s] exI [of _ rts]) auto

lemma service_advances_steady:
  assumes "service_inv sv s rts" "svLease sv' = svLease sv" "svSent sv' = svSent sv"
    and "\<exists>s' rts'. service_inv sv' s' rts' \<and> routes_grow rts rts' \<and> settles s s'"
  shows "service_advances sv s rts sv'"
  using assms by (auto simp: service_advances_def)

lemma summary_update_cases:
  assumes "summary_update e fn d = (x, d')" "decode [] d = Inr s"
  shows "\<exists>s'. decode [] d' = Inr s' \<and> (s' = s \<or> fn s = ((), Inr s')) \<and> (x = None \<longrightarrow> fn s = ((), Inr s'))"
proof -
  have u: "file_update [] e () fn d = (((), x), d')"
    using assms(1) by (auto simp: summary_update_def split: prod.splits)
  show ?thesis
  proof (cases x)
    case None
    from file_update_done [OF u [unfolded None]] obtain v v' where "decode [] d = Inr v" "fn v = ((), Inr v')" "d' = Holds v'" .
    then show ?thesis using assms(2) by auto
  next
    case (Some y)
    from u show ?thesis using assms(2) Some by (cases rule: file_update_cases) auto
  qed
qed

text \<open>Every callback keeps records bound and closed summaries closed.\<close>

lemma save_summary_fn_ok:
  "save_summary_fn r s = ((), Inr s') \<Longrightarrow> records_ok rts s \<Longrightarrow> record_bound rts (suRun (srSummary r)) r
     \<Longrightarrow> records_ok rts s' \<and> settles s s'"
  by (auto simp: save_summary_fn_def settles_def records_ok_def intro!: mall_mput wf_map_mput split: option.splits if_splits)

lemma settle_summary_fn_ok:
  "settle_summary_fn k status why s = ((), Inr s') \<Longrightarrow> records_ok rts s \<Longrightarrow> records_ok rts s' \<and> settles s s'"
  by (auto simp: settle_summary_fn_def settles_def records_ok_def record_bound_def intro!: mall_mput wf_map_mput dest: mallD split: option.splits if_splits)

lemma revoke_summaries_fn_ok:
  assumes "revoke_summaries_fn cid s = ((), Inr s')" "records_ok rts s"
  shows "records_ok rts s' \<and> settles s s'"
proof -
  let ?g = "\<lambda>r. if suConversation (srSummary r) = cid \<and> srStatus r \<noteq> ''accepted'' then r\<lparr>srStatus := ''revoked''\<rparr> else r"
  have "s' = map (\<lambda>(k, r). (k, ?g r)) s" using assms(1) by (simp add: revoke_summaries_fn_def)
  then have get: "mget s' k = map_option ?g (mget s k)" for k by (simp add: mget_def map_of_map)
  have "wf_map s'" using assms(2) by (simp add: \<open>s' = _\<close> records_ok_def wf_map_def comp_def case_prod_beta)
  moreover have "mall (record_bound rts) s'"
    using assms(2) by (fastforce simp: mall_def get records_ok_def record_bound_def)
  moreover have "settles s s'" by (auto simp: settles_def get closed_summary_def)
  ultimately show ?thesis by (simp add: records_ok_def)
qed

lemma service_inv_summaries:
  assumes "service_inv sv s rts" "decode [] d = Inr s'" "records_ok rts s'"
  shows "service_inv (sv\<lparr>svSummaries := d\<rparr>) s' rts"
  using assms by (simp add: service_inv_def)

lemma summaries_updated:
  assumes inv: "service_inv sv s rts" and u: "summary_update e fn (svSummaries sv) = (x, d)"
    and ok: "\<And>s'. fn s = ((), Inr s') \<Longrightarrow> records_ok rts s' \<and> settles s s'"
  shows "\<exists>s'. service_inv (sv\<lparr>svSummaries := d\<rparr>) s' rts \<and> settles s s'"
proof -
  obtain s' where "decode [] d = Inr s'" "s' = s \<or> fn s = ((), Inr s')"
    using summary_update_cases [OF u] inv by (auto simp: service_inv_def)
  moreover then have "records_ok rts s' \<and> settles s s'" using ok inv by (auto simp: service_inv_def)
  ultimately show ?thesis using service_inv_summaries [OF inv] by blast
qed

lemma nextSummary_in:
  assumes "nextSummary e cid d = Inr (Some r)" "decode [] d = Inr s" "records_ok rts s"
  shows "record_bound rts (suRun (srSummary r)) r \<and> suConversation (srSummary r) = cid"
proof -
  obtain s1 x where rd: "file_read [] e d = (s1, x)" by (metis surj_pair)
  then have "x = None" using assms(1) by (auto simp: nextSummary_def split: option.splits)
  then have "s1 = s" using file_read_done rd assms(2) by fastforce
  let ?rs = "sort_key srCreatedAt (filter (\<lambda>r. suConversation (srSummary r) = cid \<and> open_summary r) (mvals s))"
  have "\<exists>rest. ?rs = r # rest"
    using assms(1) rd \<open>x = None\<close> \<open>s1 = s\<close> by (auto simp: nextSummary_def split: list.splits)
  then have "r \<in> set ?rs" by (metis list.set_intros(1))
  then have r: "r \<in> set (mvals s)" "suConversation (srSummary r) = cid" by simp_all
  then obtain k where "mget s k = Some r" using assms(3) by (auto simp: mvals_iff records_ok_def)
  then show ?thesis using assms(3) r by (auto simp: records_ok_def record_bound_def dest: mallD)
qed

subsection \<open>Every step service_advances\<close>

lemma route_fn_grows: "route_fn cid src sid r = ((), Inr r') \<Longrightarrow> routes_grow r r' \<and> mget r' cid = Some \<lparr>rtSession = sid, rtSource = src\<rparr>"
  by (auto simp: route_fn_def routes_grow_def split: option.splits if_splits)

lemma resolveSession_binds:
  assumes "resolveSession rv cid src d = ((sid, x), d')" "decode [] d = Inr rts"
  shows "\<exists>rts'. decode [] d' = Inr rts' \<and> routes_grow rts rts' \<and> (x = None \<longrightarrow> mget rts' cid = Some \<lparr>rtSession = sid, rtSource = src\<rparr>)"
proof -
  obtain r y where rd: "file_read [] (rvRead rv) d = (r, y)" by (metis surj_pair)
  have r: "r = rts" if "y = None" using file_read_done rd that assms(2) by fastforce
  show ?thesis
  proof (cases "srcChannel src \<noteq> '''' \<and> (srcSenderID src = '''' \<or> srcChatID src = '''') \<or> rvRoot rv \<noteq> None \<or> rvLease rv \<noteq> None
      \<or> y \<noteq> None \<or> (\<exists>rt. mget rts cid = Some rt \<and> (rtSource rt \<noteq> src \<or> rtSession rt = '''')) \<or> (mget rts cid = None \<and> rvSave rv \<noteq> None)")
    case True
    then have "d' = d \<and> x \<noteq> None"
      using assms(1) rd r by (auto simp: resolveSession_def split: option.splits if_splits) metis+
    then show ?thesis using assms(2) by auto
  next
    case False
    show ?thesis
    proof (cases "mget rts cid")
      case (Some rt)
      then have "sid = rtSession rt \<and> src = rtSource rt \<and> d' = d"
        using False assms(1) rd r by (auto simp: resolveSession_def split: option.splits if_splits)
      then show ?thesis using Some assms(2) by auto
    next
      case None
      then obtain u where u: "file_update [] (rvUpdate rv) () (route_fn cid src (rvSession rv)) d = ((u, x), d')" "sid = rvSession rv"
        using False assms(1) rd r by (auto simp: resolveSession_def split: option.splits if_splits prod.splits)
      have unit: "u = ()" by simp
      show ?thesis
      proof (cases x)
        case None
        from file_update_done [OF u(1) [unfolded None unit]]
        obtain v v' where "decode [] d = Inr v" "route_fn cid src (rvSession rv) v = ((), Inr v')" "d' = Holds v'" .
        then show ?thesis using assms(2) u(2) route_fn_grows by fastforce
      next
        case (Some e)
        from u(1) [unfolded unit] show ?thesis
        proof (cases rule: file_update_cases)
          case unchanged
          then show ?thesis using assms(2) Some by auto
        next
          case (written v v')
          then show ?thesis using assms(2) Some route_fn_grows by fastforce
        qed
      qed
    qed
  qed
qed

lemma service_inv_routes:
  assumes inv: "service_inv sv s rts" and "decode [] d = Inr rts'" "routes_grow rts rts'"
    and agents: "\<And>c sid src. ag c = Some (sid, src) \<Longrightarrow> svAgents sv c = Some (sid, src) \<or> mget rts' c = Some \<lparr>rtSession = sid, rtSource = src\<rparr>"
  shows "service_inv (sv\<lparr>svRoutes := d, svAgents := ag\<rparr>) s rts'"
proof -
  have "records_ok rts' s"
    using inv assms(3) by (auto simp: service_inv_def records_ok_def intro: mall_mono record_bound_grow)
  moreover have "list_all (\<lambda>(k, m). suRun m = k \<and> bound_to rts' m) (svSent sv)"
    using inv assms(3) by (auto simp: service_inv_def list_all_iff intro: bound_grow)
  moreover have "mget rts' c = Some \<lparr>rtSession = sid, rtSource = src\<rparr>" if "ag c = Some (sid, src)" for c sid src
    using agents [OF that] inv assms(3) by (auto simp: service_inv_def routes_grow_def)
  moreover have "record_bound rts' k r" if "svLease sv k = Held r live" for k r live
  proof (rule record_bound_grow [OF _ assms(3)])
    show "record_bound rts k r" using inv that by (auto simp: service_inv_def)
  qed
  ultimately show ?thesis
    using assms(2) inv by (auto simp: service_inv_def)
qed

lemma load_agent_advances:
  assumes inv: "service_inv sv s rts"
  shows "service_advances sv s rts (snd (load_agent rv built cid src sv))"
proof (cases "svAgents sv cid")
  case (Some a)
  then show ?thesis using service_advances_refl [OF inv] by (cases a) (simp add: load_agent_def)
next
  case None
  obtain sid x d where r: "resolveSession rv cid src (svRoutes sv) = ((sid, x), d)" by (metis surj_pair)
  have "decode [] (svRoutes sv) = Inr rts" using inv by (simp add: service_inv_def)
  then obtain rts' where rts': "decode [] d = Inr rts'" "routes_grow rts rts'" "x = None \<longrightarrow> mget rts' cid = Some \<lparr>rtSession = sid, rtSource = src\<rparr>"
    using resolveSession_binds [OF r] by blast
  have same: "service_inv (sv\<lparr>svRoutes := d\<rparr>) s rts'"
    using service_inv_routes [OF inv rts'(1,2), of "svAgents sv"] by (simp add: service_inv_def)
  have loaded: "service_inv (sv\<lparr>svRoutes := d, svAgents := (svAgents sv)(cid := Some (sid, src))\<rparr>) s rts'" if "x = None"
    using that rts' by (intro service_inv_routes [OF inv]) (auto split: if_splits)
  show ?thesis
    using None r same loaded rts'(2)
    by (intro service_advances_steady [OF inv]) (auto simp: load_agent_def split: option.split intro!: exI [of _ s] exI [of _ rts'])
qed

lemma summaries_step:
  assumes inv: "service_inv sv s rts" and u: "summary_update e fn (svSummaries sv) = (x, d)"
    and ok: "\<And>s'. fn s = ((), Inr s') \<Longrightarrow> records_ok rts s' \<and> settles s s'"
  shows "service_advances sv s rts (sv\<lparr>svSummaries := d\<rparr>)"
  using summaries_updated [OF inv u ok] routes_grow_refl by (intro service_advances_steady [OF inv]) (simp, simp, blast)

lemma save_step:
  assumes inv: "service_inv sv s rts" and "record_bound rts (suRun (srSummary r)) r"
  shows "service_advances sv s rts (sv\<lparr>svSummaries := snd (saveSummary e r (svSummaries sv))\<rparr>)"
proof -
  obtain x d where u: "summary_update e (save_summary_fn r) (svSummaries sv) = (x, d)" by (metis surj_pair)
  have "records_ok rts s" using inv by (simp add: service_inv_def)
  then show ?thesis
    using summaries_step [OF inv u] save_summary_fn_ok assms(2) u by (simp add: saveSummary_def)
qed

lemma settle_step:
  assumes inv: "service_inv sv s rts"
  shows "service_advances sv s rts (sv\<lparr>svSummaries := snd (settleSummary e k status why (svSummaries sv))\<rparr>)"
proof -
  obtain x d where u: "summary_update e (settle_summary_fn k status why) (svSummaries sv) = (x, d)" by (metis surj_pair)
  have "records_ok rts s" using inv by (simp add: service_inv_def)
  then show ?thesis using summaries_step [OF inv u] settle_summary_fn_ok u by (simp add: settleSummary_def)
qed

lemma record_intent_advances:
  assumes inv: "service_inv sv s rts"
  shows "service_advances sv s rts (snd (record_intent e1 e2 run now trace pending cid sv))"
proof (cases "\<exists>sid owner. svAgents sv cid = Some (sid, owner) \<and> nextSummary e1 cid (svSummaries sv) = Inr None \<and> pending \<noteq> []")
  case True
  then obtain sid owner where a: "svAgents sv cid = Some (sid, owner)" "nextSummary e1 cid (svSummaries sv) = Inr None" "pending \<noteq> []" by blast
  let ?r = "\<lparr>srSummary = \<lparr>suConversation = cid, suSession = sid, suRun = run, suText = '''', suSource = owner, suIdentity = trace\<rparr>,
      srStatus = ''generating'', srCreatedAt = now, srResults = pending, srLastError = ''''\<rparr>"
  have "record_bound rts (suRun (srSummary ?r)) ?r" using a(1) inv by (auto simp: record_bound_def bound_to_def service_inv_def)
  from save_step [OF inv this, of e2] show ?thesis using a
    by (cases "saveSummary e2 ?r (svSummaries sv)") (simp add: record_intent_def)
next
  case False
  then show ?thesis using service_advances_refl [OF inv]
    by (auto simp: record_intent_def split: option.split sum.split prod.split)
qed

lemma record_text_advances:
  assumes inv: "service_inv sv s rts"
  shows "service_advances sv s rts (snd (record_text e1 e2 run text trace cid sv))"
proof (cases "\<exists>r. nextSummary e1 cid (svSummaries sv) = Inr (Some r) \<and> suRun (srSummary r) = run")
  case True
  then obtain r where r: "nextSummary e1 cid (svSummaries sv) = Inr (Some r)" "suRun (srSummary r) = run" by blast
  let ?r = "r\<lparr>srSummary := (srSummary r)\<lparr>suText := text, suIdentity := trace\<rparr>, srStatus := ''pending''\<rparr>"
  have "record_bound rts (suRun (srSummary ?r)) ?r"
    using nextSummary_in [OF r(1)] inv by (auto simp: record_bound_def bound_to_def service_inv_def)
  from save_step [OF inv this, of e2] show ?thesis using r
    by (cases "saveSummary e2 ?r (svSummaries sv)") (simp add: record_text_def)
next
  case False
  then show ?thesis using service_advances_refl [OF inv]
    by (auto simp: record_text_def split: option.split sum.split prod.split)
qed

lemma attested_bound:
  "attested live e cid k r sv \<Longrightarrow> service_inv sv s rts \<Longrightarrow> open_summary r \<and> record_bound rts k r"
  by (auto simp: attested_def service_inv_def record_bound_def bound_to_def detachedSummaryMatchesRoute_def
      dest: file_read_done split: if_splits option.splits prod.splits)

lemma recoverSummary_keeps:
  assumes "recoverSummary sl report e r d = ((r', x), d')" "open_summary r" "record_bound rts k r"
  shows "record_bound rts k r' \<and> (d' = d \<or> d' = snd (saveSummary e r' d))"
  using assms by (auto simp: recoverSummary_def Let_def record_bound_def bound_to_def split: if_splits prod.splits)

lemma take_summary_advances:
  assumes inv: "service_inv sv s rts"
  shows "service_advances sv s rts (take_summary sl live e1 e2 e3 report cid k sv)"
proof (cases "\<exists>st r. svLease sv k = Free \<and> file_read [] e1 (svSummaries sv) = (st, None) \<and> mget st k = Some r \<and> attested live e2 cid k r sv")
  case False
  then show ?thesis using service_advances_refl [OF inv]
    by (auto simp: take_summary_def split: option.split prod.split)
next
  case True
  then obtain st r where t: "svLease sv k = Free" "file_read [] e1 (svSummaries sv) = (st, None)" "mget st k = Some r" "attested live e2 cid k r sv"
    by blast
  have r: "open_summary r" "record_bound rts k r" using attested_bound [OF t(4) inv] by simp_all
  have "st = s" using file_read_done [OF t(2)] inv by (simp add: service_inv_def)
  then have open_k: "mget s k = Some r" "\<not> closed_summary r" using t(3) r(1) by (auto simp: open_summary_def closed_summary_def)
  obtain r' x d where rec: "recoverSummary sl report e3 r (svSummaries sv) = ((r', x), d)" by (metis surj_pair)
  have r': "record_bound rts k r'" "d = svSummaries sv \<or> d = snd (saveSummary e3 r' (svSummaries sv))"
    using recoverSummary_keeps [OF rec r] by simp_all
  have "record_bound rts (suRun (srSummary r')) r'" using r'(1) by (simp add: record_bound_def)
  then have "service_advances sv s rts (sv\<lparr>svSummaries := d\<rparr>)"
    using r'(2) save_step [OF inv] service_advances_refl [OF inv] by auto
  then obtain s' rts' where s': "service_inv (sv\<lparr>svSummaries := d\<rparr>) s' rts'" "routes_grow rts rts'" "settles s s'"
    by (auto simp: service_advances_def)
  have held: "service_inv (sv\<lparr>svSummaries := d, svLease := (svLease sv)(k := Held r' live)\<rparr>) s' rts'"
    using s'(1,2) r'(1) by (auto simp: service_inv_def intro: record_bound_grow)
  then have "service_advances sv s rts (sv\<lparr>svSummaries := d, svLease := (svLease sv)(k := Held r' live)\<rparr>)"
    unfolding service_advances_def using s'(2,3) open_k by auto
  then show ?thesis using t rec \<open>service_advances sv s rts (sv\<lparr>svSummaries := d\<rparr>)\<close>
    by (cases x) (simp_all add: take_summary_def)
qed

lemma send_summary_advances:
  assumes inv: "service_inv sv s rts"
  shows "service_advances sv s rts (send_summary valid answer k sv)"
proof (cases "svLease sv k")
  case (Held r live)
  have "record_bound rts k r" using inv Held by (auto simp: service_inv_def)
  then have "service_inv (send_summary valid answer k sv) s rts"
    using inv Held by (auto simp: send_summary_def service_inv_def record_bound_def)
  then show ?thesis unfolding service_advances_def using Held
    by (auto simp: send_summary_def intro!: exI [of _ s] exI [of _ rts])
qed (use service_advances_refl [OF inv] in \<open>simp_all add: send_summary_def\<close>)

lemma release_advances:
  assumes "service_advances sv s rts sv'"
  shows "service_advances sv s rts (sv'\<lparr>svLease := (svLease sv')(k := Free)\<rparr>)"
proof -
  have free: "service_inv (sv'\<lparr>svLease := (svLease sv')(k := Free)\<rparr>) s' rts'" if "service_inv sv' s' rts'" for s' rts'
    using that by (simp add: service_inv_def)
  then show ?thesis using assms unfolding service_advances_def by (auto split: if_splits)
qed

lemma finish_summary_advances:
  assumes inv: "service_inv sv s rts"
  shows "service_advances sv s rts (finish_summary redact e k sv)"
proof (cases "svLease sv k")
  case (Handed answer live)
  show ?thesis
  proof (cases answer)
    case None
    then show ?thesis using release_advances [OF settle_step [OF inv], of e k "''accepted''" "''''" k] Handed
      by (simp add: finish_summary_def)
  next
    case (Some x)
    then show ?thesis using release_advances [OF settle_step [OF inv], of e k "''pending''" "redact (Error x)" k]
        release_advances [OF service_advances_refl [OF inv], of k] Handed
      by (cases live) (simp_all add: finish_summary_def)
  qed
qed (use service_advances_refl [OF inv] in \<open>simp_all add: finish_summary_def\<close>)

lemma service_step_advances:
  assumes inv: "service_inv sv s rts"
  shows "service_advances sv s rts (service_step sl redact sv x)"
proof (cases x)
  case (SvRevoke e cid)
  obtain y d where u: "summary_update e (revoke_summaries_fn cid) (svSummaries sv) = (y, d)" by (metis surj_pair)
  have "records_ok rts s" using inv by (simp add: service_inv_def)
  then show ?thesis using summaries_step [OF inv u] revoke_summaries_fn_ok u SvRevoke
    by (simp add: service_step_def revokeSummaries_def)
next
  case (SvUnload cid)
  have "service_inv (sv\<lparr>svAgents := (svAgents sv)(cid := None)\<rparr>) s rts" using inv by (auto simp: service_inv_def)
  then show ?thesis using SvUnload
    by (intro service_advances_steady [OF inv]) (auto simp: service_step_def intro!: exI [of _ s] exI [of _ rts])
qed (use load_agent_advances [OF inv] record_intent_advances [OF inv] record_text_advances [OF inv] settle_step [OF inv] take_summary_advances [OF inv]
      send_summary_advances [OF inv] finish_summary_advances [OF inv] release_advances [OF service_advances_refl [OF inv]]
    in \<open>simp_all add: service_step_def\<close>)

lemma service_advances_trans:
  assumes "service_advances sv s rts sv1" "\<And>s1 rts1. service_inv sv1 s1 rts1 \<Longrightarrow> service_advances sv1 s1 rts1 sv2"
  shows "service_advances sv s rts sv2"
proof -
  obtain s1 rts1 where 1: "service_inv sv1 s1 rts1" "routes_grow rts rts1" "settles s s1"
      "\<And>k r. mget s k = Some r \<Longrightarrow> closed_summary r \<Longrightarrow> svLease sv k = Free
         \<Longrightarrow> svLease sv1 k = Free \<and> filter (\<lambda>x. fst x = k) (svSent sv1) = filter (\<lambda>x. fst x = k) (svSent sv)"
    using assms(1) by (auto simp: service_advances_def)
  obtain s2 rts2 where 2: "service_inv sv2 s2 rts2" "routes_grow rts1 rts2" "settles s1 s2"
      "\<And>k r. mget s1 k = Some r \<Longrightarrow> closed_summary r \<Longrightarrow> svLease sv1 k = Free
         \<Longrightarrow> svLease sv2 k = Free \<and> filter (\<lambda>x. fst x = k) (svSent sv2) = filter (\<lambda>x. fst x = k) (svSent sv1)"
    using assms(2) [OF 1(1)] by (auto simp: service_advances_def)
  have "svLease sv2 k = Free \<and> filter (\<lambda>x. fst x = k) (svSent sv2) = filter (\<lambda>x. fst x = k) (svSent sv)"
    if "mget s k = Some r" "closed_summary r" "svLease sv k = Free" for k r
  proof -
    note closed = that
    obtain r1 where "mget s1 k = Some r1" "closed_summary r1" using 1(3) closed(1,2) unfolding settles_def by blast
    then show ?thesis using 1(4) [OF closed] 2(4) by metis
  qed
  moreover have "routes_grow rts rts2" "settles s s2" using routes_grow_trans settles_trans 1 2 by blast+
  ultimately show ?thesis using 2(1) unfolding service_advances_def by blast
qed

lemma service_run_advances: "service_inv sv s rts \<Longrightarrow> service_advances sv s rts (service_run sl redact xs sv)"
proof (induction xs rule: rev_induct)
  case (snoc x xs)
  have "service_run sl redact (xs @ [x]) sv = service_step sl redact (service_run sl redact xs sv) x" by (simp add: service_run_def)
  then show ?case using service_advances_trans [OF snoc.IH [OF snoc.prems]] service_step_advances by simp
qed (simp add: service_run_def service_advances_refl)

lemma service_inv_start: "service_inv new_service [] []"
  by (simp add: service_inv_def new_service_def records_ok_def)

lemma service_run_append: "service_run sl redact (xs @ ys) sv = service_run sl redact ys (service_run sl redact xs sv)"
  by (simp add: service_run_def)

subsection \<open>Correctness\<close>

lemma bound_route: "service_inv sv s rts \<Longrightarrow> decode [] (svRoutes sv) = Inr rts"
  by (simp add: service_inv_def)

text \<open>A conversation keeps the session and the source it was first bound to.\<close>

lemma route_is_bound_once:
  assumes "decode [] (svRoutes (service_run sl redact xs new_service)) = Inr rts" "mget rts cid = Some rt"
  shows "\<exists>rts'. decode [] (svRoutes (service_run sl redact (xs @ ys) new_service)) = Inr rts' \<and> mget rts' cid = Some rt"
proof -
  obtain s1 rts1 where 1: "service_inv (service_run sl redact xs new_service) s1 rts1"
    using service_run_advances [OF service_inv_start, of sl redact xs] by (auto simp: service_advances_def)
  have "rts1 = rts" using bound_route [OF 1] assms(1) by simp
  then obtain s2 rts2 where "service_inv (service_run sl redact ys (service_run sl redact xs new_service)) s2 rts2" "routes_grow rts rts2"
    using service_run_advances [OF 1, of sl redact ys] by (auto simp: service_advances_def)
  then show ?thesis using assms(2) by (auto simp: service_run_append service_inv_def routes_grow_def)
qed


text \<open>C32. A summary that the sink has accepted, or that was revoked with its conversation, is not sent again: when its record is closed
and nobody holds its delivery lease, no later step, of this service or of one started after it on the same files, hands it to the sink.\<close>

theorem settled_summary_is_not_sent_again:
  assumes "decode [] (svSummaries (service_run sl redact xs new_service)) = Inr s" "mget s k = Some r" "closed_summary r"
    and "svLease (service_run sl redact xs new_service) k = Free"
  shows "filter (\<lambda>x. fst x = k) (svSent (service_run sl redact (xs @ ys) new_service))
     = filter (\<lambda>x. fst x = k) (svSent (service_run sl redact xs new_service))"
proof -
  obtain s1 rts1 where 1: "service_inv (service_run sl redact xs new_service) s1 rts1"
    using service_run_advances [OF service_inv_start, of sl redact xs] by (auto simp: service_advances_def)
  then have "s1 = s" using assms(1) by (simp add: service_inv_def)
  then show ?thesis using service_run_advances [OF 1, of sl redact ys] assms(2-4)
    by (auto simp: service_advances_def service_run_append)
qed

definition demo_service :: "service_step list" where
  "demo_service =
     (let src = \<lparr>srcChannel = ''feishu'', srcChatID = ''chat'', srcSenderID = ''u''\<rparr>;
          rv = \<lparr>rvRoot = None, rvLease = None, rvRead = io_ok, rvSession = ''s'', rvSave = None, rvUpdate = io_ok\<rparr>;
          rc = \<lparr>rcID = ''w'', rcRole = ''reader'', rcPrompt = ''look'', rcStatus = ''completed'', rcResult = ''found'', rcError = '''',
                rcCreated = 1, rcStarted = 1, rcFinished = 2, rcAcknowledged = False, rcRevoked = False\<rparr>
      in [SvLoad rv None ''c'' src, SvIntent io_ok io_ok ''r'' 3 no_identity [rc] ''c'', SvText io_ok io_ok ''r'' ''found it'' no_identity ''c'',
          SvTake True io_ok io_ok io_ok None ''c'' ''r'', SvSend True None ''r'', SvFinish io_ok ''r''])"

definition demo_lib :: summary_lib where
  "demo_lib = \<lparr>slFront = ''results:'', slRunes = take\<rparr>"

lemmas service_evaluation = service_run_def service_step_def load_agent_def resolveSession_def route_fn_def record_intent_def record_text_def
  nextSummary_def saveSummary_def settleSummary_def summary_update_def save_summary_fn_def settle_summary_fn_def take_summary_def
  attested_def recoverSummary_def send_summary_def finish_summary_def new_service_def open_summary_def closed_summary_def
  mput_def mvals_def Let_def

lemma settled_summary_is_not_sent_again_witness:
  "filter (\<lambda>x. fst x = ''r'') (svSent (service_run demo_lib id (demo_service @ [SvCrash ''r'', SvTake False io_ok io_ok io_ok None ''c'' ''r'', SvSend True None ''r'']) new_service))
     = filter (\<lambda>x. fst x = ''r'') (svSent (service_run demo_lib id demo_service new_service))
   \<and> length (svSent (service_run demo_lib id demo_service new_service)) = 1"
proof -
  obtain s r where s: "decode [] (svSummaries (service_run demo_lib id demo_service new_service)) = Inr s" "mget s ''r'' = Some r" "closed_summary r"
    by (simp add: demo_service_def service_evaluation)
  have free: "svLease (service_run demo_lib id demo_service new_service) ''r'' = Free" "length (svSent (service_run demo_lib id demo_service new_service)) = 1"
    by (simp_all add: demo_service_def service_evaluation)
  show ?thesis using settled_summary_is_not_sent_again [OF s free(1), of "[SvCrash ''r'', SvTake False io_ok io_ok io_ok None ''c'' ''r'', SvSend True None ''r'']"]
    free(2) by simp
qed

end
