(* ===== verification/EventStream.thy ===== *)
theory EventStream
  imports Prelude "HOL-Library.Sublist"
begin

section \<open>Server-sent events\<close>

text \<open>
  \<open>internal/provider/sse.go\<close>: \<open>readEventStream\<close> over a \<open>bufio.Scanner\<close> with the split function \<open>eventLine\<close>. The peer decides
  the bytes, in how many reads they arrive and how the stream ends; the scanner asks the split function again whenever it has
  read more. The bytes of a line are complete only at its terminator, and an event only at its blank line. A reader that returns
  nothing and no error a hundred times in a row (\<open>io.ErrNoProgress\<close>) is left out: bodies of HTTP answers do not.
\<close>

definition maxStreamBytes :: nat where "maxStreamBytes = 33554432"

definition maxEventBytes :: nat where "maxEventBytes = 4194304"

definition LF :: char where "LF = CHR 0x0A"

definition CR :: char where "CR = CHR 0x0D"

lemma LF_CR [simp]: "LF \<noteq> CR" "CR \<noteq> LF"
  by (simp_all add: LF_def CR_def)

subsection \<open>The split function\<close>

text \<open>\<open>seen\<close> is \<open>data[:i]\<close>. The result is the advance and the token; a nil token asks for more data.\<close>

fun event_line :: "string \<Rightarrow> string \<Rightarrow> bool \<Rightarrow> nat \<times> string option" where
  "event_line seen [] atEOF = (if atEOF \<and> seen \<noteq> [] then (length seen, Some seen) else (0, None))"
| "event_line seen (b # rest) atEOF =
     (if b = LF then (length seen + 1, Some seen)
      else if b = CR then
        (if rest = [] \<and> \<not> atEOF then (0, None)
         else (length seen + 1 + (if rest \<noteq> [] \<and> List.hd rest = LF then 1 else 0), Some seen))
      else event_line (seen @ [b]) rest atEOF)"

definition eventLine :: "string \<Rightarrow> bool \<Rightarrow> nat \<times> string option" where
  "eventLine data atEOF = event_line [] data atEOF"

subsection \<open>The scanner\<close>

text \<open>
  The peer sends \<open>scRest\<close>; read number \<open>i\<close> returns at most \<open>scSizes ! i\<close> bytes, later reads as many as fit. \<open>scEager\<close>: the
  end (\<^const>\<open>EOF\<close> or an error, \<open>scFail\<close>) comes with the last bytes rather than after them. \<open>scLimit\<close> is \<open>limited.N\<close>, \<open>scErr\<close> the
  error of the scanner; its buffer \<open>scPending\<close> never holds more than \<open>maxEventBytes\<close>.
\<close>

record scanner =
  scPending :: string
  scRest :: string
  scSizes :: "nat list"
  scEager :: bool
  scFail :: gerr
  scLimit :: nat
  scErr :: "gerr option"

definition ErrTooLong :: gerr where "ErrTooLong = Msg ''bufio.Scanner: token too long''"

definition read_more :: "scanner \<Rightarrow> scanner" where
  "read_more sc =
     (if scLimit sc = 0 then sc\<lparr>scErr := Some EOF\<rparr>
      else if scRest sc = [] then sc\<lparr>scErr := Some (scFail sc)\<rparr>
      else
       (let space = min (scLimit sc) (maxEventBytes - length (scPending sc));
            k = (case scSizes sc of [] \<Rightarrow> space | n # _ \<Rightarrow> min n space);
            rest = drop k (scRest sc)
        in sc\<lparr>scPending := scPending sc @ take k (scRest sc), scRest := rest, scSizes := tl (scSizes sc),
              scLimit := scLimit sc - length (take k (scRest sc)),
              scErr := (if rest = [] \<and> scEager sc then Some (scFail sc) else None)\<rparr>))"

text \<open>\<open>Scanner.Scan\<close> with \<open>Bytes\<close>: \<^const>\<open>None\<close> when it stops.\<close>

definition split_now :: "scanner \<Rightarrow> nat \<times> string option" where
  "split_now sc = (if scPending sc \<noteq> [] \<or> scErr sc \<noteq> None then eventLine (scPending sc) (scErr sc \<noteq> None) else (0, None))"

function Scan :: "scanner \<Rightarrow> string option \<times> scanner" where
  "Scan sc =
     (case split_now sc of
        (k, Some t) \<Rightarrow> (Some t, sc\<lparr>scPending := drop k (scPending sc)\<rparr>)
      | (_, None) \<Rightarrow>
          if scErr sc \<noteq> None then (None, sc)
          else if maxEventBytes \<le> length (scPending sc) then (None, sc\<lparr>scErr := Some ErrTooLong\<rparr>)
          else Scan (read_more sc))"
  by pat_completeness auto

termination
  by (relation "measure (\<lambda>sc. if scErr sc = None then 1 + length (scSizes sc) + length (scRest sc) else 0)")
    (auto simp: read_more_def Let_def split: list.splits)

declare Scan.simps [simp del]

subsection \<open>The event loop\<close>

text \<open>
  \<open>bytes.Cut(line, ":")\<close> and the trimming of one prefix. The handler threads a state \<open>hs\<close>; \<open>payload\<close> holds the data fields of the
  event so far, each with a line feed.
\<close>

fun cut_colon :: "string \<Rightarrow> string \<times> string" where
  "cut_colon [] = ([], [])"
| "cut_colon (c # s) = (if c = CHR '':'' then ([], s) else (case cut_colon s of (a, b) \<Rightarrow> (c # a, b)))"

definition TrimPrefix :: "string \<Rightarrow> string \<Rightarrow> string" where
  "TrimPrefix s p = (if HasPrefix s p then drop (length p) s else s)"

definition byte_order_mark :: string where
  "byte_order_mark = [CHR 0xEF, CHR 0xBB, CHR 0xBF]"

datatype 's line_result = Stop gerr 's | Next string 's

definition event_step :: "('s \<Rightarrow> string \<Rightarrow> gerr option \<times> 's) \<Rightarrow> string \<Rightarrow> string \<Rightarrow> 's \<Rightarrow> 's line_result" where
  "event_step handle line payload hs =
     (if line = [] then
        if payload = [] then Next [] hs
        else if butlast payload = ''[DONE]'' then Next [] hs
        else (case handle hs (butlast payload) of (Some e, hs') \<Rightarrow> Stop e hs' | (None, hs') \<Rightarrow> Next [] hs')
      else
       (case cut_colon line of
          (field, value) \<Rightarrow>
            if field \<noteq> ''data'' then Next payload hs
            else (let v = TrimPrefix value '' '' in
                  if maxEventBytes < length payload + length v + 1 then Stop (Errorf ''provider event exceeds %d bytes'' [Itoa maxEventBytes]) hs
                  else Next (payload @ v @ [LF]) hs)))"

definition stream_too_long :: gerr where
  "stream_too_long = Errorf ''provider stream exceeds %d bytes'' [Itoa maxStreamBytes]"

definition stream_end_error :: "scanner \<Rightarrow> string \<Rightarrow> gerr option" where
  "stream_end_error sc payload =
     (if scErr sc \<noteq> None \<and> scErr sc \<noteq> Some EOF then scErr sc
      else if scLimit sc = 0 then Some stream_too_long
      else if payload \<noteq> [] then Some UnexpectedEOF
      else None)"

lemma event_line_advance: "event_line seen data b = (k, Some t) \<Longrightarrow> 0 < k"
  by (induction seen data b rule: event_line.induct) (auto split: if_splits)

lemma split_now_advance: "split_now sc = (k, Some t) \<Longrightarrow> 0 < k \<and> scPending sc \<noteq> []"
  by (auto simp: split_now_def eventLine_def dest: event_line_advance split: if_splits)

lemma read_more_length: "length (scPending (read_more sc)) + length (scRest (read_more sc)) = length (scPending sc) + length (scRest sc)"
  by (auto simp: read_more_def Let_def split: list.splits)

lemma Scan_consumes: "Scan sc = (Some t, sc') \<Longrightarrow> length (scPending sc') + length (scRest sc') < length (scPending sc) + length (scRest sc)"
proof (induction sc rule: Scan.induct)
  case (1 sc)
  obtain k tok where sp: "split_now sc = (k, tok)" by (metis surj_pair)
  show ?case
  proof (cases tok)
    case (Some u)
    then show ?thesis using 1(2) sp split_now_advance [of sc k u]
      by (subst (asm) Scan.simps) (auto simp: length_drop)
  next
    case None
    then have "Scan (read_more sc) = (Some t, sc')" and c: "\<not> scErr sc \<noteq> None" "\<not> maxEventBytes \<le> length (scPending sc)"
      using 1(2) sp by (subst (asm) Scan.simps, auto split: if_splits)+
    then show ?thesis using 1(1) [OF sp [symmetric] None c] sp None read_more_length [of sc] by simp
  qed
qed

function read_loop :: "('s \<Rightarrow> string \<Rightarrow> gerr option \<times> 's) \<Rightarrow> scanner \<Rightarrow> bool \<Rightarrow> string \<Rightarrow> 's \<Rightarrow> gerr option \<times> 's" where
  "read_loop handle sc first payload hs =
     (case Scan sc of
        (None, sc') \<Rightarrow> (stream_end_error sc' payload, hs)
      | (Some line, sc') \<Rightarrow>
          if scLimit sc' = 0 then (Some stream_too_long, hs)
          else (case event_step handle (if first then TrimPrefix line byte_order_mark else line) payload hs of
              Stop e hs' \<Rightarrow> (Some e, hs')
            | Next payload' hs' \<Rightarrow> read_loop handle sc' False payload' hs'))"
  by pat_completeness auto

termination
  by (relation "measure (\<lambda>(handle, sc, first, payload, hs). length (scPending sc) + length (scRest sc))") (auto dest: Scan_consumes [OF sym])

declare read_loop.simps [simp del]

record peer =
  prBytes :: string
  prSizes :: "nat list"
  prEager :: bool
  prFail :: gerr

definition readEventStream :: "peer \<Rightarrow> ('s \<Rightarrow> string \<Rightarrow> gerr option \<times> 's) \<Rightarrow> 's \<Rightarrow> gerr option \<times> 's" where
  "readEventStream p handle hs =
     read_loop handle
       \<lparr>scPending = [], scRest = prBytes p, scSizes = prSizes p, scEager = prEager p, scFail = prFail p,
        scLimit = maxStreamBytes + 1, scErr = None\<rparr> True [] hs"

subsection \<open>Lines do not depend on how the bytes arrive\<close>

text \<open>The lines of a text, each ended by LF, CR LF or CR, or by the end of the text.\<close>

function lines_of :: "string \<Rightarrow> string \<Rightarrow> string list" where
  "lines_of w [] = (if w = [] then [] else [w])"
| "lines_of w (c # s) =
     (if c = LF then w # lines_of [] s
      else if c = CR then w # lines_of [] (if s \<noteq> [] \<and> List.hd s = LF then tl s else s)
      else lines_of (w @ [c]) s)"
  by pat_completeness auto

termination
  by (relation "measure (\<lambda>(w, s). length s)") auto

lemma event_line_complete:
  "event_line seen p False = (k, Some t) \<Longrightarrow> length seen < k \<and> lines_of seen (p @ r) = t # lines_of [] (drop (k - length seen) p @ r)"
proof (induction seen p False rule: event_line.induct)
  case (2 seen b rest)
  consider "b = LF" | "b = CR" "b \<noteq> LF" | "b \<noteq> LF" "b \<noteq> CR" by blast
  then show ?case
  proof cases
    case 3
    then show ?thesis using 2 by (auto simp: drop_Cons' Suc_diff_Suc)
  next
    case 2
    then show ?thesis using "2.prems" by (cases rest) auto
  qed (use "2.prems" in auto)
qed simp

lemma event_line_final:
  "event_line seen p True = (k, Some t) \<Longrightarrow> length seen \<le> k \<and> lines_of seen p = t # lines_of [] (drop (k - length seen) p)"
proof (induction seen p True rule: event_line.induct)
  case (2 seen b rest)
  consider "b = LF" | "b = CR" "b \<noteq> LF" | "b \<noteq> LF" "b \<noteq> CR" by blast
  then show ?case
  proof cases
    case 3
    then show ?thesis using 2 by (auto simp: drop_Cons' Suc_diff_Suc)
  next
    case 2
    then show ?thesis using "2.prems" by (cases rest) auto
  qed (use "2.prems" in auto)
qed (auto split: if_splits)

lemma event_line_nothing: "event_line seen p True = (k, None) \<Longrightarrow> seen = [] \<and> p = []"
  by (induction seen p True rule: event_line.induct) (auto split: if_splits)

lemma event_line_partial:
  "event_line seen p False = (k, None) \<Longrightarrow> lines_of seen (p @ r) \<noteq> [] \<Longrightarrow> length seen + length p \<le> length (List.hd (lines_of seen (p @ r))) + 1"
proof (induction seen p False rule: event_line.induct)
  case (1 seen)
  have "length w \<le> length (List.hd (lines_of w r))" if "lines_of w r \<noteq> []" for w
    using that by (induction w r rule: lines_of.induct) (auto split: if_splits)
  then show ?case using 1 by (simp add: le_SucI)
next
  case (2 seen b rest)
  then show ?case by (auto split: if_splits)
qed

text \<open>A scanner that is not at its limit, with the text it has still to deliver.\<close>

definition upcoming :: "scanner \<Rightarrow> string" where
  "upcoming sc = scPending sc @ scRest sc"

definition flowing :: "scanner \<Rightarrow> bool" where
  "flowing sc \<longleftrightarrow> length (scRest sc) < scLimit sc \<and> (scErr sc = None \<or> scErr sc = Some (scFail sc) \<and> scRest sc = [])"

definition short_lines :: "string \<Rightarrow> bool" where
  "short_lines s \<longleftrightarrow> list_all (\<lambda>l. length l + 1 < maxEventBytes) (lines_of [] s)"

lemma read_more_flowing:
  assumes "flowing sc" "scErr sc = None"
  shows "flowing (read_more sc) \<and> upcoming (read_more sc) = upcoming sc \<and> scFail (read_more sc) = scFail sc"
  using assms by (auto simp: flowing_def upcoming_def read_more_def Let_def split: list.splits)

lemma Scan_lines:
  "flowing sc \<Longrightarrow> short_lines (upcoming sc) \<Longrightarrow>
   (case lines_of [] (upcoming sc) of
      [] \<Rightarrow> \<exists>sc'. Scan sc = (None, sc') \<and> scErr sc' = Some (scFail sc) \<and> 0 < scLimit sc'
    | l # ls \<Rightarrow> \<exists>sc'. Scan sc = (Some l, sc') \<and> flowing sc' \<and> scFail sc' = scFail sc \<and> lines_of [] (upcoming sc') = ls)"
proof (induction sc rule: Scan.induct)
  case (1 sc)
  obtain k tok where sp: "split_now sc = (k, tok)" by (metis surj_pair)
  show ?case
  proof (cases "scErr sc = None")
    case True
    show ?thesis
    proof (cases tok)
      case (Some t)
      then have e: "event_line [] (scPending sc) False = (k, Some t)" using sp True by (auto simp: split_now_def eventLine_def split: if_splits)
      have "lines_of [] (upcoming sc) = t # lines_of [] (drop k (scPending sc) @ scRest sc)"
        using event_line_complete [OF e, of "scRest sc"] by (simp add: upcoming_def)
      then show ?thesis using 1(2) sp Some by (subst Scan.simps) (simp add: flowing_def upcoming_def)
    next
      case None
      have "length (scPending sc) < maxEventBytes"
      proof (cases "lines_of [] (upcoming sc)")
        case Nil
        have "lines_of w s \<noteq> []" if "w \<noteq> [] \<or> s \<noteq> []" for w s
          using that by (induction w s rule: lines_of.induct) auto
        then have "upcoming sc = []" using Nil by blast
        then show ?thesis by (simp add: upcoming_def maxEventBytes_def)
      next
        case (Cons l ls)
        have "length (scPending sc) \<le> length l + 1"
        proof (cases "scPending sc = []")
          case False
          then have "event_line [] (scPending sc) False = (k, None)" using sp None True by (simp add: split_now_def eventLine_def)
          from event_line_partial [OF this, of "scRest sc"] show ?thesis using Cons by (simp add: upcoming_def)
        qed simp
        then show ?thesis using 1(3) Cons by (simp add: short_lines_def)
      qed
      then have c: "\<not> scErr sc \<noteq> None" "\<not> maxEventBytes \<le> length (scPending sc)" using True by auto
      have "Scan sc = Scan (read_more sc)" using sp None c by (subst Scan.simps) simp
      then show ?thesis using 1(1) [OF sp [symmetric] None c] read_more_flowing [OF 1(2) True] 1(3) by (simp split: list.splits)
    qed
  next
    case False
    then have rest: "scRest sc = []" "scErr sc = Some (scFail sc)" using 1(2) by (auto simp: flowing_def)
    have e: "event_line [] (scPending sc) True = (k, tok)" using sp False by (simp add: split_now_def eventLine_def)
    show ?thesis
    proof (cases tok)
      case (Some t)
      have "lines_of [] (upcoming sc) = t # lines_of [] (drop k (scPending sc))"
        using event_line_final [OF e [unfolded Some]] rest by (simp add: upcoming_def)
      then show ?thesis using 1(2) sp Some rest by (subst Scan.simps) (simp add: flowing_def upcoming_def)
    next
      case None
      then have "upcoming sc = []" using event_line_nothing e rest by (simp add: upcoming_def)
      then show ?thesis using 1(2) sp None rest by (subst Scan.simps) (simp add: flowing_def)
    qed
  qed
qed

text \<open>The events of a list of lines.\<close>

fun lines_loop :: "('s \<Rightarrow> string \<Rightarrow> gerr option \<times> 's) \<Rightarrow> gerr \<Rightarrow> string list \<Rightarrow> bool \<Rightarrow> string \<Rightarrow> 's \<Rightarrow> gerr option \<times> 's" where
  "lines_loop handle fail [] first payload hs =
     ((if fail \<noteq> EOF then Some fail else if payload \<noteq> [] then Some UnexpectedEOF else None), hs)"
| "lines_loop handle fail (line # ls) first payload hs =
     (case event_step handle (if first then TrimPrefix line byte_order_mark else line) payload hs of
        Stop e hs' \<Rightarrow> (Some e, hs')
      | Next payload' hs' \<Rightarrow> lines_loop handle fail ls False payload' hs')"

lemma read_loop_lines:
  "flowing sc \<Longrightarrow> short_lines (upcoming sc) \<Longrightarrow> read_loop handle sc first payload hs = lines_loop handle (scFail sc) (lines_of [] (upcoming sc)) first payload hs"
proof (induction "lines_of [] (upcoming sc)" arbitrary: sc first payload hs)
  case Nil
  obtain sc' where sc': "Scan sc = (None, sc')" "scErr sc' = Some (scFail sc)" "0 < scLimit sc'"
    using Scan_lines [OF Nil(2,3)] Nil(1) by (auto simp: Nil(1) [symmetric])
  show ?case unfolding Nil(1) [symmetric] using sc' by (subst read_loop.simps) (auto simp: stream_end_error_def)
next
  case (Cons l ls)
  obtain sc' where sc': "Scan sc = (Some l, sc')" "flowing sc'" "scFail sc' = scFail sc" "lines_of [] (upcoming sc') = ls"
    using Scan_lines [OF Cons(3,4)] by (auto simp: Cons(2) [symmetric])
  have "short_lines (upcoming sc')" using Cons(4) sc'(4) by (simp add: short_lines_def Cons(2) [symmetric])
  then show ?case unfolding Cons(2) [symmetric] using sc' Cons(1) [of sc']
    by (subst read_loop.simps) (auto simp: flowing_def split: line_result.split)
qed

lemma readEventStream_lines:
  assumes "length (prBytes p) \<le> maxStreamBytes" "short_lines (prBytes p)"
  shows "readEventStream p handle hs = lines_loop handle (prFail p) (lines_of [] (prBytes p)) True [] hs"
  using assms unfolding readEventStream_def by (subst read_loop_lines) (auto simp: flowing_def upcoming_def)

subsection \<open>Correctness\<close>

text \<open>The handler on a list of events, up to its first error.\<close>

fun run_handler :: "('s \<Rightarrow> string \<Rightarrow> gerr option \<times> 's) \<Rightarrow> string list \<Rightarrow> 's \<Rightarrow> gerr option \<times> 's" where
  "run_handler handle [] hs = (None, hs)"
| "run_handler handle (d # ds) hs =
     (case handle hs d of (Some e, hs') \<Rightarrow> (Some e, hs') | (None, hs') \<Rightarrow> run_handler handle ds hs')"

definition record_event :: "string list \<Rightarrow> string \<Rightarrow> gerr option \<times> string list" where
  "record_event hs d = (None, hs @ [d])"

text \<open>How a peer writes events: other fields or comments, then the data, one field for each line of it, then a blank line.\<close>

definition data_line :: "string \<Rightarrow> string" where
  "data_line l = ''data: '' @ l"

definition event_lines :: "string list \<times> string list \<Rightarrow> string list" where
  "event_lines ev = fst ev @ map data_line (snd ev) @ [[]]"

definition stream_text :: "string \<Rightarrow> (string list \<times> string list) list \<Rightarrow> string" where
  "stream_text nl evs = concat (map (\<lambda>l. l @ nl) (concat (map event_lines evs)))"

definition event_data :: "string list \<times> string list \<Rightarrow> string" where
  "event_data ev = butlast (concat (map (\<lambda>l. l @ [LF]) (snd ev)))"

definition plain_line :: "string \<Rightarrow> bool" where
  "plain_line l \<longleftrightarrow> LF \<notin> set l \<and> CR \<notin> set l"

definition other_line :: "string \<Rightarrow> bool" where
  "other_line l \<longleftrightarrow> plain_line l \<and> l \<noteq> [] \<and> fst (cut_colon l) \<noteq> ''data'' \<and> \<not> HasPrefix l byte_order_mark"

definition event_ok :: "string list \<times> string list \<Rightarrow> bool" where
  "event_ok ev \<longleftrightarrow> list_all other_line (fst ev) \<and> snd ev \<noteq> [] \<and> list_all plain_line (snd ev)
     \<and> list_all (\<lambda>l. length l + 1 < maxEventBytes) (event_lines ev)
     \<and> length (concat (map (\<lambda>l. l @ [LF]) (snd ev))) \<le> maxEventBytes \<and> event_data ev \<noteq> ''[DONE]''"

lemma lines_of_plain:
  "LF \<notin> set l \<Longrightarrow> CR \<notin> set l \<Longrightarrow> nl = [LF] \<or> nl = [CR, LF] \<Longrightarrow> lines_of w (l @ nl @ s) = (w @ l) # lines_of [] s"
  by (induction l arbitrary: w) auto

lemma lines_of_concat:
  "list_all plain_line ls \<Longrightarrow> nl = [LF] \<or> nl = [CR, LF] \<Longrightarrow> lines_of [] (concat (map (\<lambda>l. l @ nl) ls)) = ls"
  by (induction ls) (auto simp: lines_of_plain plain_line_def)

lemma lines_loop_other:
  "list_all other_line ls \<Longrightarrow> lines_loop h f (ls @ rest) first payload hs = lines_loop h f rest (first \<and> ls = []) payload hs"
  by (induction ls arbitrary: first) (auto simp: event_step_def other_line_def TrimPrefix_def split: prod.split)

lemma data_line_step:
  "length payload + length l + 1 \<le> maxEventBytes \<Longrightarrow> event_step h (data_line l) payload hs = Next (payload @ l @ [LF]) hs"
  by (simp add: data_line_def event_step_def TrimPrefix_def HasPrefix_def)

lemma data_line_start [simp]: "TrimPrefix (data_line l) byte_order_mark = data_line l"
  by (simp add: data_line_def TrimPrefix_def HasPrefix_def byte_order_mark_def)

lemma lines_loop_data:
  "length payload + length (concat (map (\<lambda>l. l @ [LF]) ls)) \<le> maxEventBytes \<Longrightarrow>
   lines_loop h f (map data_line ls @ rest) first payload hs
     = lines_loop h f rest (first \<and> ls = []) (payload @ concat (map (\<lambda>l. l @ [LF]) ls)) hs"
  by (induction ls arbitrary: first payload) (simp_all add: data_line_step)

lemma lines_loop_event:
  assumes "event_ok ev"
  shows "lines_loop h f (event_lines ev @ rest) first [] hs =
     (case h hs (event_data ev) of (Some e, hs') \<Rightarrow> (Some e, hs') | (None, hs') \<Rightarrow> lines_loop h f rest False [] hs')"
proof -
  have ev: "snd ev \<noteq> []" "list_all other_line (fst ev)" "length (concat (map (\<lambda>l. l @ [LF]) (snd ev))) \<le> maxEventBytes" "event_data ev \<noteq> ''[DONE]''"
    using assms by (simp_all add: event_ok_def)
  then have "concat (map (\<lambda>l. l @ [LF]) (snd ev)) \<noteq> []" by (cases "snd ev") simp_all
  then have "event_step h [] (concat (map (\<lambda>l. l @ [LF]) (snd ev))) hs
      = (case h hs (event_data ev) of (Some e, hs') \<Rightarrow> Stop e hs' | (None, hs') \<Rightarrow> Next [] hs')"
    using ev(4) by (simp add: event_step_def event_data_def)
  then show ?thesis using ev by (simp add: event_lines_def lines_loop_other lines_loop_data split: prod.split option.split)
qed

lemma lines_loop_events:
  "list_all event_ok evs \<Longrightarrow> lines_loop h EOF (concat (map event_lines evs)) first [] hs = run_handler h (map event_data evs) hs"
  by (induction evs arbitrary: first hs) (simp_all add: lines_loop_event split: prod.split option.split)

lemma event_stream_data:
  assumes "list_all event_ok evs" "nl = [LF] \<or> nl = [CR, LF]" "length (stream_text nl evs) \<le> maxStreamBytes"
  shows "readEventStream \<lparr>prBytes = stream_text nl evs, prSizes = sizes, prEager = eager, prFail = EOF\<rparr> handle hs
     = run_handler handle (map event_data evs) hs"
proof -
  have "list_all plain_line (event_lines ev)" if "event_ok ev" for ev
    using that by (auto simp: event_ok_def event_lines_def data_line_def other_line_def plain_line_def list_all_iff LF_def CR_def)
  then have plain: "list_all plain_line (concat (map event_lines evs))"
    using assms(1) by (auto simp: list_all_iff)
  then have lines: "lines_of [] (stream_text nl evs) = concat (map event_lines evs)"
    using lines_of_concat [OF _ assms(2)] by (simp add: stream_text_def)
  have "short_lines (stream_text nl evs)"
    using assms(1) by (auto simp: short_lines_def lines event_ok_def list_all_iff)
  then show ?thesis using assms(3) lines_loop_events [OF assms(1)] by (simp add: readEventStream_lines lines)
qed

text \<open>C36. What a peer sends as events is what the handler gets: for every list of events with their comments and other fields, with either
line ending, cut into reads of any sizes in any place, the handler is called once with the data of each event, in order, until it fails, and
a handler that accepts them all sees the stream end without an error. (The events are those the reader is made for: lines and data within
its \<open>maxEventBytes\<close>, at least one line of data and not the sentinel \<open>[DONE]\<close>, and all bytes within \<open>maxStreamBytes\<close>.)\<close>

theorem event_stream_roundtrip:
  assumes "list_all event_ok evs" "nl = [LF] \<or> nl = [CR, LF]" "length (stream_text nl evs) \<le> maxStreamBytes"
  shows "readEventStream \<lparr>prBytes = stream_text nl evs, prSizes = sizes, prEager = eager, prFail = EOF\<rparr> handle hs
     = run_handler handle (map event_data evs) hs"
  by (rule event_stream_data [OF assms])

lemma event_stream_roundtrip_witness:
  "readEventStream \<lparr>prBytes = stream_text [CR, LF] [([''event: ping''], [''{'', ''}'']), ([], [''x''])], prSizes = [3, 1, 0, 20], prEager = True, prFail = EOF\<rparr>
     record_event [] = (None, [''{'' @ [LF] @ ''}'', ''x''])"
proof -
  let ?evs = "[([''event: ping''], [''{'', ''}'']), ([], [''x''])]"
  have "list_all event_ok ?evs"
    by (simp add: event_ok_def event_lines_def event_data_def data_line_def other_line_def plain_line_def HasPrefix_def byte_order_mark_def
        LF_def CR_def maxEventBytes_def)
  moreover have "length (stream_text [CR, LF] ?evs) \<le> maxStreamBytes"
    by (simp add: stream_text_def event_lines_def data_line_def maxStreamBytes_def)
  ultimately show ?thesis
    using event_stream_roundtrip [of ?evs "[CR, LF]" "[3, 1, 0, 20]" True record_event] by (simp add: event_data_def record_event_def)
qed

text \<open>A stream that breaks off.\<close>

lemma lines_of_word: "w \<noteq> [] \<Longrightarrow> \<exists>l' r. lines_of w s = (w @ l') # r"
proof (induction w s rule: lines_of.induct)
  case (2 w c s)
  then show ?case by (cases "c = LF \<or> c = CR") auto
qed simp

lemma lines_of_append:
  "\<exists>ls final rest. lines_of w s = ls @ final \<and> lines_of w (s @ later) = ls @ rest
     \<and> (final = [] \<or> (\<exists>l l' r. final = [l] \<and> l \<noteq> [] \<and> rest = (l @ l') # r))"
proof (induction w s rule: lines_of.induct)
  case (1 w)
  show ?case
  proof (cases "w = []")
    case False
    then obtain l' r where "lines_of w later = (w @ l') # r" using lines_of_word by blast
    then show ?thesis using False by (intro exI [of _ "[]"] exI [of _ "[w]"] exI [of _ "lines_of w later"]) simp
  qed simp
next
  case (2 w c s)
  consider "c = LF" | "c = CR" "s = []" | "c = CR" "s \<noteq> []" | "c \<noteq> LF" "c \<noteq> CR" by blast
  then show ?case
  proof cases
    case 1
    obtain ls fin rest where "lines_of [] s = ls @ fin" "lines_of [] (s @ later) = ls @ rest"
        "fin = [] \<or> (\<exists>l l' r. fin = [l] \<and> l \<noteq> [] \<and> rest = (l @ l') # r)"
      using "2.IH"(1) 1 by blast
    then show ?thesis using 1 by (intro exI [of _ "w # ls"] exI [of _ fin] exI [of _ rest]) simp
  next
    case 2
    then show ?thesis by (intro exI [of _ "[w]"] exI [of _ "[]"] exI [of _ "lines_of [] (if later \<noteq> [] \<and> List.hd later = LF then tl later else later)"]) simp
  next
    case 3
    let ?t = "if s \<noteq> [] \<and> List.hd s = LF then tl s else s"
    obtain ls fin rest where "lines_of [] ?t = ls @ fin" "lines_of [] (?t @ later) = ls @ rest"
        "fin = [] \<or> (\<exists>l l' r. fin = [l] \<and> l \<noteq> [] \<and> rest = (l @ l') # r)"
      using "2.IH"(2) 3 by (metis LF_CR(2))
    moreover have "(if s @ later \<noteq> [] \<and> List.hd (s @ later) = LF then tl (s @ later) else s @ later) = ?t @ later" using 3 by auto
    ultimately show ?thesis using 3 by (intro exI [of _ "w # ls"] exI [of _ fin] exI [of _ rest]) simp
  next
    case 4
    then show ?thesis using "2.IH"(3) by simp
  qed
qed

lemma record_step: "event_step record_event l payload hs = Next payload' hs' \<Longrightarrow> prefix hs hs'"
  by (auto simp: event_step_def record_event_def Let_def split: if_splits prod.splits)

lemma record_stop: "event_step record_event l payload hs = Stop e hs' \<Longrightarrow> hs' = hs"
  by (auto simp: event_step_def record_event_def Let_def split: if_splits prod.splits)

lemma lines_loop_grows: "prefix hs (snd (lines_loop record_event f ls first payload hs))"
proof (induction ls arbitrary: first payload hs)
  case (Cons l ls)
  show ?case
    by (auto split: line_result.split dest: record_stop) (use Cons record_step prefix_order.trans in blast)+
qed simp

lemma lines_loop_append: "prefix (snd (lines_loop record_event f ls first payload hs)) (snd (lines_loop record_event f' (ls @ rest) first payload hs))"
  by (induction ls arbitrary: first payload hs) (auto split: line_result.split simp: lines_loop_grows)

lemma lines_loop_cut:
  "l \<noteq> [] \<Longrightarrow> (first \<longrightarrow> payload = []) \<Longrightarrow>
   snd (lines_loop record_event f (ls @ [l]) first payload hs) = snd (lines_loop record_event f ls first payload hs)"
proof (induction ls arbitrary: first payload hs)
  case Nil
  then show ?case by (auto simp: event_step_def Let_def split: prod.split)
qed (auto split: line_result.split)

text \<open>C37. A stream that breaks off delivers no half event: if a connection ends, in whatever way and cut into whatever reads, after a part
of what the peer wanted to send, then the handler has got a prefix of the events of the complete stream, each of them whole. (The complete
stream is within \<open>maxStreamBytes\<close> and its lines within \<open>maxEventBytes\<close>.)\<close>

theorem broken_stream_delivers_whole_events:
  assumes "prBytes q = prBytes p @ later" "length (prBytes q) \<le> maxStreamBytes" "short_lines (prBytes q)"
  shows "prefix (snd (readEventStream p record_event [])) (snd (readEventStream q record_event []))"
proof -
  obtain ls fin rest where split: "lines_of [] (prBytes p) = ls @ fin" "lines_of [] (prBytes q) = ls @ rest"
      and fin: "fin = [] \<or> (\<exists>l l' r. fin = [l] \<and> l \<noteq> [] \<and> rest = (l @ l') # r)"
    using lines_of_append [of "[]" "prBytes p" later] assms(1) by auto
  have "short_lines (prBytes p)" using assms(3) fin by (auto simp: short_lines_def split)
  then have p: "readEventStream p record_event [] = lines_loop record_event (prFail p) (ls @ fin) True [] []"
    using readEventStream_lines [of p record_event "[]"] assms(1,2) split by simp
  have "snd (lines_loop record_event (prFail p) (ls @ fin) True [] []) = snd (lines_loop record_event (prFail p) ls True [] [])"
    using fin lines_loop_cut by auto
  then show ?thesis using lines_loop_append p readEventStream_lines [OF assms(2,3), of record_event "[]"] split by simp
qed

lemma broken_stream_delivers_whole_events_witness:
  "prefix (snd (readEventStream \<lparr>prBytes = stream_text [LF] [([], [''a''])] @ ''data: b'', prSizes = [4], prEager = False, prFail = UnexpectedEOF\<rparr> record_event []))
     (snd (readEventStream \<lparr>prBytes = stream_text [LF] [([], [''a'']), ([], [''bc''])], prSizes = [], prEager = False, prFail = EOF\<rparr> record_event []))"
  by (rule broken_stream_delivers_whole_events [where later = "''c'' @ [LF, LF]"])
    (simp_all add: stream_text_def event_lines_def data_line_def maxStreamBytes_def short_lines_def maxEventBytes_def LF_def CR_def)

end
