(* ===== verification/Redact.thy ===== *)
theory Redact
  imports Model "HOL-Library.Sublist"
begin

section \<open>Redaction of secrets\<close>

text \<open>
  \<open>internal/redact/redact.go\<close>: configured secrets and texts that look like credentials are replaced in strings, and in the
  leaves of decoded JSON values. Each of the four patterns has at most one match at a position (its character classes leave the
  regular expression no choice), so a pattern is the length of its match. Case folding is the folding of ASCII letters. The value redacted is a JSON value: a Go value
  of another type (a struct, a map of strings) falls into the default case of \<open>value\<close> and is returned as it is.
\<close>

definition Replacement :: string where "Replacement = ''[REDACTED]''"

subsection \<open>Replacing\<close>

text \<open>\<open>strings.ReplaceAll\<close> with a non-empty old text, and \<open>ReplaceAllString\<close> of a pattern: from left to right, without overlaps.\<close>

function replace_matches :: "(string \<Rightarrow> nat option) \<Rightarrow> string \<Rightarrow> string \<Rightarrow> string" where
  "replace_matches p new [] = []"
| "replace_matches p new (c # s) =
     (case p (c # s) of
        Some n \<Rightarrow> if 0 < n then new @ replace_matches p new (drop n (c # s)) else c # replace_matches p new s
      | None \<Rightarrow> c # replace_matches p new s)"
  by pat_completeness auto

termination
  by (relation "measure (\<lambda>(p, new, s). length s)") auto

definition literal :: "string \<Rightarrow> string \<Rightarrow> nat option" where
  "literal old s = (if old \<noteq> [] \<and> HasPrefix s old then Some (length old) else None)"

definition ReplaceAll :: "string \<Rightarrow> string \<Rightarrow> string \<Rightarrow> string" where
  "ReplaceAll s old new = replace_matches (literal old) new s"

subsection \<open>Patterns\<close>

definition char_in :: "string \<Rightarrow> char \<Rightarrow> bool" where
  "char_in cs c \<longleftrightarrow> c \<in> set cs"

definition is_alnum :: "char \<Rightarrow> bool" where
  "is_alnum c \<longleftrightarrow> (let n = (of_char c :: nat) in 48 \<le> n \<and> n \<le> 57 \<or> 65 \<le> n \<and> n \<le> 90 \<or> 97 \<le> n \<and> n \<le> 122)"

text \<open>A pattern is a sequence of literals (in either case) and of runs of a character class with a least length.\<close>

datatype pattern_part = Word string | Run "char \<Rightarrow> bool" nat | Maybe "char \<Rightarrow> bool" | One "char \<Rightarrow> bool"

definition blank :: "char \<Rightarrow> bool" where
  "blank c \<longleftrightarrow> c \<in> {CHR '' '', CHR 0x09, CHR 0x0A, CHR 0x0C, CHR 0x0D}"

fun match_parts :: "pattern_part list \<Rightarrow> string \<Rightarrow> nat option" where
  "match_parts [] s = Some 0"
| "match_parts (Word w # ps) s =
     (if ToLower (take (length w) s) = w then map_option (\<lambda>n. n + length w) (match_parts ps (drop (length w) s)) else None)"
| "match_parts (Run c k # ps) s =
     (let n = length (takeWhile c s) in if n < k then None else map_option (\<lambda>m. m + n) (match_parts ps (drop n s)))"
| "match_parts (Maybe c # ps) s =
     (let n = (if s \<noteq> [] \<and> c (List.hd s) then 1 else 0) in map_option (\<lambda>m. m + n) (match_parts ps (drop n s)))"
| "match_parts (One c # ps) s = (if s \<noteq> [] \<and> c (List.hd s) then map_option (\<lambda>m. m + 1) (match_parts ps (tl s)) else None)"

definition secretPatterns :: "pattern_part list list" where
  "secretPatterns =
     [[Word ''sk-'', Run (\<lambda>c. is_alnum c \<or> char_in ''_-'' c) 12],
      [Word ''bearer'', Run blank 1, Run (\<lambda>c. is_alnum c \<or> char_in ''._~+/=-'' c) 12],
      [Word ''api'', Maybe (char_in ''_ -''), Word ''key'', Run blank 0, One (char_in '':=''), Run blank 0, Run (\<lambda>c. \<not> blank c \<and> \<not> char_in '',;'' c) 1],
      [Word ''password'', Run blank 0, One (char_in '':=''), Run blank 0, Run (\<lambda>c. \<not> blank c \<and> \<not> char_in '',;'' c) 1]]"

subsection \<open>The redactor\<close>

fun clean_secrets :: "string list \<Rightarrow> string list \<Rightarrow> string list" where
  "clean_secrets [] clean = clean"
| "clean_secrets (s # ss) clean =
     (let t = TrimSpace s in if 4 \<le> length t \<and> t \<notin> set clean then clean_secrets ss (clean @ [t]) else clean_secrets ss clean)"

definition New_redactor :: "string list \<Rightarrow> string list" where
  "New_redactor secrets = clean_secrets secrets []"

definition redact_Text :: "string list \<Rightarrow> string \<Rightarrow> string" where
  "redact_Text secrets v =
     fold (\<lambda>p v. replace_matches (match_parts p) Replacement v) secretPatterns (fold (\<lambda>s v. ReplaceAll v s Replacement) secrets v)"

definition sensitive_markers :: "string list" where
  "sensitive_markers = [''api_key'', ''apikey'', ''authorization'', ''password'', ''passwd'', ''secret'', ''access_token'', ''refresh_token'', ''cookie'']"

definition sensitiveKey :: "string \<Rightarrow> bool" where
  "sensitiveKey key \<longleftrightarrow> (let normalized = ToLower (ReplaceAll (ReplaceAll key ''-'' ''_'') '' '' ''_'')
     in list_ex (Contains normalized) sensitive_markers)"

lemma size_field: "kx \<in> set m \<Longrightarrow> size (snd kx) < Suc (size_list (size_prod (\<lambda>_. 0) size) m)"
  using size_list_estimation' [of kx m "size (snd kx)" "size_prod (\<lambda>_. 0) size"] by (cases kx) auto

function redact_value :: "string list \<Rightarrow> string \<Rightarrow> json \<Rightarrow> json" where
  "redact_value secrets key v =
     (if sensitiveKey key \<and> v \<noteq> JNull then JStr Replacement
      else (case v of
          JStr s \<Rightarrow> JStr (redact_Text secrets s)
        | JObj m \<Rightarrow> JObj (map (\<lambda>kx. (fst kx, redact_value secrets (fst kx) (snd kx))) m)
        | JArr xs \<Rightarrow> JArr (map (redact_value secrets key) xs)
        | _ \<Rightarrow> v))"
  by pat_completeness auto

termination
  by (relation "measure (\<lambda>(secrets, key, v). size v)") (auto simp: size_field less_Suc_eq_le size_list_estimation')

declare redact_value.simps [simp del]

subsection \<open>No configured secret is left\<close>

text \<open>
  An occurrence in the result cannot touch a replacement when the secret has no bracket and is not a part of the word inside.
\<close>

definition hidden_by_replacement :: "string \<Rightarrow> bool" where
  "hidden_by_replacement s \<longleftrightarrow> CHR ''['' \<notin> set s \<and> CHR '']'' \<notin> set s \<and> \<not> Contains ''REDACTED'' s"

lemma HasPrefix_prefix: "HasPrefix s p \<longleftrightarrow> prefix p s"
  by (auto simp: HasPrefix_def prefix_def) (metis append_take_drop_id)

lemma Contains_sublist: "Contains s p \<longleftrightarrow> sublist p s"
  by (induction s) (auto simp: HasPrefix_prefix sublist_Cons_right)

lemma sublist_over:
  "sublist s (a @ b) \<Longrightarrow> sublist s a \<or> sublist s b \<or> (\<exists>x y. s = x @ y \<and> x \<noteq> [] \<and> y \<noteq> [] \<and> suffix x a \<and> prefix y b)"
  by (auto simp: sublist_append) (metis append_Nil append_Nil2 prefix_imp_sublist suffix_imp_sublist)

lemma sublist_hidden:
  assumes "hidden_by_replacement s" "s \<noteq> []"
  shows "sublist s (Replacement @ v) \<longleftrightarrow> sublist s v"
proof
  have inner: "Replacement = ''['' @ ''REDACTED'' @ '']''" by (simp add: Replacement_def)
  have br: "CHR ''['' \<notin> set s" "CHR '']'' \<notin> set s" "\<not> sublist s ''REDACTED''"
    using assms(1) by (simp_all add: hidden_by_replacement_def Contains_sublist)
  have no: "\<not> sublist s ''[''" "\<not> sublist s '']''" using assms(2) br by (auto simp: sublist_Cons_right prefix_Cons)
  assume "sublist s (Replacement @ v)"
  then have "sublist s (''['' @ (''REDACTED'' @ ('']'' @ v)))" by (simp add: inner)
  from sublist_over [OF this] consider "sublist s (''REDACTED'' @ ('']'' @ v))" | x y where "s = x @ y" "x \<noteq> []" "suffix x ''[''"
    using no by blast
  then have "sublist s (''REDACTED'' @ ('']'' @ v))"
    by cases (use br in \<open>auto simp: suffix_Cons\<close>)
  from sublist_over [OF this] consider "sublist s ('']'' @ v)" | x y where "s = x @ y" "y \<noteq> []" "prefix y ('']'' @ v)"
    using br by blast
  then have "sublist s ('']'' @ v)"
    by cases (use br in \<open>auto simp: prefix_Cons\<close>)
  from sublist_over [OF this] show "sublist s v"
    using no br by (auto simp: suffix_Cons)
qed (simp add: sublist_append)

lemma replace_keeps_free:
  assumes "hidden_by_replacement s" "s \<noteq> []"
  shows "\<not> sublist s (u @ v) \<Longrightarrow> \<not> sublist s (u @ replace_matches p Replacement v)"
proof (induction p Replacement v arbitrary: u rule: replace_matches.induct)
  case (2 p c v)
  have step: "\<not> sublist s (u @ c # replace_matches p Replacement v)" if "\<And>u. \<not> sublist s (u @ v) \<Longrightarrow> \<not> sublist s (u @ replace_matches p Replacement v)"
    using that [of "u @ [c]"] 2(4) by simp
  show ?case
  proof (cases "p (c # v)")
    case None
    then show ?thesis using step [OF 2(1) [OF None]] by simp
  next
    case (Some n)
    show ?thesis
    proof (cases "0 < n")
      case True
      have "\<not> sublist s (drop n (c # v))"
        using 2(4) by (metis append_take_drop_id sublist_append)
      then have tail: "\<not> sublist s (replace_matches p Replacement (drop n (c # v)))"
        using 2(2) [OF Some True, of "[]"] by simp
      have "\<not> sublist s u" using 2(4) by (simp add: sublist_append)
      show ?thesis
      proof
        assume "sublist s (u @ replace_matches p Replacement (c # v))"
        then have a: "sublist s (u @ (Replacement @ replace_matches p Replacement (drop n (c # v))))" using Some True by simp
        from sublist_over [OF this] consider "sublist s (Replacement @ replace_matches p Replacement (drop n (c # v)))"
            | x y where "s = x @ y" "y \<noteq> []" "prefix y (Replacement @ replace_matches p Replacement (drop n (c # v)))"
          using \<open>\<not> sublist s u\<close> by blast
        then show False
        proof cases
          case 1
          then show ?thesis using sublist_hidden [OF assms] tail by simp
        next
          case 2
          then have "CHR ''['' \<in> set s" by (auto simp: Replacement_def prefix_Cons)
          then show ?thesis using assms(1) by (simp add: hidden_by_replacement_def)
        qed
      qed
    next
      case False
      then show ?thesis using step [OF 2(3) [OF Some False]] Some by simp
    qed
  qed
qed simp

lemma ReplaceAll_free:
  assumes "hidden_by_replacement s" "s \<noteq> []"
  shows "\<not> sublist s (ReplaceAll v s Replacement)"
proof -
  have "\<not> sublist s (replace_matches (literal s) Replacement v)"
  proof (induction "literal s" Replacement v rule: replace_matches.induct)
    case 1
    then show ?case using assms(2) by simp
  next
    case (2 c v)
    show ?case
    proof (cases "prefix s (c # v)")
      case True
      then show ?thesis using 2(2) assms by (simp add: literal_def HasPrefix_prefix sublist_hidden)
    next
      case False
      then have l: "literal s (c # v) = None" by (simp add: literal_def HasPrefix_prefix)
      have free: "\<not> sublist s (replace_matches (literal s) Replacement v)" using 2(1) l by simp
      have "\<not> prefix s (c # replace_matches (literal s) Replacement v)"
      proof
        assume pre: "prefix s (c # replace_matches (literal s) Replacement v)"
        have agree: "take k (replace_matches (literal s) Replacement v) = take k v" if "CHR ''['' \<notin> set (take k (replace_matches (literal s) Replacement v))" for k
          using that
        proof (induction "literal s" Replacement v arbitrary: k rule: replace_matches.induct)
          case (2 c v)
          then show ?case by (cases k) (auto simp: literal_def Replacement_def split: if_splits)
        qed simp
        have "s = take (length s) (c # replace_matches (literal s) Replacement v)" using pre by (auto simp: prefix_def)
        then obtain k where k: "length s = Suc k" "s = c # take k (replace_matches (literal s) Replacement v)"
          using assms(2) by (cases "length s") auto
        have "CHR ''['' \<notin> set s" using assms(1) by (simp add: hidden_by_replacement_def)
        then have "CHR ''['' \<notin> set (take k (replace_matches (literal s) Replacement v))" using k(2) by (metis list.set_intros(2))
        then have "s = c # take k v" using agree k(2) by simp
        then have "prefix s (c # v)" by (metis Cons_prefix_Cons take_is_prefix)
        then show False using False by simp
      qed
      then show ?thesis using l free by (simp add: sublist_Cons_right)
    qed
  qed
  then show ?thesis by (simp add: ReplaceAll_def)
qed

lemma fold_keeps_free:
  assumes "hidden_by_replacement s" "s \<noteq> []"
  shows "\<not> sublist s v \<Longrightarrow> \<not> sublist s (fold (\<lambda>p. replace_matches (f p) Replacement) ps v)"
proof (induction ps arbitrary: v)
  case (Cons p ps)
  then show ?case using replace_keeps_free [OF assms, of "[]" v "f p"] by simp
qed simp

lemma redact_Text_free:
  assumes "s \<in> set secrets" "s \<noteq> []" "hidden_by_replacement s"
  shows "\<not> sublist s (redact_Text secrets v)"
proof -
  obtain before rest where "secrets = before @ s # rest" using assms(1) by (meson split_list)
  then show ?thesis
    using ReplaceAll_free [OF assms(3,2)] fold_keeps_free [OF assms(3,2), where f = literal and ps = rest] fold_keeps_free [OF assms(3,2), where f = match_parts and ps = secretPatterns]
    by (simp add: redact_Text_def ReplaceAll_def)
qed

text \<open>A string that is a value, at any depth; the names of fields are apart, see \<open>field_name\<close>.\<close>

inductive leaf :: "json \<Rightarrow> string \<Rightarrow> bool" where
  leaf_string: "leaf (JStr s) s"
| leaf_array: "x \<in> set xs \<Longrightarrow> leaf x s \<Longrightarrow> leaf (JArr xs) s"
| leaf_object: "(k, x) \<in> set m \<Longrightarrow> leaf x s \<Longrightarrow> leaf (JObj m) s"

inductive_cases leaf_cases: "leaf (JStr t) s" "leaf (JArr xs) s" "leaf (JObj m) s" "leaf JNull s" "leaf (JBool b) s" "leaf (JNum n) s"

lemma redact_value_free:
  "leaf (redact_value secrets key v) t \<Longrightarrow> s \<in> set secrets \<Longrightarrow> s \<noteq> [] \<Longrightarrow> hidden_by_replacement s \<Longrightarrow> \<not> sublist s t"
proof (induction secrets key v arbitrary: t rule: redact_value.induct)
  case (1 secrets key v)
  show ?case
  proof (cases "sensitiveKey key \<and> v \<noteq> JNull")
    case True
    then have "t = Replacement" using 1(3) by (subst (asm) redact_value.simps) (auto elim!: leaf_cases)
    then show ?thesis using sublist_hidden [OF 1(6,5), of "[]"] 1(5) by auto
  next
    case False
    show ?thesis
    proof (cases v)
      case (JStr w)
      then show ?thesis using 1(3) False redact_Text_free [OF 1(4-6)] by (subst (asm) redact_value.simps) (auto elim!: leaf_cases)
    next
      case (JArr xs)
      then obtain x where "x \<in> set xs" "leaf (redact_value secrets key x) t"
        using 1(3) False by (subst (asm) redact_value.simps) (auto elim!: leaf_cases)
      then show ?thesis using 1(1) [OF False JArr] 1(4-6) by blast
    next
      case (JObj m)
      then obtain kx where "kx \<in> set m" "leaf (redact_value secrets (fst kx) (snd kx)) t"
        using 1(3) False by (subst (asm) redact_value.simps) (auto elim!: leaf_cases)
      then show ?thesis using 1(2) [OF False JObj] 1(4-6) by blast
    qed (use 1(3) False in \<open>subst (asm) redact_value.simps, auto elim!: leaf_cases\<close>)+
  qed
qed

lemma clean_secrets_set: "set (clean_secrets ss clean) = set clean \<union> {t. \<exists>s \<in> set ss. t = TrimSpace s \<and> 4 \<le> length t}"
  by (induction ss arbitrary: clean) (auto simp: Let_def)

text \<open>The name of a field of an object, at any depth. Names are copied as they are; a value that is replaced as a whole loses the names in it.\<close>

inductive field_name :: "json \<Rightarrow> string \<Rightarrow> bool" where
  field_here: "(k, x) \<in> set m \<Longrightarrow> field_name (JObj m) k"
| field_array: "x \<in> set xs \<Longrightarrow> field_name x n \<Longrightarrow> field_name (JArr xs) n"
| field_object: "(k, x) \<in> set m \<Longrightarrow> field_name x n \<Longrightarrow> field_name (JObj m) n"

inductive_cases field_name_cases: "field_name (JStr t) n" "field_name (JArr xs) n" "field_name (JObj m) n" "field_name JNull n"
  "field_name (JBool b) n" "field_name (JNum x) n"

lemma redact_value_field_names: "field_name (redact_value secrets key v) n \<Longrightarrow> field_name v n"
proof (induction secrets key v rule: redact_value.induct)
  case (1 secrets key v)
  show ?case
  proof (cases "sensitiveKey key \<and> v \<noteq> JNull")
    case True
    then show ?thesis using 1(3) by (subst (asm) redact_value.simps) (auto elim!: field_name_cases)
  next
    case False
    show ?thesis
    proof (cases v)
      case (JArr xs)
      then obtain x where "x \<in> set xs" "field_name (redact_value secrets key x) n"
        using 1(3) False by (subst (asm) redact_value.simps) (auto elim!: field_name_cases)
      then show ?thesis using 1(1) [OF False JArr] JArr by (auto intro: field_array)
    next
      case (JObj m)
      then have "field_name (JObj (map (\<lambda>kx. (fst kx, redact_value secrets (fst kx) (snd kx))) m)) n"
        using 1(3) False by (subst (asm) redact_value.simps) simp
      then consider x where "(n, x) \<in> set m"
        | k x where "(k, x) \<in> set m" "field_name (redact_value secrets k x) n"
        by (auto elim!: field_name_cases)
      then show ?thesis
        by cases (use 1(2) [OF False JObj] JObj in \<open>auto intro: field_here field_object\<close>)
    qed (use 1(3) False in \<open>subst (asm) redact_value.simps, auto elim!: field_name_cases\<close>)+
  qed
qed

text \<open>C38. Where a configured secret can be left by redaction of a JSON value: no string value, at any depth of objects and arrays,
contains a configured secret of at least four characters after trimming, whatever the other secrets are and in whatever order they are
replaced; a string of the result that contains one is the name of an object field, and that name stood in the value redacted. (Names of
fields are copied unredacted, see \<open>field_name_leaks\<close>, and numbers are not strings. A secret with brackets, or one that is part of the
word REDACTED, would reappear in the replacement itself.)\<close>

theorem secret_survives_only_as_field_name:
  assumes "raw \<in> set secrets" "s = TrimSpace raw" "4 \<le> length s" "hidden_by_replacement s"
    and "leaf (redact_value (New_redactor secrets) key v) t \<or> field_name (redact_value (New_redactor secrets) key v) t" "Contains t s"
  shows "\<not> leaf (redact_value (New_redactor secrets) key v) t \<and> field_name v t"
proof -
  have s: "s \<in> set (New_redactor secrets)" "s \<noteq> []" using assms(1-3) by (auto simp: New_redactor_def clean_secrets_set)
  have "\<not> leaf (redact_value (New_redactor secrets) key v) t"
    using redact_value_free [OF _ s assms(4)] assms(6) by (auto simp: Contains_sublist)
  then show ?thesis using redact_value_field_names assms(5) by blast
qed

lemma plain_names: "\<not> sensitiveKey ''text''" "\<not> sensitiveKey ''a''" "\<not> sensitiveKey ''hunter22''"
  by (simp_all add: sensitiveKey_def ReplaceAll_def literal_def HasPrefix_def ToLower_def sensitive_markers_def)

text \<open>A value with the secret in a string and in the name of its field: gone from the one, left in the other.\<close>

lemma secret_survives_only_as_field_name_witness:
  "\<exists>w. redact_value (New_redactor ['' hunter22 '', ''abc'']) ''text'' (JObj [(''hunter22'', JArr [JStr ''use hunter22 now''])]) = JObj [(''hunter22'', JArr [JStr w])]
     \<and> \<not> Contains w ''hunter22'' \<and> field_name (JObj [(''hunter22'', JArr [JStr ''use hunter22 now''])]) ''hunter22''"
proof -
  let ?r = "New_redactor ['' hunter22 '', ''abc'']" and ?v = "JObj [(''hunter22'', JArr [JStr ''use hunter22 now''])]"
  let ?w = "redact_Text ?r ''use hunter22 now''"
  have v: "redact_value ?r ''text'' ?v = JObj [(''hunter22'', JArr [JStr ?w])]"
    using plain_names by (simp add: redact_value.simps)
  have str: "leaf (redact_value ?r ''text'' ?v) ?w"
    unfolding v by (rule leaf_object, rule list.set_intros(1), rule leaf_array, rule list.set_intros(1), rule leaf_string)
  have name: "field_name (redact_value ?r ''text'' ?v) ''hunter22''"
    unfolding v by (rule field_here, rule list.set_intros(1))
  have hyps: "'' hunter22 '' \<in> set ['' hunter22 '', ''abc'']" "''hunter22'' = TrimSpace '' hunter22 ''" "4 \<le> length ''hunter22''"
    "hidden_by_replacement ''hunter22''" "Contains ''hunter22'' ''hunter22''"
    by (simp_all add: TrimSpace_def is_space_def hidden_by_replacement_def HasPrefix_def)
  have "\<not> Contains ?w ''hunter22''"
    using secret_survives_only_as_field_name [OF hyps(1-4) disjI1 [OF str]] str by blast
  moreover have "field_name ?v ''hunter22''"
    using secret_survives_only_as_field_name [OF hyps(1-4) disjI2 [OF name] hyps(5)] by blast
  ultimately show ?thesis using v by blast
qed

text \<open>The name of a field is not redacted: a configured secret used as a name is left.\<close>

lemma field_name_leaks:
  "redact_value (New_redactor [''hunter22'']) '''' (JObj [(''hunter22'', JNum ''1'')]) = JObj [(''hunter22'', JNum ''1'')]"
proof -
  have "\<not> sensitiveKey ''''"
    by (simp add: sensitiveKey_def ReplaceAll_def literal_def HasPrefix_def ToLower_def sensitive_markers_def)
  then show ?thesis using plain_names by (simp add: redact_value.simps)
qed

text \<open>A field with a sensitive name is replaced as a whole.\<close>

lemma sensitive_field_replaced:
  "sensitiveKey key \<Longrightarrow> v \<noteq> JNull \<Longrightarrow> redact_value secrets key v = JStr Replacement"
  by (subst redact_value.simps) simp

text \<open>The secrets are replaced in the order given: the rest of a secret that contains an earlier one stays in the text.\<close>

lemma contained_secret_leaks:
  "fold (\<lambda>s v. ReplaceAll v s Replacement) (New_redactor [''pass'', ''mypass99'']) ''mypass99'' = ''my[REDACTED]99''"
  by code_simp

end
