(* ===== verification/Wire.thy ===== *)
theory Wire
  imports EventStream Redact Conversation Schema
begin

section \<open>Requests and answers of the two provider protocols\<close>

text \<open>
  \<open>internal/provider/chat.go\<close>, \<open>chat_stream.go\<close> and \<open>http.go\<close>: the bodies built from a conversation, the parsing of whole answers, and
  the assembly of answers from the events of a stream. \<open>wire_lib\<close> is the JSON codec: encoding a body, decoding arguments, items,
  content blocks and events into the structs that the code declares. What the peer answers is an \<open>http_answer\<close>.
\<close>

subsection \<open>HTTP\<close>

record http_profile =
  hpName :: string
  hpAPIKey :: string
  hpModel :: string

text \<open>\<open>htNew\<close>: the error of \<open>NewRequestWithContext\<close>, \<open>htDo\<close> of \<open>Do\<close>; \<open>htDetail\<close> the first 8192 bytes of the body of a refusal.\<close>

record http_answer =
  htNew :: "gerr option"
  htDo :: "gerr option"
  htStatus :: int
  htDetail :: string
  htRetryAfter :: duration
  htEventStream :: bool
  htBody :: peer

definition wire_redact :: "string \<Rightarrow> string \<Rightarrow> string" where
  "wire_redact s secret = (if secret = '''' then s else ReplaceAll s secret ''[REDACTED]'')"

definition http_refused :: "http_profile \<Rightarrow> gerr option \<Rightarrow> http_answer \<Rightarrow> gerr option" where
  "http_refused p marshal a =
     (if TrimSpace (hpAPIKey p) = '''' then Some (Errorf ''provider %s API key is not configured'' [hpName p])
      else (case marshal of
          Some e \<Rightarrow> Some e
        | None \<Rightarrow>
         (case htNew a of
            Some e \<Rightarrow> Some e
          | None \<Rightarrow>
           (case htDo a of
              Some e \<Rightarrow> Some (Wrapf ''provider request: %w'' [] e)
            | None \<Rightarrow> if htStatus a < 200 \<or> 300 \<le> htStatus a
                then Some (HTTPError (htStatus a) (wire_redact (htDetail a) (hpAPIKey p)) (htRetryAfter a)) else None))))"

definition decodeSSE :: "(string \<Rightarrow> gerr + 'a) \<Rightarrow> peer \<Rightarrow> gerr + 'a" where
  "decodeSSE unmarshal body =
     (case readEventStream body (\<lambda>previous d. (None, d)) [] of
        (Some e, final) \<Rightarrow> Inl e
      | (None, final) \<Rightarrow> if final = [] then Inl (Errorf ''empty provider stream'' []) else unmarshal final)"

definition http_do :: "(peer \<Rightarrow> gerr + 'a) \<Rightarrow> (string \<Rightarrow> gerr + 'a) \<Rightarrow> http_profile \<Rightarrow> gerr option \<Rightarrow> http_answer \<Rightarrow> gerr + 'a" where
  "http_do decode_body unmarshal p marshal a =
     (case http_refused p marshal a of
        Some e \<Rightarrow> Inl e
      | None \<Rightarrow> if htEventStream a then decodeSSE unmarshal (htBody a) else decode_body (htBody a))"

definition http_stream :: "http_profile \<Rightarrow> gerr option \<Rightarrow> http_answer \<Rightarrow> ('s \<Rightarrow> string \<Rightarrow> gerr option \<times> 's) \<Rightarrow> 's \<Rightarrow> gerr option \<times> 's" where
  "http_stream p marshal a handle hs =
     (case http_refused p marshal a of Some e \<Rightarrow> (Some e, hs) | None \<Rightarrow> readEventStream (htBody a) handle hs)"

subsection \<open>Values to encode and decoded structs\<close>

datatype wire =
    WBool bool
  | WInt int
  | WStr string
  | WRaw string
  | WJson json
  | WList "wire list"
  | WMap "(string \<times> wire) list"

record response_item =
  riType :: string
  riCallID :: string
  riName :: string
  riArguments :: string
  riBlocks :: "(string \<times> string) list"

record native_response =
  nrModel :: string
  nrStatus :: string
  nrOutputText :: string
  nrOutput :: "string list"
  nrUsage :: wire_usage
  nrError :: "string option"

record openai_event =
  oeType :: string
  oeDelta :: string
  oeResponse :: native_response
  oeMessage :: string

record content_item =
  ciType :: string
  ciText :: string
  ciID :: string
  ciName :: string
  ciInput :: string

record anthropic_response =
  anModel :: string
  anContent :: "string list"
  anUsage :: wire_usage
  anStop :: string

record stream_event =
  evType :: string
  evIndex :: int
  evMessage :: anthropic_response
  evBlock :: "json gomap option"
  evDelta :: string
  evText :: string
  evJSON :: string
  evThinking :: string
  evSignature :: string
  evStop :: string
  evUsage :: wire_usage
  evError :: string

record wire_lib =
  wlMarshal :: "wire \<Rightarrow> gerr option"
  wlArgs :: "json gomap option \<Rightarrow> gerr + string"
  wlObject :: "string \<Rightarrow> gerr + json gomap option"
  wlSchemaDecode :: "string \<Rightarrow> gerr + json"
  wlSchemaEncode :: "json \<Rightarrow> string"
  wlItem :: "string \<Rightarrow> gerr + response_item"
  wlContent :: "string \<Rightarrow> gerr + content_item"
  wlBlock :: "json gomap \<Rightarrow> gerr + string"
  wlOpenAI :: "string \<Rightarrow> gerr + openai_event"
  wlAnthropic :: "string \<Rightarrow> gerr + stream_event"

record chat_request =
  crMessages :: "message list"
  crTools :: "tool_spec list"
  crMaxOutputTokens :: int

definition nativeArgs :: "wire_lib \<Rightarrow> string \<Rightarrow> gerr + json gomap" where
  "nativeArgs lib raw =
     (case wlObject lib raw of
        Inl e \<Rightarrow> Inl (Wrapf ''invalid tool arguments: %w'' [] e)
      | Inr None \<Rightarrow> Inl (Msg ''tool arguments must be a JSON object'')
      | Inr (Some args) \<Rightarrow> Inr args)"

subsection \<open>OpenAI\<close>

definition native_items :: "string \<Rightarrow> message \<Rightarrow> wire list" where
  "native_items protocol m = map (\<lambda>i. WRaw (niData i)) (filter (\<lambda>i. niProtocol i = protocol) (mNative m))"

fun openai_calls :: "wire_lib \<Rightarrow> tool_call list \<Rightarrow> gerr + wire list" where
  "openai_calls lib [] = Inr []"
| "openai_calls lib (c # cs) =
     (case wlArgs lib (tcArgs c) of
        Inl e \<Rightarrow> Inl e
      | Inr args \<Rightarrow>
         (case openai_calls lib cs of
            Inl e \<Rightarrow> Inl e
          | Inr rest \<Rightarrow> Inr (WMap [(''type'', WStr ''function_call''), (''call_id'', WStr (tcID c)), (''name'', WStr (tcName c)), (''arguments'', WStr args)] # rest)))"

fun openai_input :: "wire_lib \<Rightarrow> message list \<Rightarrow> gerr + wire list" where
  "openai_input lib [] = Inr []"
| "openai_input lib (m # ms) =
     (case (if mRole m = ''tool''
            then Inr [WMap [(''type'', WStr ''function_call_output''), (''call_id'', WStr (mToolCallID m)), (''output'', WStr (mContent m))]]
            else (case openai_calls lib (mToolCalls m) of
                Inl e \<Rightarrow> Inl e
              | Inr calls \<Rightarrow> Inr ((if mContent m \<noteq> '''' then [WMap [(''role'', WStr (mRole m)), (''content'', WStr (mContent m))]] else []) @ calls))) of
        Inl e \<Rightarrow> Inl e
      | Inr items \<Rightarrow> (case openai_input lib ms of Inl e \<Rightarrow> Inl e | Inr rest \<Rightarrow> Inr (native_items ''openai'' m @ items @ rest)))"

fun tool_defs :: "wire_lib \<Rightarrow> (tool_spec \<Rightarrow> string \<Rightarrow> wire) \<Rightarrow> tool_spec list \<Rightarrow> gerr + wire list" where
  "tool_defs lib render [] = Inr []"
| "tool_defs lib render (s # ss) =
     (case JSONSchema (wlSchemaDecode lib) (wlSchemaEncode lib) (spSchema s) of
        Inl e \<Rightarrow> Inl e
      | Inr schema \<Rightarrow> (case tool_defs lib render ss of Inl e \<Rightarrow> Inl e | Inr rest \<Rightarrow> Inr (render s schema # rest)))"

definition openai_tool :: "tool_spec \<Rightarrow> string \<Rightarrow> wire" where
  "openai_tool s schema = WMap [(''type'', WStr ''function''), (''name'', WStr (spName s)), (''description'', WStr (spDescription s)),
     (''parameters'', WRaw schema), (''strict'', WBool False)]"

definition openai_chatBody :: "wire_lib \<Rightarrow> string \<Rightarrow> chat_request \<Rightarrow> bool \<Rightarrow> gerr + wire" where
  "openai_chatBody lib model req stream =
     (case ValidateConversation (crMessages req) of
        Some e \<Rightarrow> Inl e
      | None \<Rightarrow>
       (case openai_input lib (crMessages req) of
          Inl e \<Rightarrow> Inl e
        | Inr input \<Rightarrow>
         (case tool_defs lib openai_tool (crTools req) of
            Inl e \<Rightarrow> Inl e
          | Inr defs \<Rightarrow> Inr (WMap [(''model'', WStr model), (''input'', WList input), (''tools'', WList defs),
              (''max_output_tokens'', WInt (crMaxOutputTokens req)), (''stream'', WBool stream), (''store'', WBool False),
              (''include'', WList [WStr ''reasoning.encrypted_content''])]))))"

fun response_items :: "wire_lib \<Rightarrow> string list \<Rightarrow> completion \<Rightarrow> completion \<times> gerr option" where
  "response_items lib [] out = (out, None)"
| "response_items lib (raw # raws) out =
     (case wlItem lib raw of
        Inl e \<Rightarrow> (out, Some e)
      | Inr item \<Rightarrow>
          if riType item = ''function_call'' then
            (case nativeArgs lib (riArguments item) of
               Inl e \<Rightarrow> (out, Some e)
             | Inr args \<Rightarrow> response_items lib raws
                 (out\<lparr>cToolCalls := cToolCalls out @ [\<lparr>tcID = riCallID item, tcName = riName item, tcArgs = Some args\<rparr>]\<rparr>))
          else if riType item = ''message'' then
            response_items lib raws (out\<lparr>cText := cText out @ concat (map (\<lambda>(t, r). t @ r) (riBlocks item))\<rparr>)
          else if riType item = ''reasoning'' then
            response_items lib raws (out\<lparr>cNative := cNative out @ [\<lparr>niProtocol = ''openai'', niData = raw\<rparr>]\<rparr>)
          else (out, Some (Errorf ''unsupported response item %q'' [riType item])))"

definition parseResponse :: "wire_lib \<Rightarrow> native_response \<Rightarrow> completion \<times> gerr option" where
  "parseResponse lib p =
     (let out = no_completion\<lparr>cActualModel := nrModel p, cUsage := Normalized (nrUsage p) True, cStopReason := nrStatus p\<rparr>
      in (case nrError p of
            Some message \<Rightarrow> (out, Some (Errorf ''provider response failed: %s'' [message]))
          | None \<Rightarrow>
              if nrStatus p \<noteq> '''' \<and> nrStatus p \<noteq> ''completed''
              then (out, Some (Errorf ''provider response not complete: %s'' [nrStatus p]))
              else (case response_items lib (nrOutput p) out of
                  (out', Some e) \<Rightarrow> (out', Some e)
                | (out', None) \<Rightarrow> validateCalls (if cText out' = '''' then out'\<lparr>cText := nrOutputText p\<rparr> else out'))))"

definition openai_Chat :: "wire_lib \<Rightarrow> (peer \<Rightarrow> gerr + native_response) \<Rightarrow> (string \<Rightarrow> gerr + native_response) \<Rightarrow> http_profile \<Rightarrow> chat_request \<Rightarrow> http_answer \<Rightarrow> completion \<times> gerr option" where
  "openai_Chat lib decode unmarshal p req a =
     (case openai_chatBody lib (hpModel p) req False of
        Inl e \<Rightarrow> (no_completion, Some e)
      | Inr body \<Rightarrow>
         (case http_do decode unmarshal p (wlMarshal lib body) a of
            Inl e \<Rightarrow> (no_completion, Some e)
          | Inr r \<Rightarrow> parseResponse lib r))"

text \<open>The state of the handler of a stream: \<open>deltas\<close> records the calls of the callback, whose call \<open>n\<close> returns \<open>cb n\<close>.\<close>

record openai_assembly =
  oaOut :: completion
  oaDone :: bool
  oaDeltas :: "string list"

definition openai_handle :: "wire_lib \<Rightarrow> (nat \<Rightarrow> gerr option) \<Rightarrow> openai_assembly \<Rightarrow> string \<Rightarrow> gerr option \<times> openai_assembly" where
  "openai_handle lib cb st data =
     (case wlOpenAI lib data of
        Inl e \<Rightarrow> (Some e, st)
      | Inr ev \<Rightarrow>
          if oaDone st then (Some (Errorf ''event after response completed'' []), st)
          else if oeType ev = ''response.output_text.delta'' then
            (cb (length (oaDeltas st)),
             st\<lparr>oaOut := (oaOut st)\<lparr>cText := cText (oaOut st) @ oeDelta ev\<rparr>, oaDeltas := oaDeltas st @ [oeDelta ev]\<rparr>)
          else if oeType ev = ''response.completed'' then
            (case parseResponse lib (oeResponse ev) of
               (whole, e) \<Rightarrow> (e, st\<lparr>oaOut := (if cText whole = '''' then whole\<lparr>cText := cText (oaOut st)\<rparr> else whole), oaDone := e = None\<rparr>))
          else if oeType ev = ''response.failed'' \<or> oeType ev = ''response.incomplete'' then (Some (Errorf ''provider stream %s'' [oeType ev]), st)
          else if oeType ev = ''error'' then (Some (Errorf ''provider stream error: %s'' [oeMessage ev]), st)
          else (None, st))"

definition openai_ChatStream :: "wire_lib \<Rightarrow> (nat \<Rightarrow> gerr option) \<Rightarrow> http_profile \<Rightarrow> chat_request \<Rightarrow> http_answer \<Rightarrow> completion \<times> gerr option \<times> string list" where
  "openai_ChatStream lib cb p req a =
     (case openai_chatBody lib (hpModel p) req True of
        Inl e \<Rightarrow> (no_completion, Some e, [])
      | Inr body \<Rightarrow>
         (case http_stream p (wlMarshal lib body) a (openai_handle lib cb) \<lparr>oaOut = no_completion, oaDone = False, oaDeltas = []\<rparr> of
            (err, st) \<Rightarrow> (oaOut st, if err = None \<and> \<not> oaDone st then Some UnexpectedEOF else err, oaDeltas st)))"

subsection \<open>Anthropic\<close>

record wire_message =
  wmRole :: string
  wmContent :: "wire list"

definition tool_use :: "tool_call \<Rightarrow> wire" where
  "tool_use c = WMap [(''type'', WStr ''tool_use''), (''id'', WStr (tcID c)), (''name'', WStr (tcName c)),
     (''input'', WJson (case tcArgs c of None \<Rightarrow> JNull | Some args \<Rightarrow> JObj args))]"

definition tool_result_part :: "message \<Rightarrow> wire" where
  "tool_result_part m = WMap [(''type'', WStr ''tool_result''), (''tool_use_id'', WStr (mToolCallID m)), (''content'', WStr (mContent m))]"

definition text_part :: "string \<Rightarrow> wire" where
  "text_part text = WMap [(''type'', WStr ''text''), (''text'', WStr text)]"

definition anthropic_content :: "message \<Rightarrow> wire_message" where
  "anthropic_content m =
     (if mRole m = ''tool'' then \<lparr>wmRole = ''user'', wmContent = [tool_result_part m]\<rparr>
      else
       (let system = mRole m = ''system'';
            text = (if system then ''[Runtime notice]'' @ newline @ mContent m else mContent m)
        in \<lparr>wmRole = (if system then ''user'' else mRole m),
            wmContent = native_items ''anthropic'' m @ (if text \<noteq> '''' then [text_part text] else []) @ map tool_use (mToolCalls m)\<rparr>))"

text \<open>\<open>previous\<close>: the role of the message before. Results that follow a result are added to the last message.\<close>

fun anthropic_messages :: "string \<Rightarrow> message list \<Rightarrow> string list \<Rightarrow> wire_message list \<Rightarrow> string list \<times> wire_message list" where
  "anthropic_messages previous [] system msgs = (system, msgs)"
| "anthropic_messages previous (m # ms) system msgs =
     (if mRole m = ''system'' \<and> msgs = [] then anthropic_messages (mRole m) ms (system @ [mContent m]) msgs
      else
       (let w = anthropic_content m in
        if wmContent w = [] then anthropic_messages (mRole m) ms system msgs
        else if previous = ''tool'' \<and> mRole m = ''tool'' \<and> msgs \<noteq> []
        then anthropic_messages (mRole m) ms system (butlast msgs @ [(last msgs)\<lparr>wmContent := wmContent (last msgs) @ wmContent w\<rparr>])
        else anthropic_messages (mRole m) ms system (msgs @ [w])))"

definition anthropic_tool :: "tool_spec \<Rightarrow> string \<Rightarrow> wire" where
  "anthropic_tool s schema = WMap [(''name'', WStr (spName s)), (''description'', WStr (spDescription s)), (''input_schema'', WRaw schema)]"

definition anthropic_chatBody :: "wire_lib \<Rightarrow> string \<Rightarrow> chat_request \<Rightarrow> bool \<Rightarrow> gerr + wire" where
  "anthropic_chatBody lib model req stream =
     (case ValidateConversation (crMessages req) of
        Some e \<Rightarrow> Inl e
      | None \<Rightarrow>
       (case anthropic_messages '''' (crMessages req) [] [] of
          (system, msgs) \<Rightarrow>
           (case tool_defs lib anthropic_tool (crTools req) of
              Inl e \<Rightarrow> Inl e
            | Inr defs \<Rightarrow> Inr (WMap [(''model'', WStr model), (''system'', WStr (join_with (newline @ newline) system)),
                (''messages'', WList (map (\<lambda>w. WMap [(''role'', WStr (wmRole w)), (''content'', WList (wmContent w))]) msgs)),
                (''tools'', WList defs), (''max_tokens'', WInt (crMaxOutputTokens req)), (''stream'', WBool stream)]))))"

fun content_items :: "wire_lib \<Rightarrow> string list \<Rightarrow> completion \<Rightarrow> completion \<times> gerr option" where
  "content_items lib [] out = (out, None)"
| "content_items lib (raw # raws) out =
     (case wlContent lib raw of
        Inl e \<Rightarrow> (out, Some e)
      | Inr item \<Rightarrow>
          if ciType item = ''text'' then content_items lib raws (out\<lparr>cText := cText out @ ciText item\<rparr>)
          else if ciType item = ''tool_use'' then
            (case nativeArgs lib (ciInput item) of
               Inl e \<Rightarrow> (out, Some e)
             | Inr args \<Rightarrow> content_items lib raws (out\<lparr>cToolCalls := cToolCalls out @ [\<lparr>tcID = ciID item, tcName = ciName item, tcArgs = Some args\<rparr>]\<rparr>))
          else if ciType item = ''thinking'' \<or> ciType item = ''redacted_thinking'' then
            content_items lib raws (out\<lparr>cNative := cNative out @ [\<lparr>niProtocol = ''anthropic'', niData = raw\<rparr>]\<rparr>)
          else (out, Some (Errorf ''unsupported content block %q'' [ciType item])))"

definition parseAnthropic :: "wire_lib \<Rightarrow> anthropic_response \<Rightarrow> completion \<times> gerr option" where
  "parseAnthropic lib p =
     (case content_items lib (anContent p) (no_completion\<lparr>cActualModel := anModel p, cUsage := Normalized (anUsage p) False, cStopReason := anStop p\<rparr>) of
        (out, Some e) \<Rightarrow> (out, Some e)
      | (out, None) \<Rightarrow>
          if anStop p = ''max_tokens'' then (out, Some (Msg ''model output token limit reached before complete response'')) else validateCalls out)"

definition anthropic_Chat ::
  "wire_lib \<Rightarrow> (peer \<Rightarrow> gerr + anthropic_response) \<Rightarrow> (string \<Rightarrow> gerr + anthropic_response) \<Rightarrow> http_profile \<Rightarrow> chat_request \<Rightarrow> http_answer
     \<Rightarrow> completion \<times> gerr option" where
  "anthropic_Chat lib decode unmarshal p req a =
     (case anthropic_chatBody lib (hpModel p) req False of
        Inl e \<Rightarrow> (no_completion, Some e)
      | Inr body \<Rightarrow>
         (case http_do decode unmarshal p (wlMarshal lib body) a of
            Inl e \<Rightarrow> (no_completion, Some e)
          | Inr r \<Rightarrow> parseAnthropic lib r))"

subsection \<open>Assembling an answer from its events\<close>

text \<open>
  Blocks are opened in the order of their indices, so the map from index to block is a list; \<open>asPartial\<close> holds the JSON fragments
  of an index and \<open>asStopped\<close> the indices of the blocks that ended.
\<close>

definition no_response :: anthropic_response where
  "no_response = \<lparr>anModel = '''', anContent = [],
     anUsage = \<lparr>wInput = None, wOutput = None, wCacheRead = None, wCacheWrite = None, wDetails = None\<rparr>, anStop = ''''\<rparr>"

record assembly =
  asBlocks :: "json gomap list"
  asPartial :: "nat \<Rightarrow> string option"
  asStopped :: "nat list"
  asResponse :: anthropic_response
  asVisible :: string
  asDone :: bool
  asDeltas :: "string list"

definition new_assembly :: assembly where
  "new_assembly = \<lparr>asBlocks = [], asPartial = (\<lambda>_. None), asStopped = [], asResponse = no_response, asVisible = '''', asDone = False, asDeltas = []\<rparr>"

definition stringField :: "json gomap \<Rightarrow> string \<Rightarrow> string" where
  "stringField m k = (case mget m k of Some (JStr s) \<Rightarrow> s | _ \<Rightarrow> '''')"

definition append_field :: "string \<Rightarrow> string \<Rightarrow> json gomap \<Rightarrow> json gomap" where
  "append_field k s b = mput k (JStr (stringField b k @ s)) b"

definition set_block :: "nat \<Rightarrow> (json gomap \<Rightarrow> json gomap) \<Rightarrow> assembly \<Rightarrow> assembly" where
  "set_block i f st = st\<lparr>asBlocks := (asBlocks st)[i := f (asBlocks st ! i)]\<rparr>"

definition active_block :: "stream_event \<Rightarrow> assembly \<Rightarrow> bool" where
  "active_block ev st \<longleftrightarrow> 0 \<le> evIndex ev \<and> nat (evIndex ev) < length (asBlocks st) \<and> nat (evIndex ev) \<notin> set (asStopped st)"

definition decimal :: "int \<Rightarrow> string" where
  "decimal i = (if i < 0 then ''-'' @ Itoa (nat (- i)) else Itoa (nat i))"

definition block_delta :: "(nat \<Rightarrow> gerr option) \<Rightarrow> stream_event \<Rightarrow> assembly \<Rightarrow> gerr option \<times> assembly" where
  "block_delta cb ev st =
     (let i = nat (evIndex ev) in
      if \<not> active_block ev st then (Some (Errorf ''delta without active block'' []), st)
      else if evDelta ev = ''text_delta'' then
        (cb (length (asDeltas st)),
         set_block i (append_field ''text'' (evText ev)) (st\<lparr>asVisible := asVisible st @ evText ev, asDeltas := asDeltas st @ [evText ev]\<rparr>))
      else if evDelta ev = ''input_json_delta'' then
        (None, st\<lparr>asPartial := (asPartial st)(i := Some ((case asPartial st i of None \<Rightarrow> '''' | Some s \<Rightarrow> s) @ evJSON ev))\<rparr>)
      else if evDelta ev = ''thinking_delta'' then (None, set_block i (append_field ''thinking'' (evThinking ev)) st)
      else if evDelta ev = ''signature_delta'' then (None, set_block i (append_field ''signature'' (evSignature ev)) st)
      else (None, st))"

definition block_stop :: "wire_lib \<Rightarrow> stream_event \<Rightarrow> assembly \<Rightarrow> gerr option \<times> assembly" where
  "block_stop lib ev st =
     (let i = nat (evIndex ev) in
      if \<not> active_block ev st then (Some (Errorf ''stop without active block'' []), st)
      else (case asPartial st i of
          None \<Rightarrow> (None, st\<lparr>asStopped := i # asStopped st\<rparr>)
        | Some raw \<Rightarrow>
           (case nativeArgs lib raw of
              Inl e \<Rightarrow> (Some e, st)
            | Inr args \<Rightarrow> (None, set_block i (mput ''input'' (JObj args)) (st\<lparr>asStopped := i # asStopped st\<rparr>)))))"

definition assemble :: "wire_lib \<Rightarrow> (nat \<Rightarrow> gerr option) \<Rightarrow> stream_event \<Rightarrow> assembly \<Rightarrow> gerr option \<times> assembly" where
  "assemble lib cb ev st =
     (if asDone st then (Some (Errorf ''event after message stopped'' []), st)
      else if evType ev = ''message_start'' then (None, st\<lparr>asResponse := evMessage ev\<rparr>)
      else if evType ev = ''content_block_start'' then
        (case evBlock ev of
           Some b \<Rightarrow> if evIndex ev < 0 \<or> evIndex ev \<noteq> int (length (asBlocks st)) then (Some (Errorf ''invalid stream block index %d'' [decimal (evIndex ev)]), st)
                     else (None, st\<lparr>asBlocks := asBlocks st @ [b]\<rparr>)
         | None \<Rightarrow> (Some (Errorf ''invalid stream block index %d'' [decimal (evIndex ev)]), st))
      else if evType ev = ''content_block_delta'' then block_delta cb ev st
      else if evType ev = ''content_block_stop'' then block_stop lib ev st
      else if evType ev = ''message_delta'' then
        (None, st\<lparr>asResponse := (asResponse st)\<lparr>anUsage := (anUsage (asResponse st))\<lparr>wOutput := wOutput (evUsage ev)\<rparr>, anStop := evStop ev\<rparr>\<rparr>)
      else if evType ev = ''message_stop'' then
        (if length (asStopped st) \<noteq> length (asBlocks st) then (Some (Errorf ''unfinished content blocks'' []), st) else (None, st\<lparr>asDone := True\<rparr>))
      else if evType ev = ''error'' then (Some (Errorf ''provider stream error: %s'' [evError ev]), st)
      else (None, st))"

definition anthropic_handle :: "wire_lib \<Rightarrow> (nat \<Rightarrow> gerr option) \<Rightarrow> assembly \<Rightarrow> string \<Rightarrow> gerr option \<times> assembly" where
  "anthropic_handle lib cb st data = (case wlAnthropic lib data of Inl e \<Rightarrow> (Some e, st) | Inr ev \<Rightarrow> assemble lib cb ev st)"

fun marshal_blocks :: "wire_lib \<Rightarrow> json gomap list \<Rightarrow> gerr + string list" where
  "marshal_blocks lib [] = Inr []"
| "marshal_blocks lib (b # bs) =
     (case wlBlock lib b of Inl e \<Rightarrow> Inl e | Inr raw \<Rightarrow> (case marshal_blocks lib bs of Inl e \<Rightarrow> Inl e | Inr rest \<Rightarrow> Inr (raw # rest)))"

definition anthropic_ChatStream ::
  "wire_lib \<Rightarrow> (nat \<Rightarrow> gerr option) \<Rightarrow> http_profile \<Rightarrow> chat_request \<Rightarrow> http_answer \<Rightarrow> completion \<times> gerr option \<times> string list" where
  "anthropic_ChatStream lib cb p req a =
     (case anthropic_chatBody lib (hpModel p) req True of
        Inl e \<Rightarrow> (no_completion, Some e, [])
      | Inr body \<Rightarrow>
         (case http_stream p (wlMarshal lib body) a (anthropic_handle lib cb) new_assembly of
            (err, st) \<Rightarrow>
             (case (if err = None \<and> \<not> asDone st then Some UnexpectedEOF else err) of
                Some e \<Rightarrow> (no_completion\<lparr>cText := asVisible st, cUsage := Normalized (anUsage (asResponse st)) False,
                    cActualModel := anModel (asResponse st)\<rparr>, Some e, asDeltas st)
              | None \<Rightarrow>
                 (case marshal_blocks lib (asBlocks st) of
                    Inl e \<Rightarrow> (no_completion, Some e, asDeltas st)
                  | Inr raws \<Rightarrow> (case parseAnthropic lib ((asResponse st)\<lparr>anContent := raws\<rparr>) of (out, e) \<Rightarrow> (out, e, asDeltas st))))))"

subsection \<open>Every call of a request is answered in the next message\<close>

definition part_type :: "wire \<Rightarrow> string" where
  "part_type w = (case w of WMap m \<Rightarrow> (case mget m ''type'' of Some (WStr t) \<Rightarrow> t | _ \<Rightarrow> '''') | _ \<Rightarrow> '''')"

definition part_field :: "string \<Rightarrow> wire \<Rightarrow> string" where
  "part_field k w = (case w of WMap m \<Rightarrow> (case mget m k of Some (WStr t) \<Rightarrow> t | _ \<Rightarrow> '''') | _ \<Rightarrow> '''')"

definition used_ids :: "wire_message \<Rightarrow> string list" where
  "used_ids w = map (part_field ''id'') (filter (\<lambda>x. part_type x = ''tool_use'') (wmContent w))"

definition answered_ids :: "wire_message \<Rightarrow> string list" where
  "answered_ids w = map (part_field ''tool_use_id'') (filter (\<lambda>x. part_type x = ''tool_result'') (wmContent w))"

definition answers_of :: "wire_message \<Rightarrow> wire_message \<Rightarrow> bool" where
  "answers_of m r \<longleftrightarrow> wmRole m = ''assistant'' \<and> wmRole r = ''user'' \<and> list_all (\<lambda>x. part_type x = ''tool_result'') (wmContent r)
     \<and> mset (answered_ids r) = mset (used_ids m)"

text \<open>What the Messages API asks for: results stand in the message after the calls, alone, one for each.\<close>

fun calls_answered :: "wire_message list \<Rightarrow> bool" where
  "calls_answered [] \<longleftrightarrow> True"
| "calls_answered [m] \<longleftrightarrow> used_ids m = [] \<and> answered_ids m = []"
| "calls_answered (m # r # rest) \<longleftrightarrow> answered_ids m = []
     \<and> (if used_ids m = [] then calls_answered (r # rest) else answers_of m r \<and> calls_answered rest)"

definition read_message :: "wire \<Rightarrow> wire_message" where
  "read_message w = (case w of
     WMap m \<Rightarrow> \<lparr>wmRole = part_field ''role'' w, wmContent = (case mget m ''content'' of Some (WList ws) \<Rightarrow> ws | _ \<Rightarrow> [])\<rparr>
   | _ \<Rightarrow> \<lparr>wmRole = '''', wmContent = []\<rparr>)"

definition body_messages :: "wire \<Rightarrow> wire_message list" where
  "body_messages w = (case w of WMap m \<Rightarrow> (case mget m ''messages'' of Some (WList ws) \<Rightarrow> map read_message ws | _ \<Rightarrow> []) | _ \<Rightarrow> [])"

lemma part_simps [simp]:
  "part_type (WRaw r) = ''''" "part_type (text_part t) = ''text''" "part_type (tool_use c) = ''tool_use''"
  "part_type (tool_result_part m) = ''tool_result''" "part_field ''id'' (tool_use c) = tcID c"
  "part_field ''tool_use_id'' (tool_result_part m) = mToolCallID m"
  by (simp_all add: part_type_def part_field_def text_part_def tool_use_def tool_result_part_def)

lemma native_types [simp]: "filter (\<lambda>x. part_type x = t) (native_items p m) = (if t = '''' then native_items p m else [])"
  by (auto simp: native_items_def)

lemma content_ids:
  "mRole m \<noteq> ''tool'' \<Longrightarrow> used_ids (anthropic_content m) = map tcID (mToolCalls m) \<and> answered_ids (anthropic_content m) = []"
  by (auto simp: used_ids_def answered_ids_def anthropic_content_def Let_def filter_map comp_def)

lemma content_result: "mRole m = ''tool'' \<Longrightarrow> anthropic_content m = \<lparr>wmRole = ''user'', wmContent = [tool_result_part m]\<rparr>"
  by (simp add: anthropic_content_def)

lemma calls_answered_append: "calls_answered xs \<Longrightarrow> calls_answered ys \<Longrightarrow> calls_answered (xs @ ys)"
proof (induction xs rule: calls_answered.induct)
  case (2 m)
  then show ?case by (cases ys) auto
qed (auto split: if_splits)

lemma results_joined:
  "list_all (\<lambda>r. mRole r = ''tool'') rs \<Longrightarrow>
   anthropic_messages ''tool'' (rs @ ms) system (msgs @ [w])
     = anthropic_messages ''tool'' ms system (msgs @ [w\<lparr>wmContent := wmContent w @ map tool_result_part rs\<rparr>])"
  by (induction rs arbitrary: w) (simp_all add: content_result)

lemma result_ids: "answered_ids \<lparr>wmRole = a, wmContent = map tool_result_part rs\<rparr> = map mToolCallID rs"
    "used_ids \<lparr>wmRole = a, wmContent = map tool_result_part rs\<rparr> = []"
  by (simp_all add: answered_ids_def used_ids_def filter_map comp_def)

definition calls_of :: "message list \<Rightarrow> string list" where
  "calls_of ms = concat (map (\<lambda>m. if mRole m = ''tool'' then [] else map tcID (mToolCalls m)) ms)"

lemma calls_of_simps [simp]:
  "calls_of [] = []" "mRole m = ''tool'' \<Longrightarrow> calls_of (m # ms) = calls_of ms"
  "mRole m \<noteq> ''tool'' \<Longrightarrow> calls_of (m # ms) = map tcID (mToolCalls m) @ calls_of ms" "calls_of (ms @ ms') = calls_of ms @ calls_of ms'"
  by (simp_all add: calls_of_def)

lemma calls_of_results: "list_all (\<lambda>r. mRole r = ''tool'') rs \<Longrightarrow> calls_of rs = []"
  by (induction rs) simp_all

lemma messages_answered:
  "conversation used ms \<Longrightarrow> calls_answered msgs \<Longrightarrow>
   calls_answered (snd (anthropic_messages previous ms system msgs))
     \<and> concat (map used_ids (snd (anthropic_messages previous ms system msgs))) = concat (map used_ids msgs) @ calls_of ms"
proof (induction used ms arbitrary: previous system msgs rule: conversation.induct)
  case (turn used m rs rest)
  have m: "mRole m \<noteq> ''tool''" using turn(1) by (auto simp: turn_ok_def)
  have rs: "list_all (\<lambda>r. mRole r = ''tool'') rs" "mset (map mToolCallID rs) = mset (map tcID (mToolCalls m))"
    using turn(2) by (simp_all add: results_for_def)
  have calls: "calls_of (m # rs @ rest) = map tcID (mToolCalls m) @ calls_of rest" using m calls_of_results [OF rs(1)] by simp
  let ?w = "anthropic_content m"
  note ids = content_ids [OF m]
  show ?case
  proof (cases "mToolCalls m = []")
    case True
    then have "rs = []" using rs(2) by simp
    have ext: "calls_answered (msgs @ [?w])"
      using ids True turn.prems by (intro calls_answered_append) simp_all
    show ?thesis using turn.IH [of msgs] turn.IH [OF ext] turn.prems m ids True \<open>rs = []\<close>
      by (auto simp: Let_def)
  next
    case False
    then obtain r rs' where r: "rs = r # rs'" using rs(2) by (cases rs) auto
    let ?r = "\<lparr>wmRole = ''user'', wmContent = map tool_result_part rs\<rparr>"
    have role: "mRole m = ''assistant''" "wmRole ?w = ''assistant''" using turn(1) False by (auto simp: turn_ok_def anthropic_content_def Let_def)
    have "wmContent ?w \<noteq> []" using False role by (simp add: anthropic_content_def Let_def)
    then have "anthropic_messages previous (m # rs @ rest) system msgs = anthropic_messages ''assistant'' (rs @ rest) system (msgs @ [?w])"
      using role m by (simp add: Let_def)
    also have "\<dots> = anthropic_messages ''tool'' rest system (msgs @ [?w, ?r])"
      using results_joined [of rs' rest system "msgs @ [?w]"] rs(1) by (simp add: r content_result)
    finally have run: "anthropic_messages previous (m # rs @ rest) system msgs = anthropic_messages ''tool'' rest system (msgs @ [?w, ?r])" .
    have "answers_of ?w ?r" using role rs ids by (simp add: answers_of_def result_ids list_all_iff)
    then have "calls_answered (msgs @ [?w, ?r])"
      using turn.prems ids False by (intro calls_answered_append) (simp_all add: result_ids)
    from turn.IH [OF this, of "''tool''" system] show ?thesis
      unfolding run calls using ids by (simp add: result_ids)
  qed
qed simp

text \<open>C39. A request answers every call it carries: in the body built for the Messages API from a conversation that passes the validation, the
calls of an assistant message are followed by one user message with nothing but their results, one for each call, no result stands
anywhere else, and the calls are those of the conversation, in their order.\<close>

theorem request_answers_every_call:
  assumes "anthropic_chatBody lib model req stream = Inr body"
  shows "calls_answered (body_messages body) \<and> concat (map used_ids (body_messages body)) = calls_of (crMessages req)"
proof -
  have read: "read_message (WMap [(''role'', WStr (wmRole w)), (''content'', WList (wmContent w))]) = w" for w
    by (simp add: read_message_def part_field_def)
  have valid: "conv_loop (crMessages req) [] [] = None" and body: "body_messages body = snd (anthropic_messages '''' (crMessages req) [] [])"
    using assms by (auto simp: anthropic_chatBody_def ValidateConversation_def body_messages_def read comp_def split: option.splits prod.splits sum.splits)
  have "conversation {} (crMessages req)" using valid by (auto dest: accepted_conversation)
  from messages_answered [OF this, of "[]" "''''" "[]"] show ?thesis by (simp add: body)
qed

definition demo_wire :: wire_lib where
  "demo_wire = \<lparr>wlMarshal = (\<lambda>_. None), wlArgs = (\<lambda>_. Inr ''{}''), wlObject = (\<lambda>s. Inr (Some [(''raw'', JStr s)])),
     wlSchemaDecode = (\<lambda>_. Inr JNull), wlSchemaEncode = (\<lambda>_. ''{}''), wlItem = (\<lambda>_. Inl EOF),
     wlContent = (\<lambda>raw. Inr \<lparr>ciType = ''text'', ciText = raw, ciID = '''', ciName = '''', ciInput = ''''\<rparr>),
     wlBlock = (\<lambda>b. Inr (stringField b ''text'')), wlOpenAI = (\<lambda>_. Inl EOF), wlAnthropic = (\<lambda>_. Inl EOF)\<rparr>"

definition demo_request :: chat_request where
  "demo_request = \<lparr>crMessages =
     [text_message ''system'' ''be brief'', text_message ''user'' ''hi'',
      (text_message ''assistant'' '''')\<lparr>mToolCalls := [\<lparr>tcID = ''a'', tcName = ''ls'', tcArgs = None\<rparr>, \<lparr>tcID = ''b'', tcName = ''ls'', tcArgs = None\<rparr>]\<rparr>,
      (text_message ''tool'' ''1'')\<lparr>mToolCallID := ''b''\<rparr>, (text_message ''tool'' ''2'')\<lparr>mToolCallID := ''a''\<rparr>],
     crTools = [], crMaxOutputTokens = 100\<rparr>"

lemma request_answers_every_call_witness:
  "\<exists>body. anthropic_chatBody demo_wire ''m'' demo_request True = Inr body \<and> calls_answered (body_messages body)
     \<and> concat (map used_ids (body_messages body)) = [''a'', ''b'']"
proof -
  have "ValidateConversation (crMessages demo_request) = None"
    by (simp add: demo_request_def text_message_def ValidateConversation_def)
  moreover have "crTools demo_request = []" by (simp add: demo_request_def)
  ultimately obtain body where body: "anthropic_chatBody demo_wire ''m'' demo_request True = Inr body"
    by (cases "anthropic_messages '''' (crMessages demo_request) [] []") (simp add: anthropic_chatBody_def)
  have "calls_of (crMessages demo_request) = [''a'', ''b'']" by (simp add: demo_request_def text_message_def calls_of_def)
  then show ?thesis using request_answers_every_call [OF body] body by auto
qed

subsection \<open>A streamed answer is the whole answer\<close>

text \<open>
  What a peer sends for the blocks of a message: the block it starts with, and its fragments of text, of the JSON of its arguments,
  or of thinking with its signature.
\<close>

datatype block_script =
    TextBlock "json gomap" "string list"
  | ToolBlock "json gomap" "string list"
  | ThinkBlock "json gomap" "string list" "string list"

definition no_event :: stream_event where
  "no_event = \<lparr>evType = '''', evIndex = 0, evMessage = no_response, evBlock = None, evDelta = '''', evText = '''', evJSON = '''', evThinking = '''',
     evSignature = '''', evStop = '''', evUsage = anUsage no_response, evError = ''''\<rparr>"

definition start_event :: "nat \<Rightarrow> json gomap \<Rightarrow> stream_event" where
  "start_event i b = no_event\<lparr>evType := ''content_block_start'', evIndex := int i, evBlock := Some b\<rparr>"

definition stop_event :: "nat \<Rightarrow> stream_event" where
  "stop_event i = no_event\<lparr>evType := ''content_block_stop'', evIndex := int i\<rparr>"

definition delta_event :: "nat \<Rightarrow> string \<Rightarrow> stream_event" where
  "delta_event i kind = no_event\<lparr>evType := ''content_block_delta'', evIndex := int i, evDelta := kind\<rparr>"

fun script_deltas :: "nat \<Rightarrow> block_script \<Rightarrow> stream_event list" where
  "script_deltas i (TextBlock b ds) = map (\<lambda>d. (delta_event i ''text_delta'')\<lparr>evText := d\<rparr>) ds"
| "script_deltas i (ToolBlock b ds) = map (\<lambda>d. (delta_event i ''input_json_delta'')\<lparr>evJSON := d\<rparr>) ds"
| "script_deltas i (ThinkBlock b ts ss) = map (\<lambda>d. (delta_event i ''thinking_delta'')\<lparr>evThinking := d\<rparr>) ts
     @ map (\<lambda>d. (delta_event i ''signature_delta'')\<lparr>evSignature := d\<rparr>) ss"

fun script_start :: "block_script \<Rightarrow> json gomap" where
  "script_start (TextBlock b ds) = b"
| "script_start (ToolBlock b ds) = b"
| "script_start (ThinkBlock b ts ss) = b"

fun script_text :: "block_script \<Rightarrow> string list" where
  "script_text (TextBlock b ds) = ds"
| "script_text _ = []"

definition script_events :: "nat \<Rightarrow> block_script \<Rightarrow> stream_event list" where
  "script_events i s = start_event i (script_start s) # script_deltas i s @ [stop_event i]"

fun scripts_events :: "nat \<Rightarrow> block_script list \<Rightarrow> stream_event list" where
  "scripts_events i [] = []"
| "scripts_events i (s # ss) = script_events i s @ scripts_events (i + 1) ss"

definition with_text :: "string \<Rightarrow> string list \<Rightarrow> json gomap \<Rightarrow> json gomap" where
  "with_text k ds b = (if ds = [] then b else append_field k (concat ds) b)"

text \<open>The block as it is when it is sent whole.\<close>

fun finished_block :: "wire_lib \<Rightarrow> block_script \<Rightarrow> json gomap option" where
  "finished_block lib (TextBlock b ds) = Some (with_text ''text'' ds b)"
| "finished_block lib (ThinkBlock b ts ss) = Some (with_text ''signature'' ss (with_text ''thinking'' ts b))"
| "finished_block lib (ToolBlock b ds) =
     (if ds = [] then Some b
      else (case nativeArgs lib (concat ds) of Inl e \<Rightarrow> None | Inr args \<Rightarrow> Some (mput ''input'' (JObj args) b)))"

definition message_events :: "anthropic_response \<Rightarrow> anthropic_response \<Rightarrow> block_script list \<Rightarrow> stream_event list" where
  "message_events first whole ss =
     no_event\<lparr>evType := ''message_start'', evMessage := first\<rparr> # scripts_events 0 ss
     @ [no_event\<lparr>evType := ''message_delta'', evUsage := anUsage whole, evStop := anStop whole\<rparr>, no_event\<lparr>evType := ''message_stop''\<rparr>]"

lemma event_simps [simp]:
  "evType (start_event i b) = ''content_block_start''" "evIndex (start_event i b) = int i" "evBlock (start_event i b) = Some b"
  "evType (stop_event i) = ''content_block_stop''" "evIndex (stop_event i) = int i"
  "evType (delta_event i k) = ''content_block_delta''" "evIndex (delta_event i k) = int i" "evDelta (delta_event i k) = k"
  by (simp_all add: start_event_def stop_event_def delta_event_def no_event_def)

lemma append_field_twice: "append_field k d (append_field k c b) = append_field k (c @ d) b"
  by (simp add: append_field_def stringField_def) (simp add: mput_def update_last)

fun run_events :: "wire_lib \<Rightarrow> (nat \<Rightarrow> gerr option) \<Rightarrow> stream_event list \<Rightarrow> assembly \<Rightarrow> gerr option \<times> assembly" where
  "run_events lib cb [] st = (None, st)"
| "run_events lib cb (ev # evs) st = (case assemble lib cb ev st of (Some e, st') \<Rightarrow> (Some e, st') | (None, st') \<Rightarrow> run_events lib cb evs st')"

lemma run_events_append:
  "run_events lib cb (xs @ ys) st = (case run_events lib cb xs st of (Some e, st') \<Rightarrow> (Some e, st') | (None, st') \<Rightarrow> run_events lib cb ys st')"
  by (induction xs arbitrary: st) (auto split: prod.split option.split)

lemma handler_runs_events:
  "list_all2 (\<lambda>d ev. wlAnthropic lib d = Inr ev) ds evs \<Longrightarrow> run_handler (anthropic_handle lib cb) ds st = run_events lib cb evs st"
  by (induction arbitrary: st rule: list_all2_induct) (auto simp: anthropic_handle_def split: prod.split option.split)

text \<open>The deltas of the last block change that block only.\<close>

lemma text_deltas:
  "asBlocks st = bs @ [b] \<Longrightarrow> length bs = i \<Longrightarrow> i \<notin> set (asStopped st) \<Longrightarrow> \<not> asDone st \<Longrightarrow>
   run_events lib (\<lambda>_. None) (map (\<lambda>d. (delta_event i ''text_delta'')\<lparr>evText := d\<rparr>) ds) st
     = (None, st\<lparr>asBlocks := bs @ [with_text ''text'' ds b], asVisible := asVisible st @ concat ds, asDeltas := asDeltas st @ ds\<rparr>)"
proof (induction ds arbitrary: st b)
  case Nil
  then show ?case by (simp add: with_text_def)
next
  case (Cons d ds)
  then show ?case
    by (auto simp: assemble_def block_delta_def active_block_def set_block_def Let_def nth_append with_text_def append_field_twice)
qed

definition thinking_kind :: "string \<Rightarrow> (string \<Rightarrow> stream_event \<Rightarrow> stream_event) \<Rightarrow> string \<Rightarrow> bool" where
  "thinking_kind kind ev field \<longleftrightarrow> kind = ''thinking_delta'' \<and> ev = (\<lambda>d e. e\<lparr>evThinking := d\<rparr>) \<and> field = ''thinking''
     \<or> kind = ''signature_delta'' \<and> ev = (\<lambda>d e. e\<lparr>evSignature := d\<rparr>) \<and> field = ''signature''"

lemma think_step:
  assumes "thinking_kind kind ev field" "asBlocks st = bs @ [b]" "length bs = i" "i \<notin> set (asStopped st)" "\<not> asDone st"
  shows "assemble lib cb (ev d (delta_event i kind)) st = (None, st\<lparr>asBlocks := bs @ [append_field field d b]\<rparr>)"
  using assms(1) unfolding thinking_kind_def
  by (elim disjE conjE) (use assms(2,4,5) assms(3) [symmetric] in \<open>simp_all add: assemble_def block_delta_def active_block_def set_block_def nth_append\<close>)

lemma think_deltas:
  assumes "thinking_kind kind ev field"
  shows "asBlocks st = bs @ [b] \<Longrightarrow> length bs = i \<Longrightarrow> i \<notin> set (asStopped st) \<Longrightarrow> \<not> asDone st \<Longrightarrow>
   run_events lib cb (map (\<lambda>d. ev d (delta_event i kind)) ds) st = (None, st\<lparr>asBlocks := bs @ [with_text field ds b]\<rparr>)"
proof (induction ds arbitrary: st b)
  case Nil
  then show ?case by (simp add: with_text_def)
next
  case (Cons d ds)
  show ?case
    using Cons.IH [of "st\<lparr>asBlocks := bs @ [append_field field d b]\<rparr>" "append_field field d b"] Cons.prems think_step [OF assms Cons.prems]
    by (simp add: with_text_def append_field_twice)
qed

lemma json_deltas:
  "length bs = i \<Longrightarrow> asBlocks st = bs @ [b] \<Longrightarrow> i \<notin> set (asStopped st) \<Longrightarrow> \<not> asDone st \<Longrightarrow>
   run_events lib cb (map (\<lambda>d. (delta_event i ''input_json_delta'')\<lparr>evJSON := d\<rparr>) ds) st
     = (None, if ds = [] then st else st\<lparr>asPartial := (asPartial st)(i := Some ((case asPartial st i of None \<Rightarrow> '''' | Some s \<Rightarrow> s) @ concat ds))\<rparr>)"
proof (induction ds arbitrary: st)
  case (Cons d ds)
  then show ?case
    by (auto simp: assemble_def block_delta_def active_block_def Let_def)
qed simp

text \<open>One block, then all of them: what an assembly holds after the blocks \<open>bs\<close>.\<close>

definition holds :: "json gomap list \<Rightarrow> assembly \<Rightarrow> bool" where
  "holds bs st \<longleftrightarrow> asBlocks st = bs \<and> length (asStopped st) = length bs \<and> (\<forall>i \<in> set (asStopped st). i < length bs)
     \<and> (\<forall>i \<ge> length bs. asPartial st i = None) \<and> \<not> asDone st"

definition with_script :: "wire_lib \<Rightarrow> block_script \<Rightarrow> json gomap list \<Rightarrow> assembly \<Rightarrow> assembly \<Rightarrow> bool" where
  "with_script lib s bs st st' \<longleftrightarrow> (\<exists>b. finished_block lib s = Some b \<and> holds (bs @ [b]) st') \<and> asResponse st' = asResponse st
     \<and> asDeltas st' = asDeltas st @ script_text s"

lemma script_assembled:
  assumes st: "holds bs st" and fin: "finished_block lib s = Some b"
  shows "\<exists>st'. run_events lib (\<lambda>_. None) (script_events (length bs) s) st = (None, st') \<and> with_script lib s bs st st'"
proof -
  let ?i = "length bs"
  let ?st1 = "st\<lparr>asBlocks := bs @ [script_start s]\<rparr>"
  have start: "assemble lib (\<lambda>_. None) (start_event ?i (script_start s)) st = (None, ?st1)"
    using st by (simp add: assemble_def holds_def)
  have fresh: "?i \<notin> set (asStopped ?st1)" "asPartial ?st1 ?i = None" "\<not> asDone ?st1" using st by (auto simp: holds_def)
  have mid: "\<exists>b' st2. run_events lib (\<lambda>_. None) (script_deltas ?i s) ?st1 = (None, st2) \<and> asBlocks st2 = bs @ [b'] \<and> asStopped st2 = asStopped st
      \<and> (\<forall>j > ?i. asPartial st2 j = None) \<and> \<not> asDone st2 \<and> asResponse st2 = asResponse st \<and> asDeltas st2 = asDeltas st @ script_text s
      \<and> (case asPartial st2 ?i of None \<Rightarrow> b' = b | Some raw \<Rightarrow> (\<exists>args. nativeArgs lib raw = Inr args \<and> b = mput ''input'' (JObj args) b'))"
  proof (cases s)
    case (TextBlock b0 ds)
    then show ?thesis using text_deltas [of ?st1 bs b0 ?i lib ds] fresh st fin by (auto simp: holds_def)
  next
    case (ToolBlock b0 ds)
    then show ?thesis using json_deltas [of bs ?i ?st1 b0 lib "\<lambda>_. None" ds] fresh st fin
      by (auto simp: holds_def split: if_splits sum.splits)
  next
    case (ThinkBlock b0 ts ss)
    let ?st2 = "?st1\<lparr>asBlocks := bs @ [with_text ''thinking'' ts b0]\<rparr>"
    have "run_events lib (\<lambda>_. None) (map (\<lambda>d. (delta_event ?i ''thinking_delta'')\<lparr>evThinking := d\<rparr>) ts) ?st1 = (None, ?st2)"
      using think_deltas [of "''thinking_delta''" "\<lambda>d e. e\<lparr>evThinking := d\<rparr>" "''thinking''" ?st1 bs b0 ?i lib "\<lambda>_. None" ts] fresh ThinkBlock by (simp add: thinking_kind_def)
    moreover have "run_events lib (\<lambda>_. None) (map (\<lambda>d. (delta_event ?i ''signature_delta'')\<lparr>evSignature := d\<rparr>) ss) ?st2
        = (None, ?st2\<lparr>asBlocks := bs @ [with_text ''signature'' ss (with_text ''thinking'' ts b0)]\<rparr>)"
      using think_deltas [of "''signature_delta''" "\<lambda>d e. e\<lparr>evSignature := d\<rparr>" "''signature''" ?st2 bs "with_text ''thinking'' ts b0" ?i lib "\<lambda>_. None" ss] fresh
      by (simp add: thinking_kind_def)
    ultimately show ?thesis using ThinkBlock fresh st fin by (auto simp: run_events_append holds_def)
  qed
  then obtain b' st2 where st2: "run_events lib (\<lambda>_. None) (script_deltas ?i s) ?st1 = (None, st2)" "asBlocks st2 = bs @ [b']" "asStopped st2 = asStopped st"
      "\<forall>j > ?i. asPartial st2 j = None" "\<not> asDone st2" "asResponse st2 = asResponse st" "asDeltas st2 = asDeltas st @ script_text s"
      and partial: "case asPartial st2 ?i of None \<Rightarrow> b' = b | Some raw \<Rightarrow> (\<exists>args. nativeArgs lib raw = Inr args \<and> b = mput ''input'' (JObj args) b')"
    by blast
  let ?st3 = "st2\<lparr>asBlocks := bs @ [b], asStopped := ?i # asStopped st\<rparr>"
  have "assemble lib (\<lambda>_. None) (stop_event ?i) st2 = (None, ?st3)"
    using st2 fresh partial st
    by (cases "asPartial st2 ?i") (auto simp: assemble_def block_stop_def active_block_def set_block_def Let_def nth_append)
  then have "run_events lib (\<lambda>_. None) (script_events ?i s) st = (None, ?st3)"
    using start st2(1) by (simp add: script_events_def run_events_append)
  moreover have "with_script lib s bs st ?st3"
    using st st2 fin by (auto simp: with_script_def holds_def less_Suc_eq_le)
  ultimately show ?thesis by blast
qed

lemma scripts_assembled:
  "holds bs st \<Longrightarrow> list_all2 (\<lambda>s b. finished_block lib s = Some b) ss fin \<Longrightarrow>
   \<exists>st'. run_events lib (\<lambda>_. None) (scripts_events (length bs) ss) st = (None, st') \<and> holds (bs @ fin) st' \<and> asResponse st' = asResponse st
     \<and> asDeltas st' = asDeltas st @ concat (map script_text ss)"
proof (induction ss arbitrary: bs st fin)
  case (Cons s ss)
  then obtain b fin' where b: "fin = b # fin'" "finished_block lib s = Some b" "list_all2 (\<lambda>s b. finished_block lib s = Some b) ss fin'"
    by (auto simp: list_all2_Cons1)
  obtain st1 where st1: "run_events lib (\<lambda>_. None) (script_events (length bs) s) st = (None, st1)" "with_script lib s bs st st1"
    using script_assembled [OF Cons.prems(1) b(2)] by blast
  then have "holds (bs @ [b]) st1" using b(2) by (auto simp: with_script_def)
  from Cons.IH [OF this b(3)] show ?case using st1 b by (auto simp: run_events_append with_script_def)
qed simp

lemma message_assembled:
  assumes "list_all2 (\<lambda>s b. finished_block lib s = Some b) ss fin"
  shows "\<exists>st. run_events lib (\<lambda>_. None) (message_events first whole ss) new_assembly = (None, st) \<and> asBlocks st = fin \<and> asDone st
     \<and> asResponse st = first\<lparr>anUsage := (anUsage first)\<lparr>wOutput := wOutput (anUsage whole)\<rparr>, anStop := anStop whole\<rparr>
     \<and> asDeltas st = concat (map script_text ss)"
proof -
  let ?st0 = "new_assembly\<lparr>asResponse := first\<rparr>"
  have "holds [] ?st0" by (simp add: holds_def new_assembly_def)
  from scripts_assembled [OF this assms] obtain st where st: "run_events lib (\<lambda>_. None) (scripts_events 0 ss) ?st0 = (None, st)"
      "holds fin st" "asResponse st = first" "asDeltas st = concat (map script_text ss)"
    by (auto simp: new_assembly_def)
  have "assemble lib (\<lambda>_. None) (no_event\<lparr>evType := ''message_start'', evMessage := first\<rparr>) new_assembly = (None, ?st0)"
    by (simp add: assemble_def new_assembly_def)
  then show ?thesis using st by (simp add: message_events_def run_events_append assemble_def holds_def no_event_def)
qed

lemma marshal_blocks_all: "list_all2 (\<lambda>b raw. wlBlock lib b = Inr raw) bs raws \<Longrightarrow> marshal_blocks lib bs = Inr raws"
  by (induction rule: list_all2_induct) simp_all

text \<open>C40. Streaming changes nothing: let a peer send a message as events, its texts, arguments and thinking cut into any fragments, the
bytes cut into any reads. Then \<open>ChatStream\<close> returns exactly what \<open>Chat\<close> returns for the whole message, completion and error, and the
callback has got the fragments of the texts in order. (The events are within the limits of the reader and none is the sentinel \<open>[DONE]\<close>,
as in the round trip of event streams; the blocks of the whole message are in the encoding of the codec; the callback accepts every fragment.)\<close>

theorem streamed_answer_is_the_answer:
  assumes "anthropic_chatBody lib (hpModel p) req True = Inr body" "http_refused p (wlMarshal lib body) a = None"
    and sent: "htBody a = \<lparr>prBytes = stream_text nl evs, prSizes = sizes, prEager = eager, prFail = EOF\<rparr>" "nl = [LF] \<or> nl = [CR, LF]"
      "list_all event_ok evs" "length (stream_text nl evs) \<le> maxStreamBytes"
    and events: "list_all2 (\<lambda>d ev. wlAnthropic lib d = Inr ev) (map event_data evs) (message_events first whole ss)"
    and whole: "whole = first\<lparr>anUsage := (anUsage first)\<lparr>wOutput := wOutput (anUsage whole)\<rparr>, anStop := anStop whole, anContent := raws\<rparr>"
    and blocks: "list_all2 (\<lambda>s b. finished_block lib s = Some b) ss fin" "list_all2 (\<lambda>b raw. wlBlock lib b = Inr raw) fin raws"
  shows "anthropic_ChatStream lib (\<lambda>_. None) p req a = (fst (parseAnthropic lib whole), snd (parseAnthropic lib whole), concat (map script_text ss))"
proof -
  obtain st where st: "run_events lib (\<lambda>_. None) (message_events first whole ss) new_assembly = (None, st)" "asBlocks st = fin" "asDone st"
      "asResponse st = first\<lparr>anUsage := (anUsage first)\<lparr>wOutput := wOutput (anUsage whole)\<rparr>, anStop := anStop whole\<rparr>"
      "asDeltas st = concat (map script_text ss)"
    using message_assembled [OF blocks(1)] by blast
  have "http_stream p (wlMarshal lib body) a (anthropic_handle lib (\<lambda>_. None)) new_assembly = (None, st)"
    using assms(2) sent handler_runs_events [OF events] st(1) by (simp add: http_stream_def event_stream_data)
  moreover have "(asResponse st)\<lparr>anContent := raws\<rparr> = whole" using whole st(4) by simp
  ultimately show ?thesis
    using assms(1) st marshal_blocks_all [OF blocks(2)] by (simp add: anthropic_ChatStream_def split: prod.split)
qed

definition demo_script :: "block_script list" where
  "demo_script = [TextBlock [(''type'', JStr ''text''), (''text'', JStr '''')] [''he'', ''y'']]"

definition demo_whole :: anthropic_response where
  "demo_whole = no_response\<lparr>anModel := ''m'', anContent := [''hey''], anStop := ''end_turn''\<rparr>"

definition demo_stream_lib :: wire_lib where
  "demo_stream_lib = demo_wire\<lparr>wlAnthropic := (\<lambda>d. Inr (message_events (demo_whole\<lparr>anContent := [], anStop := ''''\<rparr>) demo_whole demo_script ! (length d - 1)))\<rparr>"

definition demo_answer_events :: "(string list \<times> string list) list" where
  "demo_answer_events = map (\<lambda>d. ([''event: e''], [d])) [''x'', ''xx'', ''xxx'', ''xxxx'', ''xxxxx'', ''xxxxxx'', ''xxxxxxx'']"

definition demo_http :: http_answer where
  "demo_http = \<lparr>htNew = None, htDo = None, htStatus = 200, htDetail = '''', htRetryAfter = 0, htEventStream = True,
     htBody = \<lparr>prBytes = stream_text [LF] demo_answer_events, prSizes = [5, 7], prEager = False, prFail = EOF\<rparr>\<rparr>"

lemma streamed_answer_is_the_answer_witness:
  "\<exists>c. anthropic_ChatStream demo_stream_lib (\<lambda>_. None) \<lparr>hpName = ''a'', hpAPIKey = ''k'', hpModel = ''m''\<rparr> demo_request demo_http = (c, None, [''he'', ''y''])
     \<and> cText c = ''hey''"
proof -
  let ?p = "\<lparr>hpName = ''a'', hpAPIKey = ''k'', hpModel = ''m''\<rparr>" and ?first = "demo_whole\<lparr>anContent := [], anStop := ''''\<rparr>"
  have "ValidateConversation (crMessages demo_request) = None" "crTools demo_request = []"
    by (simp_all add: demo_request_def text_message_def ValidateConversation_def)
  then obtain body where body: "anthropic_chatBody demo_stream_lib (hpModel ?p) demo_request True = Inr body"
    by (cases "anthropic_messages '''' (crMessages demo_request) [] []") (simp add: anthropic_chatBody_def)
  have ok: "http_refused ?p (wlMarshal demo_stream_lib body) demo_http = None"
    by (simp add: http_refused_def demo_stream_lib_def demo_wire_def demo_http_def TrimSpace_def is_space_def)
  have evs: "list_all event_ok demo_answer_events" "length (stream_text [LF] demo_answer_events) \<le> maxStreamBytes"
    by (simp_all add: demo_answer_events_def event_ok_def event_lines_def event_data_def data_line_def other_line_def plain_line_def HasPrefix_def
        byte_order_mark_def LF_def CR_def maxEventBytes_def maxStreamBytes_def stream_text_def)
  obtain e0 e1 e2 e3 e4 e5 e6 where sent: "message_events ?first demo_whole demo_script = [e0, e1, e2, e3, e4, e5, e6]"
    by (simp add: message_events_def demo_script_def script_events_def)
  have events: "list_all2 (\<lambda>d ev. wlAnthropic demo_stream_lib d = Inr ev) (map event_data demo_answer_events) (message_events ?first demo_whole demo_script)"
    by (simp add: demo_stream_lib_def sent demo_answer_events_def event_data_def)
  have whole: "demo_whole = ?first\<lparr>anUsage := (anUsage ?first)\<lparr>wOutput := wOutput (anUsage demo_whole)\<rparr>, anStop := anStop demo_whole, anContent := [''hey'']\<rparr>"
    by (simp add: demo_whole_def)
  have blocks: "list_all2 (\<lambda>s b. finished_block demo_stream_lib s = Some b) demo_script [[(''type'', JStr ''text''), (''text'', JStr ''hey'')]]"
      "list_all2 (\<lambda>b raw. wlBlock demo_stream_lib b = Inr raw) [[(''type'', JStr ''text''), (''text'', JStr ''hey'')]] [''hey'']"
    by (simp_all add: demo_script_def with_text_def append_field_def stringField_def mput_def demo_stream_lib_def demo_wire_def)
  have parsed: "snd (parseAnthropic demo_stream_lib demo_whole) = None \<and> cText (fst (parseAnthropic demo_stream_lib demo_whole)) = ''hey''"
    by (simp add: parseAnthropic_def demo_whole_def demo_stream_lib_def demo_wire_def no_completion_def validateCalls_def)
  have body_sent: "htBody demo_http = \<lparr>prBytes = stream_text [LF] demo_answer_events, prSizes = [5, 7], prEager = False, prFail = EOF\<rparr>"
    by (simp add: demo_http_def)
  have "concat (map script_text demo_script) = [''he'', ''y'']" by (simp add: demo_script_def)
  then show ?thesis
    using streamed_answer_is_the_answer [OF body ok body_sent _ evs events whole blocks] parsed by (simp add: LF_def)
qed

subsection \<open>Plain prompts and images\<close>

text \<open>The client calls without tools. \<open>b64\<close> is the standard base64 encoding.\<close>

record plain_response =
  plModel :: string
  plOutputText :: string
  plTexts :: "string list list"
  plUsage :: wire_usage

definition openAICompletion :: "plain_response \<Rightarrow> completion" where
  "openAICompletion r = no_completion\<lparr>cText := (if plOutputText r = '''' then concat (concat (plTexts r)) else plOutputText r),
     cUsage := Normalized (plUsage r) True, cActualModel := plModel r\<rparr>"

definition anthropicCompletion :: "plain_response \<Rightarrow> completion" where
  "anthropicCompletion r = no_completion\<lparr>cText := concat (concat (plTexts r)), cUsage := Normalized (plUsage r) False, cActualModel := plModel r\<rparr>"

definition openai_prompt :: "http_profile \<Rightarrow> wire \<Rightarrow> int \<Rightarrow> bool \<Rightarrow> wire" where
  "openai_prompt p input n stream =
     WMap [(''model'', WStr (hpModel p)), (''input'', input), (''max_output_tokens'', WInt n), (''stream'', WBool stream)]"

definition openai_image :: "(string \<Rightarrow> string) \<Rightarrow> string \<Rightarrow> string \<Rightarrow> string \<Rightarrow> wire" where
  "openai_image b64 mime data prompt =
     WList [WMap [(''role'', WStr ''user''), (''content'', WList
       [WMap [(''type'', WStr ''input_text''), (''text'', WStr prompt)],
        WMap [(''type'', WStr ''input_image''), (''image_url'', WStr (''data:'' @ mime @ '';base64,'' @ b64 data))]])]]"

definition anthropic_prompt :: "http_profile \<Rightarrow> wire \<Rightarrow> int \<Rightarrow> bool \<Rightarrow> wire" where
  "anthropic_prompt p content n stream =
     WMap ([(''model'', WStr (hpModel p)), (''max_tokens'', WInt n)] @ (if stream then [(''stream'', WBool True)] else [])
       @ [(''messages'', WList [WMap [(''role'', WStr ''user''), (''content'', content)]])])"

definition anthropic_image :: "(string \<Rightarrow> string) \<Rightarrow> string \<Rightarrow> string \<Rightarrow> string \<Rightarrow> wire" where
  "anthropic_image b64 mime data prompt =
     WList [WMap [(''type'', WStr ''image''), (''source'', WMap [(''type'', WStr ''base64''), (''media_type'', WStr mime), (''data'', WStr (b64 data))])],
       WMap [(''type'', WStr ''text''), (''text'', WStr prompt)]]"

type_synonym plain_decoder = "(peer \<Rightarrow> gerr + plain_response) \<times> (string \<Rightarrow> gerr + plain_response)"

definition plain_call :: "wire_lib \<Rightarrow> plain_decoder \<Rightarrow> (plain_response \<Rightarrow> completion) \<Rightarrow> http_profile \<Rightarrow> wire \<Rightarrow> http_answer \<Rightarrow> completion \<times> gerr option" where
  "plain_call lib dec finish p body a =
     (case http_do (fst dec) (snd dec) p (wlMarshal lib body) a of Inl e \<Rightarrow> (no_completion, Some e) | Inr r \<Rightarrow> (finish r, None))"

definition openai_Complete :: "wire_lib \<Rightarrow> plain_decoder \<Rightarrow> http_profile \<Rightarrow> string \<Rightarrow> int \<Rightarrow> http_answer \<Rightarrow> completion \<times> gerr option" where
  "openai_Complete lib dec p prompt n a = plain_call lib dec openAICompletion p (openai_prompt p (WStr prompt) n False) a"

definition openai_InspectImage :: "wire_lib \<Rightarrow> plain_decoder \<Rightarrow> (string \<Rightarrow> string) \<Rightarrow> http_profile \<Rightarrow> string \<Rightarrow> string \<Rightarrow> string \<Rightarrow> int \<Rightarrow> http_answer
    \<Rightarrow> completion \<times> gerr option" where
  "openai_InspectImage lib dec b64 p mime data prompt n a = plain_call lib dec openAICompletion p (openai_prompt p (openai_image b64 mime data prompt) n False) a"

definition anthropic_Complete :: "wire_lib \<Rightarrow> plain_decoder \<Rightarrow> http_profile \<Rightarrow> string \<Rightarrow> int \<Rightarrow> http_answer \<Rightarrow> completion \<times> gerr option" where
  "anthropic_Complete lib dec p prompt n a = plain_call lib dec anthropicCompletion p (anthropic_prompt p (WStr prompt) n False) a"

definition anthropic_InspectImage :: "wire_lib \<Rightarrow> plain_decoder \<Rightarrow> (string \<Rightarrow> string) \<Rightarrow> http_profile \<Rightarrow> string \<Rightarrow> string \<Rightarrow> string \<Rightarrow> int \<Rightarrow> http_answer
    \<Rightarrow> completion \<times> gerr option" where
  "anthropic_InspectImage lib dec b64 p mime data prompt n a = plain_call lib dec anthropicCompletion p (anthropic_prompt p (anthropic_image b64 mime data prompt) n False) a"

text \<open>The streams of plain prompts; the events are those of the chat streams, read with fewer fields.\<close>

record plain_stream =
  psResult :: completion
  psUsage :: wire_usage
  psDone :: bool
  psDeltas :: "string list"

definition new_plain_stream :: plain_stream where
  "new_plain_stream = \<lparr>psResult = no_completion, psUsage = anUsage no_response, psDone = False, psDeltas = []\<rparr>"

definition add_delta :: "(nat \<Rightarrow> gerr option) \<Rightarrow> string \<Rightarrow> plain_stream \<Rightarrow> gerr option \<times> plain_stream" where
  "add_delta cb d st = (cb (length (psDeltas st)), st\<lparr>psResult := (psResult st)\<lparr>cText := cText (psResult st) @ d\<rparr>, psDeltas := psDeltas st @ [d]\<rparr>)"

definition openai_plain_handle :: "wire_lib \<Rightarrow> (nat \<Rightarrow> gerr option) \<Rightarrow> plain_stream \<Rightarrow> string \<Rightarrow> gerr option \<times> plain_stream" where
  "openai_plain_handle lib cb st data =
     (case wlOpenAI lib data of
        Inl e \<Rightarrow> (Some e, st)
      | Inr ev \<Rightarrow>
          if psDone st then (Some (Errorf ''event after response completed'' []), st)
          else if oeType ev = ''error'' \<or> oeType ev = ''response.failed'' \<or> oeType ev = ''response.incomplete''
          then (Some (Errorf ''provider stream %s'' [oeType ev]), st)
          else if oeType ev = ''response.output_text.delta'' \<and> oeDelta ev \<noteq> '''' then add_delta cb (oeDelta ev) st
          else if oeType ev = ''response.completed'' then
            (None, st\<lparr>psDone := True, psResult := (psResult st)\<lparr>cUsage := Normalized (nrUsage (oeResponse ev)) True, cActualModel := nrModel (oeResponse ev)\<rparr>\<rparr>)
          else (None, st))"

definition anthropic_plain_handle :: "wire_lib \<Rightarrow> (nat \<Rightarrow> gerr option) \<Rightarrow> plain_stream \<Rightarrow> string \<Rightarrow> gerr option \<times> plain_stream" where
  "anthropic_plain_handle lib cb st data =
     (case wlAnthropic lib data of
        Inl e \<Rightarrow> (Some e, st)
      | Inr ev \<Rightarrow>
          if psDone st then (Some (Errorf ''event after message stop'' []), st)
          else if evType ev = ''error'' then (Some (Errorf ''provider stream error'' []), st)
          else
           (let st1 = st\<lparr>psDone := evType ev = ''message_stop''\<rparr> in
            if evText ev \<noteq> '''' then add_delta cb (evText ev) st1
            else
             (let st2 = (if evType ev = ''message_start''
                         then st1\<lparr>psUsage := anUsage (evMessage ev), psResult := (psResult st1)\<lparr>cActualModel := anModel (evMessage ev)\<rparr>\<rparr> else st1);
                  st3 = (if evType ev = ''message_delta'' then st2\<lparr>psUsage := (psUsage st2)\<lparr>wOutput := wOutput (evUsage ev)\<rparr>\<rparr> else st2)
              in (None, st3\<lparr>psResult := (psResult st3)\<lparr>cUsage := Normalized (psUsage st3) False\<rparr>\<rparr>))))"

definition plain_stream_result :: "gerr option \<times> plain_stream \<Rightarrow> completion \<times> gerr option \<times> string list" where
  "plain_stream_result r = (case r of (err, st) \<Rightarrow>
     (psResult st, if err = None \<and> \<not> psDone st then Some UnexpectedEOF else err, psDeltas st))"

definition openai_Stream :: "wire_lib \<Rightarrow> (nat \<Rightarrow> gerr option) \<Rightarrow> http_profile \<Rightarrow> string \<Rightarrow> int \<Rightarrow> http_answer \<Rightarrow> completion \<times> gerr option \<times> string list" where
  "openai_Stream lib cb p prompt n a =
     plain_stream_result (http_stream p (wlMarshal lib (openai_prompt p (WStr prompt) n True)) a (openai_plain_handle lib cb) new_plain_stream)"

definition anthropic_Stream :: "wire_lib \<Rightarrow> (nat \<Rightarrow> gerr option) \<Rightarrow> http_profile \<Rightarrow> string \<Rightarrow> int \<Rightarrow> http_answer \<Rightarrow> completion \<times> gerr option \<times> string list" where
  "anthropic_Stream lib cb p prompt n a =
     plain_stream_result (http_stream p (wlMarshal lib (anthropic_prompt p (WStr prompt) n True)) a (anthropic_plain_handle lib cb) new_plain_stream)"

text \<open>What was shown of a plain stream is its text, whatever happens.\<close>

lemma event_step_keeps:
  assumes "\<forall>hs d. I hs \<longrightarrow> I (snd (handle hs d))" "I hs"
  shows "event_step handle l payload hs = Stop e hs' \<Longrightarrow> I hs'" "event_step handle l payload hs = Next p hs' \<Longrightarrow> I hs'"
  using assms(2) assms(1) [rule_format, of hs "butlast payload"] by (auto simp: event_step_def Let_def split: if_splits prod.splits option.splits)

lemma read_loop_keeps:
  assumes keep: "\<forall>hs d. I hs \<longrightarrow> I (snd (handle hs d))"
  shows "I hs \<Longrightarrow> I (snd (read_loop handle sc first payload hs))"
proof (induction "length (scPending sc) + length (scRest sc)" arbitrary: sc first payload hs rule: less_induct)
  case less
  obtain l sc' where scan: "Scan sc = (l, sc')" by (metis surj_pair)
  show ?case
  proof (cases l)
    case None
    then show ?thesis using scan less(2) by (subst read_loop.simps) simp
  next
    case (Some line)
    let ?line = "if first then TrimPrefix line byte_order_mark else line"
    show ?thesis
    proof (cases "event_step handle ?line payload hs")
      case (Stop e hs')
      then have "I hs'" using event_step_keeps(1) [where I = I, OF keep less(2)] by blast
      then show ?thesis using scan Some Stop less(2) by (subst read_loop.simps) simp
    next
      case (Next p hs')
      then have "I hs'" using event_step_keeps(2) [where I = I, OF keep less(2)] by blast
      then show ?thesis using scan Some Next less(2) less(1) [OF Scan_consumes [OF scan [unfolded Some]]]
        by (subst read_loop.simps) simp
    qed
  qed
qed

lemma http_stream_keeps:
  assumes "\<forall>hs d. I hs \<longrightarrow> I (snd (handle hs d))" "I hs"
  shows "I (snd (http_stream p m a handle hs))"
  using assms(2) read_loop_keeps [where I = I, OF assms(1)] by (simp add: http_stream_def readEventStream_def split: option.split)

definition shown_is_text :: "plain_stream \<Rightarrow> bool" where
  "shown_is_text st \<longleftrightarrow> cText (psResult st) = concat (psDeltas st)"

lemma shown_is_text_simps [simp]:
  "shown_is_text new_plain_stream" "shown_is_text (st\<lparr>psDone := b\<rparr>) = shown_is_text st" "shown_is_text (st\<lparr>psUsage := u\<rparr>) = shown_is_text st"
  "shown_is_text st \<Longrightarrow> shown_is_text (snd (add_delta cb d st))"
  "shown_is_text (st\<lparr>psResult := (psResult st)\<lparr>cUsage := x\<rparr>\<rparr>) = shown_is_text st"
  "shown_is_text (st\<lparr>psResult := (psResult st)\<lparr>cActualModel := y\<rparr>\<rparr>) = shown_is_text st"
  by (simp_all add: shown_is_text_def new_plain_stream_def no_completion_def add_delta_def)

lemma openai_plain_keeps: "shown_is_text hs \<Longrightarrow> shown_is_text (snd (openai_plain_handle lib cb hs d))"
  by (simp add: openai_plain_handle_def split: sum.split) (simp add: shown_is_text_def)

lemma anthropic_plain_keeps: "shown_is_text hs \<Longrightarrow> shown_is_text (snd (anthropic_plain_handle lib cb hs d))"
  by (simp add: anthropic_plain_handle_def Let_def split: sum.split) (simp add: shown_is_text_def)

lemma plain_streams_show_their_text:
  "case openai_Stream lib cb p prompt n a of (c, e, ds) \<Rightarrow> cText c = concat ds"
  "case anthropic_Stream lib cb p prompt n a of (c, e, ds) \<Rightarrow> cText c = concat ds"
proof -
  have 1: "shown_is_text (snd (http_stream p m a (openai_plain_handle lib cb) new_plain_stream))" for m
    by (rule http_stream_keeps [where I = shown_is_text]) (simp_all add: openai_plain_keeps)
  have 2: "shown_is_text (snd (http_stream p m a (anthropic_plain_handle lib cb) new_plain_stream))" for m
    by (rule http_stream_keeps [where I = shown_is_text]) (simp_all add: anthropic_plain_keeps)
  show "case openai_Stream lib cb p prompt n a of (c, e, ds) \<Rightarrow> cText c = concat ds"
    using 1 by (simp add: openai_Stream_def plain_stream_result_def shown_is_text_def split: prod.split) (metis snd_conv)
  show "case anthropic_Stream lib cb p prompt n a of (c, e, ds) \<Rightarrow> cText c = concat ds"
    using 2 by (simp add: anthropic_Stream_def plain_stream_result_def shown_is_text_def split: prod.split) (metis snd_conv)
qed

end
