(* ===== verification/Effects.thy ===== *)
theory Effects
  imports Prelude
begin

section \<open>Sequences of effects that may stop with an error\<close>

text \<open>
  Go code that performs one external operation after another and returns at the first error is written with these combinators:
  an action maps the state to its error or value and the state after it, so a failing action keeps the effects it had. \<open>andThen\<close> is
  \<open>if err != nil { return err }\<close> between two calls, \<open>attempt\<close> makes the error a value that the caller looks at.
\<close>

type_synonym ('s, 'a) act = "'s \<Rightarrow> (gerr + 'a) \<times> 's"

definition give :: "'a \<Rightarrow> ('s, 'a) act" where
  "give x s = (Inr x, s)"

definition fail :: "gerr \<Rightarrow> ('s, 'a) act" where
  "fail e s = (Inl e, s)"

definition andThen :: "('s, 'a) act \<Rightarrow> ('a \<Rightarrow> ('s, 'b) act) \<Rightarrow> ('s, 'b) act" where
  "andThen m f s = (case m s of (Inl e, t) \<Rightarrow> (Inl e, t) | (Inr x, t) \<Rightarrow> f x t)"

definition attempt :: "('s, 'a) act \<Rightarrow> ('s, gerr + 'a) act" where
  "attempt m s = (case m s of (r, t) \<Rightarrow> (Inr r, t))"

definition inspect :: "('s \<Rightarrow> 'a) \<Rightarrow> ('s, 'a) act" where
  "inspect g s = (Inr (g s), s)"

definition change :: "('s \<Rightarrow> 's) \<Rightarrow> ('s, unit) act" where
  "change f s = (Inr (), f s)"

definition given :: "gerr + 'a \<Rightarrow> ('s, 'a) act" where
  "given r s = (r, s)"

definition stop_on :: "gerr option \<Rightarrow> ('s, unit) act" where
  "stop_on e s = (case e of None \<Rightarrow> (Inr (), s) | Some x \<Rightarrow> (Inl x, s))"

lemmas act_defs = give_def fail_def andThen_def attempt_def inspect_def change_def given_def stop_on_def

subsection \<open>Triples\<close>

text \<open>From a state with \<open>P\<close>, the action ends in \<open>Q\<close> with its value, or in \<open>E\<close> with an error.\<close>

definition triple :: "('s \<Rightarrow> bool) \<Rightarrow> ('s, 'a) act \<Rightarrow> ('a \<Rightarrow> 's \<Rightarrow> bool) \<Rightarrow> (gerr \<Rightarrow> 's \<Rightarrow> bool) \<Rightarrow> bool" where
  "triple P m Q E \<longleftrightarrow> (\<forall>s. P s \<longrightarrow> (case m s of (Inr x, t) \<Rightarrow> Q x t | (Inl e, t) \<Rightarrow> E e t))"

abbreviation keeps :: "('s \<Rightarrow> bool) \<Rightarrow> ('s, 'a) act \<Rightarrow> bool" where
  "keeps I m \<equiv> triple I m (\<lambda>_. I) (\<lambda>_. I)"

named_theorems act_rules \<open>rules that take a triple apart\<close>

lemma tripleI: "(\<And>s x t. P s \<Longrightarrow> m s = (Inr x, t) \<Longrightarrow> Q x t) \<Longrightarrow> (\<And>s e t. P s \<Longrightarrow> m s = (Inl e, t) \<Longrightarrow> E e t) \<Longrightarrow> triple P m Q E"
  by (force simp: triple_def split: prod.split sum.split)

lemma triple_value: "triple P m Q E \<Longrightarrow> P s \<Longrightarrow> m s = (Inr x, t) \<Longrightarrow> Q x t"
  by (auto simp: triple_def dest!: spec [of _ s])

lemma triple_error: "triple P m Q E \<Longrightarrow> P s \<Longrightarrow> m s = (Inl e, t) \<Longrightarrow> E e t"
  by (auto simp: triple_def dest!: spec [of _ s])

lemma triple_either: "triple P m (\<lambda>_. Q) (\<lambda>_. Q) \<Longrightarrow> P s \<Longrightarrow> Q (snd (m s))"
  by (cases "m s"; cases "fst (m s)") (auto simp: triple_def dest!: spec [of _ s])

lemma triple_weaken:
  assumes "triple P' m Q' E'" "\<And>s. P s \<Longrightarrow> P' s" "\<And>x t. Q' x t \<Longrightarrow> Q x t" "\<And>e t. E' e t \<Longrightarrow> E e t"
  shows "triple P m Q E"
  using assms by (fastforce simp: triple_def split: prod.splits sum.splits)

lemma triple_conj:
  assumes "triple P m Q E" "triple P' m Q' E'"
  shows "triple (\<lambda>s. P s \<and> P' s) m (\<lambda>x t. Q x t \<and> Q' x t) (\<lambda>e t. E e t \<and> E' e t)"
  using assms by (auto intro!: tripleI dest: triple_value triple_error)

lemma triple_give [act_rules]: "(\<And>s. P s \<Longrightarrow> Q x s) \<Longrightarrow> triple P (give x) Q E"
  by (simp add: triple_def give_def)

lemma triple_fail [act_rules]: "(\<And>s. P s \<Longrightarrow> E e s) \<Longrightarrow> triple P (fail e) Q E"
  by (simp add: triple_def fail_def)

lemma triple_inspect: "(\<And>s. P s \<Longrightarrow> Q (g s) s) \<Longrightarrow> triple P (inspect g) Q E"
  by (simp add: triple_def inspect_def)

lemma triple_change: "(\<And>s. P s \<Longrightarrow> Q () (f s)) \<Longrightarrow> triple P (change f) Q E"
  by (simp add: triple_def change_def)

lemma triple_stop_on: "(\<And>s. P s \<Longrightarrow> e = None \<Longrightarrow> Q () s) \<Longrightarrow> (\<And>s x. P s \<Longrightarrow> e = Some x \<Longrightarrow> E x s) \<Longrightarrow> triple P (stop_on e) Q E"
  by (auto simp: triple_def stop_on_def split: option.split)

lemma triple_given: "(\<And>s x. P s \<Longrightarrow> r = Inr x \<Longrightarrow> Q x s) \<Longrightarrow> (\<And>s x. P s \<Longrightarrow> r = Inl x \<Longrightarrow> E x s) \<Longrightarrow> triple P (given r) Q E"
  by (auto simp: triple_def given_def split: sum.split)

lemma triple_andThen: "triple P m R E \<Longrightarrow> (\<And>x. triple (R x) (f x) Q E) \<Longrightarrow> triple P (andThen m f) Q E"
  by (rule tripleI) (auto simp: andThen_def split: prod.splits sum.splits dest: triple_value triple_error)

lemma triple_attempt: "triple P m (\<lambda>x. Q (Inr x)) (\<lambda>e. Q (Inl e)) \<Longrightarrow> triple P (attempt m) Q E"
proof (rule tripleI, goal_cases)
  case (1 s x t)
  then have "m s = (x, t)" by (simp add: attempt_def split: prod.splits)
  with 1 show ?case by (cases x) (auto dest: triple_value triple_error)
next
  case (2 s e t)
  then show ?case by (simp add: attempt_def split: prod.splits)
qed

lemma triple_if: "(b \<Longrightarrow> triple P m Q E) \<Longrightarrow> (\<not> b \<Longrightarrow> triple P n Q E) \<Longrightarrow> triple P (if b then m else n) Q E"
  by simp

lemma triple_option:
  "(c = None \<Longrightarrow> triple P m Q E) \<Longrightarrow> (\<And>x. c = Some x \<Longrightarrow> triple P (f x) Q E) \<Longrightarrow> triple P (case c of None \<Rightarrow> m | Some x \<Rightarrow> f x) Q E"
  by (cases c) auto

lemma triple_sum:
  "(\<And>x. c = Inl x \<Longrightarrow> triple P (g x) Q E) \<Longrightarrow> (\<And>x. c = Inr x \<Longrightarrow> triple P (f x) Q E) \<Longrightarrow> triple P (case c of Inl x \<Rightarrow> g x | Inr x \<Rightarrow> f x) Q E"
  by (cases c) auto

lemma triple_pair: "(\<And>a b. c = (a, b) \<Longrightarrow> triple P (f a b) Q E) \<Longrightarrow> triple P (case c of (a, b) \<Rightarrow> f a b) Q E"
  by (cases c) auto

text \<open>A fact about every state that satisfies \<open>P\<close> is available; the value of an \<open>inspect\<close> is the one of the state.\<close>

lemma triple_pure: "(\<And>s. P s \<Longrightarrow> b) \<Longrightarrow> (b \<Longrightarrow> triple P m Q E) \<Longrightarrow> triple P m Q E"
  by (auto simp: triple_def)

lemma triple_inspect_then: "(\<And>x. triple (\<lambda>s. P s \<and> g s = x) (f x) Q E) \<Longrightarrow> triple P (andThen (inspect g) f) Q E"
  by (auto simp: triple_def andThen_def inspect_def)

text \<open>An invariant through the combinators.\<close>

lemmas keeps_rules = triple_if triple_option triple_sum triple_pair

lemma keeps_give: "keeps I (give x)" and keeps_fail: "keeps I (fail e)" and keeps_inspect: "keeps I (inspect g)"
  and keeps_stop_on: "keeps I (stop_on e')" and keeps_given: "keeps I (given r)"
  by (rule triple_give, assumption) (rule triple_fail triple_inspect triple_stop_on triple_given; assumption)+

lemma keeps_andThen: "keeps I m \<Longrightarrow> (\<And>x. keeps I (f x)) \<Longrightarrow> keeps I (andThen m f)"
  by (rule triple_andThen)

lemma keeps_attempt: "keeps I m \<Longrightarrow> keeps I (attempt m)"
  by (rule triple_attempt)

lemmas keeps_intros = keeps_give keeps_fail keeps_inspect keeps_stop_on keeps_given keeps_andThen keeps_attempt keeps_rules

end
