(* ===== verification/Paths.thy ===== *)
theory Paths
  imports Prelude
begin

section \<open>Slash-separated paths\<close>

text \<open>
  The lexical operations of \<open>path/filepath\<close> on Unix that the program uses: \<open>Clean\<close>, \<open>Join\<close>, \<open>IsAbs\<close>, \<open>Abs\<close>, \<open>Rel\<close>, \<open>Dir\<close> and
  \<open>Base\<close>, and \<open>strings.Split\<close>. \<open>ToSlash\<close> is the identity there.
\<close>

definition slash :: char where "slash = CHR ''/''"

fun Split :: "string \<Rightarrow> char \<Rightarrow> string list" where
  "Split [] c = [[]]"
| "Split (x # s) c = (if x = c then [] # Split s c else (case Split s c of [] \<Rightarrow> [[x]] | p # ps \<Rightarrow> (x # p) # ps))"

definition IsAbs :: "string \<Rightarrow> bool" where
  "IsAbs s \<longleftrightarrow> (case s of [] \<Rightarrow> False | c # _ \<Rightarrow> c = slash)"

text \<open>The elements kept so far are in \<open>kept\<close>, last first.\<close>

fun clean_parts :: "bool \<Rightarrow> string list \<Rightarrow> string list \<Rightarrow> string list" where
  "clean_parts rooted kept [] = rev kept"
| "clean_parts rooted kept (p # ps) =
     (if p = '''' \<or> p = ''.'' then clean_parts rooted kept ps
      else if p = ''..'' then
        (case kept of
           [] \<Rightarrow> clean_parts rooted (if rooted then [] else [''..'']) ps
         | q # qs \<Rightarrow> if q = ''..'' then clean_parts rooted (''..'' # kept) ps else clean_parts rooted qs ps)
      else clean_parts rooted (p # kept) ps)"

definition Clean :: "string \<Rightarrow> string" where
  "Clean s =
     (let parts = clean_parts (IsAbs s) [] (Split s slash)
      in if IsAbs s then slash # join_with [slash] parts else if parts = [] then ''.'' else join_with [slash] parts)"

fun Join :: "string list \<Rightarrow> string" where
  "Join [] = ''''"
| "Join (e # es) = (if e = '''' then Join es else Clean (join_with [slash] (e # es)))"

definition Abs :: "gerr + string \<Rightarrow> string \<Rightarrow> gerr + string" where
  "Abs getwd p = (if IsAbs p then Inr (Clean p) else (case getwd of Inl e \<Rightarrow> Inl e | Inr wd \<Rightarrow> Inr (Join [wd, p])))"

subsection \<open>Clean absolute paths\<close>

text \<open>A plain element is a proper name; a clean absolute path is a slash and plain elements.\<close>

definition plain :: "string \<Rightarrow> bool" where
  "plain p \<longleftrightarrow> p \<noteq> '''' \<and> p \<noteq> ''.'' \<and> p \<noteq> ''..'' \<and> slash \<notin> set p"

definition abs_path :: "string list \<Rightarrow> string" where
  "abs_path ps = slash # join_with [slash] ps"

lemma Split_not_Nil [simp]: "Split s c \<noteq> []"
  by (induction s) (auto split: list.split)

lemma Split_no_sep: "c \<notin> set p \<Longrightarrow> Split p c = [p]"
  by (induction p) auto

lemma Split_append: "c \<notin> set p \<Longrightarrow> Split (p @ c # s) c = p # Split s c"
  by (induction p) auto

lemma Split_set: "p \<in> set (Split s c) \<Longrightarrow> c \<notin> set p"
  by (induction s arbitrary: p) (auto split: if_splits list.splits)

lemma Split_join: "ps \<noteq> [] \<Longrightarrow> \<forall>p \<in> set ps. c \<notin> set p \<Longrightarrow> Split (join_with [c] ps) c = ps"
  by (induction "[c]" ps rule: join_with.induct) (simp_all add: Split_no_sep Split_append)

lemma clean_parts_plain: "\<forall>p \<in> set ps. plain p \<Longrightarrow> clean_parts rooted kept ps = rev kept @ ps"
  by (induction ps arbitrary: kept) (auto simp: plain_def)

lemma Split_abs_path: "\<forall>p \<in> set ps. plain p \<Longrightarrow> Split (abs_path ps) slash = [] # (if ps = [] then [[]] else ps)"
  by (auto simp: abs_path_def Split_join plain_def)

lemma IsAbs_abs_path [simp]: "IsAbs (abs_path ps)"
  by (simp add: IsAbs_def abs_path_def)

lemma Clean_abs_path: "\<forall>p \<in> set ps. plain p \<Longrightarrow> Clean (abs_path ps) = abs_path ps"
  by (simp add: Clean_def Split_abs_path clean_parts_plain abs_path_def [symmetric] Let_def)

lemma not_plain [simp]: "\<not> plain ''''" "\<not> plain ''.''" "\<not> plain ''..''"
  by (simp_all add: plain_def)

lemma plain_no_slash: "plain p \<Longrightarrow> slash \<notin> set p"
  by (simp add: plain_def)

lemma clean_parts_rooted:
  "\<forall>p \<in> set kept. plain p \<Longrightarrow> \<forall>p \<in> set ps. slash \<notin> set p \<Longrightarrow> \<forall>p \<in> set (clean_parts True kept ps). plain p"
proof (induction ps arbitrary: kept)
  case (Cons p ps)
  have rest: "\<forall>q \<in> set ps. slash \<notin> set q" using Cons.prems(2) by simp
  consider "p = '''' \<or> p = ''.''" | "p = ''..''" | "p \<noteq> ''''" "p \<noteq> ''.''" "p \<noteq> ''..''" by blast
  then show ?case
  proof cases
    case 1
    then have "clean_parts True kept (p # ps) = clean_parts True kept ps" by auto
    then show ?thesis using Cons.IH [OF Cons.prems(1) rest] by simp
  next
    case 2
    then have "clean_parts True kept (p # ps) = clean_parts True (tl kept) ps" using Cons.prems(1) by (cases kept) auto
    moreover have "\<forall>q \<in> set (tl kept). plain q" using Cons.prems(1) by (cases kept) auto
    ultimately show ?thesis using Cons.IH [OF _ rest] by simp
  next
    case 3
    then have "plain p" using Cons.prems(2) by (simp add: plain_def)
    then have "\<forall>q \<in> set (p # kept). plain q" using Cons.prems(1) by simp
    from Cons.IH [OF this rest] show ?thesis using 3 by simp
  qed
qed simp

lemma Clean_IsAbs: "IsAbs s \<Longrightarrow> \<exists>ps. Clean s = abs_path ps \<and> (\<forall>p \<in> set ps. plain p)"
  using clean_parts_rooted [of "[]" "Split s slash"] by (auto simp: Clean_def abs_path_def Let_def Split_set)

lemma IsAbs_append: "IsAbs a \<Longrightarrow> IsAbs (a @ b)"
  by (cases a) (auto simp: IsAbs_def)

lemma join_with_Cons: "ys \<noteq> [] \<Longrightarrow> join_with sep (x # ys) = x @ sep @ join_with sep ys"
  by (cases ys) auto

lemma join_with_append: "xs \<noteq> [] \<Longrightarrow> ys \<noteq> [] \<Longrightarrow> join_with sep (xs @ ys) = join_with sep xs @ sep @ join_with sep ys"
  by (induction sep xs rule: join_with.induct) (auto simp: join_with_Cons)

lemma Join_abs_path:
  assumes "\<forall>p \<in> set ps. plain p" "\<forall>p \<in> set qs. plain p"
  shows "Join (abs_path ps # qs) = abs_path (ps @ qs)"
proof -
  have parts: "clean_parts True [] (Split (join_with [slash] (abs_path ps # qs)) slash) = ps @ qs"
  proof (cases "qs = []")
    case True
    then show ?thesis using assms by (simp add: Split_abs_path clean_parts_plain)
  next
    case False
    have "join_with [slash] (abs_path ps # qs) = [slash] @ (join_with [slash] ps @ slash # join_with [slash] qs)"
      using False by (simp add: join_with_Cons abs_path_def)
    moreover have "join_with [slash] ps @ slash # join_with [slash] qs = join_with [slash] ((if ps = [] then [[]] else ps) @ qs)"
      using False by (auto simp: join_with_append join_with_Cons)
    moreover have "\<forall>p \<in> set ((if ps = [] then [[]] else ps) @ qs). slash \<notin> set p"
      using assms by (auto simp: plain_no_slash)
    ultimately have "Split (join_with [slash] (abs_path ps # qs)) slash = [] # (if ps = [] then [[]] else ps) @ qs"
      using False Split_join [of "(if ps = [] then [[]] else ps) @ qs" slash] by simp
    then show ?thesis using assms clean_parts_plain [of "ps @ qs" True "[]"] by (auto simp: ball_Un)
  qed
  have abs: "IsAbs (join_with [slash] (abs_path ps # qs))"
    by (cases qs) (auto simp: IsAbs_def abs_path_def)
  have "abs_path ps \<noteq> ''''" by (simp add: abs_path_def)
  then show ?thesis using parts abs by (simp add: Clean_def Let_def abs_path_def)
qed

lemma Join_IsAbs: "IsAbs wd \<Longrightarrow> \<exists>ps. Join (wd # xs) = abs_path ps \<and> (\<forall>p \<in> set ps. plain p)"
proof -
  assume "IsAbs wd"
  then have "wd \<noteq> ''''" "IsAbs (join_with [slash] (wd # xs))" by (cases xs; auto simp: IsAbs_def split: list.splits)+
  then show ?thesis using Clean_IsAbs [of "join_with [slash] (wd # xs)"] by simp
qed

text \<open>\<open>Abs\<close> gives a clean absolute path when the working directory is absolute.\<close>

lemma Abs_clean:
  assumes "Abs getwd p = Inr a" and "\<And>wd. getwd = Inr wd \<Longrightarrow> IsAbs wd"
  shows "\<exists>ps. a = abs_path ps \<and> (\<forall>q \<in> set ps. plain q)"
  using assms Clean_IsAbs [of p] Join_IsAbs [of _ "[p]"] by (auto simp: Abs_def split: if_splits sum.splits simp del: Join.simps)

declare Join.simps [simp del]

end
