(* ===== verification/Evolution.thy ===== *)
theory Evolution
  imports Effects Paths Turns Durable "HOL-Library.Word"
begin

section \<open>Proposing, measuring and activating changes of the program itself\<close>

text \<open>
  \<open>internal/maintenance/evolve.go\<close>, \<open>activation.go\<close> and \<open>maintenance.go\<close>. An \<open>Evolver\<close> asks a callback for candidate changes, measures
  each with the train cases of a fixed contract in a worktree of its own, freezes the best one and validates it with the holdout cases.
  \<open>Activate\<close> points a durable file at a validated worktree. \<open>maint_lib\<close> is what the code takes from outside: the \<open>git\<close> command, the
  sandbox, the callback, files, JSON and the digest, over a world \<open>'w\<close> that they change. \<open>mtLog\<close> records what the code asked of it.
\<close>

subsection \<open>Contracts\<close>

record eval_case =
  ecID :: string
  ecCommand :: string
  ecTimeout :: int

record contract =
  coTrain :: "eval_case list"
  coHoldout :: "eval_case list"
  coAllowed :: "string list"
  coProtected :: "string list"
  coMaxCandidates :: int
  coMaxRuns :: int
  coTimeout :: int

definition HasSuffix :: "string \<Rightarrow> string \<Rightarrow> bool" where
  "HasSuffix s p \<longleftrightarrow> HasPrefix (rev s) (rev p)"

definition TrimSuffix :: "string \<Rightarrow> string \<Rightarrow> string" where
  "TrimSuffix s p = (if HasSuffix s p then take (length s - length p) s else s)"

definition NUL :: char where "NUL = CHR 0x00"

definition cleanRelative :: "string \<Rightarrow> gerr + string" where
  "cleanRelative path =
     (let clean = Clean path
      in if clean = ''.'' \<or> clean = ''..'' \<or> HasPrefix clean ''../'' \<or> IsAbs path \<or> NUL \<in> set clean
         then Inl (Msg ''paths must be explicit repository-relative paths'')
         else if list_ex (\<lambda>part. part = ''.git'' \<or> part = ''.pico'') (Split clean slash)
         then Inl (Msg ''maintenance metadata cannot be a candidate target'')
         else Inr clean)"

text \<open>One pass over the cases of a split; \<open>ids\<close> and \<open>commands\<close> are the sets of both splits.\<close>

fun check_cases :: "string list \<Rightarrow> string list \<Rightarrow> eval_case list \<Rightarrow> gerr + (string list \<times> string list \<times> eval_case list)" where
  "check_cases ids commands [] = Inr (ids, commands, [])"
| "check_cases ids commands (v # vs) =
     (let command = TrimSpace (ecCommand v); t = (if ecTimeout v = 0 then 60 else ecTimeout v)
      in if ecID v = '''' \<or> command = '''' \<or> ecID v \<in> set ids \<or> command \<in> set commands
         then Inl (Msg ''case IDs and commands must be nonempty and disjoint across splits'')
         else if t < 1 \<or> 600 < t then Inl (Msg ''case timeout must be in [1,600]'')
         else (case check_cases (ecID v # ids) (command # commands) vs of
             Inl e \<Rightarrow> Inl e
           | Inr (ids', commands', vs') \<Rightarrow> Inr (ids', commands', v\<lparr>ecCommand := command, ecTimeout := t\<rparr> # vs')))"

fun clean_paths :: "string list \<Rightarrow> gerr + string list" where
  "clean_paths [] = Inr []"
| "clean_paths (p # ps) =
     (case cleanRelative p of
        Inl e \<Rightarrow> Inl e
      | Inr clean \<Rightarrow> (case clean_paths ps of Inl e \<Rightarrow> Inl e | Inr rest \<Rightarrow> Inr (clean # rest)))"

definition validateContract :: "contract \<Rightarrow> gerr + contract" where
  "validateContract c0 =
     (let candidates = (if coMaxCandidates c0 = 0 then 3 else coMaxCandidates c0);
          seconds = (if coTimeout c0 = 0 then 600 else coTimeout c0);
          train = int (length (coTrain c0)); holdout = int (length (coHoldout c0))
      in if candidates < 1 \<or> 20 < candidates \<or> seconds < 1 \<or> 3600 < seconds then Inl (Msg ''invalid maintenance candidate/time limit'')
         else if coTrain c0 = [] \<or> coHoldout c0 = [] \<or> coAllowed c0 = []
         then Inl (Msg ''train, disjoint holdout, and explicit allowed paths are required'')
         else
          (let runs = (if coMaxRuns c0 = 0 then train * (candidates + 1) + holdout else coMaxRuns c0)
           in if runs < train * 2 + holdout \<or> 10000 < runs then Inl (Msg ''invalid verifier run budget'')
              else (case check_cases [] [] (coTrain c0) of
                  Inl e \<Rightarrow> Inl e
                | Inr (ids, commands, trains) \<Rightarrow>
                 (case check_cases ids commands (coHoldout c0) of
                    Inl e \<Rightarrow> Inl e
                  | Inr (_, _, holdouts) \<Rightarrow>
                   (case clean_paths (coAllowed c0) of
                      Inl e \<Rightarrow> Inl e
                    | Inr allowed \<Rightarrow>
                     (case clean_paths (coProtected c0) of
                        Inl e \<Rightarrow> Inl e
                      | Inr protecteds \<Rightarrow> Inr \<lparr>coTrain = trains, coHoldout = holdouts, coAllowed = allowed, coProtected = protecteds,
                          coMaxCandidates = candidates, coMaxRuns = runs, coTimeout = seconds\<rparr>))))))"

subsection \<open>The record of a run\<close>

record case_result =
  rsID :: string
  rsPassed :: bool
  rsExit :: int
  rsError :: string
  rsOutput :: string
  rsDuration :: int

record candidate =
  cdID :: string
  cdStatus :: string
  cdEditPath :: string
  cdTrainPath :: string
  cdPatchPath :: string
  cdDigest :: string
  cdPaths :: "string list"
  cdTrain :: "case_result list"
  cdError :: string

record evolution =
  erSchema :: string
  erID :: string
  erStatus :: string
  erRoot :: string
  erBase :: string
  erContract :: contract
  erContractDigest :: string
  erBaseline :: "case_result list"
  erCandidates :: "candidate list"
  erSelected :: string
  erValidation :: "case_result list"
  erWorktree :: string
  erRuns :: int
  erCreated :: instant
  erFinished :: instant
  erError :: string

definition no_contract :: contract where
  "no_contract = \<lparr>coTrain = [], coHoldout = [], coAllowed = [], coProtected = [], coMaxCandidates = 0, coMaxRuns = 0, coTimeout = 0\<rparr>"

definition no_evolution :: evolution where
  "no_evolution = \<lparr>erSchema = '''', erID = '''', erStatus = '''', erRoot = '''', erBase = '''', erContract = no_contract, erContractDigest = '''',
     erBaseline = [], erCandidates = [], erSelected = '''', erValidation = [], erWorktree = '''', erRuns = 0, erCreated = 0, erFinished = 0, erError = ''''\<rparr>"

record proposal_input =
  piIndex :: nat
  piWorktree :: string
  piBase :: string
  piRequest :: string
  piTrain :: "eval_case list"
  piBaseline :: "case_result list"
  piPrevious :: "candidate list"

definition passCount :: "case_result list \<Rightarrow> nat" where
  "passCount results = length (filter rsPassed results)"

definition improves :: "case_result list \<Rightarrow> case_result list \<Rightarrow> bool" where
  "improves baseline cand \<longleftrightarrow>
     length baseline = length cand \<and> passCount baseline < passCount cand \<and>
     list_all2 (\<lambda>b c. rsID b = rsID c \<and> (rsPassed b \<longrightarrow> rsPassed c)) baseline cand"

definition matchesPath :: "string \<Rightarrow> string \<Rightarrow> bool" where
  "matchesPath path pre \<longleftrightarrow> path = pre \<or> HasPrefix path (pre @ ''/'')"

definition verifier_part :: "string \<Rightarrow> bool" where
  "verifier_part part \<longleftrightarrow> part = ''test'' \<or> part = ''tests'' \<or> part = ''testdata'' \<or> part = ''benchmarks'' \<or> part = ''.github''"

fun allowedChanges :: "string list \<Rightarrow> contract \<Rightarrow> gerr option" where
  "allowedChanges [] c = None"
| "allowedChanges (p # ps) c =
     (case cleanRelative p of
        Inl e \<Rightarrow> Some e
      | Inr path \<Rightarrow>
          if list_ex verifier_part (Split path slash) then Some (Errorf ''candidate changes verifier material %s'' [path])
          else if HasSuffix path ''_test.go'' then Some (Errorf ''candidate changes tests %s'' [path])
          else if list_ex (matchesPath path) (coProtected c) then Some (Errorf ''candidate changes protected path %s'' [path])
          else if \<not> list_ex (matchesPath path) (coAllowed c) then Some (Errorf ''candidate target is not allowed: %s'' [path])
          else allowedChanges ps c)"

definition boundedOutput :: "string \<Rightarrow> string" where
  "boundedOutput s = (if 8000 < length (runes s) then concat (take 8000 (runes s)) @ '' [truncated]'' else s)"

subsection \<open>The world outside\<close>

datatype asked =
    Git string "string list"
  | Proposed proposal_input
  | Verified string string int
  | Stored evolution
  | Replaced_file string string

record 'w maint_lib =
  mlGit :: "string \<Rightarrow> string list \<Rightarrow> 'w \<Rightarrow> (gerr + string) \<times> 'w"
  mlPropose :: "proposal_input \<Rightarrow> 'w \<Rightarrow> gerr option \<times> 'w"
  mlRun :: "string \<Rightarrow> string \<Rightarrow> int \<Rightarrow> 'w \<Rightarrow> (gerr option \<times> int \<times> string \<times> string) \<times> 'w"
  mlCtx :: "'w \<Rightarrow> gerr option"
  mlClock :: "'w \<Rightarrow> instant"
  mlReplace :: "string \<Rightarrow> string \<Rightarrow> 'w \<Rightarrow> gerr option \<times> 'w"
  mlReadFile :: "string \<Rightarrow> 'w \<Rightarrow> gerr + string"
  mlRealPath :: "string \<Rightarrow> 'w \<Rightarrow> gerr + string"
  mlLstat :: "string \<Rightarrow> 'w \<Rightarrow> gerr + bool option"
  mlRunJSON :: "evolution \<Rightarrow> gerr + string"
  mlContractJSON :: "contract \<Rightarrow> string"
  mlDigest :: "string \<Rightarrow> string"
  mlWd :: "gerr + string"

text \<open>\<open>mlLstat\<close>: \<open>None\<close> for \<open>os.ErrNotExist\<close>, else whether the file is regular. The state of a run: the world, what was asked of it, and the record.\<close>

record 'w maint =
  mtWorld :: 'w
  mtLog :: "asked list"
  mtRun :: evolution

definition git :: "'w maint_lib \<Rightarrow> string \<Rightarrow> string list \<Rightarrow> ('w maint, string) act" where
  "git lib dir args s =
     (case mlGit lib dir args (mtWorld s) of (r, w) \<Rightarrow> (r, s\<lparr>mtWorld := w, mtLog := mtLog s @ [Git dir args]\<rparr>))"

definition propose :: "'w maint_lib \<Rightarrow> proposal_input \<Rightarrow> ('w maint, gerr option) act" where
  "propose lib input s =
     (case mlPropose lib input (mtWorld s) of (e, w) \<Rightarrow> (Inr e, s\<lparr>mtWorld := w, mtLog := mtLog s @ [Proposed input]\<rparr>))"

definition verify :: "'w maint_lib \<Rightarrow> string \<Rightarrow> string \<Rightarrow> int \<Rightarrow> ('w maint, gerr option \<times> int \<times> string \<times> string \<times> int) act" where
  "verify lib command dir seconds s =
     (case mlRun lib command dir seconds (mtWorld s) of
        ((e, code, out, err), w) \<Rightarrow>
          (Inr (e, code, out, err, (mlClock lib w - mlClock lib (mtWorld s)) div 1000000),
           s\<lparr>mtWorld := w, mtLog := mtLog s @ [Verified command dir seconds]\<rparr>))"

definition replace_file :: "'w maint_lib \<Rightarrow> string \<Rightarrow> string \<Rightarrow> ('w maint, unit) act" where
  "replace_file lib path content s =
     (case mlReplace lib path content (mtWorld s) of
        (e, w) \<Rightarrow> ((case e of None \<Rightarrow> Inr () | Some x \<Rightarrow> Inl x), s\<lparr>mtWorld := w, mtLog := mtLog s @ [Replaced_file path content]\<rparr>))"

definition run_dir :: "evolution \<Rightarrow> string" where
  "run_dir r = Join [erRoot r, ''.pico'', ''maintenance'', erID r]"

definition run_file :: "evolution \<Rightarrow> string" where
  "run_file r = Join [erRoot r, ''.pico'', ''maintenance'', erID r, ''evolution.json'']"

definition saveRun :: "'w maint_lib \<Rightarrow> ('w maint, unit) act" where
  "saveRun lib s =
     (case mlRunJSON lib (mtRun s) of
        Inl e \<Rightarrow> (Inl e, s)
      | Inr b \<Rightarrow>
         (case mlReplace lib (run_file (mtRun s)) b (mtWorld s) of
            (e, w) \<Rightarrow> ((case e of None \<Rightarrow> Inr () | Some x \<Rightarrow> Inl x), s\<lparr>mtWorld := w, mtLog := mtLog s @ [Stored (mtRun s)]\<rparr>)))"

definition set_run :: "(evolution \<Rightarrow> evolution) \<Rightarrow> ('w maint, unit) act" where
  "set_run f = change (\<lambda>s. s\<lparr>mtRun := f (mtRun s)\<rparr>)"

definition ctx_err :: "'w maint_lib \<Rightarrow> ('w maint, unit) act" where
  "ctx_err lib s = stop_on (mlCtx lib (mtWorld s)) s"

subsection \<open>Measuring a tree\<close>

text \<open>
  \<open>evaluate\<close>: each case is counted and recorded before its command runs; a sandbox that fails ends the measurement with an error,
  and the results so far are returned with it. The state returned by an error keeps the record as the code does through \<open>run *EvolutionRun\<close>.
\<close>

definition case_outcome :: "eval_case \<Rightarrow> gerr option \<times> int \<times> string \<times> string \<times> int \<Rightarrow> case_result \<times> gerr option" where
  "case_outcome c r =
     (case r of (err, code, out, errout, ms) \<Rightarrow>
       (let err' = (if err = None \<and> (code = 126 \<or> code = 127) then Some (Msg ''verifier command unavailable or not executable'') else err)
        in (\<lparr>rsID = ecID c, rsPassed = (err = None \<and> code = 0), rsExit = code, rsError = (case err' of None \<Rightarrow> '''' | Some e \<Rightarrow> Error e),
             rsOutput = boundedOutput (out @ newline @ errout), rsDuration = ms\<rparr>, err')))"

fun evaluate :: "'w maint_lib \<Rightarrow> string \<Rightarrow> eval_case list \<Rightarrow> case_result list \<Rightarrow> ('w maint, case_result list \<times> gerr option) act" where
  "evaluate lib dir [] results = give (results, None)"
| "evaluate lib dir (c # cs) results =
     andThen (attempt (ctx_err lib)) (\<lambda>stopped.
       case stopped of
         Inl e \<Rightarrow> give (results, Some e)
       | Inr _ \<Rightarrow>
           andThen (inspect mtRun) (\<lambda>run.
             if coMaxRuns (erContract run) \<le> erRuns run then give (results, Some (Msg ''maintenance verifier budget exhausted''))
             else
               andThen (set_run (\<lambda>r. r\<lparr>erRuns := erRuns r + 1\<rparr>)) (\<lambda>_.
               andThen (attempt (saveRun lib)) (\<lambda>saved.
                 case saved of
                   Inl e \<Rightarrow> give (results, Some e)
                 | Inr _ \<Rightarrow>
                     andThen (verify lib (ecCommand c) dir (ecTimeout c)) (\<lambda>r.
                       case case_outcome c r of
                         (result, Some e) \<Rightarrow> give (results @ [result], Some e)
                       | (result, None) \<Rightarrow> evaluate lib dir cs (results @ [result]))))))"

text \<open>\<open>captureCandidatePatch\<close>; \<open>stage_new\<close> makes git see the new files of an edited tree.\<close>

fun check_files :: "'w maint_lib \<Rightarrow> string \<Rightarrow> string list \<Rightarrow> ('w maint, unit) act" where
  "check_files lib dir [] = give ()"
| "check_files lib dir (p # ps) =
     andThen (given (cleanRelative p)) (\<lambda>_.
     andThen (\<lambda>s. given (mlLstat lib (Join [dir, p]) (mtWorld s)) s) (\<lambda>regular.
       if regular = Some False then fail (Msg ''candidate symlinks/submodules/non-regular files are not allowed'')
       else check_files lib dir ps))"

definition captureCandidatePatch :: "'w maint_lib \<Rightarrow> string \<Rightarrow> string \<Rightarrow> bool \<Rightarrow> ('w maint, string \<times> string list) act" where
  "captureCandidatePatch lib dir base stage_new =
     andThen (attempt (git lib dir [''rev-parse'', ''HEAD''])) (\<lambda>head.
       if (case head of Inl e \<Rightarrow> True | Inr h \<Rightarrow> TrimSpace h \<noteq> base) then fail (Msg ''candidate changed its pinned base revision'')
       else
         andThen (git lib dir [''rev-parse'', ''--show-toplevel'']) (\<lambda>top.
         andThen (\<lambda>s. given (mlRealPath lib dir (mtWorld s)) s) (\<lambda>actual.
         andThen (inspect (\<lambda>s. mlRealPath lib (TrimSpace top) (mtWorld s))) (\<lambda>actual_top.
           if (case actual_top of Inl e \<Rightarrow> True | Inr t \<Rightarrow> t \<noteq> actual) then fail (Msg ''candidate worktree root changed'')
           else
             andThen (if stage_new then andThen (git lib dir [''add'', ''-N'', ''--'', ''.'']) (\<lambda>_. give ())
                      else andThen (git lib dir [''ls-files'', ''--others'', ''--exclude-standard'', ''-z''])
                        (\<lambda>untracked. if untracked \<noteq> '''' then fail (Msg ''untracked files appeared after validation'') else give ())) (\<lambda>_.
             andThen (git lib dir [''diff'', ''--name-only'', ''-z'', ''HEAD'', ''--'', ''.'']) (\<lambda>raw.
               let paths = Split (TrimSuffix raw [NUL]) NUL
               in andThen (check_files lib dir paths) (\<lambda>_.
                  andThen (git lib dir [''diff'', ''--binary'', ''HEAD'', ''--'', ''.'']) (\<lambda>patch.
                    if patch = '''' then fail (Msg ''candidate produced no patch'') else give (patch, paths)))))))))"

definition capturePatch :: "'w maint_lib \<Rightarrow> string \<Rightarrow> string \<Rightarrow> ('w maint, string \<times> string list) act" where
  "capturePatch lib dir base = captureCandidatePatch lib dir base True"

definition add_worktree :: "'w maint_lib \<Rightarrow> string \<Rightarrow> string \<Rightarrow> string \<Rightarrow> ('w maint, unit) act" where
  "add_worktree lib dir path base = andThen (git lib dir [''worktree'', ''add'', ''--detach'', path, base]) (\<lambda>_. give ())"

definition apply_patch :: "'w maint_lib \<Rightarrow> string \<Rightarrow> string \<Rightarrow> ('w maint, unit) act" where
  "apply_patch lib dir patch =
     andThen (git lib dir [''apply'', ''--check'', patch]) (\<lambda>_. andThen (git lib dir [''apply'', patch]) (\<lambda>_. give ()))"

subsection \<open>One candidate\<close>

text \<open>\<open>Sprintf("candidate-%02d", index)\<close>.\<close>

definition candidate_id :: "nat \<Rightarrow> string" where
  "candidate_id index = ''candidate-'' @ pad0 2 (Itoa index)"

definition new_candidate :: "string \<Rightarrow> string \<Rightarrow> candidate" where
  "new_candidate dir cid =
     \<lparr>cdID = cid, cdStatus = ''generating'', cdEditPath = Join [dir, cid, ''edit''], cdTrainPath = Join [dir, cid, ''train''],
      cdPatchPath = Join [dir, cid, ''candidate.patch''], cdDigest = '''', cdPaths = [], cdTrain = [], cdError = ''''\<rparr>"

definition add_candidate :: "candidate \<Rightarrow> ('w maint, unit) act" where
  "add_candidate c = set_run (\<lambda>r. r\<lparr>erCandidates := erCandidates r @ [c]\<rparr>)"

definition put_candidate :: "nat \<Rightarrow> candidate \<Rightarrow> ('w maint, unit) act" where
  "put_candidate ci c = set_run (\<lambda>r. r\<lparr>erCandidates := (erCandidates r)[ci := c]\<rparr>)"

text \<open>The verdict on a measured candidate and the position of the best one so far (\<open>-1\<close> is \<open>None\<close>).\<close>

definition judge_candidate :: "'w maint_lib \<Rightarrow> evolution \<Rightarrow> gerr + (string \<times> string list) \<Rightarrow> candidate \<Rightarrow> nat \<Rightarrow> nat option \<Rightarrow> candidate \<times> nat option" where
  "judge_candidate lib run measured c ci best =
     (if (case measured of Inl e \<Rightarrow> True | Inr (patch, paths) \<Rightarrow> mlDigest lib patch \<noteq> cdDigest c)
      then (c\<lparr>cdStatus := ''rejected'', cdError := ''training verifier modified candidate files''\<rparr>, best)
      else if improves (erBaseline run) (cdTrain c)
      then (c\<lparr>cdStatus := ''train_accepted''\<rparr>,
            (case best of
               None \<Rightarrow> Some ci
             | Some b \<Rightarrow> if passCount (cdTrain (erCandidates run ! b)) < passCount (cdTrain c) then Some ci else best))
      else (c\<lparr>cdStatus := ''rejected'', cdError := ''no strict train improvement or regression of a passing train case''\<rparr>, best))"

definition reject_candidate :: "'w maint_lib \<Rightarrow> candidate \<Rightarrow> string \<Rightarrow> gerr \<Rightarrow> ('w maint, unit) act" where
  "reject_candidate lib c status e = andThen (add_candidate (c\<lparr>cdStatus := status, cdError := Error e\<rparr>)) (\<lambda>_. saveRun lib)"

text \<open>The candidate \<open>c\<close>, stored at \<open>ci\<close>, in its train worktree; then the whole step from the captured patch.\<close>

definition measure_candidate :: "'w maint_lib \<Rightarrow> evolution \<Rightarrow> candidate \<Rightarrow> nat \<Rightarrow> nat option \<Rightarrow> ('w maint, nat option) act" where
  "measure_candidate lib run0 c ci best =
     andThen (evaluate lib (cdTrainPath c) (coTrain (erContract run0)) []) (\<lambda>(results, err).
       case err of
         Some e \<Rightarrow> andThen (put_candidate ci (c\<lparr>cdTrain := results, cdStatus := ''inconclusive'', cdError := Error e\<rparr>)) (\<lambda>_. fail e)
       | None \<Rightarrow>
           andThen (attempt (capturePatch lib (cdTrainPath c) (erBase run0))) (\<lambda>measured.
           andThen (inspect mtRun) (\<lambda>run.
           case judge_candidate lib run measured (c\<lparr>cdTrain := results\<rparr>) ci best of
             (c', best') \<Rightarrow> andThen (put_candidate ci c') (\<lambda>_. andThen (saveRun lib) (\<lambda>_. give best')))))"

definition train_candidate :: "'w maint_lib \<Rightarrow> candidate \<Rightarrow> string \<Rightarrow> string list \<Rightarrow> nat option \<Rightarrow> ('w maint, nat option) act" where
  "train_candidate lib c0 patch paths best =
     andThen (inspect mtRun) (\<lambda>run0.
     let c = c0\<lparr>cdDigest := mlDigest lib patch, cdPaths := paths, cdStatus := ''training''\<rparr>
     in andThen (replace_file lib (cdPatchPath c) patch) (\<lambda>_.
        andThen (add_worktree lib (erRoot run0) (cdTrainPath c) (erBase run0)) (\<lambda>_.
        andThen (apply_patch lib (cdTrainPath c) (cdPatchPath c)) (\<lambda>_.
        andThen (add_candidate c) (\<lambda>_.
        andThen (inspect (\<lambda>s. length (erCandidates (mtRun s)) - 1)) (\<lambda>ci.
        andThen (saveRun lib) (\<lambda>_. measure_candidate lib run0 c ci best)))))))"

datatype turn = Break | Continue "nat option"

definition after_answer :: "'w maint_lib \<Rightarrow> evolution \<Rightarrow> candidate \<Rightarrow> nat option \<Rightarrow> gerr option \<Rightarrow> ('w maint, turn) act" where
  "after_answer lib run c best answer =
     (case answer of
        Some e \<Rightarrow>
          if errors_is e (Msg ''no further candidate'') then give Break
          else andThen (reject_candidate lib c ''generation_failed'' e) (\<lambda>_. give (Continue best))
      | None \<Rightarrow>
          andThen (attempt (andThen (capturePatch lib (cdEditPath c) (erBase run)) (\<lambda>(patch, paths).
             andThen (stop_on (allowedChanges paths (erContract run))) (\<lambda>_. give (patch, paths))))) (\<lambda>captured.
            case captured of
              Inl e \<Rightarrow> andThen (reject_candidate lib c ''rejected'' e) (\<lambda>_. give (Continue best))
            | Inr (patch, paths) \<Rightarrow> andThen (train_candidate lib c patch paths best) (\<lambda>best'. give (Continue best'))))"

definition proposal :: "evolution \<Rightarrow> candidate \<Rightarrow> nat \<Rightarrow> string \<Rightarrow> proposal_input" where
  "proposal run c index request =
     \<lparr>piIndex = index, piWorktree = cdEditPath c, piBase = erBase run, piRequest = request,
      piTrain = coTrain (erContract run), piBaseline = erBaseline run, piPrevious = erCandidates run\<rparr>"

definition try_candidate :: "'w maint_lib \<Rightarrow> string \<Rightarrow> string \<Rightarrow> nat \<Rightarrow> nat option \<Rightarrow> ('w maint, turn) act" where
  "try_candidate lib dir request index best =
     andThen (ctx_err lib) (\<lambda>_.
     andThen (inspect mtRun) (\<lambda>run.
     let c = new_candidate dir (candidate_id index)
     in andThen (add_worktree lib (erRoot run) (cdEditPath c) (erBase run)) (\<lambda>_.
        andThen (propose lib (proposal run c index request)) (after_answer lib run c best))))"

text \<open>The loop over \<open>index\<close>; \<open>left\<close> is the number of passes before \<open>MaxCandidates\<close>.\<close>

fun candidate_loop :: "'w maint_lib \<Rightarrow> string \<Rightarrow> string \<Rightarrow> nat \<Rightarrow> nat \<Rightarrow> nat option \<Rightarrow> ('w maint, nat option) act" where
  "candidate_loop lib dir request 0 index best = give best"
| "candidate_loop lib dir request (Suc left) index best =
     andThen (try_candidate lib dir request index best) (\<lambda>t.
       case t of Break \<Rightarrow> give best | Continue best' \<Rightarrow> candidate_loop lib dir request left (Suc index) best')"

subsection \<open>A run\<close>

definition set_status :: "string \<Rightarrow> ('w maint, unit) act" where
  "set_status status = set_run (\<lambda>r. r\<lparr>erStatus := status\<rparr>)"

definition reject_run :: "string \<Rightarrow> ('w maint, unit) act" where
  "reject_run e = set_run (\<lambda>r. r\<lparr>erStatus := ''rejected'', erError := e\<rparr>)"

text \<open>The frozen winner against the holdout cases: the verdict, the measurement, and the selection before it.\<close>

definition judge_winner :: "'w maint_lib \<Rightarrow> evolution \<Rightarrow> candidate \<Rightarrow> case_result list \<Rightarrow> gerr option \<Rightarrow> ('w maint, unit) act" where
  "judge_winner lib run winner results err =
     andThen (set_run (\<lambda>r. r\<lparr>erValidation := results\<rparr>)) (\<lambda>_.
       case err of
         Some e \<Rightarrow> andThen (set_status ''validation_inconclusive'') (\<lambda>_. fail e)
       | None \<Rightarrow>
           andThen (attempt (capturePatch lib (erWorktree run) (erBase run))) (\<lambda>measured.
             if (case measured of Inl e \<Rightarrow> True | Inr (patch, paths) \<Rightarrow> mlDigest lib patch \<noteq> cdDigest winner)
             then reject_run ''holdout verifier modified the candidate''
             else if passCount results \<noteq> length (coHoldout (erContract run)) then reject_run ''held-out validation failed''
             else set_status ''candidate_ready''))"

definition test_winner :: "'w maint_lib \<Rightarrow> candidate \<Rightarrow> ('w maint, unit) act" where
  "test_winner lib winner =
     andThen (saveRun lib) (\<lambda>_.
     andThen (inspect mtRun) (\<lambda>run.
     andThen (add_worktree lib (erRoot run) (erWorktree run) (erBase run)) (\<lambda>_.
     andThen (apply_patch lib (erWorktree run) (cdPatchPath winner)) (\<lambda>_.
     andThen (evaluate lib (erWorktree run) (coHoldout (erContract run)) []) (\<lambda>(results, err). judge_winner lib run winner results err)))))"

definition select_winner :: "string \<Rightarrow> candidate \<Rightarrow> ('w maint, unit) act" where
  "select_winner dir winner = set_run (\<lambda>r. r\<lparr>erSelected := cdID winner, erStatus := ''validating'', erWorktree := Join [dir, ''validated'']\<rparr>)"

definition validate_winner :: "'w maint_lib \<Rightarrow> string \<Rightarrow> nat \<Rightarrow> ('w maint, unit) act" where
  "validate_winner lib dir b =
     andThen (inspect (\<lambda>s. erCandidates (mtRun s) ! b)) (\<lambda>winner. andThen (select_winner dir winner) (\<lambda>_. test_winner lib winner))"

text \<open>From the baseline to the end.\<close>

definition measure_baseline :: "'w maint_lib \<Rightarrow> string \<Rightarrow> ('w maint, unit) act" where
  "measure_baseline lib dir =
     andThen (inspect mtRun) (\<lambda>run.
     let path = Join [dir, ''baseline'']
     in andThen (add_worktree lib (erRoot run) path (erBase run)) (\<lambda>_.
        andThen (evaluate lib path (coTrain (erContract run)) []) (\<lambda>(results, err).
        andThen (set_run (\<lambda>r. r\<lparr>erBaseline := results\<rparr>)) (\<lambda>_.
        andThen (stop_on err) (\<lambda>_.
        andThen (git lib path [''status'', ''--porcelain'', ''--untracked-files=all'']) (\<lambda>changes.
          if changes \<noteq> '''' then fail (Msg ''baseline verifier changed its pinned worktree'') else give ()))))))"

definition evolve_from :: "'w maint_lib \<Rightarrow> string \<Rightarrow> nat \<Rightarrow> string \<Rightarrow> ('w maint, unit) act" where
  "evolve_from lib dir candidates request =
     andThen (measure_baseline lib dir) (\<lambda>_.
     andThen (candidate_loop lib dir request candidates 1 None) (\<lambda>best.
       case best of None \<Rightarrow> set_status ''rejected'' | Some b \<Rightarrow> validate_winner lib dir b))"

definition evolve_body :: "'w maint_lib \<Rightarrow> string \<Rightarrow> ('w maint, unit) act" where
  "evolve_body lib request =
     andThen (inspect mtRun) (\<lambda>run. evolve_from lib (run_dir run) (nat (coMaxCandidates (erContract run))) request)"

text \<open>The deferred function: the last status and error, the final save, and both errors joined.\<close>

definition mark_run :: "gerr + unit \<Rightarrow> instant \<Rightarrow> evolution \<Rightarrow> evolution" where
  "mark_run r now run =
     (case r of
        Inr _ \<Rightarrow> run
      | Inl x \<Rightarrow> run\<lparr>erError := Error x, erStatus := (if erStatus run = ''running'' then ''failed'' else erStatus run)\<rparr>)\<lparr>erFinished := now\<rparr>"

definition error_of :: "gerr + 'a \<Rightarrow> gerr option" where
  "error_of r = (case r of Inl x \<Rightarrow> Some x | Inr _ \<Rightarrow> None)"

definition finish_run :: "'w maint_lib \<Rightarrow> gerr + unit \<Rightarrow> 'w maint \<Rightarrow> gerr option \<times> 'w maint" where
  "finish_run lib r s =
     (case saveRun lib (s\<lparr>mtRun := mark_run r (mlClock lib (mtWorld s)) (mtRun s)\<rparr>) of
        (saved, t) \<Rightarrow> (errors_join [error_of r, error_of saved], t))"

record evolver =
  ekApproved :: bool
  ekProposes :: bool
  ekRoot :: string
  ekBase :: string

text \<open>\<open>rid\<close> is \<open>store.NewID("evolve")\<close>. A run that does not start has the zero record.\<close>

definition start_run :: "'w maint_lib \<Rightarrow> evolver \<Rightarrow> string \<Rightarrow> contract \<Rightarrow> ('w maint, unit) act" where
  "start_run lib ev rid given_contract =
     (if \<not> ekApproved ev then fail (Msg ''external verifier execution requires explicit approval'')
      else if \<not> ekProposes ev then fail (Msg ''candidate generator is required'')
      else
        andThen (given (validateContract given_contract)) (\<lambda>c.
        andThen (given (Abs (mlWd lib) (ekRoot ev))) (\<lambda>root.
        andThen (git lib root [''rev-parse'', ''--verify'', (if ekBase ev = '''' then ''HEAD'' else ekBase ev) @ ''^{commit}'']) (\<lambda>sha.
        andThen (inspect (\<lambda>s. mlClock lib (mtWorld s))) (\<lambda>now.
          set_run (\<lambda>r. no_evolution\<lparr>erSchema := ''gopherharness.evolution.v1'', erID := rid, erStatus := ''running'', erRoot := root,
              erBase := TrimSpace sha, erContract := c, erContractDigest := mlDigest lib (mlContractJSON lib c), erCreated := now\<rparr>))))))"

definition Evolve :: "'w maint_lib \<Rightarrow> evolver \<Rightarrow> string \<Rightarrow> string \<Rightarrow> contract \<Rightarrow> 'w \<Rightarrow> evolution \<times> gerr option \<times> 'w \<times> asked list" where
  "Evolve lib ev rid request c w =
     (case start_run lib ev rid c \<lparr>mtWorld = w, mtLog = [], mtRun = no_evolution\<rparr> of
        (Inl e, s) \<Rightarrow> (mtRun s, Some e, mtWorld s, mtLog s)
      | (Inr _, s) \<Rightarrow>
         (case saveRun lib s of
            (Inl e, s1) \<Rightarrow> (mtRun s1, Some e, mtWorld s1, mtLog s1)
          | (Inr _, s1) \<Rightarrow>
             (case evolve_body lib request s1 of
                (r, s2) \<Rightarrow> (case finish_run lib r s2 of (e, s3) \<Rightarrow> (mtRun s3, e, mtWorld s3, mtLog s3)))))"

subsection \<open>Reading a run back\<close>

definition digits :: "nat \<Rightarrow> string \<Rightarrow> bool" where
  "digits n s \<longleftrightarrow> length s = n \<and> list_all (\<lambda>c. 48 \<le> (of_char c :: nat) \<and> (of_char c :: nat) \<le> 57) s"

definition lower_hex :: "nat \<Rightarrow> string \<Rightarrow> bool" where
  "lower_hex n s \<longleftrightarrow> length s = n \<and>
     list_all (\<lambda>c. (48 \<le> (of_char c :: nat) \<and> (of_char c :: nat) \<le> 57) \<or> (97 \<le> (of_char c :: nat) \<and> (of_char c :: nat) \<le> 102)) s"

text \<open>\<open>runIDPattern\<close> and \<open>regexpCandidate\<close>, cut at the fixed positions of their parts.\<close>

definition runIDPattern :: "string \<Rightarrow> bool" where
  "runIDPattern s \<longleftrightarrow> length s = 38 \<and> take 7 s = ''evolve_'' \<and> digits 8 (take 8 (drop 7 s)) \<and> s ! 15 = CHR ''-'' \<and> digits 6 (take 6 (drop 16 s)) \<and>
     s ! 22 = CHR ''.'' \<and> digits 6 (take 6 (drop 23 s)) \<and> s ! 29 = CHR ''-'' \<and> lower_hex 8 (drop 30 s)"

definition regexpCandidate :: "string \<Rightarrow> bool" where
  "regexpCandidate s \<longleftrightarrow> take 10 s = ''candidate-'' \<and> digits 2 (drop 10 s)"

definition ReadEvolution :: "'w maint_lib \<Rightarrow> (string \<Rightarrow> gerr + evolution) \<Rightarrow> 'w \<Rightarrow> string \<Rightarrow> string \<Rightarrow> gerr + evolution" where
  "ReadEvolution lib unmarshal w place rid =
     (if \<not> runIDPattern rid then Inl (Msg ''invalid evolution run ID'')
      else (case Abs (mlWd lib) place of
          Inl e \<Rightarrow> Inl e
        | Inr dir \<Rightarrow>
         (case mlReadFile lib (Join [dir, ''.pico'', ''maintenance'', rid, ''evolution.json'']) w of
            Inl e \<Rightarrow> Inl e
          | Inr b \<Rightarrow>
           (case unmarshal b of
              Inl e \<Rightarrow> Inl e
            | Inr run \<Rightarrow>
                if erSchema run \<noteq> ''gopherharness.evolution.v1'' \<or> erID run \<noteq> rid \<or> erRoot run \<noteq> dir then Inl (Msg ''invalid evolution record identity'')
                else if mlDigest lib (mlContractJSON lib (erContract run)) \<noteq> erContractDigest run then Inl (Msg ''evaluation contract changed'')
                else Inr run))))"

subsection \<open>Activation\<close>

record activation =
  atRunID :: string
  atCandidateID :: string
  atWorktree :: string
  atBase :: string
  atDigest :: string
  atTime :: instant

record activation_state =
  asVersion :: "64 word"
  asActive :: "activation option"
  asHistory :: "activation list"

definition no_activation :: activation_state where
  "no_activation = \<lparr>asVersion = 0, asActive = None, asHistory = []\<rparr>"

text \<open>The part of \<open>validateReady\<close> that looks at the record.\<close>

definition check_record :: "evolution \<Rightarrow> gerr + candidate" where
  "check_record run =
     (if erStatus run \<noteq> ''candidate_ready'' \<or> erSelected run = '''' \<or> length (erValidation run) \<noteq> length (coHoldout (erContract run))
         \<or> passCount (erValidation run) \<noteq> length (erValidation run)
      then Inl (Msg ''candidate has no complete successful held-out validation'')
      else (case find (\<lambda>c. cdID c = erSelected run) (erCandidates run) of
          None \<Rightarrow> Inl (Msg ''candidate train evidence is invalid'')
        | Some c \<Rightarrow>
            if cdStatus c \<noteq> ''train_accepted'' \<or> \<not> improves (erBaseline run) (cdTrain c) then Inl (Msg ''candidate train evidence is invalid'')
            else if map rsID (take (length (coHoldout (erContract run))) (erValidation run)) \<noteq> map ecID (coHoldout (erContract run))
            then Inl (Msg ''held-out case identity changed'')
            else if \<not> regexpCandidate (cdID c) \<or>
                    cdPatchPath c \<noteq> Join [erRoot run, ''.pico'', ''maintenance'', erID run, cdID c, ''candidate.patch'']
            then Inl (Msg ''candidate patch path does not belong to run'')
            else if Clean (erWorktree run) \<noteq> Join [erRoot run, ''.pico'', ''maintenance'', erID run, ''validated'']
            then Inl (Msg ''validated worktree path does not belong to run'')
            else Inr c))"

definition validateReady :: "'w maint_lib \<Rightarrow> (string \<Rightarrow> gerr + evolution) \<Rightarrow> string \<Rightarrow> string \<Rightarrow> ('w maint, activation) act" where
  "validateReady lib unmarshal place rid =
     andThen (\<lambda>s. given (ReadEvolution lib unmarshal (mtWorld s) place rid) s) (\<lambda>run.
     andThen (given (check_record run)) (\<lambda>c.
     let expected = Join [erRoot run, ''.pico'', ''maintenance'', erID run, ''validated'']
     in andThen (captureCandidatePatch lib expected (erBase run) False) (\<lambda>(patch, paths).
        if mlDigest lib patch \<noteq> cdDigest c then fail (Msg ''candidate changed after validation'')
        else
          andThen (stop_on (allowedChanges paths (erContract run))) (\<lambda>_.
          andThen (\<lambda>s. given (mlReadFile lib (cdPatchPath c) (mtWorld s)) s) (\<lambda>stored.
            if mlDigest lib stored \<noteq> cdDigest c then fail (Msg ''candidate patch artifact changed'')
            else inspect (\<lambda>s. \<lparr>atRunID = erID run, atCandidateID = cdID c, atWorktree = expected, atBase = erBase run,
                               atDigest = cdDigest c, atTime = mlClock lib (mtWorld s)\<rparr>))))))"

definition activate_fn :: "activation \<Rightarrow> string \<Rightarrow> 64 word \<Rightarrow> (activation_state, activation_state) callback" where
  "activate_fn a rid expected s =
     (if asVersion s \<noteq> expected then (no_activation, Inl (Errorf ''activation version changed: expected %d, current %d'' [Itoa (unat expected), Itoa (unat (asVersion s))]))
      else if (case asActive s of Some b \<Rightarrow> atRunID b = rid | None \<Rightarrow> False) then (s, Inr s)
      else
       (let s' = \<lparr>asVersion = asVersion s + 1, asActive = Some a, asHistory = asHistory s @ (case asActive s of None \<Rightarrow> [] | Some b \<Rightarrow> [b])\<rparr>
        in (s', Inr s')))"

text \<open>\<open>lease\<close> is the outcome of the operation lock.\<close>

definition Activate ::
  "'w maint_lib \<Rightarrow> (string \<Rightarrow> gerr + evolution) \<Rightarrow> gerr option \<Rightarrow> io \<Rightarrow> string \<Rightarrow> string \<Rightarrow> 64 word \<Rightarrow> bool \<Rightarrow>
   'w maint \<Rightarrow> activation_state content \<Rightarrow> (activation_state \<times> gerr option) \<times> 'w maint \<times> activation_state content" where
  "Activate lib unmarshal lease e place rid expected approved s d =
     (if \<not> approved then ((no_activation, Some (Msg ''candidate activation requires explicit approval'')), s, d)
      else (case Abs (mlWd lib) place of
          Inl x \<Rightarrow> ((no_activation, Some x), s, d)
        | Inr dir \<Rightarrow>
         (case lease of
            Some x \<Rightarrow> ((no_activation, Some x), s, d)
          | None \<Rightarrow>
           (case validateReady lib unmarshal dir rid s of
              (Inl x, s') \<Rightarrow> ((no_activation, Some x), s', d)
            | (Inr a, s') \<Rightarrow> (case file_update no_activation e no_activation (activate_fn a rid expected) d of (r, d') \<Rightarrow> (r, s', d'))))))"

definition rollback_fn :: "activation option \<Rightarrow> 64 word \<Rightarrow> (activation_state, activation_state) callback" where
  "rollback_fn previous expected s =
     (if asVersion s \<noteq> expected then (no_activation, Inl (Msg ''activation version changed''))
      else
       (let s' = \<lparr>asVersion = asVersion s + 1, asActive = previous, asHistory = butlast (asHistory s)\<rparr> in (s', Inr s')))"

definition rollback_target :: "'w maint_lib \<Rightarrow> (string \<Rightarrow> gerr + evolution) \<Rightarrow> string \<Rightarrow> activation_state \<Rightarrow> ('w maint, activation option) act" where
  "rollback_target lib unmarshal dir current =
     (if asHistory current = [] then give None
      else
        andThen (attempt (validateReady lib unmarshal dir (atRunID (last (asHistory current))))) (\<lambda>r.
          case r of
            Inl e \<Rightarrow> fail (Wrapf ''rollback target no longer valid: %w'' [] e)
          | Inr checked \<Rightarrow>
              if atDigest checked \<noteq> atDigest (last (asHistory current)) then fail (Msg ''rollback patch digest changed'') else give (Some checked)))"

text \<open>\<open>er\<close> and \<open>eu\<close>: the read and the update of the file, two transactions.\<close>

definition Rollback ::
  "'w maint_lib \<Rightarrow> (string \<Rightarrow> gerr + evolution) \<Rightarrow> gerr option \<Rightarrow> io \<Rightarrow> io \<Rightarrow> string \<Rightarrow> 64 word \<Rightarrow> bool \<Rightarrow>
   'w maint \<Rightarrow> activation_state content \<Rightarrow> (activation_state \<times> gerr option) \<times> 'w maint \<times> activation_state content" where
  "Rollback lib unmarshal lease er eu place expected approved s d =
     (if \<not> approved then ((no_activation, Some (Msg ''candidate rollback requires explicit approval'')), s, d)
      else (case Abs (mlWd lib) place of
          Inl x \<Rightarrow> ((no_activation, Some x), s, d)
        | Inr dir \<Rightarrow>
         (case lease of
            Some x \<Rightarrow> ((no_activation, Some x), s, d)
          | None \<Rightarrow>
           (case file_read no_activation er d of
              (current, Some x) \<Rightarrow> ((current, Some x), s, d)
            | (current, None) \<Rightarrow>
                if asVersion current \<noteq> expected \<or> asActive current = None
                then ((current, Some (Msg ''activation changed or no active candidate'')), s, d)
                else (case rollback_target lib unmarshal dir current s of
                    (Inl x, s') \<Rightarrow> ((current, Some x), s', d)
                  | (Inr previous, s') \<Rightarrow>
                     (case file_update no_activation eu no_activation (rollback_fn previous expected) d of (r, d') \<Rightarrow> (r, s', d')))))))"

definition ResolveActiveRoot ::
  "'w maint_lib \<Rightarrow> (string \<Rightarrow> gerr + evolution) \<Rightarrow> io \<Rightarrow> string \<Rightarrow> 'w maint \<Rightarrow> activation_state content \<Rightarrow> (gerr + string) \<times> 'w maint" where
  "ResolveActiveRoot lib unmarshal e place s d =
     (case Abs (mlWd lib) place of
        Inl x \<Rightarrow> (Inl x, s)
      | Inr dir \<Rightarrow>
       (case file_read no_activation e d of
          (_, Some x) \<Rightarrow> (Inl x, s)
        | (st, None) \<Rightarrow>
         (case asActive st of
            None \<Rightarrow> (Inr dir, s)
          | Some a \<Rightarrow>
             (case validateReady lib unmarshal dir (atRunID a) s of
                (Inl x, s') \<Rightarrow> (Inl x, s')
              | (Inr checked, s') \<Rightarrow>
                  if atDigest checked \<noteq> atDigest a \<or> atWorktree checked \<noteq> atWorktree a then (Inl (Msg ''active candidate identity changed''), s')
                  else (Inr (atWorktree checked), s')))))"

subsection \<open>What a run asks for\<close>

definition verifs :: "asked list \<Rightarrow> (string \<times> string \<times> int) list" where
  "verifs l = concat (map (\<lambda>a. case a of Verified c d t \<Rightarrow> [(c, d, t)] | _ \<Rightarrow> []) l)"

definition proposals :: "asked list \<Rightarrow> proposal_input list" where
  "proposals l = concat (map (\<lambda>a. case a of Proposed i \<Rightarrow> [i] | _ \<Rightarrow> []) l)"

lemma verifs_simps [simp]: "verifs [] = []" "verifs (l @ l') = verifs l @ verifs l'" "verifs [Git d args] = []" "verifs [Proposed i] = []"
  "verifs [Verified c d t] = [(c, d, t)]" "verifs [Stored r] = []" "verifs [Replaced_file p b] = []"
  by (simp_all add: verifs_def)

lemma proposals_simps [simp]: "proposals [] = []" "proposals (l @ l') = proposals l @ proposals l'" "proposals [Git d args] = []" "proposals [Proposed i] = [i]"
  "proposals [Verified c d t] = []" "proposals [Stored r] = []" "proposals [Replaced_file p b] = []"
  by (simp_all add: proposals_def)

text \<open>The part of the record that is fixed when the run starts.\<close>

definition header :: "evolution \<Rightarrow> evolution \<Rightarrow> bool" where
  "header r0 r \<longleftrightarrow> erSchema r = erSchema r0 \<and> erID r = erID r0 \<and> erRoot r = erRoot r0 \<and> erBase r = erBase r0 \<and>
     erContract r = erContract r0 \<and> erContractDigest r = erContractDigest r0"

text \<open>The verifier budget, a log that goes on from \<open>l0\<close> with events that satisfy \<open>ok\<close>, and a record that may be stored.\<close>

definition run_inv :: "evolution \<Rightarrow> asked list \<Rightarrow> (asked \<Rightarrow> bool) \<Rightarrow> 'w maint \<Rightarrow> bool" where
  "run_inv r0 l0 ok s \<longleftrightarrow> header r0 (mtRun s) \<and> int (length (verifs (mtLog s))) \<le> erRuns (mtRun s) \<and>
     erRuns (mtRun s) \<le> coMaxRuns (erContract r0) \<and> (\<exists>x. mtLog s = l0 @ x \<and> (\<forall>a \<in> set x. ok a)) \<and> ok (Stored (mtRun s))"

lemma run_inv_ask:
  "run_inv r0 l0 ok s \<Longrightarrow> ok a \<Longrightarrow> verifs [a] = [] \<Longrightarrow> run_inv r0 l0 ok (s\<lparr>mtWorld := w, mtLog := mtLog s @ [a]\<rparr>)"
  by (fastforce simp: run_inv_def)

lemma git_keeps: "ok (Git d args) \<Longrightarrow> keeps (run_inv r0 l0 ok) (git lib d args)"
  by (rule tripleI) (auto simp: git_def split: prod.splits intro!: run_inv_ask)

lemma propose_keeps: "ok (Proposed i) \<Longrightarrow> keeps (run_inv r0 l0 ok) (propose lib i)"
  by (rule tripleI) (auto simp: propose_def split: prod.splits intro!: run_inv_ask)

lemma replace_file_keeps: "ok (Replaced_file p b) \<Longrightarrow> keeps (run_inv r0 l0 ok) (replace_file lib p b)"
  by (rule tripleI) (auto simp: replace_file_def split: prod.splits option.splits intro!: run_inv_ask)

lemma run_inv_stored: "run_inv r0 l0 ok s \<Longrightarrow> ok (Stored (mtRun s))"
  by (simp add: run_inv_def)

lemma saveRun_keeps: "keeps (run_inv r0 l0 ok) (saveRun lib)"
  by (rule tripleI) (auto simp: saveRun_def split: prod.splits option.splits sum.splits intro!: run_inv_ask dest: run_inv_stored)

lemma ctx_err_keeps: "keeps I (ctx_err lib)"
  by (rule tripleI) (auto simp: ctx_err_def stop_on_def split: option.splits)

lemma set_run_keeps:
  "(\<And>r. header r0 r \<Longrightarrow> ok (Stored r) \<Longrightarrow> header r0 (f r) \<and> erRuns (f r) = erRuns r \<and> ok (Stored (f r))) \<Longrightarrow> keeps (run_inv r0 l0 ok) (set_run f)"
  by (rule tripleI) (auto simp: set_run_def change_def run_inv_def)

lemma read_world_keeps: "keeps I (\<lambda>s. given (g s) s)"
  by (rule tripleI) (auto simp: given_def)

lemma inspect_keeps:
  "(\<And>run. header r0 run \<Longrightarrow> keeps (run_inv r0 l0 ok) (f run)) \<Longrightarrow> keeps (run_inv r0 l0 ok) (andThen (inspect mtRun) f)"
proof (rule tripleI, goal_cases)
  case (1 s x t)
  then have "header r0 (mtRun s)" by (simp add: run_inv_def)
  from triple_value [OF 1(1) [OF this] 1(2)] 1(3) show ?case by (simp add: andThen_def inspect_def)
next
  case (2 s e t)
  then have "header r0 (mtRun s)" by (simp add: run_inv_def)
  from triple_error [OF 2(1) [OF this] 2(2)] 2(3) show ?case by (simp add: andThen_def inspect_def)
qed

lemma evaluate_keeps:
  "(\<And>r n. ok (Stored r) \<Longrightarrow> ok (Stored (r\<lparr>erRuns := n\<rparr>))) \<Longrightarrow> \<forall>c \<in> set cs. ok (Verified (ecCommand c) dir (ecTimeout c)) \<Longrightarrow> keeps (run_inv r0 l0 ok) (evaluate lib dir cs results)"
proof (induction cs arbitrary: results)
  case Nil
  then show ?case by (simp add: keeps_give)
next
  case (Cons c cs)
  let ?I = "run_inv r0 l0 ok"
  let ?J = "\<lambda>s. ?I s \<and> int (length (verifs (mtLog s))) < erRuns (mtRun s)"
  let ?rest = "\<lambda>r. case case_outcome c r of (result, Some e) \<Rightarrow> give (results @ [result], Some e) | (result, None) \<Rightarrow> evaluate lib dir cs (results @ [result])"
  have rest: "keeps ?I (?rest r)" for r
    using Cons by (auto intro!: keeps_intros split: prod.split option.split)
  have ver: "triple ?J (verify lib (ecCommand c) dir (ecTimeout c)) (\<lambda>_. ?I) (\<lambda>_. ?I)"
    using Cons.prems(2) by (intro tripleI) (fastforce simp: verify_def run_inv_def split: prod.splits)+
  have save: "triple ?J (attempt (saveRun lib)) (\<lambda>_. ?J) (\<lambda>_. ?J)"
    by (intro triple_attempt tripleI) (fastforce simp: saveRun_def run_inv_def split: prod.splits option.splits sum.splits)+
  have step: "triple (\<lambda>s. ?I s \<and> mtRun s = run) (if coMaxRuns (erContract run) \<le> erRuns run then give (results, Some (Msg ''maintenance verifier budget exhausted''))
     else andThen (set_run (\<lambda>r. r\<lparr>erRuns := erRuns r + 1\<rparr>)) (\<lambda>_. andThen (attempt (saveRun lib)) (\<lambda>saved.
        case saved of Inl e \<Rightarrow> give (results, Some e) | Inr _ \<Rightarrow> andThen (verify lib (ecCommand c) dir (ecTimeout c)) ?rest))) (\<lambda>_. ?I) (\<lambda>_. ?I)" for run
  proof (rule triple_if, rule triple_give, simp, rule triple_andThen)
    assume "\<not> coMaxRuns (erContract run) \<le> erRuns run"
    then show "triple (\<lambda>s. ?I s \<and> mtRun s = run) (set_run (\<lambda>r. r\<lparr>erRuns := erRuns r + 1\<rparr>)) (\<lambda>_. ?J) (\<lambda>_. ?I)"
      using Cons.prems(1) by (intro tripleI) (auto simp: set_run_def change_def run_inv_def header_def)
  next
    fix x
    show "triple ?J (andThen (attempt (saveRun lib)) (\<lambda>saved. case saved of Inl e \<Rightarrow> give (results, Some e)
        | Inr _ \<Rightarrow> andThen (verify lib (ecCommand c) dir (ecTimeout c)) ?rest)) (\<lambda>_. ?I) (\<lambda>_. ?I)"
      by (rule triple_andThen, rule triple_weaken [OF save], assumption, assumption, blast)
        (auto split: sum.split intro!: triple_give triple_andThen [OF ver] rest)
  qed
  show ?case
    unfolding evaluate.simps
  proof (rule keeps_andThen, rule keeps_attempt, rule ctx_err_keeps, rule triple_sum, rule keeps_give, rule tripleI, goal_cases)
    case (1 stopped x s y t)
    then show ?case using triple_value [OF step [of "mtRun s"], of s] by (simp add: andThen_def inspect_def)
  next
    case (2 stopped x s e t)
    then show ?case using triple_error [OF step [of "mtRun s"], of s] by (simp add: andThen_def inspect_def)
  qed
qed

lemma check_files_keeps: "keeps I (check_files lib dir ps)"
  by (induction ps) (auto intro!: keeps_intros read_world_keeps)

lemma capture_keeps:
  "(\<And>args. ok (Git dir args)) \<Longrightarrow> keeps (run_inv r0 l0 ok) (captureCandidatePatch lib dir base stage)"
  unfolding captureCandidatePatch_def Let_def
  by (intro keeps_intros git_keeps read_world_keeps check_files_keeps) simp_all

subsection \<open>What a run leaves alone\<close>

text \<open>Outside \<open>set_run\<close>, a step changes only the count of verifier runs, adds to the log, and proposes nothing.\<close>

definition frame :: "'w maint \<Rightarrow> 'w maint \<Rightarrow> bool" where
  "frame s t \<longleftrightarrow> (\<exists>n. mtRun t = (mtRun s)\<lparr>erRuns := n\<rparr>) \<and> (\<exists>x. mtLog t = mtLog s @ x) \<and> proposals (mtLog t) = proposals (mtLog s)"

lemma frame_refl [simp]: "frame s s"
  by (auto simp: frame_def intro: exI [of _ "erRuns (mtRun s)"])

definition quiet :: "('w maint, 'a) act \<Rightarrow> bool" where
  "quiet m \<longleftrightarrow> (\<forall>s0. keeps (frame s0) m)"

definition stable :: "('w maint \<Rightarrow> bool) \<Rightarrow> bool" where
  "stable P \<longleftrightarrow> (\<forall>s t. P s \<longrightarrow> frame s t \<longrightarrow> P t)"

lemma frame_trans: "frame s t \<Longrightarrow> frame t u \<Longrightarrow> frame s u"
  by (auto simp: frame_def)

lemma quietI: "(\<And>s. frame s (snd (m s))) \<Longrightarrow> quiet m"
  unfolding quiet_def by (intro allI tripleI) (metis frame_trans snd_conv)+

lemma quiet_frame: "quiet m \<Longrightarrow> frame s (snd (m s))"
  using triple_either [of "frame s" m "frame s" s] by (simp add: quiet_def)

lemma quiet_keeps: "quiet m \<Longrightarrow> stable P \<Longrightarrow> keeps P m"
  by (rule tripleI) (metis quiet_frame snd_conv stable_def)+

lemma frame_ask: "verifs [a] = verifs [a] \<Longrightarrow> proposals [a] = [] \<Longrightarrow> frame s (s\<lparr>mtWorld := w, mtLog := mtLog s @ [a]\<rparr>)"
  by (auto simp: frame_def intro: exI [of _ "erRuns (mtRun s)"])

lemma quiet_git: "quiet (git lib d args)"
  by (rule quietI) (auto simp: git_def split: prod.split intro!: frame_ask)

lemma quiet_verify: "quiet (verify lib c d t)"
  by (rule quietI) (auto simp: verify_def split: prod.split intro!: frame_ask)

lemma quiet_replace_file: "quiet (replace_file lib p b)"
  by (rule quietI) (auto simp: replace_file_def split: prod.split intro!: frame_ask)

lemma quiet_saveRun: "quiet (saveRun lib)"
  by (rule quietI) (auto simp: saveRun_def split: prod.split sum.split intro!: frame_ask)

lemma quiet_count: "quiet (set_run (\<lambda>r. r\<lparr>erRuns := f r\<rparr>))"
  by (rule quietI) (auto simp: set_run_def change_def frame_def)

lemma quiet_read: "quiet (\<lambda>s. given (g s) s)" and quiet_ctx_err: "quiet (ctx_err lib)"
  by (rule quietI; auto simp: given_def ctx_err_def stop_on_def split: option.split)+

lemma quiet_simple: "quiet (give x)" "quiet (fail e)" "quiet (inspect g)" "quiet (stop_on e')" "quiet (given r)"
  by (simp_all add: quiet_def keeps_give keeps_fail keeps_inspect keeps_stop_on keeps_given)

lemma quiet_andThen: "quiet m \<Longrightarrow> (\<And>x. quiet (f x)) \<Longrightarrow> quiet (andThen m f)"
  and quiet_attempt: "quiet m \<Longrightarrow> quiet (attempt m)"
  by (simp_all add: quiet_def keeps_andThen keeps_attempt)

lemma quiet_cases:
  "(b \<Longrightarrow> quiet m) \<Longrightarrow> (\<not> b \<Longrightarrow> quiet n) \<Longrightarrow> quiet (if b then m else n)"
  "(\<And>x. c = Inl x \<Longrightarrow> quiet (g x)) \<Longrightarrow> (\<And>x. c = Inr x \<Longrightarrow> quiet (h x)) \<Longrightarrow> quiet (case c of Inl x \<Rightarrow> g x | Inr x \<Rightarrow> h x)"
  "(\<And>a b. p = (a, b) \<Longrightarrow> quiet (k a b)) \<Longrightarrow> quiet (case p of (a, b) \<Rightarrow> k a b)"
  "(q = None \<Longrightarrow> quiet m) \<Longrightarrow> (\<And>x. q = Some x \<Longrightarrow> quiet (l x)) \<Longrightarrow> quiet (case q of None \<Rightarrow> m | Some x \<Rightarrow> l x)"
  by (auto split: sum.split prod.split option.split)

lemmas quiet_intros = quiet_simple quiet_andThen quiet_attempt quiet_cases quiet_git quiet_verify quiet_replace_file quiet_saveRun quiet_read quiet_ctx_err

lemma quiet_evaluate: "quiet (evaluate lib dir cs results)"
proof (induction cs arbitrary: results)
  case Nil
  then show ?case by (simp add: quiet_simple)
next
  case (Cons c cs)
  show ?case unfolding evaluate.simps by (intro quiet_intros quiet_count Cons.IH)
qed

lemma quiet_check_files: "quiet (check_files lib dir ps)"
  by (induction ps) (auto intro!: quiet_intros)

lemma quiet_capture: "quiet (captureCandidatePatch lib dir base stage)"
  unfolding captureCandidatePatch_def Let_def by (intro quiet_intros quiet_check_files)

lemma quiet_add_worktree: "quiet (add_worktree lib d p base)" and quiet_apply_patch: "quiet (apply_patch lib d p)"
  by (simp_all add: add_worktree_def apply_patch_def quiet_intros)

lemmas quiet_steps = quiet_intros quiet_evaluate quiet_capture quiet_add_worktree quiet_apply_patch

text \<open>A measurement without error has one result for every case, in their order.\<close>

lemma evaluate_whole:
  "triple (\<lambda>_. True) (evaluate lib dir cs results) (\<lambda>(rs, e) _. e = None \<longrightarrow> map rsID rs = map rsID results @ map ecID cs) (\<lambda>_ _. True)"
proof (induction cs arbitrary: results)
  case Nil
  then show ?case by (simp add: triple_def give_def)
next
  case (Cons c cs)
  have rest: "triple (\<lambda>_. True) (case case_outcome c r of (result, Some e) \<Rightarrow> give (results @ [result], Some e)
      | (result, None) \<Rightarrow> evaluate lib dir cs (results @ [result])) (\<lambda>(rs, e) _. e = None \<longrightarrow> map rsID rs = map rsID results @ map ecID (c # cs)) (\<lambda>_ _. True)" for r
  proof -
    obtain result e where r: "case_outcome c r = (result, e)" by (cases "case_outcome c r")
    then have "rsID result = ecID c" by (auto simp: case_outcome_def Let_def split: prod.splits)
    then show ?thesis using r by (cases e) (auto intro!: triple_give triple_weaken [OF Cons.IH])
  qed
  have any: "triple (\<lambda>_. True) m (\<lambda>_ _. True) (\<lambda>_ _. True)" for m :: "('b maint, 'c) act"
    by (rule tripleI) auto
  show ?case
    unfolding evaluate.simps
    by (rule triple_andThen [OF any], rule triple_sum, rule triple_give, simp, rule triple_andThen [OF any], rule triple_if, rule triple_give, simp,
        rule triple_andThen [OF any], rule triple_andThen [OF any], rule triple_sum, rule triple_give, simp, rule triple_andThen [OF any], rule rest)
qed

subsection \<open>The candidates of a run\<close>

text \<open>What an accepted candidate has shown, against the baseline results \<open>bl\<close> and the contract \<open>c\<close>.\<close>

definition accepted :: "'w maint_lib \<Rightarrow> string \<Rightarrow> contract \<Rightarrow> case_result list \<Rightarrow> asked list \<Rightarrow> candidate \<Rightarrow> bool" where
  "accepted lib dir c bl l cd \<longleftrightarrow>
     improves bl (cdTrain cd) \<and> cdPatchPath cd = Join [dir, cdID cd, ''candidate.patch''] \<and> allowedChanges (cdPaths cd) c = None \<and>
     (\<exists>patch. Replaced_file (cdPatchPath cd) patch \<in> set l \<and> mlDigest lib patch = cdDigest cd)"

definition cands_ok :: "'w maint_lib \<Rightarrow> string \<Rightarrow> contract \<Rightarrow> case_result list \<Rightarrow> asked list \<Rightarrow> nat \<Rightarrow> candidate list \<Rightarrow> nat option \<Rightarrow> bool" where
  "cands_ok lib dir c bl l index cs best \<longleftrightarrow>
     distinct (map cdID cs) \<and> (\<forall>cd \<in> set cs. (\<exists>n. 1 \<le> n \<and> n < index \<and> cdID cd = candidate_id n) \<and>
        (cdStatus cd = ''train_accepted'' \<longrightarrow> accepted lib dir c bl l cd)) \<and>
     (case best of
        None \<Rightarrow> \<forall>cd \<in> set cs. cdStatus cd \<noteq> ''train_accepted''
      | Some b \<Rightarrow> b < length cs \<and> cdStatus (cs ! b) = ''train_accepted'' \<and>
          (\<forall>cd \<in> set cs. cdStatus cd = ''train_accepted'' \<longrightarrow> passCount (cdTrain cd) \<le> passCount (cdTrain (cs ! b))))"

lemma accepted_mono: "accepted lib dir c bl l cd \<Longrightarrow> accepted lib dir c bl (l @ x) cd"
  by (auto simp: accepted_def)

lemma cands_ok_mono: "cands_ok lib dir c bl l index cs best \<Longrightarrow> cands_ok lib dir c bl (l @ x) index cs best"
  unfolding cands_ok_def by (simp add: accepted_mono)

lemma cands_ok_next: "cands_ok lib dir c bl l index cs best \<Longrightarrow> cands_ok lib dir c bl l (Suc index) cs best"
  unfolding cands_ok_def by (meson less_SucI)

lemma candidate_ids: "distinct (map candidate_id [1..<21])" "list_all regexpCandidate (map candidate_id [1..<21])"
  by code_simp+

lemma candidate_id_inj: "1 \<le> m \<Longrightarrow> m \<le> 20 \<Longrightarrow> 1 \<le> n \<Longrightarrow> n \<le> 20 \<Longrightarrow> candidate_id m = candidate_id n \<Longrightarrow> m = n"
  using candidate_ids(1) inj_onD [of candidate_id "set [1..<21]" m n] by (simp add: distinct_map)

lemma candidate_id_ok: "1 \<le> n \<Longrightarrow> n \<le> 20 \<Longrightarrow> regexpCandidate (candidate_id n)"
  using candidate_ids(2) by (auto simp: list_all_iff)

lemma candidate_id_not_Nil [simp]: "candidate_id n \<noteq> ''''"
  by (simp add: candidate_id_def)

lemma cands_ok_snoc:
  assumes "cands_ok lib dir c bl l index cs best" "1 \<le> index" "index \<le> 20" "cdID cd = candidate_id index"
    "cdStatus cd = ''train_accepted'' \<Longrightarrow> accepted lib dir c bl l cd"
    "cdStatus cd = ''train_accepted'' \<Longrightarrow> best' = (case best of None \<Rightarrow> Some (length cs) | Some b \<Rightarrow> if passCount (cdTrain (cs ! b)) < passCount (cdTrain cd) then Some (length cs) else best)"
    "cdStatus cd \<noteq> ''train_accepted'' \<Longrightarrow> best' = best"
  shows "cands_ok lib dir c bl l (Suc index) (cs @ [cd]) best'"
proof -
  have fresh: "cdID cd \<notin> cdID ` set cs"
  proof
    assume "cdID cd \<in> cdID ` set cs"
    then obtain old where "old \<in> set cs" "cdID old = cdID cd" by auto
    then obtain n where "1 \<le> n" "n < index" "candidate_id n = candidate_id index"
      using assms(1,4) unfolding cands_ok_def by metis
    then show False using candidate_id_inj [of n index] assms(2,3) by auto
  qed
  have ids: "\<forall>x \<in> set (cs @ [cd]). \<exists>n. 1 \<le> n \<and> n < Suc index \<and> cdID x = candidate_id n"
  proof
    fix x assume "x \<in> set (cs @ [cd])"
    then show "\<exists>n. 1 \<le> n \<and> n < Suc index \<and> cdID x = candidate_id n"
    proof (cases "x = cd")
      case True
      then show ?thesis using assms(2,4) by (intro exI [of _ index]) simp
    next
      case False
      then have "x \<in> set cs" using \<open>x \<in> set (cs @ [cd])\<close> by simp
      then show ?thesis using assms(1) less_SucI unfolding cands_ok_def by blast
    qed
  qed
  have acc: "\<forall>x \<in> set (cs @ [cd]). cdStatus x = ''train_accepted'' \<longrightarrow> accepted lib dir c bl l x"
    using assms(1,5) unfolding cands_ok_def by auto
  have "case best' of None \<Rightarrow> \<forall>x \<in> set (cs @ [cd]). cdStatus x \<noteq> ''train_accepted''
      | Some b \<Rightarrow> b < length (cs @ [cd]) \<and> cdStatus ((cs @ [cd]) ! b) = ''train_accepted'' \<and>
          (\<forall>x \<in> set (cs @ [cd]). cdStatus x = ''train_accepted'' \<longrightarrow> passCount (cdTrain x) \<le> passCount (cdTrain ((cs @ [cd]) ! b)))"
  proof (cases "cdStatus cd = ''train_accepted''")
    case True
    show ?thesis
    proof (cases best)
      case None
      then show ?thesis using assms(1) assms(6) [OF True] True unfolding cands_ok_def by simp
    next
      case (Some b)
      then have b: "b < length cs" "cdStatus (cs ! b) = ''train_accepted''"
        "\<forall>x \<in> set cs. cdStatus x = ''train_accepted'' \<longrightarrow> passCount (cdTrain x) \<le> passCount (cdTrain (cs ! b))"
        using assms(1) unfolding cands_ok_def by simp_all
      show ?thesis
      proof (cases "passCount (cdTrain (cs ! b)) < passCount (cdTrain cd)")
        case better: True
        then have "\<forall>x \<in> set cs. cdStatus x = ''train_accepted'' \<longrightarrow> passCount (cdTrain x) \<le> passCount (cdTrain cd)"
          using b(3) by (meson le_less_trans less_imp_le)
        then show ?thesis using assms(6) [OF True] Some better True by simp
      next
        case False
        then show ?thesis using assms(6) [OF True] Some b by (auto simp: nth_append)
      qed
    qed
  next
    case False
    show ?thesis using assms(1,7) False unfolding cands_ok_def by (cases best) (auto simp: nth_append)
  qed
  with fresh ids acc assms(1) show ?thesis unfolding cands_ok_def by simp
qed

text \<open>The state before a pass of the loop; \<open>r1\<close> is the record after the baseline.\<close>

definition held :: "'w maint_lib \<Rightarrow> evolution \<Rightarrow> nat \<Rightarrow> candidate list \<Rightarrow> nat option \<Rightarrow> 'w maint \<Rightarrow> bool" where
  "held lib r1 index extra best s \<longleftrightarrow>
     header r1 (mtRun s) \<and> erBaseline (mtRun s) = erBaseline r1 \<and> erStatus (mtRun s) \<noteq> ''candidate_ready'' \<and>
     (\<exists>cs. erCandidates (mtRun s) = cs @ extra \<and>
       cands_ok lib (run_dir r1) (erContract r1) (erBaseline r1) (mtLog s) index cs best)"

abbreviation not_ready :: "'w maint \<Rightarrow> bool" where
  "not_ready s \<equiv> erStatus (mtRun s) \<noteq> ''candidate_ready''"

lemma stable_held: "stable (held lib r1 index extra best)"
  unfolding stable_def
proof (intro allI impI)
  fix s t
  assume h: "held lib r1 index extra best s" and "frame s t"
  then obtain n x where t: "mtRun t = (mtRun s)\<lparr>erRuns := n\<rparr>" "mtLog t = mtLog s @ x" unfolding frame_def by auto
  show "held lib r1 index extra best t"
    using h t(1) by (auto simp: held_def t(2) header_def intro: cands_ok_mono)
qed

lemma held_not_ready: "held lib r1 index extra best s \<Longrightarrow> not_ready s"
  by (simp add: held_def)

lemma quiet_held:
  assumes "quiet m"
  shows "triple (held lib r1 index extra best) m (\<lambda>_. held lib r1 index extra best) (\<lambda>_. not_ready)"
  by (rule triple_weaken [OF quiet_keeps [OF assms stable_held]]) (auto simp: held_not_ready)

lemma held_step:
  "quiet m \<Longrightarrow> (\<And>x. triple (held lib r1 index extra best) (f x) Q (\<lambda>_. not_ready)) \<Longrightarrow>
   triple (held lib r1 index extra best) (andThen m f) Q (\<lambda>_. not_ready)"
  by (rule triple_andThen [OF quiet_held])

lemma stable_conj: "stable P \<Longrightarrow> stable Q \<Longrightarrow> stable (\<lambda>s. P s \<and> Q s)"
  unfolding stable_def by blast

lemma stable_asked: "stable (\<lambda>s. a \<in> set (mtLog s))" and stable_count: "stable (\<lambda>s. g (erCandidates (mtRun s)))"
  by (auto simp: stable_def frame_def)

lemma triple_drop: "triple P m Q E \<Longrightarrow> triple (\<lambda>s. P s \<and> R s) m Q E"
  by (auto simp: triple_def)

text \<open>A quiet step under any stable predicate that implies \<open>not_ready\<close>.\<close>

lemma quiet_then:
  assumes "stable P" "\<And>s. P s \<Longrightarrow> not_ready s" "quiet m" "\<And>x. triple P (f x) Q (\<lambda>_. not_ready)"
  shows "triple P (andThen m f) Q (\<lambda>_. not_ready)"
  by (rule triple_andThen [where R = "\<lambda>_. P"], rule triple_weaken [OF quiet_keeps [OF assms(3,1)]]) (use assms in auto)

lemma judge_candidate_cases:
  assumes "judge_candidate lib run measured c ci best = (c', best')" "cdStatus c = ''training''"
  obtains (accept) "c' = c\<lparr>cdStatus := ''train_accepted''\<rparr>" "improves (erBaseline run) (cdTrain c)"
      "best' = (case best of None \<Rightarrow> Some ci | Some b \<Rightarrow> if passCount (cdTrain (erCandidates run ! b)) < passCount (cdTrain c) then Some ci else best)"
    | (reject) e where "c' = c\<lparr>cdStatus := ''rejected'', cdError := e\<rparr>" "best' = best"
  using assms by (auto simp: judge_candidate_def split: if_splits)

lemma put_judged:
  assumes s: "held lib r1 index [c2] best s" "Replaced_file (cdPatchPath c) patch \<in> set (mtLog s)" "length (erCandidates (mtRun s)) - 1 = ci"
    and c: "1 \<le> index" "index \<le> 20" "cdID c = candidate_id index" "cdStatus c = ''training''" "mlDigest lib patch = cdDigest c"
      "allowedChanges (cdPaths c) (erContract r1) = None"
      "cdPatchPath c = Join [run_dir r1, cdID c, ''candidate.patch'']"
    and judged: "judge_candidate lib (mtRun s) measured c ci best = (c', best')"
    and t: "put_candidate ci c' s = (Inr u, t)"
  shows "held lib r1 (Suc index) [] best' t"
proof -
  let ?dir = "run_dir r1"
  from s(1) obtain cs where cs: "erCandidates (mtRun s) = cs @ [c2]"
    "cands_ok lib ?dir (erContract r1) (erBaseline r1) (mtLog s) index cs best" unfolding held_def by blast
  from cs(1) s(3) have ci: "ci = length cs" by simp
  have "cands_ok lib ?dir (erContract r1) (erBaseline r1) (mtLog s) (Suc index) (cs @ [c']) best'"
    using judged c(4)
  proof (cases rule: judge_candidate_cases)
    case accept
    have "accepted lib ?dir (erContract r1) (erBaseline r1) (mtLog s) c'"
      using accept(1,2) s c unfolding accepted_def held_def by auto
    moreover have "best' = (case best of None \<Rightarrow> Some (length cs) | Some b \<Rightarrow> if passCount (cdTrain (cs ! b)) < passCount (cdTrain c') then Some (length cs) else best)"
      using accept(1,3) cs ci by (cases best) (auto simp: cands_ok_def nth_append)
    ultimately show ?thesis
      by (intro cands_ok_snoc [OF cs(2) c(1,2)]) (use accept(1) c(3) in auto)
  next
    case (reject e)
    then show ?thesis by (intro cands_ok_snoc [OF cs(2) c(1,2)]) (use c(3) in auto)
  qed
  then show ?thesis using s(1) cs(1) ci t
    by (auto simp: held_def put_candidate_def set_run_def change_def header_def)
qed

lemma add_candidate_held:
  "triple (held lib r1 index [] best) (add_candidate c) (\<lambda>_. held lib r1 index [c] best) (\<lambda>_. not_ready)"
  by (rule tripleI) (auto simp: add_candidate_def set_run_def change_def held_def header_def)

lemma put_candidate_not_ready: "keeps not_ready (put_candidate ci c)"
  by (rule tripleI) (auto simp: put_candidate_def set_run_def change_def)

text \<open>The state while the candidate \<open>c\<close> is measured.\<close>

definition measuring :: "'w maint_lib \<Rightarrow> evolution \<Rightarrow> nat \<Rightarrow> nat option \<Rightarrow> string \<Rightarrow> candidate \<Rightarrow> nat \<Rightarrow> 'w maint \<Rightarrow> bool" where
  "measuring lib r1 index best patch c ci s \<longleftrightarrow>
     held lib r1 index [c] best s \<and> Replaced_file (cdPatchPath c) patch \<in> set (mtLog s) \<and> length (erCandidates (mtRun s)) - 1 = ci"

lemma stable_measuring: "stable (measuring lib r1 index best patch c ci)"
  unfolding measuring_def by (intro stable_conj stable_held stable_asked stable_count)

lemma measuring_not_ready: "measuring lib r1 index best patch c ci s \<Longrightarrow> not_ready s"
  by (simp add: measuring_def held_def)

lemma measure_candidate_held:
  assumes c: "1 \<le> index" "index \<le> 20" "cdID c = candidate_id index" "cdStatus c = ''training''" "mlDigest lib patch = cdDigest c"
      "allowedChanges (cdPaths c) (erContract r1) = None"
      "cdPatchPath c = Join [run_dir r1, cdID c, ''candidate.patch'']"
  shows "triple (measuring lib r1 index best patch c ci) (measure_candidate lib run0 c ci best) (held lib r1 (Suc index) []) (\<lambda>_. not_ready)"
proof -
  let ?P = "measuring lib r1 index best patch c ci"
  have put: "triple (\<lambda>s. ?P s \<and> mtRun s = run) (put_candidate ci c4) (\<lambda>_. held lib r1 (Suc index) [] best') (\<lambda>_. not_ready)"
    if "judge_candidate lib run measured (c\<lparr>cdTrain := results\<rparr>) ci best = (c4, best')" for run measured results c4 best'
  proof (rule tripleI, goal_cases)
    case (1 s x t)
    show ?case
      by (rule put_judged [of lib r1 index c best s "c\<lparr>cdTrain := results\<rparr>" patch ci measured c4 best' x t])
        (use 1 that c in \<open>auto simp: measuring_def\<close>)
  next
    case (2 s e t)
    then show ?case by (simp add: put_candidate_def set_run_def change_def)
  qed
  have judged: "triple (\<lambda>s. ?P s \<and> mtRun s = run) (case judge_candidate lib run measured (c\<lparr>cdTrain := results\<rparr>) ci best of
      (c', best') \<Rightarrow> andThen (put_candidate ci c') (\<lambda>_. andThen (saveRun lib) (\<lambda>_. give best'))) (held lib r1 (Suc index) []) (\<lambda>_. not_ready)"
    for run measured results
    by (rule triple_pair, rule triple_andThen [OF put], assumption, rule held_step [OF quiet_saveRun], rule triple_give)
  have whole: "quiet (attempt (capturePatch lib (cdTrainPath c) base))" for base
    unfolding capturePatch_def by (intro quiet_steps)
  show ?thesis
    unfolding measure_candidate_def
    by (rule quiet_then [OF stable_measuring measuring_not_ready quiet_evaluate], assumption, rule triple_pair, rule triple_option,
        rule quiet_then [OF stable_measuring measuring_not_ready whole], assumption, rule triple_inspect_then, rule judged,
        rule triple_andThen [where R = "\<lambda>_. not_ready"], rule triple_weaken [OF put_candidate_not_ready])
      (auto simp: measuring_not_ready intro: triple_fail)
qed

lemma train_candidate_held:
  assumes c0: "c0 = new_candidate (run_dir r1) (candidate_id index)"
    and i: "1 \<le> index" "index \<le> 20" and allowed: "allowedChanges paths (erContract r1) = None"
  shows "triple (held lib r1 index [] best) (train_candidate lib c0 patch paths best) (held lib r1 (Suc index) []) (\<lambda>_. not_ready)"
proof -
  define c where "c = c0\<lparr>cdDigest := mlDigest lib patch, cdPaths := paths, cdStatus := ''training''\<rparr>"
  let ?asked = "\<lambda>s. Replaced_file (cdPatchPath c) patch \<in> set (mtLog s)"
  let ?A = "\<lambda>s. held lib r1 index [] best s \<and> ?asked s"
  let ?B = "\<lambda>s. held lib r1 index [c] best s \<and> ?asked s"
  have stA: "stable ?A" and stB: "stable ?B" by (intro stable_conj stable_held stable_asked)+
  have nrA: "?A s \<Longrightarrow> not_ready s" for s by (simp add: held_def)
  have facts: "cdID c = candidate_id index" "cdStatus c = ''training''" "mlDigest lib patch = cdDigest c" "allowedChanges (cdPaths c) (erContract r1) = None"
    "cdPatchPath c = Join [run_dir r1, cdID c, ''candidate.patch'']"
    unfolding c_def c0 new_candidate_def using allowed by simp_all
  have replace: "triple (held lib r1 index [] best) (replace_file lib (cdPatchPath c) patch) (\<lambda>_. ?A) (\<lambda>_. not_ready)"
  proof (rule tripleI, goal_cases)
    case (1 s x t)
    then have "held lib r1 index [] best t" using triple_value [OF quiet_held [OF quiet_replace_file]] by blast
    with 1 show ?case by (auto simp: replace_file_def split: prod.splits)
  next
    case (2 s e t)
    then show ?case using triple_error [OF quiet_held [OF quiet_replace_file]] by blast
  qed
  have add: "triple ?A (add_candidate c) (\<lambda>_. ?B) (\<lambda>_. not_ready)"
    using add_candidate_held [of lib r1 index best c] by (auto simp: triple_def add_candidate_def set_run_def change_def)
  have last: "triple (\<lambda>s. ?B s \<and> length (erCandidates (mtRun s)) - 1 = ci) (andThen (saveRun lib) (\<lambda>_. measure_candidate lib run0 c ci best))
      (held lib r1 (Suc index) []) (\<lambda>_. not_ready)" for ci run0
    by (rule triple_weaken [OF quiet_then [OF stable_measuring measuring_not_ready quiet_saveRun measure_candidate_held [OF i facts]]])
      (auto simp: measuring_def)
  show ?thesis
    unfolding train_candidate_def Let_def c_def [symmetric]
    by (rule triple_inspect_then, rule triple_drop, rule triple_andThen [OF replace],
        rule quiet_then [OF stA nrA quiet_add_worktree], assumption, rule quiet_then [OF stA nrA quiet_apply_patch], assumption,
        rule triple_andThen [OF add], rule triple_inspect_then, rule last)
qed

lemma held_inspect:
  assumes "\<And>run. header r1 run \<Longrightarrow> triple (held lib r1 index extra best) (f run) Q E"
  shows "triple (held lib r1 index extra best) (andThen (inspect mtRun) f) Q E"
proof (rule triple_inspect_then, rule triple_pure)
  show "header r1 run" if "held lib r1 index extra best s \<and> mtRun s = run" for run s
    using that by (auto simp: held_def)
qed (rule triple_drop, rule assms)

lemma reject_candidate_held:
  assumes "c = new_candidate (run_dir r1) (candidate_id index)" "1 \<le> index" "index \<le> 20" "status \<noteq> ''train_accepted''"
  shows "triple (held lib r1 index [] best) (reject_candidate lib c status e) (\<lambda>_. held lib r1 (Suc index) [] best) (\<lambda>_. not_ready)"
proof -
  have add: "triple (held lib r1 index [] best) (add_candidate (c\<lparr>cdStatus := status, cdError := Error e\<rparr>)) (\<lambda>_. held lib r1 (Suc index) [] best) (\<lambda>_. not_ready)"
    using assms by (intro tripleI) (auto simp: add_candidate_def set_run_def change_def held_def header_def new_candidate_def intro!: cands_ok_snoc)
  show ?thesis unfolding reject_candidate_def
    by (rule triple_andThen [OF add], rule quiet_held [OF quiet_saveRun])
qed

text \<open>After a pass: the loop goes on with the next index, or has ended without another candidate.\<close>

definition after_pass :: "'w maint_lib \<Rightarrow> evolution \<Rightarrow> nat \<Rightarrow> nat option \<Rightarrow> turn \<Rightarrow> 'w maint \<Rightarrow> bool" where
  "after_pass lib r1 index best t s \<longleftrightarrow> (case t of Break \<Rightarrow> held lib r1 index [] best s | Continue best' \<Rightarrow> held lib r1 (Suc index) [] best' s)"

lemma propose_held:
  "triple (held lib r1 index [] best) (propose lib i) (\<lambda>_. held lib r1 index [] best) (\<lambda>_. not_ready)"
  by (rule tripleI) (auto simp: propose_def held_def header_def split: prod.splits intro: cands_ok_mono)

lemma after_answer_held:
  assumes c: "c = new_candidate (run_dir r1) (candidate_id index)" and i: "1 \<le> index" "index \<le> 20" and run: "erContract run = erContract r1"
  shows "triple (held lib r1 index [] best) (after_answer lib run c best answer) (after_pass lib r1 index best) (\<lambda>_. not_ready)"
proof -
  let ?H = "held lib r1 index [] best"
  have reject: "triple ?H (andThen (reject_candidate lib c status e) (\<lambda>_. give (Continue best))) (after_pass lib r1 index best) (\<lambda>_. not_ready)"
    if "status \<noteq> ''train_accepted''" for status e
    by (rule triple_andThen [OF reject_candidate_held [OF c i that]]) (auto simp: after_pass_def intro: triple_give)
  have train: "triple ?H (andThen (train_candidate lib c patch paths best) (\<lambda>best'. give (Continue best'))) (after_pass lib r1 index best) (\<lambda>_. not_ready)"
    if "allowedChanges paths (erContract r1) = None" for patch paths
    by (rule triple_andThen [OF train_candidate_held [OF c i that]]) (auto simp: after_pass_def intro: triple_give)
  let ?capture = "attempt (andThen (capturePatch lib (cdEditPath c) (erBase run)) (\<lambda>(patch, paths).
      andThen (stop_on (allowedChanges paths (erContract run))) (\<lambda>_. give (patch, paths))))"
  let ?R = "\<lambda>r s. ?H s \<and> (case r of Inl e \<Rightarrow> True | Inr (patch, paths) \<Rightarrow> allowedChanges paths (erContract run) = None)"
  have captured: "triple ?H ?capture ?R (\<lambda>_. not_ready)"
  proof (rule triple_attempt, rule triple_andThen [where R = "\<lambda>_. ?H"])
    show "triple ?H (capturePatch lib (cdEditPath c) (erBase run)) (\<lambda>_. ?H) (\<lambda>e. ?R (Inl e))"
      by (rule triple_weaken [OF quiet_keeps [OF _ stable_held]]) (auto simp: capturePatch_def quiet_steps)
    show "triple ?H (case x of (patch, paths) \<Rightarrow> andThen (stop_on (allowedChanges paths (erContract run))) (\<lambda>_. give (patch, paths)))
       (\<lambda>x. ?R (Inr x)) (\<lambda>e. ?R (Inl e))" for x
      by (cases x) (auto simp: triple_def andThen_def stop_on_def give_def split: option.splits)
  qed
  show ?thesis
  proof (cases answer)
    case None
    show ?thesis unfolding after_answer_def None option.case
    proof (rule triple_andThen [OF captured], goal_cases)
      case (1 r)
      show ?case
      proof (cases r)
        case (Inl e)
        then show ?thesis using reject [of "''rejected''" e] by simp
      next
        case (Inr p)
        then show ?thesis using run train by (cases p) (auto intro: triple_pure)
      qed
    qed
  next
    case (Some e)
    show ?thesis unfolding after_answer_def Some option.case
      by (rule triple_if, rule triple_give, simp add: after_pass_def, rule reject, simp)
  qed
qed

lemma try_candidate_held:
  assumes "1 \<le> index" "index \<le> 20"
  shows "triple (held lib r1 index [] best) (try_candidate lib (run_dir r1) request index best) (after_pass lib r1 index best) (\<lambda>_. not_ready)"
  unfolding try_candidate_def Let_def
  by (rule held_step [OF quiet_ctx_err], rule held_inspect, rule held_step [OF quiet_add_worktree], rule triple_andThen [OF propose_held],
      rule after_answer_held [OF refl assms]) (simp add: header_def)

lemma candidate_loop_held:
  "1 \<le> index \<Longrightarrow> index + left \<le> 21 \<Longrightarrow>
   triple (held lib r1 index [] best) (candidate_loop lib (run_dir r1) request left index best) (\<lambda>best' s. \<exists>n. held lib r1 n [] best' s \<and> n \<le> 21) (\<lambda>_. not_ready)"
proof (induction left arbitrary: index best)
  case 0
  then show ?case by (auto intro!: triple_give exI [of _ index])
next
  case (Suc left)
  have pass: "triple (after_pass lib r1 index best t) (case t of Break \<Rightarrow> give best | Continue best' \<Rightarrow> candidate_loop lib (run_dir r1) request left (Suc index) best')
     (\<lambda>best' s. \<exists>n. held lib r1 n [] best' s \<and> n \<le> 21) (\<lambda>_. not_ready)" for t
  proof (cases t)
    case Break
    then show ?thesis using Suc.prems by (auto simp: after_pass_def intro!: triple_give exI [of _ index])
  next
    case (Continue best')
    then show ?thesis using Suc.IH [of "Suc index" best'] Suc.prems by (simp add: triple_def after_pass_def)
  qed
  show ?case using Suc.prems by (simp) (rule triple_andThen [OF try_candidate_held], auto intro: pass)
qed

subsection \<open>A ready candidate\<close>

text \<open>
  What a record with the status \<open>candidate_ready\<close> stands for: the check that every activation makes of it succeeds, and the candidate it
  names is the best of those that improved on the baseline with allowed changes only, under the digest of a patch that was stored.
\<close>

definition earned :: "'w maint_lib \<Rightarrow> asked list \<Rightarrow> evolution \<Rightarrow> bool" where
  "earned lib l r \<longleftrightarrow>
     (\<exists>w. check_record r = Inr w \<and> w \<in> set (erCandidates r) \<and> accepted lib (run_dir r) (erContract r) (erBaseline r) l w \<and>
          (\<forall>c \<in> set (erCandidates r). cdStatus c = ''train_accepted'' \<longrightarrow> passCount (cdTrain c) \<le> passCount (cdTrain w)))"

lemma digits_no_slash: "digits n s \<Longrightarrow> slash \<notin> set s" and hex_no_slash: "lower_hex n s \<Longrightarrow> slash \<notin> set s"
  by (auto simp: digits_def lower_hex_def slash_def list_all_iff dest!: bspec)

lemma runIDPattern_plain:
  assumes "runIDPattern s"
  shows "plain s"
proof -
  have len: "length s = 38" using assms by (simp add: runIDPattern_def)
  have cut: "drop n s = take k (drop n s) @ drop (k + n) s" for n k by (metis append_take_drop_id drop_drop)
  have one: "n < 38 \<Longrightarrow> drop n s = s ! n # drop (Suc n) s" for n using len by (simp add: Cons_nth_drop_Suc)
  have "s = take 7 s @ take 8 (drop 7 s) @ s ! 15 # take 6 (drop 16 s) @ s ! 22 # take 6 (drop 23 s) @ s ! 29 # drop 30 s"
    using cut [of 0 7] cut [of 7 8] one [of 15] cut [of 16 6] one [of 22] cut [of 23 6] one [of 29] by simp
  then have "set s = set (take 7 s) \<union> set (take 8 (drop 7 s)) \<union> {s ! 15} \<union> set (take 6 (drop 16 s)) \<union> {s ! 22} \<union> set (take 6 (drop 23 s)) \<union> {s ! 29} \<union> set (drop 30 s)"
    by (metis (no_types, lifting) Un_assoc Un_insert_left insert_is_Un list.simps(15) set_append)
  moreover have "slash \<notin> set (take 7 s)" "slash \<noteq> s ! 15" "slash \<noteq> s ! 22" "slash \<noteq> s ! 29"
    "slash \<notin> set (take 8 (drop 7 s))" "slash \<notin> set (take 6 (drop 16 s))" "slash \<notin> set (take 6 (drop 23 s))" "slash \<notin> set (drop 30 s)"
    using assms by (auto simp: runIDPattern_def slash_def dest: digits_no_slash [unfolded slash_def] hex_no_slash [unfolded slash_def])
  ultimately have "slash \<notin> set s" by blast
  with len show ?thesis by (auto simp: plain_def)
qed

lemma candidate_ids_plain: "list_all plain (map candidate_id [1..<21])"
  by code_simp

lemma candidate_id_plain: "1 \<le> n \<Longrightarrow> n \<le> 20 \<Longrightarrow> plain (candidate_id n)"
  using candidate_ids_plain by (auto simp: list_all_iff)

definition rooted_run :: "evolution \<Rightarrow> bool" where
  "rooted_run r \<longleftrightarrow> (\<exists>ps. erRoot r = abs_path ps \<and> (\<forall>p \<in> set ps. plain p)) \<and> plain (erID r)"

lemma metadata_plain: "plain ''.pico''" "plain ''maintenance''" "plain ''validated''" "plain ''candidate.patch''"
  by (simp_all add: plain_def slash_def)

lemma run_paths:
  assumes "rooted_run r"
  shows "Clean (Join [run_dir r, ''validated'']) = Join [erRoot r, ''.pico'', ''maintenance'', erID r, ''validated'']"
    and "plain cid \<Longrightarrow> Join [run_dir r, cid, ''candidate.patch''] = Join [erRoot r, ''.pico'', ''maintenance'', erID r, cid, ''candidate.patch'']"
proof -
  from assms obtain ps where ps: "erRoot r = abs_path ps" "\<forall>p \<in> set ps. plain p" and id: "plain (erID r)" unfolding rooted_run_def by blast
  have dir: "run_dir r = abs_path (ps @ [''.pico'', ''maintenance'', erID r])" unfolding run_dir_def ps(1) using ps(2) id metadata_plain by (subst Join_abs_path) auto
  show "Clean (Join [run_dir r, ''validated'']) = Join [erRoot r, ''.pico'', ''maintenance'', erID r, ''validated'']"
    unfolding dir ps(1) using ps(2) id metadata_plain by (simp add: Join_abs_path Clean_abs_path ball_Un)
  show "Join [run_dir r, cid, ''candidate.patch''] = Join [erRoot r, ''.pico'', ''maintenance'', erID r, cid, ''candidate.patch'']" if "plain cid"
    unfolding dir ps(1) using ps(2) id metadata_plain that by (simp add: Join_abs_path ball_Un)
qed

lemma find_id: "distinct (map cdID cs) \<Longrightarrow> b < length cs \<Longrightarrow> find (\<lambda>c. cdID c = cdID (cs ! b)) cs = Some (cs ! b)"
proof (induction cs arbitrary: b)
  case (Cons c cs)
  then show ?case by (cases b) auto
qed simp

text \<open>The frozen winner \<open>w\<close>: the state from its selection to the verdict.\<close>

definition frozen :: "'w maint_lib \<Rightarrow> evolution \<Rightarrow> asked list \<Rightarrow> candidate list \<Rightarrow> candidate \<Rightarrow> bool" where
  "frozen lib r1 l cs w \<longleftrightarrow>
     (\<exists>n b. n \<le> 21 \<and> cands_ok lib (run_dir r1) (erContract r1) (erBaseline r1) l n cs (Some b) \<and> w = cs ! b)"

lemma frozen_mono: "frozen lib r1 l cs w \<Longrightarrow> frozen lib r1 (l @ x) cs w"
  unfolding frozen_def by (blast intro: cands_ok_mono)

lemma frozenI: "n \<le> 21 \<Longrightarrow> cands_ok lib (run_dir r1) (erContract r1) (erBaseline r1) l n cs (Some b) \<Longrightarrow> frozen lib r1 l cs (cs ! b)"
  unfolding frozen_def by blast

definition chosen :: "'w maint_lib \<Rightarrow> evolution \<Rightarrow> candidate \<Rightarrow> 'w maint \<Rightarrow> bool" where
  "chosen lib r1 w s \<longleftrightarrow>
     header r1 (mtRun s) \<and> erBaseline (mtRun s) = erBaseline r1 \<and> not_ready s \<and>
     frozen lib r1 (mtLog s) (erCandidates (mtRun s)) w \<and>
     erSelected (mtRun s) = cdID w \<and> erWorktree (mtRun s) = Join [run_dir r1, ''validated'']"

lemma stable_chosen: "stable (chosen lib r1 w)"
  unfolding stable_def by (auto simp: chosen_def frame_def header_def intro: frozen_mono)

lemma stable_validation: "stable (\<lambda>s. erValidation (mtRun s) = results)"
  by (auto simp: stable_def frame_def)

lemma chosen_earned:
  assumes s: "chosen lib r1 w s" and root: "rooted_run r1" and r: "r = (mtRun s)\<lparr>erStatus := ''candidate_ready''\<rparr>"
    and v: "map rsID (erValidation (mtRun s)) = map ecID (coHoldout (erContract r1))"
      "passCount (erValidation (mtRun s)) = length (coHoldout (erContract r1))"
  shows "earned lib (mtLog s) r"
proof -
  let ?cs = "erCandidates (mtRun s)"
  from s obtain n b where n: "n \<le> 21" "cands_ok lib (run_dir r1) (erContract r1) (erBaseline r1) (mtLog s) n ?cs (Some b)" "w = ?cs ! b"
    unfolding chosen_def frozen_def by blast
  have cands: "distinct (map cdID ?cs)" "b < length ?cs" "cdStatus w = ''train_accepted''"
    "\<forall>c \<in> set ?cs. cdStatus c = ''train_accepted'' \<longrightarrow> passCount (cdTrain c) \<le> passCount (cdTrain w)"
    using n(2,3) unfolding cands_ok_def by simp_all
  have w: "w \<in> set ?cs" using cands(2) n(3) by simp
  then obtain k where k: "1 \<le> k" "k < n" "cdID w = candidate_id k" and acc: "accepted lib (run_dir r1) (erContract r1) (erBaseline r1) (mtLog s) w"
    using n(2) cands(3) unfolding cands_ok_def by blast
  have hdr: "erContract r = erContract r1" "erRoot r = erRoot r1" "erID r = erID r1" "erBaseline r = erBaseline r1" "erCandidates r = ?cs"
    "run_dir r = run_dir r1" "erSelected r = cdID w" "erWorktree r = Join [run_dir r1, ''validated'']" "erValidation r = erValidation (mtRun s)" "erStatus r = ''candidate_ready''"
    using s by (auto simp: chosen_def header_def r run_dir_def)
  have len: "length (erValidation (mtRun s)) = length (coHoldout (erContract r1))" using v(1) by (metis length_map)
  have id: "cdID w \<noteq> ''''" "regexpCandidate (cdID w)" "plain (cdID w)"
    using k n(1) candidate_id_ok [of k] candidate_id_plain [of k] by auto
  have patch: "cdPatchPath w = Join [erRoot r1, ''.pico'', ''maintenance'', erID r1, cdID w, ''candidate.patch'']"
    using acc run_paths(2) [OF root id(3)] by (simp add: accepted_def)
  have "check_record r = Inr w"
    unfolding check_record_def hdr using len v id find_id [OF cands(1,2)] cands(3) acc patch run_paths(1) [OF root] n(3)
    by (simp add: accepted_def)
  then show ?thesis using w acc cands(4) hdr unfolding earned_def by (intro exI [of _ w]) simp
qed

lemma select_winner_chosen:
  "triple (\<lambda>s. (\<exists>n \<le> 21. held lib r1 n [] (Some b) s) \<and> erCandidates (mtRun s) ! b = w) (select_winner (run_dir r1) w) (\<lambda>_. chosen lib r1 w) (\<lambda>_. not_ready)"
  by (rule tripleI) (auto simp: select_winner_def set_run_def change_def held_def chosen_def header_def intro: frozenI)

lemma evaluate_chosen:
  "triple (chosen lib r1 w) (evaluate lib dir cases [])
     (\<lambda>x s. chosen lib r1 w s \<and> (snd x = None \<longrightarrow> map rsID (fst x) = map ecID cases)) (\<lambda>_. not_ready)"
  by (rule triple_weaken [OF triple_conj [OF quiet_keeps [OF quiet_evaluate stable_chosen] evaluate_whole]]) (auto simp: chosen_def)

definition verdict_state :: "'w maint_lib \<Rightarrow> 'w maint \<Rightarrow> bool" where
  "verdict_state lib s \<longleftrightarrow> not_ready s \<or> earned lib (mtLog s) (mtRun s)"

lemma verdict_holds:
  assumes root: "rooted_run r1" and c: "coHoldout (erContract run) = coHoldout (erContract r1)" and ids: "map rsID results = map ecID (coHoldout (erContract r1))"
  shows "triple (\<lambda>s. chosen lib r1 w s \<and> erValidation (mtRun s) = results)
     (if P then reject_run m else if passCount results \<noteq> length (coHoldout (erContract run)) then reject_run m' else set_status ''candidate_ready'')
     (\<lambda>_. verdict_state lib) (\<lambda>_. not_ready)"
proof (rule tripleI, goal_cases)
  case (1 s x t)
  show ?case
  proof (cases "P \<or> passCount results \<noteq> length (coHoldout (erContract run))")
    case True
    then have "not_ready t" using 1 by (auto simp: reject_run_def set_run_def change_def split: if_splits)
    then show ?thesis by (simp add: verdict_state_def)
  next
    case False
    then have t: "mtRun t = (mtRun s)\<lparr>erStatus := ''candidate_ready''\<rparr>" "mtLog t = mtLog s"
      using 1 by (auto simp: set_status_def set_run_def change_def)
    from chosen_earned [of lib r1 w s "mtRun t"] 1 False t root ids c show ?thesis by (simp add: verdict_state_def)
  qed
next
  case (2 s e t)
  then show ?case by (auto simp: reject_run_def set_status_def set_run_def change_def split: if_splits)
qed

lemma judge_winner_holds:
  assumes root: "rooted_run r1" and hdr: "header r1 run" and ids: "err = None \<longrightarrow> map rsID results = map ecID (coHoldout (erContract run))"
  shows "triple (chosen lib r1 w) (judge_winner lib run w results err) (\<lambda>_. verdict_state lib) (\<lambda>_. not_ready)"
proof -
  have set: "triple (chosen lib r1 w) (set_run (\<lambda>r. r\<lparr>erValidation := results\<rparr>)) (\<lambda>_ s. chosen lib r1 w s \<and> erValidation (mtRun s) = results) (\<lambda>_. not_ready)"
    by (rule tripleI) (auto simp: set_run_def change_def chosen_def header_def)
  have measured: "quiet (attempt (capturePatch lib (erWorktree run) (erBase run)))" unfolding capturePatch_def by (intro quiet_steps)
  have same: "coHoldout (erContract run) = coHoldout (erContract r1)" using hdr by (simp add: header_def)
  show ?thesis
    unfolding judge_winner_def
  proof (rule triple_andThen [OF set], rule triple_option)
    assume "err = None"
    then show "triple (\<lambda>s. chosen lib r1 w s \<and> erValidation (mtRun s) = results) (andThen (attempt (capturePatch lib (erWorktree run) (erBase run))) (\<lambda>measured.
         if (case measured of Inl e \<Rightarrow> True | Inr (patch, paths) \<Rightarrow> mlDigest lib patch \<noteq> cdDigest w)
         then reject_run ''holdout verifier modified the candidate''
         else if passCount results \<noteq> length (coHoldout (erContract run)) then reject_run ''held-out validation failed''
         else set_status ''candidate_ready'')) (\<lambda>_. verdict_state lib) (\<lambda>_. not_ready)"
      using ids same by (intro quiet_then [OF stable_conj [OF stable_chosen stable_validation] _ measured] verdict_holds root) (auto simp: chosen_def)
  next
    fix e
    show "triple (\<lambda>s. chosen lib r1 w s \<and> erValidation (mtRun s) = results) (andThen (set_status ''validation_inconclusive'') (\<lambda>_. fail e)) (\<lambda>_. verdict_state lib) (\<lambda>_. not_ready)"
      by (rule tripleI) (auto simp: andThen_def set_status_def set_run_def change_def fail_def)
  qed
qed

lemma test_winner_holds:
  assumes root: "rooted_run r1"
  shows "triple (chosen lib r1 w) (test_winner lib w) (\<lambda>_. verdict_state lib) (\<lambda>_. not_ready)"
proof -
  have nr: "chosen lib r1 w s \<Longrightarrow> not_ready s" for s by (simp add: chosen_def)
  have judge: "triple (\<lambda>s. chosen lib r1 w s \<and> (snd x = None \<longrightarrow> map rsID (fst x) = map ecID (coHoldout (erContract run))))
      (case x of (results, err) \<Rightarrow> judge_winner lib run w results err) (\<lambda>_. verdict_state lib) (\<lambda>_. not_ready)" if "header r1 run" for x run
    by (rule triple_pure [where b = "snd x = None \<longrightarrow> map rsID (fst x) = map ecID (coHoldout (erContract run))"], blast, rule triple_drop)
      (cases x, auto intro: judge_winner_holds [OF root that])
  have inspected: "triple (chosen lib r1 w) (andThen (inspect mtRun) f) Q E" if "\<And>run. header r1 run \<Longrightarrow> triple (chosen lib r1 w) (f run) Q E" for f Q E
  proof (rule triple_inspect_then, rule triple_pure)
    show "header r1 run" if "chosen lib r1 w s \<and> mtRun s = run" for run s using that by (auto simp: chosen_def)
  qed (rule triple_drop, rule that)
  note step = quiet_then [OF stable_chosen nr]
  show ?thesis
    unfolding test_winner_def
    by (rule step [OF _ quiet_saveRun], assumption, rule inspected, rule step [OF _ quiet_add_worktree], assumption,
        rule step [OF _ quiet_apply_patch], assumption, rule triple_andThen [OF evaluate_chosen judge])
qed

lemma validate_winner_holds:
  assumes "rooted_run r1"
  shows "triple (\<lambda>s. \<exists>n \<le> 21. held lib r1 n [] (Some b) s) (validate_winner lib (run_dir r1) b) (\<lambda>_. verdict_state lib) (\<lambda>_. not_ready)"
  unfolding validate_winner_def
  by (rule triple_inspect_then, rule triple_andThen [OF select_winner_chosen test_winner_holds [OF assms]])

subsection \<open>The order of a run\<close>

text \<open>The worktrees of a run, by their names below its directory: those for training, those for editing, and the one of the winner.\<close>

definition train_dirs :: "evolution \<Rightarrow> string set" where
  "train_dirs r = insert (Join [run_dir r, ''baseline'']) ((\<lambda>n. Join [run_dir r, candidate_id n, ''train'']) ` {1..20})"

definition edit_dirs :: "evolution \<Rightarrow> string set" where
  "edit_dirs r = (\<lambda>n. Join [run_dir r, candidate_id n, ''edit'']) ` {1..20}"

definition test_dir :: "evolution \<Rightarrow> string" where
  "test_dir r = Join [run_dir r, ''validated'']"

definition patch_files :: "evolution \<Rightarrow> string set" where
  "patch_files r = (\<lambda>n. Join [run_dir r, candidate_id n, ''candidate.patch'']) ` {1..20}"

text \<open>
  What may be asked before the winner is frozen, and after. In the source checkout \<open>git\<close> only resolves the base revision and adds
  worktrees of the run at that revision; everything else runs in those worktrees.
\<close>

definition git_ok :: "evolution \<Rightarrow> string set \<Rightarrow> string \<Rightarrow> string list \<Rightarrow> bool" where
  "git_ok r dirs d args \<longleftrightarrow> d \<in> dirs \<or>
     d = erRoot r \<and> ((\<exists>rest. args = ''rev-parse'' # rest) \<or> (\<exists>p \<in> dirs. args = [''worktree'', ''add'', ''--detach'', p, erBase r]))"

definition train_event :: "evolution \<Rightarrow> asked \<Rightarrow> bool" where
  "train_event r a \<longleftrightarrow>
     (case a of
        Git d args \<Rightarrow> git_ok r (train_dirs r \<union> edit_dirs r) d args
      | Verified c d t \<Rightarrow> d \<in> train_dirs r \<and> (\<exists>v \<in> set (coTrain (erContract r)). c = ecCommand v \<and> t = ecTimeout v)
      | Proposed i \<Rightarrow> piWorktree i = Join [run_dir r, candidate_id (piIndex i), ''edit''] \<and> piTrain i = coTrain (erContract r)
      | Stored r' \<Rightarrow> erSelected r' = ''''
      | Replaced_file f b \<Rightarrow> f \<in> patch_files r)"

definition test_event :: "evolution \<Rightarrow> evolution \<Rightarrow> asked \<Rightarrow> bool" where
  "test_event r sel a \<longleftrightarrow>
     (case a of
        Git d args \<Rightarrow> git_ok r {test_dir r} d args
      | Verified c d t \<Rightarrow> d = test_dir r \<and> (\<exists>v \<in> set (coHoldout (erContract r)). c = ecCommand v \<and> t = ecTimeout v)
      | Stored r' \<Rightarrow> erSelected r' = erSelected sel \<and> erCandidates r' = erCandidates sel
      | _ \<Rightarrow> False)"

text \<open>The record that freezes the winner, and a log that is cut where it is stored.\<close>

definition freezes :: "evolution \<Rightarrow> bool" where
  "freezes r \<longleftrightarrow> erStatus r = ''validating'' \<and> erSelected r \<noteq> '''' \<and>
     (\<exists>w \<in> set (erCandidates r). cdID w = erSelected r \<and> cdStatus w = ''train_accepted'')"

definition run_cut :: "evolution \<Rightarrow> asked list \<Rightarrow> bool" where
  "run_cut r l \<longleftrightarrow> (\<forall>a \<in> set l. train_event r a) \<or>
     (\<exists>pre sel post. l = pre @ Stored sel # post \<and> (\<forall>a \<in> set pre. train_event r a) \<and> freezes sel \<and> (\<forall>a \<in> set post. test_event r sel a))"

text \<open>The places are below the directory of the run, when its identifier and the checkout are those of a run: not the checkout itself.\<close>

lemma run_places_inside:
  assumes "rooted_run r" "d \<in> insert (test_dir r) (train_dirs r \<union> edit_dirs r)"
  shows "\<exists>ps q qs. erRoot r = abs_path ps \<and> run_dir r = abs_path (ps @ [''.pico'', ''maintenance'', erID r]) \<and>
    d = abs_path (ps @ [''.pico'', ''maintenance'', erID r] @ q # qs) \<and> (\<forall>p \<in> set (q # qs). plain p)"
proof -
  obtain ps where ps: "erRoot r = abs_path ps" "\<forall>p \<in> set ps. plain p" and id: "plain (erID r)"
    using assms(1) unfolding rooted_run_def by blast
  let ?base = "ps @ [''.pico'', ''maintenance'', erID r]"
  have dir: "run_dir r = abs_path ?base" unfolding run_dir_def ps(1) using ps(2) id metadata_plain by (subst Join_abs_path) auto
  have names: "plain ''baseline''" "plain ''train''" "plain ''edit''" by (simp_all add: plain_def slash_def)
  obtain q qs where q: "d = Join (run_dir r # q # qs)" "\<forall>p \<in> set (q # qs). plain p"
    using assms(2) names metadata_plain candidate_id_plain by (auto simp: train_dirs_def edit_dirs_def test_dir_def)
  have "d = abs_path (?base @ q # qs)"
    unfolding q(1) dir using ps(2) id metadata_plain q(2) by (subst Join_abs_path) auto
  then show ?thesis using ps(1) dir q(2) by (intro exI [of _ ps] exI [of _ q] exI [of _ qs]) simp
qed

abbreviation train_phase :: "evolution \<Rightarrow> 'w maint \<Rightarrow> bool" where
  "train_phase r0 \<equiv> run_inv r0 [] (train_event r0)"

abbreviation test_phase :: "evolution \<Rightarrow> asked list \<Rightarrow> evolution \<Rightarrow> 'w maint \<Rightarrow> bool" where
  "test_phase r0 l0 sel \<equiv> run_inv r0 l0 (test_event r0 sel)"

lemma train_steps:
  "p \<in> train_dirs r0 \<union> edit_dirs r0 \<Longrightarrow> keeps (train_phase r0) (add_worktree lib (erRoot r0) p (erBase r0))"
  "d \<in> train_dirs r0 \<union> edit_dirs r0 \<Longrightarrow> keeps (train_phase r0) (apply_patch lib d patch)"
  "d \<in> train_dirs r0 \<union> edit_dirs r0 \<Longrightarrow> keeps (train_phase r0) (capturePatch lib d base)"
  "d \<in> train_dirs r0 \<union> edit_dirs r0 \<Longrightarrow> keeps (train_phase r0) (git lib d args)"
  "d \<in> train_dirs r0 \<Longrightarrow> keeps (train_phase r0) (evaluate lib d (coTrain (erContract r0)) results)"
  "f \<in> patch_files r0 \<Longrightarrow> keeps (train_phase r0) (replace_file lib f b)"
  unfolding add_worktree_def apply_patch_def capturePatch_def
  by (auto intro!: keeps_intros git_keeps capture_keeps evaluate_keeps replace_file_keeps simp: train_event_def git_ok_def)

lemma test_steps:
  "keeps (test_phase r0 l0 sel) (add_worktree lib (erRoot r0) (test_dir r0) (erBase r0))"
  "keeps (test_phase r0 l0 sel) (apply_patch lib (test_dir r0) patch)"
  "keeps (test_phase r0 l0 sel) (capturePatch lib (test_dir r0) base)"
  "keeps (test_phase r0 l0 sel) (evaluate lib (test_dir r0) (coHoldout (erContract r0)) results)"
  unfolding add_worktree_def apply_patch_def capturePatch_def
  by (auto intro!: keeps_intros git_keeps capture_keeps evaluate_keeps simp: test_event_def git_ok_def)

lemma set_run_train:
  "keeps (train_phase r0) (add_candidate c)" "keeps (train_phase r0) (put_candidate ci c)" "keeps (train_phase r0) (set_status st)"
  "keeps (train_phase r0) (set_run (\<lambda>r. r\<lparr>erBaseline := rs\<rparr>))"
  unfolding add_candidate_def put_candidate_def set_status_def
  by (rule set_run_keeps; simp add: header_def train_event_def)+

lemma set_run_test:
  "keeps (test_phase r0 l0 sel) (reject_run e)" "keeps (test_phase r0 l0 sel) (set_status st)"
  "keeps (test_phase r0 l0 sel) (set_run (\<lambda>r. r\<lparr>erValidation := rs\<rparr>))"
  unfolding reject_run_def set_status_def
  by (rule set_run_keeps; simp add: header_def test_event_def)+

lemmas train_rules = keeps_intros train_steps set_run_train ctx_err_keeps saveRun_keeps
lemmas test_rules = keeps_intros test_steps set_run_test ctx_err_keeps saveRun_keeps

lemma new_candidate_dirs:
  assumes "1 \<le> n" "n \<le> 20"
  shows "cdEditPath (new_candidate (run_dir r) (candidate_id n)) \<in> edit_dirs r" "cdTrainPath (new_candidate (run_dir r) (candidate_id n)) \<in> train_dirs r"
    "cdPatchPath (new_candidate (run_dir r) (candidate_id n)) \<in> patch_files r"
  using assms by (auto simp: new_candidate_def train_dirs_def edit_dirs_def patch_files_def)

lemma inspect_value_keeps: "(\<And>x. keeps I (f x)) \<Longrightarrow> keeps I (andThen (inspect g) f)"
  by (rule keeps_andThen [OF keeps_inspect])

lemma train_worktree:
  "header r0 run \<Longrightarrow> p \<in> train_dirs r0 \<union> edit_dirs r0 \<Longrightarrow> keeps (train_phase r0) (add_worktree lib (erRoot run) p (erBase run))"
  using train_steps(1) [of p r0 lib] by (simp only: header_def)

lemma train_candidate_phase:
  assumes "cdTrainPath c \<in> train_dirs r0" "cdPatchPath c \<in> patch_files r0"
  shows "keeps (train_phase r0) (train_candidate lib c patch paths best)"
proof -
  have "keeps (train_phase r0) (measure_candidate lib run (c\<lparr>cdDigest := d, cdPaths := ps, cdStatus := st\<rparr>) ci best)" if "header r0 run" for run d ps st ci
    unfolding measure_candidate_def using assms that by (auto intro!: train_rules inspect_value_keeps simp: header_def)
  then show ?thesis
    unfolding train_candidate_def Let_def using assms
    by (intro inspect_keeps keeps_andThen train_worktree train_steps(2,6) set_run_train keeps_inspect saveRun_keeps) simp_all
qed

lemma try_candidate_phase:
  assumes "1 \<le> index" "index \<le> 20"
  shows "keeps (train_phase r0) (try_candidate lib (run_dir r0) request index best)"
proof -
  let ?c = "new_candidate (run_dir r0) (candidate_id index)"
  note dirs = new_candidate_dirs [OF assms, of r0]
  have answer: "keeps (train_phase r0) (after_answer lib run ?c best answer)" for run answer
    unfolding after_answer_def reject_candidate_def using dirs
    by (auto intro!: train_rules train_candidate_phase)
  have propose: "keeps (train_phase r0) (propose lib (proposal run ?c index request))" if "header r0 run" for run
    using that by (intro propose_keeps) (simp add: train_event_def proposal_def header_def new_candidate_def)
  have worktree: "keeps (train_phase r0) (add_worktree lib (erRoot run) (cdEditPath ?c) (erBase run))" if "header r0 run" for run
    by (rule train_worktree [OF that]) (simp add: dirs)
  show ?thesis
    unfolding try_candidate_def Let_def
    by (intro keeps_andThen [OF ctx_err_keeps] inspect_keeps keeps_andThen [OF worktree] keeps_andThen answer propose)
qed

lemma candidate_loop_phase:
  "1 \<le> index \<Longrightarrow> index + left \<le> 21 \<Longrightarrow> keeps (train_phase r0) (candidate_loop lib (run_dir r0) request left index best)"
proof (induction left arbitrary: index best)
  case (Suc left)
  then show ?case by (auto intro!: keeps_andThen try_candidate_phase keeps_give split: turn.split)
qed (simp add: keeps_give)

lemma measure_baseline_phase: "keeps (train_phase r0) (measure_baseline lib (run_dir r0))"
  unfolding measure_baseline_def Let_def
  by (rule inspect_keeps) (auto intro!: train_rules simp: header_def train_dirs_def)

text \<open>The proposals are numbered from one, without gaps.\<close>

definition numbered :: "nat \<Rightarrow> 'w maint \<Rightarrow> bool" where
  "numbered k s \<longleftrightarrow> map piIndex (proposals (mtLog s)) = [1..<Suc k]"

definition numbered_upto :: "nat \<Rightarrow> 'w maint \<Rightarrow> bool" where
  "numbered_upto n s \<longleftrightarrow> (\<exists>k \<le> n. numbered k s)"

lemma numbered_uptoI: "numbered k s \<Longrightarrow> k \<le> n \<Longrightarrow> numbered_upto n s"
  unfolding numbered_upto_def by blast

lemma stable_numbered: "stable (numbered k)"
  by (simp add: stable_def numbered_def frame_def)

lemma set_run_numbered: "keeps (numbered k) (set_run f)"
  by (rule tripleI) (auto simp: set_run_def change_def numbered_def)

lemmas quiet_numbered = quiet_keeps [OF _ stable_numbered]

lemma train_candidate_numbered: "keeps (numbered k) (train_candidate lib c patch paths best)"
  unfolding train_candidate_def measure_candidate_def Let_def add_candidate_def put_candidate_def capturePatch_def
  by (intro keeps_andThen keeps_inspect keeps_rules keeps_attempt keeps_give keeps_fail set_run_numbered quiet_numbered quiet_steps)

lemma after_answer_numbered: "keeps (numbered k) (after_answer lib run c best answer)"
  unfolding after_answer_def reject_candidate_def add_candidate_def
  by (intro keeps_andThen keeps_rules keeps_give set_run_numbered train_candidate_numbered keeps_attempt keeps_stop_on quiet_numbered [OF quiet_saveRun])
    (simp add: capturePatch_def quiet_numbered quiet_capture)

lemma try_candidate_numbered:
  "triple (numbered k) (try_candidate lib dir request (Suc k) best) (\<lambda>_. numbered (Suc k)) (\<lambda>_. numbered_upto (Suc k))"
proof -
  have weak: "numbered j s \<Longrightarrow> j \<le> Suc k \<Longrightarrow> numbered_upto (Suc k) s" for j s by (auto simp: numbered_upto_def)
  have step: "triple (numbered k) (andThen m f) Q (\<lambda>_. numbered_upto (Suc k))"
    if "quiet m" "\<And>x. triple (numbered k) (f x) Q (\<lambda>_. numbered_upto (Suc k))" for m :: "('a maint, 'b) act" and f :: "'b \<Rightarrow> ('a maint, 'c) act" and Q
    by (rule triple_andThen [where R = "\<lambda>_. numbered k"], rule triple_weaken [OF quiet_numbered [OF that(1)]]) (auto intro: weak that)
  have propose: "triple (numbered k) (propose lib (proposal run c (Suc k) request)) (\<lambda>_. numbered (Suc k)) (\<lambda>_. numbered_upto (Suc k))" for run c
    by (rule tripleI) (auto simp: propose_def numbered_def proposal_def split: prod.splits)
  have answer: "triple (numbered (Suc k)) (after_answer lib run c best answer) (\<lambda>_. numbered (Suc k)) (\<lambda>_. numbered_upto (Suc k))" for run c answer
    by (rule triple_weaken [OF after_answer_numbered]) (auto intro: weak)
  show ?thesis
    unfolding try_candidate_def Let_def
    by (rule step [OF quiet_ctx_err], rule step [OF quiet_simple(3)], rule step [OF quiet_add_worktree], rule triple_andThen [OF propose answer])
qed

lemma numbered_upto_mono: "numbered_upto m s \<Longrightarrow> m \<le> n \<Longrightarrow> numbered_upto n s"
  by (auto simp: numbered_upto_def intro: le_trans)

lemma candidate_loop_numbered:
  "triple (numbered k) (candidate_loop lib dir request left (Suc k) best) (\<lambda>_. numbered_upto (k + left)) (\<lambda>_. numbered_upto (k + left))"
proof (induction left arbitrary: k best)
  case 0
  then show ?case by (auto intro!: triple_give simp: numbered_upto_def)
next
  case (Suc left)
  have weak: "triple (numbered k) (try_candidate lib dir request (Suc k) best) (\<lambda>_. numbered (Suc k)) (\<lambda>_. numbered_upto (k + Suc left))"
    by (rule triple_weaken [OF try_candidate_numbered]) (assumption, assumption, erule numbered_upto_mono, simp)
  have pass: "triple (numbered (Suc k)) (case t of Break \<Rightarrow> give best | Continue best' \<Rightarrow> candidate_loop lib dir request left (Suc (Suc k)) best')
      (\<lambda>_. numbered_upto (k + Suc left)) (\<lambda>_. numbered_upto (k + Suc left))" for t
  proof (cases t)
    case Break
    then show ?thesis by (auto intro!: triple_give intro: numbered_uptoI)
  next
    case (Continue best')
    then show ?thesis using Suc.IH [of "Suc k" best'] by simp
  qed
  show ?case by simp (rule triple_andThen [OF weak [simplified] pass [simplified]])
qed

lemma keeps_numbered_upto: "(\<And>j. keeps (numbered j) m) \<Longrightarrow> keeps (numbered_upto k) m"
  unfolding numbered_upto_def by (rule tripleI) (blast dest: triple_value triple_error)+

lemma measure_baseline_numbered: "keeps (numbered k) (measure_baseline lib dir)"
  unfolding measure_baseline_def Let_def
  by (intro keeps_andThen keeps_inspect keeps_rules keeps_give keeps_fail keeps_stop_on set_run_numbered quiet_numbered quiet_steps)

lemma set_status_numbered: "keeps (numbered_upto k) (set_status st)"
  unfolding set_status_def by (rule keeps_numbered_upto [OF set_run_numbered])

lemma validate_winner_numbered: "keeps (numbered_upto k) (validate_winner lib dir b)"
  unfolding validate_winner_def test_winner_def select_winner_def judge_winner_def reject_run_def set_status_def capturePatch_def
  by (rule keeps_numbered_upto)
    (intro keeps_andThen keeps_inspect keeps_rules keeps_attempt keeps_fail set_run_numbered quiet_numbered quiet_steps)

subsection \<open>Whole runs\<close>

lemma validateContract_bounds:
  assumes "validateContract c0 = Inr c"
  shows "1 \<le> coMaxCandidates c" "coMaxCandidates c \<le> 20" "0 \<le> coMaxRuns c" "coMaxRuns c \<le> 10000"
  using assms by (auto simp: validateContract_def Let_def split: if_splits sum.splits prod.splits)

lemma check_cases_names:
  "check_cases ids commands vs = Inr (ids', commands', vs') \<Longrightarrow> distinct commands \<Longrightarrow>
     distinct (map ecCommand vs') \<and> set (map ecCommand vs') \<inter> set commands = {} \<and> commands' = rev (map ecCommand vs') @ commands"
proof (induction vs arbitrary: ids commands ids' commands' vs')
  case (Cons v vs)
  then show ?case by (fastforce simp: Let_def split: if_splits sum.splits prod.splits)
qed simp

lemma validateContract_disjoint:
  assumes "validateContract c0 = Inr c"
  shows "set (map ecCommand (coTrain c)) \<inter> set (map ecCommand (coHoldout c)) = {}"
proof -
  obtain ids commands trains ids' commands' holdouts where
    "check_cases [] [] (coTrain c0) = Inr (ids, commands, trains)" "check_cases ids commands (coHoldout c0) = Inr (ids', commands', holdouts)"
    "coTrain c = trains" "coHoldout c = holdouts"
    using assms by (auto simp: validateContract_def Let_def split: if_splits sum.splits prod.splits)
  then show ?thesis using check_cases_names [of "[]" "[]" "coTrain c0"] check_cases_names [of ids commands "coHoldout c0"] by fastforce
qed

text \<open>The state in which the body starts.\<close>

definition started :: "'w maint_lib \<Rightarrow> string \<Rightarrow> 'w maint \<Rightarrow> bool" where
  "started lib rid s \<longleftrightarrow> erID (mtRun s) = rid \<and> erStatus (mtRun s) = ''running'' \<and> erRuns (mtRun s) = 0 \<and> erCandidates (mtRun s) = [] \<and>
     (\<exists>c0. validateContract c0 = Inr (erContract (mtRun s))) \<and> (\<exists>p. Abs (mlWd lib) p = Inr (erRoot (mtRun s))) \<and>
     erSelected (mtRun s) = '''' \<and> (\<exists>args. mtLog s = [Git (erRoot (mtRun s)) (''rev-parse'' # args)])"

lemma start_run_started:
  assumes "start_run lib ev rid c \<lparr>mtWorld = w, mtLog = [], mtRun = no_evolution\<rparr> = (Inr u, s)"
  shows "started lib rid s"
  using assms
  by (auto simp: start_run_def started_def act_defs git_def set_run_def no_evolution_def split: if_splits sum.splits prod.splits)

lemma start_run_stopped:
  assumes "start_run lib ev rid c \<lparr>mtWorld = w, mtLog = [], mtRun = no_evolution\<rparr> = (Inl e, s)"
  shows "mtRun s = no_evolution \<and> (mtLog s = [] \<or> (\<exists>d args. mtLog s = [Git d (''rev-parse'' # args)]))"
  using assms
  by (auto simp: start_run_def act_defs git_def set_run_def split: if_splits sum.splits prod.splits)

text \<open>The log of a run.\<close>

definition run_log :: "evolution \<Rightarrow> asked list \<Rightarrow> bool" where
  "run_log r l \<longleftrightarrow>
     int (length (verifs l)) \<le> coMaxRuns (erContract r) \<and> coMaxRuns (erContract r) \<le> 10000 \<and>
     (\<exists>k. map piIndex (proposals l) = [1..<Suc k] \<and> int k \<le> coMaxCandidates (erContract r) \<and> coMaxCandidates (erContract r) \<le> 20) \<and>
     set (map ecCommand (coTrain (erContract r))) \<inter> set (map ecCommand (coHoldout (erContract r))) = {} \<and>
     run_cut r l"

text \<open>The end of the body: the log so far, and with the record that the deferred function stores after it.\<close>

definition body_post :: "evolution \<Rightarrow> 'w maint \<Rightarrow> bool" where
  "body_post r0 s \<longleftrightarrow> header r0 (mtRun s) \<and> int (length (verifs (mtLog s))) \<le> coMaxRuns (erContract r0) \<and>
     run_cut r0 (mtLog s) \<and> (\<forall>res now. run_cut r0 (mtLog s @ [Stored (mark_run res now (mtRun s))]))"

lemma mark_run_kept: "erSelected (mark_run res now r) = erSelected r" "erCandidates (mark_run res now r) = erCandidates r"
  "freezes (mark_run res now r) = freezes r"
  by (cases res; simp add: mark_run_def freezes_def)+

lemma run_inv_bound: "run_inv r0 l0 ok s \<Longrightarrow> header r0 (mtRun s) \<and> int (length (verifs (mtLog s))) \<le> coMaxRuns (erContract r0)"
  unfolding run_inv_def by linarith

lemma run_inv_log: "run_inv r0 l0 ok s \<Longrightarrow> \<exists>x. mtLog s = l0 @ x \<and> (\<forall>a \<in> set x. ok a)"
  by (simp add: run_inv_def)

lemma train_phase_post:
  assumes "train_phase r0 s"
  shows "body_post r0 s"
proof -
  have log: "\<forall>a \<in> set (mtLog s). train_event r0 a" using run_inv_log [OF assms] by simp
  have "train_event r0 (Stored (mark_run res now (mtRun s)))" for res now
    using run_inv_stored [OF assms] by (simp add: train_event_def mark_run_kept)
  then show ?thesis using log run_inv_bound [OF assms] by (auto simp: body_post_def run_cut_def)
qed

lemma frozen_cut:
  "\<forall>a \<in> set l. train_event r0 a \<Longrightarrow> freezes sel \<Longrightarrow> \<forall>a \<in> set x. test_event r0 sel a \<Longrightarrow> run_cut r0 ((l @ [Stored sel]) @ x)"
  unfolding run_cut_def by (rule disjI2, intro exI [of _ l] exI [of _ sel] exI [of _ x]) simp

lemma test_phase_post:
  assumes "\<forall>a \<in> set l. train_event r0 a" "freezes sel" "test_phase r0 (l @ [Stored sel]) sel s"
  shows "body_post r0 s"
proof -
  obtain x where x: "mtLog s = (l @ [Stored sel]) @ x" "\<forall>a \<in> set x. test_event r0 sel a" using run_inv_log [OF assms(3)] by blast
  have "test_event r0 sel (Stored (mark_run res now (mtRun s)))" for res now
    using run_inv_stored [OF assms(3)] by (simp add: test_event_def mark_run_kept)
  then have "run_cut r0 (mtLog s @ [Stored (mark_run res now (mtRun s))])" for res now
    using frozen_cut [OF assms(1,2), of "x @ [Stored (mark_run res now (mtRun s))]"] x by simp
  then show ?thesis using frozen_cut [OF assms(1,2) x(2)] x(1) run_inv_bound [OF assms(3)] by (simp add: body_post_def)
qed

lemma judge_winner_phase:
  assumes "header r0 run" "erWorktree run = test_dir r0"
  shows "keeps (test_phase r0 l0 sel) (judge_winner lib run w results err)"
  unfolding judge_winner_def assms(2) by (auto intro!: test_rules)

lemma test_from_phase:
  assumes "header r0 run" "erWorktree run = test_dir r0"
  shows "keeps (test_phase r0 l0 sel) (andThen (add_worktree lib (erRoot run) (erWorktree run) (erBase run)) (\<lambda>_.
     andThen (apply_patch lib (erWorktree run) (cdPatchPath w)) (\<lambda>_.
     andThen (evaluate lib (erWorktree run) (coHoldout (erContract run)) []) (\<lambda>(results, err). judge_winner lib run w results err))))"
proof -
  have same: "erRoot run = erRoot r0" "erBase run = erBase r0" "erContract run = erContract r0" using assms(1) by (simp_all add: header_def)
  show ?thesis
    unfolding same assms(2)
    by (intro keeps_andThen test_steps triple_pair judge_winner_phase [OF assms])
qed

text \<open>The best candidate so far has been accepted.\<close>

definition picked :: "nat option \<Rightarrow> 'w maint \<Rightarrow> bool" where
  "picked best s \<longleftrightarrow>
     (case best of
        None \<Rightarrow> True
      | Some b \<Rightarrow> b < length (erCandidates (mtRun s)) \<and> cdStatus (erCandidates (mtRun s) ! b) = ''train_accepted'' \<and> cdID (erCandidates (mtRun s) ! b) \<noteq> '''')"

lemma held_picked: "held lib r1 n [] best s \<Longrightarrow> picked best s"
  unfolding held_def cands_ok_def picked_def by (auto split: option.splits dest!: nth_mem)

lemma validate_winner_post:
  assumes "train_phase r0 s" "picked (Some b) s"
  shows "body_post r0 (snd (validate_winner lib (run_dir r0) b s))"
proof -
  let ?w = "erCandidates (mtRun s) ! b"
  define sel where "sel = (mtRun s)\<lparr>erSelected := cdID ?w, erStatus := ''validating'', erWorktree := Join [run_dir r0, ''validated'']\<rparr>"
  let ?s = "s\<lparr>mtRun := sel\<rparr>" and ?l = "mtLog s"
  have hdr: "header r0 sel" "erWorktree sel = test_dir r0" using run_inv_bound [OF assms(1)] by (auto simp: sel_def header_def test_dir_def)
  have train: "\<forall>a \<in> set ?l. train_event r0 a" using run_inv_log [OF assms(1)] by simp
  have freeze: "freezes sel" using assms(2) by (auto simp: freezes_def sel_def picked_def)
  have kept: "test_event r0 sel (Stored sel)" by (simp add: test_event_def)
  have runs: "int (length (verifs ?l)) \<le> erRuns sel \<and> erRuns sel \<le> coMaxRuns (erContract r0)"
    using assms(1) by (simp add: run_inv_def sel_def)
  have go: "validate_winner lib (run_dir r0) b s = test_winner lib ?w ?s"
    by (simp add: validate_winner_def select_winner_def andThen_def inspect_def set_run_def change_def sel_def)
  obtain r t where save: "saveRun lib ?s = (r, t)" by (cases "saveRun lib ?s")
  have t: "mtRun t = sel" "mtLog t = ?l \<or> mtLog t = ?l @ [Stored sel]" "\<And>u. r = Inr u \<Longrightarrow> mtLog t = ?l @ [Stored sel]"
    using save by (auto simp: saveRun_def split: sum.splits prod.splits)
  show ?thesis
  proof (cases r)
    case (Inl e)
    then have stopped: "snd (validate_winner lib (run_dir r0) b s) = t" by (simp add: go test_winner_def andThen_def save)
    from t(2) show ?thesis
    proof
      assume l: "mtLog t = ?l"
      have "run_cut r0 (?l @ [Stored (mark_run res now sel)])" for res now
        using frozen_cut [OF train, of "mark_run res now sel" "[]"] freeze by (simp add: mark_run_kept)
      then show ?thesis using train hdr(1) runs l t(1) unfolding stopped by (simp add: body_post_def run_cut_def)
    next
      assume l: "mtLog t = ?l @ [Stored sel]"
      then have "test_phase r0 (?l @ [Stored sel]) sel t" using hdr(1) runs t(1) kept by (simp add: run_inv_def)
      from test_phase_post [OF train freeze this] show ?thesis unfolding stopped .
    qed
  next
    case (Inr u)
    have phase: "test_phase r0 (?l @ [Stored sel]) sel t" using hdr(1) runs t(1) t(3) [OF Inr] kept by (simp add: run_inv_def)
    show ?thesis
      using test_phase_post [OF train freeze triple_either [OF test_from_phase [OF hdr, of _ _ lib ?w] phase]] Inr
      by (simp add: go test_winner_def andThen_def [of "saveRun lib"] andThen_def [of "inspect mtRun"] save inspect_def t(1))
  qed
qed

lemma evolve_from_numbered: "triple (numbered 0) (evolve_from lib dir n request) (\<lambda>_. numbered_upto n) (\<lambda>_. numbered_upto n)"
proof -
  have loop: "triple (numbered 0) (candidate_loop lib dir request n 1 None) (\<lambda>_. numbered_upto n) (\<lambda>_. numbered_upto n)"
    using candidate_loop_numbered [of 0 lib dir request n None] by simp
  show ?thesis
    unfolding evolve_from_def
    by (rule triple_andThen [where R = "\<lambda>_. numbered 0"], rule triple_weaken [OF measure_baseline_numbered], assumption, assumption,
        erule numbered_uptoI, simp, rule triple_andThen [OF loop], rule triple_option, rule set_status_numbered, rule validate_winner_numbered)
qed

text \<open>The candidates at the start of the loop.\<close>

lemma measure_baseline_held:
  "triple (\<lambda>s. header r0 (mtRun s) \<and> not_ready s \<and> erCandidates (mtRun s) = []) (measure_baseline lib dir)
     (\<lambda>_ s. header r0 (mtRun s) \<and> not_ready s \<and> erCandidates (mtRun s) = []) (\<lambda>_. not_ready)"
proof -
  let ?P = "\<lambda>s. header r0 (mtRun s) \<and> not_ready s \<and> erCandidates (mtRun s) = []"
  have st: "stable ?P" by (auto simp: stable_def frame_def header_def)
  have set: "keeps ?P (set_run (\<lambda>r. r\<lparr>erBaseline := rs\<rparr>))" for rs
    by (rule tripleI) (auto simp: set_run_def change_def header_def)
  have "keeps ?P (measure_baseline lib dir)"
    unfolding measure_baseline_def Let_def
    by (intro keeps_andThen keeps_inspect keeps_rules keeps_give keeps_fail keeps_stop_on set quiet_keeps [OF _ st] quiet_steps)
  then show ?thesis by (rule triple_weaken) auto
qed

lemma start_held:
  "header r0 (mtRun s) \<Longrightarrow> not_ready s \<Longrightarrow> erCandidates (mtRun s) = [] \<Longrightarrow> held lib (r0\<lparr>erBaseline := erBaseline (mtRun s)\<rparr>) 1 [] None s"
  by (simp add: held_def header_def cands_ok_def)

lemma loop_picked:
  assumes "n \<le> 20"
  shows "triple (\<lambda>s. header r0 (mtRun s) \<and> not_ready s \<and> erCandidates (mtRun s) = []) (candidate_loop lib (run_dir r0) request n 1 None) picked (\<lambda>_ _. True)"
proof (rule tripleI, goal_cases)
  case (1 s x t)
  let ?r1 = "r0\<lparr>erBaseline := erBaseline (mtRun s)\<rparr>"
  have "run_dir ?r1 = run_dir r0" by (simp add: run_dir_def)
  then have "triple (held lib ?r1 1 [] None) (candidate_loop lib (run_dir r0) request n 1 None) (\<lambda>best s. \<exists>k. held lib ?r1 k [] best s \<and> k \<le> 21) (\<lambda>_. not_ready)"
    using candidate_loop_held [of 1 n lib ?r1 None request] assms by simp
  from triple_value [OF this start_held 1(2)] 1(1) show ?case using held_picked by blast
qed simp

lemma evolve_from_post:
  assumes "n \<le> 20"
  shows "triple (\<lambda>s. train_phase r0 s \<and> not_ready s \<and> erCandidates (mtRun s) = []) (evolve_from lib (run_dir r0) n request) (\<lambda>_. body_post r0) (\<lambda>_. body_post r0)"
proof -
  let ?P = "\<lambda>s. train_phase r0 s \<and> not_ready s \<and> erCandidates (mtRun s) = []"
  have base: "triple ?P (measure_baseline lib (run_dir r0)) (\<lambda>_. ?P) (\<lambda>_. body_post r0)"
    by (rule triple_weaken [OF triple_conj [OF measure_baseline_phase measure_baseline_held]])
      (auto intro: train_phase_post simp: run_inv_def)
  have loop: "triple ?P (candidate_loop lib (run_dir r0) request n 1 None) (\<lambda>best s. train_phase r0 s \<and> picked best s) (\<lambda>_. body_post r0)"
    using assms by (intro triple_weaken [OF triple_conj [OF candidate_loop_phase loop_picked]]) (auto intro: train_phase_post simp: run_inv_def)
  have last: "triple (\<lambda>s. train_phase r0 s \<and> picked best s)
      (case best of None \<Rightarrow> set_status ''rejected'' | Some b \<Rightarrow> validate_winner lib (run_dir r0) b) (\<lambda>_. body_post r0) (\<lambda>_. body_post r0)" for best
  proof (cases best)
    case None
    then show ?thesis by (auto intro!: triple_weaken [OF set_run_train(3)] train_phase_post)
  next
    case (Some b)
    then show ?thesis using validate_winner_post [of r0 _ b lib] by (auto intro!: tripleI) (metis snd_conv)+
  qed
  show ?thesis
    unfolding evolve_from_def by (rule triple_andThen [OF base], rule triple_andThen [OF loop last])
qed

lemma evolve_from_holds:
  assumes root: "rooted_run r0" and n: "n \<le> 20"
  shows "triple (\<lambda>s. header r0 (mtRun s) \<and> not_ready s \<and> erCandidates (mtRun s) = []) (evolve_from lib (run_dir r0) n request) (\<lambda>_. verdict_state lib) (\<lambda>_. not_ready)"
  unfolding evolve_from_def
proof (rule triple_andThen [OF measure_baseline_held])
  fix u
  let ?Q = "\<lambda>s. header r0 (mtRun s) \<and> not_ready s \<and> erCandidates (mtRun s) = []"
  have rest: "triple (held lib (r0\<lparr>erBaseline := bl\<rparr>) 1 [] None) (andThen (candidate_loop lib (run_dir r0) request n 1 None) (\<lambda>best.
        case best of None \<Rightarrow> set_status ''rejected'' | Some b \<Rightarrow> validate_winner lib (run_dir r0) b)) (\<lambda>_. verdict_state lib) (\<lambda>_. not_ready)" for bl
  proof -
    let ?r1 = "r0\<lparr>erBaseline := bl\<rparr>"
    have dir: "run_dir ?r1 = run_dir r0" "rooted_run ?r1" using root by (simp_all add: run_dir_def rooted_run_def)
    have loop: "triple (held lib ?r1 1 [] None) (candidate_loop lib (run_dir r0) request n 1 None) (\<lambda>best s. \<exists>k \<le> 21. held lib ?r1 k [] best s) (\<lambda>_. not_ready)"
      using candidate_loop_held [of 1 n lib ?r1 None request] n dir(1) by (auto elim!: triple_weaken)
    have reject: "triple (\<lambda>s. \<exists>k \<le> 21. held lib ?r1 k [] None s) (set_status ''rejected'') (\<lambda>_. verdict_state lib) (\<lambda>_. not_ready)"
      by (rule tripleI) (auto simp: set_status_def set_run_def change_def verdict_state_def)
    have win: "triple (\<lambda>s. \<exists>k \<le> 21. held lib ?r1 k [] (Some b) s) (validate_winner lib (run_dir r0) b) (\<lambda>_. verdict_state lib) (\<lambda>_. not_ready)" for b
      using validate_winner_holds [OF dir(2), of lib b] dir(1) by simp
    show ?thesis
    proof (rule triple_andThen [OF loop], goal_cases)
      case (1 best)
      show ?case by (cases best) (simp_all add: reject win)
    qed
  qed
  show "triple ?Q (andThen (candidate_loop lib (run_dir r0) request n 1 None) (\<lambda>best.
        case best of None \<Rightarrow> set_status ''rejected'' | Some b \<Rightarrow> validate_winner lib (run_dir r0) b)) (\<lambda>_. verdict_state lib) (\<lambda>_. not_ready)"
  proof (rule tripleI, goal_cases)
    case (1 s x t)
    then show ?case using triple_value [OF rest [of "erBaseline (mtRun s)"] start_held 1(2)] by blast
  next
    case (2 s e t)
    then show ?case using triple_error [OF rest [of "erBaseline (mtRun s)"] start_held 2(2)] by blast
  qed
qed

lemma saveRun_log: "saveRun lib s = (r, t) \<Longrightarrow> mtRun t = mtRun s \<and> (mtLog t = mtLog s \<or> mtLog t = mtLog s @ [Stored (mtRun s)])"
  by (auto simp: saveRun_def split: sum.splits prod.splits)

lemma finish_run_marks:
  assumes "finish_run lib r s = (e, t)"
  shows "mtRun t = mark_run r (mlClock lib (mtWorld s)) (mtRun s)" "mtLog t = mtLog s \<or> mtLog t = mtLog s @ [Stored (mtRun t)]"
  using assms by (auto simp: finish_run_def split: prod.splits dest!: saveRun_log)

lemma header_mark_run [simp]: "header r0 (mark_run r now run) \<longleftrightarrow> header r0 run"
  by (cases r) (simp_all add: mark_run_def header_def)

lemma mark_run_fields:
  "erCandidates (mark_run r now run) = erCandidates run" "erBaseline (mark_run r now run) = erBaseline run"
  "erContract (mark_run r now run) = erContract run" "erRoot (mark_run r now run) = erRoot run" "erID (mark_run r now run) = erID run"
  "erSelected (mark_run r now run) = erSelected run" "erValidation (mark_run r now run) = erValidation run" "erWorktree (mark_run r now run) = erWorktree run"
  by (cases r; simp add: mark_run_def)+

lemma mark_run_ready:
  assumes "erStatus (mark_run r now run) = ''candidate_ready''"
  shows "erStatus run = ''candidate_ready''"
  using assms by (cases r) (auto simp: mark_run_def split: if_splits)

lemma earned_mark_run:
  assumes "earned lib l run" "erStatus (mark_run r now run) = ''candidate_ready''"
  shows "earned lib (l @ x) (mark_run r now run)"
proof -
  have st: "erStatus (mark_run r now run) = erStatus run" using assms(2) mark_run_ready [OF assms(2)] by simp
  have same: "check_record (mark_run r now run) = check_record run" "erCandidates (mark_run r now run) = erCandidates run"
    "erBaseline (mark_run r now run) = erBaseline run" "run_dir (mark_run r now run) = run_dir run" "erContract (mark_run r now run) = erContract run"
    by (simp_all only: check_record_def run_dir_def mark_run_fields st)
  show ?thesis using assms(1) accepted_mono unfolding earned_def same by blast
qed

lemma run_log_header:
  assumes "header r0 r"
  shows "run_log r l = run_log r0 l"
proof -
  have same: "erContract r = erContract r0" "erRoot r = erRoot r0" "erBase r = erBase r0" "run_dir r = run_dir r0"
    using assms by (auto simp: run_dir_def header_def)
  have "train_event r = train_event r0" "test_event r = test_event r0"
    by (intro ext; simp only: train_event_def test_event_def git_ok_def train_dirs_def edit_dirs_def test_dir_def patch_files_def same)+
  then show ?thesis by (simp only: run_log_def run_cut_def same)
qed

text \<open>The body, run from the stored start.\<close>

lemma body_of_started:
  assumes s: "started lib rid s" and saved: "saveRun lib s = (Inr u, s1)" and body: "evolve_body lib request s1 = (r, t)"
  shows "body_post (mtRun s) t" "numbered_upto (nat (coMaxCandidates (erContract (mtRun s)))) t"
    "rooted_run (mtRun s) \<Longrightarrow> verdict_state lib t"
proof -
  let ?r0 = "mtRun s"
  from saveRun_log [OF saved] have s1: "mtRun s1 = ?r0" "mtLog s1 = mtLog s \<or> mtLog s1 = mtLog s @ [Stored ?r0]" by simp_all
  from s obtain c0 where c: "validateContract c0 = Inr (erContract ?r0)" unfolding started_def by blast
  note bounds = validateContract_bounds [OF c]
  have train: "train_phase ?r0 s1"
    using s s1 bounds by (auto simp: run_inv_def started_def header_def train_event_def git_ok_def verifs_def)
  have zero: "numbered 0 s1" using s s1 by (auto simp: numbered_def started_def proposals_def)
  have go: "evolve_from lib (run_dir ?r0) (nat (coMaxCandidates (erContract ?r0))) request s1 = (r, t)"
    using body s1(1) by (simp add: evolve_body_def andThen_def inspect_def)
  have small: "nat (coMaxCandidates (erContract ?r0)) \<le> 20" using bounds(2) by simp
  have pre: "header ?r0 (mtRun s1) \<and> not_ready s1 \<and> erCandidates (mtRun s1) = []" using s s1(1) by (simp add: started_def header_def)
  show "body_post ?r0 t" using triple_either [OF evolve_from_post [OF small], of ?r0 s1 lib request] train pre go by (metis snd_conv)
  show "numbered_upto (nat (coMaxCandidates (erContract ?r0))) t" using triple_either [OF evolve_from_numbered zero] go by (metis snd_conv)
  assume root: "rooted_run ?r0"
  show "verdict_state lib t"
  proof (cases r)
    case (Inl e)
    then show ?thesis using triple_error [OF evolve_from_holds [OF root small], of s1 lib request e t] pre go by (simp add: verdict_state_def)
  next
    case (Inr x)
    then show ?thesis using triple_value [OF evolve_from_holds [OF root small], of s1 lib request x t] pre go by simp
  qed
qed

lemma Evolve_cases:
  assumes "Evolve lib ev rid request c w = (run, err, w', l)"
  obtains (stopped) "run = no_evolution" "l = [] \<or> (\<exists>d args. l = [Git d (''rev-parse'' # args)])"
    | (unsaved) s where "started lib rid s" "run = mtRun s" "l = mtLog s \<or> l = mtLog s @ [Stored run]"
    | (ran) s s1 r t now where "started lib rid s" "saveRun lib s = (Inr (), s1)" "evolve_body lib request s1 = (r, t)"
        "run = mark_run r now (mtRun t)" "l = mtLog t \<or> l = mtLog t @ [Stored run]"
proof -
  let ?s0 = "\<lparr>mtWorld = w, mtLog = [], mtRun = no_evolution\<rparr>"
  obtain r0 s where start: "start_run lib ev rid c ?s0 = (r0, s)" by (cases "start_run lib ev rid c ?s0")
  show thesis
  proof (cases r0)
    case (Inl e)
    then show thesis using start assms start_run_stopped [of lib ev rid c w e s] by (auto simp: Evolve_def intro!: stopped)
  next
    case (Inr u)
    then have st: "started lib rid s" using start start_run_started [of lib ev rid c w u s] by simp
    obtain r1 s1 where save: "saveRun lib s = (r1, s1)" by (cases "saveRun lib s")
    note s1 = saveRun_log [OF save]
    show thesis
    proof (cases r1)
      case (Inl e)
      then show thesis using start Inr save s1 assms by (intro unsaved [OF st]) (auto simp: Evolve_def)
    next
      case saved: (Inr u')
      obtain r t where body: "evolve_body lib request s1 = (r, t)" by (cases "evolve_body lib request s1")
      obtain e t' where fin: "finish_run lib r t = (e, t')" by (cases "finish_run lib r t")
      have "run = mtRun t'" "l = mtLog t'" using assms start Inr save saved body fin by (auto simp: Evolve_def)
      then show thesis using finish_run_marks [OF fin] save saved by (intro ran [OF st _ body]) auto
    qed
  qed
qed

lemma ran_log:
  assumes "started lib rid s" "saveRun lib s = (Inr (), s1)" "evolve_body lib request s1 = (r, t)"
    "run = mark_run r now (mtRun t)" "l = mtLog t \<or> l = mtLog t @ [Stored run]"
  shows "run_log run l"
proof -
  let ?r0 = "mtRun s"
  from assms(1) obtain c0 where c: "validateContract c0 = Inr (erContract ?r0)" unfolding started_def by blast
  note post = body_of_started(1) [OF assms(1-3)] and num = body_of_started(2) [OF assms(1-3)]
  have cut: "run_cut ?r0 l" using post assms(4,5) by (auto simp: body_post_def)
  from num obtain k where k: "map piIndex (proposals (mtLog t)) = [1..<Suc k]" "k \<le> nat (coMaxCandidates (erContract ?r0))"
    unfolding numbered_upto_def numbered_def by blast
  have counts: "verifs l = verifs (mtLog t)" "proposals l = proposals (mtLog t)" using assms(5) by auto
  have "int k \<le> coMaxCandidates (erContract ?r0)" using k(2) validateContract_bounds(1) [OF c] by linarith
  then have "run_log ?r0 l"
    unfolding run_log_def counts using post cut k(1) validateContract_bounds [OF c] validateContract_disjoint [OF c]
    by (simp only: body_post_def) blast
  then show ?thesis using run_log_header [of ?r0 run l] post assms(4) by (simp add: body_post_def)
qed

text \<open>C33. Holdout cases stay out of generation. However git, the sandbox, the callback and the files behave, the log of a run is cut
  where the record that freezes the winner is stored (\<open>validating\<close>, selecting a train-accepted candidate), if it comes to that. Before,
  stored records select nothing, only commands of train cases run, in the worktrees \<open>baseline\<close> and \<open>candidate-NN/train\<close>, and the callback is
  handed \<open>candidate-NN/edit\<close> of its index and the train cases. After, nothing is proposed, no patch is written, records keep selection and
  candidates, and only commands of holdout cases run, in \<open>validated\<close>. In the checkout git only resolves revisions and adds those worktrees.
  No command is in both splits. At most \<open>MaxVerifierRuns\<close> verifier runs (10000), at most \<open>MaxCandidates\<close> callbacks (20), numbered from one.
  A run that does not start runs nothing. (Worktrees are named below the run directory; for an ID as \<open>NewID\<close> gives they are inside it.)\<close>

theorem holdout_stays_out_of_generation:
  "case Evolve lib ev rid request c w of (run, err, w', l) \<Rightarrow>
     (run = no_evolution \<and> verifs l = [] \<and> proposals l = []) \<or> run_log run l"
proof -
  obtain run err w' l where e: "Evolve lib ev rid request c w = (run, err, w', l)" by (cases "Evolve lib ev rid request c w")
  from e have "(run = no_evolution \<and> verifs l = [] \<and> proposals l = []) \<or> run_log run l"
  proof (cases rule: Evolve_cases)
    case stopped
    then show ?thesis by auto
  next
    case (unsaved s)
    then obtain c0 where c: "validateContract c0 = Inr (erContract (mtRun s))" unfolding started_def by blast
    have none: "verifs l = []" "proposals l = []" using unsaved by (auto simp: started_def verifs_def proposals_def)
    have "\<forall>a \<in> set l. train_event run a" using unsaved by (auto simp: started_def train_event_def git_ok_def)
    then have "run_cut run l" by (simp add: run_cut_def)
    then have "run_log run l"
      unfolding run_log_def none using validateContract_bounds [OF c] validateContract_disjoint [OF c] unsaved(2)
      by (auto intro!: exI [of _ "0 :: nat"])
    then show ?thesis by blast
  next
    case (ran s s1 r t now)
    then show ?thesis using ran_log by blast
  qed
  then show ?thesis by (simp add: e)
qed

text \<open>C34. A ready candidate is earned. When a run ends with \<open>candidate_ready\<close>, the check that activation makes of its record succeeds: every
  holdout case was measured under its own ID and passed, the selected candidate strictly improved on the baseline without losing a passing
  train case, its patch and worktree are the run's own. That candidate changed only allowed paths, its digest is the one of a patch the run
  stored, and no accepted candidate passed more train cases. The run identifier has the form that \<open>NewID\<close> gives, and the working
  directory is absolute.\<close>

theorem ready_candidate_is_earned:
  assumes run: "Evolve lib ev rid request c w = (run, err, w', l)" and ready: "erStatus run = ''candidate_ready''"
    and id: "runIDPattern rid" and wd: "\<And>d. mlWd lib = Inr d \<Longrightarrow> IsAbs d"
  shows "earned lib l run"
  using run
proof (cases rule: Evolve_cases)
  case stopped
  then show ?thesis using ready by (simp add: no_evolution_def)
next
  case (unsaved s)
  then show ?thesis using ready by (simp add: started_def)
next
  case (ran s s1 r t now)
  then obtain p where p: "Abs (mlWd lib) p = Inr (erRoot (mtRun s))" "erID (mtRun s) = rid" unfolding started_def by blast
  have "rooted_run (mtRun s)"
    unfolding rooted_run_def using Abs_clean [OF p(1) wd] runIDPattern_plain [OF id] p(2) by auto
  then have v: "verdict_state lib t" using body_of_started(3) [OF ran(1-3)] by blast
  have st: "erStatus (mark_run r now (mtRun t)) = ''candidate_ready''" using ready ran(4) by simp
  then have "earned lib (mtLog t) (mtRun t)" using v mark_run_ready [OF st] by (simp add: verdict_state_def)
  from earned_mark_run [OF this st] have "\<And>x. earned lib (mtLog t @ x) run" using ran(4) by simp
  then show ?thesis using ran(5) by (metis append_Nil2)
qed

text \<open>A run in which the first proposal repairs the program; the world counts the verifier runs.\<close>

definition demo_maint :: "nat maint_lib" where
  "demo_maint =
     \<lparr>mlGit = (\<lambda>d args w.
        (Inr (if List.hd args = ''rev-parse'' then ''abc''
              else if args ! 1 = ''--name-only'' then ''code.txt'' @ [NUL]
              else if args ! 1 = ''--binary'' then ''patch'' else ''''), w)),
      mlPropose = (\<lambda>i w. (None, w)),
      mlRun = (\<lambda>command d seconds w. ((None, if w = 0 then 1 else 0, '''', ''''), Suc w)),
      mlCtx = (\<lambda>w. None), mlClock = (\<lambda>w. 0), mlReplace = (\<lambda>p b w. (None, w)), mlReadFile = (\<lambda>p w. Inr ''patch''),
      mlRealPath = (\<lambda>p w. Inr ''/w''), mlLstat = (\<lambda>p w. Inr (Some True)), mlRunJSON = (\<lambda>r. Inr ''{}''), mlContractJSON = (\<lambda>c. ''{}''),
      mlDigest = (\<lambda>b. b), mlWd = Inr ''/w''\<rparr>"

definition demo_contract :: contract where
  "demo_contract = no_contract\<lparr>coTrain := [\<lparr>ecID = ''t'', ecCommand = ''make test'', ecTimeout = 0\<rparr>],
     coHoldout := [\<lparr>ecID = ''h'', ecCommand = ''make check'', ecTimeout = 0\<rparr>], coAllowed := [''code.txt''], coMaxCandidates := 1\<rparr>"

definition demo_full :: contract where
  "demo_full = \<lparr>coTrain = [\<lparr>ecID = ''t'', ecCommand = ''make test'', ecTimeout = 60\<rparr>], coHoldout = [\<lparr>ecID = ''h'', ecCommand = ''make check'', ecTimeout = 60\<rparr>],
     coAllowed = [''code.txt''], coProtected = [], coMaxCandidates = 1, coMaxRuns = 3, coTimeout = 600\<rparr>"

definition demo_id :: string where
  "demo_id = ''evolve_20240101-000000.000000-0123abcd''"

definition demo_evolution :: "evolution \<times> gerr option \<times> nat \<times> asked list" where
  "demo_evolution = Evolve demo_maint \<lparr>ekApproved = True, ekProposes = True, ekRoot = ''.'', ekBase = ''''\<rparr> demo_id ''repair'' demo_contract 0"

text \<open>Evaluation goes from call to call: the continuation of a call is not looked at before its value is known.\<close>

lemma call_congs: "s = s' \<Longrightarrow> andThen m f s = andThen m f s'" "s = s' \<Longrightarrow> attempt m s = attempt m s'"
  by simp_all

lemma demo_maint_calls:
  "mlGit demo_maint d (x # args) w = (Inr (if x = ''rev-parse'' then ''abc'' else if args ! 0 = ''--name-only'' then ''code.txt'' @ [NUL] else if args ! 0 = ''--binary'' then ''patch'' else ''''), w)"
  "mlPropose demo_maint i w = (None, w)" "mlRun demo_maint c d t w = ((None, if w = 0 then 1 else 0, '''', ''''), Suc w)" "mlCtx demo_maint w = None"
  "mlClock demo_maint w = 0" "mlReplace demo_maint p b w = (None, w)" "mlRealPath demo_maint p w = Inr ''/w''" "mlLstat demo_maint p w = Inr (Some True)"
  "mlRunJSON demo_maint r = Inr ''{}''" "mlDigest demo_maint b = b" "mlWd demo_maint = Inr ''/w''"
  by (simp_all add: demo_maint_def)

lemma demo_values:
  "validateContract demo_contract = Inr demo_full" "Abs (Inr ''/w'') ''.'' = Inr ''/w''" "cleanRelative ''code.txt'' = Inr ''code.txt''"
  "allowedChanges [''code.txt''] demo_full = None" "Split (TrimSuffix [CHR ''c'', CHR ''o'', CHR ''d'', CHR ''e'', CHR ''.'', CHR ''t'', CHR ''x'', CHR ''t'', NUL] [NUL]) NUL = [''code.txt'']"
  "TrimSpace ''abc'' = ''abc''" "coMaxCandidates demo_full = 1" "coMaxRuns demo_full = 3"
  "coTrain demo_full = [\<lparr>ecID = ''t'', ecCommand = ''make test'', ecTimeout = 60\<rparr>]" "coHoldout demo_full = [\<lparr>ecID = ''h'', ecCommand = ''make check'', ecTimeout = 60\<rparr>]"
  by code_simp+

definition demo_result :: "string \<Rightarrow> bool \<Rightarrow> case_result" where
  "demo_result i ok = \<lparr>rsID = i, rsPassed = ok, rsExit = (if ok then 0 else 1), rsError = '''', rsOutput = boundedOutput newline, rsDuration = 0\<rparr>"

text \<open>The state after \<open>n\<close> verifier runs.\<close>

definition demo_state :: "nat \<Rightarrow> case_result list \<Rightarrow> nat maint \<Rightarrow> bool" where
  "demo_state n bl s \<longleftrightarrow> mtWorld s = n \<and> erRuns (mtRun s) = int n \<and> erContract (mtRun s) = demo_full \<and> erBase (mtRun s) = ''abc'' \<and>
     erBaseline (mtRun s) = bl \<and> erStatus (mtRun s) \<noteq> ''candidate_ready''"

lemmas demo_steps = demo_maint_calls demo_values act_defs git_def set_run_def saveRun_def ctx_err_def verify_def case_outcome_def Let_def
  add_worktree_def apply_patch_def capturePatch_def captureCandidatePatch_def replace_file_def add_candidate_def put_candidate_def

declare evaluate.simps [simp del] allowedChanges.simps [simp del]

lemma demo_baseline:
  assumes "demo_state 0 [] s" "erCandidates (mtRun s) = []"
  shows "\<exists>t. measure_baseline demo_maint d s = (Inr (), t) \<and> demo_state 1 [demo_result ''t'' False] t \<and> erCandidates (mtRun t) = []"
  using assms by (simp add: measure_baseline_def evaluate.simps demo_state_def demo_steps demo_result_def newline_def cong: call_congs)

lemma demo_capture:
  "\<exists>t. capturePatch demo_maint d ''abc'' s = (Inr (''patch'', [''code.txt'']), t) \<and> mtRun t = mtRun s \<and> mtWorld t = mtWorld s"
  by (simp add: demo_steps cong: call_congs)

lemma demo_evaluate:
  assumes "demo_state n bl s" "0 < n" "n < 3"
  shows "\<exists>t. evaluate demo_maint d [\<lparr>ecID = i, ecCommand = c, ecTimeout = 60\<rparr>] [] s = (Inr ([demo_result i True], None), t) \<and>
     mtRun t = (mtRun s)\<lparr>erRuns := int (Suc n)\<rparr> \<and> mtWorld t = Suc n"
  using assms by (simp add: evaluate.simps demo_state_def demo_steps demo_result_def newline_def cong: call_congs)

lemma andThen_Inr: "m s = (Inr x, t) \<Longrightarrow> andThen m f s = f x t"
  by (simp add: andThen_def)

lemma demo_measure:
  assumes s: "demo_state 1 [demo_result ''t'' False] s" "erCandidates (mtRun s) = [c0]" and c: "cdDigest c = ''patch''"
    and run0: "coTrain (erContract run0) = [\<lparr>ecID = ''t'', ecCommand = ''make test'', ecTimeout = 60\<rparr>]" "erBase run0 = ''abc''"
  shows "\<exists>t c'. measure_candidate demo_maint run0 c 0 None s = (Inr (Some 0), t) \<and> demo_state 2 [demo_result ''t'' False] t \<and>
     erCandidates (mtRun t) = [c'] \<and> cdDigest c' = ''patch''"
proof -
  obtain t1 where t1: "evaluate demo_maint (cdTrainPath c) [\<lparr>ecID = ''t'', ecCommand = ''make test'', ecTimeout = 60\<rparr>] [] s = (Inr ([demo_result ''t'' True], None), t1)"
    "mtRun t1 = (mtRun s)\<lparr>erRuns := 2\<rparr>" "mtWorld t1 = 2" using demo_evaluate [OF s(1), of "cdTrainPath c" "''t''" "''make test''"] by (auto simp: numeral_2_eq_2)
  obtain t2 where t2: "capturePatch demo_maint (cdTrainPath c) ''abc'' t1 = (Inr (''patch'', [''code.txt'']), t2)" "mtRun t2 = mtRun t1" "mtWorld t2 = mtWorld t1"
    using demo_capture by blast
  show ?thesis
    using s c t1 t2 by (simp add: measure_candidate_def run0 judge_candidate_def improves_def passCount_def put_candidate_def demo_state_def demo_result_def
        act_defs set_run_def saveRun_def demo_maint_calls)
qed

lemma demo_train:
  assumes s: "demo_state 1 [demo_result ''t'' False] s" "erCandidates (mtRun s) = []"
  shows "\<exists>t c'. train_candidate demo_maint c0 ''patch'' [''code.txt''] None s = (Inr (Some 0), t) \<and> demo_state 2 [demo_result ''t'' False] t \<and>
     erCandidates (mtRun t) = [c'] \<and> cdDigest c' = ''patch''"
proof -
  let ?c = "c0\<lparr>cdDigest := ''patch'', cdPaths := [''code.txt''], cdStatus := ''training''\<rparr>"
  have run0: "coTrain (erContract (mtRun s)) = [\<lparr>ecID = ''t'', ecCommand = ''make test'', ecTimeout = 60\<rparr>]" "erBase (mtRun s) = ''abc''"
    using s(1) by (simp_all add: demo_state_def demo_values)
  have "\<exists>t. train_candidate demo_maint c0 ''patch'' [''code.txt''] None s = measure_candidate demo_maint (mtRun s) ?c 0 None t \<and>
      demo_state 1 [demo_result ''t'' False] t \<and> erCandidates (mtRun t) = [?c]"
    using s by (simp add: train_candidate_def demo_state_def demo_steps cong: call_congs) (rule exI, rule conjI [OF refl], simp)
  then show ?thesis using demo_measure [OF _ _ _ run0, of _ ?c ?c] by fastforce
qed

lemma demo_loop:
  assumes s: "demo_state 1 [demo_result ''t'' False] s" "erCandidates (mtRun s) = []"
  shows "\<exists>t c. candidate_loop demo_maint d ''repair'' 1 1 None s = (Inr (Some 0), t) \<and> demo_state 2 [demo_result ''t'' False] t \<and>
     erCandidates (mtRun t) = [c] \<and> cdDigest c = ''patch''"
proof -
  define c0 where "c0 = new_candidate d (candidate_id 1)"
  have "\<exists>t. try_candidate demo_maint d ''repair'' 1 None s = after_answer demo_maint (mtRun s) c0 None None t \<and>
      demo_state 1 [demo_result ''t'' False] t \<and> erCandidates (mtRun t) = []"
    using s by (simp add: c0_def try_candidate_def propose_def demo_state_def demo_steps cong: call_congs) (rule exI, rule conjI [OF refl], simp)
  then obtain t0 where t0: "try_candidate demo_maint d ''repair'' 1 None s = after_answer demo_maint (mtRun s) c0 None None t0"
    "demo_state 1 [demo_result ''t'' False] t0" "erCandidates (mtRun t0) = []" by blast
  obtain t1 where t1: "capturePatch demo_maint (cdEditPath c0) ''abc'' t0 = (Inr (''patch'', [''code.txt'']), t1)" "mtRun t1 = mtRun t0" "mtWorld t1 = mtWorld t0"
    using demo_capture by blast
  obtain t c where t: "train_candidate demo_maint c0 ''patch'' [''code.txt''] None t1 = (Inr (Some 0), t)" "demo_state 2 [demo_result ''t'' False] t"
    "erCandidates (mtRun t) = [c]" "cdDigest c = ''patch''"
    using demo_train [of t1 c0] t0 t1 by (auto simp: demo_state_def)
  have run: "erContract (mtRun s) = demo_full" "erBase (mtRun s) = ''abc''" using s by (simp_all add: demo_state_def)
  have first: "andThen (capturePatch demo_maint (cdEditPath c0) ''abc'') f t0 = f (''patch'', [''code.txt'']) t1" for f :: "string \<times> string list \<Rightarrow> (nat maint, string \<times> string list) act"
    by (rule andThen_Inr) (rule t1(1))
  let ?capture = "attempt (andThen (capturePatch demo_maint (cdEditPath c0) ''abc'') (\<lambda>(patch, paths).
      andThen (stop_on (allowedChanges paths demo_full)) (\<lambda>_. give (patch, paths))))"
  have "?capture t0 = (Inr (Inr (''patch'', [''code.txt''])), t1)"
    unfolding attempt_def first by (simp add: andThen_def stop_on_def give_def demo_values)
  note step = andThen_Inr [of ?capture t0 "Inr (''patch'', [''code.txt''])" t1, OF this]
  have "after_answer demo_maint (mtRun s) c0 None None t0 =
      andThen (train_candidate demo_maint c0 ''patch'' [''code.txt''] None) (\<lambda>best'. give (Continue best')) t1"
    unfolding after_answer_def option.case run step by simp
  also have "\<dots> = (Inr (Continue (Some 0)), t)"
    unfolding andThen_Inr [of "train_candidate demo_maint c0 ''patch'' [''code.txt''] None" t1 "Some 0" t, OF t(1)] by (simp add: give_def)
  finally have "try_candidate demo_maint d ''repair'' 1 None s = (Inr (Continue (Some 0)), t)" unfolding t0(1) .
  then show ?thesis using t(2-4) by (simp add: andThen_def give_def)
qed

lemma demo_silent:
  "\<exists>t. saveRun demo_maint s = (Inr (), t) \<and> mtRun t = mtRun s \<and> mtWorld t = mtWorld s"
  "\<exists>t. add_worktree demo_maint d p base s = (Inr (), t) \<and> mtRun t = mtRun s \<and> mtWorld t = mtWorld s"
  "\<exists>t. apply_patch demo_maint d p s = (Inr (), t) \<and> mtRun t = mtRun s \<and> mtWorld t = mtWorld s"
  by (simp_all add: demo_steps)

lemma demo_validation:
  assumes s: "demo_state 2 bl s" "erCandidates (mtRun s) = [c]" and c: "cdDigest c = ''patch''"
  shows "\<exists>t. validate_winner demo_maint d 0 s = (Inr (), t) \<and> erStatus (mtRun t) = ''candidate_ready''"
proof -
  define run where "run = (mtRun s)\<lparr>erSelected := cdID c, erStatus := ''validating'', erWorktree := Join [d, ''validated'']\<rparr>"
  define s1 where "s1 = s\<lparr>mtRun := run\<rparr>"
  have run: "coHoldout (erContract run) = [\<lparr>ecID = ''h'', ecCommand = ''make check'', ecTimeout = 60\<rparr>]" "erBase run = ''abc''"
    using s(1) by (simp_all add: run_def demo_state_def demo_values)
  have s1: "mtRun s1 = run" "demo_state 2 bl s1" using s(1) by (simp_all add: s1_def run_def demo_state_def)
  obtain s2 where s2: "saveRun demo_maint s1 = (Inr (), s2)" "mtRun s2 = run" "mtWorld s2 = mtWorld s1" using demo_silent(1) [of s1] s1(1) by auto
  obtain s3 where s3: "add_worktree demo_maint (erRoot run) (erWorktree run) (erBase run) s2 = (Inr (), s3)" "mtRun s3 = run" "mtWorld s3 = mtWorld s1"
    using demo_silent(2) [of _ _ _ s2] s2 by metis
  obtain s4 where s4: "apply_patch demo_maint (erWorktree run) (cdPatchPath c) s3 = (Inr (), s4)" "mtRun s4 = run" "mtWorld s4 = mtWorld s1"
    using demo_silent(3) [of _ _ s3] s3 by metis
  have "demo_state 2 bl s4" using s1 s4 by (simp add: demo_state_def)
  then obtain s5 where s5: "evaluate demo_maint (erWorktree run) (coHoldout (erContract run)) [] s4 = (Inr ([demo_result ''h'' True], None), s5)"
    using demo_evaluate [of 2 bl s4] run(1) by fastforce
  let ?s5 = "s5\<lparr>mtRun := (mtRun s5)\<lparr>erValidation := [demo_result ''h'' True]\<rparr>\<rparr>"
  obtain s6 where s6: "capturePatch demo_maint (erWorktree run) (erBase run) ?s5 = (Inr (''patch'', [''code.txt'']), s6)"
    using demo_capture [of _ ?s5] run(2) by metis
  have "validate_winner demo_maint d 0 s = judge_winner demo_maint run c [demo_result ''h'' True] None s5"
    unfolding validate_winner_def test_winner_def
    using s(2) s1(1) s2 s3(1) s4(1) s5
    by (simp add: inspect_def andThen_Inr select_winner_def set_run_def change_def andThen_def [of "inspect f" for f] andThen_def [of "set_run f" for f] run_def [symmetric] s1_def [symmetric])
  also have "\<dots> = (Inr (), s6\<lparr>mtRun := (mtRun s6)\<lparr>erStatus := ''candidate_ready''\<rparr>\<rparr>)"
    using s6 c run by (simp add: judge_winner_def set_status_def act_defs set_run_def demo_maint_calls passCount_def demo_result_def)
  finally show ?thesis by simp
qed

lemma demo_evolution_ready: "erStatus (fst demo_evolution) = ''candidate_ready''"
proof -
  obtain s where s: "start_run demo_maint \<lparr>ekApproved = True, ekProposes = True, ekRoot = ''.'', ekBase = ''''\<rparr> demo_id demo_contract
      \<lparr>mtWorld = 0, mtLog = [], mtRun = no_evolution\<rparr> = (Inr (), s)" "demo_state 0 [] s" "erCandidates (mtRun s) = []"
    by (simp add: start_run_def demo_steps no_evolution_def demo_state_def cong: call_congs)
  obtain s1 where s1: "saveRun demo_maint s = (Inr (), s1)" "demo_state 0 [] s1" "erCandidates (mtRun s1) = []"
    using s(2,3) by (simp add: saveRun_def demo_state_def demo_maint_calls)
  obtain t1 where t1: "measure_baseline demo_maint (run_dir (mtRun s1)) s1 = (Inr (), t1)" "demo_state 1 [demo_result ''t'' False] t1" "erCandidates (mtRun t1) = []"
    using demo_baseline [OF s1(2,3)] by blast
  obtain t2 c where t2: "candidate_loop demo_maint (run_dir (mtRun s1)) ''repair'' 1 1 None t1 = (Inr (Some 0), t2)" "demo_state 2 [demo_result ''t'' False] t2"
    "erCandidates (mtRun t2) = [c]" "cdDigest c = ''patch''"
    using demo_loop [OF t1(2,3)] by blast
  obtain t where t: "validate_winner demo_maint (run_dir (mtRun s1)) 0 t2 = (Inr (), t)" "erStatus (mtRun t) = ''candidate_ready''"
    using demo_validation [OF t2(2-4)] by blast
  have "coMaxCandidates (erContract (mtRun s1)) = 1" using s1(2) by (simp add: demo_state_def demo_values)
  then have "evolve_body demo_maint ''repair'' s1 = (Inr (), t)"
    using t1(1) t2(1) t(1) by (simp add: evolve_body_def evolve_from_def andThen_def inspect_def)
  then show ?thesis using s(1) s1(1) t(2) by (simp add: demo_evolution_def Evolve_def finish_run_def saveRun_def demo_maint_calls mark_run_def)
qed

theorem ready_candidate_is_earned_witness: "earned demo_maint (snd (snd (snd demo_evolution))) (fst demo_evolution)"
proof (rule ready_candidate_is_earned [of demo_maint _ demo_id _ _ _ _ "fst (snd demo_evolution)" "fst (snd (snd demo_evolution))"])
  show "Evolve demo_maint \<lparr>ekApproved = True, ekProposes = True, ekRoot = ''.'', ekBase = ''''\<rparr> demo_id ''repair'' demo_contract 0 =
      (fst demo_evolution, fst (snd demo_evolution), fst (snd (snd demo_evolution)), snd (snd (snd demo_evolution)))"
    by (simp add: demo_evolution_def)
  show "runIDPattern demo_id" by code_simp
  show "IsAbs d" if "mlWd demo_maint = Inr d" for d using that by (auto simp: demo_maint_calls IsAbs_def slash_def)
qed (rule demo_evolution_ready)

subsection \<open>The activation pointer\<close>

text \<open>The abstract pointer: a version and a stack of runs with their patch digests, the last one active.\<close>

type_synonym pointer = "64 word \<times> (string \<times> string) list"

definition pushed :: "64 word \<Rightarrow> string \<times> string \<Rightarrow> pointer \<Rightarrow> pointer \<Rightarrow> bool" where
  "pushed v k p q \<longleftrightarrow> fst p = v \<and>
     (if snd p \<noteq> [] \<and> fst (last (snd p)) = fst k then q = p else q = (v + 1, snd p @ [k]))"

definition popped :: "64 word \<Rightarrow> pointer \<Rightarrow> pointer \<Rightarrow> bool" where
  "popped v p q \<longleftrightarrow> fst p = v \<and> snd p \<noteq> [] \<and> q = (v + 1, butlast (snd p))"

definition pointer_key :: "activation \<Rightarrow> string \<times> string" where
  "pointer_key a = (atRunID a, atDigest a)"

definition pointer_state :: "activation_state \<Rightarrow> pointer" where
  "pointer_state s = (asVersion s, map pointer_key (asHistory s @ (case asActive s of None \<Rightarrow> [] | Some a \<Rightarrow> [a])))"

definition pointer_of :: "activation_state content \<Rightarrow> pointer" where
  "pointer_of d = (case decode no_activation d of Inl e \<Rightarrow> pointer_state no_activation | Inr s \<Rightarrow> pointer_state s)"

text \<open>What the operations keep: a pointer file that decodes, with no history behind an empty pointer.\<close>

definition pointer_ok :: "activation_state content \<Rightarrow> bool" where
  "pointer_ok d \<longleftrightarrow> (\<exists>s. decode no_activation d = Inr s \<and> (asActive s = None \<longrightarrow> asHistory s = []))"

text \<open>The evidence at the time of the call.\<close>

definition ready_now :: "'w maint_lib \<Rightarrow> (string \<Rightarrow> gerr + evolution) \<Rightarrow> string \<Rightarrow> 'w maint \<Rightarrow> string \<Rightarrow> activation \<Rightarrow> bool" where
  "ready_now lib unmarshal place s rid a \<longleftrightarrow> (\<exists>dir. Abs (mlWd lib) place = Inr dir \<and> fst (validateReady lib unmarshal dir rid s) = Inr a)"

lemma validateReady_run: "validateReady lib unmarshal place rid s = (Inr a, t) \<Longrightarrow> atRunID a = rid"
  by (auto simp: validateReady_def andThen_def given_def fail_def inspect_def stop_on_def Let_def ReadEvolution_def
      split: sum.splits prod.splits if_splits option.splits)

lemma pointer_of_Holds [simp]: "pointer_of (Holds s) = pointer_state s" "decode no_activation d = Inr s \<Longrightarrow> pointer_of d = pointer_state s"
  by (simp_all add: pointer_of_def)

lemma activate_fn_cases:
  assumes "activate_fn a rid expected s = (o1, Inr s')" "atRunID a = rid" "asActive s = None \<longrightarrow> asHistory s = []"
  shows "pushed expected (pointer_key a) (pointer_state s) (pointer_state s') \<and> (asActive s' = None \<longrightarrow> asHistory s' = [])"
  using assms by (auto simp: activate_fn_def pushed_def pointer_state_def pointer_key_def Let_def split: if_splits option.splits)

lemma rollback_fn_cases:
  assumes "rollback_fn previous expected s = (o1, Inr s')" "asActive s \<noteq> None"
    and "asHistory s = [] \<Longrightarrow> previous = None"
    and "asHistory s \<noteq> [] \<Longrightarrow> \<exists>a. previous = Some a \<and> pointer_key a = pointer_key (last (asHistory s))"
  shows "popped expected (pointer_state s) (pointer_state s') \<and> (asActive s' = None \<longrightarrow> asHistory s' = [])"
proof (cases "asHistory s = []")
  case True
  then show ?thesis using assms by (auto simp: rollback_fn_def Let_def popped_def pointer_state_def split: if_splits)
next
  case False
  then obtain a where "previous = Some a" "pointer_key a = pointer_key (last (asHistory s))" using assms(4) by blast
  moreover have "map pointer_key (butlast (asHistory s)) @ [pointer_key (last (asHistory s))] = map pointer_key (asHistory s)"
    using False by (metis append_butlast_last_id list.simps(8,9) map_append)
  ultimately show ?thesis using assms(1,2) by (auto simp: rollback_fn_def Let_def popped_def pointer_state_def butlast_append split: if_splits)
qed

lemma rollback_target_cases:
  assumes "rollback_target lib unmarshal dir current s = (Inr previous, t)"
  shows "asHistory current = [] \<Longrightarrow> previous = None"
    and "asHistory current \<noteq> [] \<Longrightarrow> \<exists>a. previous = Some a \<and> pointer_key a = pointer_key (last (asHistory current)) \<and>
      fst (validateReady lib unmarshal dir (atRunID (last (asHistory current))) s) = Inr a"
  using assms
  by (auto simp: rollback_target_def andThen_def attempt_def give_def fail_def pointer_key_def split: if_splits sum.splits prod.splits dest: validateReady_run)

lemma Activate_push:
  assumes d: "pointer_ok d" and r: "Activate lib unmarshal lease e place rid v approved s d = ((st, err), s', d')"
  shows "(d' = d \<and> err \<noteq> None) \<or> (pointer_ok d' \<and> approved \<and> (\<exists>a. ready_now lib unmarshal place s rid a \<and> pushed v (pointer_key a) (pointer_of d) (pointer_of d')))"
proof (cases "approved \<and> (\<exists>dir a t. Abs (mlWd lib) place = Inr dir \<and> lease = None \<and> validateReady lib unmarshal dir rid s = (Inr a, t))")
  case False
  then show ?thesis using r by (auto simp: Activate_def split: if_splits sum.splits option.splits prod.splits)
next
  case True
  then obtain dir a t where a: "approved" "Abs (mlWd lib) place = Inr dir" "lease = None" "validateReady lib unmarshal dir rid s = (Inr a, t)" by blast
  then have upd: "file_update no_activation e no_activation (activate_fn a rid v) d = ((st, err), d')"
    using r by (auto simp: Activate_def split: prod.splits)
  then show ?thesis
  proof (cases rule: file_update_cases)
    case unchanged
    then show ?thesis by simp
  next
    case (written x x')
    from activate_fn_cases [OF written(2) validateReady_run [OF a(4)]] d written(1)
    have "pushed v (pointer_key a) (pointer_state x) (pointer_state x') \<and> (asActive x' = None \<longrightarrow> asHistory x' = [])" by (auto simp: pointer_ok_def)
    moreover have "ready_now lib unmarshal place s rid a" using a by (auto simp: ready_now_def)
    ultimately show ?thesis using written a(1) by (auto simp: pointer_ok_def)
  qed
qed

lemma Rollback_pop:
  assumes d: "pointer_ok d" and r: "Rollback lib unmarshal lease er eu place v approved s d = ((st, err), s', d')"
  shows "(d' = d \<and> err \<noteq> None) \<or> (pointer_ok d' \<and> approved \<and> popped v (pointer_of d) (pointer_of d') \<and>
     (snd (pointer_of d') \<noteq> [] \<longrightarrow> (\<exists>a. ready_now lib unmarshal place s (fst (last (snd (pointer_of d')))) a \<and> pointer_key a = last (snd (pointer_of d')))))"
proof (cases "\<exists>dir current previous t. approved \<and> Abs (mlWd lib) place = Inr dir \<and> lease = None \<and> file_read no_activation er d = (current, None) \<and>
    asVersion current = v \<and> asActive current \<noteq> None \<and> rollback_target lib unmarshal dir current s = (Inr previous, t)")
  case False
  then show ?thesis using r by (auto simp: Rollback_def split: if_splits sum.splits option.splits prod.splits)
next
  case True
  then obtain dir current previous t where c: "approved" "Abs (mlWd lib) place = Inr dir" "lease = None" "file_read no_activation er d = (current, None)"
    "asVersion current = v" "asActive current \<noteq> None" "rollback_target lib unmarshal dir current s = (Inr previous, t)" by blast
  then have upd: "file_update no_activation eu no_activation (rollback_fn previous v) d = ((st, err), d')"
    using r by (auto simp: Rollback_def split: prod.splits)
  have cur: "decode no_activation d = Inr current" using file_read_done [OF c(4)] .
  note target = rollback_target_cases [OF c(7)]
  show ?thesis using upd
  proof (cases rule: file_update_cases)
    case unchanged
    then show ?thesis by simp
  next
    case (written x x')
    have x: "x = current" using written(1) cur by simp
    have pop: "popped v (pointer_state current) (pointer_state x') \<and> (asActive x' = None \<longrightarrow> asHistory x' = [])"
      using rollback_fn_cases [OF written(2) [unfolded x] c(6)] target by blast
    have "\<exists>a. ready_now lib unmarshal place s (fst (last (snd (pointer_state x')))) a \<and> pointer_key a = last (snd (pointer_state x'))" if ne: "snd (pointer_state x') \<noteq> []"
    proof (cases "asHistory current = []")
      case True
      then show ?thesis using ne target(1) written(2) x by (auto simp: rollback_fn_def Let_def pointer_state_def split: if_splits)
    next
      case False
      then obtain a where a: "previous = Some a" "pointer_key a = pointer_key (last (asHistory current))"
        "fst (validateReady lib unmarshal dir (atRunID (last (asHistory current))) s) = Inr a" using target(2) by blast
      have "last (snd (pointer_state x')) = pointer_key a" using written(2) a(1) x by (auto simp: rollback_fn_def Let_def pointer_state_def split: if_splits)
      then show ?thesis using a(2,3) c(2) by (auto simp: ready_now_def pointer_key_def)
    qed
    then show ?thesis using pop written cur x c(1) by (auto simp: pointer_ok_def)
  qed
qed

text \<open>The pointer files that the operations make, in any world, from an absent one.\<close>

inductive pointer_file :: "'w maint_lib \<Rightarrow> (string \<Rightarrow> gerr + evolution) \<Rightarrow> activation_state content \<Rightarrow> bool"
  for lib unmarshal where
  no_pointer: "pointer_file lib unmarshal Absent"
| activated: "pointer_file lib unmarshal d \<Longrightarrow> Activate lib unmarshal lease e place rid v approved s d = (r, s', d') \<Longrightarrow> pointer_file lib unmarshal d'"
| rolled_back: "pointer_file lib unmarshal d \<Longrightarrow> Rollback lib unmarshal lease er eu place v approved s d = (r, s', d') \<Longrightarrow> pointer_file lib unmarshal d'"

lemma pointer_file_ok: "pointer_file lib unmarshal d \<Longrightarrow> pointer_ok d"
proof (induction rule: pointer_file.induct)
  case no_pointer
  then show ?case by (simp add: pointer_ok_def no_activation_def)
next
  case (activated d lease e place rid v approved s r s' d')
  then show ?case using Activate_push [of d] by (cases r) blast
next
  case (rolled_back d lease er eu place v approved s r s' d')
  then show ?case using Rollback_pop [of d] by (cases r) blast
qed

lemma ResolveActiveRoot_top:
  assumes d: "pointer_ok d" and r: "ResolveActiveRoot lib unmarshal e place s d = (Inr root_dir, s')"
  shows "(snd (pointer_of d) = [] \<and> Abs (mlWd lib) place = Inr root_dir) \<or>
    (\<exists>a. ready_now lib unmarshal place s (fst (last (snd (pointer_of d)))) a \<and> pointer_key a = last (snd (pointer_of d)) \<and> root_dir = atWorktree a)"
proof -
  obtain dir st where dir: "Abs (mlWd lib) place = Inr dir" "file_read no_activation e d = (st, None)"
    using r by (auto simp: ResolveActiveRoot_def split: sum.splits option.splits prod.splits)
  have st: "decode no_activation d = Inr st" using file_read_done [OF dir(2)] .
  show ?thesis
  proof (cases "asActive st")
    case None
    then show ?thesis using r d dir st by (auto simp: ResolveActiveRoot_def pointer_ok_def pointer_state_def)
  next
    case (Some b)
    then obtain a t where a: "validateReady lib unmarshal dir (atRunID b) s = (Inr a, t)" "atDigest a = atDigest b" "root_dir = atWorktree a"
      using r dir by (auto simp: ResolveActiveRoot_def split: sum.splits prod.splits if_splits)
    then show ?thesis using dir(1) st Some validateReady_run [OF a(1)] by (auto simp: pointer_state_def ready_now_def pointer_key_def)
  qed
qed

text \<open>C35. The activation pointer refines a versioned stack. From an absent file, whatever calls were made in whatever world: a call of
  \<open>Activate\<close> that leaves the stack changed, or returns without error, was approved, named the current version, and pushed a run whose
  evidence and worktree were valid at that time (a run that is active already stays); a call of \<open>Rollback\<close> that does was approved, named
  the current version, and popped exactly one entry, and the entry it makes active again is valid at that time. \<open>ResolveActiveRoot\<close> gives
  the source checkout for an empty stack, and otherwise the worktree of the top entry, whose content still has the activated digest.\<close>

theorem activation_is_a_versioned_stack:
  assumes "pointer_file lib unmarshal d"
  shows "(case Activate lib unmarshal lease e place rid v approved s d of ((st, err), s', d') \<Rightarrow>
      (d' = d \<and> err \<noteq> None) \<or>
      (approved \<and> (\<exists>a. ready_now lib unmarshal place s rid a \<and> pushed v (pointer_key a) (pointer_of d) (pointer_of d')))) \<and>
    (case Rollback lib unmarshal lease er eu place v approved s d of ((st, err), s', d') \<Rightarrow>
      (d' = d \<and> err \<noteq> None) \<or>
      (approved \<and> popped v (pointer_of d) (pointer_of d') \<and>
       (snd (pointer_of d') = [] \<or>
        (\<exists>a. ready_now lib unmarshal place s (fst (last (snd (pointer_of d')))) a \<and> pointer_key a = last (snd (pointer_of d')))))) \<and>
    (case ResolveActiveRoot lib unmarshal e place s d of
        (Inl x, s') \<Rightarrow> True
      | (Inr root_dir, s') \<Rightarrow>
          (snd (pointer_of d) = [] \<and> Abs (mlWd lib) place = Inr root_dir) \<or>
          (\<exists>a. ready_now lib unmarshal place s (fst (last (snd (pointer_of d)))) a \<and> pointer_key a = last (snd (pointer_of d)) \<and> root_dir = atWorktree a))"
proof (intro conjI, goal_cases)
  case 1
  show ?case using Activate_push [OF pointer_file_ok [OF assms]] by (fastforce split: prod.split)
next
  case 2
  show ?case using Rollback_pop [OF pointer_file_ok [OF assms]] by (fastforce split: prod.split)
next
  case 3
  show ?case using ResolveActiveRoot_top [OF pointer_file_ok [OF assms]] by (fastforce split: prod.split sum.split)
qed

text \<open>The record of a ready run, as read back.\<close>

definition demo_record :: evolution where
  "demo_record = no_evolution\<lparr>erSchema := ''gopherharness.evolution.v1'', erID := demo_id, erStatus := ''candidate_ready'', erRoot := ''/w'', erBase := ''abc'',
     erContract := demo_full, erContractDigest := ''{}'', erBaseline := [demo_result ''t'' False],
     erCandidates := [(new_candidate (''/w/.pico/maintenance/'' @ demo_id) ''candidate-01'')\<lparr>cdStatus := ''train_accepted'', cdDigest := ''patch'', cdTrain := [demo_result ''t'' True]\<rparr>],
     erSelected := ''candidate-01'', erValidation := [demo_result ''h'' True], erWorktree := ''/w/.pico/maintenance/'' @ demo_id @ ''/validated''\<rparr>"

definition demo_start :: "nat maint" where
  "demo_start = \<lparr>mtWorld = 0, mtLog = [], mtRun = no_evolution\<rparr>"

definition demo_unmarshal :: "string \<Rightarrow> gerr + evolution" where
  "demo_unmarshal b = Inr demo_record"

lemma demo_record_values:
  "runIDPattern demo_id" "case check_record demo_record of Inl e \<Rightarrow> False | Inr c \<Rightarrow> cdDigest c = ''patch''" "Abs (Inr ''/w'') ''/w'' = Inr ''/w''"
  by code_simp+

lemma demo_record_fields:
  "erSchema demo_record = ''gopherharness.evolution.v1''" "erID demo_record = demo_id" "erRoot demo_record = ''/w''" "erBase demo_record = ''abc''"
  "erContract demo_record = demo_full" "erContractDigest demo_record = ''{}''" "mlReadFile demo_maint p w = Inr ''patch''" "mlContractJSON demo_maint c = ''{}''"
  by (simp_all add: demo_record_def demo_maint_def)

lemma demo_ready: "\<exists>a t. validateReady demo_maint demo_unmarshal ''/w'' demo_id demo_start = (Inr a, t)"
proof -
  obtain c where c: "check_record demo_record = Inr c" "cdDigest c = ''patch''" using demo_record_values(2) by (auto split: sum.splits)
  have read: "ReadEvolution demo_maint demo_unmarshal w ''/w'' demo_id = Inr demo_record" for w
    by (simp add: ReadEvolution_def demo_record_values demo_record_fields demo_maint_calls demo_unmarshal_def)
  have "\<exists>t. captureCandidatePatch demo_maint d ''abc'' False s = (Inr (''patch'', [''code.txt'']), t)" for d s
    by (simp add: demo_steps cong: call_congs)
  then obtain t where t: "captureCandidatePatch demo_maint (Join [erRoot demo_record, ''.pico'', ''maintenance'', erID demo_record, ''validated'']) ''abc'' False demo_start = (Inr (''patch'', [''code.txt'']), t)" by blast
  show ?thesis
    using t by (simp add: validateReady_def act_defs read c demo_record_fields demo_maint_calls demo_values Let_def cong: call_congs)
qed

theorem activation_is_a_versioned_stack_witness:
  "\<exists>d a. pointer_of d = (1, [(demo_id, ''patch'')]) \<and> fst (ResolveActiveRoot demo_maint demo_unmarshal io_ok ''/w'' demo_start d) = Inr (atWorktree a) \<and>
     ready_now demo_maint demo_unmarshal ''/w'' demo_start demo_id a"
proof -
  obtain a t where a: "validateReady demo_maint demo_unmarshal ''/w'' demo_id demo_start = (Inr a, t)" using demo_ready by blast
  have key: "pointer_key a = (demo_id, ''patch'')"
    using a demo_record_values(2) validateReady_run [OF a] 
    by (auto simp: pointer_key_def validateReady_def andThen_def given_def fail_def inspect_def stop_on_def Let_def ReadEvolution_def demo_unmarshal_def
        split: sum.splits prod.splits if_splits option.splits)
  let ?d = "Holds \<lparr>asVersion = 1, asActive = Some a, asHistory = []\<rparr>"
  have abs: "Abs (mlWd demo_maint) ''/w'' = Inr ''/w''" by (simp add: demo_maint_calls demo_record_values)
  have "Activate demo_maint demo_unmarshal None io_ok ''/w'' demo_id 0 True demo_start Absent =
      ((\<lparr>asVersion = 1, asActive = Some a, asHistory = []\<rparr>, None), t, ?d)"
    using a abs by (simp add: Activate_def activate_fn_def no_activation_def Let_def)
  then have d: "pointer_file demo_maint demo_unmarshal ?d" by (rule activated [OF no_pointer])
  have top: "pointer_of ?d = (1, [(demo_id, ''patch'')])" using key by (simp add: pointer_state_def)
  have root: "fst (ResolveActiveRoot demo_maint demo_unmarshal io_ok ''/w'' demo_start ?d) = Inr (atWorktree a)"
    using a abs validateReady_run [OF a] by (simp add: ResolveActiveRoot_def)
  have "case ResolveActiveRoot demo_maint demo_unmarshal io_ok ''/w'' demo_start ?d of
      (Inl x, s') \<Rightarrow> True
    | (Inr root_dir, s') \<Rightarrow>
        (snd (pointer_of ?d) = [] \<and> Abs (mlWd demo_maint) ''/w'' = Inr root_dir) \<or>
        (\<exists>a. ready_now demo_maint demo_unmarshal ''/w'' demo_start (fst (last (snd (pointer_of ?d)))) a \<and>
          pointer_key a = last (snd (pointer_of ?d)) \<and> root_dir = atWorktree a)"
    using activation_is_a_versioned_stack [OF d, where lease = None and e = io_ok and place = "''/w''" and rid = demo_id and v = 0 and
        approved = True and s = demo_start and er = io_ok and eu = io_ok] by (elim conjE)
  then obtain b where "ready_now demo_maint demo_unmarshal ''/w'' demo_start demo_id b" "atWorktree a = atWorktree b"
    using top root by (cases "ResolveActiveRoot demo_maint demo_unmarshal io_ok ''/w'' demo_start ?d") auto
  then show ?thesis using top root by metis
qed

end
