(* ===== verification/Spec2Isabelle.thy ===== *)
theory Spec2Isabelle
  imports Budget Clients Conversation Schema Registry Batch Budgeted Approvals Journal Scheduler Delivery Gateway Curator Engine Sessions Workers Facts Outbox Resilient Resume Service Wire Redact Evolution
begin

text \<open>
  A model of \<open>gopherharness\<close>, a Go harness that runs a tool-using language model as an agent: a conversation is
  kept in a ledger, every turn builds a request for a model provider, runs the tool calls of the answer under
  permissions, and goes on until a final answer; a gateway feeds conversations from chat platforms and hands results
  back. Paths below are relative to \<open>src/internal\<close>.

  \<^bold>\<open>Foundations.\<close> \<open>Prelude\<close>: Go errors as the datatype \<open>gerr\<close> with \<open>errors.Is\<close> and \<open>errors.As\<close>, Go maps as association lists
  (\<open>gomap\<close>), the wrap-around of \<open>int64\<close>, string functions of the standard library. \<open>Durable\<close>: \<open>durable/file.go\<close>, a file that is
  read and replaced under a lock, with the outcome of every step as an argument (not written, written but not
  synced, written). \<open>Tracing\<close>: \<open>tracing/tracing.go\<close>. \<open>Model\<close>: messages and tool calls of \<open>model/types.go\<close>.

  \<^bold>\<open>Paying for model calls.\<close> \<open>Pricing\<close> (\<open>provider/usage.go\<close> and the prices of \<open>provider/budget.go\<close>), \<open>Budget\<close> (the account of
  \<open>provider/budget.go\<close> as a state machine of reserve, claim, settle, release, recover, reconcile), \<open>Clients\<close> (the tree of provider
  wrappers), \<open>Budgeted\<close> (one call through the account, with other processes on the same file) and \<open>Resilient\<close> (the retries of
  \<open>provider/policy.go\<close> and \<open>chat.go\<close>). The limit is an invariant of every history, a request reaches the provider only with a
  claimed reservation, and an answer that was partly shown is not asked for again.

  \<^bold>\<open>Tools.\<close> \<open>Schema\<close> (\<open>tools/schema.go\<close>), \<open>Registry\<close> (\<open>tools/tools.go\<close>, \<open>tools/invocation.go\<close>), \<open>Batch\<close> (\<open>tools/batch.go\<close>), \<open>Approvals\<close>
  (\<open>permission/store.go\<close>, \<open>permission/permission.go\<close>), \<open>Readiness\<close> (\<open>governance\<close>), \<open>ToolRun\<close> (one tool call: \<open>runtime/tool_approval.go\<close>,
  \<open>tool_preflight.go\<close> and \<open>executeTool\<close>) and \<open>ToolBatch\<close> (the calls of one answer: \<open>runtime/tool_batch.go\<close>). A risky call runs once, with
  consent, and for the definition that was approved.

  \<^bold>\<open>Conversations and requests.\<close> \<open>Conversation\<close> (both validators of tool exchanges, with a grammar as their specification),
  \<open>Recovery\<close> (\<open>runtime/recovery.go\<close>), \<open>Turns\<close> and \<open>Context\<close> (\<open>contextbuilder/curator.go\<close>, \<open>builder.go\<close>, \<open>messages.go\<close>), \<open>Curator\<close>
  (\<open>curator_loop.go\<close>, \<open>curator_store.go\<close>) and \<open>Engine\<close> (\<open>runtime/engine.go\<close>, \<open>turn_context.go\<close>, \<open>worker_results.go\<close>). Requests fit their
  window and consist of whole turns; turns and the curator end within their budgets. \<open>Resume\<close> (\<open>Agent.Ask\<close> and
  \<open>runtime/approval_continuation.go\<close>) takes up a batch that stopped at an approval; results journalled before a crash are put back
  once. \<open>Sessions\<close> (\<open>store/store.go\<close>) refines the
  store of conversations to a compare-and-swap register whose owner changes with every claim, and \<open>Workers\<close>
  (\<open>worker/manager.go\<close>, \<open>results.go\<close>) bounds the background workers of a conversation and keeps their receipts final.

  \<^bold>\<open>Memory across conversations.\<close> \<open>Facts\<close> (the transactions of \<open>memory/backend.go\<close>: facts with their sources, conflicts, dreams) and
  \<open>Outbox\<close> (\<open>memory/outbox.go\<close>: evidence waits in a durable queue until the run that produced it is known to be committed). A subject
  has at most one active fact, a stored turn is applied once, accepted evidence is kept until it is stored or given up.

  \<^bold>\<open>Serving.\<close> \<open>Journal\<close> (\<open>journal/journal.go\<close>), \<open>Scheduler\<close> (\<open>scheduler/scheduler.go\<close>), \<open>Delivery\<close> (\<open>delivery/hub.go\<close>, \<open>durable.go\<close>) and \<open>Gateway\<close>
  (\<open>gateway/gateway.go\<close>, \<open>reconcile.go\<close>): no request is lost or run twice, superseded owners are fenced, results go back where
  their request came from. \<open>Service\<close> (\<open>runtime/service.go\<close>, \<open>service_routes.go\<close>, \<open>service_workers.go\<close>, \<open>service_summary_recovery.go\<close>,
  \<open>worker_summary_store.go\<close>) binds conversations to sessions and hands the summaries of their workers to the sink.

  \<^bold>\<open>On the wire.\<close> \<open>EventStream\<close> (\<open>provider/sse.go\<close>: the reader of event streams on \<open>bufio.Scanner\<close>, whatever pieces the body arrives in),
  \<open>Wire\<close> (\<open>provider/chat.go\<close>, \<open>chat_stream.go\<close>, \<open>http.go\<close>: requests, answers and streams of the two protocols over a JSON codec) and
  \<open>Redact\<close> (\<open>redact/redact.go\<close>). What an event stream carries is what the handler gets and a broken one delivers whole events only; a request
  answers every tool call it shows; an answer assembled from a stream is the answer the plain call would have parsed; a configured
  secret is left in a redacted value only as the name of an object field, which the code copies.

  \<^bold>\<open>Maintenance.\<close> \<open>Effects\<close> (actions that fail and change a state, with triples for their effects), \<open>Paths\<close> (lexical file paths of
  \<open>path/filepath\<close>) and \<open>Evolution\<close> (\<open>maintenance/evolve.go\<close>, \<open>activation.go\<close>): candidates of a self-maintenance run are generated,
  measured and validated over calls to git, the sandbox and the proposer, which are the world of the model. The held-out cases stay out of
  generation, a run is ready only with the evidence the code means to ask for, and the activation pointer is a versioned stack.

  \<^bold>\<open>How code becomes definitions.\<close> Structs are records whose field prefix names the struct, operations are
  functions that return their error and the changed state, and every early return is a branch. What the operating system, a
  remote service, the clock, or a library (JSON, hashes, the redactor, token counters) decides is an argument,
  usually one record \<open>..._env\<close> or \<open>..._lib\<close> per component, indexed by the call where a loop asks again. Concurrent components
  (scheduler, hub, gateway, journal, account) are step functions over the state their mutex or file lock protects; properties
  quantify over every sequence of steps. Interfaces that clients rely on are locales, interpreted on these definitions.

  \<^bold>\<open>Loops.\<close> Loops over data are structural recursion. Where the code may repeat, the bound is the code's own and a lemma shows
  that it is enough: the curator stops after \<open>DefaultCuratorSteps\<close>, a batch of calls needs at most one round per call
  (\<open>executeToolBatch_total\<close>), a turn at most one iteration per allowed attempt (\<open>turn_loop_effect\<close>).

  \<^bold>\<open>Not modelled.\<close> Terminal and command-line programs, HTTP servers and the transport of HTTP clients, chat adapters, the MCP bridge,
  sandboxed processes and evaluation jobs: their content is input and output. Of maintenance, \<open>Manager.Fix\<close> and \<open>Manager.Issue\<close>,
  \<open>PatchProposal\<close> and \<open>ReadContract\<close> are left out. Recorded events, traces and
  timestamps of a turn are left out where nothing reads them back.
\<close>

end
